(* ===== verification/Prelude.thy ===== *)
theory Prelude
  imports Complex_Main "HOL-Library.AList" "HOL-Library.Multiset" "HOL-Library.Char_ord"
begin

text \<open>
  Shared vocabulary of the development: strings and their helpers, JavaScript numbers,
  insertion-ordered records (the model of plain objects and of \<open>Map\<close>), and the generic
  lemmas on lists that several components use.

  Conventions. A JavaScript string is a \<open>string\<close>, a list of code units; code units above 255
  are outside the model. Times and durations are exact rationals (\<open>rat\<close>); the rounding of
  IEEE doubles is not modelled, the special values NaN and the infinities are (\<open>jsnum\<close>).
  A \<open>Map\<close> or a plain object is an association list in insertion order: \<open>map_of\<close> reads it,
  \<open>AList.update\<close> replaces in place or appends, \<open>AList.delete\<close> removes.
\<close>

named_theorems sdk_simps \<open>unfolding equations the component proofs share\<close>
named_theorems sdk_inv \<open>invariant preservation facts\<close>

type_synonym ms = rat
type_synonym 'v dict = "(string \<times> 'v) list"
type_synonym headers = "string dict"

section \<open>JavaScript numbers\<close>

datatype jsnum = NaN | PosInf | NegInf | Fin rat

fun js_is_nan :: "jsnum \<Rightarrow> bool" where
  "js_is_nan NaN = True"
| "js_is_nan _ = False"

fun js_is_finite :: "jsnum \<Rightarrow> bool" where
  "js_is_finite (Fin _) = True"
| "js_is_finite _ = False"

fun js_gt :: "jsnum \<Rightarrow> rat \<Rightarrow> bool" where
  "js_gt NaN _ = False"
| "js_gt PosInf _ = True"
| "js_gt NegInf _ = False"
| "js_gt (Fin a) b = (a > b)"

fun js_scale :: "rat \<Rightarrow> jsnum \<Rightarrow> jsnum" where
  "js_scale _ NaN = NaN"
| "js_scale k PosInf = (if k = 0 then NaN else if k > 0 then PosInf else NegInf)"
| "js_scale k NegInf = (if k = 0 then NaN else if k > 0 then NegInf else PosInf)"
| "js_scale k (Fin a) = Fin (k * a)"

fun js_minus :: "jsnum \<Rightarrow> rat \<Rightarrow> jsnum" where
  "js_minus NaN _ = NaN"
| "js_minus PosInf _ = PosInf"
| "js_minus NegInf _ = NegInf"
| "js_minus (Fin a) b = Fin (a - b)"

section \<open>Strings\<close>

definition code_unit :: "char \<Rightarrow> nat" where
  "code_unit c = of_char c"

definition lower_char :: "char \<Rightarrow> char" where
  "lower_char c = (if 65 \<le> code_unit c \<and> code_unit c \<le> 90 then char_of (code_unit c + 32) else c)"

definition upper_char :: "char \<Rightarrow> char" where
  "upper_char c = (if 97 \<le> code_unit c \<and> code_unit c \<le> 122 then char_of (code_unit c - 32) else c)"

definition to_lower :: "string \<Rightarrow> string" where
  "to_lower s = map lower_char s"

definition to_upper :: "string \<Rightarrow> string" where
  "to_upper s = map upper_char s"

definition LF :: char where "LF = CHR 0x0A"
definition CR :: char where "CR = CHR 0x0D"

lemma LF_CR_distinct [simp]: "LF \<noteq> CR" "CR \<noteq> LF"
  by (simp_all add: LF_def CR_def)

definition is_space :: "char \<Rightarrow> bool" where
  "is_space c = (code_unit c \<in> {9, 10, 11, 12, 13, 32, 160})"

definition trim :: "string \<Rightarrow> string" where
  "trim s = rev (dropWhile is_space (rev (dropWhile is_space s)))"

fun starts_with :: "string \<Rightarrow> string \<Rightarrow> bool" where
  "starts_with s [] = True"
| "starts_with [] (p # ps) = False"
| "starts_with (c # cs) (p # ps) = (c = p \<and> starts_with cs ps)"

definition ends_with :: "string \<Rightarrow> string \<Rightarrow> bool" where
  "ends_with s p = starts_with (rev s) (rev p)"

fun contains :: "string \<Rightarrow> string \<Rightarrow> bool" where
  "contains [] p = (p = [])"
| "contains (c # cs) p = (starts_with (c # cs) p \<or> contains cs p)"

definition contains_ci :: "string \<Rightarrow> string \<Rightarrow> bool" where
  "contains_ci s p = contains (to_lower s) (to_lower p)"

definition is_digit :: "char \<Rightarrow> bool" where
  "is_digit c = (48 \<le> code_unit c \<and> code_unit c \<le> 57)"

definition digit_val :: "char \<Rightarrow> nat" where
  "digit_val c = code_unit c - 48"

definition digits_val :: "string \<Rightarrow> nat" where
  "digits_val s = foldl (\<lambda>n c. 10 * n + digit_val c) 0 s"

fun nat_to_string :: "nat \<Rightarrow> string" where
  "nat_to_string n =
     (if n < 10 then [char_of (48 + n)] else nat_to_string (n div 10) @ [char_of (48 + n mod 10)])"

declare nat_to_string.simps [simp del]

definition int_to_string :: "int \<Rightarrow> string" where
  "int_to_string i = (if i < 0 then CHR ''-'' # nat_to_string (nat (- i)) else nat_to_string (nat i))"

fun join :: "string \<Rightarrow> string list \<Rightarrow> string" where
  "join sep [] = []"
| "join sep [x] = x"
| "join sep (x # y # xs) = x @ sep @ join sep (y # xs)"

lemma starts_with_append [simp]: "starts_with (p @ s) p"
  by (induction p) auto

lemma starts_with_iff: "starts_with s p \<longleftrightarrow> (\<exists>r. s = p @ r)"
  by (induction s p rule: starts_with.induct) auto

lemma starts_with_Cons_iff: "starts_with s (p # ps) \<longleftrightarrow> (\<exists>r. s = p # r \<and> starts_with r ps)"
  by (cases s) auto

lemma join_Cons: "xs \<noteq> [] \<Longrightarrow> join sep (x # xs) = x @ sep @ join sep xs"
  by (cases xs) auto

lemma join_append:
  "xs \<noteq> [] \<Longrightarrow> ys \<noteq> [] \<Longrightarrow> join sep (xs @ ys) = join sep xs @ sep @ join sep ys"
proof (induction xs)
  case Nil
  then show ?case by simp
next
  case (Cons x xs)
  then show ?case by (cases "xs = []") (auto simp: join_Cons)
qed

text \<open>\<open>s.split(c)\<close> for a separator of one character.\<close>

fun split_on :: "char \<Rightarrow> string \<Rightarrow> string list" where
  "split_on c [] = [[]]"
| "split_on c (x # s) = (if x = c then [] # split_on c s else (x # hd (split_on c s)) # tl (split_on c s))"

lemma split_on_ne [simp]: "split_on c s \<noteq> []"
  by (cases s) auto

lemma split_on_clean: "c \<notin> set x \<Longrightarrow> split_on c x = [x]"
  by (induction x) auto

lemma split_on_sep: "c \<notin> set x \<Longrightarrow> split_on c (x @ c # s) = x # split_on c s"
  by (induction x) auto

lemma split_on_join: "xs \<noteq> [] \<Longrightarrow> \<forall>x\<in>set xs. c \<notin> set x \<Longrightarrow> split_on c (join [c] xs) = xs"
  by (induction xs rule: induct_list012) (auto simp: split_on_clean split_on_sep)

section \<open>Decimal numerals\<close>

lemma digit_char:
  assumes "n < 10"
  shows "is_digit (char_of (48 + n))" "digit_val (char_of (48 + n)) = n" "\<not> is_space (char_of (48 + n))"
proof -
  have "code_unit (char_of (48 + n)) = 48 + n" using assms by (simp add: code_unit_def)
  with assms show "is_digit (char_of (48 + n))" "digit_val (char_of (48 + n)) = n"
    "\<not> is_space (char_of (48 + n))"
    by (auto simp: is_digit_def digit_val_def is_space_def)
qed

lemma nat_to_string_digits: "nat_to_string n \<noteq> [] \<and> (\<forall>c\<in>set (nat_to_string n). is_digit c)
  \<and> digits_val (nat_to_string n) = n"
proof (induction n rule: nat_to_string.induct)
  case (1 n)
  show ?case
  proof (cases "n < 10")
    case True
    then show ?thesis by (simp add: nat_to_string.simps[of n] digits_val_def digit_char)
  next
    case False
    then have "digits_val (nat_to_string n) = 10 * (n div 10) + n mod 10"
      using 1 by (simp add: nat_to_string.simps[of n] digits_val_def digit_char(2)[of "n mod 10"])
    then show ?thesis using 1 False by (simp add: nat_to_string.simps[of n] digit_char)
  qed
qed

section \<open>Truthiness and nullish defaults\<close>

text \<open>\<open>a ?? b\<close> on an optional value, and the truthiness of a string (empty is false).\<close>

definition nullish :: "'a option \<Rightarrow> 'a \<Rightarrow> 'a" where
  "nullish a b = (case a of None \<Rightarrow> b | Some x \<Rightarrow> x)"

definition or_else :: "'a option \<Rightarrow> 'a option \<Rightarrow> 'a option" where
  "or_else a b = (case a of None \<Rightarrow> b | Some x \<Rightarrow> Some x)"

lemma nullish_simps [simp]: "nullish None b = b" "nullish (Some x) b = x"
  by (simp_all add: nullish_def)

lemma or_else_simps [simp]: "or_else None b = b" "or_else (Some x) b = Some x"
  by (simp_all add: or_else_def)

lemma or_else_None_right [simp]: "or_else a None = a"
  by (cases a) simp_all

lemma or_else_assoc: "or_else (or_else a b) c = or_else a (or_else b c)"
  by (cases a) simp_all

definition truthy_str :: "string option \<Rightarrow> string option" where
  "truthy_str s = (case s of None \<Rightarrow> None | Some t \<Rightarrow> if t = [] then None else Some t)"

section \<open>Dictionaries\<close>

definition spread :: "'v dict \<Rightarrow> 'v dict \<Rightarrow> 'v dict" where
  \<comment> \<open>\<open>{ ...a, ...b }\<close>: the entries of \<open>b\<close> over those of \<open>a\<close>.\<close>
  "spread a b = foldl (\<lambda>m (k, v). AList.update k v m) a b"

lemma map_of_foldl_update:
  "map_of (foldl (\<lambda>m (k, v). AList.update k v m) a b) = map_of a ++ map_of (rev b)"
  by (induction b arbitrary: a) (auto simp: update_conv' fun_eq_iff map_add_def split: option.splits)

lemma map_of_rev_distinct: "distinct (map fst b) \<Longrightarrow> map_of (rev b) = map_of b"
proof (induction b)
  case Nil
  then show ?case by simp
next
  case (Cons p b)
  then have "map_of b (fst p) = None" by (simp add: map_of_eq_None_iff)
  with Cons show ?case by (auto simp: map_add_def fun_eq_iff split: option.splits)
qed

lemma map_of_spread:
  "distinct (map fst b) \<Longrightarrow> map_of (spread a b) k = or_else (map_of b k) (map_of a k)"
  by (simp add: spread_def map_of_foldl_update map_of_rev_distinct map_add_def or_else_def)

section \<open>Lists updated by index\<close>

definition swap_at :: "nat \<Rightarrow> nat \<Rightarrow> 'a list \<Rightarrow> 'a list" where
  "swap_at i j xs = xs[i := xs ! j, j := xs ! i]"

lemma length_swap_at [simp]: "length (swap_at i j xs) = length xs"
  by (simp add: swap_at_def)

lemma mset_swap_at [simp]: "i < length xs \<Longrightarrow> j < length xs \<Longrightarrow> mset (swap_at i j xs) = mset xs"
  by (simp add: swap_at_def mset_swap)

lemma nth_swap_at:
  "i < length xs \<Longrightarrow> j < length xs \<Longrightarrow> k < length xs \<Longrightarrow>
   swap_at i j xs ! k = (if k = i then xs ! j else if k = j then xs ! i else xs ! k)"
  by (auto simp: swap_at_def nth_list_update)

lemma set_swap_at [simp]: "i < length xs \<Longrightarrow> j < length xs \<Longrightarrow> set (swap_at i j xs) = set xs"
  by (metis mset_swap_at set_mset_mset)

end
