(* ===== verification/Json.thy ===== *)
theory Json
  imports Prelude
begin

text \<open>
  JSON values as the SDK handles them (\<open>unknown\<close> bodies, tool arguments, schemas), their
  truthiness, property access and \<open>JSON.stringify\<close>. A number \<open>JNum m k\<close> is the decimal
  \<open>m * 10 ^ -k\<close>, kept normalised (\<open>k = 0\<close> or \<open>m\<close> not a multiple of ten); the exponent
  notation JavaScript switches to below 1e-6 and from 1e21 on is outside the model.
\<close>

datatype json =
    JNull
  | JBool bool
  | JNum int nat
  | JStr string
  | JArr "json list"
  | JObj "(string \<times> json) list"

definition num_normal :: "int \<Rightarrow> nat \<Rightarrow> bool" where
  "num_normal m k = (k = 0 \<or> m mod 10 \<noteq> 0)"

text \<open>\<open>Boolean(v)\<close> on a JSON value: objects and arrays are truthy even when empty.\<close>

fun json_truthy :: "json \<Rightarrow> bool" where
  "json_truthy JNull = False"
| "json_truthy (JBool b) = b"
| "json_truthy (JNum m k) = (m \<noteq> 0)"
| "json_truthy (JStr s) = (s \<noteq> [])"
| "json_truthy (JArr xs) = True"
| "json_truthy (JObj kvs) = True"

text \<open>\<open>o[key]\<close>: \<open>None\<close> is \<open>undefined\<close>. Only an object carries named properties here.\<close>

fun json_prop :: "json \<Rightarrow> string \<Rightarrow> json option" where
  "json_prop (JObj kvs) k = map_of kvs k"
| "json_prop _ _ = None"

definition hex_digit :: "nat \<Rightarrow> char" where
  "hex_digit n = (if n < 10 then char_of (48 + n) else char_of (87 + n))"

definition esc_char :: "char \<Rightarrow> string" where
  "esc_char c =
     (let n = code_unit c in
      if n = 34 then [CHR 0x5C, CHR 0x22]
      else if n = 92 then [CHR 0x5C, CHR 0x5C]
      else if n = 8 then [CHR 0x5C, CHR ''b'']
      else if n = 12 then [CHR 0x5C, CHR ''f'']
      else if n = 10 then [CHR 0x5C, CHR ''n'']
      else if n = 13 then [CHR 0x5C, CHR ''r'']
      else if n = 9 then [CHR 0x5C, CHR ''t'']
      else if n < 32 then [CHR 0x5C] @ ''u00'' @ [hex_digit (n div 16), hex_digit (n mod 16)]
      else [c])"

definition quote_str :: "string \<Rightarrow> string" where
  "quote_str s = [CHR 0x22] @ concat (map esc_char s) @ [CHR 0x22]"

definition num_to_string :: "int \<Rightarrow> nat \<Rightarrow> string" where
  "num_to_string m k =
     (if k = 0 then int_to_string m
      else let ds = nat_to_string (nat \<bar>m\<bar>);
               padded = replicate (Suc k - length ds) (CHR ''0'') @ ds;
               cut = length padded - k
           in (if m < 0 then [CHR ''-''] else []) @ take cut padded @ [CHR ''.''] @ drop cut padded)"

primrec stringify :: "json \<Rightarrow> string" where
  "stringify JNull = ''null''"
| "stringify (JBool b) = (if b then ''true'' else ''false'')"
| "stringify (JNum m k) = num_to_string m k"
| "stringify (JStr s) = quote_str s"
| "stringify (JArr xs) = ''['' @ join '','' (map stringify xs) @ '']''"
| "stringify (JObj kvs) =
     ''{'' @ join '','' (map (\<lambda>(k, s). quote_str k @ '':'' @ s) (map (map_prod id stringify) kvs)) @ ''}''"

text \<open>\<open>String(v)\<close> on a JSON value; arrays join their elements with a comma (\<open>null\<close> is empty).\<close>

primrec json_to_string :: "json \<Rightarrow> string" where
  "json_to_string JNull = ''null''"
| "json_to_string (JBool b) = (if b then ''true'' else ''false'')"
| "json_to_string (JNum m k) = num_to_string m k"
| "json_to_string (JStr s) = s"
| "json_to_string (JArr xs) =
     join '','' (map (\<lambda>(x, s). if x = JNull then [] else s) (map (\<lambda>x. (x, json_to_string x)) xs))"
| "json_to_string (JObj kvs) = ''[object Object]''"

lemma esc_char_nonempty: "esc_char c \<noteq> []"
  by (simp add: esc_char_def Let_def)

lemma stringify_nonempty: "stringify j \<noteq> []"
proof (cases j)
  case (JNum m k)
  have "nat_to_string n \<noteq> []" for n by (subst nat_to_string.simps) simp
  with JNum show ?thesis by (auto simp: num_to_string_def int_to_string_def Let_def)
qed (auto simp: quote_str_def)

end
