(* ===== verification/Http.thy ===== *)
theory Http
  imports Json
begin

text \<open>
  \<open>src/util/http.ts\<close> and the request shapes of \<open>src/network/types.ts\<close>: header records,
  the integer header parser, the replay-safety predicates on request bodies, and the rule for
  following a same-origin redirect. The WHATWG \<open>URL\<close> parser is a parameter
  (\<open>parse_url input base\<close>, \<open>None\<close> where the constructor throws).
\<close>

section \<open>Request bodies\<close>

text \<open>
  The \<open>body: unknown\<close> of a request: absent, a JSON value (strings included), a
  \<open>ReadableStream\<close>, a \<open>FormData\<close>, or raw bytes.
\<close>

datatype req_body = BUndefined | BJson json | BStream | BForm | BBytes "nat list"

datatype response_type = RTJson | RTArrayBuffer | RTText | RTStream

record backoff_override =
  bo_initialMs :: "ms option"
  bo_maxMs :: "ms option"
  bo_multiplier :: "rat option"
  bo_jitter :: "rat option"

record request_retry_override =
  ro_maxRetries :: "nat option"
  ro_totalTimeoutMs :: "ms option"
  ro_attemptTimeoutMs :: "ms option"
  ro_maxRetryAfterMs :: "ms option"
  ro_backoff :: "backoff_override option"
  ro_approveUnsafeReplay :: "bool option"

datatype redirect_mode = RFollow | RSameOrigin

record http_request =
  rq_url :: string
  rq_method :: "string option"
  rq_headers :: headers
  rq_body :: req_body
  rq_timeout :: "ms option"
  rq_provider :: string
  rq_model :: string
  rq_responseType :: "response_type option"
  rq_rawBody :: bool
  rq_retry :: "request_retry_override option"
  rq_redirect :: "redirect_mode option"

section \<open>Headers\<close>

text \<open>\<open>Headers.forEach\<close> yields (key, value) pairs; the record keeps the lower-cased key.\<close>

definition headersToRecord :: "(string \<times> string) list \<Rightarrow> headers" where
  "headersToRecord hs = foldl (\<lambda>out (key, value). AList.update (to_lower key) value out) [] hs"

fun header :: "headers \<Rightarrow> string \<Rightarrow> string option" where
  "header [] name = None"
| "header ((k, v) # hs) name = (if to_lower k = to_lower name then Some v else header hs name)"

text \<open>\<open>Number.parseInt(s, 10)\<close>: leading white space, an optional sign, the longest run of digits.\<close>

definition parseInt10 :: "string \<Rightarrow> int option" where
  "parseInt10 s =
     (let t = dropWhile is_space s;
          neg = (t \<noteq> [] \<and> hd t = CHR ''-'');
          u = (if t \<noteq> [] \<and> (hd t = CHR ''-'' \<or> hd t = CHR ''+'') then tl t else t);
          ds = takeWhile is_digit u
      in if ds = [] then None
         else Some (if neg then - int (digits_val ds) else int (digits_val ds)))"

definition parseIntHeader :: "headers \<Rightarrow> string \<Rightarrow> int option" where
  "parseIntHeader hs key =
     (case truthy_str (map_of hs key) of None \<Rightarrow> None | Some val \<Rightarrow> parseInt10 val)"

section \<open>Replay safety\<close>

definition isStatefulRequest :: "req_body \<Rightarrow> bool" where
  "isStatefulRequest body =
     (case body of
        BJson (JObj kvs) \<Rightarrow>
          (case map_of kvs ''previous_response_id'' of Some v \<Rightarrow> json_truthy v | None \<Rightarrow> False)
          \<or> (case map_of kvs ''previous_interaction_id'' of Some v \<Rightarrow> json_truthy v | None \<Rightarrow> False)
      | _ \<Rightarrow> False)"

definition isStreamBody :: "req_body \<Rightarrow> bool" where
  "isStreamBody body = (body = BStream)"

text \<open>\<open>bodySizeOf\<close>: streams and forms serialise as an empty object, bytes as an index record.\<close>

definition bodySizeOf :: "req_body \<Rightarrow> nat" where
  "bodySizeOf body =
     (case body of
        BUndefined \<Rightarrow> 0
      | BJson JNull \<Rightarrow> 0
      | BJson j \<Rightarrow> length (stringify j)
      | BStream \<Rightarrow> length (stringify (JObj []))
      | BForm \<Rightarrow> length (stringify (JObj []))
      | BBytes bs \<Rightarrow>
          length (stringify (JObj (map (\<lambda>(i, b). (nat_to_string i, JNum (int b) 0)) (enumerate 0 bs)))))"

section \<open>Same-origin redirects\<close>

record url =
  u_protocol :: string
  u_host :: string
  u_hostname :: string
  u_port :: string
  u_username :: string
  u_password :: string
  u_href :: string

definition method_preserving :: "int set" where
  "method_preserving = {307, 308}"

definition sameOrigin :: "url \<Rightarrow> url \<Rightarrow> bool" where
  "sameOrigin from to =
     ((u_protocol from = u_protocol to \<and> u_host from = u_host to) \<or>
      (u_hostname from = u_hostname to \<and> u_protocol from = ''http:'' \<and> u_protocol to = ''https:''
       \<and> (u_port from = [] \<or> u_port from = ''80'') \<and> (u_port to = [] \<or> u_port to = ''443'')))"

definition followSameOrigin ::
  "(string \<Rightarrow> string option \<Rightarrow> url option) \<Rightarrow> string \<Rightarrow> string \<Rightarrow> int \<Rightarrow> string option \<Rightarrow> string option" where
  "followSameOrigin parse_url requestUrl method status location =
     (case truthy_str location of
        None \<Rightarrow> None
      | Some loc \<Rightarrow>
          (let verb = to_upper method in
           if status \<notin> method_preserving \<and> verb \<noteq> ''GET'' \<and> verb \<noteq> ''HEAD'' then None
           else case (parse_url requestUrl None, parse_url loc (Some requestUrl)) of
                  (Some from, Some to) \<Rightarrow>
                    if (u_username to \<noteq> [] \<or> u_password to \<noteq> [])
                       \<and> (u_username to \<noteq> u_username from \<or> u_password to \<noteq> u_password from) then None
                    else if \<not> sameOrigin from to then None
                    else Some (u_href to)
                | _ \<Rightarrow> None))"

text \<open>A request with a given body and nothing else set, for examples.\<close>

definition plain_request :: "req_body \<Rightarrow> http_request" where
  "plain_request b = \<lparr> rq_url = ''https://a.example/v1'', rq_method = None, rq_headers = [], rq_body = b,
     rq_timeout = None, rq_provider = ''openai'', rq_model = ''m'', rq_responseType = None, rq_rawBody = False,
     rq_retry = None, rq_redirect = None \<rparr>"

section \<open>Lemmas\<close>

lemma map_of_headersToRecord_fold:
  "map_of (foldl (\<lambda>out (key, value). AList.update (to_lower key) value out) acc hs) k =
   or_else (map_of (rev (map (map_prod to_lower id) hs)) k) (map_of acc k)"
  by (induction hs arbitrary: acc)
     (auto simp: update_conv' or_else_def map_add_def split: option.splits)

lemma headersToRecord_get:
  "map_of (headersToRecord hs) k = map_of (rev (map (map_prod to_lower id) hs)) k"
  by (simp add: headersToRecord_def map_of_headersToRecord_fold)

lemma followSameOrigin_SomeD:
  assumes "followSameOrigin parse_url u m st loc = Some nxt"
  obtains l src dst where "loc = Some l" "parse_url u None = Some src" "parse_url l (Some u) = Some dst"
    "nxt = u_href dst" "sameOrigin src dst"
    "u_username dst = [] \<and> u_password dst = [] \<or>
     u_username dst = u_username src \<and> u_password dst = u_password src"
    "st \<in> {307, 308} \<or> to_upper m \<in> {''GET'', ''HEAD''}"
  using assms that
  by (auto simp: followSameOrigin_def truthy_str_def Let_def method_preserving_def
        split: option.splits if_splits)

lemma isStatefulRequest_stream [simp]: "\<not> isStatefulRequest BStream"
  by (simp add: isStatefulRequest_def)

end
