(* ===== verification/Errors.thy ===== *)
theory Errors
  imports Http
begin

text \<open>
  \<open>src/network/errors.ts\<close>: the error taxonomy and the classification of an HTTP failure.
  \<open>Date.parse\<close> on the HTTP-date form is implementation-defined, so it is the parameter
  \<open>date_parse\<close>; \<open>Date.now()\<close> is the argument \<open>now\<close>.
\<close>

datatype error_kind =
    RateLimit | Auth | ContextOverflow | InvalidRequest | ServerError | Timeout | Network
  | ContentFilter | ModelNotFound | QuotaExceeded | Unsupported

record llm_error =
  e_message :: string
  e_kind :: error_kind
  e_provider :: string
  e_status :: "int option"
  e_retryable :: bool
  e_retryAfterMs :: "jsnum option"
  e_raw :: "json option"
  e_shouldRetry :: "bool option"

definition LLMError ::
  "string \<Rightarrow> error_kind \<Rightarrow> string \<Rightarrow> int option \<Rightarrow> bool \<Rightarrow> jsnum option \<Rightarrow> llm_error" where
  "LLMError message kind provider status retryable retryAfterMs =
     \<lparr> e_message = message, e_kind = kind, e_provider = provider, e_status = status,
       e_retryable = retryable, e_retryAfterMs = retryAfterMs, e_raw = None, e_shouldRetry = None \<rparr>"

lemma LLMError_sel [simp]:
  "e_message (LLMError m k p s r a) = m" "e_kind (LLMError m k p s r a) = k"
  "e_provider (LLMError m k p s r a) = p" "e_status (LLMError m k p s r a) = s"
  "e_retryable (LLMError m k p s r a) = r" "e_retryAfterMs (LLMError m k p s r a) = a"
  "e_shouldRetry (LLMError m k p s r a) = None"
  by (simp_all add: LLMError_def)

section \<open>Reading the error body\<close>

definition extractErrorMessage :: "json \<Rightarrow> string" where
  "extractErrorMessage body =
     (case body of
        JNull \<Rightarrow> ''Unknown error''
      | JArr xs \<Rightarrow> take 500 (stringify body)
      | JObj b \<Rightarrow>
          (case map_of b ''error'' of
             Some (JObj e) \<Rightarrow>
               (case map_of e ''message'' of
                  None \<Rightarrow> stringify (JObj e)
                | Some JNull \<Rightarrow> stringify (JObj e)
                | Some m \<Rightarrow> json_to_string m)
           | Some (JArr e) \<Rightarrow> stringify (JArr e)
           | Some (JStr s) \<Rightarrow> s
           | _ \<Rightarrow>
               (case map_of b ''message'' of
                  Some (JStr s) \<Rightarrow> s
                | _ \<Rightarrow> take 500 (stringify body)))
      | _ \<Rightarrow> json_to_string body)"

definition parseShouldRetry :: "headers \<Rightarrow> bool option" where
  "parseShouldRetry hs =
     (let raw = or_else (map_of hs ''x-should-retry'') (map_of hs ''X-Should-Retry'')
      in if raw = Some ''true'' then Some True
         else if raw = Some ''false'' then Some False
         else None)"

section \<open>Retry-After\<close>

text \<open>
  \<open>Number.parseFloat\<close> on a decimal literal prefix; magnitudes that round to infinity do. A value
  with at most 308 integer digits is below the threshold, so only longer ones are compared with it.
\<close>

definition pow10 :: "int \<Rightarrow> rat" where
  "pow10 e = (if e \<ge> 0 then 10 ^ nat e else 1 / 10 ^ nat (- e))"

definition double_overflow :: rat where
  "double_overflow = 2 ^ 1024 - 2 ^ 970"

definition parse_exponent :: "string \<Rightarrow> int" where
  "parse_exponent s =
     (case s of
        c # r \<Rightarrow>
          if c = CHR ''e'' \<or> c = CHR ''E'' then
            (let neg = (r \<noteq> [] \<and> hd r = CHR ''-'');
                 u = (if r \<noteq> [] \<and> (hd r = CHR ''-'' \<or> hd r = CHR ''+'') then tl r else r);
                 ds = takeWhile is_digit u
             in if ds = [] then 0 else if neg then - int (digits_val ds) else int (digits_val ds))
          else 0
      | [] \<Rightarrow> 0)"

definition parseFloat :: "string \<Rightarrow> jsnum" where
  "parseFloat s =
     (let t = dropWhile is_space s;
          neg = (t \<noteq> [] \<and> hd t = CHR ''-'');
          u = (if t \<noteq> [] \<and> (hd t = CHR ''-'' \<or> hd t = CHR ''+'') then tl t else t)
      in if starts_with u ''Infinity'' then (if neg then NegInf else PosInf)
         else
           (let ip = takeWhile is_digit u;
                r1 = dropWhile is_digit u;
                dot = (r1 \<noteq> [] \<and> hd r1 = CHR ''.'');
                fp = (if dot then takeWhile is_digit (tl r1) else []);
                r2 = (if dot then dropWhile is_digit (tl r1) else r1)
            in if ip = [] \<and> fp = [] then NaN
               else
                 (let e = parse_exponent r2 - int (length fp);
                      v = of_nat (digits_val (ip @ fp)) * pow10 e
                  in if int (length (ip @ fp)) + e \<le> 308 then Fin (if neg then - v else v)
                     else if v \<ge> double_overflow then (if neg then NegInf else PosInf)
                     else Fin (if neg then - v else v))))"

fun usableDelay :: "jsnum \<Rightarrow> jsnum option" where
  "usableDelay NaN = None"
| "usableDelay NegInf = None"
| "usableDelay PosInf = Some PosInf"
| "usableDelay (Fin ms) = (if ms < 0 then None else Some (Fin ms))"

definition parseRetryAfter :: "(string \<Rightarrow> jsnum) \<Rightarrow> rat \<Rightarrow> headers \<Rightarrow> jsnum option" where
  "parseRetryAfter date_parse now hs =
     (let from_ms =
            (case truthy_str (map_of hs ''retry-after-ms'') of
               None \<Rightarrow> None
             | Some ms \<Rightarrow> usableDelay (parseFloat ms))
      in case from_ms of
           Some d \<Rightarrow> Some d
         | None \<Rightarrow>
             (case truthy_str (map_of hs ''retry-after'') of
                None \<Rightarrow> None
              | Some v \<Rightarrow>
                  (let seconds = parseFloat v
                   in if \<not> js_is_nan seconds then usableDelay (js_scale 1000 seconds)
                      else let d = date_parse v
                           in if js_is_nan d then None else usableDelay (js_minus d now))))"

section \<open>Message patterns\<close>

text \<open>\<open>reach s p\<close>: \<open>.*p\<close> matches at the front of \<open>s\<close>; the dot stops at a line terminator.\<close>

fun reach :: "string \<Rightarrow> string \<Rightarrow> bool" where
  "reach [] p = (p = [])"
| "reach (c # cs) p = (starts_with (c # cs) p \<or> (c \<noteq> LF \<and> c \<noteq> CR \<and> reach cs p))"

fun gap_match :: "string \<Rightarrow> string \<Rightarrow> string \<Rightarrow> bool" where
  "gap_match [] a b = (a = [] \<and> b = [])"
| "gap_match (c # cs) a b =
     ((starts_with (c # cs) a \<and> reach (drop (length a) (c # cs)) b) \<or> gap_match cs a b)"

definition says_context :: "string \<Rightarrow> bool" where
  "says_context msg =
     list_ex (contains_ci msg) [''context'', ''token'', ''too long'', ''max_tokens'', ''too many tokens'']"

definition says_model_missing :: "string \<Rightarrow> bool" where
  "says_model_missing msg =
     (gap_match (to_lower msg) ''model'' ''not found''
      \<or> list_ex (contains_ci msg) [''does not exist'', ''unknown model''])"

definition says_unsupported :: "string \<Rightarrow> bool" where
  "says_unsupported msg = list_ex (contains_ci msg) [''not support'', ''unsupported'']"

section \<open>Classification\<close>

definition classifyByStatus ::
  "(string \<Rightarrow> jsnum) \<Rightarrow> rat \<Rightarrow> string \<Rightarrow> int \<Rightarrow> string \<Rightarrow> headers \<Rightarrow> llm_error" where
  "classifyByStatus date_parse now provider status msg hs =
     (if status = 401 \<or> status = 403 then LLMError msg Auth provider (Some status) False None
      else if status = 429 then
        LLMError msg RateLimit provider (Some status) True (parseRetryAfter date_parse now hs)
      else if status = 400 then
        (if says_context msg then LLMError msg ContextOverflow provider (Some status) False None
         else if says_model_missing msg then LLMError msg ModelNotFound provider (Some status) False None
         else if says_unsupported msg then LLMError msg Unsupported provider (Some status) False None
         else LLMError msg InvalidRequest provider (Some status) False None)
      else if status = 402 \<or> status = 413 then
        LLMError msg QuotaExceeded provider (Some status) False None
      else if status \<ge> 500 then LLMError msg ServerError provider (Some status) True None
      else if status \<ge> 400 then LLMError msg InvalidRequest provider (Some status) False None
      else LLMError msg ServerError provider (Some status) False None)"

definition classifyError ::
  "(string \<Rightarrow> jsnum) \<Rightarrow> rat \<Rightarrow> string \<Rightarrow> int \<Rightarrow> json \<Rightarrow> headers \<Rightarrow> llm_error" where
  "classifyError date_parse now provider status body hs =
     (let msg = extractErrorMessage body;
          shouldRetry = parseShouldRetry hs;
          e = classifyByStatus date_parse now provider status msg hs
      in case shouldRetry of None \<Rightarrow> e | Some b \<Rightarrow> e\<lparr>e_shouldRetry := Some b\<rparr>)"

section \<open>Facts about the classification\<close>

lemma classifyError_fields [simp]:
  "e_kind (classifyError dp now p st body hs) =
     e_kind (classifyByStatus dp now p st (extractErrorMessage body) hs)"
  "e_retryable (classifyError dp now p st body hs) =
     e_retryable (classifyByStatus dp now p st (extractErrorMessage body) hs)"
  "e_retryAfterMs (classifyError dp now p st body hs) =
     e_retryAfterMs (classifyByStatus dp now p st (extractErrorMessage body) hs)"
  "e_status (classifyError dp now p st body hs) = Some st"
  by (simp_all add: classifyError_def classifyByStatus_def Let_def split: option.splits)

lemma classifyByStatus_noShould [simp]: "e_shouldRetry (classifyByStatus dp now p st m hs) = None"
  by (simp add: classifyByStatus_def)

lemma classifyError_shouldRetry [simp]:
  "e_shouldRetry (classifyError dp now p st body hs) = parseShouldRetry hs"
  by (simp add: classifyError_def Let_def split: option.splits)

lemma classify_retryable_iff: "e_retryable (classifyByStatus dp now p st m hs) \<longleftrightarrow> st = 429 \<or> st \<ge> 500"
  by (auto simp: classifyByStatus_def)

lemma classify_client_error_kind:
  "400 \<le> st \<Longrightarrow> st < 500 \<Longrightarrow> st \<noteq> 429 \<Longrightarrow>
   e_kind (classifyByStatus dp now p st m hs)
     \<in> {Auth, ContextOverflow, InvalidRequest, ModelNotFound, QuotaExceeded, Unsupported}"
  by (auto simp: classifyByStatus_def)

lemma classify_server_error_kind:
  "e_kind (classifyByStatus dp now p st m hs) = ServerError \<longleftrightarrow> st < 400 \<or> st \<ge> 500"
  by (auto simp: classifyByStatus_def)

lemma classify_rate_limit_kind: "e_kind (classifyByStatus dp now p st m hs) = RateLimit \<longleftrightarrow> st = 429"
  by (auto simp: classifyByStatus_def)

lemma usableDelay_SomeD: "usableDelay d = Some x \<Longrightarrow> x = PosInf \<or> (\<exists>m\<ge>0. x = Fin m)"
  by (cases d) (auto split: if_splits)

lemma parseRetryAfter_SomeD:
  "parseRetryAfter dp now hs = Some d \<Longrightarrow> d = PosInf \<or> (\<exists>m\<ge>0. d = Fin m)"
  unfolding parseRetryAfter_def Let_def
  by (auto split: option.splits if_splits dest: usableDelay_SomeD)

lemma retryAfter_only_429:
  "e_retryAfterMs (classifyByStatus dp now p st m hs) = Some d \<Longrightarrow> st = 429"
  by (auto simp: classifyByStatus_def split: if_splits)

lemma classify_retryAfter_nonneg:
  "e_retryAfterMs (classifyByStatus dp now p st m hs) = Some d \<Longrightarrow> d = PosInf \<or> (\<exists>m\<ge>0. d = Fin m)"
  by (auto simp: classifyByStatus_def split: if_splits dest: parseRetryAfter_SomeD)

section \<open>Properties of the classification\<close>

text \<open>what a failed response is classified as: 401 and 403 are authentication errors, 429 a rate limit,
  402 and 413 an exhausted quota, 5xx a server error, any other 4xx a fault of the request; only 429 and
  5xx are flagged retryable, and the status and the server's \<open>x-should-retry\<close> are kept.\<close>

theorem classification:
  assumes "400 \<le> status"
  shows "let e = classifyError date_parse now provider status body hs in
    (e_kind e = Auth \<longleftrightarrow> status = 401 \<or> status = 403)
    \<and> (e_kind e = RateLimit \<longleftrightarrow> status = 429)
    \<and> (e_kind e = QuotaExceeded \<longleftrightarrow> status = 402 \<or> status = 413)
    \<and> (e_kind e = ServerError \<longleftrightarrow> status \<ge> 500)
    \<and> (e_kind e \<in> {ContextOverflow, ModelNotFound, Unsupported} \<longrightarrow> status = 400)
    \<and> e_kind e \<notin> {Timeout, Network, ContentFilter}
    \<and> (e_retryable e \<longleftrightarrow> status = 429 \<or> status \<ge> 500)
    \<and> e_status e = Some status \<and> e_shouldRetry e = parseShouldRetry hs"
  using assms by (auto simp: Let_def) (auto simp: classifyByStatus_def split: if_splits)

theorem classification_witness:
  "(400 :: int) \<le> 413 \<and> e_kind (classifyError (\<lambda>_. NaN) 0 ''p'' 413 JNull []) = QuotaExceeded
   \<and> \<not> e_retryable (classifyError (\<lambda>_. NaN) 0 ''p'' 413 JNull [])"
  using classification[of 413 "\<lambda>_. NaN" 0 "''p''" JNull "[]"] by (simp add: Let_def)

text \<open>a parsed \<open>Retry-After\<close> is a non-negative number of milliseconds or infinite, never not-a-number or
  negative, and only a 429 carries one.\<close>

theorem retry_after_usable:
  assumes "e_retryAfterMs (classifyError date_parse now provider status body hs) = Some d"
  shows "status = 429 \<and> (d = PosInf \<or> (\<exists>m\<ge>0. d = Fin m))"
  using assms retryAfter_only_429 classify_retryAfter_nonneg by (metis classifyError_fields(3))

theorem retry_after_usable_witness:
  "e_retryAfterMs (classifyError (\<lambda>_. NaN) 0 ''p'' 429 JNull [(''retry-after'', ''1.5'')]) = Some (Fin 1500)
   \<and> (\<exists>m\<ge>0. Fin 1500 = Fin m)"
proof
  show a: "e_retryAfterMs (classifyError (\<lambda>_. NaN) 0 ''p'' 429 JNull [(''retry-after'', ''1.5'')]) = Some (Fin 1500)"
    by code_simp
  show "\<exists>m\<ge>0. Fin 1500 = Fin m" using retry_after_usable[OF a] by simp
qed

end
