(* ===== verification/RetryPolicy.thy ===== *)
theory RetryPolicy
  imports Errors
begin

text \<open>
  \<open>src/network/queue-state-config.ts\<close> and the retry decisions of \<open>src/network/queue-state.ts\<close>:
  the policy record and its layered overrides, the effective policy of one request, the honoured
  \<open>Retry-After\<close>, the backoff, and the two places that decide whether to try again (the queue's
  \<open>handleRetry\<close> and the stream's \<open>connect\<close>). \<open>Math.random()\<close> is the argument \<open>rnd\<close>.
\<close>

record backoff_config =
  b_initialMs :: ms
  b_maxMs :: ms
  b_multiplier :: rat
  b_jitter :: rat

record error_retry_config =
  er_retryable :: "bool option"
  er_maxRetries :: "nat option"
  er_fixedBackoffMs :: "ms option"

record retry_config =
  r_maxRetries :: nat
  r_totalTimeoutMs :: ms
  r_attemptTimeoutMs :: ms
  r_backoff :: backoff_config
  r_maxRetryAfterMs :: ms
  r_perKind :: "error_kind \<Rightarrow> error_retry_config option"

record retry_policy_override =
  po_maxRetries :: "nat option"
  po_totalTimeoutMs :: "ms option"
  po_attemptTimeoutMs :: "ms option"
  po_backoff :: "backoff_override option"
  po_maxRetryAfterMs :: "ms option"
  po_perKind :: "(error_kind \<Rightarrow> error_retry_config option) option"

definition no_backoff_override :: backoff_override where
  "no_backoff_override =
     \<lparr> bo_initialMs = None, bo_maxMs = None, bo_multiplier = None, bo_jitter = None \<rparr>"

definition no_policy_override :: retry_policy_override where
  "no_policy_override =
     \<lparr> po_maxRetries = None, po_totalTimeoutMs = None, po_attemptTimeoutMs = None, po_backoff = None,
       po_maxRetryAfterMs = None, po_perKind = None \<rparr>"

definition retryable_upto :: "nat \<Rightarrow> error_retry_config" where
  "retryable_upto n = \<lparr> er_retryable = Some True, er_maxRetries = Some n, er_fixedBackoffMs = None \<rparr>"

definition not_retryable :: error_retry_config where
  "not_retryable = \<lparr> er_retryable = Some False, er_maxRetries = None, er_fixedBackoffMs = None \<rparr>"

fun default_perKind :: "error_kind \<Rightarrow> error_retry_config option" where
  "default_perKind RateLimit = Some (retryable_upto 5)"
| "default_perKind ServerError = Some (retryable_upto 2)"
| "default_perKind Timeout = Some (retryable_upto 2)"
| "default_perKind Network = Some (retryable_upto 2)"
| "default_perKind ContextOverflow = Some not_retryable"
| "default_perKind Auth = Some not_retryable"
| "default_perKind InvalidRequest = Some not_retryable"
| "default_perKind ModelNotFound = Some not_retryable"
| "default_perKind QuotaExceeded = Some not_retryable"
| "default_perKind ContentFilter = Some not_retryable"
| "default_perKind Unsupported = Some not_retryable"

definition DEFAULT_RETRY :: retry_config where
  "DEFAULT_RETRY =
     \<lparr> r_maxRetries = 2, r_totalTimeoutMs = 120000, r_attemptTimeoutMs = 600000,
       r_backoff = \<lparr> b_initialMs = 500, b_maxMs = 8000, b_multiplier = 2, b_jitter = 1/4 \<rparr>,
       r_maxRetryAfterMs = 120000, r_perKind = default_perKind \<rparr>"

definition spread_backoff :: "backoff_config \<Rightarrow> backoff_override option \<Rightarrow> backoff_config" where
  "spread_backoff b ov =
     (case ov of None \<Rightarrow> b
      | Some v \<Rightarrow> \<lparr> b_initialMs = nullish (bo_initialMs v) (b_initialMs b),
                    b_maxMs = nullish (bo_maxMs v) (b_maxMs b),
                    b_multiplier = nullish (bo_multiplier v) (b_multiplier b),
                    b_jitter = nullish (bo_jitter v) (b_jitter b) \<rparr>)"

definition mergeRetry :: "retry_policy_override option \<Rightarrow> retry_config" where
  "mergeRetry overrides =
     (case overrides of
        None \<Rightarrow> DEFAULT_RETRY
      | Some v \<Rightarrow>
          \<lparr> r_maxRetries = nullish (po_maxRetries v) (r_maxRetries DEFAULT_RETRY),
            r_totalTimeoutMs = nullish (po_totalTimeoutMs v) (r_totalTimeoutMs DEFAULT_RETRY),
            r_attemptTimeoutMs = nullish (po_attemptTimeoutMs v) (r_attemptTimeoutMs DEFAULT_RETRY),
            r_backoff = spread_backoff (r_backoff DEFAULT_RETRY) (po_backoff v),
            r_maxRetryAfterMs = nullish (po_maxRetryAfterMs v) (r_maxRetryAfterMs DEFAULT_RETRY),
            r_perKind = r_perKind DEFAULT_RETRY ++ nullish (po_perKind v) Map.empty \<rparr>)"

section \<open>The policy of one request\<close>

definition retryFor :: "retry_config \<Rightarrow> http_request \<Rightarrow> retry_config" where
  "retryFor retry req =
     (case rq_retry req of
        None \<Rightarrow> retry
      | Some ov \<Rightarrow>
          retry\<lparr> r_maxRetries := nullish (ro_maxRetries ov) (r_maxRetries retry),
                 r_totalTimeoutMs := nullish (ro_totalTimeoutMs ov) (r_totalTimeoutMs retry),
                 r_attemptTimeoutMs := nullish (ro_attemptTimeoutMs ov) (r_attemptTimeoutMs retry),
                 r_maxRetryAfterMs := nullish (ro_maxRetryAfterMs ov) (r_maxRetryAfterMs retry),
                 r_backoff := spread_backoff (r_backoff retry) (ro_backoff ov) \<rparr>)"

definition honoredRetryAfterMs :: "llm_error \<Rightarrow> retry_config \<Rightarrow> ms option" where
  "honoredRetryAfterMs error retry =
     (case e_retryAfterMs error of
        Some (Fin raw) \<Rightarrow> if raw \<le> 0 then None else Some (min raw (r_maxRetryAfterMs retry))
      | _ \<Rightarrow> None)"

definition js_round :: "rat \<Rightarrow> rat" where
  "js_round x = of_int \<lfloor>x + 1/2\<rfloor>"

definition nonzero :: "rat \<Rightarrow> rat option" where
  \<comment> \<open>A number used as a condition: zero is falsy.\<close>
  "nonzero x = (if x = 0 then None else Some x)"

definition calculateBackoff ::
  "rat \<Rightarrow> nat \<Rightarrow> llm_error \<Rightarrow> error_retry_config option \<Rightarrow> retry_config \<Rightarrow> ms" where
  "calculateBackoff rnd attempt error kindConfig retry =
     (case honoredRetryAfterMs error retry of
        Some honored \<Rightarrow> honored
      | None \<Rightarrow>
          (case Option.bind kindConfig (\<lambda>c. Option.bind (er_fixedBackoffMs c) nonzero) of
             Some fixed \<Rightarrow> fixed
           | None \<Rightarrow>
               (let b = r_backoff retry;
                    base = min (b_initialMs b * b_multiplier b ^ attempt) (b_maxMs b);
                    j = 1 - (rnd * b_jitter b * 2 - b_jitter b)
                in js_round (base * j))))"

section \<open>Whether to try again\<close>

definition isRetryable :: "retry_config \<Rightarrow> llm_error \<Rightarrow> bool" where
  "isRetryable retry error =
     (let kindConfig = r_perKind retry (e_kind error);
          configuredRetryable = nullish (Option.bind kindConfig er_retryable) (e_retryable error)
      in if e_shouldRetry error = Some False then False else configuredRetryable)"

definition maxRetriesFor :: "retry_config \<Rightarrow> http_request \<Rightarrow> llm_error \<Rightarrow> nat" where
  "maxRetriesFor retry req error =
     nullish (or_else (Option.bind (rq_retry req) ro_maxRetries)
                      (Option.bind (r_perKind retry (e_kind error)) er_maxRetries))
             (r_maxRetries retry)"

definition retryAfterTooLong :: "retry_config \<Rightarrow> llm_error \<Rightarrow> bool" where
  "retryAfterTooLong retry error =
     (case e_retryAfterMs error of None \<Rightarrow> False | Some d \<Rightarrow> js_gt d (r_maxRetryAfterMs retry))"

definition approvesUnsafeReplay :: "http_request \<Rightarrow> bool" where
  "approvesUnsafeReplay req = (Option.bind (rq_retry req) ro_approveUnsafeReplay = Some True)"

text \<open>The decision of \<open>handleRetry\<close>: \<open>retry0\<close> is the queue's policy, \<open>elapsed\<close> the time since the start.\<close>

definition willRetry :: "retry_config \<Rightarrow> http_request \<Rightarrow> nat \<Rightarrow> ms \<Rightarrow> llm_error \<Rightarrow> bool" where
  "willRetry retry0 req attempt elapsed error =
     (let retry = retryFor retry0 req;
          withinBudget = (elapsed < r_totalTimeoutMs retry);
          replayableBody = (\<not> isStreamBody (rq_body req));
          replaySafe = (\<not> isStatefulRequest (rq_body req) \<or> approvesUnsafeReplay req)
      in isRetryable retry error \<and> attempt < maxRetriesFor retry req error \<and> withinBudget
         \<and> replayableBody \<and> replaySafe \<and> \<not> retryAfterTooLong retry error)"

text \<open>The decision of a stream's \<open>connect\<close>, whose policy argument is already the effective one.\<close>

definition connectRetries :: "retry_config \<Rightarrow> http_request \<Rightarrow> nat \<Rightarrow> ms \<Rightarrow> llm_error \<Rightarrow> bool" where
  "connectRetries retry req attempt elapsed error =
     (let withinBudget = (elapsed < r_totalTimeoutMs retry)
      in \<not> (\<not> isRetryable retry error \<or> attempt \<ge> maxRetriesFor retry req error
            \<or> retryAfterTooLong retry error \<or> \<not> withinBudget \<or> isStreamBody (rq_body req)))"

section \<open>Lemmas\<close>

lemma retryFor_perKind [simp]: "r_perKind (retryFor retry req) = r_perKind retry"
  by (simp add: retryFor_def split: option.split)

lemma mergeRetry_None [simp]: "mergeRetry None = DEFAULT_RETRY"
  by (simp add: mergeRetry_def)

lemma DEFAULT_RETRY_sel [simp]:
  "r_maxRetries DEFAULT_RETRY = 2" "r_totalTimeoutMs DEFAULT_RETRY = 120000"
  "r_maxRetryAfterMs DEFAULT_RETRY = 120000" "r_perKind DEFAULT_RETRY = default_perKind"
  by (simp_all add: DEFAULT_RETRY_def)

lemma willRetryD:
  assumes "willRetry retry0 req attempt elapsed error"
  shows "isRetryable (retryFor retry0 req) error"
    and "attempt < maxRetriesFor (retryFor retry0 req) req error"
    and "elapsed < r_totalTimeoutMs (retryFor retry0 req)"
    and "\<not> isStreamBody (rq_body req)"
    and "isStatefulRequest (rq_body req) \<Longrightarrow> approvesUnsafeReplay req"
    and "\<not> retryAfterTooLong (retryFor retry0 req) error"
  using assms by (auto simp: willRetry_def Let_def)

lemma isRetryable_perKind:
  "r_perKind retry (e_kind error) = Some k \<Longrightarrow> er_retryable k = Some b \<Longrightarrow>
   isRetryable retry error \<longleftrightarrow> b \<and> e_shouldRetry error \<noteq> Some False"
  by (auto simp: isRetryable_def)

lemma isRetryable_default:
  "r_perKind retry = default_perKind \<Longrightarrow>
   isRetryable retry error \<longleftrightarrow>
     e_kind error \<in> {RateLimit, ServerError, Timeout, Network} \<and> e_shouldRetry error \<noteq> Some False"
  by (cases "e_kind error") (auto simp: isRetryable_def retryable_upto_def not_retryable_def)

lemma shouldRetry_veto: "e_shouldRetry error = Some False \<Longrightarrow> \<not> isRetryable retry error"
  by (simp add: isRetryable_def)

lemma js_round_mono: "a \<le> b \<Longrightarrow> js_round a \<le> js_round b"
  by (simp add: js_round_def floor_mono)

lemma js_round_nonneg: "0 \<le> a \<Longrightarrow> 0 \<le> js_round a"
  by (simp add: js_round_def)

lemma js_round_le: "js_round a \<le> a + 1/2"
  by (simp add: js_round_def)

lemma jittered_bounds:
  fixes base j rnd m :: rat
  assumes "0 \<le> base" "base \<le> m" "0 \<le> j" "j \<le> 1" "0 \<le> rnd" "rnd < 1"
  shows "0 \<le> base * (1 - (rnd * j * 2 - j))" and "base * (1 - (rnd * j * 2 - j)) \<le> m * (1 + j)"
proof -
  have a: "rnd * j \<le> j" using assms by (simp add: mult_left_le_one_le)
  have nn: "0 \<le> rnd * j" using assms by simp
  have lo: "0 \<le> 1 - (rnd * j * 2 - j)" and hi: "1 - (rnd * j * 2 - j) \<le> 1 + j"
    using a nn assms by linarith+
  show "0 \<le> base * (1 - (rnd * j * 2 - j))" using lo assms by simp
  show "base * (1 - (rnd * j * 2 - j)) \<le> m * (1 + j)"
    using mult_mono[OF \<open>base \<le> m\<close> hi] lo assms by linarith
qed

section \<open>Properties of the policy\<close>

text \<open>the default policy on a failed response, without a per-request override: it is sent again exactly
  when the status is 429 (up to five times) or a server error (up to twice), the server did not veto it,
  it asked for no more than two minutes of patience, the total time is not spent, the body can be replayed
  and the request does not continue server-side state.\<close>

theorem default_policy_retries:
  assumes "400 \<le> status" "rq_retry req = None"
  shows "willRetry (mergeRetry None) req attempt elapsed (classifyError date_parse now provider status body hs)
    \<longleftrightarrow> attempt < (if status = 429 then 5 else if status \<ge> 500 then 2 else 0)
       \<and> parseShouldRetry hs \<noteq> Some False \<and> elapsed < 120000
       \<and> \<not> isStreamBody (rq_body req) \<and> \<not> isStatefulRequest (rq_body req)
       \<and> (status = 429 \<longrightarrow> (case parseRetryAfter date_parse now hs of None \<Rightarrow> True | Some d \<Rightarrow> \<not> js_gt d 120000))"
proof -
  have f: "retryFor DEFAULT_RETRY req = DEFAULT_RETRY" using assms(2) by (simp add: retryFor_def)
  let ?e = "classifyByStatus date_parse now provider status (extractErrorMessage body) hs"
  consider "status = 429" | "status \<ge> 500" | "status \<noteq> 429" "status < 500" by linarith
  then show ?thesis
  proof cases
    case 1
    then show ?thesis
      using f assms(2)
      by (auto simp: willRetry_def Let_def isRetryable_default maxRetriesFor_def or_else_def nullish_def
          retryAfterTooLong_def approvesUnsafeReplay_def retryable_upto_def classifyByStatus_def split: option.splits)
  next
    case 2
    then have k: "e_kind ?e = ServerError" "e_retryAfterMs ?e = None"
      using classify_server_error_kind retryAfter_only_429[of date_parse now provider status _ hs] by fastforce+
    from 2 k show ?thesis
      using f assms(2)
      by (auto simp: willRetry_def Let_def isRetryable_default maxRetriesFor_def or_else_def nullish_def
          retryAfterTooLong_def approvesUnsafeReplay_def retryable_upto_def)
  next
    case 3
    then have "e_kind ?e \<in> {Auth, ContextOverflow, InvalidRequest, ModelNotFound, QuotaExceeded, Unsupported}"
      using assms(1) classify_client_error_kind by blast
    then show ?thesis using 3 f by (auto simp: willRetry_def Let_def isRetryable_default)
  qed
qed

theorem default_policy_retries_witness:
  "willRetry (mergeRetry None) (plain_request BUndefined) 1 0 (classifyError (\<lambda>_. NaN) 0 ''p'' 503 JNull [])
   \<and> \<not> willRetry (mergeRetry None) (plain_request BUndefined) 2 0 (classifyError (\<lambda>_. NaN) 0 ''p'' 503 JNull [])"
  using default_policy_retries[of 503 "plain_request BUndefined" _ 0 "\<lambda>_. NaN" 0 "''p''" JNull "[]"]
  by (simp add: plain_request_def parseShouldRetry_def or_else_def isStreamBody_def isStatefulRequest_def)

text \<open>a redirect that is not followed comes back as a 3xx response, which the classification marks not
  retryable, and the default policy sends the request again all the same.\<close>

theorem unfollowed_redirect_is_retried:
  assumes "status < 400" "parseShouldRetry hs \<noteq> Some False"
  shows "\<not> e_retryable (classifyError date_parse now provider status body hs)
    \<and> isRetryable (mergeRetry None) (classifyError date_parse now provider status body hs)"
proof -
  have "e_kind (classifyByStatus date_parse now provider status (extractErrorMessage body) hs) = ServerError"
    using assms(1) by (simp add: classify_server_error_kind)
  then show ?thesis using assms by (auto simp: isRetryable_default classify_retryable_iff)
qed

theorem unfollowed_redirect_is_retried_witness:
  "(302 :: int) < 400 \<and> \<not> e_retryable (classifyError (\<lambda>_. NaN) 0 ''p'' 302 JNull [])
   \<and> isRetryable (mergeRetry None) (classifyError (\<lambda>_. NaN) 0 ''p'' 302 JNull [])"
  using unfollowed_redirect_is_retried[of 302 "[]" "\<lambda>_. NaN" 0 "''p''" JNull]
  by (simp add: parseShouldRetry_def or_else_def)

text \<open>the buffered path never replays a request that continues server-side state unless the caller
  approved it; the connect phase of a stream decides without looking, so a stateful stream is resent.\<close>

theorem stateful_replay:
  assumes "isStatefulRequest (rq_body req)" "\<not> approvesUnsafeReplay req"
  shows "\<not> willRetry retry0 req attempt elapsed error
    \<and> (connectRetries (retryFor retry0 req) req attempt elapsed error \<longleftrightarrow>
         isRetryable (retryFor retry0 req) error \<and> attempt < maxRetriesFor (retryFor retry0 req) req error
         \<and> elapsed < r_totalTimeoutMs (retryFor retry0 req) \<and> \<not> retryAfterTooLong (retryFor retry0 req) error)"
  using assms
  by (auto simp: willRetry_def connectRetries_def Let_def not_le isStreamBody_def isStatefulRequest_def)

theorem stateful_replay_witness:
  "let req = plain_request (BJson (JObj [(''previous_response_id'', JStr ''r1'')]));
       error = classifyError (\<lambda>_. NaN) 0 ''p'' 503 JNull []
   in \<not> willRetry (mergeRetry None) req 0 0 error \<and> connectRetries (retryFor (mergeRetry None) req) req 0 0 error"
proof -
  define req where "req = plain_request (BJson (JObj [(''previous_response_id'', JStr ''r1'')]))"
  define e where "e = classifyError (\<lambda>_. NaN) 0 ''p'' 503 JNull []"
  have a: "isStatefulRequest (rq_body req)" "\<not> approvesUnsafeReplay req" unfolding req_def by code_simp+
  have "isRetryable (retryFor (mergeRetry None) req) e \<and> 0 < maxRetriesFor (retryFor (mergeRetry None) req) req e
    \<and> (0 :: rat) < r_totalTimeoutMs (retryFor (mergeRetry None) req) \<and> \<not> retryAfterTooLong (retryFor (mergeRetry None) req) e"
    unfolding req_def e_def by code_simp
  then show ?thesis using stateful_replay[OF a, of "mergeRetry None" 0 0 e] by (simp add: req_def e_def Let_def)
qed

text \<open>the delay before a retry. A usable \<open>Retry-After\<close> is honoured up to the policy's cap; otherwise the
  exponential backoff, jittered and rounded, stays between zero and its maximum with the jitter.\<close>

theorem backoff_bounds:
  assumes "0 \<le> b_initialMs b" "0 \<le> b_maxMs b" "0 \<le> b_multiplier b" "0 \<le> b_jitter b" "b_jitter b \<le> 1"
    and "r_backoff retry = b" "0 \<le> rnd" "rnd < 1" "0 < r_maxRetryAfterMs retry"
  shows "let d = calculateBackoff rnd attempt error None retry in
    0 \<le> d \<and> (\<forall>m. e_retryAfterMs error = Some (Fin m) \<and> 0 < m \<longrightarrow> d = min m (r_maxRetryAfterMs retry))
    \<and> d \<le> max (r_maxRetryAfterMs retry) (b_maxMs b * (1 + b_jitter b) + 1/2)"
proof -
  let ?base = "min (b_initialMs b * b_multiplier b ^ attempt) (b_maxMs b)"
  let ?x = "?base * (1 - (rnd * b_jitter b * 2 - b_jitter b))"
  have base: "0 \<le> ?base" "?base \<le> b_maxMs b" using assms by simp_all
  note jb = jittered_bounds[OF base assms(4,5,7,8)]
  have r: "0 \<le> js_round ?x" "js_round ?x \<le> b_maxMs b * (1 + b_jitter b) + 1/2"
    using js_round_nonneg[OF jb(1)] js_round_le[of ?x] jb(2) by linarith+
  show ?thesis
  proof (cases "honoredRetryAfterMs error retry")
    case None
    then have "calculateBackoff rnd attempt error None retry = js_round ?x"
      using assms(6) by (simp add: calculateBackoff_def Let_def)
    moreover have "\<not> (e_retryAfterMs error = Some (Fin m) \<and> 0 < m)" for m
      using None by (auto simp: honoredRetryAfterMs_def)
    ultimately show ?thesis using r by (auto simp: Let_def le_max_iff_disj)
  next
    case (Some h)
    then obtain raw where raw: "e_retryAfterMs error = Some (Fin raw)" "0 < raw" "h = min raw (r_maxRetryAfterMs retry)"
      by (auto simp: honoredRetryAfterMs_def split: option.splits jsnum.splits if_splits)
    then show ?thesis using Some assms(9) by (auto simp: calculateBackoff_def Let_def)
  qed
qed

theorem backoff_bounds_witness:
  "let d = calculateBackoff (1/2) 1 (classifyError (\<lambda>_. NaN) 0 ''p'' 503 JNull []) None DEFAULT_RETRY in 0 \<le> d \<and> d \<le> 120000"
proof -
  define b where "b = r_backoff DEFAULT_RETRY"
  have "0 \<le> b_initialMs b" "0 \<le> b_maxMs b" "0 \<le> b_multiplier b" "0 \<le> b_jitter b" "b_jitter b \<le> 1"
    by (simp_all add: b_def DEFAULT_RETRY_def)
  from backoff_bounds[OF this b_def[symmetric], of "1/2" 1 "classifyError (\<lambda>_. NaN) 0 ''p'' 503 JNull []"]
  show ?thesis by (simp add: Let_def b_def DEFAULT_RETRY_def)
qed

end
