(* ===== verification/RequestQueue.thy ===== *)
theory RequestQueue
  imports Http
begin

text \<open>
  \<open>src/network/request-queue.ts\<close>: the bounded priority queue, an array heap ordered by priority and
  then by enqueue time, with a deadline per entry. The promise an entry settles is its
  \<open>qe_promise\<close>; \<open>resolve\<close> and \<open>reject\<close> calls are returned to the caller as values.
  \<open>performance.now()\<close> is the argument \<open>now\<close>.
\<close>

record queue_entry =
  qe_promise :: nat
  qe_request :: http_request
  qe_priority :: rat
  qe_enqueuedAt :: ms
  qe_deadline :: ms
  qe_estimatedTokens :: rat
  qe_attempt :: nat

record queue_config =
  qc_maxSize :: nat
  qc_timeoutMs :: ms

definition DEFAULT_QUEUE_CONFIG :: queue_config where
  "DEFAULT_QUEUE_CONFIG = \<lparr> qc_maxSize = 200, qc_timeoutMs = 30000 \<rparr>"

record queue_config_override =
  qo_maxSize :: "nat option"
  qo_timeoutMs :: "ms option"

record request_queue =
  rq_heap :: "queue_entry list"
  rq_config :: queue_config
  rq_drainWaiters :: nat

text \<open>\<open>rq_drainWaiters\<close> counts the suspended calls of \<open>waitForItem\<close>; each is the same continuation.\<close>

definition new_RequestQueue :: "queue_config_override option \<Rightarrow> request_queue" where
  "new_RequestQueue ov =
     \<lparr> rq_heap = [],
       rq_config = (case ov of None \<Rightarrow> DEFAULT_QUEUE_CONFIG
                    | Some v \<Rightarrow> \<lparr> qc_maxSize = nullish (qo_maxSize v) (qc_maxSize DEFAULT_QUEUE_CONFIG),
                                  qc_timeoutMs = nullish (qo_timeoutMs v) (qc_timeoutMs DEFAULT_QUEUE_CONFIG) \<rparr>),
       rq_drainWaiters = 0 \<rparr>"

section \<open>The array heap\<close>

definition qcompare :: "queue_entry \<Rightarrow> queue_entry \<Rightarrow> rat" where
  "qcompare a b =
     (if qe_priority a \<noteq> qe_priority b then qe_priority a - qe_priority b
      else qe_enqueuedAt a - qe_enqueuedAt b)"

definition before :: "queue_entry \<Rightarrow> queue_entry \<Rightarrow> bool" where
  "before a b = (qcompare a b < 0)"

definition parent :: "nat \<Rightarrow> nat" where
  "parent i = (i - 1) div 2"

function bubbleUp :: "queue_entry list \<Rightarrow> nat \<Rightarrow> queue_entry list" where
  "bubbleUp h i =
     (if i > 0 \<and> before (h ! i) (h ! parent i) then bubbleUp (swap_at i (parent i) h) (parent i) else h)"
  by pat_completeness auto
termination
  by (relation "measure (\<lambda>(h, i). i)") (auto simp: parent_def)

definition smallest_child :: "queue_entry list \<Rightarrow> nat \<Rightarrow> nat" where
  "smallest_child h i =
     (let n = length h; left = 2 * i + 1; right = 2 * i + 2;
          s1 = (if left < n \<and> before (h ! left) (h ! i) then left else i)
      in if right < n \<and> before (h ! right) (h ! s1) then right else s1)"

lemma smallest_child_bounds:
  "smallest_child h i \<noteq> i \<Longrightarrow> i < smallest_child h i \<and> smallest_child h i < length h"
  by (auto simp: smallest_child_def Let_def split: if_splits)

function sinkDown :: "queue_entry list \<Rightarrow> nat \<Rightarrow> queue_entry list" where
  "sinkDown h i =
     (let smallest = smallest_child h i
      in if smallest = i then h else sinkDown (swap_at i smallest h) smallest)"
  by pat_completeness auto
termination
proof (relation "measure (\<lambda>(h, i). length h - i)")
  fix h :: "queue_entry list" and i s :: nat
  assume "s = smallest_child h i" "s \<noteq> i"
  then show "((swap_at i s h, s), (h, i)) \<in> measure (\<lambda>(h, i). length h - i)"
    using smallest_child_bounds[of h i] by auto
qed auto

declare bubbleUp.simps [simp del] sinkDown.simps [simp del]

definition rebuildHeap :: "queue_entry list \<Rightarrow> queue_entry list" where
  "rebuildHeap h = fold (\<lambda>i h. sinkDown h i) (rev [0..<length h div 2]) h"

definition heap_push :: "queue_entry \<Rightarrow> queue_entry list \<Rightarrow> queue_entry list" where
  "heap_push e h = bubbleUp (h @ [e]) (length h)"

definition heap_pop :: "queue_entry list \<Rightarrow> queue_entry \<times> queue_entry list" where
  "heap_pop h =
     (let top = h ! 0; last = h ! (length h - 1); h1 = butlast h
      in (top, if length h1 > 0 then sinkDown (h1[0 := last]) 0 else h1))"

section \<open>The queue operations\<close>

datatype enqueue_result = QueueFull string | Enqueued request_queue bool

text \<open>The flag of \<open>Enqueued\<close>: a suspended \<open>waitForItem\<close> was resumed by \<open>notifyDrain\<close>.\<close>

definition enqueue ::
  "ms \<Rightarrow> nat \<Rightarrow> http_request \<Rightarrow> rat \<Rightarrow> rat \<Rightarrow> nat \<Rightarrow> request_queue \<Rightarrow> enqueue_result" where
  "enqueue now promise request priority estimatedTokens attempt q =
     (if length (rq_heap q) \<ge> qc_maxSize (rq_config q) then
        QueueFull (''Queue full ('' @ nat_to_string (qc_maxSize (rq_config q)) @ '' pending)'')
      else
        (let entry = \<lparr> qe_promise = promise, qe_request = request, qe_priority = priority,
                       qe_enqueuedAt = now, qe_deadline = now + qc_timeoutMs (rq_config q),
                       qe_estimatedTokens = estimatedTokens, qe_attempt = attempt \<rparr>;
             q1 = q\<lparr>rq_heap := heap_push entry (rq_heap q)\<rparr>
         in Enqueued (q1\<lparr>rq_drainWaiters := rq_drainWaiters q1 - 1\<rparr>) (rq_drainWaiters q1 > 0)))"

text \<open>\<open>purgeExpired\<close>: the queue and the entries to reject, in array order.\<close>

definition purgeExpired :: "ms \<Rightarrow> request_queue \<Rightarrow> request_queue \<times> queue_entry list" where
  "purgeExpired now q =
     (let expired = filter (\<lambda>e. now > qe_deadline e) (rq_heap q);
          kept = filter (\<lambda>e. \<not> now > qe_deadline e) (rq_heap q)
      in if expired \<noteq> [] then (q\<lparr>rq_heap := rebuildHeap kept\<rparr>, expired) else (q\<lparr>rq_heap := kept\<rparr>, []))"

definition dequeue :: "ms \<Rightarrow> request_queue \<Rightarrow> queue_entry option \<times> request_queue \<times> queue_entry list" where
  "dequeue now q =
     (let (q1, expired) = purgeExpired now q
      in if rq_heap q1 = [] then (None, q1, expired)
         else (let (top, h) = heap_pop (rq_heap q1) in (Some top, q1\<lparr>rq_heap := h\<rparr>, expired)))"

definition peek :: "ms \<Rightarrow> request_queue \<Rightarrow> queue_entry option \<times> request_queue \<times> queue_entry list" where
  "peek now q =
     (let (q1, expired) = purgeExpired now q
      in (if rq_heap q1 \<noteq> [] then Some (rq_heap q1 ! 0) else None, q1, expired))"

text \<open>\<open>waitForItem\<close>: \<open>True\<close> when the promise is already resolved.\<close>

definition waitForItem :: "request_queue \<Rightarrow> bool \<times> request_queue" where
  "waitForItem q =
     (if rq_heap q \<noteq> [] then (True, q) else (False, q\<lparr>rq_drainWaiters := rq_drainWaiters q + 1\<rparr>))"

section \<open>The order of entries\<close>

lemma before_iff:
  "before a b \<longleftrightarrow> qe_priority a < qe_priority b
     \<or> qe_priority a = qe_priority b \<and> qe_enqueuedAt a < qe_enqueuedAt b"
  by (auto simp: before_def qcompare_def)

lemma not_before_refl [simp]: "\<not> before a a"
  by (simp add: before_iff)

lemma before_asym: "before a b \<Longrightarrow> \<not> before b a"
  by (auto simp: before_iff)

lemma before_trans: "before a b \<Longrightarrow> before b c \<Longrightarrow> before a c"
  by (auto simp: before_iff)

lemma before_not_before: "before a b \<Longrightarrow> \<not> before c b \<Longrightarrow> \<not> before c a"
  by (auto simp: before_iff)

lemma not_before_trans: "\<not> before b a \<Longrightarrow> \<not> before c b \<Longrightarrow> \<not> before c a"
  by (auto simp: before_iff)

section \<open>The heap invariant\<close>

text \<open>\<open>heap_from m\<close>: no entry goes before its parent, for parents at index \<open>m\<close> or later.\<close>

definition heap_from :: "nat \<Rightarrow> queue_entry list \<Rightarrow> bool" where
  "heap_from m h \<longleftrightarrow> (\<forall>k<length h. 0 < k \<longrightarrow> m \<le> parent k \<longrightarrow> \<not> before (h ! k) (h ! parent k))"

definition heap_ok :: "queue_entry list \<Rightarrow> bool" where
  "heap_ok h = heap_from 0 h"

definition except_down :: "nat \<Rightarrow> nat \<Rightarrow> queue_entry list \<Rightarrow> bool" where
  "except_down m i h \<longleftrightarrow>
     (\<forall>k<length h. 0 < k \<longrightarrow> m \<le> parent k \<longrightarrow>
        (parent k \<noteq> i \<longrightarrow> \<not> before (h ! k) (h ! parent k)) \<and>
        (parent k = i \<longrightarrow> 0 < i \<longrightarrow> m \<le> parent i \<longrightarrow> \<not> before (h ! k) (h ! parent i)))"

definition except_up :: "nat \<Rightarrow> queue_entry list \<Rightarrow> bool" where
  "except_up i h \<longleftrightarrow>
     (\<forall>k<length h. 0 < k \<longrightarrow>
        (k \<noteq> i \<longrightarrow> \<not> before (h ! k) (h ! parent k)) \<and>
        (parent k = i \<longrightarrow> 0 < i \<longrightarrow> \<not> before (h ! k) (h ! parent i)))"

lemma parent_less: "0 < k \<Longrightarrow> parent k < k"
  by (auto simp: parent_def)

lemma parent_eq_iff: "0 < k \<Longrightarrow> parent k = i \<longleftrightarrow> k = 2 * i + 1 \<or> k = 2 * i + 2"
  by (auto simp: parent_def)

text \<open>Where \<open>sinkDown\<close> stops, both children respect the entry; where it moves, the moved child wins.\<close>

lemma smallest_child_stop:
  assumes "smallest_child h i = i" "k < length h" "0 < k" "parent k = i"
  shows "\<not> before (h ! k) (h ! i)"
  using assms by (auto simp: smallest_child_def Let_def parent_eq_iff split: if_splits)

lemma smallest_child_move:
  assumes "smallest_child h i = s" "s \<noteq> i"
  shows "0 < s" "parent s = i" "before (h ! s) (h ! i)"
    and "k < length h \<Longrightarrow> 0 < k \<Longrightarrow> parent k = i \<Longrightarrow> \<not> before (h ! k) (h ! s)"
proof -
  show "0 < s" using assms smallest_child_bounds[of h i] by auto
  have "s = 2 * i + 1 \<or> s = 2 * i + 2"
    using assms by (auto simp: smallest_child_def Let_def split: if_splits)
  then show "parent s = i" by (auto simp: parent_def)
  show "before (h ! s) (h ! i)"
    using assms by (auto simp: smallest_child_def Let_def split: if_splits intro: before_trans)
  show "\<not> before (h ! k) (h ! s)" if "k < length h" "0 < k" "parent k = i"
    using assms that
    by (auto simp: smallest_child_def Let_def parent_eq_iff split: if_splits
        intro: before_not_before dest: before_asym before_trans)
qed

lemma except_down_stop: "except_down m i h \<Longrightarrow> smallest_child h i = i \<Longrightarrow> heap_from m h"
  unfolding except_down_def heap_from_def using smallest_child_stop by blast

lemma except_down_move:
  assumes E: "except_down m i h" and s: "smallest_child h i = s" "s \<noteq> i" and i: "i < length h"
  shows "except_down m s (swap_at i s h)"
proof -
  note mv = smallest_child_move[OF s]
  have sl: "s < length h" "i < s" using smallest_child_bounds[of h i] s by auto
  have fst_part: "\<not> before (swap_at i s h ! k) (swap_at i s h ! parent k)"
    if k: "k < length h" "0 < k" "m \<le> parent k" "parent k \<noteq> s" for k
  proof (cases "parent k = i")
    case True
    then show ?thesis using k mv(3) mv(4)[of k] sl i before_asym parent_less[of k]
      by (auto simp: nth_swap_at)
  next
    case False
    then have "k \<noteq> s" using mv by auto
    have "\<not> before (h ! s) (h ! parent i)" if "k = i"
      using E sl mv k that parent_less[of i] unfolding except_down_def by auto
    moreover have "\<not> before (h ! k) (h ! parent k)"
      using E k False unfolding except_down_def by auto
    ultimately show ?thesis using k False \<open>k \<noteq> s\<close> sl i parent_less[of k] by (auto simp: nth_swap_at)
  qed
  have snd_part: "\<not> before (swap_at i s h ! k) (swap_at i s h ! parent s)"
    if k: "k < length h" "0 < k" "m \<le> parent k" "parent k = s" for k
  proof -
    have "k \<noteq> i" "k \<noteq> s" using parent_less[of k] k sl by auto
    moreover have "\<not> before (h ! k) (h ! s)" using E k s(2) unfolding except_down_def by auto
    ultimately show ?thesis using k sl i mv by (auto simp: nth_swap_at)
  qed
  show ?thesis using fst_part snd_part by (auto simp: except_down_def)
qed

lemma sinkDown_heap: "except_down m i h \<Longrightarrow> i < length h \<Longrightarrow> heap_from m (sinkDown h i)"
proof (induction h i rule: sinkDown.induct)
  case (1 h i)
  show ?case
  proof (cases "smallest_child h i = i")
    case True
    then show ?thesis using 1 except_down_stop by (simp add: sinkDown.simps[of h i])
  next
    case False
    then show ?thesis
      using "1.IH"[OF refl False] "1.prems" except_down_move[OF "1.prems"(1) refl False]
        smallest_child_bounds[of h i]
      by (simp add: sinkDown.simps[of h i] Let_def)
  qed
qed

lemma sinkDown_mset [simp]: "i < length h \<Longrightarrow> mset (sinkDown h i) = mset h"
proof (induction h i rule: sinkDown.induct)
  case (1 h i)
  then show ?case using smallest_child_bounds[of h i]
    by (auto simp: sinkDown.simps[of h i] Let_def)
qed

lemma sinkDown_length [simp]: "i < length h \<Longrightarrow> length (sinkDown h i) = length h"
  by (metis sinkDown_mset size_mset)

lemma bubbleUp_mset [simp]: "i < length h \<Longrightarrow> mset (bubbleUp h i) = mset h"
proof (induction h i rule: bubbleUp.induct)
  case (1 h i)
  then show ?case using parent_less[of i] by (auto simp: bubbleUp.simps[of h i])
qed

lemma except_up_move:
  assumes E: "except_up i h" and i: "0 < i" "i < length h" and b: "before (h ! i) (h ! parent i)"
  shows "except_up (parent i) (swap_at i (parent i) h)"
proof -
  let ?p = "parent i"
  have p: "?p < i" "?p < length h" using parent_less[of i] i by auto
  have fst_part: "\<not> before (swap_at i ?p h ! k) (swap_at i ?p h ! parent k)"
    if k: "k < length h" "0 < k" "k \<noteq> ?p" for k
  proof -
    have pk: "parent k < k" "parent k < length h" using parent_less[of k] k by auto
    have r: "k \<noteq> i \<Longrightarrow> \<not> before (h ! k) (h ! parent k)"
      and r2: "parent k = i \<Longrightarrow> \<not> before (h ! k) (h ! ?p)"
      using E k i unfolding except_up_def by auto
    consider "k = i" | "k \<noteq> i" "parent k = i" | "k \<noteq> i" "parent k = ?p" | "k \<noteq> i" "parent k \<noteq> i" "parent k \<noteq> ?p"
      by blast
    then show ?thesis
    proof cases
      case 3
      then have "\<not> before (h ! k) (h ! ?p)" using r by simp
      then have "\<not> before (h ! k) (h ! i)" using b by (auto simp: before_iff)
      then show ?thesis using 3 k pk i p by (simp add: nth_swap_at)
    qed (use k pk i p r r2 b before_asym in \<open>auto simp: nth_swap_at\<close>)
  qed
  have snd_part: "\<not> before (swap_at i ?p h ! k) (swap_at i ?p h ! parent ?p)"
    if k: "k < length h" "0 < k" "parent k = ?p" "0 < ?p" for k
  proof -
    have pp: "parent ?p < ?p" "parent ?p < length h" using parent_less[of ?p] k p by auto
    have q: "\<not> before (h ! ?p) (h ! parent ?p)" using E k p unfolding except_up_def by auto
    have r: "k \<noteq> i \<Longrightarrow> \<not> before (h ! k) (h ! ?p)" using E k unfolding except_up_def by auto
    have "k \<noteq> ?p" using parent_less[of k] k by auto
    then show ?thesis
      using q r k pp i p not_before_trans[OF q] by (cases "k = i") (auto simp: nth_swap_at)
  qed
  show ?thesis using fst_part snd_part by (auto simp: except_up_def)
qed

lemma bubbleUp_heap: "except_up i h \<Longrightarrow> i < length h \<Longrightarrow> heap_ok (bubbleUp h i)"
proof (induction h i rule: bubbleUp.induct)
  case (1 h i)
  show ?case
  proof (cases "i > 0 \<and> before (h ! i) (h ! parent i)")
    case True
    then show ?thesis
      using 1 except_up_move[of i h] parent_less[of i] by (simp add: bubbleUp.simps[of h i])
  next
    case False
    then have "heap_ok h" using "1.prems" by (auto simp: heap_ok_def heap_from_def except_up_def)
    with False show ?thesis by (auto simp: bubbleUp.simps[of h i])
  qed
qed

section \<open>Building, pushing and popping\<close>

lemma heap_from_half: "heap_from (length h div 2) h"
  by (auto simp: heap_from_def parent_def)

lemma except_down_front: "heap_from (Suc j) h \<Longrightarrow> except_down j j h"
  using parent_less[of j] by (auto simp: heap_from_def except_down_def)

lemma rebuild_fold:
  "heap_from j h \<Longrightarrow> j \<le> length h \<Longrightarrow> heap_from 0 (fold (\<lambda>i h. sinkDown h i) (rev [0..<j]) h)
     \<and> mset (fold (\<lambda>i h. sinkDown h i) (rev [0..<j]) h) = mset h"
proof (induction j arbitrary: h)
  case 0
  then show ?case by simp
next
  case (Suc j)
  then have "heap_from j (sinkDown h j)" by (simp add: sinkDown_heap except_down_front)
  with Suc show ?case by simp
qed

lemma rebuildHeap_ok: "heap_ok (rebuildHeap h)"
  and rebuildHeap_mset [simp]: "mset (rebuildHeap h) = mset h"
  using rebuild_fold[OF heap_from_half[of h]] by (simp_all add: heap_ok_def rebuildHeap_def)

lemma heap_push_mset [simp]: "mset (heap_push e h) = add_mset e (mset h)"
  by (simp add: heap_push_def)

lemma heap_from_Nil [simp]: "heap_from m []"
  by (simp add: heap_from_def)

lemma heap_push_ok:
  assumes "heap_ok h"
  shows "heap_ok (heap_push e h)"
proof -
  have "\<not> before ((h @ [e]) ! k) ((h @ [e]) ! parent k)"
    if "k < Suc (length h)" "0 < k" "k \<noteq> length h" for k
    using assms parent_less[of k] that by (simp add: heap_ok_def heap_from_def nth_append)
  moreover have "parent k \<noteq> length h" if "k < Suc (length h)" "0 < k" for k
    using parent_less[of k] that by simp
  ultimately have "except_up (length h) (h @ [e])"
    by (simp add: except_up_def)
  then show ?thesis by (simp add: heap_push_def bubbleUp_heap)
qed

lemma heap_top_min: "heap_ok h \<Longrightarrow> k < length h \<Longrightarrow> \<not> before (h ! k) (h ! 0)"
proof (induction k rule: less_induct)
  case (less k)
  show ?case
  proof (cases "k = 0")
    case False
    then have "\<not> before (h ! k) (h ! parent k)" using less.prems by (simp add: heap_ok_def heap_from_def)
    moreover have "\<not> before (h ! parent k) (h ! 0)" using less parent_less[of k] False by simp
    ultimately show ?thesis using not_before_trans by blast
  qed simp
qed

lemma pop_except_down: "heap_ok h \<Longrightarrow> except_down 0 0 ((butlast h)[0 := x])"
  by (auto simp: except_down_def heap_ok_def heap_from_def nth_list_update nth_butlast
      dest: parent_less less_trans)

lemma heap_pop_ok:
  assumes "heap_ok h" "heap_pop h = (e, h')"
  shows "heap_ok h'"
proof (cases "butlast h = []")
  case True
  then show ?thesis using assms by (auto simp: heap_pop_def Let_def heap_ok_def)
next
  case False
  then have "h' = sinkDown ((butlast h)[0 := h ! (length h - 1)]) 0"
    using assms(2) by (simp add: heap_pop_def Let_def)
  moreover have "0 < length (butlast h)" using False by (rule length_greater_0_conv[THEN iffD2])
  ultimately show ?thesis
    using sinkDown_heap[OF pop_except_down[OF assms(1)]] by (simp add: heap_ok_def)
qed

lemma heap_pop_mset:
  assumes "h \<noteq> []" "heap_pop h = (e, h')"
  shows "mset h = add_mset e (mset h')" "e = h ! 0"
proof -
  show e: "e = h ! 0" using assms by (simp add: heap_pop_def Let_def)
  show "mset h = add_mset e (mset h')"
  proof (cases "butlast h")
    case Nil
    then have "h = [e]" using assms(1) e by (cases h) (auto split: if_splits)
    then show ?thesis using assms by (simp add: heap_pop_def)
  next
    case (Cons x xs)
    then have h: "h = x # xs @ [last h]"
      using append_butlast_last_id[OF assms(1)] by simp
    then have "e = x" using e by (metis nth_Cons_0)
    have "last h = h ! (length h - 1)" using assms(1) by (rule last_conv_nth)
    then have "h' = sinkDown (last h # xs) 0" using assms Cons by (simp add: heap_pop_def Let_def)
    then have "mset h' = add_mset (last h) (mset xs)" by simp
    moreover have "mset h = add_mset x (add_mset (last h) (mset xs))"
      using arg_cong[OF h, of mset] by simp
    ultimately show ?thesis using \<open>e = x\<close> by simp
  qed
qed

section \<open>The priority queue contract\<close>

fun drain :: "('q \<Rightarrow> 'e \<times> 'q) \<Rightarrow> nat \<Rightarrow> 'q \<Rightarrow> 'e list" where
  "drain del 0 q = []"
| "drain del (Suc n) q = (let (e, q') = del q in e # drain del n q')"

locale priority_queue =
  fixes ins :: "'e \<Rightarrow> 'q \<Rightarrow> 'q"
    and del :: "'q \<Rightarrow> 'e \<times> 'q"
    and elems :: "'q \<Rightarrow> 'e multiset"
    and lt :: "'e \<Rightarrow> 'e \<Rightarrow> bool"
    and inv :: "'q \<Rightarrow> bool"
  assumes ins_elems: "elems (ins e q) = add_mset e (elems q)"
    and ins_inv: "inv q \<Longrightarrow> inv (ins e q)"
    and del_elems: "elems q \<noteq> {#} \<Longrightarrow> del q = (e, q') \<Longrightarrow> elems q = add_mset e (elems q')"
    and del_min: "inv q \<Longrightarrow> elems q \<noteq> {#} \<Longrightarrow> del q = (e, q') \<Longrightarrow> x \<in># elems q \<Longrightarrow> \<not> lt x e"
    and del_inv: "inv q \<Longrightarrow> del q = (e, q') \<Longrightarrow> inv q'"
begin

text \<open>Removing every element one by one is a sort.\<close>

lemma drain_all:
  "inv q \<Longrightarrow> n = size (elems q) \<Longrightarrow>
   mset (drain del n q) = elems q \<and> sorted_wrt (\<lambda>a b. \<not> lt b a) (drain del n q)"
proof (induction n arbitrary: q)
  case 0
  then show ?case by simp
next
  case (Suc n)
  obtain e q' where d: "del q = (e, q')" by (cases "del q")
  have ne: "elems q \<noteq> {#}" using Suc.prems by auto
  have el: "elems q = add_mset e (elems q')" using del_elems[OF ne d] .
  have ih: "mset (drain del n q') = elems q' \<and> sorted_wrt (\<lambda>a b. \<not> lt b a) (drain del n q')"
    using Suc el del_inv[OF _ d] by simp
  have "\<not> lt x e" if "x \<in> set (drain del n q')" for x
    using del_min[OF Suc.prems(1) ne d, of x] that ih el by (metis set_mset_mset union_single_eq_member
        add_mset_add_single union_iff)
  then show ?case using ih el d by simp
qed

end

interpretation heap: priority_queue heap_push heap_pop mset before heap_ok
proof unfold_locales
  fix q q' e x
  assume "heap_ok q" "mset q \<noteq> {#}" "heap_pop q = (e, q')" "x \<in># mset q"
  then show "\<not> before x e"
    using heap_pop_mset(2)[of q e q'] heap_top_min[of q] by (auto simp: in_set_conv_nth)
qed (auto simp: heap_push_ok heap_pop_ok dest: heap_pop_mset)

section \<open>The queue invariant\<close>

definition queue_inv :: "request_queue \<Rightarrow> bool" where
  "queue_inv q \<longleftrightarrow> heap_ok (rq_heap q) \<and> length (rq_heap q) \<le> qc_maxSize (rq_config q)"

lemma queue_inv_new [sdk_inv]: "queue_inv (new_RequestQueue ov)"
  by (simp add: queue_inv_def new_RequestQueue_def heap_ok_def heap_from_def)

lemma heap_push_length [simp]: "length (heap_push e h) = Suc (length h)"
  by (metis heap_push_mset size_add_mset size_mset)

lemma enqueue_EnqueuedD:
  assumes "enqueue now p rq pr tok att q = Enqueued q' woke"
  obtains e where "qe_promise e = p" "qe_request e = rq" "qe_priority e = pr" "qe_attempt e = att"
    "qe_estimatedTokens e = tok" "qe_enqueuedAt e = now"
    "qe_deadline e = now + qc_timeoutMs (rq_config q)"
    "mset (rq_heap q') = add_mset e (mset (rq_heap q))" "rq_config q' = rq_config q"
    "rq_drainWaiters q' = rq_drainWaiters q - 1" "woke \<longleftrightarrow> rq_drainWaiters q > 0"
    "length (rq_heap q) < qc_maxSize (rq_config q)"
proof -
  let ?e = "\<lparr> qe_promise = p, qe_request = rq, qe_priority = pr, qe_enqueuedAt = now,
              qe_deadline = now + qc_timeoutMs (rq_config q), qe_estimatedTokens = tok, qe_attempt = att \<rparr>"
  show thesis
    by (rule that[of ?e]) (use assms in \<open>auto simp: enqueue_def Let_def split: if_splits\<close>)
qed

lemma enqueue_inv [sdk_inv]:
  "queue_inv q \<Longrightarrow> enqueue now p rq pr tok att q = Enqueued q' woke \<Longrightarrow> queue_inv q'"
  by (auto simp: queue_inv_def enqueue_def Let_def heap_push_ok split: if_splits)

lemma purge_heap:
  assumes "purgeExpired now q = (q', gone)"
  shows "gone = filter (\<lambda>e. now > qe_deadline e) (rq_heap q)"
    and "mset (rq_heap q') = filter_mset (\<lambda>e. \<not> now > qe_deadline e) (mset (rq_heap q))"
    and "rq_config q' = rq_config q" "rq_drainWaiters q' = rq_drainWaiters q"
    and "heap_ok (rq_heap q) \<Longrightarrow> heap_ok (rq_heap q')"
proof -
  have keep: "filter (\<lambda>e. \<not> qe_deadline e < now) (rq_heap q) = rq_heap q"
    if "\<forall>e\<in>set (rq_heap q). \<not> qe_deadline e < now" using that by (simp add: filter_id_conv)
  show "gone = filter (\<lambda>e. now > qe_deadline e) (rq_heap q)"
    "mset (rq_heap q') = filter_mset (\<lambda>e. \<not> now > qe_deadline e) (mset (rq_heap q))"
    "rq_config q' = rq_config q" "rq_drainWaiters q' = rq_drainWaiters q"
    "heap_ok (rq_heap q) \<Longrightarrow> heap_ok (rq_heap q')"
    using assms keep
    by (auto simp: purgeExpired_def Let_def rebuildHeap_ok filter_empty_conv mset_filter[symmetric]
        simp del: mset_filter split: if_splits)
qed

lemma dequeue_cases:
  assumes "dequeue now q = (r, q', gone)"
  obtains q1 where "purgeExpired now q = (q1, gone)" "r = None" "q' = q1" "rq_heap q1 = []"
  | q1 e h where "purgeExpired now q = (q1, gone)" "r = Some e" "rq_heap q1 \<noteq> []"
      "heap_pop (rq_heap q1) = (e, h)" "q' = q1\<lparr>rq_heap := h\<rparr>"
  using assms by (auto simp: dequeue_def split: prod.splits if_splits)

definition deq_post ::
  "ms \<Rightarrow> request_queue \<Rightarrow> queue_entry option \<Rightarrow> request_queue \<Rightarrow> queue_entry list \<Rightarrow> bool" where
  \<comment> \<open>What \<open>dequeue\<close> promises: it rejects exactly the expired entries and returns a first live one.\<close>
  "deq_post now q r q' gone \<longleftrightarrow>
     heap_ok (rq_heap q') \<and> rq_config q' = rq_config q \<and> rq_drainWaiters q' = rq_drainWaiters q
     \<and> gone = filter (\<lambda>e. now > qe_deadline e) (rq_heap q)
     \<and> (case r of
          None \<Rightarrow> rq_heap q' = [] \<and> (\<forall>e\<in>set (rq_heap q). now > qe_deadline e)
        | Some e \<Rightarrow> mset (rq_heap q) = mset gone + add_mset e (mset (rq_heap q'))
            \<and> \<not> now > qe_deadline e
            \<and> (\<forall>x\<in>set (rq_heap q). \<not> now > qe_deadline x \<longrightarrow> \<not> before x e))"

lemma dequeue_spec:
  assumes ok: "heap_ok (rq_heap q)" and d: "dequeue now q = (r, q', gone)"
  shows "deq_post now q r q' gone"
proof (cases rule: dequeue_cases[OF d])
  case (1 q1)
  note p = purge_heap[OF 1(1)]
  have "mset (filter (\<lambda>e. \<not> now > qe_deadline e) (rq_heap q)) = {#}" using p(2) 1 by simp
  then have "\<forall>e\<in>set (rq_heap q). now > qe_deadline e"
    by (simp add: filter_empty_conv del: mset_filter)
  with 1 p ok show ?thesis by (simp add: deq_post_def)
next
  case (2 q1 e h)
  note p = purge_heap[OF 2(1)]
  note pop = heap_pop_mset[OF 2(3,4)]
  have split: "mset (rq_heap q) = mset gone + mset (rq_heap q1)"
    using multiset_partition[of "mset (rq_heap q)" "\<lambda>e. now > qe_deadline e"]
    by (simp only: p(1,2) mset_filter)
  have "e \<in># mset (rq_heap q1)" using pop by simp
  then have live: "\<not> now > qe_deadline e" using p(2) by simp
  have "\<not> before x e" if "x \<in> set (rq_heap q)" "\<not> now > qe_deadline x" for x
  proof -
    have "x \<in># mset (rq_heap q1)" using that by (simp only: p(2)) simp
    moreover have "mset (rq_heap q1) \<noteq> {#}" using 2(3) by simp
    ultimately show ?thesis using heap.del_min[OF p(5)[OF ok] _ 2(4)] by blast
  qed
  moreover have "mset (rq_heap q) = mset gone + add_mset e (mset (rq_heap q'))"
    using split pop(1) 2(5) by simp
  moreover have "heap_ok (rq_heap q')" "rq_config q' = rq_config q" "rq_drainWaiters q' = rq_drainWaiters q"
    using heap_pop_ok[OF p(5)[OF ok] 2(4)] p(3,4) 2(5) by simp_all
  ultimately show ?thesis
    unfolding deq_post_def 2(2) option.case using p(1) live by blast
qed

lemma deq_postD:
  assumes "deq_post now q r q' gone"
  shows "rq_config q' = rq_config q" "rq_drainWaiters q' = rq_drainWaiters q" "heap_ok (rq_heap q')"
    and "gone = filter (\<lambda>e. now > qe_deadline e) (rq_heap q)"
    and "r = None \<Longrightarrow> rq_heap q' = []"
    and "r = Some e \<Longrightarrow> mset (rq_heap q) = mset gone + add_mset e (mset (rq_heap q'))"
  using assms by (simp_all only: deq_post_def option.case)

lemma dequeue_length:
  assumes "deq_post now q r q' gone"
  shows "length (rq_heap q) = length gone + (if r = None then 0 else 1) + length (rq_heap q')"
proof (cases r)
  case None
  then have "filter (\<lambda>e. now > qe_deadline e) (rq_heap q) = rq_heap q"
    using assms by (simp add: deq_post_def filter_id_conv)
  then show ?thesis using None deq_postD(4,5)[OF assms] by simp
next
  case (Some e)
  then show ?thesis using arg_cong[OF deq_postD(6)[OF assms Some], of size] by simp
qed

lemma dequeue_inv [sdk_inv]:
  assumes inv: "queue_inv q" and d: "dequeue now q = (r, q', gone)"
  shows "queue_inv q'"
proof -
  have sp: "deq_post now q r q' gone"
    using inv d by (simp add: queue_inv_def dequeue_spec)
  show ?thesis
    using inv dequeue_length[OF sp] deq_postD(1,3)[OF sp] by (simp add: queue_inv_def)
qed

lemma waitForItem_inv [sdk_inv]: "queue_inv q \<Longrightarrow> waitForItem q = (b, q') \<Longrightarrow> queue_inv q'"
  by (auto simp: waitForItem_def queue_inv_def split: if_splits)

section \<open>Properties of the queue\<close>

definition sample_entry :: "nat \<Rightarrow> rat \<Rightarrow> ms \<Rightarrow> ms \<Rightarrow> queue_entry" where
  "sample_entry p pr t dl = \<lparr> qe_promise = p, qe_request = plain_request BUndefined, qe_priority = pr,
     qe_enqueuedAt = t, qe_deadline = dl, qe_estimatedTokens = 0, qe_attempt = 0 \<rparr>"

definition sample_queue :: request_queue where
  "sample_queue = (new_RequestQueue None)
     \<lparr>rq_heap := foldr heap_push [sample_entry 0 1 3 9, sample_entry 1 0 2 4, sample_entry 2 1 1 9] []\<rparr>"

lemma foldr_push: "heap_ok (foldr heap_push es []) \<and> mset (foldr heap_push es []) = mset es"
proof (induction es)
  case Nil
  then show ?case by (simp add: heap_ok_def)
qed (simp add: heap_push_ok)

text \<open>C26: \<open>dequeue\<close> rejects exactly the entries whose deadline has passed, returns a live entry that no live
  entry comes before (lower priority number first, then earlier enqueue time), returns nothing only when
  every entry had expired, keeps every other entry, and keeps the heap and its bound.\<close>

theorem dequeue_correct:
  assumes "queue_inv q" "dequeue now q = (r, q', gone)"
  shows "deq_post now q r q' gone \<and> queue_inv q'"
proof
  have "heap_ok (rq_heap q)" using assms(1) by (simp add: queue_inv_def)
  then show "deq_post now q r q' gone" using assms(2) by (rule dequeue_spec)
  show "queue_inv q'" using assms by (rule dequeue_inv)
qed

theorem dequeue_correct_witness:
  "let (r, q', gone) = dequeue 5 sample_queue
   in queue_inv sample_queue \<and> deq_post 5 sample_queue r q' gone \<and> map qe_promise gone = [1]
      \<and> map_option qe_promise r = Some 2"
proof -
  obtain r q' gone where d: "dequeue 5 sample_queue = (r, q', gone)" by (cases "dequeue 5 sample_queue")
  have inv: "queue_inv sample_queue"
    using foldr_push[of "[sample_entry 0 1 3 9, sample_entry 1 0 2 4, sample_entry 2 1 1 9]"]
      arg_cong[OF conjunct2[OF foldr_push[of "[sample_entry 0 1 3 9, sample_entry 1 0 2 4, sample_entry 2 1 1 9]"]], of size]
    by (simp add: queue_inv_def sample_queue_def new_RequestQueue_def DEFAULT_QUEUE_CONFIG_def)
  have "(let (r, q', gone) = dequeue 5 sample_queue in map qe_promise gone = [1] \<and> map_option qe_promise r = Some 2)"
    by code_simp
  then show ?thesis using dequeue_correct[OF inv d] inv d by simp
qed

text \<open>C27: taking every entry out of the heap is a sort: pushing any entries in any order and popping until
  the heap is empty returns each exactly once, and nothing returned later should have come earlier.\<close>

theorem heap_drains_sorted:
  "let out = drain heap_pop (length es) (foldr heap_push es [])
   in mset out = mset es \<and> sorted_wrt (\<lambda>a b. \<not> before b a) out"
  using heap.drain_all[of "foldr heap_push es []" "length es"] foldr_push[of es] by (simp add: Let_def)

text \<open>entries of one priority enqueued at strictly increasing times leave in the order they came.\<close>

theorem fifo_increasing_times:
  assumes "\<forall>e\<in>set es. qe_priority e = pr" "sorted_wrt (\<lambda>a b. qe_enqueuedAt a < qe_enqueuedAt b) es"
  shows "drain heap_pop (length es) (foldl (\<lambda>h e. heap_push e h) [] es) = es"
proof -
  let ?out = "drain heap_pop (length es) (foldl (\<lambda>h e. heap_push e h) [] es)"
  have f: "foldl (\<lambda>h e. heap_push e h) [] es = foldr heap_push (rev es) []" by (simp add: foldr_conv_foldl)
  have d: "mset ?out = mset es" "sorted_wrt (\<lambda>a b. \<not> before b a) ?out"
    using heap.drain_all[of "foldr heap_push (rev es) []" "length es"] foldr_push[of "rev es"] f by simp_all
  have eq: "before a b \<longleftrightarrow> qe_enqueuedAt a < qe_enqueuedAt b" if "a \<in> set es" "b \<in> set es" for a b
    using assms(1) that by (simp add: before_iff)
  have "sorted (map qe_enqueuedAt ?out)"
    unfolding sorted_map
    using d(2) by (rule sorted_wrt_mono_rel[rotated]) (use eq mset_eq_setD[OF d(1)] in auto)
  moreover have "sorted (map qe_enqueuedAt es)"
    unfolding sorted_map using assms(2) by (rule sorted_wrt_mono_rel[rotated]) auto
  moreover have dm: "distinct (map qe_enqueuedAt es)"
  proof -
    have "sorted_wrt (<) (map qe_enqueuedAt es)" using assms(2) by (simp add: sorted_wrt_map)
    then show ?thesis by (simp add: strict_sorted_iff)
  qed
  moreover have "mset (map qe_enqueuedAt ?out) = mset (map qe_enqueuedAt es)" using d(1) by simp
  then have "distinct (map qe_enqueuedAt ?out)" using dm mset_eq_imp_distinct_iff by blast
  moreover have st: "set ?out = set es" using d(1) by (rule mset_eq_setD)
  moreover have "inj_on qe_enqueuedAt (set ?out \<union> set es)" using dm st by (simp add: distinct_map)
  ultimately show ?thesis using map_sorted_distinct_set_unique by blast
qed

definition timed_entries :: "queue_entry list" where
  "timed_entries = map (\<lambda>p. sample_entry p 1 (of_nat p) 9) [0, 1, 2]"

theorem fifo_increasing_times_witness:
  "drain heap_pop (length timed_entries) (foldl (\<lambda>h e. heap_push e h) [] timed_entries) = timed_entries"
  by (rule fifo_increasing_times[where pr = 1]) (simp_all add: timed_entries_def sample_entry_def)

text \<open>with one priority and one enqueue time the order of arrival is not kept: of three entries pushed
  as 0, 1, 2 the second to leave is 2, although the header promises first in, first out.\<close>

theorem fifo_fails_on_equal_times:
  "map qe_promise (drain heap_pop 3 (foldl (\<lambda>h e. heap_push e h) [] (map (\<lambda>p. sample_entry p 1 0 9) [0, 1, 2])))
   = [0, 2, 1]"
  by code_simp

end
