(* ===== verification/RateLimiter.thy ===== *)
theory RateLimiter
  imports Http
begin

text \<open>
  \<open>src/network/rate-limiter.ts\<close>: the token bucket and the limiter composed of up to three of them
  (requests per minute, tokens per minute, requests per day). Every operation that reads
  \<open>performance.now()\<close> takes the time as its first argument; quantities are exact rationals.
\<close>

record token_bucket =
  tb_tokens :: rat
  tb_lastRefill :: ms
  tb_capacity :: rat
  tb_refillRate :: rat

text \<open>The interval is positive: the limiter makes a bucket only for a non-zero limit, with the window divided by it
  (\<open>limit_bucket\<close>). At an interval of 0 the rate of the code is \<open>Infinity\<close>, which a rational number cannot be.\<close>

definition new_TokenBucket :: "ms \<Rightarrow> rat \<Rightarrow> ms \<Rightarrow> token_bucket" where
  "new_TokenBucket now capacity refillIntervalMs =
     \<lparr> tb_tokens = capacity, tb_lastRefill = now, tb_capacity = capacity,
       tb_refillRate = 1 / refillIntervalMs \<rparr>"

definition refill :: "ms \<Rightarrow> token_bucket \<Rightarrow> token_bucket" where
  "refill now b =
     (let elapsed = now - tb_lastRefill b
      in if elapsed \<le> 0 then b
         else b\<lparr>tb_tokens := min (tb_capacity b) (tb_tokens b + elapsed * tb_refillRate b),
                tb_lastRefill := now\<rparr>)"

definition tryConsume :: "ms \<Rightarrow> rat \<Rightarrow> token_bucket \<Rightarrow> bool \<times> token_bucket" where
  "tryConsume now n b =
     (let b1 = refill now b
      in if tb_tokens b1 \<ge> n then (True, b1\<lparr>tb_tokens := tb_tokens b1 - n\<rparr>) else (False, b1))"

definition bucket_waitTimeMs :: "ms \<Rightarrow> rat \<Rightarrow> token_bucket \<Rightarrow> jsnum \<times> token_bucket" where
  "bucket_waitTimeMs now n b =
     (let b1 = refill now b
      in if tb_tokens b1 \<ge> n then (Fin 0, b1)
         else (let deficit = n - tb_tokens b1
               in (if tb_refillRate b1 = 0 then PosInf
                   else Fin (of_int \<lceil>deficit / tb_refillRate b1\<rceil>), b1)))"

definition setRemaining :: "ms \<Rightarrow> rat \<Rightarrow> token_bucket \<Rightarrow> token_bucket" where
  "setRemaining now remaining b =
     b\<lparr>tb_tokens := min remaining (tb_capacity b), tb_lastRefill := now\<rparr>"

definition setCapacity :: "rat \<Rightarrow> token_bucket \<Rightarrow> token_bucket" where
  "setCapacity capacity b =
     (let b1 = b\<lparr>tb_capacity := capacity, tb_refillRate := capacity / 60000\<rparr>
      in if tb_tokens b1 > capacity then b1\<lparr>tb_tokens := capacity\<rparr> else b1)"

definition drainUntil :: "ms \<Rightarrow> ms \<Rightarrow> token_bucket \<Rightarrow> token_bucket" where
  "drainUntil now resetAt b =
     (if resetAt > now then b\<lparr>tb_tokens := 0, tb_lastRefill := resetAt\<rparr> else b)"

definition bucket_available :: "ms \<Rightarrow> token_bucket \<Rightarrow> rat \<times> token_bucket" where
  "bucket_available now b = (let b1 = refill now b in (of_int \<lfloor>tb_tokens b1\<rfloor>, b1))"

section \<open>The composite limiter\<close>

record rate_limiter_config =
  rl_rpm :: "rat option"
  rl_tpm :: "rat option"
  rl_rpd :: "rat option"
  rl_concurrent :: int

record rate_limiter =
  rpmBucket :: "token_bucket option"
  tpmBucket :: "token_bucket option"
  rpdBucket :: "token_bucket option"

definition limit_bucket :: "ms \<Rightarrow> ms \<Rightarrow> rat option \<Rightarrow> token_bucket option" where
  \<comment> \<open>\<open>limit ? new TokenBucket({ capacity: limit, refillIntervalMs: window / limit }) : null\<close>.\<close>
  "limit_bucket now window limit =
     (case limit of None \<Rightarrow> None
      | Some l \<Rightarrow> if l = 0 then None else Some (new_TokenBucket now l (window / l)))"

definition new_RateLimiter :: "ms \<Rightarrow> rate_limiter_config \<Rightarrow> rate_limiter" where
  "new_RateLimiter now config =
     \<lparr> rpmBucket = limit_bucket now 60000 (rl_rpm config),
       tpmBucket = limit_bucket now 60000 (rl_tpm config),
       rpdBucket = limit_bucket now 86400000 (rl_rpd config) \<rparr>"

definition opt_consume :: "ms \<Rightarrow> rat \<Rightarrow> token_bucket option \<Rightarrow> bool \<times> token_bucket option" where
  \<comment> \<open>\<open>!(bucket && !bucket.tryConsume(n))\<close>\<close>
  "opt_consume now n ob =
     (case ob of None \<Rightarrow> (True, None)
      | Some b \<Rightarrow> (let (ok, b') = tryConsume now n b in (ok, Some b')))"

definition canProceed :: "ms \<Rightarrow> rat \<Rightarrow> rate_limiter \<Rightarrow> bool \<times> rate_limiter" where
  "canProceed now estimatedTokens l =
     (let (ok1, rpm) = opt_consume now 1 (rpmBucket l);
          l1 = l\<lparr>rpmBucket := rpm\<rparr>
      in if \<not> ok1 then (False, l1)
         else (let (ok2, rpd) = opt_consume now 1 (rpdBucket l1);
                   l2 = l1\<lparr>rpdBucket := rpd\<rparr>
               in if \<not> ok2 then (False, l2)
                  else if estimatedTokens > 0 then
                    (let (ok3, tpm) = opt_consume now estimatedTokens (tpmBucket l2)
                     in (ok3, l2\<lparr>tpmBucket := tpm\<rparr>))
                  else (True, l2)))"

fun js_max :: "jsnum \<Rightarrow> jsnum \<Rightarrow> jsnum" where
  "js_max NaN _ = NaN"
| "js_max _ NaN = NaN"
| "js_max PosInf _ = PosInf"
| "js_max _ PosInf = PosInf"
| "js_max NegInf x = x"
| "js_max x NegInf = x"
| "js_max (Fin a) (Fin b) = Fin (max a b)"

definition opt_wait :: "ms \<Rightarrow> rat \<Rightarrow> token_bucket option \<Rightarrow> jsnum \<Rightarrow> jsnum \<times> token_bucket option" where
  "opt_wait now n ob maxWait =
     (case ob of None \<Rightarrow> (maxWait, None)
      | Some b \<Rightarrow> (let (w, b') = bucket_waitTimeMs now n b in (js_max maxWait w, Some b')))"

definition waitTimeMs :: "ms \<Rightarrow> rat \<Rightarrow> rate_limiter \<Rightarrow> jsnum \<times> rate_limiter" where
  "waitTimeMs now estimatedTokens l =
     (let (w1, rpm) = opt_wait now 1 (rpmBucket l) (Fin 0);
          (w2, rpd) = opt_wait now 1 (rpdBucket l) w1;
          (w3, tpm) = (if estimatedTokens > 0 then opt_wait now estimatedTokens (tpmBucket l) w2
                       else (w2, tpmBucket l))
      in (w3, l\<lparr>rpmBucket := rpm, rpdBucket := rpd, tpmBucket := tpm\<rparr>))"

definition header_update :: "ms \<Rightarrow> int option \<Rightarrow> int option \<Rightarrow> token_bucket \<Rightarrow> token_bucket" where
  \<comment> \<open>The body of each \<open>if (this.xBucket)\<close>: first the limit, then the remaining count.\<close>
  "header_update now limit remain b =
     (let b1 = (case limit of None \<Rightarrow> b | Some c \<Rightarrow> setCapacity (of_int c) b)
      in case remain of None \<Rightarrow> b1 | Some r \<Rightarrow> setRemaining now (of_int r) b1)"

definition updateFromHeaders :: "ms \<Rightarrow> headers \<Rightarrow> rate_limiter \<Rightarrow> rate_limiter" where
  "updateFromHeaders now hs l =
     (let remainReq = parseIntHeader hs ''x-ratelimit-remaining-requests'';
          limitReq = parseIntHeader hs ''x-ratelimit-limit-requests'';
          remainTok = parseIntHeader hs ''x-ratelimit-remaining-tokens'';
          limitTok = parseIntHeader hs ''x-ratelimit-limit-tokens''
      in l\<lparr>rpmBucket := map_option (header_update now limitReq remainReq) (rpmBucket l),
           tpmBucket := map_option (header_update now limitTok remainTok) (tpmBucket l)\<rparr>)"

definition pause :: "ms \<Rightarrow> ms \<Rightarrow> rate_limiter \<Rightarrow> rate_limiter" where
  "pause now durationMs l =
     (let resetAt = now + durationMs
      in l\<lparr>rpmBucket := map_option (drainUntil now resetAt) (rpmBucket l)\<rparr>)"

definition rpmAvailable :: "ms \<Rightarrow> rate_limiter \<Rightarrow> jsnum" where
  "rpmAvailable now l =
     (case rpmBucket l of None \<Rightarrow> PosInf | Some b \<Rightarrow> Fin (fst (bucket_available now b)))"

definition tpmAvailable :: "ms \<Rightarrow> rate_limiter \<Rightarrow> jsnum" where
  "tpmAvailable now l =
     (case tpmBucket l of None \<Rightarrow> PosInf | Some b \<Rightarrow> Fin (fst (bucket_available now b)))"

section \<open>Bucket invariants\<close>

definition bucket_inv :: "token_bucket \<Rightarrow> bool" where
  "bucket_inv b \<longleftrightarrow> 0 \<le> tb_refillRate b \<and> tb_tokens b \<le> tb_capacity b"

lemma bucket_inv_new [sdk_inv]: "0 \<le> iv \<Longrightarrow> bucket_inv (new_TokenBucket now c iv)"
  by (simp add: bucket_inv_def new_TokenBucket_def)

lemma refill_frame [simp]:
  "tb_capacity (refill now b) = tb_capacity b" "tb_refillRate (refill now b) = tb_refillRate b"
  by (simp_all add: refill_def Let_def)

lemma refill_lastRefill: "tb_lastRefill (refill now b) = max (tb_lastRefill b) now"
  by (simp add: refill_def Let_def max_def)

lemma refill_inv [sdk_inv]: "bucket_inv b \<Longrightarrow> bucket_inv (refill now b)"
  by (simp add: bucket_inv_def refill_def Let_def)

lemma refill_gain:
  "bucket_inv b \<Longrightarrow>
   tb_tokens (refill now b) \<le> tb_tokens b + tb_refillRate b * (tb_lastRefill (refill now b) - tb_lastRefill b)"
proof -
  have "min (tb_capacity b) (tb_tokens b + x) \<le> tb_tokens b + x" for x by simp
  then show ?thesis by (simp add: refill_def Let_def mult.commute)
qed

lemma refill_mono: "bucket_inv b \<Longrightarrow> tb_tokens b \<le> tb_tokens (refill now b)"
  by (simp add: refill_def Let_def bucket_inv_def)

lemma tryConsume_inv [sdk_inv]: "bucket_inv b \<Longrightarrow> 0 \<le> n \<Longrightarrow> tryConsume now n b = (ok, b') \<Longrightarrow> bucket_inv b'"
  using refill_inv[of b now] by (auto simp: tryConsume_def Let_def bucket_inv_def split: if_splits)

lemma tryConsume_frame:
  "tryConsume now n b = (ok, b') \<Longrightarrow>
   tb_refillRate b' = tb_refillRate b \<and> tb_capacity b' = tb_capacity b
   \<and> tb_lastRefill b' = max (tb_lastRefill b) now"
  by (auto simp: tryConsume_def Let_def refill_lastRefill split: if_splits)

lemma waitTimeMs_inv [sdk_inv]: "bucket_inv b \<Longrightarrow> bucket_waitTimeMs now n b = (w, b') \<Longrightarrow> bucket_inv b'"
  using refill_inv[of b now] by (auto simp: bucket_waitTimeMs_def Let_def split: if_splits)

lemma setRemaining_inv [sdk_inv]: "bucket_inv b \<Longrightarrow> bucket_inv (setRemaining now r b)"
  by (simp add: bucket_inv_def setRemaining_def)

lemma setCapacity_inv [sdk_inv]: "0 \<le> c \<Longrightarrow> bucket_inv (setCapacity c b)"
  by (simp add: bucket_inv_def setCapacity_def Let_def)

lemma drainUntil_inv [sdk_inv]: "bucket_inv b \<Longrightarrow> 0 \<le> tb_capacity b \<Longrightarrow> bucket_inv (drainUntil now t b)"
  by (simp add: bucket_inv_def drainUntil_def)

section \<open>How much a bucket lets through\<close>

text \<open>A run of consumption attempts (time, amount); the total granted and the final bucket.\<close>

fun consume_run :: "(ms \<times> rat) list \<Rightarrow> token_bucket \<Rightarrow> rat \<times> token_bucket" where
  "consume_run [] b = (0, b)"
| "consume_run ((now, n) # rs) b =
     (let (ok, b1) = tryConsume now n b; (g, b2) = consume_run rs b1
      in ((if ok then n else 0) + g, b2))"

lemma tryConsume_potential:
  "bucket_inv b \<Longrightarrow> tryConsume now n b = (ok, b') \<Longrightarrow>
   (if ok then n else 0) + tb_tokens b' \<le> tb_tokens b + tb_refillRate b * (tb_lastRefill b' - tb_lastRefill b)"
  using refill_gain[of b now] by (auto simp: tryConsume_def Let_def split: if_splits)

lemma tryConsume_nonneg:
  "0 \<le> tb_tokens b \<Longrightarrow> bucket_inv b \<Longrightarrow> tryConsume now n b = (ok, b') \<Longrightarrow> 0 \<le> tb_tokens b'"
  using refill_mono[of b now] by (auto simp: tryConsume_def Let_def split: if_splits)

lemma consume_run_bound:
  assumes "bucket_inv b" "0 \<le> tb_tokens b" "\<forall>(t, n)\<in>set rs. t \<le> T \<and> 0 \<le> n" "tb_lastRefill b \<le> T"
  shows "fst (consume_run rs b) \<le> tb_tokens b + tb_refillRate b * (T - tb_lastRefill b)"
  using assms
proof (induction rs arbitrary: b)
  case Nil
  then show ?case by (simp add: bucket_inv_def)
next
  case (Cons r rs)
  obtain t n where r: "r = (t, n)" by (cases r)
  obtain ok b1 where c: "tryConsume t n b = (ok, b1)" by (cases "tryConsume t n b")
  have n: "t \<le> T" "0 \<le> n" using Cons.prems(3) r by auto
  note fr = tryConsume_frame[OF c]
  have IH: "fst (consume_run rs b1) \<le> tb_tokens b1 + tb_refillRate b1 * (T - tb_lastRefill b1)"
    using Cons.IH[of b1] Cons.prems tryConsume_inv[OF _ n(2) c] tryConsume_nonneg[OF _ _ c] fr n by auto
  moreover have "(if ok then n else 0) + tb_tokens b1
      \<le> tb_tokens b + tb_refillRate b * (tb_lastRefill b1 - tb_lastRefill b)"
    using Cons.prems(1) c by (rule tryConsume_potential)
  ultimately have "(if ok then n else 0) + fst (consume_run rs b1)
      \<le> tb_tokens b + tb_refillRate b * (T - tb_lastRefill b)"
    using fr by (simp add: algebra_simps)
  then show ?case using r c by (cases "consume_run rs b1") simp
qed

section \<open>Waiting\<close>

lemma wait_then_consume:
  assumes "bucket_inv b" "0 < tb_refillRate b" "n \<le> tb_capacity b" "tb_lastRefill b \<le> now"
    and w: "bucket_waitTimeMs now n b = (Fin w, b')" and t: "now + w \<le> t"
  shows "fst (tryConsume t n b')"
proof -
  let ?b1 = "refill now b"
  have lr: "tb_lastRefill ?b1 = now" using assms(4) by (simp add: refill_lastRefill)
  have b': "b' = ?b1" using w by (simp add: bucket_waitTimeMs_def Let_def split: if_splits)
  have inv: "bucket_inv ?b1" using assms(1) by (rule refill_inv)
  show ?thesis
  proof (cases "tb_tokens ?b1 \<ge> n")
    case True
    then have "n \<le> tb_tokens (refill t ?b1)" using refill_mono[OF inv, of t] by simp
    then show ?thesis by (simp add: tryConsume_def Let_def b')
  next
    case False
    then have weq: "w = of_int \<lceil>(n - tb_tokens ?b1) / tb_refillRate b\<rceil>"
      using w assms(2) by (auto simp: bucket_waitTimeMs_def Let_def)
    have pos: "0 < (n - tb_tokens ?b1) / tb_refillRate b" using False assms(2) by simp
    have ge: "(n - tb_tokens ?b1) / tb_refillRate b \<le> w" unfolding weq by (rule le_of_int_ceiling)
    then have "n - tb_tokens ?b1 \<le> w * tb_refillRate b"
      using assms(2) by (simp add: pos_divide_le_eq)
    moreover have "w * tb_refillRate b \<le> (t - now) * tb_refillRate b"
      using t assms(2) by (simp add: mult_right_mono)
    ultimately have "n \<le> tb_tokens ?b1 + (t - now) * tb_refillRate b" by simp
    moreover have "now < t" using t ge pos by linarith
    ultimately have "n \<le> tb_tokens (refill t ?b1)"
      using assms(3) lr by (simp add: refill_def[of t] Let_def)
    then show ?thesis by (simp add: tryConsume_def Let_def b')
  qed
qed

text \<open>A bucket never grants more than its capacity at once.\<close>

lemma over_capacity_never: "bucket_inv b \<Longrightarrow> tb_capacity b < n \<Longrightarrow> \<not> fst (tryConsume now n b)"
  using refill_inv[of b now] by (auto simp: tryConsume_def Let_def bucket_inv_def)

text \<open>While a bucket is drained until a later time, no attempt before that time is granted.\<close>

lemma drained_refuses:
  "resetAt > now \<Longrightarrow> t \<le> resetAt \<Longrightarrow> 0 < n \<Longrightarrow> \<not> fst (tryConsume t n (drainUntil now resetAt b))"
  by (simp add: tryConsume_def drainUntil_def refill_def Let_def)

lemma canProceed_True:
  assumes "canProceed now est l = (True, l')"
  shows "rpmBucket l = Some b \<Longrightarrow> fst (tryConsume now 1 b)"
    and "rpdBucket l = Some b \<Longrightarrow> fst (tryConsume now 1 b)"
    and "tpmBucket l = Some b \<Longrightarrow> 0 < est \<Longrightarrow> fst (tryConsume now est b)"
  using assms by (auto simp: canProceed_def opt_consume_def Let_def split: prod.splits if_splits option.splits)

section \<open>Properties of the limiter\<close>

text \<open>C34: whatever requests (of non-negative sizes) are attempted until time \<open>T\<close>, a fresh bucket with a positive refill
  interval and a non-negative capacity grants at most its capacity plus what refills in the meantime.\<close>

theorem bucket_rate_bound:
  assumes "0 \<le> capacity" "0 < interval" "start \<le> T" "\<forall>(t, n)\<in>set rs. t \<le> T \<and> 0 \<le> n"
  shows "fst (consume_run rs (new_TokenBucket start capacity interval)) \<le> capacity + (T - start) / interval"
  using consume_run_bound[OF bucket_inv_new[OF less_imp_le[OF assms(2)]] _ assms(4)] assms
  by (simp add: new_TokenBucket_def)

theorem bucket_rate_bound_witness:
  "fst (consume_run [(0, 2), (1, 1), (100, 1)] (new_TokenBucket 0 2 100)) = 3
   \<and> fst (consume_run [(0, 2), (1, 1), (100, 1)] (new_TokenBucket 0 2 100)) \<le> 2 + (100 - 0) / 100"
  using bucket_rate_bound[of 2 100 0 100 "[(0, 2), (1, 1), (100, 1)]"]
  by (simp add: tryConsume_def refill_def new_TokenBucket_def Let_def)

text \<open>the wait a bucket announces is enough: a caller that sleeps for \<open>waitTimeMs(n)\<close> (or longer) is
  then granted \<open>n\<close>, unless \<open>n\<close> exceeds the capacity.\<close>

theorem announced_wait_suffices:
  assumes "bucket_inv b" "0 < tb_refillRate b" "n \<le> tb_capacity b" "tb_lastRefill b \<le> now"
    and "bucket_waitTimeMs now n b = (Fin w, b')" "now + w \<le> t"
  shows "fst (tryConsume t n b')"
  using assms by (rule wait_then_consume)

theorem announced_wait_suffices_witness:
  "let b = (new_TokenBucket 0 2 100)\<lparr>tb_tokens := 0\<rparr>
   in bucket_waitTimeMs 50 1 b = (Fin 50, snd (bucket_waitTimeMs 50 1 b))
      \<and> fst (tryConsume 100 1 (snd (bucket_waitTimeMs 50 1 b)))"
proof -
  define b where "b = (new_TokenBucket 0 2 100)\<lparr>tb_tokens := 0\<rparr>"
  have w: "bucket_waitTimeMs 50 1 b = (Fin 50, snd (bucket_waitTimeMs 50 1 b))"
    by (simp add: b_def bucket_waitTimeMs_def refill_def new_TokenBucket_def Let_def)
  have "fst (tryConsume 100 1 (snd (bucket_waitTimeMs 50 1 b)))"
    by (rule announced_wait_suffices[OF _ _ _ _ w]) (simp_all add: b_def bucket_inv_def new_TokenBucket_def)
  with w show ?thesis by (simp add: b_def Let_def)
qed

text \<open>the pause of a rate-limited queue is not what \<open>waitTimeMs\<close> announces: after \<open>pause(d)\<close> it reports
  the time one token takes to refill, whatever \<open>d\<close> is, while the bucket grants nothing before the end of
  the pause.\<close>

theorem pause_wait_ignores_duration:
  assumes "rpmBucket l = Some b" "rpdBucket l = None" "0 < tb_refillRate b" "0 < d" "t \<le> now + d"
  shows "fst (waitTimeMs now 0 (pause now d l)) = Fin (of_int \<lceil>1 / tb_refillRate b\<rceil>)
    \<and> \<not> fst (canProceed t est (pause now d l))"
proof
  show "\<not> fst (canProceed t est (pause now d l))"
    using assms drained_refuses[of now "now + d" t 1 b]
    by (auto simp: canProceed_def pause_def opt_consume_def Let_def split: prod.split)
qed (use assms in \<open>simp add: waitTimeMs_def pause_def opt_wait_def bucket_waitTimeMs_def drainUntil_def refill_def Let_def\<close>)

theorem pause_wait_ignores_duration_witness:
  "let l = pause 0 60000 (new_RateLimiter 0 \<lparr> rl_rpm = Some 30, rl_tpm = None, rl_rpd = None, rl_concurrent = 5 \<rparr>)
   in fst (waitTimeMs 0 0 l) = Fin 2000 \<and> \<not> fst (canProceed 2000 0 l)"
proof -
  define l where "l = new_RateLimiter 0 \<lparr> rl_rpm = Some 30, rl_tpm = None, rl_rpd = None, rl_concurrent = 5 \<rparr>"
  have "rpmBucket l = Some (new_TokenBucket 0 30 2000)" "rpdBucket l = None"
    by (simp_all add: l_def new_RateLimiter_def limit_bucket_def)
  from pause_wait_ignores_duration[OF this, of 60000 2000 0 0] show ?thesis
    by (simp add: l_def new_TokenBucket_def Let_def)
qed

end
