(* ===== verification/Semaphore.thy ===== *)
theory Semaphore
  imports Prelude
begin

text \<open>
  \<open>src/network/semaphore.ts\<close>: the counting semaphore. A waiter is the identity of the suspended
  caller; \<open>release\<close> returns the one it resumes. The interface \<open>slots\<close> states what the request
  queue relies on: a slot is held by each granted and each resumed caller, never more than the
  maximum, and waiters resume in arrival order.
\<close>

record 'w semaphore =
  sm_max :: int
  sm_current :: int
  sm_waiters :: "'w list"

definition new_Semaphore :: "int \<Rightarrow> 'w semaphore" where
  "new_Semaphore m = \<lparr> sm_max = m, sm_current = 0, sm_waiters = [] \<rparr>"

text \<open>\<open>True\<close>: the caller proceeds at once. \<open>False\<close>: it is suspended.\<close>

definition acquire :: "'w \<Rightarrow> 'w semaphore \<Rightarrow> bool \<times> 'w semaphore" where
  "acquire w s =
     (if sm_current s < sm_max s then (True, s\<lparr>sm_current := sm_current s + 1\<rparr>)
      else (False, s\<lparr>sm_waiters := sm_waiters s @ [w]\<rparr>))"

definition release :: "'w semaphore \<Rightarrow> 'w option \<times> 'w semaphore" where
  "release s =
     (let s1 = s\<lparr>sm_current := sm_current s - 1\<rparr>
      in case sm_waiters s1 of
           [] \<Rightarrow> (None, s1)
         | w # ws \<Rightarrow> (Some w, s1\<lparr>sm_waiters := ws, sm_current := sm_current s1 + 1\<rparr>))"

definition inFlight :: "'w semaphore \<Rightarrow> int" where
  "inFlight s = sm_current s"

definition waiting :: "'w semaphore \<Rightarrow> nat" where
  "waiting s = length (sm_waiters s)"

definition available :: "'w semaphore \<Rightarrow> int" where
  "available s = max 0 (sm_max s - sm_current s)"

text \<open>Callers wait only while every slot is taken.\<close>

definition sem_inv :: "'w semaphore \<Rightarrow> bool" where
  "sem_inv s \<longleftrightarrow> sm_current s \<le> max 0 (sm_max s) \<and> (sm_waiters s \<noteq> [] \<longrightarrow> sm_current s \<ge> sm_max s)"

section \<open>The interface of a slot pool\<close>

locale slots =
  fixes acq :: "'w \<Rightarrow> 's \<Rightarrow> bool \<times> 's"
    and rel :: "'s \<Rightarrow> 'w option \<times> 's"
    and held :: "'s \<Rightarrow> int"
    and queue :: "'s \<Rightarrow> 'w list"
    and cap :: "'s \<Rightarrow> int"
    and ok :: "'s \<Rightarrow> bool"
  assumes acq_granted: "acq w s = (True, s') \<Longrightarrow> held s' = held s + 1 \<and> queue s' = queue s \<and> held s' \<le> cap s'"
    and acq_queued: "acq w s = (False, s') \<Longrightarrow> held s' = held s \<and> queue s' = queue s @ [w] \<and> cap s \<le> held s"
    and rel_none: "rel s = (None, s') \<Longrightarrow> held s' = held s - 1 \<and> queue s = [] \<and> queue s' = []"
    and rel_some: "rel s = (Some w, s') \<Longrightarrow> held s' = held s \<and> queue s = w # queue s'"
    and acq_cap: "acq w s = (b, s') \<Longrightarrow> cap s' = cap s"
    and rel_cap: "rel s = (r, s') \<Longrightarrow> cap s' = cap s"
    and acq_ok: "ok s \<Longrightarrow> acq w s = (b, s') \<Longrightarrow> ok s'"
    and rel_ok: "ok s \<Longrightarrow> rel s = (r, s') \<Longrightarrow> ok s'"
    and ok_bound: "ok s \<Longrightarrow> held s \<le> max 0 (cap s)"
begin

text \<open>Slots plus waiters count every caller that asked and has not given back.\<close>

lemma acq_total: "acq w s = (b, s') \<Longrightarrow> held s' + int (length (queue s')) = held s + int (length (queue s)) + 1"
  by (cases b) (auto dest: acq_granted acq_queued)

lemma rel_total: "rel s = (r, s') \<Longrightarrow> held s' + int (length (queue s')) = held s + int (length (queue s)) - 1"
  by (cases r) (auto dest: rel_none rel_some)

text \<open>With a free slot a caller is never suspended.\<close>

lemma acq_free: "held s < cap s \<Longrightarrow> fst (acq w s)"
proof (cases "acq w s")
  case (Pair b s')
  moreover assume "held s < cap s"
  ultimately show ?thesis by (cases b) (auto dest: acq_queued)
qed

text \<open>A released slot goes to the longest-waiting caller.\<close>

lemma rel_fifo: "queue s = w # ws \<Longrightarrow> \<exists>s'. rel s = (Some w, s') \<and> queue s' = ws"
proof (cases "rel s")
  case (Pair r s')
  moreover assume "queue s = w # ws"
  ultimately show ?thesis by (cases r) (auto dest: rel_none rel_some)
qed

end

interpretation sem: slots acquire release sm_current sm_waiters sm_max sem_inv
  by unfold_locales
     (auto simp: acquire_def release_def sem_inv_def Let_def split: if_splits list.splits)

lemma sem_inv_new: "sem_inv (new_Semaphore m)"
  by (simp add: sem_inv_def new_Semaphore_def)

lemma available_room: "sem_inv s \<Longrightarrow> 0 < available s \<longleftrightarrow> fst (acquire w s)"
  by (auto simp: available_def acquire_def)

end
