(* ===== verification/QueueState.thy ===== *)
theory QueueState
  imports RetryPolicy RequestQueue RateLimiter Semaphore
begin

text \<open>
  \<open>src/network/queue-state.ts\<close>, the state and the shared operations. A \<open>QueueState\<close> object is
  the record \<open>queue_state\<close>. Its asynchronous methods are coroutines of one event loop, so the system
  state holds, besides the object, every suspended coroutine: the process loop (\<open>s_loop\<close>), the
  executing requests (\<open>s_workers\<close>), the pending retry timers (\<open>s_timers\<close>) and the open streams
  (\<open>s_streams\<close>). Code between two \<open>await\<close>s is one function. \<open>s_settled\<close> logs every
  \<open>resolve\<close> and \<open>reject\<close> call with its promise, \<open>s_log\<close> every hook emission.
  A hook subscriber may throw (\<open>HookBus.emit\<close> propagates), so each emission whose error is not
  discarded takes the subscribers' answer as an argument.
\<close>

section \<open>Values\<close>

record response =
  rs_status :: int
  rs_headers :: "(string \<times> string) list"
  rs_hasBody :: bool

definition rs_ok :: "response \<Rightarrow> bool" where
  "rs_ok r = (200 \<le> rs_status r \<and> rs_status r \<le> 299)"

text \<open>
  A thrown value: an \<open>LLMError\<close>, a \<open>DOMException\<close> named AbortError with its message, or any other
  error with its name and message (a thrown string is an error without a name).
\<close>

datatype exn = ExLLM llm_error | ExAbort string | ExOther string string

text \<open>\<open>(e as Error)?.message ?? String(e)\<close> and \<open>String(e)\<close>.\<close>

fun exn_message :: "exn \<Rightarrow> string" where
  "exn_message (ExLLM e) = e_message e"
| "exn_message (ExAbort m) = m"
| "exn_message (ExOther n m) = m"

definition error_string :: "string \<Rightarrow> string \<Rightarrow> string" where
  "error_string n m = (if n = [] then m else if m = [] then n else n @ '': '' @ m)"

fun exn_text :: "exn \<Rightarrow> string" where
  "exn_text (ExLLM e) = error_string ''LLMError'' (e_message e)"
| "exn_text (ExAbort m) = error_string ''AbortError'' m"
| "exn_text (ExOther n m) = error_string n m"

text \<open>\<open>resolve({ status, headers, body })\<close> with the body left out, and \<open>reject(e)\<close>.\<close>

datatype settlement = Resolved int headers | RejectedLLM llm_error | RejectedRaw string

fun rejected_with :: "exn \<Rightarrow> settlement" where
  "rejected_with (ExLLM e) = RejectedLLM e"
| "rejected_with e = RejectedRaw (exn_message e)"

datatype hook =
    OnEnqueue nat | OnDequeue | OnQueueTimeout | OnRequestStart nat bool | OnRequestComplete int nat
  | OnRateLimitUpdate | OnRateLimitHit | OnModelError nat bool | OnRetry nat ms
  | OnStreamChunk nat | OnInternalError

datatype hook_answer = HookOk | HookThrows exn | HookAborts

section \<open>Coroutines\<close>

datatype waiter = LoopWaiter | StreamWaiter nat

datatype loop_pc =
    LoopOff
  | LoopAwaitItem
  | LoopReady
  | LoopSleep queue_entry ms
  | LoopAcquire queue_entry
  | LoopGranted queue_entry

datatype worker_phase =
    WStarting
  | WFetching
  | WCompleting response
  | WReadingBody response
  | WReadingError response
  | WRateHook llm_error

record worker =
  wk_entry :: queue_entry
  wk_start :: ms
  wk_phase :: worker_phase

datatype stream_phase =
    STSleep ms
  | STAcquire
  | STGranted
  | STStarting
  | STConnecting nat
  | STCompleting nat response
  | STErrorHooks nat llm_error
  | STBackoff nat ms
  | STReading nat

record stream =
  st_request :: http_request
  st_estimate :: rat
  st_start :: ms
  st_phase :: stream_phase

record retry_timer =
  rt_entry :: queue_entry
  rt_due :: ms

section \<open>The queue object and the system\<close>

record queue_state =
  q_name :: string
  q_retry :: retry_config
  q_limiter :: rate_limiter
  q_sem :: "waiter semaphore"
  q_queue :: request_queue
  q_running :: bool
  q_processed :: nat
  q_peakDepth :: nat

record queue_state_config =
  cf_queueName :: string
  cf_limits :: rate_limiter_config
  cf_retry :: "retry_policy_override option"
  cf_queue :: "queue_config_override option"

definition new_QueueState :: "ms \<Rightarrow> queue_state_config \<Rightarrow> queue_state" where
  "new_QueueState now config =
     \<lparr> q_name = cf_queueName config,
       q_retry = mergeRetry (cf_retry config),
       q_limiter = new_RateLimiter now (cf_limits config),
       q_sem = new_Semaphore (rl_concurrent (cf_limits config)),
       q_queue = new_RequestQueue (cf_queue config),
       q_running = False, q_processed = 0, q_peakDepth = 0 \<rparr>"

record system =
  s_q :: queue_state
  s_now :: ms
  s_epoch :: rat
  s_loop :: loop_pc
  s_workers :: "(nat \<times> worker) list"
  s_timers :: "retry_timer list"
  s_streams :: "(nat \<times> stream) list"
  s_settled :: "(nat \<times> settlement) list"
  s_log :: "hook list"
  s_nextPromise :: nat
  s_nextId :: nat

definition new_system :: "ms \<Rightarrow> rat \<Rightarrow> queue_state_config \<Rightarrow> system" where
  "new_system now epoch config =
     \<lparr> s_q = new_QueueState now config, s_now = now, s_epoch = epoch, s_loop = LoopOff,
       s_workers = [], s_timers = [], s_streams = [], s_settled = [], s_log = [],
       s_nextPromise = 0, s_nextId = 0 \<rparr>"

text \<open>\<open>Date.now()\<close> is the monotonic clock shifted by the epoch.\<close>

definition date_now :: "system \<Rightarrow> rat" where
  "date_now s = s_epoch s + s_now s"

record queue_snapshot =
  sn_queueName :: string
  sn_depth :: nat
  sn_inFlight :: int
  sn_waiting :: nat
  sn_rateLimitWaitMs :: jsnum
  sn_running :: bool
  sn_processed :: nat
  sn_peakDepth :: nat

definition snapshot :: "system \<Rightarrow> queue_snapshot \<times> system" where
  "snapshot s =
     (let q = s_q s; (w, lim) = waitTimeMs (s_now s) 1 (q_limiter q)
      in (\<lparr> sn_queueName = q_name q, sn_depth = length (rq_heap (q_queue q)),
            sn_inFlight = inFlight (q_sem q), sn_waiting = waiting (q_sem q),
            sn_rateLimitWaitMs = w, sn_running = q_running q, sn_processed = q_processed q,
            sn_peakDepth = q_peakDepth q \<rparr>,
          s\<lparr>s_q := q\<lparr>q_limiter := lim\<rparr>\<rparr>))"

section \<open>Shared operations\<close>

definition emit :: "hook \<Rightarrow> system \<Rightarrow> system" where
  "emit h s = s\<lparr>s_log := s_log s @ [h]\<rparr>"

definition settle :: "nat \<Rightarrow> settlement \<Rightarrow> system \<Rightarrow> system" where
  "settle p x s = s\<lparr>s_settled := s_settled s @ [(p, x)]\<rparr>"

definition set_limiter :: "rate_limiter \<Rightarrow> system \<Rightarrow> system" where
  "set_limiter l s = s\<lparr>s_q := (s_q s)\<lparr>q_limiter := l\<rparr>\<rparr>"

definition set_queue :: "request_queue \<Rightarrow> system \<Rightarrow> system" where
  "set_queue q s = s\<lparr>s_q := (s_q s)\<lparr>q_queue := q\<rparr>\<rparr>"

definition set_sem :: "waiter semaphore \<Rightarrow> system \<Rightarrow> system" where
  "set_sem m s = s\<lparr>s_q := (s_q s)\<lparr>q_sem := m\<rparr>\<rparr>"

text \<open>The resumed waiter of a released slot proceeds with its own coroutine.\<close>

definition resume :: "waiter \<Rightarrow> system \<Rightarrow> system" where
  "resume w s =
     (case w of
        LoopWaiter \<Rightarrow>
          (case s_loop s of LoopAcquire e \<Rightarrow> s\<lparr>s_loop := LoopGranted e\<rparr> | _ \<Rightarrow> s)
      | StreamWaiter i \<Rightarrow>
          (case map_of (s_streams s) i of
             Some st \<Rightarrow> s\<lparr>s_streams := AList.update i (st\<lparr>st_phase := STGranted\<rparr>) (s_streams s)\<rparr>
           | None \<Rightarrow> s))"

definition sem_release :: "system \<Rightarrow> system" where
  "sem_release s =
     (case release (q_sem (s_q s)) of
        (None, m) \<Rightarrow> set_sem m s
      | (Some w, m) \<Rightarrow> resume w (set_sem m s))"

text \<open>\<open>await this.queue.waitForItem()\<close> at the head of the process loop.\<close>

definition loop_wait :: "system \<Rightarrow> system" where
  "loop_wait s =
     (case waitForItem (q_queue (s_q s)) of
        (True, q) \<Rightarrow> (set_queue q s)\<lparr>s_loop := LoopReady\<rparr>
      | (False, q) \<Rightarrow> (set_queue q s)\<lparr>s_loop := LoopAwaitItem\<rparr>)"

definition ensureProcessing :: "system \<Rightarrow> system" where
  "ensureProcessing s =
     (if q_running (s_q s) then s
      else loop_wait (s\<lparr>s_q := (s_q s)\<lparr>q_running := True\<rparr>\<rparr>))"

text \<open>\<open>this.queue.enqueue(...)\<close> with its promise chained to \<open>p\<close>.\<close>

definition enqueue_request ::
  "nat \<Rightarrow> http_request \<Rightarrow> rat \<Rightarrow> rat \<Rightarrow> nat \<Rightarrow> system \<Rightarrow> system" where
  "enqueue_request p req priority estimatedTokens attempt s =
     (case enqueue (s_now s) p req priority estimatedTokens attempt (q_queue (s_q s)) of
        QueueFull msg \<Rightarrow> settle p (RejectedRaw msg) s
      | Enqueued q woke \<Rightarrow>
          (set_queue q s)\<lparr>s_loop := (if woke then LoopReady else s_loop s)\<rparr>)"

section \<open>Submitting\<close>

definition submit :: "http_request \<Rightarrow> rat \<Rightarrow> rat \<Rightarrow> hook_answer \<Rightarrow> system \<Rightarrow> system" where
  "submit req priority estimatedTokens onEnqueue s =
     (let p = s_nextPromise s;
          depth = length (rq_heap (q_queue (s_q s))) + 1;
          q1 = (s_q s)\<lparr>q_peakDepth := max (q_peakDepth (s_q s)) depth\<rparr>;
          s1 = emit (OnEnqueue depth) (s\<lparr>s_q := q1, s_nextPromise := p + 1\<rparr>)
      in case onEnqueue of
           HookThrows e \<Rightarrow> settle p (rejected_with e) s1
         | _ \<Rightarrow> enqueue_request p req priority estimatedTokens 0 (ensureProcessing s1))"

section \<open>The process loop\<close>

definition timeout_message :: "ms \<Rightarrow> queue_entry \<Rightarrow> string" where
  "timeout_message now e =
     ''Request timed out in queue after '' @ int_to_string \<lfloor>js_round (now - qe_enqueuedAt e)\<rfloor> @ ''ms''"

fun reject_expired :: "ms \<Rightarrow> queue_entry list \<Rightarrow> system \<Rightarrow> system" where
  "reject_expired now [] s = s"
| "reject_expired now (e # es) s =
     reject_expired now es (settle (qe_promise e) (RejectedRaw (timeout_message now e)) s)"

definition loop_acquire :: "queue_entry \<Rightarrow> system \<Rightarrow> system" where
  "loop_acquire e s =
     (let s1 = set_limiter (snd (canProceed (s_now s) (qe_estimatedTokens e) (q_limiter (s_q s)))) s;
          (granted, m) = acquire LoopWaiter (q_sem (s_q s1))
      in (set_sem m s1)\<lparr>s_loop := (if granted then LoopGranted e else LoopAcquire e)\<rparr>)"

definition loop_crash :: "system \<Rightarrow> system" where
  \<comment> \<open>\<open>processLoop().catch(() => { this.running = false; })\<close>\<close>
  "loop_crash s = s\<lparr>s_q := (s_q s)\<lparr>q_running := False\<rparr>, s_loop := LoopOff\<rparr>"

fun wait_text :: "jsnum \<Rightarrow> string" where
  \<comment> \<open>A wait in milliseconds is a whole number or infinite.\<close>
  "wait_text (Fin w) = int_to_string \<lfloor>w\<rfloor>"
| "wait_text PosInf = ''Infinity''"
| "wait_text NegInf = ''-Infinity''"
| "wait_text NaN = ''NaN''"

definition loop_give_up :: "hook_answer \<Rightarrow> jsnum \<Rightarrow> queue_entry \<Rightarrow> system \<Rightarrow> system" where
  \<comment> \<open>The wait would pass the entry's deadline: report, reject, and go for the next item.\<close>
  "loop_give_up onQueueTimeout waitMs e s =
     (let s1 = emit OnQueueTimeout s
      in case onQueueTimeout of
           HookThrows x \<Rightarrow> loop_crash s1
         | _ \<Rightarrow> loop_wait
                 (settle (qe_promise e)
                    (RejectedLLM (LLMError (''Rate limited, wait '' @ wait_text waitMs @ ''ms would exceed queue timeout'') RateLimit
                       (rq_provider (qe_request e)) None False None)) s1))"

text \<open>
  One pass from the resolved \<open>waitForItem\<close> to the next \<open>await\<close>; the arguments are the answers of the
  \<open>onDequeue\<close> and \<open>onQueueTimeout\<close> subscribers.
\<close>

definition loop_run :: "hook_answer \<Rightarrow> hook_answer \<Rightarrow> system \<Rightarrow> system" where
  "loop_run onDequeue onQueueTimeout s =
     (let now = s_now s;
          (r, q, expired) = dequeue now (q_queue (s_q s));
          s1 = reject_expired now expired (set_queue q s)
      in case r of
           None \<Rightarrow> loop_crash s1
         | Some e \<Rightarrow>
             (let s2 = emit OnDequeue s1
              in case onDequeue of
                   HookThrows x \<Rightarrow> loop_crash s2
                 | _ \<Rightarrow>
                     (let (w, lim) = waitTimeMs now (qe_estimatedTokens e) (q_limiter (s_q s2));
                          s3 = set_limiter lim s2
                      in case w of
                           Fin wait \<Rightarrow>
                             if wait > 0 then
                               if now + wait > qe_deadline e then loop_give_up onQueueTimeout w e s3
                               else s3\<lparr>s_loop := LoopSleep e (now + wait)\<rparr>
                             else loop_acquire e s3
                         | PosInf \<Rightarrow> loop_give_up onQueueTimeout w e s3
                         | _ \<Rightarrow> loop_acquire e s3)))"

definition loop_wake :: "system \<Rightarrow> system" where
  "loop_wake s =
     (case s_loop s of LoopSleep e t \<Rightarrow> if t \<le> s_now s then loop_acquire e s else s | _ \<Rightarrow> s)"

text \<open>With a slot in hand the loop starts the worker and waits for the next item.\<close>

definition loop_go :: "system \<Rightarrow> system" where
  "loop_go s =
     (case s_loop s of
        LoopGranted e \<Rightarrow>
          loop_wait
            (emit (OnRequestStart (qe_attempt e) False)
              (s\<lparr>s_workers := (s_nextId s, \<lparr> wk_entry = e, wk_start = s_now s, wk_phase = WStarting \<rparr>) # s_workers s,
                 s_nextId := s_nextId s + 1\<rparr>))
      | _ \<Rightarrow> s)"

section \<open>One request: executeWithRetry\<close>

text \<open>
  What the environment supplies to a step that may end in a retry: whether the caller's signal is
  aborted, the answers of successive \<open>onRetry\<close> subscribers, and the random numbers of the backoff.
\<close>

record retry_env =
  re_aborted :: bool
  re_onRetry :: "nat \<Rightarrow> hook_answer"
  re_random :: "nat \<Rightarrow> rat"

definition drop_worker :: "nat \<Rightarrow> system \<Rightarrow> system" where
  "drop_worker i s = s\<lparr>s_workers := AList.delete i (s_workers s)\<rparr>"

definition set_phase :: "nat \<Rightarrow> worker \<Rightarrow> worker_phase \<Rightarrow> system \<Rightarrow> system" where
  "set_phase i w ph s = s\<lparr>s_workers := AList.update i (w\<lparr>wk_phase := ph\<rparr>) (s_workers s)\<rparr>"

text \<open>\<open>handleRetry\<close>, the \<open>k\<close>-th call in this step: the thrown value of \<open>onRetry\<close>, if any.\<close>

definition handleRetry ::
  "retry_env \<Rightarrow> nat \<Rightarrow> worker \<Rightarrow> llm_error \<Rightarrow> system \<Rightarrow> exn option \<times> system" where
  "handleRetry env k w error s =
     (let entry = wk_entry w; req = qe_request entry;
          retry0 = q_retry (s_q s); retry = retryFor retry0 req;
          kindConfig = r_perKind retry (e_kind error);
          will = willRetry retry0 req (qe_attempt entry) (s_now s - wk_start w) error;
          s1 = emit (OnModelError (qe_attempt entry) will) s
      in if will then
           (let backoffMs = calculateBackoff (re_random env k) (qe_attempt entry) error kindConfig retry;
                s2 = emit (OnRetry (qe_attempt entry + 1) backoffMs) s1
            in case re_onRetry env k of
                 HookThrows e \<Rightarrow> (Some e, s2)
               | _ \<Rightarrow> (None, s2\<lparr>s_timers := s_timers s2 @ [\<lparr> rt_entry = entry, rt_due = s_now s2 + backoffMs \<rparr>]\<rparr>))
         else (None, settle (qe_promise entry) (RejectedLLM error) s1))"

text \<open>\<open>settleOnWorkerCrash\<close>: an exception that left \<open>executeWithRetry\<close>.\<close>

definition settleOnWorkerCrash :: "worker \<Rightarrow> exn \<Rightarrow> system \<Rightarrow> system" where
  "settleOnWorkerCrash w e s =
     (let s1 = sem_release s;
          error = (case e of
                     ExLLM err \<Rightarrow> err
                   | _ \<Rightarrow> LLMError (''Queue worker crashed (would have hung): '' @ exn_message e) ServerError
                            (rq_provider (qe_request (wk_entry w))) None False None)
      in settle (qe_promise (wk_entry w)) (RejectedLLM error) (emit OnInternalError s1))"

definition transport_error :: "worker \<Rightarrow> exn \<Rightarrow> llm_error" where
  "transport_error w e =
     LLMError (exn_text e) (case e of ExAbort m \<Rightarrow> Timeout | _ \<Rightarrow> Network)
       (rq_provider (qe_request (wk_entry w))) None True None"

definition unreadable_error :: "worker \<Rightarrow> exn \<Rightarrow> llm_error" where
  "unreadable_error w e =
     LLMError (''Response body could not be read after a successful response: '' @ exn_text e) Network
       (rq_provider (qe_request (wk_entry w))) None False None"

text \<open>The \<open>catch\<close> block; \<open>k\<close> counts the calls of \<open>handleRetry\<close> so far. The worker ends in every case.\<close>

definition catch_block ::
  "retry_env \<Rightarrow> nat \<Rightarrow> nat \<Rightarrow> worker \<Rightarrow> exn \<Rightarrow> bool \<Rightarrow> system \<Rightarrow> system" where
  "catch_block env k i w e responseSucceeded s =
     (let s1 = sem_release (drop_worker i s);
          retry_with = (\<lambda>error. case handleRetry env k w error s1 of
                                   (None, s2) \<Rightarrow> s2
                                 | (Some x, s2) \<Rightarrow> settleOnWorkerCrash w x s2)
      in case e of
           ExLLM err \<Rightarrow> retry_with err
         | _ \<Rightarrow>
             if re_aborted env then settle (qe_promise (wk_entry w)) (rejected_with e) s1
             else if responseSucceeded then
               settle (qe_promise (wk_entry w)) (RejectedLLM (unreadable_error w e)) s1
             else retry_with (transport_error w e))"

text \<open>The end of the \<open>try\<close> block for a classified failure: release, then decide on a retry.\<close>

definition finish_error :: "retry_env \<Rightarrow> nat \<Rightarrow> worker \<Rightarrow> llm_error \<Rightarrow> system \<Rightarrow> system" where
  "finish_error env i w error s =
     (case handleRetry env 0 w error (sem_release (drop_worker i s)) of
        (None, s1) \<Rightarrow> s1
      | (Some x, s1) \<Rightarrow> catch_block env 1 i w x False s1)"

text \<open>The answer of \<open>onRequestStart\<close>.\<close>

definition worker_started :: "nat \<Rightarrow> worker \<Rightarrow> hook_answer \<Rightarrow> system \<Rightarrow> system" where
  "worker_started i w answer s =
     (case answer of
        HookThrows e \<Rightarrow> settleOnWorkerCrash w e (drop_worker i s)
      | HookAborts \<Rightarrow>
          settle (qe_promise (wk_entry w))
            (RejectedLLM (LLMError ''Request aborted by hook'' InvalidRequest
               (rq_provider (qe_request (wk_entry w))) None False None))
            (sem_release (drop_worker i s))
      | HookOk \<Rightarrow> set_phase i w WFetching s)"

definition rateLimitUpdateFires :: "headers \<Rightarrow> bool" where
  "rateLimitUpdateFires hs =
     (parseIntHeader hs ''x-ratelimit-remaining-requests'' \<noteq> None
      \<or> parseIntHeader hs ''x-ratelimit-remaining-tokens'' \<noteq> None)"

definition emitRateLimitUpdate :: "headers \<Rightarrow> hook_answer \<Rightarrow> system \<Rightarrow> exn option \<times> system" where
  "emitRateLimitUpdate hs answer s =
     (if rateLimitUpdateFires hs then
        (case answer of HookThrows e \<Rightarrow> (Some e, emit OnRateLimitUpdate s)
         | _ \<Rightarrow> (None, emit OnRateLimitUpdate s))
      else (None, s))"

text \<open>\<open>executeOnce\<close> returned or threw.\<close>

definition worker_fetched ::
  "retry_env \<Rightarrow> nat \<Rightarrow> worker \<Rightarrow> exn + response \<Rightarrow> hook_answer \<Rightarrow> system \<Rightarrow> system" where
  "worker_fetched env i w outcome onRateLimitUpdate s =
     (case outcome of
        Inl e \<Rightarrow> catch_block env 0 i w e False s
      | Inr r \<Rightarrow>
          (let resHeaders = headersToRecord (rs_headers r);
               s1 = set_limiter (updateFromHeaders (s_now s) resHeaders (q_limiter (s_q s))) s
           in case emitRateLimitUpdate resHeaders onRateLimitUpdate s1 of
                (Some e, s2) \<Rightarrow> catch_block env 0 i w e False s2
              | (None, s2) \<Rightarrow>
                  set_phase i w (WCompleting r)
                    (emit (OnRequestComplete (rs_status r) (qe_attempt (wk_entry w))) s2)))"

definition count_processed :: "system \<Rightarrow> system" where
  "count_processed s = s\<lparr>s_q := (s_q s)\<lparr>q_processed := q_processed (s_q s) + 1\<rparr>\<rparr>"

definition resolve_response :: "nat \<Rightarrow> worker \<Rightarrow> response \<Rightarrow> system \<Rightarrow> system" where
  "resolve_response i w r s =
     settle (qe_promise (wk_entry w)) (Resolved (rs_status r) (headersToRecord (rs_headers r))) (sem_release (drop_worker i s))"

text \<open>\<open>onRequestComplete\<close> answered: count the round trip and read the body.\<close>

definition worker_completed ::
  "retry_env \<Rightarrow> nat \<Rightarrow> worker \<Rightarrow> response \<Rightarrow> hook_answer \<Rightarrow> system \<Rightarrow> system" where
  "worker_completed env i w r answer s =
     (case answer of
        HookThrows e \<Rightarrow> catch_block env 0 i w e False s
      | _ \<Rightarrow>
          (let s1 = count_processed s
           in if rs_ok r then
                (if rq_responseType (qe_request (wk_entry w)) = Some RTStream then resolve_response i w r s1
                 else set_phase i w (WReadingBody r) s1)
              else set_phase i w (WReadingError r) s1))"

definition worker_body :: "retry_env \<Rightarrow> nat \<Rightarrow> worker \<Rightarrow> response \<Rightarrow> exn option \<Rightarrow> system \<Rightarrow> system" where
  "worker_body env i w r failure s =
     (case failure of
        None \<Rightarrow> resolve_response i w r s
      | Some e \<Rightarrow> catch_block env 0 i w e True s)"

text \<open>The error body is read (\<open>JNull\<close> when it is not JSON): classify, pause the limiter, report.\<close>

definition worker_error_body ::
  "(string \<Rightarrow> jsnum) \<Rightarrow> retry_env \<Rightarrow> nat \<Rightarrow> worker \<Rightarrow> response \<Rightarrow> json \<Rightarrow> hook_answer \<Rightarrow> system \<Rightarrow> system" where
  "worker_error_body date_parse env i w r body onRateLimitUpdate s =
     (let req = qe_request (wk_entry w);
          resHeaders = headersToRecord (rs_headers r);
          error = classifyError date_parse (date_now s) (rq_provider req) (rs_status r) body resHeaders
      in if e_kind error = RateLimit then
           (let s1 = (case Option.bind (honoredRetryAfterMs error (retryFor (q_retry (s_q s)) req)) nonzero of
                        Some pauseMs \<Rightarrow> set_limiter (pause (s_now s) pauseMs (q_limiter (s_q s))) s
                      | None \<Rightarrow> s)
            in case emitRateLimitUpdate resHeaders onRateLimitUpdate s1 of
                 (Some e, s2) \<Rightarrow> catch_block env 0 i w e False s2
               | (None, s2) \<Rightarrow> set_phase i w (WRateHook error) (emit OnRateLimitHit s2))
         else finish_error env i w error s)"

definition worker_rate_hook ::
  "retry_env \<Rightarrow> nat \<Rightarrow> worker \<Rightarrow> llm_error \<Rightarrow> hook_answer \<Rightarrow> system \<Rightarrow> system" where
  "worker_rate_hook env i w error answer s =
     (case answer of
        HookThrows e \<Rightarrow> catch_block env 0 i w e False s
      | _ \<Rightarrow> finish_error env i w error s)"

text \<open>A retry timer fires: the entry goes back to the queue ahead of fresh requests.\<close>

definition PRIORITY_RETRY :: rat where "PRIORITY_RETRY = 0"
definition PRIORITY_INTERACTIVE :: rat where "PRIORITY_INTERACTIVE = 1"
definition PRIORITY_BACKGROUND :: rat where "PRIORITY_BACKGROUND = 2"
definition PRIORITY_LOW :: rat where "PRIORITY_LOW = 3"

definition timer_fires :: "nat \<Rightarrow> system \<Rightarrow> system" where
  "timer_fires k s =
     (if k < length (s_timers s) \<and> rt_due (s_timers s ! k) \<le> s_now s then
        (let e = rt_entry (s_timers s ! k);
             s1 = s\<lparr>s_timers := take k (s_timers s) @ drop (Suc k) (s_timers s)\<rparr>
         in ensureProcessing
              (enqueue_request (qe_promise e) (qe_request e) PRIORITY_RETRY (qe_estimatedTokens e)
                 (qe_attempt e + 1) s1))
      else s)"

end
