(* ===== verification/QueueStream.thy ===== *)
theory QueueStream
  imports QueueState
begin

text \<open>
  The streaming path of \<open>src/network/queue-state.ts\<close>: \<open>submitStream\<close> (wait for capacity, take a
  slot, connect, forward events) and \<open>connect\<close> (the retried connection phase), and \<open>executeOnce\<close>'s
  request assembly and redirect loop, which both paths use. A stream ends by leaving \<open>s_streams\<close>.
\<close>

definition drop_stream :: "nat \<Rightarrow> system \<Rightarrow> system" where
  "drop_stream i s = s\<lparr>s_streams := AList.delete i (s_streams s)\<rparr>"

definition set_stream :: "nat \<Rightarrow> stream \<Rightarrow> stream_phase \<Rightarrow> system \<Rightarrow> system" where
  "set_stream i st ph s = s\<lparr>s_streams := AList.update i (st\<lparr>st_phase := ph\<rparr>) (s_streams s)\<rparr>"

text \<open>The \<open>finally\<close> of \<open>submitStream\<close>: the slot goes back however the stream ended.\<close>

definition stream_finally :: "nat \<Rightarrow> system \<Rightarrow> system" where
  "stream_finally i s = sem_release (drop_stream i s)"

text \<open>\<open>waitForCapacity\<close> after its sleep, then \<open>semaphore.acquire()\<close>.\<close>

definition stream_acquire :: "nat \<Rightarrow> stream \<Rightarrow> system \<Rightarrow> system" where
  "stream_acquire i st s =
     (let s1 = set_limiter (snd (canProceed (s_now s) (st_estimate st) (q_limiter (s_q s)))) s;
          (granted, m) = acquire (StreamWaiter i) (q_sem (s_q s1))
      in set_stream i st (if granted then STGranted else STAcquire) (set_sem m s1))"

definition stream_open :: "http_request \<Rightarrow> rat \<Rightarrow> system \<Rightarrow> system" where
  "stream_open req estimatedTokens s =
     (let i = s_nextId s;
          (w, lim) = waitTimeMs (s_now s) estimatedTokens (q_limiter (s_q s));
          mk = (\<lambda>ph. \<lparr> st_request = req, st_estimate = estimatedTokens, st_start = s_now s, st_phase = ph \<rparr>);
          s1 = (set_limiter lim s)\<lparr>s_nextId := i + 1\<rparr>
      in case w of
           Fin wait \<Rightarrow>
             if wait > 0 then s1\<lparr>s_streams := (i, mk (STSleep (s_now s + wait))) # s_streams s1\<rparr>
             else stream_acquire i (mk STAcquire) (s1\<lparr>s_streams := (i, mk (STSleep (s_now s))) # s_streams s1\<rparr>)
         | _ \<Rightarrow> s1\<lparr>s_streams := (i, mk (STSleep (s_now s))) # s_streams s1\<rparr>)"

definition stream_wake :: "nat \<Rightarrow> stream \<Rightarrow> ms \<Rightarrow> system \<Rightarrow> system" where
  "stream_wake i st t s = (if t \<le> s_now s then stream_acquire i st s else s)"

text \<open>With the slot: emit \<open>onRequestStart\<close>. This part of \<open>submitStream\<close> is outside its \<open>try\<close>.\<close>

definition stream_begin :: "nat \<Rightarrow> stream \<Rightarrow> system \<Rightarrow> system" where
  "stream_begin i st s = set_stream i st STStarting (emit (OnRequestStart 0 True) s)"

definition stream_started :: "nat \<Rightarrow> stream \<Rightarrow> hook_answer \<Rightarrow> system \<Rightarrow> system" where
  "stream_started i st answer s =
     (case answer of
        HookThrows e \<Rightarrow> drop_stream i s
      | HookAborts \<Rightarrow> drop_stream i (sem_release s)
      | HookOk \<Rightarrow> set_stream i (st\<lparr>st_start := s_now s\<rparr>) (STConnecting 0) s)"

section \<open>connect\<close>

text \<open>An attempt failed with \<open>error\<close>: back off and try again, or end the stream.\<close>

definition connect_failed :: "retry_env \<Rightarrow> nat \<Rightarrow> stream \<Rightarrow> nat \<Rightarrow> llm_error \<Rightarrow> system \<Rightarrow> system" where
  "connect_failed env i st attempt error s =
     (let req = st_request st; retry = retryFor (q_retry (s_q s)) req;
          kindConfig = r_perKind retry (e_kind error)
      in if connectRetries retry req attempt (s_now s - st_start st) error then
           (let backoffMs = calculateBackoff (re_random env 0) attempt error kindConfig retry;
                s1 = emit (OnRetry (attempt + 1) backoffMs) s
            in case re_onRetry env 0 of
                 HookThrows e \<Rightarrow> stream_finally i s1
               | _ \<Rightarrow> set_stream i st (STBackoff (attempt + 1) (s_now s + backoffMs)) s1)
         else stream_finally i s)"

definition stream_error :: "stream \<Rightarrow> exn \<Rightarrow> llm_error" where
  "stream_error st e =
     LLMError (exn_text e) (case e of ExAbort m \<Rightarrow> Timeout | _ \<Rightarrow> Network)
       (rq_provider (st_request st)) None True None"

text \<open>The \<open>catch\<close> of one attempt: an \<open>LLMError\<close> and the caller's own abort end the stream.\<close>

definition connect_catch :: "retry_env \<Rightarrow> nat \<Rightarrow> stream \<Rightarrow> nat \<Rightarrow> exn \<Rightarrow> system \<Rightarrow> system" where
  "connect_catch env i st attempt e s =
     (case e of
        ExLLM err \<Rightarrow> stream_finally i s
      | _ \<Rightarrow> if re_aborted env then stream_finally i s
             else connect_failed env i st attempt (stream_error st e) s)"

definition connect_fetched ::
  "retry_env \<Rightarrow> nat \<Rightarrow> stream \<Rightarrow> nat \<Rightarrow> exn + response \<Rightarrow> system \<Rightarrow> system" where
  "connect_fetched env i st attempt outcome s =
     (case outcome of
        Inl e \<Rightarrow> connect_catch env i st attempt e s
      | Inr r \<Rightarrow>
          (let resHeaders = headersToRecord (rs_headers r)
           in set_stream i st (STCompleting attempt r)
                (emit (OnRequestComplete (rs_status r) attempt)
                  (set_limiter (updateFromHeaders (s_now s) resHeaders (q_limiter (s_q s))) s))))"

text \<open>
  \<open>onRequestComplete\<close> answered. A success with a body goes on to the events; \<open>body\<close> is the parsed
  error body otherwise (\<open>JNull\<close> when it is not JSON).
\<close>

definition connect_completed ::
  "(string \<Rightarrow> jsnum) \<Rightarrow> retry_env \<Rightarrow> nat \<Rightarrow> stream \<Rightarrow> nat \<Rightarrow> response \<Rightarrow> hook_answer \<Rightarrow> json \<Rightarrow> system \<Rightarrow> system" where
  "connect_completed date_parse env i st attempt r answer body s =
     (case answer of
        HookThrows e \<Rightarrow> connect_catch env i st attempt e s
      | _ \<Rightarrow>
          (let s1 = count_processed s
           in if rs_ok r then
                (if rs_hasBody r then set_stream i st (STReading 0) s1 else stream_finally i s1)
              else
                (let error = classifyError date_parse (date_now s) (rq_provider (st_request st)) (rs_status r)
                               body (headersToRecord (rs_headers r));
                     s2 = (if e_kind error = RateLimit then emit OnRateLimitHit s1 else s1)
                 in set_stream i st (STErrorHooks attempt error) (emit (OnModelError attempt False) s2))))"

definition connect_error_hooks ::
  "retry_env \<Rightarrow> nat \<Rightarrow> stream \<Rightarrow> nat \<Rightarrow> llm_error \<Rightarrow> hook_answer \<Rightarrow> system \<Rightarrow> system" where
  "connect_error_hooks env i st attempt error answer s =
     (case answer of
        HookThrows e \<Rightarrow> connect_catch env i st attempt e s
      | _ \<Rightarrow> connect_failed env i st attempt error s)"

definition connect_again :: "nat \<Rightarrow> stream \<Rightarrow> nat \<Rightarrow> ms \<Rightarrow> system \<Rightarrow> system" where
  "connect_again i st attempt t s =
     (if t \<le> s_now s then set_stream i st (STConnecting attempt) s else s)"

section \<open>Forwarding events\<close>

datatype stream_input = SIEvent hook_answer | SIEnd | SIFailure exn

text \<open>One event, the end of the body, or a failure; a consumer that stops early is an end.\<close>

definition stream_read :: "nat \<Rightarrow> stream \<Rightarrow> nat \<Rightarrow> stream_input \<Rightarrow> system \<Rightarrow> system" where
  "stream_read i st k inp s =
     (case inp of
        SIEvent answer \<Rightarrow>
          (let s1 = emit (OnStreamChunk k) s
           in case answer of
                HookThrows e \<Rightarrow> stream_finally i s1
              | _ \<Rightarrow> set_stream i st (STReading (k + 1)) s1)
      | SIEnd \<Rightarrow> stream_finally i s
      | SIFailure e \<Rightarrow> stream_finally i s)"

text \<open>The error the consumer of a stream sees when reading fails after \<open>k\<close> events.\<close>

definition read_failure :: "bool \<Rightarrow> http_request \<Rightarrow> nat \<Rightarrow> exn \<Rightarrow> exn" where
  "read_failure aborted req k e =
     (case e of
        ExLLM err \<Rightarrow> e
      | _ \<Rightarrow> if aborted then e
             else ExLLM (LLMError (''Stream failed after '' @ nat_to_string k @ '' event(s): '' @ exn_text e)
                           (case e of ExAbort m \<Rightarrow> Timeout | _ \<Rightarrow> Network) (rq_provider req) None False None))"

section \<open>One attempt: executeOnce\<close>

datatype init_body = NoBody | RawBody req_body | TextBody string

record request_init =
  in_method :: string
  in_headers :: headers
  in_body :: init_body
  in_redirectManual :: bool

definition attempt_timeout :: "retry_config \<Rightarrow> http_request \<Rightarrow> ms" where
  "attempt_timeout retry0 req = nullish (rq_timeout req) (r_attemptTimeoutMs (retryFor retry0 req))"

text \<open>\<open>JSON.stringify\<close> of a non-JSON body object: an empty object, or the index record of bytes.\<close>

definition body_text :: "req_body \<Rightarrow> string" where
  "body_text b =
     (case b of
        BJson (JStr s) \<Rightarrow> s
      | BJson j \<Rightarrow> stringify j
      | BBytes bs \<Rightarrow> stringify (JObj (map (\<lambda>(i, b). (nat_to_string i, JNum (int b) 0)) (enumerate 0 bs)))
      | _ \<Rightarrow> ''{}'')"

definition request_init_of :: "http_request \<Rightarrow> request_init" where
  "request_init_of req =
     (let m = nullish (rq_method req) ''POST''; method = to_upper m
      in \<lparr> in_method = m, in_headers = rq_headers req,
           in_body = (if rq_body req \<noteq> BUndefined \<and> method \<noteq> ''GET'' \<and> method \<noteq> ''HEAD'' \<and> method \<noteq> ''DELETE'' then
                        (if rq_rawBody req then RawBody (rq_body req) else TextBody (body_text (rq_body req)))
                      else NoBody),
           in_redirectManual = False \<rparr>)"

definition MAX_SAME_ORIGIN_REDIRECTS :: nat where
  "MAX_SAME_ORIGIN_REDIRECTS = 3"

text \<open>
  The redirect loop: \<open>fetch\<close> is the injected transport (a parameter), \<open>fuel\<close> bounds the loop; the
  URLs requested are returned with the outcome.
\<close>

fun send_following ::
  "(string \<Rightarrow> string option \<Rightarrow> url option) \<Rightarrow> (string \<Rightarrow> request_init \<Rightarrow> exn + response) \<Rightarrow>
   nat \<Rightarrow> http_request \<Rightarrow> request_init \<Rightarrow> string \<Rightarrow> nat \<Rightarrow> string \<Rightarrow> (string list \<times> (exn + response)) option" where
  "send_following parse_url fetch 0 req init method hop u = None"
| "send_following parse_url fetch (Suc fuel) req init method hop u =
     (case fetch u (init\<lparr>in_redirectManual := True\<rparr>) of
        Inl e \<Rightarrow> Some ([u], Inl e)
      | Inr res \<Rightarrow>
          if hop \<ge> MAX_SAME_ORIGIN_REDIRECTS \<or> isStreamBody (rq_body req) then Some ([u], Inr res)
          else (case followSameOrigin parse_url u method (rs_status res)
                       (header (rs_headers res) ''location'') of
                  None \<Rightarrow> Some ([u], Inr res)
                | Some nxt \<Rightarrow>
                    map_option (\<lambda>(us, r). (u # us, r))
                      (send_following parse_url fetch fuel req init method (hop + 1) nxt)))"

definition executeOnce ::
  "(string \<Rightarrow> string option \<Rightarrow> url option) \<Rightarrow> (string \<Rightarrow> request_init \<Rightarrow> exn + response) \<Rightarrow>
   http_request \<Rightarrow> (string list \<times> (exn + response)) option" where
  "executeOnce parse_url fetch req =
     (let init = request_init_of req
      in if rq_redirect req \<noteq> Some RSameOrigin then Some ([rq_url req], fetch (rq_url req) init)
         else send_following parse_url fetch (Suc MAX_SAME_ORIGIN_REDIRECTS) req init
                (to_upper (in_method init)) 0 (rq_url req))"

section \<open>The redirect budget\<close>

lemma send_following_terminates:
  "fuel + hop = Suc MAX_SAME_ORIGIN_REDIRECTS \<Longrightarrow> 0 < fuel \<Longrightarrow>
   \<exists>us r. send_following pu fetch fuel req init m hop u = Some (us, r) \<and> us \<noteq> [] \<and> length us \<le> fuel"
proof (induction fuel arbitrary: hop u)
  case 0
  then show ?case by simp
next
  case (Suc fuel)
  show ?case
  proof (cases "fetch u (init\<lparr>in_redirectManual := True\<rparr>)")
    case (Inl e)
    then show ?thesis by simp
  next
    case (Inr res)
    show ?thesis
    proof (cases "hop \<ge> MAX_SAME_ORIGIN_REDIRECTS \<or> isStreamBody (rq_body req)
                    \<or> followSameOrigin pu u m (rs_status res) (header (rs_headers res) ''location'') = None")
      case True
      then show ?thesis using Inr by auto
    next
      case False
      then obtain nxt where "followSameOrigin pu u m (rs_status res) (header (rs_headers res) ''location'') = Some nxt"
        by blast
      moreover have "0 < fuel" using False Suc.prems by simp
      ultimately show ?thesis using Inr False Suc.IH[of "hop + 1" nxt] Suc.prems by fastforce
    qed
  qed
qed

text \<open>Every URL after the first came from a redirect the same-origin rule allowed.\<close>

definition origin_chain :: "(string \<Rightarrow> string option \<Rightarrow> url option) \<Rightarrow> string list \<Rightarrow> bool" where
  "origin_chain pu us \<longleftrightarrow>
     (\<forall>k. Suc k < length us \<longrightarrow>
        (\<exists>src dst. pu (us ! k) None = Some src \<and> us ! Suc k = u_href dst \<and> sameOrigin src dst))"

lemma send_following_chain:
  "send_following pu fetch fuel req init m hop u = Some (us, r) \<Longrightarrow> origin_chain pu us \<and> hd us = u \<and> us \<noteq> []"
proof (induction fuel arbitrary: hop u us)
  case 0
  then show ?case by simp
next
  case (Suc fuel)
  show ?case
  proof (cases "us = [u]")
    case True
    then show ?thesis by (simp add: origin_chain_def)
  next
    case False
    then obtain res :: response and nxt vs where
      f: "followSameOrigin pu u m (rs_status res) (header (rs_headers res) ''location'') = Some nxt"
      and v: "send_following pu fetch fuel req init m (Suc hop) nxt = Some (vs, r)" and us: "us = u # vs"
      using Suc.prems by (auto split: sum.splits if_splits option.splits)
    obtain src dst where "pu u None = Some src" "nxt = u_href dst" "sameOrigin src dst"
      using f by (rule followSameOrigin_SomeD) blast
    moreover have "origin_chain pu vs" "vs \<noteq> []" "hd vs = nxt" using Suc.IH[OF v] by auto
    ultimately show ?thesis
      using us by (auto simp: origin_chain_def nth_Cons hd_conv_nth split: nat.splits)
  qed
qed

section \<open>Properties of redirects\<close>

text \<open>one attempt that follows same-origin redirects always ends after at most four requests (three
  redirects), with a response or the transport's error, and every URL after the first was reached by a
  redirect that keeps the origin of the request that was answered.\<close>

theorem redirects_bounded_same_origin:
  "\<exists>us r. executeOnce parse_url fetch req = Some (us, r) \<and> length us \<le> 4 \<and> hd us = rq_url req \<and> origin_chain parse_url us"
proof (cases "rq_redirect req = Some RSameOrigin")
  case True
  define fuel where "fuel = Suc MAX_SAME_ORIGIN_REDIRECTS"
  define verb where "verb = to_upper (in_method (request_init_of req))"
  have "fuel + 0 = Suc MAX_SAME_ORIGIN_REDIRECTS" "0 < fuel" by (simp_all add: fuel_def)
  from send_following_terminates[OF this] obtain us r where
    u: "send_following parse_url fetch fuel req (request_init_of req) verb 0 (rq_url req) = Some (us, r)"
    and l: "length us \<le> fuel" by blast
  from send_following_chain[OF u] have "origin_chain parse_url us \<and> hd us = rq_url req" by simp
  moreover have "executeOnce parse_url fetch req = Some (us, r)"
    using True u by (simp add: executeOnce_def fuel_def verb_def Let_def del: send_following.simps)
  moreover have "length us \<le> 4" using l by (simp add: fuel_def MAX_SAME_ORIGIN_REDIRECTS_def)
  ultimately show ?thesis by blast
qed (simp add: executeOnce_def origin_chain_def)

end
