(* ===== verification/QueueSystem.thy ===== *)
theory QueueSystem
  imports QueueStream
begin

text \<open>
  The event loop over one \<open>QueueState\<close>: an \<open>event\<close> names the coroutine that runs next and what the
  environment answers; \<open>step\<close> performs it. The clock only moves forward. Two accounts are kept over
  every interleaving: the \<open>ledger\<close> of promises (each submitted request is in exactly one place:
  queued, in the loop's hands, executing, waiting for its retry, or settled) and the \<open>slack\<close> between
  the semaphore's count and the coroutines that hold a slot.
\<close>

section \<open>Events and steps\<close>

datatype event =
    Tick ms
  | Submit http_request rat rat hook_answer
  | LoopRun hook_answer hook_answer
  | LoopWake
  | LoopGo
  | WStarted nat hook_answer
  | WFetched nat retry_env "exn + response" hook_answer
  | WCompleted nat retry_env hook_answer
  | WBody nat retry_env "exn option"
  | WErrBody nat retry_env json hook_answer
  | WRateHooked nat retry_env hook_answer
  | TimerFires nat
  | StreamOpen http_request rat
  | StreamWake nat
  | StreamBegin nat
  | StreamStarted nat hook_answer
  | ConnFetched nat retry_env "exn + response"
  | ConnCompleted nat retry_env hook_answer json
  | ConnErrHooks nat retry_env hook_answer
  | ConnAgain nat
  | StreamRead nat stream_input

definition on_worker :: "nat \<Rightarrow> (worker \<Rightarrow> system option) \<Rightarrow> system \<Rightarrow> system" where
  "on_worker i f s =
     (case map_of (s_workers s) i of None \<Rightarrow> s | Some w \<Rightarrow> (case f w of None \<Rightarrow> s | Some t \<Rightarrow> t))"

definition on_stream :: "nat \<Rightarrow> (stream \<Rightarrow> system option) \<Rightarrow> system \<Rightarrow> system" where
  "on_stream i f s =
     (case map_of (s_streams s) i of None \<Rightarrow> s | Some st \<Rightarrow> (case f st of None \<Rightarrow> s | Some t \<Rightarrow> t))"

text \<open>An event whose coroutine is not at the matching point does nothing.\<close>

fun step :: "(string \<Rightarrow> jsnum) \<Rightarrow> event \<Rightarrow> system \<Rightarrow> system" where
  "step dp (Tick d) s = (if 0 \<le> d then s\<lparr>s_now := s_now s + d\<rparr> else s)"
| "step dp (Submit req pr est a) s = submit req pr est a s"
| "step dp (LoopRun a b) s = (if s_loop s = LoopReady then loop_run a b s else s)"
| "step dp LoopWake s = loop_wake s"
| "step dp LoopGo s = loop_go s"
| "step dp (WStarted i a) s =
     on_worker i (\<lambda>w. if wk_phase w = WStarting then Some (worker_started i w a s) else None) s"
| "step dp (WFetched i env out a) s =
     on_worker i (\<lambda>w. if wk_phase w = WFetching then Some (worker_fetched env i w out a s) else None) s"
| "step dp (WCompleted i env a) s =
     on_worker i (\<lambda>w. case wk_phase w of WCompleting r \<Rightarrow> Some (worker_completed env i w r a s) | _ \<Rightarrow> None) s"
| "step dp (WBody i env x) s =
     on_worker i (\<lambda>w. case wk_phase w of WReadingBody r \<Rightarrow> Some (worker_body env i w r x s) | _ \<Rightarrow> None) s"
| "step dp (WErrBody i env j a) s =
     on_worker i (\<lambda>w. case wk_phase w of
        WReadingError r \<Rightarrow> Some (worker_error_body dp env i w r j a s) | _ \<Rightarrow> None) s"
| "step dp (WRateHooked i env a) s =
     on_worker i (\<lambda>w. case wk_phase w of WRateHook e \<Rightarrow> Some (worker_rate_hook env i w e a s) | _ \<Rightarrow> None) s"
| "step dp (TimerFires k) s = timer_fires k s"
| "step dp (StreamOpen req est) s = stream_open req est s"
| "step dp (StreamWake i) s =
     on_stream i (\<lambda>st. case st_phase st of STSleep t \<Rightarrow> Some (stream_wake i st t s) | _ \<Rightarrow> None) s"
| "step dp (StreamBegin i) s =
     on_stream i (\<lambda>st. if st_phase st = STGranted then Some (stream_begin i st s) else None) s"
| "step dp (StreamStarted i a) s =
     on_stream i (\<lambda>st. if st_phase st = STStarting then Some (stream_started i st a s) else None) s"
| "step dp (ConnFetched i env out) s =
     on_stream i (\<lambda>st. case st_phase st of STConnecting n \<Rightarrow> Some (connect_fetched env i st n out s) | _ \<Rightarrow> None) s"
| "step dp (ConnCompleted i env a j) s =
     on_stream i (\<lambda>st. case st_phase st of
        STCompleting n r \<Rightarrow> Some (connect_completed dp env i st n r a j s) | _ \<Rightarrow> None) s"
| "step dp (ConnErrHooks i env a) s =
     on_stream i (\<lambda>st. case st_phase st of
        STErrorHooks n e \<Rightarrow> Some (connect_error_hooks env i st n e a s) | _ \<Rightarrow> None) s"
| "step dp (ConnAgain i) s =
     on_stream i (\<lambda>st. case st_phase st of STBackoff n t \<Rightarrow> Some (connect_again i st n t s) | _ \<Rightarrow> None) s"
| "step dp (StreamRead i inp) s =
     on_stream i (\<lambda>st. case st_phase st of STReading k \<Rightarrow> Some (stream_read i st k inp s) | _ \<Rightarrow> None) s"

fun run :: "(string \<Rightarrow> jsnum) \<Rightarrow> event list \<Rightarrow> system \<Rightarrow> system" where
  "run dp [] s = s"
| "run dp (e # es) s = run dp es (step dp e s)"

text \<open>Subscribers that do not throw, and events all of whose subscribers do not.\<close>

fun calm :: "hook_answer \<Rightarrow> bool" where
  "calm (HookThrows e) = False"
| "calm _ = True"

definition calm_retry :: "retry_env \<Rightarrow> bool" where
  "calm_retry env \<longleftrightarrow> (\<forall>k. calm (re_onRetry env k))"

fun loop_calm :: "event \<Rightarrow> bool" where
  "loop_calm (LoopRun a b) = (calm a \<and> calm b)"
| "loop_calm _ = True"

fun slot_calm :: "event \<Rightarrow> bool" where
  "slot_calm (WFetched i env out a) = calm_retry env"
| "slot_calm (WCompleted i env a) = calm_retry env"
| "slot_calm (WBody i env x) = calm_retry env"
| "slot_calm (WErrBody i env j a) = calm_retry env"
| "slot_calm (WRateHooked i env a) = calm_retry env"
| "slot_calm (StreamStarted i a) = calm a"
| "slot_calm _ = True"

inductive reachable :: "(string \<Rightarrow> jsnum) \<Rightarrow> (event \<Rightarrow> bool) \<Rightarrow> system \<Rightarrow> system \<Rightarrow> bool"
  for dp ok s0 where
  reach_start: "reachable dp ok s0 s0"
| reach_step: "reachable dp ok s0 s \<Longrightarrow> ok e \<Longrightarrow> reachable dp ok s0 (step dp e s)"

lemma reachable_inv:
  assumes "reachable dp ok s0 s" "P s0" "\<And>s e. P s \<Longrightarrow> ok e \<Longrightarrow> P (step dp e s)"
  shows "P s"
  using assms by (induction rule: reachable.induct) auto

section \<open>Well-formed coroutine tables\<close>

definition tab_ok :: "nat \<Rightarrow> (nat \<times> 'a) list \<Rightarrow> bool" where
  "tab_ok n xs \<longleftrightarrow> distinct (map fst xs) \<and> (\<forall>p\<in>set xs. fst p < n)"

lemma tab_ok_Nil [simp]: "tab_ok n []"
  by (simp add: tab_ok_def)

lemma tab_ok_distinct: "tab_ok n xs \<Longrightarrow> distinct (map fst xs)"
  by (simp add: tab_ok_def)

lemma tab_ok_delete: "tab_ok n xs \<Longrightarrow> tab_ok n (AList.delete i xs)"
  by (auto simp: tab_ok_def distinct_delete AList.delete_eq distinct_map_filter)

lemma update_fst: "p \<in> set (AList.update i v xs) \<Longrightarrow> fst p = i \<or> fst p \<in> fst ` set xs"
  by (induction xs) (auto split: if_splits)

lemma tab_ok_update: "i < n \<Longrightarrow> tab_ok n xs \<Longrightarrow> tab_ok n (AList.update i v xs)"
  by (auto simp: tab_ok_def distinct_update dest!: update_fst)

lemma tab_ok_Cons: "tab_ok n xs \<Longrightarrow> tab_ok (Suc n) ((n, v) # xs)"
  by (auto simp: tab_ok_def less_Suc_eq)

lemma tab_ok_Suc: "tab_ok n xs \<Longrightarrow> tab_ok (Suc n) xs"
  by (auto simp: tab_ok_def)

lemma tab_ok_map_of: "tab_ok n xs \<Longrightarrow> map_of xs i = Some v \<Longrightarrow> i < n"
  by (auto simp: tab_ok_def dest: map_of_SomeD)

definition table_inv :: "system \<Rightarrow> bool" where
  "table_inv s \<longleftrightarrow> tab_ok (s_nextId s) (s_workers s) \<and> tab_ok (s_nextId s) (s_streams s)"

lemmas queue_ops = emit_def settle_def set_limiter_def set_queue_def set_sem_def
  count_processed_def drop_worker_def set_phase_def drop_stream_def set_stream_def loop_crash_def

lemma delete_mset:
  "distinct (map fst xs) \<Longrightarrow> map_of xs i = Some v \<Longrightarrow> mset xs = add_mset (i, v) (mset (AList.delete i xs))"
proof (induction xs)
  case Nil
  then show ?case by simp
next
  case (Cons p xs)
  show ?case
  proof (cases "fst p = i")
    case True
    then have "AList.delete i xs = xs" using Cons.prems by (auto simp: AList.delete_eq filter_id_conv image_iff)
    then show ?thesis using True Cons.prems by (cases p) (simp add: AList.delete_eq)
  next
    case False
    then show ?thesis using Cons by (cases p) (simp add: AList.delete_eq)
  qed
qed

lemma update_mset:
  "distinct (map fst xs) \<Longrightarrow> map_of xs i = Some v \<Longrightarrow>
   mset (AList.update i v' xs) = add_mset (i, v') (mset (AList.delete i xs))"
proof (induction xs)
  case Nil
  then show ?case by simp
next
  case (Cons p xs)
  show ?case
  proof (cases "fst p = i")
    case True
    then have "AList.delete i xs = xs" using Cons.prems by (auto simp: AList.delete_eq filter_id_conv image_iff)
    then show ?thesis using True Cons.prems by (cases p) (simp add: AList.delete_eq)
  next
    case False
    then show ?thesis using Cons by (cases p) (simp add: AList.delete_eq)
  qed
qed

end
