(* ===== verification/QueueLedger.thy ===== *)
theory QueueLedger
  imports QueueSystem
begin

text \<open>
  The promise ledger of a queue: where each submitted request's promise currently is. Every step
  moves promises between places and never drops or copies one, as long as no \<open>onDequeue\<close> or
  \<open>onQueueTimeout\<close> subscriber throws.
\<close>

fun loop_entries :: "loop_pc \<Rightarrow> queue_entry list" where
  "loop_entries (LoopSleep e t) = [e]"
| "loop_entries (LoopAcquire e) = [e]"
| "loop_entries (LoopGranted e) = [e]"
| "loop_entries _ = []"

definition places :: "system \<Rightarrow> nat multiset" where
  \<comment> \<open>The promises outside the process loop.\<close>
  "places s =
     image_mset qe_promise (mset (rq_heap (q_queue (s_q s))))
     + image_mset (qe_promise \<circ> wk_entry \<circ> snd) (mset (s_workers s))
     + image_mset (qe_promise \<circ> rt_entry) (mset (s_timers s))
     + image_mset fst (mset (s_settled s))"

definition ledger :: "system \<Rightarrow> nat multiset" where
  "ledger s = places s + mset (map qe_promise (loop_entries (s_loop s)))"

definition ledger_inv :: "system \<Rightarrow> bool" where
  "ledger_inv s \<longleftrightarrow> ledger s = mset [0..<s_nextPromise s]"

section \<open>Frames of the shared operations\<close>

lemma places_ops [simp]:
  "places (emit h s) = places s"
  "places (set_limiter l s) = places s"
  "places (set_sem m s) = places s"
  "places (settle p x s) = add_mset p (places s)"
  "places (count_processed s) = places s"
  "places (loop_crash s) = places s"
  "places (s\<lparr>s_loop := pc\<rparr>) = places s"
  "places (s\<lparr>s_streams := st\<rparr>) = places s"
  by (simp_all add: places_def queue_ops)

lemma loop_ops [simp]:
  "s_loop (emit h s) = s_loop s" "s_loop (set_limiter l s) = s_loop s" "s_loop (set_sem m s) = s_loop s"
  "s_loop (settle p x s) = s_loop s" "s_loop (count_processed s) = s_loop s"
  "s_loop (set_queue q s) = s_loop s" "s_loop (drop_worker i s) = s_loop s"
  "s_loop (set_phase i w ph s) = s_loop s" "s_loop (drop_stream i s) = s_loop s"
  "s_loop (set_stream i st sp s) = s_loop s"
  by (simp_all add: queue_ops)

lemma next_ops [simp]:
  "s_nextPromise (emit h s) = s_nextPromise s" "s_nextPromise (set_limiter l s) = s_nextPromise s"
  "s_nextPromise (set_sem m s) = s_nextPromise s" "s_nextPromise (settle p x s) = s_nextPromise s"
  "s_nextPromise (count_processed s) = s_nextPromise s" "s_nextPromise (set_queue q s) = s_nextPromise s"
  "s_nextPromise (drop_worker i s) = s_nextPromise s" "s_nextPromise (set_phase i w ph s) = s_nextPromise s"
  "s_nextPromise (drop_stream i s) = s_nextPromise s" "s_nextPromise (set_stream i st sp s) = s_nextPromise s"
  "s_nextPromise (loop_crash s) = s_nextPromise s"
  by (simp_all add: queue_ops)

lemma worker_ops [simp]:
  "s_workers (emit h s) = s_workers s" "s_workers (set_limiter l s) = s_workers s"
  "s_workers (set_sem m s) = s_workers s" "s_workers (settle p x s) = s_workers s"
  "s_workers (count_processed s) = s_workers s" "s_workers (set_queue q s) = s_workers s"
  "s_workers (drop_stream i s) = s_workers s" "s_workers (set_stream i st sp s) = s_workers s"
  "s_workers (drop_worker i s) = AList.delete i (s_workers s)"
  by (simp_all add: queue_ops)

lemma places_queue:
  "mset (rq_heap q) = mset (rq_heap (q_queue (s_q s))) \<Longrightarrow> places (set_queue q s) = places s"
  by (simp add: places_def queue_ops)

lemma resume_frame:
  "places (resume w s) = places s" "loop_entries (s_loop (resume w s)) = loop_entries (s_loop s)"
  "s_nextPromise (resume w s) = s_nextPromise s" "s_workers (resume w s) = s_workers s"
  "s_nextId (resume w s) = s_nextId s"
  by (auto simp: resume_def places_def split: waiter.split loop_pc.split option.split)

lemma sem_release_frame [simp]:
  "places (sem_release s) = places s" "loop_entries (s_loop (sem_release s)) = loop_entries (s_loop s)"
  "s_nextPromise (sem_release s) = s_nextPromise s" "s_workers (sem_release s) = s_workers s"
  by (simp_all add: sem_release_def resume_frame split: prod.split option.split)

lemma places_drop_worker:
  "distinct (map fst (s_workers s)) \<Longrightarrow> map_of (s_workers s) i = Some w \<Longrightarrow>
   places s = add_mset (qe_promise (wk_entry w)) (places (drop_worker i s))"
  by (simp add: places_def queue_ops delete_mset)

lemma places_drop_absent: "AList.delete i (s_workers s) = s_workers s \<Longrightarrow> places (drop_worker i s) = places s"
  by (simp add: places_def queue_ops)

lemma places_set_phase:
  "distinct (map fst (s_workers s)) \<Longrightarrow> map_of (s_workers s) i = Some w \<Longrightarrow>
   places (set_phase i w ph s) = places s"
  by (simp add: places_def queue_ops update_mset delete_mset[of "s_workers s" i w])

lemma loop_wait_frame [simp]:
  "places (loop_wait s) = places s" "loop_entries (s_loop (loop_wait s)) = []"
  "s_nextPromise (loop_wait s) = s_nextPromise s"
  by (simp_all add: loop_wait_def waitForItem_def places_def queue_ops)

section \<open>The end of a worker\<close>

lemma handleRetry_frame:
  assumes "handleRetry env k w err s = (x, s')"
  shows "places s' = (if x = None then add_mset (qe_promise (wk_entry w)) (places s) else places s)"
    and "loop_entries (s_loop s') = loop_entries (s_loop s)" and "s_nextPromise s' = s_nextPromise s"
    and "s_workers s' = s_workers s"
  using assms
  by (auto simp: handleRetry_def Let_def places_def queue_ops split: if_splits hook_answer.splits)

lemma settleOnWorkerCrash_frame [simp]:
  "places (settleOnWorkerCrash w e s) = add_mset (qe_promise (wk_entry w)) (places s)"
  "loop_entries (s_loop (settleOnWorkerCrash w e s)) = loop_entries (s_loop s)"
  "s_nextPromise (settleOnWorkerCrash w e s) = s_nextPromise s"
  by (simp_all add: settleOnWorkerCrash_def Let_def)

lemma catch_block_frame:
  "places (catch_block env k i w e b s) = add_mset (qe_promise (wk_entry w)) (places (drop_worker i s))"
  "loop_entries (s_loop (catch_block env k i w e b s)) = loop_entries (s_loop s)"
  "s_nextPromise (catch_block env k i w e b s) = s_nextPromise s"
  by (auto simp: catch_block_def Let_def split: exn.split prod.split option.split
      dest: handleRetry_frame)

lemma delete_idem [simp]: "AList.delete i (AList.delete i xs) = AList.delete i xs"
  by (simp add: AList.delete_eq)

lemma finish_error_frame:
  "places (finish_error env i w e s) = add_mset (qe_promise (wk_entry w)) (places (drop_worker i s))"
  "loop_entries (s_loop (finish_error env i w e s)) = loop_entries (s_loop s)"
  "s_nextPromise (finish_error env i w e s) = s_nextPromise s"
proof (atomize (full), goal_cases)
  case 1
  obtain x s1 where h: "handleRetry env 0 w e (sem_release (drop_worker i s)) = (x, s1)"
    by (cases "handleRetry env 0 w e (sem_release (drop_worker i s))")
  note fr = handleRetry_frame[OF h]
  have "places (drop_worker i s1) = places s1" by (rule places_drop_absent) (simp add: fr(4))
  then show ?case using h fr by (cases x) (simp_all add: finish_error_def catch_block_frame)
qed

section \<open>Every step keeps the ledger\<close>

definition keeps :: "system \<Rightarrow> system \<Rightarrow> bool" where
  "keeps s t \<longleftrightarrow> ledger t = ledger s \<and> s_nextPromise t = s_nextPromise s"

lemma keeps_refl [simp]: "keeps s s"
  by (simp add: keeps_def)

lemma keeps_inv: "keeps s t \<Longrightarrow> ledger_inv s \<Longrightarrow> ledger_inv t"
  by (simp add: keeps_def ledger_inv_def)

lemma keepsI:
  "places t = places s \<Longrightarrow> loop_entries (s_loop t) = loop_entries (s_loop s) \<Longrightarrow>
   s_nextPromise t = s_nextPromise s \<Longrightarrow> keeps s t"
  by (simp add: keeps_def ledger_def)

lemma keeps_catch:
  assumes "distinct (map fst (s_workers s))" "map_of (s_workers s) i = Some w"
    and "places t = places s" "s_workers t = s_workers s" "s_loop t = s_loop s"
    and "s_nextPromise t = s_nextPromise s"
  shows "keeps s (catch_block env k i w e b t)"
  using assms places_drop_worker[of t i w] by (intro keepsI) (simp_all add: catch_block_frame)

lemma keeps_finish:
  assumes "distinct (map fst (s_workers s))" "map_of (s_workers s) i = Some w"
    and "places t = places s" "s_workers t = s_workers s" "s_loop t = s_loop s"
    and "s_nextPromise t = s_nextPromise s"
  shows "keeps s (finish_error env i w e t)"
  using assms places_drop_worker[of t i w] by (intro keepsI) (simp_all add: finish_error_frame)

lemma keeps_trans: "keeps s t \<Longrightarrow> keeps t u \<Longrightarrow> keeps s u"
  by (simp add: keeps_def)

text \<open>Steps of a worker.\<close>

lemma keeps_phase:
  assumes "distinct (map fst (s_workers s))" "map_of (s_workers s) i = Some w"
    and "places t = places s" "s_workers t = s_workers s" "s_loop t = s_loop s"
    and "s_nextPromise t = s_nextPromise s"
  shows "keeps s (set_phase i w ph t)"
  using assms by (intro keepsI) (simp_all add: places_set_phase)

lemma keeps_end:
  assumes "distinct (map fst (s_workers s))" "map_of (s_workers s) i = Some w"
    and "s_workers t = s_workers s" "places t = places s" "s_loop t = s_loop s"
    and "s_nextPromise t = s_nextPromise s"
  shows "keeps s (settle (qe_promise (wk_entry w)) x (sem_release (drop_worker i t)))"
    and "keeps s (settleOnWorkerCrash w e (drop_worker i t))"
  using assms places_drop_worker[of t i w] by (auto intro!: keepsI)

lemmas keeps_worker = keeps_phase keeps_end keeps_catch keeps_finish

lemma emitRateLimitUpdate_frame:
  "emitRateLimitUpdate hs a s = (x, t) \<Longrightarrow>
   places t = places s \<and> s_workers t = s_workers s \<and> s_loop t = s_loop s
   \<and> s_nextPromise t = s_nextPromise s \<and> s_streams t = s_streams s"
  by (auto simp: emitRateLimitUpdate_def queue_ops places_def split: if_splits hook_answer.splits)

lemma keeps_worker_step:
  assumes d: "distinct (map fst (s_workers s))" and m: "map_of (s_workers s) i = Some w"
  shows "keeps s (worker_started i w a s)"
    and "keeps s (worker_fetched env i w out a s)"
    and "keeps s (worker_completed env i w r a s)"
    and "keeps s (worker_body env i w r x s)"
    and "keeps s (worker_error_body dp env i w r j a s)"
    and "keeps s (worker_rate_hook env i w err a s)"
proof -
  note kw = keeps_worker[OF d m]
  show "keeps s (worker_started i w a s)"
    by (auto simp: worker_started_def split: hook_answer.split intro!: kw)
  show "keeps s (worker_fetched env i w out a s)"
    by (auto simp: worker_fetched_def Let_def split: sum.split prod.split option.split
        dest!: emitRateLimitUpdate_frame intro!: kw)
  show "keeps s (worker_completed env i w r a s)"
    by (auto simp: worker_completed_def resolve_response_def Let_def split: hook_answer.split intro!: kw)
  show "keeps s (worker_body env i w r x s)"
    by (auto simp: worker_body_def resolve_response_def split: option.split intro!: kw)
  show "keeps s (worker_error_body dp env i w r j a s)"
    by (auto simp: worker_error_body_def Let_def split: prod.split option.split
        dest!: emitRateLimitUpdate_frame intro!: kw)
  show "keeps s (worker_rate_hook env i w err a s)"
    by (auto simp: worker_rate_hook_def split: hook_answer.split intro!: kw)
qed

text \<open>Steps of a stream touch no promise.\<close>

lemma stream_ops [simp]:
  "places (drop_stream i s) = places s" "places (set_stream i st ph s) = places s"
  by (simp_all add: places_def queue_ops)

lemma keeps_stream_finally: "keeps s t \<Longrightarrow> keeps s (stream_finally i t)"
  by (simp add: keeps_def ledger_def stream_finally_def)

lemma stream_acquire_frame:
  "places (stream_acquire i st s) = places s" "s_loop (stream_acquire i st s) = s_loop s"
  "s_nextPromise (stream_acquire i st s) = s_nextPromise s"
  by (simp_all add: stream_acquire_def Let_def split: prod.split)

lemma connect_failed_frame:
  "places (connect_failed env i st n e s) = places s"
  "loop_entries (s_loop (connect_failed env i st n e s)) = loop_entries (s_loop s)"
  "s_nextPromise (connect_failed env i st n e s) = s_nextPromise s"
  by (simp_all add: connect_failed_def stream_finally_def Let_def split: hook_answer.split)

lemma connect_catch_frame:
  "places (connect_catch env i st n e s) = places s"
  "loop_entries (s_loop (connect_catch env i st n e s)) = loop_entries (s_loop s)"
  "s_nextPromise (connect_catch env i st n e s) = s_nextPromise s"
  by (simp_all add: connect_catch_def connect_failed_frame stream_finally_def split: exn.split)

lemmas stream_frames = stream_acquire_frame connect_failed_frame connect_catch_frame

lemma keeps_stream_step:
  "keeps s (stream_wake i st t s)" "keeps s (stream_begin i st s)" "keeps s (stream_started i st a s)"
  "keeps s (connect_fetched env i st n out s)" "keeps s (connect_completed dp env i st n r a j s)"
  "keeps s (connect_error_hooks env i st n err a s)" "keeps s (connect_again i st n t s)"
  "keeps s (stream_read i st k inp s)"
proof -
  show "keeps s (stream_wake i st t s)"
    by (auto simp: stream_wake_def stream_frames intro!: keepsI)
  show "keeps s (stream_begin i st s)" by (auto simp: stream_begin_def intro!: keepsI)
  show "keeps s (stream_started i st a s)"
    by (auto simp: stream_started_def split: hook_answer.split intro!: keepsI)
  show "keeps s (connect_fetched env i st n out s)"
    by (auto simp: connect_fetched_def stream_frames Let_def split: sum.split intro!: keepsI)
  show "keeps s (connect_completed dp env i st n r a j s)"
    by (auto simp: connect_completed_def stream_frames stream_finally_def Let_def
        split: hook_answer.split intro!: keepsI)
  show "keeps s (connect_error_hooks env i st n err a s)"
    by (auto simp: connect_error_hooks_def stream_frames split: hook_answer.split intro!: keepsI)
  show "keeps s (connect_again i st n t s)" by (auto simp: connect_again_def intro!: keepsI)
  show "keeps s (stream_read i st k inp s)"
    by (auto simp: stream_read_def stream_finally_def Let_def
        split: stream_input.split hook_answer.split intro!: keepsI)
qed

lemma keeps_stream_open: "keeps s (stream_open req est s)"
proof -
  have "keeps s t" if "places t = places s" "s_loop t = s_loop s" "s_nextPromise t = s_nextPromise s" for t
    using that by (intro keepsI) simp_all
  moreover have "places (t\<lparr>s_nextId := n\<rparr>) = places t" for t n by (simp add: places_def)
  ultimately show ?thesis
    by (auto simp: stream_open_def stream_frames Let_def split: prod.split jsnum.split)
qed

section \<open>Steps of the queue\<close>

lemma reject_expired_frame [simp]:
  "places (reject_expired now es s) = places s + mset (map qe_promise es)"
  "s_loop (reject_expired now es s) = s_loop s" "s_nextPromise (reject_expired now es s) = s_nextPromise s"
  "s_q (reject_expired now es s) = s_q s"
  by (induction es arbitrary: s) (simp_all add: settle_def, simp_all add: places_def)

lemma loop_acquire_frame [simp]:
  "places (loop_acquire e s) = places s" "loop_entries (s_loop (loop_acquire e s)) = [e]"
  "s_nextPromise (loop_acquire e s) = s_nextPromise s"
  by (simp_all add: loop_acquire_def Let_def split: prod.split)

lemma loop_give_up_frame:
  "calm a \<Longrightarrow> places (loop_give_up a wt e s) = add_mset (qe_promise e) (places s)"
  "loop_entries (s_loop (loop_give_up a wt e s)) = []"
  "s_nextPromise (loop_give_up a wt e s) = s_nextPromise s"
  by (cases a; simp add: loop_give_up_def Let_def loop_crash_def)+

lemma ledger_alt: "ledger s = places s + mset (map qe_promise (loop_entries (s_loop s)))"
  by (simp add: ledger_def)

lemma loop_crash_frame [simp]: "loop_entries (s_loop (loop_crash s)) = []"
  by (simp add: loop_crash_def)

lemma places_dequeued:
  assumes "deq_post (s_now s) (q_queue (s_q s)) r q gone"
  shows "places s = places (set_queue q s) + mset (map qe_promise gone)
           + (case r of None \<Rightarrow> {#} | Some e \<Rightarrow> {#qe_promise e#})"
proof (cases r)
  case None
  then have "mset (rq_heap (q_queue (s_q s))) = mset gone" "rq_heap q = []"
    using assms deq_postD(4,5)[OF assms]
    by (auto simp: deq_post_def filter_id_conv intro!: arg_cong[of _ _ mset])
  then show ?thesis using None by (simp add: places_def queue_ops)
next
  case (Some e)
  then show ?thesis using deq_postD(6)[OF assms Some] by (simp add: places_def queue_ops)
qed

lemma keeps_loop_run:
  assumes "heap_ok (rq_heap (q_queue (s_q s)))" "s_loop s = LoopReady" "calm a" "calm b"
  shows "keeps s (loop_run a b s)"
proof -
  obtain r q gone where d: "dequeue (s_now s) (q_queue (s_q s)) = (r, q, gone)"
    by (cases "dequeue (s_now s) (q_queue (s_q s))")
  have pl: "places s = places (set_queue q s) + mset (map qe_promise gone)
           + (case r of None \<Rightarrow> {#} | Some e \<Rightarrow> {#qe_promise e#})"
    using places_dequeued[OF dequeue_spec[OF assms(1) d]] .
  show ?thesis
  proof (cases r)
    case None
    then show ?thesis using d pl assms by (simp add: keeps_def ledger_def loop_run_def Let_def)
  next
    case (Some e)
    define t where "t = emit OnDequeue (reject_expired (s_now s) gone (set_queue q s))"
    obtain wt lim where w: "waitTimeMs (s_now s) (qe_estimatedTokens e) (q_limiter (s_q t)) = (wt, lim)"
      by (cases "waitTimeMs (s_now s) (qe_estimatedTokens e) (q_limiter (s_q t))")
    have "places s = add_mset (qe_promise e) (places t)" "s_nextPromise t = s_nextPromise s"
      using pl Some by (simp_all add: t_def)
    then show ?thesis using d w Some assms
      by (cases a) (auto simp: keeps_def ledger_def loop_run_def Let_def t_def[symmetric] loop_give_up_frame
          split: jsnum.split)
  qed
qed

lemma keeps_loop_wake: "keeps s (loop_wake s)"
  by (auto simp: loop_wake_def keeps_def ledger_def split: loop_pc.split)

lemma places_add_worker [simp]:
  "places (s\<lparr>s_workers := (i, w) # s_workers s, s_nextId := n\<rparr>) = add_mset (qe_promise (wk_entry w)) (places s)"
  by (simp add: places_def)

lemma keeps_loop_go: "keeps s (loop_go s)"
  by (simp add: loop_go_def keeps_def ledger_def split: loop_pc.split)

lemma enqueue_request_frame:
  assumes "rq_drainWaiters (q_queue (s_q s)) > 0 \<Longrightarrow> loop_entries (s_loop s) = []"
  shows "places (enqueue_request p req pr est att s) = add_mset p (places s)"
    and "loop_entries (s_loop (enqueue_request p req pr est att s)) = loop_entries (s_loop s)"
    and "s_nextPromise (enqueue_request p req pr est att s) = s_nextPromise s"
proof (atomize (full), goal_cases)
  case 1
  show ?case
  proof (cases "enqueue (s_now s) p req pr est att (q_queue (s_q s))")
    case (QueueFull msg)
    then show ?thesis by (simp add: enqueue_request_def)
  next
    case (Enqueued q woke)
    then obtain e where "qe_promise e = p" "mset (rq_heap q) = add_mset e (mset (rq_heap (q_queue (s_q s))))"
      "woke \<longleftrightarrow> rq_drainWaiters (q_queue (s_q s)) > 0"
      by (rule enqueue_EnqueuedD)
    then show ?thesis using Enqueued assms
      by (auto simp: enqueue_request_def places_def set_queue_def)
  qed
qed

end
