(* ===== verification/QueueInvariant.thy ===== *)
theory QueueInvariant
  imports QueueLedger
begin

text \<open>
  The invariant of the whole queue over every interleaving: the process loop's flag, wake-up counter
  and heap agree (\<open>loop_inv\<close>), coroutine identities stay distinct (\<open>table_inv\<close>), the heap stays a
  bounded heap (\<open>queue_inv\<close>) and the promise ledger balances (\<open>ledger_inv\<close>).
\<close>

definition loop_inv :: "system \<Rightarrow> bool" where
  "loop_inv s \<longleftrightarrow>
     (q_running (s_q s) \<longleftrightarrow> s_loop s \<noteq> LoopOff)
     \<and> rq_drainWaiters (q_queue (s_q s)) = (if s_loop s = LoopAwaitItem then 1 else 0)
     \<and> (s_loop s = LoopOff \<or> s_loop s = LoopAwaitItem \<longrightarrow> rq_heap (q_queue (s_q s)) = [])"

definition queue_ok :: "system \<Rightarrow> bool" where
  "queue_ok s \<longleftrightarrow> loop_inv s \<and> table_inv s \<and> queue_inv (q_queue (s_q s)) \<and> ledger_inv s"

lemma queue_ok_new: "queue_ok (new_system now epoch config)"
  by (simp add: queue_ok_def loop_inv_def table_inv_def queue_inv_new ledger_inv_def ledger_def places_def
      new_system_def new_QueueState_def) (simp add: new_RequestQueue_def)

section \<open>Steps that leave the queue and the loop alone\<close>

definition quiet :: "system \<Rightarrow> system \<Rightarrow> bool" where
  "quiet s t \<longleftrightarrow>
     q_running (s_q t) = q_running (s_q s) \<and> q_queue (s_q t) = q_queue (s_q s)
     \<and> (s_loop t = s_loop s \<or> (\<exists>e. s_loop s = LoopAcquire e \<and> s_loop t = LoopGranted e))
     \<and> s_nextId t = s_nextId s \<and> (table_inv s \<longrightarrow> table_inv t)"

lemma quiet_refl: "quiet s s"
  by (simp add: quiet_def)

lemma quiet_trans: "quiet s t \<Longrightarrow> quiet t u \<Longrightarrow> quiet s u"
  by (auto simp: quiet_def)

lemma quiet_loop_inv: "quiet s t \<Longrightarrow> loop_inv s \<Longrightarrow> loop_inv t"
  by (auto simp: quiet_def loop_inv_def)

lemma table_update:
  "i < s_nextId s \<Longrightarrow> table_inv s \<Longrightarrow> table_inv (s\<lparr>s_workers := AList.update i w (s_workers s)\<rparr>)"
  "i < s_nextId s \<Longrightarrow> table_inv s \<Longrightarrow> table_inv (s\<lparr>s_streams := AList.update i st (s_streams s)\<rparr>)"
  "table_inv s \<Longrightarrow> table_inv (s\<lparr>s_workers := AList.delete i (s_workers s)\<rparr>)"
  "table_inv s \<Longrightarrow> table_inv (s\<lparr>s_streams := AList.delete i (s_streams s)\<rparr>)"
  by (simp_all add: table_inv_def tab_ok_update tab_ok_delete)

lemma table_irrelevant:
  "s_workers t = s_workers s \<Longrightarrow> s_streams t = s_streams s \<Longrightarrow> s_nextId t = s_nextId s \<Longrightarrow>
   table_inv s \<Longrightarrow> table_inv t"
  by (simp add: table_inv_def)

lemma quiet_ops [intro]:
  "quiet s t \<Longrightarrow> quiet s (emit h t)" "quiet s t \<Longrightarrow> quiet s (settle p x t)"
  "quiet s t \<Longrightarrow> quiet s (set_limiter l t)" "quiet s t \<Longrightarrow> quiet s (count_processed t)"
  "quiet s t \<Longrightarrow> quiet s (set_sem m t)" "quiet s t \<Longrightarrow> quiet s (t\<lparr>s_timers := ts\<rparr>)"
  "quiet s t \<Longrightarrow> quiet s (drop_worker i t)" "quiet s t \<Longrightarrow> quiet s (drop_stream i t)"
  "i < s_nextId s \<Longrightarrow> quiet s t \<Longrightarrow> quiet s (set_phase i w ph t)"
  "i < s_nextId s \<Longrightarrow> quiet s t \<Longrightarrow> quiet s (set_stream i st sp t)"
  by (auto simp: quiet_def queue_ops table_update intro: table_irrelevant[of _ t])

lemma quiet_resume [intro]: "quiet s t \<Longrightarrow> quiet s (resume w t)"
  by (erule quiet_trans)
     (auto simp: resume_def quiet_def table_inv_def tab_ok_update tab_ok_map_of
       split: waiter.split loop_pc.split option.split)

lemma quiet_sem_release [intro]: "quiet s t \<Longrightarrow> quiet s (sem_release t)"
  by (auto simp: sem_release_def split: prod.split option.split)

lemma quiet_via: "quiet t u \<Longrightarrow> quiet s t \<Longrightarrow> quiet s u"
  by (rule quiet_trans)

lemma quiet_handleRetry: "handleRetry env k w err t = (x, u) \<Longrightarrow> quiet t u"
  using quiet_refl[of t] by (auto simp: handleRetry_def Let_def split: if_splits hook_answer.splits)

lemma quiet_crash [intro]: "quiet s t \<Longrightarrow> quiet s (settleOnWorkerCrash w e t)"
  by (auto simp: settleOnWorkerCrash_def Let_def)

lemma quiet_catch [intro]: "quiet s t \<Longrightarrow> quiet s (catch_block env k i w e b t)"
  by (auto simp: catch_block_def Let_def dest!: quiet_handleRetry intro: quiet_via split: exn.split prod.split option.split)

lemma quiet_finish [intro]: "quiet s t \<Longrightarrow> quiet s (finish_error env i w e t)"
  by (auto simp: finish_error_def dest!: quiet_handleRetry intro: quiet_via split: prod.split option.split)

lemma quiet_resolve [intro]: "quiet s t \<Longrightarrow> quiet s (resolve_response i w r t)"
  by (auto simp: resolve_response_def)

lemma quiet_rate_update: "emitRateLimitUpdate hs a t = (x, u) \<Longrightarrow> quiet t u"
  using quiet_refl[of t] by (auto simp: emitRateLimitUpdate_def split: if_splits hook_answer.splits)

lemma quiet_worker_step:
  assumes i: "i < s_nextId s"
  shows "quiet s (worker_started i w a s)"
    and "quiet s (worker_fetched env i w out a s)"
    and "quiet s (worker_completed env i w r a s)"
    and "quiet s (worker_body env i w r x s)"
    and "quiet s (worker_error_body dp env i w r j a s)"
    and "quiet s (worker_rate_hook env i w err a s)"
  using i quiet_refl[of s]
  by (auto simp: worker_started_def worker_fetched_def worker_completed_def worker_body_def
      worker_error_body_def worker_rate_hook_def Let_def dest!: quiet_rate_update intro: quiet_via
      split: hook_answer.split sum.split prod.split option.split)

lemma quiet_finally [intro]: "quiet s t \<Longrightarrow> quiet s (stream_finally i t)"
  by (auto simp: stream_finally_def)

lemma quiet_stream_acquire [intro]: "i < s_nextId s \<Longrightarrow> quiet s t \<Longrightarrow> quiet s (stream_acquire i st t)"
  by (auto simp: stream_acquire_def Let_def split: prod.split)

lemma quiet_failed [intro]: "i < s_nextId s \<Longrightarrow> quiet s t \<Longrightarrow> quiet s (connect_failed env i st n e t)"
  by (auto simp: connect_failed_def Let_def split: hook_answer.split)

lemma quiet_connect_catch [intro]: "i < s_nextId s \<Longrightarrow> quiet s t \<Longrightarrow> quiet s (connect_catch env i st n e t)"
  by (auto simp: connect_catch_def split: exn.split)

lemma quiet_stream_step:
  assumes i: "i < s_nextId s"
  shows "quiet s (stream_wake i st u s)" and "quiet s (stream_begin i st s)"
    and "quiet s (stream_started i st a s)" and "quiet s (connect_fetched env i st n out s)"
    and "quiet s (connect_completed dp env i st n r a j s)"
    and "quiet s (connect_error_hooks env i st n err a s)"
    and "quiet s (connect_again i st n u s)" and "quiet s (stream_read i st k inp s)"
  using i quiet_refl[of s]
  by (auto simp: stream_wake_def stream_begin_def stream_started_def connect_fetched_def
      connect_completed_def connect_error_hooks_def connect_again_def stream_read_def Let_def
      split: hook_answer.split sum.split stream_input.split)

section \<open>Steps of the queue and the loop\<close>

lemma queue_ok_quiet: "quiet s t \<Longrightarrow> keeps s t \<Longrightarrow> queue_ok s \<Longrightarrow> queue_ok t"
  using quiet_loop_inv[of s t] keeps_inv[of s t] by (auto simp: queue_ok_def quiet_def)

definition sync_inv :: "system \<Rightarrow> bool" where
  \<comment> \<open>\<open>loop_inv\<close> while an item may already be queued for a loop that is still off.\<close>
  "sync_inv s \<longleftrightarrow>
     (q_running (s_q s) \<longleftrightarrow> s_loop s \<noteq> LoopOff)
     \<and> rq_drainWaiters (q_queue (s_q s)) = (if s_loop s = LoopAwaitItem then 1 else 0)
     \<and> (s_loop s = LoopAwaitItem \<longrightarrow> rq_heap (q_queue (s_q s)) = [])"

lemma loop_inv_sync: "loop_inv s \<Longrightarrow> sync_inv s"
  by (simp add: loop_inv_def sync_inv_def)

lemma loop_wait_inv:
  "q_running (s_q s) \<Longrightarrow> rq_drainWaiters (q_queue (s_q s)) = 0 \<Longrightarrow> loop_inv (loop_wait s)"
  by (auto simp: loop_wait_def waitForItem_def loop_inv_def set_queue_def)

lemma loop_wait_rest:
  "s_workers (loop_wait s) = s_workers s" "s_streams (loop_wait s) = s_streams s"
  "s_nextId (loop_wait s) = s_nextId s" "q_running (s_q (loop_wait s)) = q_running (s_q s)"
  "s_timers (loop_wait s) = s_timers s" "s_now (loop_wait s) = s_now s"
  "queue_inv (q_queue (s_q s)) \<Longrightarrow> queue_inv (q_queue (s_q (loop_wait s)))"
  "s_loop (loop_wait s) \<noteq> LoopOff"
  by (auto simp: loop_wait_def waitForItem_def set_queue_def queue_inv_def)

lemma ensureProcessing_inv: "sync_inv s \<Longrightarrow> loop_inv (ensureProcessing s) \<and> s_loop (ensureProcessing s) \<noteq> LoopOff"
  by (auto simp: ensureProcessing_def loop_wait_rest intro!: loop_wait_inv)
     (auto simp: sync_inv_def loop_inv_def)

lemma ensureProcessing_frame:
  assumes "sync_inv s"
  shows "places (ensureProcessing s) = places s"
    and "loop_entries (s_loop (ensureProcessing s)) = loop_entries (s_loop s)"
    and "s_nextPromise (ensureProcessing s) = s_nextPromise s"
    and "table_inv s \<Longrightarrow> table_inv (ensureProcessing s)"
    and "queue_inv (q_queue (s_q s)) \<Longrightarrow> queue_inv (q_queue (s_q (ensureProcessing s)))"
  using assms
  by (auto simp: ensureProcessing_def sync_inv_def places_def[of "s\<lparr>s_q := _\<rparr>"] places_def[of s]
      table_inv_def loop_wait_rest)

lemma enqueue_request_sync:
  assumes "sync_inv s"
  shows "sync_inv (enqueue_request p req pr est att s)"
    and "loop_inv s \<Longrightarrow> s_loop s \<noteq> LoopOff \<Longrightarrow> loop_inv (enqueue_request p req pr est att s)"
  using assms
  by (auto simp: enqueue_request_def sync_inv_def loop_inv_def queue_ops split: enqueue_result.split
      elim!: enqueue_EnqueuedD)

lemma enqueue_request_rest:
  "table_inv (enqueue_request p req pr est att s) = table_inv s"
  "queue_inv (q_queue (s_q s)) \<Longrightarrow> queue_inv (q_queue (s_q (enqueue_request p req pr est att s)))"
  by (auto simp: enqueue_request_def queue_ops table_inv_def enqueue_inv split: enqueue_result.split)

lemma sync_entries: "sync_inv s \<Longrightarrow> rq_drainWaiters (q_queue (s_q s)) > 0 \<Longrightarrow> loop_entries (s_loop s) = []"
  by (auto simp: sync_inv_def split: if_splits)

lemma mset_remove_nth: "k < length xs \<Longrightarrow> mset xs = add_mset (xs ! k) (mset (take k xs @ drop (Suc k) xs))"
  by (subst id_take_nth_drop) auto

lemma upt_next: "mset [0..<Suc n] = add_mset n (mset [0..<n])"
  by simp

lemma queue_ok_submit:
  assumes ok: "queue_ok s"
  shows "queue_ok (submit req pr est a s)"
proof -
  define s1 where "s1 = emit (OnEnqueue (Suc (length (rq_heap (q_queue (s_q s))))))
    (s\<lparr>s_q := (s_q s)\<lparr>q_peakDepth := max (q_peakDepth (s_q s)) (Suc (length (rq_heap (q_queue (s_q s)))))\<rparr>,
       s_nextPromise := Suc (s_nextPromise s)\<rparr>)"
  have s1: "loop_inv s1" "table_inv s1" "queue_inv (q_queue (s_q s1))" "places s1 = places s"
    "s_loop s1 = s_loop s" "s_nextPromise s1 = Suc (s_nextPromise s)"
    using ok by (simp_all add: s1_def queue_ok_def loop_inv_def table_inv_def places_def emit_def)
  have led: "ledger_inv t" if "places t = add_mset (s_nextPromise s) (places s1)"
    "loop_entries (s_loop t) = loop_entries (s_loop s1)" "s_nextPromise t = s_nextPromise s1" for t
    using ok that s1(4-6) by (simp add: queue_ok_def ledger_inv_def ledger_def)
  define s2 where "s2 = ensureProcessing s1"
  note sy = loop_inv_sync[OF s1(1)]
  note e = ensureProcessing_frame[OF sy, folded s2_def] and i = ensureProcessing_inv[OF sy, folded s2_def]
  note sy2 = loop_inv_sync[OF conjunct1[OF i]]
  note f = enqueue_request_frame[OF sync_entries[OF sy2]]
  have throws: "queue_ok (settle (s_nextPromise s) x s1)" for x
  proof -
    have "ledger_inv (settle (s_nextPromise s) x s1)" by (rule led) simp_all
    then show ?thesis using s1 by (simp add: queue_ok_def loop_inv_def table_inv_def settle_def)
  qed
  have "queue_ok (enqueue_request (s_nextPromise s) req pr est 0 s2)"
    unfolding queue_ok_def
    using enqueue_request_sync(2)[OF sy2] enqueue_request_rest
      e i s1 led[of "enqueue_request (s_nextPromise s) req pr est 0 s2"] f
    by simp
  with throws show ?thesis
    by (cases a) (simp_all add: submit_def Let_def s1_def[symmetric] s2_def)
qed

lemma queue_ok_timer:
  assumes ok: "queue_ok s"
  shows "queue_ok (timer_fires k s)"
proof (cases "k < length (s_timers s) \<and> rt_due (s_timers s ! k) \<le> s_now s")
  case False
  then show ?thesis using ok unfolding timer_fires_def if_not_P[OF False] by simp
next
  case True
  define e where "e = rt_entry (s_timers s ! k)"
  define s1 where "s1 = s\<lparr>s_timers := take k (s_timers s) @ drop (Suc k) (s_timers s)\<rparr>"
  define s2 where "s2 = enqueue_request (qe_promise e) (qe_request e) PRIORITY_RETRY (qe_estimatedTokens e)
                          (qe_attempt e + 1) s1"
  have sy: "sync_inv s1" using ok by (simp add: s1_def queue_ok_def loop_inv_def sync_inv_def)
  have t: "table_inv s1" "queue_inv (q_queue (s_q s1))" "s_loop s1 = s_loop s" "s_nextPromise s1 = s_nextPromise s"
    using ok by (simp_all add: s1_def queue_ok_def table_inv_def)
  have p: "places s = add_mset (qe_promise e) (places s1)"
    using True mset_remove_nth[of k "s_timers s"] by (simp add: places_def s1_def e_def)
  note f = enqueue_request_frame[OF sync_entries[OF sy], of "qe_promise e" "qe_request e" PRIORITY_RETRY
      "qe_estimatedTokens e" "qe_attempt e + 1", folded s2_def]
  have sy2: "sync_inv s2" using enqueue_request_sync(1)[OF sy] by (simp add: s2_def)
  have t2: "table_inv s2" "queue_inv (q_queue (s_q s2))"
    using t by (simp_all add: s2_def enqueue_request_rest)
  note en = ensureProcessing_frame[OF sy2]
  have "queue_ok (ensureProcessing s2)"
    using ensureProcessing_inv[OF sy2] en t2 ok f p t
    by (simp add: queue_ok_def ledger_inv_def ledger_def)
  then show ?thesis using True by (simp add: timer_fires_def Let_def s1_def e_def s2_def)
qed

lemma queue_ok_loop_run:
  assumes ok: "queue_ok s" and l: "s_loop s = LoopReady" and calm: "calm a" "calm b"
  shows "queue_ok (loop_run a b s)"
proof -
  obtain r q gone where d: "dequeue (s_now s) (q_queue (s_q s)) = (r, q, gone)"
    by (cases "dequeue (s_now s) (q_queue (s_q s))")
  have h: "heap_ok (rq_heap (q_queue (s_q s)))" "queue_inv q"
    using ok dequeue_inv[OF _ d] by (simp_all add: queue_ok_def queue_inv_def)
  note sp = dequeue_spec[OF h(1) d]
  define s1 where "s1 = reject_expired (s_now s) gone (set_queue q s)"
  have rej: "s_workers (reject_expired now es t) = s_workers t \<and> s_streams (reject_expired now es t) = s_streams t
      \<and> s_nextId (reject_expired now es t) = s_nextId t" for now es t
    by (induction es arbitrary: t) (simp_all add: settle_def)
  have s1: "q_queue (s_q s1) = q" "q_running (s_q s1)" "table_inv s1" "rq_drainWaiters q = 0"
    using ok l deq_postD(2)[OF sp]
    by (simp_all add: s1_def rej queue_ok_def table_inv_def loop_inv_def set_queue_def)
  have led: "ledger_inv (loop_run a b s)"
    using keeps_inv[OF keeps_loop_run[OF h(1) l calm]] ok by (simp add: queue_ok_def)
  have "loop_inv (loop_run a b s) \<and> table_inv (loop_run a b s) \<and> queue_inv (q_queue (s_q (loop_run a b s)))"
  proof (cases r)
    case None
    then have "loop_run a b s = loop_crash s1" using d by (simp add: loop_run_def s1_def)
    then show ?thesis using None s1 h deq_postD(5)[OF sp None]
      by (simp add: loop_crash_def loop_inv_def table_inv_def)
  next
    case (Some e)
    have give: "loop_inv (loop_give_up b wt e t) \<and> table_inv (loop_give_up b wt e t)
        \<and> queue_inv (q_queue (s_q (loop_give_up b wt e t)))"
      if "q_queue (s_q t) = q" "q_running (s_q t)" "table_inv t" for t wt
      using that calm s1 h
      by (cases b) (auto simp: loop_give_up_def table_inv_def loop_wait_rest queue_ops intro!: loop_wait_inv)
    have acq: "loop_inv (loop_acquire e t) \<and> table_inv (loop_acquire e t)
        \<and> queue_inv (q_queue (s_q (loop_acquire e t)))"
      if "q_queue (s_q t) = q" "q_running (s_q t)" "table_inv t" for t
      using that s1 h
      by (auto simp: loop_acquire_def loop_inv_def table_inv_def queue_ops Let_def split: prod.split)
    define s2 where "s2 = emit OnDequeue s1"
    have s2: "q_queue (s_q (set_limiter lm s2)) = q" "q_running (s_q (set_limiter lm s2))"
      "table_inv (set_limiter lm s2)" for lm
      using s1 by (simp_all add: s2_def queue_ops table_inv_def)
    have sl: "loop_inv (t\<lparr>s_loop := LoopSleep e u\<rparr>) \<and> table_inv (t\<lparr>s_loop := LoopSleep e u\<rparr>)"
      if "q_queue (s_q t) = q" "q_running (s_q t)" "table_inv t" for t u
      using that s1 by (simp add: loop_inv_def table_inv_def)
    have eq: "loop_run a b s =
      (case waitTimeMs (s_now s) (qe_estimatedTokens e) (q_limiter (s_q s2)) of (w, lm) \<Rightarrow>
         (case w of
            Fin wait \<Rightarrow>
              if wait > 0 then
                if s_now s + wait > qe_deadline e then loop_give_up b w e (set_limiter lm s2)
                else (set_limiter lm s2)\<lparr>s_loop := LoopSleep e (s_now s + wait)\<rparr>
              else loop_acquire e (set_limiter lm s2)
          | PosInf \<Rightarrow> loop_give_up b w e (set_limiter lm s2)
          | _ \<Rightarrow> loop_acquire e (set_limiter lm s2)))"
      unfolding s2_def s1_def using d Some calm by (cases a) (simp_all add: loop_run_def Let_def)
    show ?thesis
      unfolding eq using give[OF s2] acq[OF s2] sl[OF s2] s2(1) h(2)
      by (simp split: prod.split jsnum.split)
  qed
  with led show ?thesis by (simp add: queue_ok_def)
qed

lemma queue_ok_loop:
  assumes ok: "queue_ok s"
  shows "queue_ok (loop_wake s)" and "queue_ok (loop_go s)"
proof -
  show "queue_ok (loop_wake s)"
    using ok keeps_inv[OF keeps_loop_wake[of s]]
    by (auto simp: queue_ok_def loop_wake_def loop_acquire_def loop_inv_def table_inv_def queue_ops Let_def
        split: loop_pc.split prod.split)
  show "queue_ok (loop_go s)"
  proof (cases "\<exists>e. s_loop s = LoopGranted e")
    case True
    then obtain e where e: "s_loop s = LoopGranted e" ..
    define t where "t = emit (OnRequestStart (qe_attempt e) False)
      (s\<lparr>s_workers := (s_nextId s, \<lparr> wk_entry = e, wk_start = s_now s, wk_phase = WStarting \<rparr>) # s_workers s,
         s_nextId := s_nextId s + 1\<rparr>)"
    have t: "loop_go s = loop_wait t" using e by (simp add: loop_go_def t_def)
    have tt: "q_queue (s_q t) = q_queue (s_q s)" "tab_ok (s_nextId t) (s_workers t)"
      "tab_ok (s_nextId t) (s_streams t)"
      using ok by (simp_all add: t_def emit_def queue_ok_def table_inv_def tab_ok_Cons tab_ok_Suc)
    have "loop_inv (loop_wait t)"
      using ok e by (intro loop_wait_inv) (simp_all add: t_def emit_def queue_ok_def loop_inv_def)
    then show ?thesis
      using ok keeps_inv[OF keeps_loop_go[of s]]
      by (simp add: queue_ok_def t loop_wait_rest table_inv_def tt)
  next
    case False
    then show ?thesis using ok by (auto simp: loop_go_def split: loop_pc.split)
  qed
qed

lemma queue_ok_open:
  assumes ok: "queue_ok s"
  shows "queue_ok (stream_open req est s)"
proof -
  have acq: "loop_inv (stream_acquire i st t) \<and> table_inv (stream_acquire i st t)
      \<and> q_queue (s_q (stream_acquire i st t)) = q_queue (s_q t)"
    if "i < s_nextId t" "loop_inv t" "table_inv t" for i st t
  proof -
    have q: "quiet t (stream_acquire i st t)" using that(1) quiet_refl by blast
    then show ?thesis using quiet_loop_inv[OF q] that by (auto simp: quiet_def)
  qed
  have tab: "tab_ok (Suc (s_nextId s)) ((s_nextId s, v) # s_streams s)" "tab_ok (Suc (s_nextId s)) (s_workers s)" for v
    using ok by (simp_all add: queue_ok_def table_inv_def tab_ok_Cons tab_ok_Suc)
  have q: "loop_inv s" "queue_inv (q_queue (s_q s))" using ok by (simp_all add: queue_ok_def)
  have base: "loop_inv t \<and> table_inv t \<and> q_queue (s_q t) = q_queue (s_q s)"
    if "t = (set_limiter lm s)\<lparr>s_nextId := Suc (s_nextId s), s_streams := (s_nextId s, v) # s_streams s\<rparr>" for t lm v
    using q tab that by (simp add: loop_inv_def table_inv_def set_limiter_def)
  have "loop_inv (stream_open req est s) \<and> table_inv (stream_open req est s)
      \<and> q_queue (s_q (stream_open req est s)) = q_queue (s_q s)"
    using base[OF refl] acq[OF _ conjunct1[OF base[OF refl]] conjunct1[OF conjunct2[OF base[OF refl]]]]
    by (auto simp: stream_open_def Let_def set_limiter_def split: prod.split jsnum.split)
  then show ?thesis using keeps_inv[OF keeps_stream_open] ok q by (simp add: queue_ok_def)
qed

lemma on_worker_inv:
  assumes "P s" "\<And>w t. map_of (s_workers s) i = Some w \<Longrightarrow> f w = Some t \<Longrightarrow> P t"
  shows "P (on_worker i f s)"
  using assms by (auto simp: on_worker_def split: option.split)

lemma on_stream_inv:
  assumes "P s" "\<And>st t. map_of (s_streams s) i = Some st \<Longrightarrow> f st = Some t \<Longrightarrow> P t"
  shows "P (on_stream i f s)"
  using assms by (auto simp: on_stream_def split: option.split)

lemma queue_ok_worker:
  assumes ok: "queue_ok s" and m: "map_of (s_workers s) i = Some w"
  shows "queue_ok (worker_started i w a s)" "queue_ok (worker_fetched env i w out a s)"
    "queue_ok (worker_completed env i w r a s)" "queue_ok (worker_body env i w r x s)"
    "queue_ok (worker_error_body dp env i w r j a s)" "queue_ok (worker_rate_hook env i w err a s)"
proof -
  have d: "distinct (map fst (s_workers s))" "i < s_nextId s"
    using ok m by (auto simp: queue_ok_def table_inv_def dest: tab_ok_distinct tab_ok_map_of)
  show "queue_ok (worker_started i w a s)" "queue_ok (worker_fetched env i w out a s)"
    "queue_ok (worker_completed env i w r a s)" "queue_ok (worker_body env i w r x s)"
    "queue_ok (worker_error_body dp env i w r j a s)" "queue_ok (worker_rate_hook env i w err a s)"
    by (rule queue_ok_quiet[OF quiet_worker_step(1)[OF d(2)] keeps_worker_step(1)[OF d(1) m] ok]
        queue_ok_quiet[OF quiet_worker_step(2)[OF d(2)] keeps_worker_step(2)[OF d(1) m] ok]
        queue_ok_quiet[OF quiet_worker_step(3)[OF d(2)] keeps_worker_step(3)[OF d(1) m] ok]
        queue_ok_quiet[OF quiet_worker_step(4)[OF d(2)] keeps_worker_step(4)[OF d(1) m] ok]
        queue_ok_quiet[OF quiet_worker_step(5)[OF d(2)] keeps_worker_step(5)[OF d(1) m] ok]
        queue_ok_quiet[OF quiet_worker_step(6)[OF d(2)] keeps_worker_step(6)[OF d(1) m] ok])+
qed

lemma queue_ok_stream:
  assumes ok: "queue_ok s" and m: "map_of (s_streams s) i = Some st"
  shows "queue_ok (stream_wake i st u s)" "queue_ok (stream_begin i st s)" "queue_ok (stream_started i st a s)"
    "queue_ok (connect_fetched env i st n out s)" "queue_ok (connect_completed dp env i st n r a j s)"
    "queue_ok (connect_error_hooks env i st n err a s)" "queue_ok (connect_again i st n u s)"
    "queue_ok (stream_read i st k inp s)"
proof -
  have i: "i < s_nextId s" using ok m by (auto simp: queue_ok_def table_inv_def dest: tab_ok_map_of)
  note q = quiet_stream_step[OF i]
  show "queue_ok (stream_wake i st u s)" "queue_ok (stream_begin i st s)" "queue_ok (stream_started i st a s)"
    "queue_ok (connect_fetched env i st n out s)" "queue_ok (connect_completed dp env i st n r a j s)"
    "queue_ok (connect_error_hooks env i st n err a s)" "queue_ok (connect_again i st n u s)"
    "queue_ok (stream_read i st k inp s)"
    using ok by (auto intro: queue_ok_quiet q keeps_stream_step)
qed

lemma queue_ok_tick: "queue_ok s \<Longrightarrow> queue_ok (s\<lparr>s_now := n\<rparr>)"
  by (simp add: queue_ok_def loop_inv_def table_inv_def ledger_inv_def ledger_def places_def)

text \<open>The invariant of every reachable state.\<close>

lemma queue_ok_step: "queue_ok s \<Longrightarrow> loop_calm e \<Longrightarrow> queue_ok (step dp e s)"
proof (induction e)
qed (auto simp: queue_ok_tick queue_ok_submit queue_ok_loop_run queue_ok_loop queue_ok_timer queue_ok_open
       queue_ok_worker queue_ok_stream split: if_splits worker_phase.splits stream_phase.splits
       intro!: on_worker_inv[where P = queue_ok] on_stream_inv[where P = queue_ok])

end
