(* ===== verification/QueueSlots.thy ===== *)
theory QueueSlots
  imports QueueInvariant
begin

text \<open>
  The concurrency slots of a queue. A slot is held by every executing request, by the process loop
  between its acquisition and the start of the request, and by every stream past its acquisition.
  \<open>slack\<close> is the difference between the semaphore's count and those holders. It is zero in every
  state that is reached while no \<open>onRetry\<close> or stream-start subscriber throws, so the number of
  requests and streams in flight never exceeds the configured concurrency.
\<close>

fun loop_slot :: "loop_pc \<Rightarrow> int" where
  "loop_slot (LoopGranted e) = 1"
| "loop_slot _ = 0"

fun loop_waits :: "loop_pc \<Rightarrow> waiter multiset" where
  "loop_waits (LoopAcquire e) = {#LoopWaiter#}"
| "loop_waits _ = {#}"

definition holds_slot :: "stream \<Rightarrow> bool" where
  "holds_slot st = (case st_phase st of STSleep t \<Rightarrow> False | STAcquire \<Rightarrow> False | _ \<Rightarrow> True)"

definition stream_slots :: "(nat \<times> stream) multiset \<Rightarrow> int" where
  "stream_slots m = int (size (filter_mset (\<lambda>p. holds_slot (snd p)) m))"

definition stream_waits :: "(nat \<times> stream) multiset \<Rightarrow> waiter multiset" where
  "stream_waits m = image_mset (\<lambda>p. StreamWaiter (fst p)) (filter_mset (\<lambda>p. st_phase (snd p) = STAcquire) m)"

definition holders :: "system \<Rightarrow> int" where
  "holders s = int (length (s_workers s)) + loop_slot (s_loop s) + stream_slots (mset (s_streams s))"

definition slack :: "system \<Rightarrow> int" where
  "slack s = sm_current (q_sem (s_q s)) - holders s"

text \<open>Exactly the coroutines suspended in \<open>acquire\<close> are in the semaphore's waiting list.\<close>

definition waits_ok :: "system \<Rightarrow> bool" where
  "waits_ok s \<longleftrightarrow> mset (sm_waiters (q_sem (s_q s))) = loop_waits (s_loop s) + stream_waits (mset (s_streams s))"

definition slots_at :: "int \<Rightarrow> system \<Rightarrow> bool" where
  "slots_at k s \<longleftrightarrow> slack s = k \<and> waits_ok s \<and> sem_inv (q_sem (s_q s)) \<and> table_inv s"

lemma stream_slots_simps [simp]:
  "stream_slots {#} = 0"
  "stream_slots (add_mset p m) = (if holds_slot (snd p) then 1 else 0) + stream_slots m"
  by (simp_all add: stream_slots_def)

lemma stream_waits_simps [simp]:
  "stream_waits {#} = {#}"
  "stream_waits (add_mset p m) =
     (if st_phase (snd p) = STAcquire then add_mset (StreamWaiter (fst p)) (stream_waits m) else stream_waits m)"
  by (simp_all add: stream_waits_def)

lemma loop_waiter_iff: "waits_ok s \<Longrightarrow> LoopWaiter \<in> set (sm_waiters (q_sem (s_q s))) \<longleftrightarrow> (\<exists>e. s_loop s = LoopAcquire e)"
proof -
  assume "waits_ok s"
  then have "LoopWaiter \<in># mset (sm_waiters (q_sem (s_q s)))
     \<longleftrightarrow> LoopWaiter \<in># loop_waits (s_loop s) + stream_waits (mset (s_streams s))"
    by (simp only: waits_ok_def)
  also have "\<dots> \<longleftrightarrow> (\<exists>e. s_loop s = LoopAcquire e)"
    by (cases "s_loop s") (auto simp: stream_waits_def)
  finally show ?thesis by simp
qed

lemma stream_waiter_dest:
  assumes "waits_ok s" "table_inv s" "StreamWaiter i \<in> set (sm_waiters (q_sem (s_q s)))"
  obtains st :: stream where "map_of (s_streams s) i = Some st" "st_phase st = STAcquire"
proof -
  have "StreamWaiter i \<in># loop_waits (s_loop s) + stream_waits (mset (s_streams s))"
    using assms(1,3) by (metis set_mset_mset waits_ok_def)
  then obtain st where "(i, st) \<in> set (s_streams s)" "st_phase st = STAcquire"
    by (cases "s_loop s") (auto simp: stream_waits_def)
  with assms(2) that show thesis by (auto simp: table_inv_def dest: tab_ok_distinct map_of_is_SomeI)
qed

section \<open>Effect of the shared operations on the slots\<close>

lemma slots_ops [intro]:
  "slots_at k s \<Longrightarrow> slots_at k (emit h s)" "slots_at k s \<Longrightarrow> slots_at k (settle p x s)"
  "slots_at k s \<Longrightarrow> slots_at k (set_limiter l s)" "slots_at k s \<Longrightarrow> slots_at k (count_processed s)"
  "slots_at k s \<Longrightarrow> slots_at k (s\<lparr>s_timers := ts\<rparr>)" "slots_at k s \<Longrightarrow> slots_at k (set_queue q s)"
  "slots_at k s \<Longrightarrow> slots_at k (s\<lparr>s_now := t\<rparr>)" "slots_at k s \<Longrightarrow> slots_at k (s\<lparr>s_nextPromise := n\<rparr>)"
  by (simp_all add: slots_at_def slack_def holders_def waits_ok_def table_inv_def queue_ops)

lemma slots_loop:
  "slots_at k s \<Longrightarrow> loop_slot pc = loop_slot (s_loop s) \<Longrightarrow> loop_waits pc = loop_waits (s_loop s) \<Longrightarrow>
   slots_at k (s\<lparr>s_loop := pc\<rparr>)"
  by (simp add: slots_at_def slack_def holders_def waits_ok_def table_inv_def)

lemma slots_release [intro]:
  assumes s: "slots_at (k + 1) s"
  shows "slots_at k (sem_release s)"
proof (cases "release (q_sem (s_q s))")
  case (Pair r m)
  note okm = sem.rel_ok[OF _ Pair]
  show ?thesis
  proof (cases r)
    case None
    then show ?thesis
      using s okm sem.rel_none[of "q_sem (s_q s)" m] Pair
      by (auto simp: sem_release_def slots_at_def slack_def holders_def waits_ok_def table_inv_def set_sem_def)
  next
    case (Some w)
    then have m: "sm_current m = sm_current (q_sem (s_q s))" "sm_waiters (q_sem (s_q s)) = w # sm_waiters m"
      using sem.rel_some[of "q_sem (s_q s)" w m] Pair by auto
    show ?thesis
    proof (cases w)
      case LoopWaiter
      then obtain e where "s_loop s = LoopAcquire e"
        using loop_waiter_iff[of s] s m(2) by (auto simp: slots_at_def)
      then show ?thesis
        using s okm m Some Pair LoopWaiter
        by (auto simp: sem_release_def slots_at_def slack_def holders_def waits_ok_def table_inv_def
            set_sem_def resume_def)
    next
      case (StreamWaiter i)
      then obtain st :: stream where st: "map_of (s_streams s) i = Some st" "st_phase st = STAcquire"
        using stream_waiter_dest[of s i] s m(2) by (auto simp: slots_at_def)
      have d: "distinct (map fst (s_streams s))" "i < s_nextId s"
        using s st by (auto simp: slots_at_def table_inv_def dest: tab_ok_distinct tab_ok_map_of)
      show ?thesis
        using s okm m Some Pair StreamWaiter st d
        by (auto simp: sem_release_def slots_at_def slack_def holders_def waits_ok_def table_inv_def
            set_sem_def resume_def delete_mset[OF d(1) st(1)] update_mset[OF d(1) st(1)] holds_slot_def
            tab_ok_update)
    qed
  qed
qed

lemma slots_drop_worker:
  "slots_at k s \<Longrightarrow> map_of (s_workers s) i = Some w \<Longrightarrow> slots_at (k + 1) (drop_worker i s)"
  using arg_cong[OF delete_mset[of "s_workers s" i w], of size]
  by (auto simp: slots_at_def slack_def holders_def waits_ok_def table_inv_def drop_worker_def tab_ok_delete
      dest: tab_ok_distinct)

lemma slots_phase:
  "slots_at k s \<Longrightarrow> map_of (s_workers s) i = Some w \<Longrightarrow> slots_at k (set_phase i w ph s)"
  using arg_cong[OF delete_mset[of "s_workers s" i w], of size]
    arg_cong[OF update_mset[of "s_workers s" i w "w\<lparr>wk_phase := ph\<rparr>"], of size]
  by (auto simp: slots_at_def slack_def holders_def waits_ok_def table_inv_def set_phase_def tab_ok_update
      tab_ok_map_of dest: tab_ok_distinct)

lemma slots_drop_stream:
  "slots_at k s \<Longrightarrow> map_of (s_streams s) i = Some st \<Longrightarrow> holds_slot st \<Longrightarrow> slots_at (k + 1) (drop_stream i s)"
  using delete_mset[of "s_streams s" i st]
  by (auto simp: slots_at_def slack_def holders_def waits_ok_def table_inv_def drop_stream_def tab_ok_delete
      holds_slot_def split: stream_phase.splits dest: tab_ok_distinct)

lemma slots_stream:
  "slots_at k s \<Longrightarrow> map_of (s_streams s) i = Some st0 \<Longrightarrow> holds_slot st0 = holds_slot (st\<lparr>st_phase := ph\<rparr>) \<Longrightarrow>
   (st_phase st0 = STAcquire) = (ph = STAcquire) \<Longrightarrow> slots_at k (set_stream i st ph s)"
  using delete_mset[of "s_streams s" i st0] update_mset[of "s_streams s" i st0 "st\<lparr>st_phase := ph\<rparr>"]
  by (auto simp: slots_at_def slack_def holders_def waits_ok_def table_inv_def set_stream_def tab_ok_update
      tab_ok_map_of dest: tab_ok_distinct)

section \<open>Steps of a request\<close>

lemma slots_rate_update: "emitRateLimitUpdate hs a s = (x, u) \<Longrightarrow>
    (slots_at k s \<longrightarrow> slots_at k u) \<and> s_workers u = s_workers s \<and> s_streams u = s_streams s"
  by (auto simp: emitRateLimitUpdate_def split: if_splits hook_answer.splits) (simp_all add: emit_def)

lemma slots_handleRetry:
  "calm_retry env \<Longrightarrow> slots_at k s \<Longrightarrow> \<exists>u. handleRetry env n w err s = (None, u) \<and> slots_at k u"
  by (auto simp: handleRetry_def Let_def calm_retry_def split: hook_answer.split elim: allE[of _ n])

lemma slots_ending:
  assumes s: "slots_at 0 s" and m: "map_of (s_workers s) i = Some w"
  shows "slots_at 0 (sem_release (drop_worker i s))"
    and "slots_at 0 (settleOnWorkerCrash w' e (drop_worker i s))"
    and "slots_at 0 (resolve_response i w' r s)"
    and "calm_retry env \<Longrightarrow> slots_at 0 (catch_block env n i w' e b s)"
    and "calm_retry env \<Longrightarrow> slots_at 0 (finish_error env i w' err s)"
proof -
  have r: "slots_at 0 (sem_release (drop_worker i s))"
    using slots_drop_worker[OF s m] by (rule slots_release)
  then show "slots_at 0 (sem_release (drop_worker i s))" .
  show "slots_at 0 (settleOnWorkerCrash w' e (drop_worker i s))" "slots_at 0 (resolve_response i w' r s)"
    using r by (auto simp: settleOnWorkerCrash_def resolve_response_def Let_def)
  have h: "\<exists>u. handleRetry env n w' err (sem_release (drop_worker i s)) = (None, u) \<and> slots_at 0 u"
    if "calm_retry env" for n err
    using that r by (rule slots_handleRetry)
  show "slots_at 0 (finish_error env i w' err s)" if "calm_retry env"
    using h[OF that, of 0 err] by (auto simp: finish_error_def)
  show "slots_at 0 (catch_block env n i w' e b s)" if "calm_retry env"
    using r h[OF that, of n "transport_error w' e"] h[OF that, of n "case e of ExLLM err \<Rightarrow> err"]
    by (cases e) (auto simp: catch_block_def Let_def)
qed

lemma slots_worker_step:
  assumes s: "slots_at 0 s" and m: "map_of (s_workers s) i = Some w"
  shows "slots_at 0 (worker_started i w a s)"
    and "calm_retry env \<Longrightarrow> slots_at 0 (worker_fetched env i w out a s)"
    and "calm_retry env \<Longrightarrow> slots_at 0 (worker_completed env i w r a s)"
    and "calm_retry env \<Longrightarrow> slots_at 0 (worker_body env i w r x s)"
    and "calm_retry env \<Longrightarrow> slots_at 0 (worker_error_body dp env i w r j a s)"
    and "calm_retry env \<Longrightarrow> slots_at 0 (worker_rate_hook env i w err a s)"
proof -
  have ph: "slots_at 0 (set_phase i w ph t)" if "slots_at 0 t" "s_workers t = s_workers s" for t ph
    using that m by (auto intro: slots_phase)
  have en: "slots_at 0 (settle p y (sem_release (drop_worker i t)))" "slots_at 0 (resolve_response i w r' t)"
      "slots_at 0 (settleOnWorkerCrash w ex (drop_worker i t))"
      "calm_retry env \<Longrightarrow> slots_at 0 (catch_block env 0 i w ex b t)"
      "calm_retry env \<Longrightarrow> slots_at 0 (finish_error env i w er t)"
    if "slots_at 0 t" "s_workers t = s_workers s" for t p y r' ex b er
    using slots_ending[of t i w] that m by auto
  note em = slots_rate_update[where k = 0]
  show "slots_at 0 (worker_started i w a s)"
    using s m by (auto simp: worker_started_def split: hook_answer.split intro!: ph en)
  show "slots_at 0 (worker_fetched env i w out a s)" if "calm_retry env"
    using s m that
    by (auto simp: worker_fetched_def Let_def split: sum.split prod.split option.split
        intro!: ph en dest!: em)
  show "slots_at 0 (worker_completed env i w r a s)" if "calm_retry env"
    using s m that by (auto simp: worker_completed_def Let_def split: hook_answer.split intro!: ph en)
  show "slots_at 0 (worker_body env i w r x s)" if "calm_retry env"
    using s m that by (auto simp: worker_body_def split: option.split intro!: ph en)
  show "slots_at 0 (worker_error_body dp env i w r j a s)" if "calm_retry env"
    using s m that
    by (auto simp: worker_error_body_def Let_def split: prod.split option.split
        intro!: ph en dest!: em)
  show "slots_at 0 (worker_rate_hook env i w err a s)" if "calm_retry env"
    using s m that by (auto simp: worker_rate_hook_def split: hook_answer.split intro!: ph en)
qed

section \<open>Steps of a stream\<close>

lemma slots_finally:
  assumes "slots_at 0 s" "map_of (s_streams s) i = Some st" "holds_slot st"
  shows "slots_at 0 (stream_finally i s)"
  using slots_release[of 0] slots_drop_stream[OF assms] by (simp add: stream_finally_def)

lemma slots_acquire_stream:
  assumes s: "slots_at 0 s" and m: "map_of (s_streams s) i = Some st0" and ph: "st_phase st0 = STSleep t"
  shows "slots_at 0 (stream_acquire i st s)"
proof -
  define s1 where "s1 = set_limiter (snd (canProceed (s_now s) (st_estimate st) (q_limiter (s_q s)))) s"
  have s1: "slots_at 0 s1" "s_streams s1 = s_streams s" "s_nextId s1 = s_nextId s"
    using s by (auto simp: s1_def) (simp_all add: set_limiter_def)
  obtain g mm where a: "acquire (StreamWaiter i) (q_sem (s_q s1)) = (g, mm)" by force
  have d: "distinct (map fst (s_streams s))" "i < s_nextId s"
    using s m by (auto simp: slots_at_def table_inv_def dest: tab_ok_distinct tab_ok_map_of)
  note um = update_mset[OF d(1) m] delete_mset[OF d(1) m]
  have "slots_at 0 (set_stream i st (if g then STGranted else STAcquire) (set_sem mm s1))"
  proof (cases g)
    case True
    then show ?thesis
      using s1 sem.acq_granted[of "StreamWaiter i" "q_sem (s_q s1)" mm] a sem.acq_ok[OF _ a] ph d
      by (simp add: slots_at_def slack_def holders_def waits_ok_def table_inv_def set_stream_def set_sem_def
          um holds_slot_def tab_ok_update)
  next
    case False
    then show ?thesis
      using s1 sem.acq_queued[of "StreamWaiter i" "q_sem (s_q s1)" mm] a sem.acq_ok[OF _ a] ph d
      by (simp add: slots_at_def slack_def holders_def waits_ok_def table_inv_def set_stream_def set_sem_def
          um holds_slot_def tab_ok_update)
  qed
  then show ?thesis using a by (simp add: stream_acquire_def Let_def s1_def)
qed

lemma slots_connect:
  assumes s: "slots_at 0 s" and m: "map_of (s_streams s) i = Some st0" and h: "holds_slot st0"
  shows "slots_at 0 (connect_failed env i st n e s)" and "slots_at 0 (connect_catch env i st n ex s)"
proof -
  have st: "slots_at 0 (set_stream i st' ph t)"
    if "slots_at 0 t" "s_streams t = s_streams s" "holds_slot (st'\<lparr>st_phase := ph\<rparr>)" "ph \<noteq> STAcquire" for t st' ph
    using slots_stream[of 0 t i st0 ph st'] m h that
    by (auto simp: holds_slot_def split: stream_phase.splits)
  have fin: "slots_at 0 (stream_finally i t)" if "slots_at 0 t" "s_streams t = s_streams s" for t
    using slots_finally[OF that(1) _ h, of i] m that(2) by simp
  have em: "s_streams (emit hk t) = s_streams t" for hk t by (simp add: emit_def)
  show f: "slots_at 0 (connect_failed env i st n e s)" for e
    using s by (auto simp: connect_failed_def Let_def em holds_slot_def split: hook_answer.split intro!: st fin)
  show "slots_at 0 (connect_catch env i st n ex s)"
    using s f by (auto simp: connect_catch_def split: exn.split intro!: fin)
qed

lemma release_keeps_holder:
  assumes "waits_ok s" "table_inv s" "map_of (s_streams s) i = Some st" "holds_slot st"
  shows "map_of (s_streams (sem_release s)) i = Some st"
proof (cases "release (q_sem (s_q s))")
  case (Pair r mm)
  have "i \<noteq> j" if "r = Some (StreamWaiter j)" for j
  proof -
    have "StreamWaiter j \<in> set (sm_waiters (q_sem (s_q s)))"
      using sem.rel_some[of "q_sem (s_q s)" "StreamWaiter j" mm] Pair that by simp
    then obtain st' :: stream where "map_of (s_streams s) j = Some st'" "st_phase st' = STAcquire"
      using stream_waiter_dest[OF assms(1,2)] by blast
    then show ?thesis using assms(3,4) by (auto simp: holds_slot_def)
  qed
  then show ?thesis
    using Pair assms(3)
    by (auto simp: sem_release_def resume_def set_sem_def update_conv'
        split: option.split waiter.split loop_pc.split)
qed

lemma slots_stream_step:
  assumes s: "slots_at 0 s" and m: "map_of (s_streams s) i = Some st"
  shows "st_phase st = STSleep t \<Longrightarrow> slots_at 0 (stream_wake i st t s)"
    and "holds_slot st \<Longrightarrow> slots_at 0 (stream_begin i st s)"
    and "holds_slot st \<Longrightarrow> calm a \<Longrightarrow> slots_at 0 (stream_started i st a s)"
    and "holds_slot st \<Longrightarrow> slots_at 0 (connect_fetched env i st n out s)"
    and "holds_slot st \<Longrightarrow> slots_at 0 (connect_completed dp env i st n r a j s)"
    and "holds_slot st \<Longrightarrow> slots_at 0 (connect_error_hooks env i st n err a s)"
    and "holds_slot st \<Longrightarrow> slots_at 0 (connect_again i st n u s)"
    and "holds_slot st \<Longrightarrow> slots_at 0 (stream_read i st k inp s)"
proof -
  have fr: "s_streams (emit hk t) = s_streams t" "s_streams (set_limiter l t) = s_streams t"
    "s_streams (count_processed t) = s_streams t" for hk l t by (simp_all add: queue_ops)
  have ss: "slots_at 0 (set_stream i st' ph t)"
    if "holds_slot st" "slots_at 0 t" "s_streams t = s_streams s" "holds_slot (st'\<lparr>st_phase := ph\<rparr>)" "ph \<noteq> STAcquire"
    for t st' ph
    using slots_stream[of 0 t i st ph st'] m that
    by (auto simp: holds_slot_def split: stream_phase.splits)
  have fin: "slots_at 0 (stream_finally i t)" if "holds_slot st" "slots_at 0 t" "s_streams t = s_streams s" for t
    using slots_finally[OF that(2) _ that(1), of i] m that(3) by simp
  have cc: "slots_at 0 (connect_failed env i st n e t)" "slots_at 0 (connect_catch env i st n ex t)"
    if "holds_slot st" "slots_at 0 t" "s_streams t = s_streams s" for t n e ex
    using slots_connect[OF that(2) _ that(1), of i] m that(3) by simp_all
  show "slots_at 0 (stream_wake i st t s)" if "st_phase st = STSleep t"
    using s slots_acquire_stream[OF s m that] by (simp add: stream_wake_def)
  show "slots_at 0 (stream_begin i st s)" if "holds_slot st"
    using s that by (auto simp: stream_begin_def fr holds_slot_def intro!: ss)
  have ab: "slots_at 0 (drop_stream i (sem_release s))" if "holds_slot st"
    using slots_drop_stream[OF slots_release[of "-1"] release_keeps_holder[OF _ _ m that] that] s
    by (simp add: slots_at_def)
  show "slots_at 0 (stream_started i st a s)" if "holds_slot st" "calm a"
    using s that fin by (cases a) (auto simp: stream_started_def ab holds_slot_def intro!: ss)
  show "slots_at 0 (connect_fetched env i st n out s)" if "holds_slot st"
    using s that by (auto simp: connect_fetched_def fr holds_slot_def Let_def split: sum.split intro!: ss cc)
  show "slots_at 0 (connect_completed dp env i st n r a j s)" if "holds_slot st"
    using s that
    by (auto simp: connect_completed_def fr holds_slot_def Let_def split: hook_answer.split intro!: ss cc fin)
  show "slots_at 0 (connect_error_hooks env i st n err a s)" if "holds_slot st"
    using s that by (auto simp: connect_error_hooks_def fr split: hook_answer.split intro!: cc)
  show "slots_at 0 (connect_again i st n u s)" if "holds_slot st"
    using s that by (auto simp: connect_again_def fr holds_slot_def intro!: ss)
  show "slots_at 0 (stream_read i st k inp s)" if "holds_slot st"
    using s that
    by (auto simp: stream_read_def fr holds_slot_def Let_def split: stream_input.split hook_answer.split intro!: ss fin)
qed

section \<open>Steps of the loop\<close>

lemma slots_loop_wait_ready: "slots_at k (s\<lparr>s_loop := LoopReady\<rparr>) \<Longrightarrow> slots_at k (loop_wait s)"
  by (simp add: loop_wait_def waitForItem_def set_queue_def slots_at_def slack_def holders_def waits_ok_def
      table_inv_def)

lemma slots_loop_wait: "slots_at k s \<Longrightarrow> loop_slot (s_loop s) = 0 \<Longrightarrow> loop_waits (s_loop s) = {#} \<Longrightarrow> slots_at k (loop_wait s)"
  by (auto intro!: slots_loop_wait_ready slots_loop)

lemma slots_enqueue:
  assumes "slots_at k s" "sync_inv s"
  shows "slots_at k (enqueue_request p req pr est att s)"
  using assms
  by (auto simp: enqueue_request_def sync_inv_def split: enqueue_result.split if_splits
      elim!: enqueue_EnqueuedD intro!: slots_loop)

lemma slots_ensure: "slots_at k s \<Longrightarrow> sync_inv s \<Longrightarrow> slots_at k (ensureProcessing s)"
  by (auto simp: ensureProcessing_def sync_inv_def intro!: slots_loop_wait)
     (auto simp: slots_at_def slack_def holders_def waits_ok_def table_inv_def)

lemma slots_submit:
  assumes s: "slots_at 0 s" and ok: "queue_ok s"
  shows "slots_at 0 (submit req pr est a s)"
proof -
  define s1 where "s1 = emit (OnEnqueue (Suc (length (rq_heap (q_queue (s_q s))))))
    (s\<lparr>s_q := (s_q s)\<lparr>q_peakDepth := max (q_peakDepth (s_q s)) (Suc (length (rq_heap (q_queue (s_q s)))))\<rparr>,
       s_nextPromise := Suc (s_nextPromise s)\<rparr>)"
  have s1: "slots_at 0 s1" "loop_inv s1"
    using s ok by (simp_all add: s1_def slots_at_def slack_def holders_def waits_ok_def table_inv_def emit_def
        queue_ok_def loop_inv_def)
  note sy = loop_inv_sync[OF s1(2)]
  have "slots_at 0 (enqueue_request (s_nextPromise s) req pr est 0 (ensureProcessing s1))"
    using slots_enqueue[OF slots_ensure[OF s1(1) sy]] ensureProcessing_inv[OF sy] loop_inv_sync by blast
  then show ?thesis using s1 by (cases a) (auto simp: submit_def Let_def s1_def)
qed

lemma slots_timer:
  assumes s: "slots_at 0 s" and ok: "queue_ok s"
  shows "slots_at 0 (timer_fires k s)"
proof -
  have "slots_at 0 (s\<lparr>s_timers := ts\<rparr>)" "sync_inv (s\<lparr>s_timers := ts\<rparr>)" for ts
    using s ok by (auto simp: queue_ok_def loop_inv_def sync_inv_def)
  then show ?thesis
    using s by (auto simp: timer_fires_def Let_def intro!: slots_ensure slots_enqueue enqueue_request_sync(1))
qed

lemma slots_loop_acquire:
  assumes s: "slots_at 0 s" and l: "loop_slot (s_loop s) = 0" "loop_waits (s_loop s) = {#}"
  shows "slots_at 0 (loop_acquire e s)"
proof -
  define s1 where "s1 = set_limiter (snd (canProceed (s_now s) (qe_estimatedTokens e) (q_limiter (s_q s)))) s"
  have s1: "slots_at 0 s1" "s_loop s1 = s_loop s" using s by (auto simp: s1_def)
  obtain g mm where a: "acquire LoopWaiter (q_sem (s_q s1)) = (g, mm)" by force
  have "slots_at 0 ((set_sem mm s1)\<lparr>s_loop := (if g then LoopGranted e else LoopAcquire e)\<rparr>)"
    using s1 l sem.acq_granted[of LoopWaiter "q_sem (s_q s1)" mm] sem.acq_queued[of LoopWaiter "q_sem (s_q s1)" mm]
      a sem.acq_ok[OF _ a]
    by (cases g) (auto simp: slots_at_def slack_def holders_def waits_ok_def table_inv_def set_sem_def)
  then show ?thesis using a by (simp add: loop_acquire_def Let_def s1_def)
qed

lemma slots_reject: "slots_at k s \<Longrightarrow> slots_at k (reject_expired now es s)"
  by (induction es arbitrary: s) auto

lemma slots_loop_run:
  assumes s: "slots_at 0 s" and l: "s_loop s = LoopReady"
  shows "slots_at 0 (loop_run a b s)"
proof -
  have crash: "slots_at 0 (loop_crash t)" if "slots_at 0 t" "s_loop t = LoopReady" for t
    using that by (simp add: loop_crash_def slots_at_def slack_def holders_def waits_ok_def table_inv_def)
  have give: "slots_at 0 (loop_give_up b wt e t)" if "slots_at 0 t" "s_loop t = LoopReady" for e t wt
    using that by (auto simp: loop_give_up_def Let_def split: hook_answer.split intro!: crash slots_loop_wait)
  have acq: "slots_at 0 (loop_acquire e t)" if "slots_at 0 t" "s_loop t = LoopReady" for e t
    using that by (auto intro: slots_loop_acquire)
  have sl: "slots_at 0 (t\<lparr>s_loop := LoopSleep e u\<rparr>)" if "slots_at 0 t" "s_loop t = LoopReady" for e t u
    using that by (auto intro: slots_loop)
  show ?thesis
    using s l
    by (auto simp: loop_run_def Let_def split: prod.split option.split hook_answer.split jsnum.split
        intro!: crash give acq sl slots_reject)
qed

lemma slots_loop_go: "slots_at 0 s \<Longrightarrow> slots_at 0 (loop_go s)"
proof (cases "\<exists>e. s_loop s = LoopGranted e")
  case True
  assume s: "slots_at 0 s"
  from True obtain e where e: "s_loop s = LoopGranted e" ..
  define t where "t = emit (OnRequestStart (qe_attempt e) False)
    (s\<lparr>s_workers := (s_nextId s, \<lparr> wk_entry = e, wk_start = s_now s, wk_phase = WStarting \<rparr>) # s_workers s,
       s_nextId := s_nextId s + 1\<rparr>)"
  have "slots_at 0 (t\<lparr>s_loop := LoopReady\<rparr>)"
    using s e
    by (simp add: t_def emit_def slots_at_def slack_def holders_def waits_ok_def table_inv_def tab_ok_Cons tab_ok_Suc)
  then have "slots_at 0 (loop_wait t)" by (rule slots_loop_wait_ready)
  then show ?thesis using e by (simp add: loop_go_def t_def)
qed (auto simp: loop_go_def split: loop_pc.split)

lemma slots_open: "slots_at 0 s \<Longrightarrow> slots_at 0 (stream_open req est s)"
proof -
  assume s: "slots_at 0 s"
  define v where "v w = \<lparr> st_request = req, st_estimate = est, st_start = s_now s, st_phase = STSleep w \<rparr>" for w
  define t where "t lm w = (set_limiter lm s)\<lparr>s_nextId := Suc (s_nextId s), s_streams := (s_nextId s, v w) # s_streams s\<rparr>"
    for lm w
  have t: "slots_at 0 (t lm w)" for lm w
    using s by (simp add: t_def v_def set_limiter_def slots_at_def slack_def holders_def waits_ok_def table_inv_def
        tab_ok_Cons tab_ok_Suc holds_slot_def)
  have "map_of (s_streams (t lm w)) (s_nextId s) = Some (v w)" for lm w by (simp add: t_def)
  then have "slots_at 0 (stream_acquire (s_nextId s) st (t lm w))" for st lm w
    using slots_acquire_stream[OF t] by (simp add: v_def)
  with t show ?thesis
    by (auto simp: stream_open_def Let_def t_def v_def set_limiter_def split: prod.split jsnum.split)
qed

section \<open>Every step keeps the slots\<close>

definition calm_event :: "event \<Rightarrow> bool" where
  "calm_event e \<longleftrightarrow> loop_calm e \<and> slot_calm e"

lemma slots_step:
  assumes "slots_at 0 s" "queue_ok s" "calm_event e"
  shows "slots_at 0 (step dp e s)"
  using assms
proof (induction e)
  case LoopWake
  then show ?case by (auto simp: loop_wake_def intro!: slots_loop_acquire split: loop_pc.split)
qed (auto simp: calm_event_def slots_ops slots_submit slots_timer slots_loop_run slots_loop_go slots_open
      slots_worker_step slots_stream_step holds_slot_def split: if_splits worker_phase.splits stream_phase.splits
      intro!: on_worker_inv[where P = "slots_at 0"] on_stream_inv[where P = "slots_at 0"])

definition system_ok :: "system \<Rightarrow> bool" where
  "system_ok s \<longleftrightarrow> queue_ok s \<and> slots_at 0 s"

lemma system_ok_new: "system_ok (new_system now epoch config)"
proof -
  have "slots_at 0 (new_system now epoch config)"
    by (simp add: slots_at_def slack_def holders_def waits_ok_def table_inv_def new_system_def
        new_QueueState_def sem_inv_new) (simp add: new_Semaphore_def)
  then show ?thesis by (simp add: system_ok_def queue_ok_new)
qed

lemma system_ok_reachable:
  assumes "reachable dp calm_event (new_system now epoch config) s"
  shows "system_ok s"
  using assms system_ok_new
  by (rule reachable_inv) (auto simp: system_ok_def queue_ok_step slots_step calm_event_def)

end
