(* ===== verification/QueueConfig.thy ===== *)
theory QueueConfig
  imports QueueSystem
begin

text \<open>
  What the constructor of a \<open>QueueState\<close> fixes: its name, retry policy, queue limits and concurrency
  are the same in every reachable state, whatever the subscribers do.
\<close>

definition fixed :: "system \<Rightarrow> string \<times> retry_config \<times> queue_config \<times> int" where
  "fixed s = (q_name (s_q s), q_retry (s_q s), rq_config (q_queue (s_q s)), sm_max (q_sem (s_q s)))"

lemma fixed_ops [simp]:
  "fixed (emit h s) = fixed s" "fixed (settle p x s) = fixed s" "fixed (set_limiter l s) = fixed s"
  "fixed (count_processed s) = fixed s" "fixed (drop_worker i s) = fixed s" "fixed (set_phase i w ph s) = fixed s"
  "fixed (drop_stream i s) = fixed s" "fixed (set_stream i st sp s) = fixed s" "fixed (loop_crash s) = fixed s"
  "fixed (s\<lparr>s_loop := pc\<rparr>) = fixed s" "fixed (s\<lparr>s_timers := ts\<rparr>) = fixed s"
  "fixed (s\<lparr>s_workers := ws\<rparr>) = fixed s" "fixed (s\<lparr>s_streams := ss\<rparr>) = fixed s"
  "fixed (s\<lparr>s_nextId := n\<rparr>) = fixed s" "fixed (s\<lparr>s_nextPromise := n\<rparr>) = fixed s" "fixed (s\<lparr>s_now := t\<rparr>) = fixed s"
  "fixed (s\<lparr>s_q := (s_q s)\<lparr>q_running := b\<rparr>\<rparr>) = fixed s" "fixed (s\<lparr>s_q := (s_q s)\<lparr>q_peakDepth := n\<rparr>\<rparr>) = fixed s"
  by (simp_all add: fixed_def queue_ops)

lemma fixed_set_queue: "rq_config q = rq_config (q_queue (s_q s)) \<Longrightarrow> fixed (set_queue q s) = fixed s"
  by (simp add: fixed_def set_queue_def)

lemma fixed_set_sem: "sm_max m = sm_max (q_sem (s_q s)) \<Longrightarrow> fixed (set_sem m s) = fixed s"
  by (simp add: fixed_def set_sem_def)

lemma fixed_resume [simp]: "fixed (resume w s) = fixed s"
  by (simp add: resume_def split: waiter.split loop_pc.split option.split)

lemma fixed_release [simp]: "fixed (sem_release s) = fixed s"
  by (auto simp: sem_release_def fixed_set_sem sem.rel_cap split: prod.split option.split)

lemma fixed_wait [simp]: "fixed (loop_wait s) = fixed s"
  by (auto simp: loop_wait_def waitForItem_def fixed_def set_queue_def)

lemma fixed_ensure [simp]: "fixed (ensureProcessing s) = fixed s"
  by (simp add: ensureProcessing_def)

lemma fixed_enqueue [simp]: "fixed (enqueue_request p req pr est att s) = fixed s"
  by (auto simp: enqueue_request_def fixed_set_queue split: enqueue_result.split elim!: enqueue_EnqueuedD)

lemma fixed_submit [simp]: "fixed (submit req pr est a s) = fixed s"
proof -
  have "fixed (s\<lparr>s_q := (s_q s)\<lparr>q_peakDepth := d\<rparr>, s_nextPromise := p\<rparr>) = fixed s" for d p
    by (simp add: fixed_def)
  then show ?thesis by (simp add: submit_def Let_def split: hook_answer.split)
qed

lemma fixed_reject [simp]: "fixed (reject_expired now es s) = fixed s"
  by (induction es arbitrary: s) simp_all

lemma fixed_acquire [simp]: "fixed (loop_acquire e s) = fixed s"
  by (auto simp: loop_acquire_def Let_def fixed_set_sem sem.acq_cap split: prod.split)

lemma fixed_give_up [simp]: "fixed (loop_give_up a wt e s) = fixed s"
  by (simp add: loop_give_up_def Let_def split: hook_answer.split)

lemma fixed_loop [simp]: "fixed (loop_wake s) = fixed s" "fixed (loop_go s) = fixed s"
  by (auto simp: loop_wake_def loop_go_def fixed_def[of "s\<lparr>s_workers := _, s_nextId := _\<rparr>"] fixed_def[of s]
      split: loop_pc.split)

lemma purge_config: "purgeExpired now q = (q', gone) \<Longrightarrow> rq_config q' = rq_config q"
  by (rule purge_heap)

lemma fixed_loop_run [simp]: "fixed (loop_run a b s) = fixed s"
proof -
  have "fixed (set_queue q s) = fixed s" if "dequeue (s_now s) (q_queue (s_q s)) = (r, q, gone)" for r q gone
    using that by (auto elim!: dequeue_cases dest!: purge_config intro: fixed_set_queue)
  then show ?thesis
    by (auto simp: loop_run_def Let_def split: prod.split option.split hook_answer.split jsnum.split)
qed

lemma fixed_handleRetry: "handleRetry env k w err s = (x, u) \<Longrightarrow> fixed u = fixed s"
  by (auto simp: handleRetry_def Let_def split: if_splits hook_answer.splits)

lemma fixed_crash [simp]: "fixed (settleOnWorkerCrash w e s) = fixed s"
  by (simp add: settleOnWorkerCrash_def Let_def)

lemma fixed_catch [simp]: "fixed (catch_block env k i w e b s) = fixed s"
  by (auto simp: catch_block_def Let_def dest!: fixed_handleRetry split: exn.split prod.split option.split)

lemma fixed_finish [simp]: "fixed (finish_error env i w e s) = fixed s"
  by (auto simp: finish_error_def dest!: fixed_handleRetry split: prod.split option.split)

lemma fixed_rate_update: "emitRateLimitUpdate hs a s = (x, u) \<Longrightarrow> fixed u = fixed s"
  by (auto simp: emitRateLimitUpdate_def split: if_splits hook_answer.splits)

lemma fixed_worker [simp]:
  "fixed (worker_started i w a s) = fixed s" "fixed (worker_fetched env i w out a s) = fixed s"
  "fixed (worker_completed env i w r a s) = fixed s" "fixed (worker_body env i w r x s) = fixed s"
  "fixed (worker_error_body dp env i w r j a s) = fixed s" "fixed (worker_rate_hook env i w err a s) = fixed s"
  by (auto simp: worker_started_def worker_fetched_def worker_completed_def worker_body_def
      worker_error_body_def worker_rate_hook_def resolve_response_def Let_def dest!: fixed_rate_update
      split: hook_answer.split sum.split prod.split option.split)

lemma fixed_timer [simp]: "fixed (timer_fires k s) = fixed s"
  by (simp add: timer_fires_def Let_def)

lemma fixed_stream_acquire [simp]: "fixed (stream_acquire i st s) = fixed s"
  by (auto simp: stream_acquire_def Let_def fixed_set_sem sem.acq_cap split: prod.split)

lemma fixed_finally [simp]: "fixed (stream_finally i s) = fixed s"
  by (simp add: stream_finally_def)

lemma fixed_failed [simp]: "fixed (connect_failed env i st n e s) = fixed s"
  by (simp add: connect_failed_def Let_def split: hook_answer.split)

lemma fixed_connect_catch [simp]: "fixed (connect_catch env i st n e s) = fixed s"
  by (simp add: connect_catch_def split: exn.split)

lemma fixed_stream [simp]:
  "fixed (stream_wake i st u s) = fixed s" "fixed (stream_begin i st s) = fixed s"
  "fixed (stream_started i st a s) = fixed s" "fixed (connect_fetched env i st n out s) = fixed s"
  "fixed (connect_completed dp env i st n r a j s) = fixed s"
  "fixed (connect_error_hooks env i st n err a s) = fixed s"
  "fixed (connect_again i st n u s) = fixed s" "fixed (stream_read i st k inp s) = fixed s"
  by (simp_all add: stream_wake_def stream_begin_def stream_started_def connect_fetched_def
      connect_completed_def connect_error_hooks_def connect_again_def stream_read_def Let_def
      split: hook_answer.split sum.split stream_input.split)

lemma fixed_open [simp]: "fixed (stream_open req est s) = fixed s"
proof -
  have "fixed (t\<lparr>s_nextId := n, s_streams := ss\<rparr>) = fixed t" for t n ss by (simp add: fixed_def)
  then show ?thesis by (simp add: stream_open_def Let_def split: prod.split jsnum.split)
qed

lemma fixed_step: "fixed (step dp e s) = fixed s"
  by (induction e)
     (auto simp: on_worker_def on_stream_def split: option.split worker_phase.split stream_phase.split)

lemma fixed_reachable: "reachable dp ok s0 s \<Longrightarrow> fixed s = fixed s0"
  by (induction rule: reachable.induct) (simp_all add: fixed_step)

end
