(* ===== verification/QueueTheorems.thy ===== *)
theory QueueTheorems
  imports QueueSlots QueueConfig
begin

text \<open>
  What a queue guarantees over every interleaving of its coroutines, and what a throwing subscriber
  costs it. \<open>demo_events\<close> is one buffered request from its submission to its settled promise.
\<close>

lemma reachable_run:
  "list_all ok es \<Longrightarrow> reachable dp ok s0 s \<Longrightarrow> reachable dp ok s0 (run dp es s)"
  by (induction es arbitrary: s) (auto intro: reach_step)

lemma run_reachable: "list_all ok es \<Longrightarrow> reachable dp ok s (run dp es s)"
  by (simp add: reachable_run reach_start)

definition demo_config :: queue_state_config where
  "demo_config = \<lparr> cf_queueName = ''q'',
     cf_limits = \<lparr> rl_rpm = Some 30, rl_tpm = None, rl_rpd = None, rl_concurrent = 1 \<rparr>,
     cf_retry = None, cf_queue = None \<rparr>"

definition demo_env :: retry_env where
  "demo_env = \<lparr> re_aborted = False, re_onRetry = (\<lambda>_. HookOk), re_random = (\<lambda>_. 1/2) \<rparr>"

definition demo_response :: "int \<Rightarrow> response" where
  "demo_response st = \<lparr> rs_status = st, rs_headers = [], rs_hasBody = True \<rparr>"

definition demo_start :: "event list" where
  "demo_start = [Submit (plain_request BUndefined) 1 0 HookOk, Submit (plain_request BUndefined) 1 0 HookOk, LoopRun HookOk HookOk, LoopGo]"

definition demo_events :: "event list" where
  "demo_events = demo_start @ [LoopRun HookOk HookOk, WStarted 0 HookOk,
     WFetched 0 demo_env (Inr (demo_response 200)) HookOk, WCompleted 0 demo_env HookOk, WBody 0 demo_env None]"

definition demo_run :: "event list \<Rightarrow> system" where
  "demo_run es = run (\<lambda>_. NaN) es (new_system 0 0 demo_config)"

lemma demo_calm: "list_all calm_event demo_events" "list_all loop_calm demo_events"
  "list_all calm_event demo_start" "list_all loop_calm demo_start"
  by (simp_all add: demo_events_def demo_start_def calm_event_def demo_env_def calm_retry_def)

lemma demo_reachable: "list_all ok es \<Longrightarrow> reachable (\<lambda>_. NaN) ok (new_system 0 0 demo_config) (demo_run es)"
  unfolding demo_run_def by (rule run_reachable)

lemma reachable_weaken: "reachable dp ok s0 s \<Longrightarrow> (\<And>e. ok e \<Longrightarrow> ok' e) \<Longrightarrow> reachable dp ok' s0 s"
  by (induction rule: reachable.induct) (auto intro: reach_start reach_step)

lemma queue_ok_reachable: "reachable dp loop_calm (new_system now epoch config) s \<Longrightarrow> queue_ok s"
  using queue_ok_new by (rule reachable_inv[rotated]) (auto simp: queue_ok_step)

lemma distinct_submset: "mset xs \<subseteq># mset ys \<Longrightarrow> distinct ys \<Longrightarrow> distinct xs"
proof -
  assume sub: "mset xs \<subseteq># mset ys" and d: "distinct ys"
  have "count (mset xs) a = (if a \<in> set xs then 1 else 0)" for a
  proof (cases "a \<in> set xs")
    case True
    then have "0 < count (mset xs) a" by (simp only: count_greater_zero_iff set_mset_mset)
    moreover have "count (mset xs) a \<le> count (mset ys) a" using sub by (rule mset_subset_eq_count)
    moreover have "count (mset ys) a \<le> 1" using d by (simp add: distinct_count_atmost_1)
    ultimately have "count (mset xs) a = 1" by linarith
    then show ?thesis using True by simp
  qed simp
  then show "distinct xs" by (simp add: distinct_count_atmost_1)
qed

section \<open>Promises\<close>

text \<open>C1: every submitted request's promise is, at every moment, in exactly one place: queued, held
  by the process loop, owned by an executing request, waiting for its retry timer, or settled; and
  no promise is settled twice. (As long as no \<open>onDequeue\<close> or \<open>onQueueTimeout\<close> subscriber throws.)\<close>

theorem exactly_once:
  assumes "reachable dp loop_calm (new_system now epoch config) s"
  shows "ledger s = mset [0..<s_nextPromise s] \<and> distinct (map fst (s_settled s))"
proof -
  have l: "ledger s = mset [0..<s_nextPromise s]"
    using queue_ok_reachable[OF assms] by (simp add: queue_ok_def ledger_inv_def)
  have "mset (map fst (s_settled s)) \<subseteq># ledger s" by (simp add: ledger_def places_def)
  then have "mset (map fst (s_settled s)) \<subseteq># mset [0..<s_nextPromise s]" using l by simp
  then have "distinct (map fst (s_settled s))" by (rule distinct_submset) simp
  with l show ?thesis ..
qed

theorem exactly_once_witness:
  "ledger (demo_run demo_events) = mset [0..<2] \<and> s_settled (demo_run demo_events) = [(0, Resolved 200 [])]"
proof
  have "s_nextPromise (demo_run demo_events) = 2" by code_simp
  then show "ledger (demo_run demo_events) = mset [0..<2]"
    using exactly_once[OF demo_reachable[OF demo_calm(2)]] by simp
  show "s_settled (demo_run demo_events) = [(0, Resolved 200 [])]" by code_simp
qed

text \<open>when nothing is queued, executing or waiting for a retry and the loop holds no request, every
  request ever submitted has been settled: none hangs.\<close>

theorem idle_all_settled:
  assumes "reachable dp loop_calm (new_system now epoch config) s"
    and "s_workers s = []" "s_timers s = []" "rq_heap (q_queue (s_q s)) = []" "loop_entries (s_loop s) = []"
  shows "mset (map fst (s_settled s)) = mset [0..<s_nextPromise s]"
proof -
  have "ledger s = mset [0..<s_nextPromise s]"
    using queue_ok_reachable[OF assms(1)] by (simp add: queue_ok_def ledger_inv_def)
  then show ?thesis using assms(2-5) by (simp add: ledger_def places_def)
qed

definition demo_all :: "event list" where
  "demo_all = demo_events @ [LoopGo, WStarted 1 HookOk,
     WFetched 1 demo_env (Inr (demo_response 200)) HookOk, WCompleted 1 demo_env HookOk, WBody 1 demo_env None]"

theorem idle_all_settled_witness: "mset (map fst (s_settled (demo_run demo_all))) = mset [0..<2]"
proof -
  have "list_all loop_calm demo_all" using demo_calm(2) by (simp add: demo_all_def)
  moreover have "s_workers (demo_run demo_all) = []" "s_timers (demo_run demo_all) = []"
    "rq_heap (q_queue (s_q (demo_run demo_all))) = []" "loop_entries (s_loop (demo_run demo_all)) = []"
    "s_nextPromise (demo_run demo_all) = 2"
    by code_simp+
  ultimately show ?thesis using idle_all_settled[OF demo_reachable, of demo_all] by simp
qed

section \<open>Slots\<close>

text \<open>C2: the number of executing requests, granted loop turns and open streams equals the semaphore's
  count and never exceeds the configured concurrency; \<open>snapshot().inFlight\<close> reports it. (As long as no
  subscriber throws where the code loses or over-releases a slot.)\<close>

theorem slots_bounded:
  assumes "reachable dp calm_event (new_system now epoch config) s"
  shows "sn_inFlight (fst (snapshot s)) = holders s \<and> holders s \<le> max 0 (rl_concurrent (cf_limits config))"
proof -
  have ok: "slots_at 0 s" using system_ok_reachable[OF assms] by (simp add: system_ok_def)
  have "sm_max (q_sem (s_q s)) = rl_concurrent (cf_limits config)"
    using fixed_reachable[OF assms] by (simp add: fixed_def new_system_def new_QueueState_def new_Semaphore_def)
  then show ?thesis
    using ok sem.ok_bound[of "q_sem (s_q s)"]
    by (auto simp: slots_at_def slack_def snapshot_def inFlight_def Let_def split: prod.split)
qed

theorem slots_bounded_witness:
  "holders (demo_run demo_start) = 1 \<and> sn_inFlight (fst (snapshot (demo_run demo_start))) = holders (demo_run demo_start)"
proof
  show "holders (demo_run demo_start) = 1" by code_simp
  show "sn_inFlight (fst (snapshot (demo_run demo_start))) = holders (demo_run demo_start)"
    using slots_bounded[OF demo_reachable[OF demo_calm(3)]] by simp
qed



text \<open>the queue never holds more requests than its configured maximum.\<close>

theorem queue_bounded:
  assumes "reachable dp loop_calm (new_system now epoch config) s"
  shows "length (rq_heap (q_queue (s_q s))) \<le> qc_maxSize (rq_config (new_RequestQueue (cf_queue config)))"
  using queue_ok_reachable[OF assms] fixed_reachable[OF assms]
  by (simp add: queue_ok_def queue_inv_def fixed_def new_system_def new_QueueState_def)

theorem queue_bounded_witness:
  "length (rq_heap (q_queue (s_q (demo_run demo_start)))) \<le> 200"
  using queue_bounded[OF demo_reachable[OF demo_calm(4)]]
  by (simp add: new_RequestQueue_def demo_config_def DEFAULT_QUEUE_CONFIG_def)

section \<open>A paused limiter\<close>

definition paused_run :: "event list \<Rightarrow> system" where
  "paused_run es = run (\<lambda>_. NaN) es
     (set_limiter (pause 0 60000 (q_limiter (s_q (new_system 0 0 demo_config)))) (new_system 0 0 demo_config))"

text \<open>a rate-limited queue does not hold its requests for the pause. A queue of 30 requests per minute
  paused for a minute takes a new request, sleeps the two seconds \<open>waitTimeMs\<close> announces, asks \<open>canProceed\<close>,
  is refused, and starts the request all the same.\<close>

theorem pause_does_not_hold_requests:
  "let s = paused_run [Submit (plain_request BUndefined) 1 0 HookOk, LoopRun HookOk HookOk, Tick 2000];
       t = step (\<lambda>_. NaN) LoopGo (step (\<lambda>_. NaN) LoopWake s)
   in s_workers s = [] \<and> \<not> fst (canProceed (s_now s) 0 (q_limiter (s_q s))) \<and> length (s_workers t) = 1"
  by code_simp

end
