(* ===== verification/QueueAttempts.thy ===== *)
theory QueueAttempts
  imports QueueTheorems
begin

text \<open>
  How often one request is sent. An entry carries its attempt number through the queue, the process
  loop, its execution and its retry timer. A law of entries that the retry path keeps holds in every place
  (\<open>entry_law\<close>); with one law for the attempt number and one for the number of times the request was sent, the
  sends of a request are bounded by its retry budget.
\<close>

definition all_kinds :: "error_kind list" where
  "all_kinds = [RateLimit, ServerError, ContextOverflow, Auth, InvalidRequest, ModelNotFound, Timeout,
     Network, ContentFilter, QuotaExceeded, Unsupported]"

lemma all_kinds_complete: "k \<in> set all_kinds"
  by (cases k) (simp_all add: all_kinds_def)

definition kind_limit :: "retry_config \<Rightarrow> http_request \<Rightarrow> error_kind \<Rightarrow> nat" where
  "kind_limit retry req k =
     nullish (or_else (Option.bind (rq_retry req) ro_maxRetries) (Option.bind (r_perKind retry k) er_maxRetries))
             (r_maxRetries (retryFor retry req))"

text \<open>The largest retry budget any error can give the request.\<close>

definition retry_cap :: "retry_config \<Rightarrow> http_request \<Rightarrow> nat" where
  "retry_cap retry req = foldr max (map (kind_limit retry req) all_kinds) 0"

lemma foldr_max: "x \<in> set xs \<Longrightarrow> x \<le> foldr max xs (0::nat)"
  by (induction xs) auto

lemma maxRetries_cap: "maxRetriesFor (retryFor retry req) req err \<le> retry_cap retry req"
proof -
  have "kind_limit retry req (e_kind err) \<in> set (map (kind_limit retry req) all_kinds)"
    using all_kinds_complete[of "e_kind err"] by simp
  from foldr_max[OF this] show ?thesis by (simp add: maxRetriesFor_def kind_limit_def retry_cap_def)
qed

lemma dequeue_subset:
  assumes "dequeue now q = (r, q', gone)"
  shows "set (rq_heap q') \<subseteq> set (rq_heap q) \<and> (\<forall>e. r = Some e \<longrightarrow> e \<in> set (rq_heap q))"
proof -
  have purged: "set (rq_heap q1) \<subseteq> set (rq_heap q)" if "purgeExpired now q = (q1, gone)" for q1
  proof -
    have "set_mset (mset (rq_heap q1)) \<subseteq> set_mset (mset (rq_heap q))"
      unfolding purge_heap(2)[OF that] by (auto simp del: set_mset_mset) 
    then show ?thesis by simp
  qed
  from assms show ?thesis
  proof (cases rule: dequeue_cases)
    case (1 q1)
    then show ?thesis using purged by simp
  next
    case (2 q1 e h)
    then have "set (rq_heap q1) = insert e (set h)"
      using heap_pop_mset(1)[OF 2(3,4)] by (metis set_mset_add_mset_insert set_mset_mset)
    then show ?thesis using 2 purged[OF 2(1)] by auto
  qed
qed

text \<open>
  Where an entry is on its way round: not yet sent in this turn (queued, in the hands of the loop, or
  started with \<open>onRequestStart\<close> unanswered), sent, or waiting for its retry timer.
\<close>

datatype place = Unsent | InFlight | BackingOff

fun phase_place :: "worker_phase \<Rightarrow> place" where
  "phase_place WStarting = Unsent"
| "phase_place _ = InFlight"

type_synonym place_law = "place \<Rightarrow> nat \<Rightarrow> http_request \<Rightarrow> nat \<Rightarrow> bool"

definition lawful :: "place_law \<Rightarrow> place \<Rightarrow> queue_entry \<Rightarrow> bool" where
  "lawful I pl e = I pl (qe_promise e) (qe_request e) (qe_attempt e)"

definition unsent_entries :: "system \<Rightarrow> queue_entry set" where
  "unsent_entries s = set (rq_heap (q_queue (s_q s))) \<union> set (loop_entries (s_loop s))"

definition all_lawful :: "place_law \<Rightarrow> retry_config \<Rightarrow> nat \<Rightarrow> system \<Rightarrow> bool" where
  \<comment> \<open>\<open>m\<close> requests were submitted so far.\<close>
  "all_lawful I rc m s \<longleftrightarrow>
     q_retry (s_q s) = rc \<and> s_nextPromise s = m \<and> (\<forall>e\<in>unsent_entries s. lawful I Unsent e)
     \<and> (\<forall>w\<in>snd ` set (s_workers s). lawful I (phase_place (wk_phase w)) (wk_entry w))
     \<and> (\<forall>t\<in>set (s_timers s). lawful I BackingOff (rt_entry t))"

text \<open>
  A law of entries that the two transitions of the retry path keep: a sent entry whose error is
  retried is put on a timer as it is, and a timer puts it back with the next attempt number.
\<close>

locale entry_law =
  fixes I :: place_law and rc :: retry_config
  assumes retry_law: "I InFlight p r a \<Longrightarrow> willRetry rc r a el err \<Longrightarrow> I BackingOff p r a"
    and timer_law: "I BackingOff p r a \<Longrightarrow> I Unsent p r (Suc a)"
begin

abbreviation tracked :: "nat \<Rightarrow> system \<Rightarrow> bool" where
  "tracked m \<equiv> all_lawful I rc m"

lemma tracked_ops [intro]:
  "tracked m s \<Longrightarrow> tracked m (emit h s)" "tracked m s \<Longrightarrow> tracked m (settle p x s)"
  "tracked m s \<Longrightarrow> tracked m (set_limiter l s)" "tracked m s \<Longrightarrow> tracked m (count_processed s)"
  "tracked m s \<Longrightarrow> tracked m (set_sem sm s)" "tracked m s \<Longrightarrow> tracked m (loop_crash s)"
  "tracked m s \<Longrightarrow> tracked m (drop_worker i s)" "tracked m s \<Longrightarrow> tracked m (drop_stream i s)"
  "tracked m s \<Longrightarrow> tracked m (set_stream i st sp s)"
  by (auto simp: all_lawful_def unsent_entries_def queue_ops AList.delete_eq)

lemma update_values: "p \<in> set (AList.update k v xs) \<Longrightarrow> snd p = v \<or> p \<in> set xs"
  by (induction xs) (auto split: if_splits)

lemma tracked_phase:
  assumes "tracked m s" "lawful I (phase_place ph) (wk_entry w)"
  shows "tracked m (set_phase i w ph s)"
  using assms by (auto simp: all_lawful_def unsent_entries_def set_phase_def dest!: update_values)

lemma tracked_resume [intro]: "tracked m s \<Longrightarrow> tracked m (resume w s)"
  by (auto simp: resume_def all_lawful_def unsent_entries_def split: waiter.split loop_pc.split option.split)

lemma tracked_release [intro]: "tracked m s \<Longrightarrow> tracked m (sem_release s)"
  by (auto simp: sem_release_def split: option.split prod.split)

lemma tracked_wait [intro]: "tracked m s \<Longrightarrow> tracked m (loop_wait s)"
  by (auto simp: loop_wait_def waitForItem_def set_queue_def all_lawful_def unsent_entries_def)

lemma tracked_ensure [intro]: "tracked m s \<Longrightarrow> tracked m (ensureProcessing s)"
  by (auto simp: ensureProcessing_def intro!: tracked_wait)
     (auto simp: all_lawful_def unsent_entries_def)

lemma tracked_enqueue:
  assumes a: "tracked m s" and n: "I Unsent p req att"
  shows "tracked m (enqueue_request p req pr est att s)"
proof (cases "enqueue (s_now s) p req pr est att (q_queue (s_q s))")
  case (QueueFull msg)
  then show ?thesis using a by (auto simp: enqueue_request_def)
next
  case (Enqueued q woke)
  then obtain e where e: "qe_promise e = p" "qe_request e = req" "qe_attempt e = att"
    "mset (rq_heap q) = add_mset e (mset (rq_heap (q_queue (s_q s))))"
    by (rule enqueue_EnqueuedD)
  then have "set (rq_heap q) = insert e (set (rq_heap (q_queue (s_q s))))"
    by (metis set_mset_add_mset_insert set_mset_mset)
  then show ?thesis using Enqueued a n e
    by (auto simp: enqueue_request_def all_lawful_def unsent_entries_def lawful_def set_queue_def)
qed

lemma tracked_submit:
  assumes a: "tracked m s" and n: "I Unsent m req 0"
  shows "tracked (Suc m) (submit req pr est h s)"
proof -
  have m: "s_nextPromise s = m" using a by (simp add: all_lawful_def)
  have "tracked (Suc m) (s\<lparr>s_q := (s_q s)\<lparr>q_peakDepth := d\<rparr>, s_nextPromise := Suc m\<rparr>)" for d
    using a by (simp add: all_lawful_def unsent_entries_def)
  then show ?thesis
    by (auto simp: submit_def Let_def m split: hook_answer.split intro!: tracked_enqueue n)
qed

lemma tracked_timer: "tracked m s \<Longrightarrow> tracked m (timer_fires k s)"
proof (cases "k < length (s_timers s)")
  case True
  assume a: "tracked m s"
  have "tracked m (s\<lparr>s_timers := take k (s_timers s) @ drop (Suc k) (s_timers s)\<rparr>)"
    using a by (auto simp: all_lawful_def unsent_entries_def dest: in_set_takeD in_set_dropD)
  moreover have "lawful I BackingOff (rt_entry (s_timers s ! k))" using a True by (simp add: all_lawful_def)
  ultimately show ?thesis using a timer_law
    by (auto simp: timer_fires_def Let_def lawful_def intro!: tracked_enqueue)
next
  case False
  assume "tracked m s"
  then show ?thesis using False by (simp add: timer_fires_def)
qed

lemma tracked_reject [intro]: "tracked m s \<Longrightarrow> tracked m (reject_expired now es s)"
  by (induction es arbitrary: s) auto

lemma tracked_acquire [intro]: "tracked m s \<Longrightarrow> lawful I Unsent e \<Longrightarrow> tracked m (loop_acquire e s)"
  by (auto simp: loop_acquire_def Let_def all_lawful_def unsent_entries_def queue_ops split: prod.split)

lemma tracked_give_up [intro]: "tracked m s \<Longrightarrow> tracked m (loop_give_up a wt e s)"
  by (auto simp: loop_give_up_def Let_def split: hook_answer.split)

lemma tracked_loop_run: "tracked m s \<Longrightarrow> s_loop s = LoopReady \<Longrightarrow> tracked m (loop_run a b s)"
proof -
  assume a: "tracked m s" and l: "s_loop s = LoopReady"
  obtain r q gone where d: "dequeue (s_now s) (q_queue (s_q s)) = (r, q, gone)"
    by (cases "dequeue (s_now s) (q_queue (s_q s))")
  have sub: "set (rq_heap q) \<subseteq> set (rq_heap (q_queue (s_q s)))" "\<And>e. r = Some e \<Longrightarrow> e \<in> set (rq_heap (q_queue (s_q s)))"
    using dequeue_subset[OF d] by auto
  have t: "tracked m (set_queue q s)"
    using a sub(1) by (auto simp: all_lawful_def unsent_entries_def set_queue_def)
  show ?thesis
  proof (cases r)
    case None
    then show ?thesis using d t by (auto simp: loop_run_def Let_def)
  next
    case (Some e)
    have e: "lawful I Unsent e"
      using a sub(2)[OF Some] by (simp add: all_lawful_def unsent_entries_def)
    have sleep: "tracked m (u\<lparr>s_loop := LoopSleep e x\<rparr>)" if "tracked m u" for u x
      using that e by (auto simp: all_lawful_def unsent_entries_def)
    then show ?thesis
      using d Some t e
      by (auto simp: loop_run_def Let_def split: prod.split hook_answer.split jsnum.split
          intro!: tracked_acquire sleep tracked_ops)
  qed
qed

lemma tracked_loop: "tracked m s \<Longrightarrow> tracked m (loop_wake s)" "tracked m s \<Longrightarrow> tracked m (loop_go s)"
proof -
  assume a: "tracked m s"
  show "tracked m (loop_wake s)"
    using a by (auto simp: loop_wake_def split: loop_pc.split intro!: tracked_acquire)
      (auto simp: all_lawful_def unsent_entries_def)
  have "tracked m (loop_wait (s\<lparr>s_workers := (i, w) # s_workers s, s_nextId := n, s_log := lg\<rparr>))"
    if "s_loop s = LoopGranted (wk_entry w)" "wk_phase w = WStarting" for i w n lg
    using a that by (intro tracked_wait) (auto simp: all_lawful_def unsent_entries_def)
  then show "tracked m (loop_go s)" using a by (auto simp: loop_go_def emit_def split: loop_pc.split)
qed

lemma tracked_handleRetry:
  assumes "handleRetry env k w err s = (x, u)" "tracked m s" "lawful I InFlight (wk_entry w)"
  shows "tracked m u"
proof -
  have t: "tracked m (emit h1 (emit h2 s)\<lparr>s_timers := s_timers (emit h1 (emit h2 s)) @ [\<lparr>rt_entry = wk_entry w, rt_due = d\<rparr>]\<rparr>)"
    if "willRetry (q_retry (s_q s)) (qe_request (wk_entry w)) (qe_attempt (wk_entry w)) el err" for h1 h2 d el
    using assms(2,3) that retry_law by (auto simp: all_lawful_def unsent_entries_def emit_def lawful_def)
  show ?thesis
    using assms by (auto simp: handleRetry_def Let_def intro!: t split: if_splits hook_answer.splits)
qed

lemma tracked_crash [intro]: "tracked m s \<Longrightarrow> tracked m (settleOnWorkerCrash w e s)"
  by (auto simp: settleOnWorkerCrash_def Let_def)

lemma tracked_catch [intro]:
  "tracked m s \<Longrightarrow> lawful I InFlight (wk_entry w) \<Longrightarrow> tracked m (catch_block env k i w e b s)"
  by (auto simp: catch_block_def Let_def dest: tracked_handleRetry[OF _ tracked_release[OF tracked_ops(7)]]
      split: exn.split prod.split option.split)

lemma tracked_finish [intro]:
  "tracked m s \<Longrightarrow> lawful I InFlight (wk_entry w) \<Longrightarrow> tracked m (finish_error env i w e s)"
  by (auto simp: finish_error_def dest: tracked_handleRetry[OF _ tracked_release[OF tracked_ops(7)]]
      split: prod.split option.split)

lemma tracked_rate_update: "emitRateLimitUpdate hs a s = (x, u) \<Longrightarrow> tracked m s \<Longrightarrow> tracked m u"
  by (auto simp: emitRateLimitUpdate_def split: if_splits hook_answer.splits)

text \<open>The one step that sends; the law has to survive it, for the caller's reasons.\<close>

lemma tracked_started:
  assumes "tracked m s" "a = HookOk \<Longrightarrow> lawful I InFlight (wk_entry w)"
  shows "tracked m (worker_started i w a s)"
  using assms by (auto simp: worker_started_def split: hook_answer.split intro!: tracked_phase)

lemma tracked_worker:
  assumes a: "tracked m s" and w: "lawful I InFlight (wk_entry w)"
  shows "tracked m (worker_fetched env i w out an s)"
    "tracked m (worker_completed env i w r an s)" "tracked m (worker_body env i w r x s)"
    "tracked m (worker_error_body dp env i w r j an s)" "tracked m (worker_rate_hook env i w err an s)"
proof -
  show "tracked m (worker_fetched env i w out an s)"
    using a w by (auto simp: worker_fetched_def Let_def split: sum.split prod.split option.split
        dest!: tracked_rate_update intro!: tracked_phase)
  show "tracked m (worker_completed env i w r an s)"
    using a w by (auto simp: worker_completed_def resolve_response_def Let_def split: hook_answer.split intro!: tracked_phase)
  show "tracked m (worker_body env i w r x s)"
    using a w by (auto simp: worker_body_def resolve_response_def split: option.split)
  show "tracked m (worker_error_body dp env i w r j an s)"
    using a w by (auto simp: worker_error_body_def Let_def split: prod.split option.split
        dest!: tracked_rate_update intro!: tracked_phase)
  show "tracked m (worker_rate_hook env i w err an s)"
    using a w by (auto simp: worker_rate_hook_def split: hook_answer.split)
qed

lemma tracked_finally [intro]: "tracked m s \<Longrightarrow> tracked m (stream_finally i s)"
  by (auto simp: stream_finally_def)

lemma tracked_stream_acquire [intro]: "tracked m s \<Longrightarrow> tracked m (stream_acquire i st s)"
  by (auto simp: stream_acquire_def Let_def split: prod.split)

lemma tracked_failed [intro]: "tracked m s \<Longrightarrow> tracked m (connect_failed env i st n e s)"
  by (auto simp: connect_failed_def Let_def split: hook_answer.split)

lemma tracked_connect_catch [intro]: "tracked m s \<Longrightarrow> tracked m (connect_catch env i st n e s)"
  by (auto simp: connect_catch_def split: exn.split)

lemma tracked_stream:
  assumes "tracked m s"
  shows "tracked m (stream_wake i st u s)" "tracked m (stream_begin i st s)"
    "tracked m (stream_started i st a s)" "tracked m (connect_fetched env i st n out s)"
    "tracked m (connect_completed dp env i st n r a j s)"
    "tracked m (connect_error_hooks env i st n err a s)"
    "tracked m (connect_again i st n u s)" "tracked m (stream_read i st k inp s)"
  using assms
  by (auto simp: stream_wake_def stream_begin_def stream_started_def connect_fetched_def
      connect_completed_def connect_error_hooks_def connect_again_def stream_read_def Let_def
      split: hook_answer.split sum.split stream_input.split)

lemma tracked_open: "tracked m s \<Longrightarrow> tracked m (stream_open req est s)"
proof -
  assume a: "tracked m s"
  have "tracked m ((set_limiter lm s)\<lparr>s_nextId := n, s_streams := ss\<rparr>)" for lm n ss
    using a by (simp add: all_lawful_def unsent_entries_def set_limiter_def)
  then show ?thesis by (auto simp: stream_open_def Let_def split: prod.split jsnum.split)
qed

text \<open>A step keeps the law when a submission and a send do.\<close>

lemma tracked_step:
  assumes t: "tracked m s"
    and fresh: "\<And>req pr est h. e = Submit req pr est h \<Longrightarrow> I Unsent m req 0"
    and sent: "\<And>i w. e = WStarted i HookOk \<Longrightarrow> map_of (s_workers s) i = Some w \<Longrightarrow> wk_phase w = WStarting
      \<Longrightarrow> lawful I InFlight (wk_entry w)"
  shows "tracked (case e of Submit req pr est h \<Rightarrow> Suc m | _ \<Rightarrow> m) (step dp e s)"
proof -
  have w: "lawful I (phase_place (wk_phase w)) (wk_entry w)" if "map_of (s_workers s) i = Some w" for i w
    using t map_of_SomeD[OF that] by (force simp: all_lawful_def)
  have fl: "lawful I InFlight (wk_entry w)" if "map_of (s_workers s) i = Some w" "wk_phase w \<noteq> WStarting" for i w
    using w[OF that(1)] that(2) by (cases "wk_phase w") auto
  show ?thesis
  proof (cases e)
    case (Tick d)
    then show ?thesis using t by (simp add: all_lawful_def unsent_entries_def)
  next
    case (Submit req pr est h)
    then show ?thesis using t fresh by (auto intro: tracked_submit)
  next
    case (WStarted i a)
    then show ?thesis using t sent
      by (auto intro!: on_worker_inv[where P = "tracked m"] tracked_started split: if_splits)
  qed (use t fl in \<open>auto simp: tracked_loop_run tracked_loop tracked_timer tracked_open tracked_stream
      intro!: on_worker_inv[where P = "tracked m"] on_stream_inv[where P = "tracked m"] tracked_worker
      split: if_splits worker_phase.splits stream_phase.splits\<close>)
qed

end

section \<open>The attempt number stays within the budget\<close>

definition within_cap :: "retry_config \<Rightarrow> place_law" where
  "within_cap rc pl p r a =
     (case pl of BackingOff \<Rightarrow> a < retry_cap rc r | _ \<Rightarrow> a \<le> retry_cap rc r)"

interpretation capped: entry_law "within_cap rc" rc for rc
proof
  fix p r a el err
  assume "willRetry rc r a el err"
  then show "within_cap rc BackingOff p r a"
    using order_less_le_trans[OF willRetryD(2) maxRetries_cap] by (auto simp: within_cap_def)
qed (simp_all add: within_cap_def)

section \<open>Counting the sends\<close>

text \<open>\<open>executeOnce\<close> is called when \<open>onRequestStart\<close> let the request through.\<close>

definition sends_now :: "nat \<Rightarrow> event \<Rightarrow> system \<Rightarrow> bool" where
  "sends_now p e s =
     (case e of
        WStarted i HookOk \<Rightarrow>
          (case map_of (s_workers s) i of
             Some w \<Rightarrow> wk_phase w = WStarting \<and> qe_promise (wk_entry w) = p
           | None \<Rightarrow> False)
      | _ \<Rightarrow> False)"

fun sends :: "(string \<Rightarrow> jsnum) \<Rightarrow> nat \<Rightarrow> event list \<Rightarrow> system \<Rightarrow> nat" where
  "sends dp p [] s = 0"
| "sends dp p (e # es) s = (if sends_now p e s then 1 else 0) + sends dp p es (step dp e s)"

text \<open>The requests a list of events submits; the \<open>p\<close>-th of them gets the promise \<open>p\<close>.\<close>

fun submitted :: "event list \<Rightarrow> http_request list" where
  "submitted [] = []"
| "submitted (Submit req pr est h # es) = req # submitted es"
| "submitted (e # es) = submitted es"

text \<open>After \<open>n\<close> sends the attempt number is at least \<open>n\<close>, one less while the last of them is out.\<close>

definition sent_law :: "nat \<Rightarrow> nat \<Rightarrow> http_request \<Rightarrow> place_law" where
  "sent_law n p req pl q r a = (q = p \<longrightarrow> r = req \<and> n \<le> (case pl of Unsent \<Rightarrow> a | _ \<Rightarrow> Suc a))"

interpretation counted: entry_law "sent_law n p req" rc for n p req rc
  by unfold_locales (auto simp: sent_law_def)

lemma lawful_sent: "lawful (sent_law n p req) pl e \<longleftrightarrow>
   (qe_promise e = p \<longrightarrow> qe_request e = req \<and> n \<le> (case pl of Unsent \<Rightarrow> qe_attempt e | _ \<Rightarrow> Suc (qe_attempt e)))"
  by (simp add: lawful_def sent_law_def)

text \<open>A promise is in one place only: the executing request that holds it is alone with it.\<close>

lemma alone_with_promise:
  assumes ok: "queue_ok s" and w: "map_of (s_workers s) i = Some w" and p: "qe_promise (wk_entry w) = p"
  shows "p < s_nextPromise s"
    and "\<forall>e\<in>unsent_entries s. qe_promise e \<noteq> p"
    and "\<forall>t\<in>set (s_timers s). qe_promise (rt_entry t) \<noteq> p"
    and "\<forall>q\<in>set (AList.delete i (s_workers s)). qe_promise (wk_entry (snd q)) \<noteq> p"
proof -
  let ?f = "qe_promise \<circ> wk_entry \<circ> snd"
  have d: "distinct (map fst (s_workers s))" using ok by (auto simp: queue_ok_def table_inv_def dest: tab_ok_distinct)
  have l: "ledger s = mset [0..<s_nextPromise s]" using ok by (simp add: queue_ok_def ledger_inv_def)
  have split: "image_mset ?f (mset (s_workers s)) = add_mset p (image_mset ?f (mset (AList.delete i (s_workers s))))"
    using delete_mset[OF d w] p by simp
  define rest where "rest = image_mset qe_promise (mset (rq_heap (q_queue (s_q s))))
    + image_mset ?f (mset (AList.delete i (s_workers s))) + image_mset (qe_promise \<circ> rt_entry) (mset (s_timers s))
    + mset (map qe_promise (loop_entries (s_loop s)))"
  have sub: "add_mset p rest \<subseteq># mset [0..<s_nextPromise s]"
    unfolding l[symmetric] ledger_def places_def split rest_def by simp
  then show "p < s_nextPromise s" by (auto dest!: mset_subset_eqD[of _ _ p])
  have "count (add_mset p rest) p \<le> count (mset [0..<s_nextPromise s]) p" using sub by (rule mset_subset_eq_count)
  also have "\<dots> \<le> 1" using distinct_count_atmost_1[of "[0..<s_nextPromise s]"] by auto
  finally have "p \<notin># rest" by (simp add: not_in_iff)
  then show "\<forall>e\<in>unsent_entries s. qe_promise e \<noteq> p" "\<forall>t\<in>set (s_timers s). qe_promise (rt_entry t) \<noteq> p"
    "\<forall>q\<in>set (AList.delete i (s_workers s)). qe_promise (wk_entry (snd q)) \<noteq> p"
    by (auto simp: rest_def unsent_entries_def)
qed

lemma update_others:
  assumes "distinct (map fst xs)" "q \<in> set (AList.update i v xs)"
  shows "q = (i, v) \<or> q \<in> set (AList.delete i xs)"
  using assms
proof (induction xs)
  case (Cons x xs)
  have "AList.delete i xs = xs" if "fst x = i"
    using that Cons.prems(1) by (auto simp: AList.delete_eq filter_id_conv image_iff)
  then show ?case using Cons by (cases x) (auto split: if_splits)
qed simp

lemma sends_now_worker:
  assumes "sends_now p e s"
  obtains i w where "e = WStarted i HookOk" "map_of (s_workers s) i = Some w" "wk_phase w = WStarting"
    "qe_promise (wk_entry w) = p"
  using assms by (auto simp: sends_now_def split: event.splits hook_answer.splits option.splits)

text \<open>A send uses up one attempt: the entry that is sent is the only one with its promise.\<close>

lemma counted_send:
  assumes ok: "queue_ok s" and t: "all_lawful (sent_law n p req) rc m s"
    and w: "map_of (s_workers s) i = Some w" "wk_phase w = WStarting" "qe_promise (wk_entry w) = p"
  shows "all_lawful (sent_law (Suc n) p req) rc m (set_phase i w WFetching s)"
proof -
  note alone = alone_with_promise[OF ok w(1,3)]
  have e: "lawful (sent_law n p req) Unsent (wk_entry w)"
    using t w(2) map_of_SomeD[OF w(1)] by (force simp: all_lawful_def)
  have d: "distinct (map fst (s_workers s))" using ok by (auto simp: queue_ok_def table_inv_def dest: tab_ok_distinct)
  have "lawful (sent_law (Suc n) p req) (phase_place (wk_phase (snd q))) (wk_entry (snd q))"
    if "q \<in> set (AList.update i (w\<lparr>wk_phase := WFetching\<rparr>) (s_workers s))" for q
    using update_others[OF d that] alone(4) e w(3) by (auto simp: lawful_sent)
  then show ?thesis using t alone(2,3)
    by (auto simp: all_lawful_def set_phase_def lawful_sent unsent_entries_def)
qed

lemma capped_step:
  assumes "all_lawful (within_cap rc) rc m s"
  shows "all_lawful (within_cap rc) rc (case e of Submit req pr est h \<Rightarrow> Suc m | _ \<Rightarrow> m) (step dp e s)"
proof (rule capped.tracked_step[OF assms])
  fix i w assume "map_of (s_workers s) i = Some w" "wk_phase w = WStarting"
  then have "lawful (within_cap rc) Unsent (wk_entry w)" using assms map_of_SomeD by (force simp: all_lawful_def)
  then show "lawful (within_cap rc) InFlight (wk_entry w)" by (simp add: lawful_def within_cap_def)
qed (simp add: within_cap_def)

lemma counted_step:
  assumes "all_lawful (sent_law n p req) rc m s" "\<not> sends_now p e s"
    and "\<And>r pr est h. e = Submit r pr est h \<Longrightarrow> m = p \<Longrightarrow> n = 0 \<and> r = req"
  shows "all_lawful (sent_law n p req) rc (case e of Submit req pr est h \<Rightarrow> Suc m | _ \<Rightarrow> m) (step dp e s)"
  using assms by (intro counted.tracked_step) (auto simp: sent_law_def lawful_def sends_now_def)

lemma sends_within_budget:
  assumes "queue_ok s" "list_all loop_calm es" "all_lawful (within_cap rc) rc m s" "all_lawful (sent_law n p req) rc m s"
    and "n \<le> Suc (retry_cap rc req)" "n = 0 \<or> p < m"
    and "m \<le> p \<Longrightarrow> p - m < length (submitted es) \<and> submitted es ! (p - m) = req"
  shows "n + sends dp p es s \<le> Suc (retry_cap rc req)"
  using assms
proof (induction es arbitrary: s n m)
  case (Cons e es)
  let ?m = "case e of Submit req pr est h \<Rightarrow> Suc m | _ \<Rightarrow> m"
  have ok: "queue_ok (step dp e s)" using Cons.prems(1,2) by (simp add: queue_ok_step)
  note capped = capped_step[OF Cons.prems(3), of e dp]
  have rest: "?m \<le> p \<Longrightarrow> p - ?m < length (submitted es) \<and> submitted es ! (p - ?m) = req" if "?m \<le> p"
  proof (cases e)
    case (Submit r pr est h)
    then have "m \<le> p" "p - m = Suc (p - Suc m)" "?m = Suc m" using Submit that by simp_all
    then show ?thesis using Cons.prems(7) Submit by simp
  qed (use Cons.prems(7) that in simp_all)
  show ?case
  proof (cases "sends_now p e s")
    case True
    then obtain i w where e: "e = WStarted i HookOk" and w: "map_of (s_workers s) i = Some w"
      "wk_phase w = WStarting" "qe_promise (wk_entry w) = p"
      by (rule sends_now_worker)
    have now: "step dp e s = set_phase i w WFetching s" "?m = m"
      using w by (simp_all add: e on_worker_def worker_started_def)
    have "lawful (sent_law n p req) Unsent (wk_entry w)" "lawful (within_cap rc) Unsent (wk_entry w)"
      using Cons.prems(3,4) w(2) map_of_SomeD[OF w(1)] by (force simp: all_lawful_def)+
    then have "n \<le> retry_cap rc req" using w(3) by (auto simp: lawful_def sent_law_def within_cap_def)
    moreover have "p < m" using alone_with_promise(1)[OF Cons.prems(1) w(1,3)] Cons.prems(3) by (simp add: all_lawful_def)
    ultimately have "Suc n + sends dp p es (step dp e s) \<le> Suc (retry_cap rc req)"
      using Cons.prems(2) ok capped rest counted_send[OF Cons.prems(1,4) w]
      by (intro Cons.IH[of _ m]) (simp_all add: now)
    then show ?thesis using True by simp
  next
    case False
    have "all_lawful (sent_law n p req) rc ?m (step dp e s)"
    proof (rule counted_step[OF Cons.prems(4) False])
      fix r pr est h assume "e = Submit r pr est h" "m = p"
      then show "n = 0 \<and> r = req" using Cons.prems(6,7) by auto
    qed
    then have "n + sends dp p es (step dp e s) \<le> Suc (retry_cap rc req)"
      using Cons.prems(2,5,6) ok capped rest by (intro Cons.IH[of _ ?m]) (auto split: event.splits)
    then show ?thesis using False by simp
  qed
qed simp

section \<open>The bound\<close>

text \<open>C4: no buffered request is sent more often than once plus its retry budget. Over every list of events of
  a new queue in which no \<open>onDequeue\<close> or \<open>onQueueTimeout\<close> subscriber throws, the calls of \<open>executeOnce\<close> for the
  \<open>p\<close>-th submitted request (each of them at most four fetches, by redirects) are at most one more than the
  largest number of retries the policy, the rule of any error kind or the request's own options allow it.\<close>

theorem attempts_bounded:
  assumes "list_all loop_calm es" "p < length (submitted es)"
  shows "sends dp p es (new_system now epoch config)
    \<le> Suc (retry_cap (mergeRetry (cf_retry config)) (submitted es ! p))"
proof -
  let ?s = "new_system now epoch config" and ?rc = "mergeRetry (cf_retry config)"
  have "all_lawful I ?rc 0 ?s" for I
    by (simp add: all_lawful_def unsent_entries_def new_system_def new_QueueState_def new_RequestQueue_def)
  from sends_within_budget[OF queue_ok_new assms(1) this this, where n = 0 and p = p and req = "submitted es ! p"] assms(2)
  show ?thesis by simp
qed

text \<open>A request answered with a 500, put on its timer and sent again.\<close>

definition retried_events :: "event list" where
  "retried_events = [Submit (plain_request BUndefined) 1 0 HookOk, LoopRun HookOk HookOk, LoopGo, WStarted 0 HookOk,
     WFetched 0 demo_env (Inr (demo_response 500)) HookOk, WCompleted 0 demo_env HookOk, WErrBody 0 demo_env JNull HookOk,
     Tick 60000, TimerFires 0, LoopRun HookOk HookOk, LoopGo, WStarted 1 HookOk]"

theorem attempts_bounded_witness:
  "sends (\<lambda>_. NaN) 0 retried_events (new_system 0 0 demo_config) = 2
   \<and> sends (\<lambda>_. NaN) 0 retried_events (new_system 0 0 demo_config)
       \<le> Suc (retry_cap (mergeRetry (cf_retry demo_config)) (plain_request BUndefined))"
proof
  have calm: "list_all loop_calm retried_events" by (simp add: retried_events_def)
  have one: "submitted retried_events = [plain_request BUndefined]" by (simp add: retried_events_def)
  show "sends (\<lambda>_. NaN) 0 retried_events (new_system 0 0 demo_config) = 2" by code_simp
  show "sends (\<lambda>_. NaN) 0 retried_events (new_system 0 0 demo_config)
       \<le> Suc (retry_cap (mergeRetry (cf_retry demo_config)) (plain_request BUndefined))"
    using attempts_bounded[OF calm, of 0] by (simp add: one)
qed

end
