(* ===== verification/HookFailures.thy ===== *)
theory HookFailures
  imports QueueTheorems
begin

text \<open>
  What a throwing subscriber costs a queue. \<open>HookBus.emit\<close> propagates a subscriber's error, and four
  emissions of \<open>queue-state.ts\<close> are at places where the error loses a promise or unbalances the slots.
\<close>

definition boom :: exn where
  "boom = ExOther ''Error'' ''subscriber failed''"

text \<open>when an \<open>onDequeue\<close> subscriber throws, the entry just taken from the heap is lost: its promise is
  in no place any more and is not settled, so the caller waits forever, and the loop stops.\<close>

theorem dequeue_hook_throw_loses_request:
  assumes ok: "queue_ok s" and l: "s_loop s = LoopReady"
    and d: "dequeue (s_now s) (q_queue (s_q s)) = (Some e, q, gone)"
  shows "add_mset (qe_promise e) (ledger (loop_run (HookThrows x) b s)) = ledger s
    \<and> s_loop (loop_run (HookThrows x) b s) = LoopOff"
proof -
  have "heap_ok (rq_heap (q_queue (s_q s)))" using ok by (simp add: queue_ok_def queue_inv_def)
  from places_dequeued[OF dequeue_spec[OF this d]]
  show ?thesis using l d by (simp add: ledger_def loop_run_def Let_def) (simp add: loop_crash_def)
qed

theorem dequeue_hook_throw_loses_request_witness:
  "queue_ok (demo_run [Submit (plain_request BUndefined) 1 0 HookOk])
   \<and> add_mset 0 (ledger (loop_run (HookThrows boom) HookOk (demo_run [Submit (plain_request BUndefined) 1 0 HookOk]))) =
       ledger (demo_run [Submit (plain_request BUndefined) 1 0 HookOk])
   \<and> s_settled (loop_run (HookThrows boom) HookOk (demo_run [Submit (plain_request BUndefined) 1 0 HookOk])) = []"
proof -
  let ?s = "demo_run [Submit (plain_request BUndefined) 1 0 HookOk]"
  have ok: "queue_ok ?s" by (rule queue_ok_reachable, rule demo_reachable) simp
  have l: "s_loop ?s = LoopReady" by code_simp
  obtain r q gone where d: "dequeue (s_now ?s) (q_queue (s_q ?s)) = (r, q, gone)"
    by (cases "dequeue (s_now ?s) (q_queue (s_q ?s))")
  have "map_option qe_promise (fst (dequeue (s_now ?s) (q_queue (s_q ?s)))) = Some 0" by code_simp
  then obtain e where e: "r = Some e" "qe_promise e = 0" using d by auto
  have "s_settled (loop_run (HookThrows boom) HookOk ?s) = []" by code_simp
  then show ?thesis
    using ok e dequeue_hook_throw_loses_request[OF ok l d[unfolded e(1)], of boom HookOk] by simp
qed

text \<open>when an \<open>onRequestStart\<close> subscriber throws for a stream, the stream ends but its slot is never
  released: the semaphore counts one holder too many from then on.\<close>

theorem stream_start_throw_leaks_slot:
  assumes "slots_at 0 s" "map_of (s_streams s) i = Some st" "st_phase st = STStarting"
  shows "slots_at 1 (step dp (StreamStarted i (HookThrows x)) s)"
  using slots_drop_stream[OF assms(1,2)] assms(2,3) by (simp add: on_stream_def stream_started_def holds_slot_def)

definition demo_stream :: "event list" where
  "demo_stream = [StreamOpen (plain_request BUndefined) 0, StreamBegin 0]"

theorem stream_start_throw_leaks_slot_witness:
  "slots_at 1 (step (\<lambda>_. NaN) (StreamStarted 0 (HookThrows boom)) (demo_run demo_stream))
   \<and> holders (step (\<lambda>_. NaN) (StreamStarted 0 (HookThrows boom)) (demo_run demo_stream)) = 0"
proof -
  have "list_all calm_event demo_stream" by (simp add: demo_stream_def calm_event_def)
  then have ok: "slots_at 0 (demo_run demo_stream)"
    using system_ok_reachable[OF demo_reachable] by (simp add: system_ok_def)
  have "map_option st_phase (map_of (s_streams (demo_run demo_stream)) 0) = Some STStarting" by code_simp
  then obtain st :: stream where "map_of (s_streams (demo_run demo_stream)) 0 = Some st" "st_phase st = STStarting"
    by auto
  note leak = stream_start_throw_leaks_slot[OF ok this, of "\<lambda>_. NaN" boom]
  have "holders (step (\<lambda>_. NaN) (StreamStarted 0 (HookThrows boom)) (demo_run demo_stream)) = 0" by code_simp
  with leak show ?thesis by blast
qed

text \<open>when \<open>onRetry\<close> subscribers throw inside the \<open>try\<close> block, one finished request gives its slot
  back three times (once normally, once in the \<open>catch\<close>, once as a worker crash), so two more requests
  than configured may run from then on.\<close>

theorem retry_throw_releases_three_times:
  assumes s: "slots_at 0 s" and m: "map_of (s_workers s) i = Some w"
    and h: "re_onRetry env 0 = HookThrows (ExOther n msg)" "re_onRetry env 1 = HookThrows x" "\<not> re_aborted env"
    and r: "willRetry (q_retry (s_q s)) (qe_request (wk_entry w)) (qe_attempt (wk_entry w)) (s_now s - wk_start w) err"
      "willRetry (q_retry (s_q s)) (qe_request (wk_entry w)) (qe_attempt (wk_entry w)) (s_now s - wk_start w)
         (transport_error w (ExOther n msg))"
  shows "slots_at (- 2) (finish_error env i w err s)"
proof -
  have frq: "q_retry (s_q (sem_release t)) = q_retry (s_q t)" "s_now (sem_release t) = s_now t" for t
    by (auto simp: sem_release_def resume_def set_sem_def split: option.split prod.split waiter.split loop_pc.split)
  have frd: "q_retry (s_q (drop_worker i t)) = q_retry (s_q t)" "s_now (drop_worker i t) = s_now t" for t
    by (simp_all add: drop_worker_def)
  have fre: "q_retry (s_q (emit k t)) = q_retry (s_q t)" "s_now (emit k t) = s_now t" for k t
    by (simp_all add: emit_def)
  have a: "slots_at 0 (sem_release (drop_worker i s))" using slots_drop_worker[OF s m] by (rule slots_release)
  obtain u where u: "handleRetry env 0 w err (sem_release (drop_worker i s)) = (Some (ExOther n msg), u)"
    "slots_at 0 u" "s_workers u = AList.delete i (s_workers s)" "q_retry (s_q u) = q_retry (s_q s)" "s_now u = s_now s"
    using r(1) h(1) a by (auto simp: handleRetry_def Let_def frq frd fre)
  have du: "drop_worker i u = u" using u(3) by (simp add: drop_worker_def)
  have b: "slots_at (- 1) (sem_release u)" using u(2) slots_release[of "-1" u] by simp
  obtain v where v: "handleRetry env 1 w (transport_error w (ExOther n msg)) (sem_release u) = (Some x, v)"
    "slots_at (- 1) v"
    using r(2) h(2) b u(4,5) by (auto simp: handleRetry_def Let_def frq frd fre)
  have "slots_at (- 2) (sem_release v)" using v(2) slots_release[of "-2" v] by simp
  then have c: "slots_at (- 2) (settleOnWorkerCrash w x v)" by (auto simp: settleOnWorkerCrash_def Let_def)
  then show ?thesis
    using u(1) v(1) h(3) by (simp add: finish_error_def catch_block_def du)
qed

definition throwing_env :: retry_env where
  "throwing_env = \<lparr> re_aborted = False, re_onRetry = (\<lambda>_. HookThrows boom), re_random = (\<lambda>_. 1/2) \<rparr>"

definition demo_failing :: "event list" where
  "demo_failing = demo_start @ [WStarted 0 HookOk, WFetched 0 demo_env (Inr (demo_response 503)) HookOk,
     WCompleted 0 demo_env HookOk]"

definition demo_error :: llm_error where
  "demo_error = classifyError (\<lambda>_. NaN) 0 ''openai'' 503 JNull []"

theorem retry_throw_releases_three_times_witness:
  "\<exists>w. map_of (s_workers (demo_run demo_failing)) 0 = Some w
     \<and> slots_at (- 2) (finish_error throwing_env 0 w demo_error (demo_run demo_failing))"
proof -
  let ?s = "demo_run demo_failing"
  have "list_all calm_event demo_failing"
    using demo_calm(3) by (simp add: demo_failing_def calm_event_def demo_env_def calm_retry_def)
  then have ok: "slots_at 0 ?s"
    using system_ok_reachable[OF demo_reachable] by (simp add: system_ok_def)
  have "case map_of (s_workers ?s) 0 of None \<Rightarrow> False
    | Some w \<Rightarrow> willRetry (q_retry (s_q ?s)) (qe_request (wk_entry w)) (qe_attempt (wk_entry w)) (s_now ?s - wk_start w) demo_error
        \<and> willRetry (q_retry (s_q ?s)) (qe_request (wk_entry w)) (qe_attempt (wk_entry w)) (s_now ?s - wk_start w)
            (transport_error w (ExOther ''Error'' ''subscriber failed''))" by code_simp
  then obtain w where w: "map_of (s_workers ?s) 0 = Some w"
    "willRetry (q_retry (s_q ?s)) (qe_request (wk_entry w)) (qe_attempt (wk_entry w)) (s_now ?s - wk_start w) demo_error"
    "willRetry (q_retry (s_q ?s)) (qe_request (wk_entry w)) (qe_attempt (wk_entry w)) (s_now ?s - wk_start w)
       (transport_error w (ExOther ''Error'' ''subscriber failed''))"
    by (auto split: option.splits)
  have "slots_at (- 2) (finish_error throwing_env 0 w demo_error ?s)"
    by (rule retry_throw_releases_three_times[OF ok w(1) _ _ _ w(2,3)]) (simp_all add: throwing_env_def boom_def)
  with w(1) show ?thesis by blast
qed

end
