(* ===== verification/Engine.thy ===== *)
theory Engine
  imports QueueSlots QueueConfig
begin

text \<open>
  \<open>src/network/engine.ts\<close>: the router of named queues. \<open>ne_queues\<close> is the insertion-ordered map of
  live queues (each a \<open>system\<close>), \<open>ne_settings\<close> the settings a queue is created from. The constructor's
  \<open>fetch\<close>, \<open>connect\<close> and \<open>hooks\<close> are passed through to the queues and have no part here. A dropped
  queue leaves the map; what it still has in flight runs on outside the engine.
\<close>

record limits_override =
  lo_rpm :: "rat option option"
  lo_tpm :: "rat option option"
  lo_rpd :: "rat option option"
  lo_concurrent :: "int option"

record queue_settings =
  qs_limits :: "limits_override option"
  qs_retry :: "retry_policy_override option"
  qs_queue :: "queue_config_override option"

definition no_settings :: queue_settings where
  "no_settings = \<lparr> qs_limits = None, qs_retry = None, qs_queue = None \<rparr>"

definition FALLBACK_LIMITS :: rate_limiter_config where
  "FALLBACK_LIMITS = \<lparr> rl_rpm = Some 30, rl_tpm = None, rl_rpd = None, rl_concurrent = 5 \<rparr>"

record network_engine =
  ne_defaultRetry :: "retry_policy_override option"
  ne_settings :: "queue_settings dict"
  ne_queues :: "system dict"

definition new_NetworkEngine ::
  "retry_policy_override option \<Rightarrow> queue_settings dict \<Rightarrow> network_engine" where
  "new_NetworkEngine retry queues =
     \<lparr> ne_defaultRetry = retry, ne_settings = spread [] queues, ne_queues = [] \<rparr>"

datatype 'a configured = AlreadyCreated string | Configured 'a

definition hasQueue :: "string \<Rightarrow> network_engine \<Rightarrow> bool" where
  "hasQueue name e = (map_of (ne_queues e) name \<noteq> None)"

definition quoted :: "string \<Rightarrow> string" where
  "quoted s = CHR 0x22 # s @ [CHR 0x22]"

text \<open>The message's dash is U+2014 in the source.\<close>

definition configureQueue :: "string \<Rightarrow> queue_settings \<Rightarrow> network_engine \<Rightarrow> network_engine configured" where
  "configureQueue name settings e =
     (if hasQueue name e then
        AlreadyCreated (''NetworkEngine: queue '' @ quoted name @ '' already created - settings are immutable. ''
          @ ''Call dropQueue('' @ quoted name @ '') first to reconfigure.'')
      else Configured (e\<lparr>ne_settings := AList.update name settings (ne_settings e)\<rparr>))"

definition dropQueue :: "string \<Rightarrow> network_engine \<Rightarrow> network_engine" where
  "dropQueue name e = e\<lparr>ne_queues := AList.delete name (ne_queues e)\<rparr>"

definition queueNames :: "network_engine \<Rightarrow> string list" where
  "queueNames e = map fst (ne_queues e)"

definition getQueueState :: "string \<Rightarrow> network_engine \<Rightarrow> system option" where
  "getQueueState name e = map_of (ne_queues e) name"

definition engine_snapshot :: "network_engine \<Rightarrow> queue_snapshot list \<times> network_engine" where
  "engine_snapshot e =
     (map (\<lambda>(n, s). fst (snapshot s)) (ne_queues e),
      e\<lparr>ne_queues := map (\<lambda>(n, s). (n, snd (snapshot s))) (ne_queues e)\<rparr>)"

definition destroy :: "network_engine \<Rightarrow> network_engine" where
  "destroy e = e\<lparr>ne_queues := []\<rparr>"

section \<open>Creating a queue\<close>

definition merge_limits :: "limits_override option \<Rightarrow> rate_limiter_config" where
  "merge_limits ov =
     (case ov of None \<Rightarrow> FALLBACK_LIMITS
      | Some v \<Rightarrow> \<lparr> rl_rpm = nullish (lo_rpm v) (rl_rpm FALLBACK_LIMITS),
                    rl_tpm = nullish (lo_tpm v) (rl_tpm FALLBACK_LIMITS),
                    rl_rpd = nullish (lo_rpd v) (rl_rpd FALLBACK_LIMITS),
                    rl_concurrent = nullish (lo_concurrent v) (rl_concurrent FALLBACK_LIMITS) \<rparr>)"

definition merge_backoff :: "backoff_override option \<Rightarrow> backoff_override option \<Rightarrow> backoff_override option" where
  "merge_backoff a b =
     (if a = None \<and> b = None then None
      else let x = nullish a no_backoff_override; y = nullish b no_backoff_override
           in Some \<lparr> bo_initialMs = or_else (bo_initialMs y) (bo_initialMs x),
                     bo_maxMs = or_else (bo_maxMs y) (bo_maxMs x),
                     bo_multiplier = or_else (bo_multiplier y) (bo_multiplier x),
                     bo_jitter = or_else (bo_jitter y) (bo_jitter x) \<rparr>)"

text \<open>The engine-wide policy with the queue's own on top; nested groups are merged key by key.\<close>

definition merge_policies ::
  "retry_policy_override option \<Rightarrow> retry_policy_override option \<Rightarrow> retry_policy_override option" where
  "merge_policies dflt own =
     (if dflt = None \<and> own = None then None
      else let x = nullish dflt no_policy_override; y = nullish own no_policy_override
           in Some \<lparr> po_maxRetries = or_else (po_maxRetries y) (po_maxRetries x),
                     po_totalTimeoutMs = or_else (po_totalTimeoutMs y) (po_totalTimeoutMs x),
                     po_attemptTimeoutMs = or_else (po_attemptTimeoutMs y) (po_attemptTimeoutMs x),
                     po_backoff = merge_backoff (po_backoff x) (po_backoff y),
                     po_maxRetryAfterMs = or_else (po_maxRetryAfterMs y) (po_maxRetryAfterMs x),
                     po_perKind =
                       (if po_perKind x = None \<and> po_perKind y = None then None
                        else Some (nullish (po_perKind x) Map.empty ++ nullish (po_perKind y) Map.empty)) \<rparr>)"

definition queue_config_for :: "string \<Rightarrow> network_engine \<Rightarrow> queue_state_config" where
  "queue_config_for name e =
     (let settings = nullish (map_of (ne_settings e) name) no_settings
      in \<lparr> cf_queueName = name, cf_limits = merge_limits (qs_limits settings),
           cf_retry = merge_policies (ne_defaultRetry e) (qs_retry settings),
           cf_queue = qs_queue settings \<rparr>)"

definition getOrCreateQueue :: "ms \<Rightarrow> rat \<Rightarrow> string \<Rightarrow> network_engine \<Rightarrow> system \<times> network_engine" where
  "getOrCreateQueue now epoch name e =
     (case map_of (ne_queues e) name of
        Some s \<Rightarrow> (s, e)
      | None \<Rightarrow>
          (let s = new_system now epoch (queue_config_for name e)
           in (s, e\<lparr>ne_queues := AList.update name s (ne_queues e)\<rparr>)))"

section \<open>Routing a request\<close>

record fetch_options =
  fo_queueName :: "string option"
  fo_priority :: "rat option"
  fo_estimatedTokens :: "rat option"
  fo_ctxQueueName :: "string option"

definition resolveQueueName :: "http_request \<Rightarrow> fetch_options option \<Rightarrow> string" where
  "resolveQueueName req options =
     (case truthy_str (Option.bind options fo_queueName) of
        Some n \<Rightarrow> n
      | None \<Rightarrow>
          (case truthy_str (Option.bind options fo_ctxQueueName) of
             Some n \<Rightarrow> n
           | None \<Rightarrow> rq_provider req @ ''/'' @ rq_model req))"

definition with_queue :: "string \<Rightarrow> (system \<Rightarrow> system) \<Rightarrow> network_engine \<Rightarrow> network_engine" where
  "with_queue name f e =
     (case map_of (ne_queues e) name of
        None \<Rightarrow> e
      | Some s \<Rightarrow> e\<lparr>ne_queues := AList.update name (f s) (ne_queues e)\<rparr>)"

definition fetch :: "ms \<Rightarrow> rat \<Rightarrow> http_request \<Rightarrow> fetch_options option \<Rightarrow> hook_answer \<Rightarrow> network_engine \<Rightarrow> network_engine" where
  "fetch now epoch req options onEnqueue e =
     (let name = resolveQueueName req options
      in with_queue name
           (submit req (nullish (Option.bind options fo_priority) PRIORITY_INTERACTIVE)
              (nullish (Option.bind options fo_estimatedTokens) 0) onEnqueue)
           (snd (getOrCreateQueue now epoch name e)))"

definition fetchStream :: "ms \<Rightarrow> rat \<Rightarrow> http_request \<Rightarrow> fetch_options option \<Rightarrow> network_engine \<Rightarrow> network_engine" where
  "fetchStream now epoch req options e =
     (let name = resolveQueueName req options
      in with_queue name
           (stream_open req (nullish (Option.bind options fo_estimatedTokens) 0))
           (snd (getOrCreateQueue now epoch name e)))"

section \<open>Lemmas\<close>

lemma or_else_nullish: "nullish (or_else a b) d = nullish a (nullish b d)"
  by (cases a; simp add: nullish_def or_else_def)

lemma merge_policies_fields:
  "Option.bind (merge_policies d own) po_maxRetries = or_else (Option.bind own po_maxRetries) (Option.bind d po_maxRetries)"
  "Option.bind (merge_policies d own) po_totalTimeoutMs =
     or_else (Option.bind own po_totalTimeoutMs) (Option.bind d po_totalTimeoutMs)"
  "Option.bind (merge_policies d own) po_attemptTimeoutMs =
     or_else (Option.bind own po_attemptTimeoutMs) (Option.bind d po_attemptTimeoutMs)"
  "Option.bind (merge_policies d own) po_maxRetryAfterMs =
     or_else (Option.bind own po_maxRetryAfterMs) (Option.bind d po_maxRetryAfterMs)"
  by (cases d; cases own;
      simp add: merge_policies_def nullish_def or_else_def no_policy_override_def Let_def split: option.splits)+

lemma mergeRetry_fields:
  "r_maxRetries (mergeRetry p) = nullish (Option.bind p po_maxRetries) (r_maxRetries DEFAULT_RETRY)"
  "r_totalTimeoutMs (mergeRetry p) = nullish (Option.bind p po_totalTimeoutMs) (r_totalTimeoutMs DEFAULT_RETRY)"
  "r_attemptTimeoutMs (mergeRetry p) = nullish (Option.bind p po_attemptTimeoutMs) (r_attemptTimeoutMs DEFAULT_RETRY)"
  "r_maxRetryAfterMs (mergeRetry p) = nullish (Option.bind p po_maxRetryAfterMs) (r_maxRetryAfterMs DEFAULT_RETRY)"
  "r_backoff (mergeRetry p) = spread_backoff (r_backoff DEFAULT_RETRY) (Option.bind p po_backoff)"
  "r_perKind (mergeRetry p) = r_perKind DEFAULT_RETRY ++ nullish (Option.bind p po_perKind) Map.empty"
  by (cases p; simp add: mergeRetry_def nullish_def spread_backoff_def)+

lemma merge_policies_backoff:
  "Option.bind (merge_policies d own) po_backoff = merge_backoff (Option.bind d po_backoff) (Option.bind own po_backoff)"
  by (cases d; cases own)
     (simp_all add: merge_policies_def nullish_def no_policy_override_def merge_backoff_def Let_def)

lemma spread_merge:
  "spread_backoff b (merge_backoff x y) = spread_backoff (spread_backoff b x) y"
  by (cases x; cases y)
     (simp_all add: merge_backoff_def spread_backoff_def no_backoff_override_def nullish_def or_else_def Let_def
       split: option.splits)

lemma merge_policies_perKind:
  "nullish (Option.bind (merge_policies d own) po_perKind) Map.empty =
   nullish (Option.bind d po_perKind) Map.empty ++ nullish (Option.bind own po_perKind) Map.empty"
  by (cases d; cases own)
     (auto simp: merge_policies_def nullish_def no_policy_override_def Let_def split: option.splits)

lemma getOrCreate_present:
  "getOrCreateQueue now epoch name e = (s, e') \<Longrightarrow> map_of (ne_queues e') name = Some s"
  by (auto simp: getOrCreateQueue_def Let_def update_conv' split: option.splits)

lemma getOrCreate_other:
  "getOrCreateQueue now epoch name e = (s, e') \<Longrightarrow> n \<noteq> name \<Longrightarrow> map_of (ne_queues e') n = map_of (ne_queues e) n"
  by (auto simp: getOrCreateQueue_def Let_def update_conv' split: option.splits)

lemma with_queue_other: "n \<noteq> name \<Longrightarrow> map_of (ne_queues (with_queue name f e)) n = map_of (ne_queues e) n"
  by (auto simp: with_queue_def update_conv' split: option.splits)

text \<open>Every queue of an engine was built by the constructor and then only stepped.\<close>

definition engine_ok :: "network_engine \<Rightarrow> bool" where
  "engine_ok e \<longleftrightarrow> distinct (queueNames e) \<and> (\<forall>(n, s)\<in>set (ne_queues e). system_ok s \<and> q_name (s_q s) = n)"

lemma engine_ok_member: "engine_ok e \<Longrightarrow> map_of (ne_queues e) n = Some s \<Longrightarrow> system_ok s \<and> q_name (s_q s) = n"
  by (auto simp: engine_ok_def dest: map_of_SomeD)

lemma update_set:
  "p \<in> set (AList.update k v xs) \<Longrightarrow> p = (k, v) \<or> p \<in> set xs"
  by (induction xs) (auto split: if_splits)

lemma engine_ok_update:
  "engine_ok e \<Longrightarrow> system_ok s \<Longrightarrow> q_name (s_q s) = n \<Longrightarrow> engine_ok (e\<lparr>ne_queues := AList.update n s (ne_queues e)\<rparr>)"
  by (auto simp: engine_ok_def queueNames_def distinct_update dest!: update_set)

lemma new_system_name [simp]: "q_name (s_q (new_system now epoch config)) = cf_queueName config"
  by (simp add: new_system_def new_QueueState_def)

lemma engine_ok_create: "engine_ok e \<Longrightarrow> engine_ok (snd (getOrCreateQueue now epoch name e))"
  by (auto simp: getOrCreateQueue_def Let_def queue_config_for_def split: option.split
      intro!: engine_ok_update system_ok_new)

lemma engine_ok_with:
  assumes "engine_ok e" "\<And>s. system_ok s \<Longrightarrow> system_ok (f s)" "\<And>s. fixed (f s) = fixed s"
  shows "engine_ok (with_queue name f e)"
proof (cases "map_of (ne_queues e) name")
  case (Some s)
  have "q_name (s_q (f s)) = q_name (s_q s)" using assms(3)[of s] by (simp add: fixed_def)
  then show ?thesis
    using Some assms(1,2) engine_ok_member[OF assms(1) Some] by (simp add: with_queue_def engine_ok_update)
qed (simp add: with_queue_def assms(1))

lemma system_ok_submit: "system_ok s \<Longrightarrow> system_ok (submit req pr est a s)"
  by (simp add: system_ok_def queue_ok_submit slots_submit)

lemma system_ok_open: "system_ok s \<Longrightarrow> system_ok (stream_open req est s)"
  by (simp add: system_ok_def queue_ok_open slots_open)

lemma system_ok_snapshot: "system_ok s \<Longrightarrow> system_ok (snd (snapshot s)) \<and> q_name (s_q (snd (snapshot s))) = q_name (s_q s)"
  by (auto simp: snapshot_def Let_def system_ok_def queue_ok_def loop_inv_def table_inv_def ledger_inv_def
      ledger_def places_def slots_at_def slack_def holders_def waits_ok_def split: prod.split)

lemma engine_ok_fetch: "engine_ok e \<Longrightarrow> engine_ok (fetch now epoch req options a e)"
  by (simp add: fetch_def Let_def engine_ok_with engine_ok_create system_ok_submit)

lemma engine_ok_fetchStream: "engine_ok e \<Longrightarrow> engine_ok (fetchStream now epoch req options e)"
  by (simp add: fetchStream_def Let_def engine_ok_with engine_ok_create system_ok_open)

lemma engine_ok_drop: "engine_ok e \<Longrightarrow> engine_ok (dropQueue name e)"
  by (auto simp: engine_ok_def dropQueue_def queueNames_def distinct_delete)
     (auto simp: AList.delete_eq)

lemma engine_ok_snapshot: "engine_ok e \<Longrightarrow> engine_ok (snd (engine_snapshot e))"
  using system_ok_snapshot
  by (fastforce simp: engine_ok_def engine_snapshot_def queueNames_def comp_def case_prod_unfold)

section \<open>Properties of the engine\<close>

text \<open>the layers of a retry policy. Of the request's own override, the settings of its queue, the
  engine's policy and the built-in defaults, the narrowest layer that sets a knob wins, for each top-level
  knob and for each knob of the backoff separately.\<close>

theorem narrowest_policy_wins:
  fixes req :: http_request and own engine :: "retry_policy_override option"
  defines "retry \<equiv> retryFor (mergeRetry (merge_policies engine own)) req"
  shows "r_maxRetries retry = nullish (or_else (Option.bind (rq_retry req) ro_maxRetries)
      (or_else (Option.bind own po_maxRetries) (Option.bind engine po_maxRetries))) 2
    \<and> r_totalTimeoutMs retry = nullish (or_else (Option.bind (rq_retry req) ro_totalTimeoutMs)
      (or_else (Option.bind own po_totalTimeoutMs) (Option.bind engine po_totalTimeoutMs))) 120000
    \<and> r_maxRetryAfterMs retry = nullish (or_else (Option.bind (rq_retry req) ro_maxRetryAfterMs)
      (or_else (Option.bind own po_maxRetryAfterMs) (Option.bind engine po_maxRetryAfterMs))) 120000
    \<and> r_backoff retry = spread_backoff (spread_backoff (spread_backoff (r_backoff DEFAULT_RETRY)
        (Option.bind engine po_backoff)) (Option.bind own po_backoff)) (Option.bind (rq_retry req) ro_backoff)"
  unfolding retry_def
  by (cases "rq_retry req")
     (simp_all add: retryFor_def mergeRetry_fields merge_policies_fields merge_policies_backoff spread_merge
       or_else_nullish spread_backoff_def[of _ None] or_else_def[of None])

text \<open>settings are fixed when a queue is created: \<open>configureQueue\<close> succeeds only for a name without a live
  queue, and the queue created next under that name has exactly the configured limits and queue bounds
  over the fallbacks and the configured policy over the engine's.\<close>

theorem configured_settings_used:
  assumes "configureQueue name st e = Configured e'"
  shows "\<not> hasQueue name e
    \<and> fst (getOrCreateQueue now epoch name e') = new_system now epoch
         \<lparr> cf_queueName = name, cf_limits = merge_limits (qs_limits st),
            cf_retry = merge_policies (ne_defaultRetry e) (qs_retry st), cf_queue = qs_queue st \<rparr>"
  using assms by (auto simp: configureQueue_def hasQueue_def getOrCreateQueue_def queue_config_for_def nullish_def
      update_conv' Let_def split: if_splits)

theorem configured_settings_used_witness:
  "\<exists>e'. configureQueue ''q'' no_settings (new_NetworkEngine None []) = Configured e'
     \<and> \<not> hasQueue ''q'' (new_NetworkEngine None [])
     \<and> rl_rpm (cf_limits (queue_config_for ''q'' e')) = Some 30"
proof -
  let ?e = "new_NetworkEngine None []"
  have c: "configureQueue ''q'' no_settings ?e = Configured (?e\<lparr>ne_settings := AList.update ''q'' no_settings (ne_settings ?e)\<rparr>)"
    by (simp add: configureQueue_def hasQueue_def new_NetworkEngine_def)
  have "rl_rpm (cf_limits (queue_config_for ''q'' (?e\<lparr>ne_settings := AList.update ''q'' no_settings (ne_settings ?e)\<rparr>))) = Some 30"
    by (simp add: queue_config_for_def update_conv' nullish_def no_settings_def merge_limits_def FALLBACK_LIMITS_def Let_def)
  then show ?thesis using configured_settings_used[OF c] c by blast
qed

text \<open>queues do not affect each other: sending through one queue of an engine, creating it if need be,
  leaves every other queue as it was, and the queue sent through is the one \<open>resolveQueueName\<close> names.\<close>

theorem queue_isolation:
  "let name = resolveQueueName req options; e' = fetch now epoch req options a e
   in hasQueue name e' \<and> (\<forall>n. getQueueState n e' = getQueueState n e \<or> n = name)"
proof -
  let ?n = "resolveQueueName req options"
  obtain s e1 where c: "getOrCreateQueue now epoch ?n e = (s, e1)" by force
  note p = getOrCreate_present[OF c] and o = getOrCreate_other[OF c]
  have "hasQueue ?n (fetch now epoch req options a e)"
    using c p by (simp add: hasQueue_def fetch_def Let_def with_queue_def update_conv')
  moreover have "getQueueState n (fetch now epoch req options a e) = getQueueState n e" if "n \<noteq> ?n" for n
    using c o[OF that] that by (simp add: getQueueState_def fetch_def Let_def with_queue_other)
  ultimately show ?thesis by (auto simp: Let_def)
qed

end
