(* ===== verification/Sse.thy ===== *)
theory Sse
  imports Prelude
begin

text \<open>
  \<open>src/network/sse.ts\<close>: the incremental line decoder, the event accumulator and the stream parser.
  The input is the sequence of texts the platform's \<open>TextDecoder\<close> yields, one per network chunk.
  \<open>split_lines\<close> is the reference: it cuts a whole text at CRLF, LF or CR.
\<close>

section \<open>The line decoder\<close>

record line_decoder =
  ld_buffer :: string
  ld_scanned :: nat
  ld_pending :: bool

definition new_decoder :: line_decoder where
  "new_decoder = \<lparr> ld_buffer = [], ld_scanned = 0, ld_pending = False \<rparr>"

definition slice :: "nat \<Rightarrow> nat \<Rightarrow> 'a list \<Rightarrow> 'a list" where
  "slice a b xs = take (b - a) (drop a xs)"

text \<open>The scanning loop: position, start of the current line, the pending flag, the lines so far.\<close>

function scan :: "string \<Rightarrow> nat \<Rightarrow> nat \<Rightarrow> bool \<Rightarrow> string list \<Rightarrow> string list \<times> nat \<times> bool" where
  "scan buf i start pend ls =
     (if i < length buf then
        (if buf ! i = LF then scan buf (i + 1) (i + 1) pend (ls @ [slice start i buf])
         else if buf ! i = CR then
           (if i + 1 < length buf then
              (if buf ! (i + 1) = LF then scan buf (i + 2) (i + 2) pend (ls @ [slice start i buf])
               else scan buf (i + 1) (i + 1) pend (ls @ [slice start i buf]))
            else scan buf (i + 1) (i + 1) True (ls @ [slice start i buf]))
         else scan buf (i + 1) start pend ls)
      else (ls, start, pend))"
  by pat_completeness auto
termination
  by (relation "measure (\<lambda>(buf, i, start, pend, ls). length buf - i)") auto

declare scan.simps [simp del]

definition line_push :: "line_decoder \<Rightarrow> string \<Rightarrow> string list \<times> line_decoder" where
  "line_push d chunk =
     (let text = (if ld_pending d \<and> chunk \<noteq> [] \<and> hd chunk = LF then tl chunk else chunk);
          buf = ld_buffer d @ text;
          (ls, start, pend) = scan buf (ld_scanned d) 0 False [];
          rest = drop start buf
      in (ls, \<lparr> ld_buffer = rest, ld_scanned = length rest, ld_pending = pend \<rparr>))"

definition line_flush :: "line_decoder \<Rightarrow> string option" where
  "line_flush d = (if ld_buffer d \<noteq> [] then Some (ld_buffer d) else None)"

section \<open>The event accumulator\<close>

record sse_event =
  se_event :: "string option"
  se_data :: string
  se_id :: "string option"

record accumulator =
  ac_event :: "string option"
  ac_id :: "string option"
  ac_data :: string
  ac_hasData :: bool

definition new_accumulator :: accumulator where
  "new_accumulator = \<lparr> ac_event = None, ac_id = None, ac_data = [], ac_hasData = False \<rparr>"

definition fieldValue :: "string \<Rightarrow> nat \<Rightarrow> string" where
  "fieldValue line nameLength =
     (let raw = drop (nameLength + 1) line
      in if raw \<noteq> [] \<and> hd raw = CHR '' '' then tl raw else raw)"

definition acc_dispatch :: "accumulator \<Rightarrow> sse_event option \<times> accumulator" where
  "acc_dispatch a =
     (if \<not> ac_hasData a then (None, new_accumulator)
      else (let out = \<lparr> se_event = ac_event a, se_data = ac_data a, se_id = ac_id a \<rparr>
            in (if se_data out = ''[DONE]'' then None else Some out, new_accumulator)))"

definition acc_push :: "accumulator \<Rightarrow> string \<Rightarrow> sse_event option \<times> accumulator" where
  "acc_push a line =
     (if line = [] then acc_dispatch a
      else if starts_with line '':'' then (None, a)
      else if starts_with line ''event:'' then (None, a\<lparr>ac_event := Some (trim (fieldValue line 5))\<rparr>)
      else if starts_with line ''id:'' then (None, a\<lparr>ac_id := Some (trim (fieldValue line 2))\<rparr>)
      else if starts_with line ''data:'' then
        (None, a\<lparr>ac_data := (if ac_hasData a then ac_data a @ [LF] else ac_data a) @ fieldValue line 4,
                ac_hasData := True\<rparr>)
      else (None, a))"

section \<open>The stream parser\<close>

fun push_lines :: "accumulator \<Rightarrow> string list \<Rightarrow> sse_event list \<times> accumulator" where
  "push_lines a [] = ([], a)"
| "push_lines a (l # ls) =
     (let (e, a1) = acc_push a l; (es, a2) = push_lines a1 ls
      in ((case e of None \<Rightarrow> [] | Some x \<Rightarrow> [x]) @ es, a2))"

fun read_chunks :: "line_decoder \<Rightarrow> accumulator \<Rightarrow> string list \<Rightarrow> sse_event list \<times> line_decoder \<times> accumulator" where
  "read_chunks d a [] = ([], d, a)"
| "read_chunks d a (c # cs) =
     (let (ls, d1) = line_push d c; (es, a1) = push_lines a ls; (es', d2, a2) = read_chunks d1 a1 cs
      in (es @ es', d2, a2))"

definition parseSSEStream :: "string list \<Rightarrow> sse_event list" where
  "parseSSEStream chunks =
     (let (es, d, a) = read_chunks new_decoder new_accumulator chunks;
          (es1, a1) = (case line_flush d of
                         None \<Rightarrow> ([], a)
                       | Some tail \<Rightarrow>
                           (let (e, a') = acc_push a tail in ((case e of None \<Rightarrow> [] | Some x \<Rightarrow> [x]), a')));
          (last, a2) = acc_dispatch a1
      in es @ es1 @ (case last of None \<Rightarrow> [] | Some x \<Rightarrow> [x]))"

section \<open>The reference line splitter\<close>

fun split_lines :: "string \<Rightarrow> string \<Rightarrow> string list \<times> string" where
  "split_lines cur [] = ([], cur)"
| "split_lines cur [c] =
     (if c = LF \<or> c = CR then ([cur], []) else ([], cur @ [c]))"
| "split_lines cur (c # d # s) =
     (if c = LF then (let (ls, r) = split_lines [] (d # s) in (cur # ls, r))
      else if c = CR then
        (let (ls, r) = (if d = LF then split_lines [] s else split_lines [] (d # s)) in (cur # ls, r))
      else split_lines (cur @ [c]) (d # s))"

definition split_from :: "bool \<Rightarrow> string \<Rightarrow> string \<Rightarrow> string list \<times> string" where
  "split_from pend cur s =
     (if pend \<and> s \<noteq> [] \<and> hd s = LF then split_lines cur (tl s) else split_lines cur s)"

section \<open>The decoder computes the reference split\<close>

lemma split_lines_last_CR: "s \<noteq> [] \<Longrightarrow> last s = CR \<Longrightarrow> snd (split_lines cur s) = []"
  by (induction cur s rule: split_lines.induct) (auto split: prod.splits if_splits)

lemma split_from_simps [simp]:
  "split_from False cur s = split_lines cur s"
  "split_from True cur (LF # s) = split_lines cur s"
  "c \<noteq> LF \<Longrightarrow> split_from True cur (c # s) = split_lines cur (c # s)"
  "split_from True cur [] = ([], cur)"
  by (simp_all add: split_from_def)

lemma split_lines_CR: "split_lines cur (CR # t) = (case split_from True [] t of (ls, r) \<Rightarrow> (cur # ls, r))"
  by (cases t) (auto simp: split_from_def)

lemma split_lines_LF: "split_lines cur (LF # t) = (case split_lines [] t of (ls, r) \<Rightarrow> (cur # ls, r))"
  by (cases t) auto

lemma split_lines_other: "c \<noteq> LF \<Longrightarrow> c \<noteq> CR \<Longrightarrow> split_lines cur (c # t) = split_lines (cur @ [c]) t"
  by (cases t) auto

lemmas split_lines_step = split_lines_CR split_lines_LF split_lines_other

lemma split_lines_append:
  "s \<noteq> [] \<Longrightarrow> split_lines cur (s @ t) =
     (case split_lines cur s of (l1, r1) \<Rightarrow>
        (case split_from (last s = CR) r1 t of (l2, r2) \<Rightarrow> (l1 @ l2, r2)))"
proof (induction "length s" arbitrary: s cur rule: less_induct)
  case less
  obtain c u where s: "s = c # u" using less.prems by (cases s) auto
  consider "c = LF" | "c = CR" | "c \<noteq> LF" "c \<noteq> CR" by blast
  then show ?case
  proof cases
    case 1
    show ?thesis
    proof (cases "u = []")
      case True
      then show ?thesis using 1 s by (simp add: split_lines_LF)
    next
      case False
      then show ?thesis using 1 s less.hyps[of u "[]"]
        by (simp add: split_lines_LF split: prod.split)
    qed
  next
    case 2
    show ?thesis
    proof (cases u)
      case Nil
      then show ?thesis using 2 s by (simp add: split_lines_step split: prod.split)
    next
      case (Cons d v)
      show ?thesis
      proof (cases "d = LF")
        case True
        show ?thesis
        proof (cases "v = []")
          case True
          then show ?thesis using 2 \<open>d = LF\<close> s Cons
            by (simp add: split_lines_CR split: prod.split)
        next
          case False
          then show ?thesis using 2 \<open>d = LF\<close> s Cons less.hyps[of v "[]"]
            by (simp add: split_lines_CR split: prod.split)
        qed
      next
        case False
        then show ?thesis using 2 s Cons less.hyps[of u "[]"]
          by (simp add: split_lines_CR split: prod.split)
      qed
    qed
  next
    case 3
    then show ?thesis using less.hyps[of u "cur @ [c]"] s
      by (cases "u = []") (simp_all add: split_lines_step)
  qed
qed

lemma slice_snoc: "start \<le> i \<Longrightarrow> i < length buf \<Longrightarrow> slice start (Suc i) buf = slice start i buf @ [buf ! i]"
  by (simp add: slice_def Suc_diff_le take_Suc_conv_app_nth)

lemma slice_self [simp]: "slice i i buf = []"
  by (simp add: slice_def)

lemma slice_drop: "start \<le> i \<Longrightarrow> length buf \<le> i \<Longrightarrow> drop start buf = slice start i buf"
  by (simp add: slice_def)

text \<open>What a scan from position \<open>i\<close> yields, in terms of the reference on the rest of the buffer.\<close>

lemma scan_split:
  "start \<le> i \<Longrightarrow> i \<le> length buf \<Longrightarrow> scan buf i start pend ls = (ls', start', pend') \<Longrightarrow>
   ls' = ls @ fst (split_lines (slice start i buf) (drop i buf))
   \<and> drop start' buf = snd (split_lines (slice start i buf) (drop i buf))
   \<and> pend' = (pend \<or> (i < length buf \<and> last buf = CR))"
proof (induction buf i start pend ls rule: scan.induct)
  case (1 buf i start pend ls)
  show ?case
  proof (cases "i < length buf")
    case False
    then show ?thesis using "1.prems" slice_drop[of start i buf] by (simp add: scan.simps)
  next
    case True
    then have d: "drop i buf = buf ! i # drop (Suc i) buf" by (simp add: Cons_nth_drop_Suc)
    show ?thesis
    proof (cases "Suc i < length buf")
      case False
      then have len: "length buf = Suc i" using True by simp
      then have "buf \<noteq> []" by auto
      then have "last buf = buf ! i" using len by (simp add: last_conv_nth)
      moreover have "drop (Suc i) buf = []" using len by simp
      moreover have "scan buf (Suc i) x p l = (l, x, p)" for x p l
        using len by (simp add: scan.simps[of buf "Suc i"])
      moreover have "slice start (Suc i) buf = slice start i buf @ [buf ! i]"
        using slice_snoc "1.prems" True by simp
      moreover have "drop start buf = slice start (Suc i) buf"
        using slice_drop[of start "Suc i" buf] "1.prems"(1) len by simp
      ultimately show ?thesis
        using "1.prems" len d
        by (cases "buf ! i = LF"; cases "buf ! i = CR") (auto simp: scan.simps[of buf i])
    next
      case S: True
      then have d2: "drop (Suc i) buf = buf ! Suc i # drop (Suc (Suc i)) buf"
        by (simp add: Cons_nth_drop_Suc)
      consider "buf ! i = LF" | "buf ! i = CR" "buf ! Suc i = LF" | "buf ! i = CR" "buf ! Suc i \<noteq> LF"
        | "buf ! i \<noteq> LF" "buf ! i \<noteq> CR" by blast
      then show ?thesis
      proof cases
        case 1
        then show ?thesis
          using "1.IH"(1)[OF True] "1.prems" True S d d2
          by (auto simp: scan.simps[of buf i] split: prod.splits)
      next
        case 2
        have nl: "last buf = CR \<Longrightarrow> Suc (Suc i) < length buf"
        proof (cases "length buf = Suc (Suc i)")
          case True
          then have "buf \<noteq> []" by auto
          then have "last buf = buf ! Suc i" using True by (simp add: last_conv_nth)
          then show "last buf = CR \<Longrightarrow> Suc (Suc i) < length buf" using 2 by simp
        qed (use S in simp)
        show ?thesis
          using 2 "1.IH"(2)[OF True] "1.prems" True S d d2 nl
          by (auto simp: scan.simps[of buf i] split: prod.splits)
      next
        case 3
        then show ?thesis
          using "1.IH"(3)[OF True] "1.prems" True S d d2
          by (auto simp: scan.simps[of buf i] split: prod.splits)
      next
        case 4
        then show ?thesis
          using "1.IH"(5)[OF True] "1.prems" True S d d2 slice_snoc[of start i buf]
          by (auto simp: scan.simps[of buf i] split: prod.splits)
      qed
    qed
  qed
qed


section \<open>Chunk boundaries do not matter\<close>

text \<open>A decoder between pushes holds text without a terminator; \<open>ld_pending\<close> remembers a final CR.\<close>

definition clean :: "string \<Rightarrow> bool" where
  "clean s \<longleftrightarrow> LF \<notin> set s \<and> CR \<notin> set s"

definition ld_inv :: "line_decoder \<Rightarrow> bool" where
  "ld_inv d \<longleftrightarrow> clean (ld_buffer d) \<and> ld_scanned d = length (ld_buffer d)
     \<and> (ld_pending d \<longrightarrow> ld_buffer d = [])"

lemma ld_inv_new [sdk_inv]: "ld_inv new_decoder"
  by (simp add: ld_inv_def new_decoder_def clean_def)

lemma clean_append [simp]: "clean (a @ b) \<longleftrightarrow> clean a \<and> clean b"
  by (auto simp: clean_def)

lemma clean_simps [simp]: "clean []" "clean (c # s) \<longleftrightarrow> c \<noteq> LF \<and> c \<noteq> CR \<and> clean s"
  by (auto simp: clean_def)

lemma split_lines_rest_clean: "clean cur \<Longrightarrow> clean (snd (split_lines cur s))"
  by (induction cur s rule: split_lines.induct) (auto split: prod.splits if_splits)

lemma split_lines_clean_prefix: "clean a \<Longrightarrow> split_lines cur (a @ s) = split_lines (cur @ a) s"
  by (induction a arbitrary: cur) (auto simp: split_lines_other)

text \<open>One push is the reference on the chunk, started from the buffered text.\<close>

lemma line_push_split:
  assumes inv: "ld_inv d" and p: "line_push d chunk = (ls, d')"
  shows "split_from (ld_pending d) (ld_buffer d) chunk = (ls, ld_buffer d')" and "ld_inv d'"
    and "chunk \<noteq> [] \<Longrightarrow> ld_pending d' \<longleftrightarrow> last chunk = CR"
proof -
  define tx where "tx = (if ld_pending d \<and> chunk \<noteq> [] \<and> hd chunk = LF then tl chunk else chunk)"
  define buf where "buf = ld_buffer d @ tx"
  obtain ls0 start pend where sc: "scan buf (ld_scanned d) 0 False [] = (ls0, start, pend)"
    by (cases "scan buf (ld_scanned d) 0 False []")
  have scanned: "ld_scanned d = length (ld_buffer d)" and cl: "clean (ld_buffer d)"
    using inv by (simp_all add: ld_inv_def)
  have d': "ls = ls0" "ld_buffer d' = drop start buf" "ld_scanned d' = length (drop start buf)"
    "ld_pending d' = pend"
    using p sc by (auto simp: line_push_def Let_def tx_def buf_def)
  have sl: "slice 0 (ld_scanned d) buf = ld_buffer d" "drop (ld_scanned d) buf = tx"
    by (simp_all add: slice_def buf_def scanned)
  have R: "ls0 = fst (split_lines (ld_buffer d) tx)" "drop start buf = snd (split_lines (ld_buffer d) tx)"
    "pend \<longleftrightarrow> ld_scanned d < length buf \<and> last buf = CR"
    using scan_split[OF _ _ sc] by (simp_all add: sl) (simp_all add: buf_def scanned)
  have sf: "split_from (ld_pending d) (ld_buffer d) chunk = split_lines (ld_buffer d) tx"
    by (auto simp: split_from_def tx_def)
  show "split_from (ld_pending d) (ld_buffer d) chunk = (ls, ld_buffer d')"
    by (simp add: sf d' R)
  have pend: "pend \<longleftrightarrow> tx \<noteq> [] \<and> last tx = CR"
    by (auto simp: R(3) scanned buf_def)
  have "pend \<Longrightarrow> drop start buf = []" using split_lines_last_CR pend R(2) by simp
  then show "ld_inv d'"
    using split_lines_rest_clean[OF cl, of tx] by (simp add: ld_inv_def d' R(2))
  show "chunk \<noteq> [] \<Longrightarrow> ld_pending d' \<longleftrightarrow> last chunk = CR"
    by (cases chunk) (auto simp: d' pend tx_def)
qed

lemma push_lines_append:
  "push_lines a (xs @ ys) =
     (case push_lines a xs of (es, a1) \<Rightarrow> (case push_lines a1 ys of (es', a2) \<Rightarrow> (es @ es', a2)))"
  by (induction xs arbitrary: a) (auto split: prod.splits)

lemma split_from_append:
  "s \<noteq> [] \<Longrightarrow> (p \<Longrightarrow> cur = []) \<Longrightarrow> split_from p cur (s @ t) =
     (case split_from p cur s of (l1, r1) \<Rightarrow>
        (case split_from (last s = CR) r1 t of (l2, r2) \<Rightarrow> (l1 @ l2, r2)))"
proof (cases "p \<and> hd s = LF")
  case False
  assume "s \<noteq> []"
  then show ?thesis using False split_lines_append[of s cur t] by (auto simp: split_from_def)
next
  case True
  assume "s \<noteq> []"
  then obtain u where s: "s = LF # u" using True by (cases s) auto
  show ?thesis
  proof (cases "u = []")
    case True
    then show ?thesis using s \<open>p \<and> hd s = LF\<close> by (auto simp: split: prod.split)
  next
    case False
    then show ?thesis using s \<open>p \<and> hd s = LF\<close> split_lines_append[of u cur t] by simp
  qed
qed

lemma read_chunks_split:
  "ld_inv d \<Longrightarrow> \<forall>c\<in>set cs. c \<noteq> [] \<Longrightarrow> read_chunks d a cs = (es, d', a') \<Longrightarrow>
   ld_inv d' \<and> ld_buffer d' = snd (split_from (ld_pending d) (ld_buffer d) (concat cs))
   \<and> push_lines a (fst (split_from (ld_pending d) (ld_buffer d) (concat cs))) = (es, a')"
proof (induction cs arbitrary: d a es)
  case Nil
  then show ?case by (cases "ld_pending d") (auto simp: ld_inv_def)
next
  case (Cons c cs)
  obtain ls d1 where p: "line_push d c = (ls, d1)" by (cases "line_push d c")
  obtain es1 a1 where q: "push_lines a ls = (es1, a1)" by (cases "push_lines a ls")
  obtain es2 where r: "read_chunks d1 a1 cs = (es2, d', a')" and es: "es = es1 @ es2"
    using Cons.prems(3) p q by (auto split: prod.splits)
  note lp = line_push_split[OF Cons.prems(1) p]
  have c: "c \<noteq> []" using Cons.prems(2) by simp
  have IH: "ld_inv d'" "ld_buffer d' = snd (split_from (last c = CR) (ld_buffer d1) (concat cs))"
    "push_lines a1 (fst (split_from (last c = CR) (ld_buffer d1) (concat cs))) = (es2, a')"
    using Cons.IH[OF lp(2) _ r] Cons.prems(2) lp(3)[OF c] by simp_all
  have "split_from (ld_pending d) (ld_buffer d) (c @ concat cs) =
      (case split_from (last c = CR) (ld_buffer d1) (concat cs) of (l2, r2) \<Rightarrow> (ls @ l2, r2))"
    using split_from_append[OF c, of "ld_pending d" "ld_buffer d" "concat cs"] Cons.prems(1) lp(1)
    by (simp add: ld_inv_def)
  then show ?case using IH q es by (auto simp: push_lines_append split: prod.splits)
qed

text \<open>The events of a whole text, read through the reference splitter.\<close>

definition reference_events :: "string \<Rightarrow> sse_event list" where
  "reference_events text =
     (let (ls, rest) = split_lines [] text;
          (es, a) = push_lines new_accumulator (ls @ (if rest = [] then [] else [rest]));
          (last, a') = acc_dispatch a
      in es @ (case last of None \<Rightarrow> [] | Some x \<Rightarrow> [x]))"

lemma parse_reference:
  assumes "\<forall>c\<in>set cs. c \<noteq> []"
  shows "parseSSEStream cs = reference_events (concat cs)"
proof -
  obtain es d a where r: "read_chunks new_decoder new_accumulator cs = (es, d, a)"
    by (cases "read_chunks new_decoder new_accumulator cs")
  have "split_from (ld_pending new_decoder) (ld_buffer new_decoder) (concat cs) = split_lines [] (concat cs)"
    by (simp add: new_decoder_def)
  then have "ld_buffer d = snd (split_lines [] (concat cs))"
    "push_lines new_accumulator (fst (split_lines [] (concat cs))) = (es, a)"
    using read_chunks_split[OF ld_inv_new assms r] by simp_all
  moreover obtain ls rest where "split_lines [] (concat cs) = (ls, rest)"
    by (cases "split_lines [] (concat cs)")
  ultimately show ?thesis
    using r by (simp add: parseSSEStream_def reference_events_def line_flush_def push_lines_append
        split: prod.split)
qed

section \<open>Reading back a serialised event\<close>

text \<open>
  An event as a server writes it: an optional \<open>event\<close> line, an optional \<open>id\<close> line, one \<open>data\<close> line
  per line of the payload, and a blank line.
\<close>

record wire_event =
  we_event :: "string option"
  we_id :: "string option"
  we_lines :: "string list"

definition data_line :: "string \<Rightarrow> string" where
  "data_line l = ''data: '' @ l"

definition wire_lines :: "wire_event \<Rightarrow> string list" where
  "wire_lines w =
     (case we_event w of None \<Rightarrow> [] | Some n \<Rightarrow> [''event: '' @ n]) @
     (case we_id w of None \<Rightarrow> [] | Some n \<Rightarrow> [''id: '' @ n]) @
     map data_line (we_lines w) @ [[]]"

definition encode_event :: "wire_event \<Rightarrow> string" where
  "encode_event w = concat (map (\<lambda>l. l @ [LF]) (wire_lines w))"

definition wire_value :: "wire_event \<Rightarrow> sse_event" where
  "wire_value w = \<lparr> se_event = we_event w, se_data = join [LF] (we_lines w), se_id = we_id w \<rparr>"

definition wire_ok :: "wire_event \<Rightarrow> bool" where
  "wire_ok w \<longleftrightarrow> we_lines w \<noteq> [] \<and> list_all clean (we_lines w) \<and> join [LF] (we_lines w) \<noteq> ''[DONE]''
     \<and> (case we_event w of None \<Rightarrow> True | Some n \<Rightarrow> clean n \<and> trim n = n)
     \<and> (case we_id w of None \<Rightarrow> True | Some n \<Rightarrow> clean n \<and> trim n = n)"

lemma clean_ascii: "clean ''event: ''" "clean ''id: ''" "clean ''data: ''"
  by (simp_all add: clean_def LF_def CR_def)

lemma split_lines_line: "clean l \<Longrightarrow> split_lines [] (l @ LF # s) = (l # fst (split_lines [] s), snd (split_lines [] s))"
  by (simp add: split_lines_clean_prefix split_lines_LF split: prod.split)

lemma split_lines_lines:
  "list_all clean ls \<Longrightarrow>
   split_lines [] (concat (map (\<lambda>l. l @ [LF]) ls) @ s) = (ls @ fst (split_lines [] s), snd (split_lines [] s))"
  by (induction ls) (simp_all add: split_lines_line)

lemma push_data_lines:
  "push_lines a (map data_line ls) =
     ([], if ls = [] then a
          else a\<lparr>ac_data := (if ac_hasData a then ac_data a @ [LF] else ac_data a) @ join [LF] ls,
                 ac_hasData := True\<rparr>)"
proof (induction ls arbitrary: a)
  case Nil
  then show ?case by simp
next
  case (Cons l ls)
  have "acc_push a (data_line l) =
      (None, a\<lparr>ac_data := (if ac_hasData a then ac_data a @ [LF] else ac_data a) @ l, ac_hasData := True\<rparr>)"
    by (simp add: acc_push_def fieldValue_def data_line_def)
  then show ?case using Cons by (simp add: join_Cons)
qed

lemma push_wire_lines:
  assumes "wire_ok w"
  shows "push_lines new_accumulator (wire_lines w) = ([wire_value w], new_accumulator)"
proof -
  have ev: "acc_push a (''event: '' @ n) = (None, a\<lparr>ac_event := Some (trim n)\<rparr>)" for a n
    by (simp add: acc_push_def fieldValue_def)
  have idl: "acc_push a (''id: '' @ n) = (None, a\<lparr>ac_id := Some (trim n)\<rparr>)" for a n
    by (simp add: acc_push_def fieldValue_def)
  have blank: "acc_push a [] = acc_dispatch a" for a by (simp add: acc_push_def)
  show ?thesis
    using assms ev idl blank
    by (auto simp: wire_lines_def push_lines_append push_data_lines wire_ok_def wire_value_def
        new_accumulator_def acc_dispatch_def split: option.splits)
qed

lemma wire_lines_clean: "wire_ok w \<Longrightarrow> list_all clean (wire_lines w)"
  using clean_ascii
  by (auto simp: wire_ok_def wire_lines_def data_line_def list_all_iff simp del: append_Cons split: option.splits)

lemma push_wire_events:
  "list_all wire_ok ws \<Longrightarrow>
   push_lines new_accumulator (concat (map wire_lines ws)) = (map wire_value ws, new_accumulator)"
  by (induction ws) (simp_all add: push_lines_append push_wire_lines)

lemma encode_events: "concat (map encode_event ws) = concat (map (\<lambda>l. l @ [LF]) (concat (map wire_lines ws)))"
  by (induction ws) (simp_all add: encode_event_def)

lemma reference_roundtrip:
  assumes "list_all wire_ok ws"
  shows "reference_events (concat (map encode_event ws)) = map wire_value ws"
proof -
  have "list_all clean (concat (map wire_lines ws))"
    using assms wire_lines_clean by (auto simp: list_all_iff)
  then have "split_lines [] (concat (map encode_event ws)) = (concat (map wire_lines ws), [])"
    using split_lines_lines[of "concat (map wire_lines ws)" "[]"] by (simp add: encode_events)
  then show ?thesis
    using push_wire_events[OF assms]
    by (simp add: reference_events_def acc_dispatch_def new_accumulator_def)
qed

section \<open>Properties of the parser\<close>

text \<open>C28: how the network cuts the text into chunks does not matter: for non-empty decoded chunks the parser
  yields the events of the whole text, also when a chunk ends between the CR and the LF of one line end.\<close>

theorem chunking_irrelevant:
  assumes "\<forall>c\<in>set cs. c \<noteq> []" "\<forall>c\<in>set ds. c \<noteq> []" "concat cs = concat ds"
  shows "parseSSEStream cs = parseSSEStream ds"
  using parse_reference[OF assms(1)] parse_reference[OF assms(2)] assms(3) by simp

theorem chunking_irrelevant_witness:
  "parseSSEStream [''data: a'' @ [CR], [LF, CR, LF] @ ''data: b''] = parseSSEStream [''data: a'' @ [CR, LF, CR, LF] @ ''data: b'']
   \<and> map se_data (parseSSEStream [''data: a'' @ [CR, LF, CR, LF] @ ''data: b'']) = [''a'', ''b'']"
proof
  show "parseSSEStream [''data: a'' @ [CR], [LF, CR, LF] @ ''data: b''] = parseSSEStream [''data: a'' @ [CR, LF, CR, LF] @ ''data: b'']"
    by (rule chunking_irrelevant) simp_all
  show "map se_data (parseSSEStream [''data: a'' @ [CR, LF, CR, LF] @ ''data: b'']) = [''a'', ''b'']" by code_simp
qed

text \<open>C29: the parser reads back what a server writes: any events (with clean one-line names and ids, and data
  of any number of lines other than the end mark), serialised and cut into any non-empty chunks, come out
  as they went in.\<close>

theorem sse_roundtrip:
  assumes "list_all wire_ok ws" "\<forall>c\<in>set cs. c \<noteq> []" "concat cs = concat (map encode_event ws)"
  shows "parseSSEStream cs = map wire_value ws"
  using parse_reference[OF assms(2)] assms(3) reference_roundtrip[OF assms(1)] by simp

definition sample_event :: wire_event where
  "sample_event = \<lparr> we_event = Some ''delta'', we_id = None, we_lines = [''x: 1'', '' y''] \<rparr>"

theorem sse_roundtrip_witness:
  "parseSSEStream [encode_event sample_event] = [wire_value sample_event]
   \<and> se_data (wire_value sample_event) = ''x: 1'' @ [LF] @ '' y''"
proof
  have "wire_ok sample_event" by code_simp
  then show "parseSSEStream [encode_event sample_event] = [wire_value sample_event]"
    by (intro sse_roundtrip[of "[sample_event]", simplified]) (simp_all add: encode_event_def wire_lines_def sample_event_def)
  show "se_data (wire_value sample_event) = ''x: 1'' @ [LF] @ '' y''" by code_simp
qed

text \<open>an empty decoded chunk (a chunk that ends inside a character decodes to nothing) between a CR and
  its LF makes the LF a line end of its own: the event is cut in two.\<close>

theorem empty_chunk_splits_event:
  "map se_data (parseSSEStream [''data: a'' @ [CR], [LF] @ ''data: b'' @ [CR, LF, CR, LF]]) = [''a'' @ [LF] @ ''b'']
   \<and> map se_data (parseSSEStream [''data: a'' @ [CR], [], [LF] @ ''data: b'' @ [CR, LF, CR, LF]]) = [''a'', ''b'']"
  by code_simp

end
