(* ===== verification/HookBus.thy ===== *)
theory HookBus
  imports Prelude
begin

text \<open>
  \<open>src/bus/hook-bus.ts\<close>. A handler is the identity of a function; what it does to the bus while it runs
  (and while \<open>emit\<close> awaits it) and whether it throws is the parameter \<open>react\<close>. The handler lists are
  arrays in a store, because \<open>emit\<close> iterates the live array: a subscription made or undone by a handler
  changes the iteration that is running, and \<open>off\<close> drops the array from the map without ending it.
\<close>

datatype hook_entry = Direct nat | Once nat nat

text \<open>\<open>Once k h\<close> is the wrapper function created by the \<open>k\<close>-th call of \<open>once\<close> around \<open>h\<close>.\<close>

fun entry_handler :: "hook_entry \<Rightarrow> nat" where
  "entry_handler (Direct h) = h"
| "entry_handler (Once k h) = h"

record hook_bus =
  hb_handlers :: "nat dict"
  hb_any :: nat
  hb_store :: "nat \<Rightarrow> hook_entry list"
  hb_next :: nat
  hb_onces :: nat

definition new_HookBus :: hook_bus where
  "new_HookBus = \<lparr> hb_handlers = [], hb_any = 0, hb_store = (\<lambda>_. []), hb_next = 1, hb_onces = 0 \<rparr>"

definition push_entry :: "nat \<Rightarrow> hook_entry \<Rightarrow> hook_bus \<Rightarrow> hook_bus" where
  "push_entry r e b = b\<lparr>hb_store := (hb_store b)(r := hb_store b r @ [e])\<rparr>"

text \<open>\<open>indexOf\<close> and \<open>splice\<close>: the first occurrence goes.\<close>

definition splice_entry :: "nat \<Rightarrow> hook_entry \<Rightarrow> hook_bus \<Rightarrow> hook_bus" where
  "splice_entry r e b = b\<lparr>hb_store := (hb_store b)(r := remove1 e (hb_store b r))\<rparr>"

definition onAny :: "nat \<Rightarrow> hook_bus \<Rightarrow> hook_bus" where
  "onAny h b = push_entry (hb_any b) (Direct h) b"

definition unsubscribeAny :: "nat \<Rightarrow> hook_bus \<Rightarrow> hook_bus" where
  "unsubscribeAny h b = splice_entry (hb_any b) (Direct h) b"

definition on_entry :: "string \<Rightarrow> hook_entry \<Rightarrow> hook_bus \<Rightarrow> hook_bus" where
  "on_entry name e b =
     (case map_of (hb_handlers b) name of
        Some r \<Rightarrow> push_entry r e b
      | None \<Rightarrow>
          (let r = hb_next b
           in push_entry r e (b\<lparr>hb_handlers := AList.update name r (hb_handlers b),
                                hb_store := (hb_store b)(r := []), hb_next := r + 1\<rparr>)))"

definition on_hook :: "string \<Rightarrow> nat \<Rightarrow> hook_bus \<Rightarrow> hook_bus" where
  "on_hook name h = on_entry name (Direct h)"

text \<open>The function returned by \<open>on\<close>.\<close>

definition unsubscribe :: "string \<Rightarrow> hook_entry \<Rightarrow> hook_bus \<Rightarrow> hook_bus" where
  "unsubscribe name e b =
     (case map_of (hb_handlers b) name of
        None \<Rightarrow> b
      | Some r \<Rightarrow>
          (let b1 = splice_entry r e b
           in if hb_store b1 r = [] then b1\<lparr>hb_handlers := AList.delete name (hb_handlers b1)\<rparr> else b1))"

definition once :: "string \<Rightarrow> nat \<Rightarrow> hook_bus \<Rightarrow> hook_entry \<times> hook_bus" where
  "once name h b =
     (let e = Once (hb_onces b) h in (e, on_entry name e (b\<lparr>hb_onces := hb_onces b + 1\<rparr>)))"

definition off :: "string option \<Rightarrow> hook_bus \<Rightarrow> hook_bus" where
  "off name b =
     (case truthy_str name of
        Some n \<Rightarrow> b\<lparr>hb_handlers := AList.delete n (hb_handlers b)\<rparr>
      | None \<Rightarrow> b\<lparr>hb_handlers := [], hb_any := hb_next b, hb_store := (hb_store b)(hb_next b := []),
                  hb_next := hb_next b + 1\<rparr>)"

definition subscribers :: "string \<Rightarrow> hook_bus \<Rightarrow> hook_entry list" where
  "subscribers name b = (case map_of (hb_handlers b) name of None \<Rightarrow> [] | Some r \<Rightarrow> hb_store b r)"

definition has :: "string \<Rightarrow> hook_bus \<Rightarrow> bool" where
  "has name b = (subscribers name b \<noteq> [])"

definition handlerCount :: "hook_bus \<Rightarrow> nat" where
  "handlerCount b = length (hb_store b (hb_any b)) + sum_list (map (\<lambda>(n, r). length (hb_store b r)) (hb_handlers b))"

section \<open>Emitting\<close>

datatype bus_cmd =
    COn string nat | COnce string nat | CUnsub string hook_entry | COff "string option"
  | COnAny nat | CUnsubAny nat

fun perform :: "bus_cmd \<Rightarrow> hook_bus \<Rightarrow> hook_bus" where
  "perform (COn n h) b = on_hook n h b"
| "perform (COnce n h) b = snd (once n h b)"
| "perform (CUnsub n e) b = unsubscribe n e b"
| "perform (COff n) b = off n b"
| "perform (COnAny h) b = onAny h b"
| "perform (CUnsubAny h) b = unsubscribeAny h b"

type_synonym 'x reaction = "bus_cmd list \<times> 'x option"

text \<open>Calling an entry: a \<open>once\<close> wrapper unsubscribes itself first.\<close>

definition call_entry :: "(nat \<Rightarrow> 'x reaction) \<Rightarrow> string \<Rightarrow> hook_entry \<Rightarrow> hook_bus \<Rightarrow> 'x option \<times> hook_bus" where
  "call_entry react name e b =
     (let b1 = (case e of Once k h \<Rightarrow> unsubscribe name e b | Direct h \<Rightarrow> b);
          (cmds, thrown) = react (entry_handler e)
      in (thrown, fold perform cmds b1))"

text \<open>
  \<open>for (const handler of list) await handler(ctx)\<close> over the live array \<open>r\<close>; the calls made, the error that
  ended it, and the bus. A handler that keeps subscribing may never let it end, hence the fuel.
\<close>

fun iterate :: "(nat \<Rightarrow> 'x reaction) \<Rightarrow> string \<Rightarrow> nat \<Rightarrow> nat \<Rightarrow> nat \<Rightarrow> hook_bus \<Rightarrow> (nat list \<times> 'x option \<times> hook_bus) option" where
  "iterate react name r 0 i b = None"
| "iterate react name r (Suc fuel) i b =
     (if i < length (hb_store b r) then
        (let e = hb_store b r ! i; (thrown, b1) = call_entry react name e b
         in case thrown of
              Some x \<Rightarrow> Some ([entry_handler e], Some x, b1)
            | None \<Rightarrow> map_option (\<lambda>(calls, res). (entry_handler e # calls, res)) (iterate react name r fuel (i + 1) b1))
      else Some ([], None, b))"

definition emit :: "(nat \<Rightarrow> 'x reaction) \<Rightarrow> nat \<Rightarrow> string \<Rightarrow> hook_bus \<Rightarrow> (nat list \<times> 'x option \<times> hook_bus) option" where
  "emit react fuel name b =
     (case (case map_of (hb_handlers b) name of
              None \<Rightarrow> Some ([], None, b)
            | Some r \<Rightarrow> iterate react name r fuel 0 b) of
        None \<Rightarrow> None
      | Some (calls, Some x, b1) \<Rightarrow> Some (calls, Some x, b1)
      | Some (calls, None, b1) \<Rightarrow>
          map_option (\<lambda>(more, res). (calls @ more, res)) (iterate react name (hb_any b1) fuel 0 b1))"

section \<open>Lemmas\<close>

definition idle_react :: "(nat \<Rightarrow> 'x reaction) \<Rightarrow> bool" where
  "idle_react react \<longleftrightarrow> (\<forall>h. react h = ([], None))"

fun direct :: "hook_entry \<Rightarrow> bool" where
  "direct (Direct h) = True"
| "direct (Once k h) = False"

lemma call_passive: "idle_react react \<Longrightarrow> direct e \<Longrightarrow> call_entry react name e b = (None, b)"
  by (cases e) (simp_all add: call_entry_def idle_react_def)

lemma iterate_prefix:
  assumes "idle_react react"
  shows "i + n \<le> length (hb_store b r) \<Longrightarrow> list_all direct (take n (drop i (hb_store b r))) \<Longrightarrow>
    iterate react name r (n + fuel) i b =
    map_option (\<lambda>(calls, res). (map entry_handler (take n (drop i (hb_store b r))) @ calls, res))
      (iterate react name r fuel (i + n) b)"
proof (induction n arbitrary: i)
  case 0
  then show ?case by (simp add: option.map_ident case_prod_unfold)
next
  case (Suc n)
  then have i: "i < length (hb_store b r)" by simp
  note d = Cons_nth_drop_Suc[OF i, symmetric]
  have e: "direct (hb_store b r ! i)" "list_all direct (take n (drop (Suc i) (hb_store b r)))"
    using Suc.prems(2) by (simp_all add: d)
  then have ih: "iterate react name r (n + fuel) (i + 1) b =
      map_option (\<lambda>(calls, res). (map entry_handler (take n (drop (Suc i) (hb_store b r))) @ calls, res))
        (iterate react name r fuel (i + Suc n) b)"
    using Suc.IH[of "i + 1"] Suc.prems(1) by simp
  then show ?case
    using i call_passive[OF assms e(1)]
    by (simp add: d Let_def option.map_comp comp_def case_prod_unfold)
qed

lemma iterate_end: "length (hb_store b r) \<le> i \<Longrightarrow> 0 < fuel \<Longrightarrow> iterate react name r fuel i b = Some ([], None, b)"
  by (cases fuel) simp_all

lemma iterate_direct:
  assumes "idle_react react" "list_all direct (drop i (hb_store b r))" "i \<le> length (hb_store b r)"
    "length (hb_store b r) < i + fuel"
  shows "iterate react name r fuel i b = Some (map entry_handler (drop i (hb_store b r)), None, b)"
proof -
  let ?n = "length (hb_store b r) - i"
  have "fuel = ?n + (fuel - ?n)" "0 < fuel - ?n" using assms(3,4) by linarith+
  then show ?thesis
    using iterate_prefix[OF assms(1), of i ?n b r name "fuel - ?n"] assms(2,3)
      iterate_end[of b r "i + ?n" "fuel - ?n" react name] by simp
qed

section \<open>Properties\<close>

text \<open>an emission calls every subscriber of the hook in the order of registration and then every
  catch-all subscriber in theirs, and changes nothing, when no subscriber throws or touches the bus.\<close>

theorem emit_in_order:
  assumes "idle_react react" "list_all direct (subscribers name b)" "list_all direct (hb_store b (hb_any b))"
    and "length (subscribers name b) < fuel" "length (hb_store b (hb_any b)) < fuel"
  shows "emit react fuel name b =
    Some (map entry_handler (subscribers name b) @ map entry_handler (hb_store b (hb_any b)), None, b)"
  using assms iterate_direct[OF assms(1), of 0]
  by (simp add: emit_def subscribers_def split: option.splits)

definition sample_bus :: hook_bus where
  "sample_bus = onAny 9 (on_hook ''onRetry'' 2 (on_hook ''onRetry'' 1 new_HookBus))"

theorem emit_in_order_witness:
  "emit (\<lambda>h. ([], None :: unit option)) 10 ''onRetry'' sample_bus = Some ([1, 2, 9], None, sample_bus)"
proof -
  have s: "subscribers ''onRetry'' sample_bus = [Direct 1, Direct 2]" "hb_store sample_bus (hb_any sample_bus) = [Direct 9]"
    by code_simp+
  then show ?thesis using emit_in_order[of "\<lambda>h. ([], None)" "''onRetry''" sample_bus 10] by (simp add: idle_react_def)
qed

text \<open>a \<open>once\<close> subscriber makes an emission skip the next one: its wrapper removes itself from the array
  being iterated, so the subscriber registered right after it is not called by that emission.\<close>

theorem once_skips_next:
  assumes idle: "idle_react react" and m: "map_of (hb_handlers b) name = Some r" "hb_any b \<noteq> r" "hb_store b (hb_any b) = []"
    and l: "hb_store b r = pre @ Once k h # nxt # post" "list_all direct pre" "direct nxt" "list_all direct post"
    and f: "length (hb_store b r) < fuel"
  shows "\<exists>b'. emit react fuel name b = Some (map entry_handler pre @ h # map entry_handler post, None, b')
    \<and> subscribers name b' = pre @ nxt # post"
proof -
  define b1 where "b1 = splice_entry r (Once k h) b"
  have notin: "Once k h \<notin> set pre" using l(2) by (auto simp: list_all_iff)
  have s1: "hb_store b1 r = pre @ nxt # post" using notin l(1) by (simp add: b1_def splice_entry_def remove1_append)
  have u: "unsubscribe name (Once k h) b = b1"
    using m(1) s1 by (simp add: unsubscribe_def b1_def Let_def)
  have c: "call_entry react name (Once k h) b = (None, b1)"
    using idle u by (simp add: call_entry_def idle_react_def)
  define g where "g = fuel - length pre"
  have g: "fuel = length pre + g" "g = Suc (g - 1)" "length (pre @ nxt # post) < Suc (length pre) + (g - 1)"
    using f l(1) by (simp_all add: g_def)
  have rest: "iterate react name r (g - 1) (Suc (length pre)) b1 = Some (map entry_handler post, None, b1)"
    using iterate_direct[OF idle, of "Suc (length pre)" b1 r "g - 1" name] g(3) l(4) by (simp add: s1)
  have "iterate react name r g (length pre) b = Some (h # map entry_handler post, None, b1)"
    using rest l(1) c by (subst g(2)) (simp add: nth_append)
  then have "iterate react name r fuel 0 b = Some (map entry_handler pre @ h # map entry_handler post, None, b1)"
    using iterate_prefix[OF idle, of 0 "length pre" b r name g] l(1,2) g(1) by simp
  moreover have "hb_any b1 = hb_any b" "hb_store b1 (hb_any b) = []" "hb_handlers b1 = hb_handlers b"
    using m(2,3) by (simp_all add: b1_def splice_entry_def)
  moreover have "0 < fuel" using f by simp
  ultimately show ?thesis using m(1) s1 by (simp add: emit_def iterate_end subscribers_def)
qed

theorem once_skips_next_witness:
  "let b = on_hook ''onRetry'' 2 (snd (once ''onRetry'' 1 new_HookBus))
   in subscribers ''onRetry'' b = [Once 0 1, Direct 2]
      \<and> (\<exists>b'. emit (\<lambda>h. ([], None :: unit option)) 10 ''onRetry'' b = Some ([1], None, b') \<and> subscribers ''onRetry'' b' = [Direct 2])"
proof -
  define b where "b = on_hook ''onRetry'' 2 (snd (once ''onRetry'' 1 new_HookBus))"
  have s: "map_of (hb_handlers b) ''onRetry'' = Some 1" "hb_any b \<noteq> 1" "hb_store b (hb_any b) = []"
    "hb_store b 1 = [] @ Once 0 1 # Direct 2 # []" "subscribers ''onRetry'' b = [Once 0 1, Direct 2]"
    unfolding b_def by code_simp+
  then show ?thesis
    using once_skips_next[of "\<lambda>h. ([], None)" b "''onRetry''" 1 "[]" 0 1 "Direct 2" "[]" 10] s
    unfolding b_def[symmetric] by (simp add: idle_react_def Let_def)
qed

text \<open>Every name has its own non-empty array, distinct from the catch-all array.\<close>

definition bus_inv :: "hook_bus \<Rightarrow> bool" where
  "bus_inv b \<longleftrightarrow> hb_any b < hb_next b
     \<and> (\<forall>n r. map_of (hb_handlers b) n = Some r \<longrightarrow> r < hb_next b \<and> r \<noteq> hb_any b \<and> hb_store b r \<noteq> [])
     \<and> (\<forall>m n r. map_of (hb_handlers b) m = Some r \<and> map_of (hb_handlers b) n = Some r \<longrightarrow> m = n)"

lemma bus_inv_new: "bus_inv new_HookBus"
  by (simp add: bus_inv_def new_HookBus_def)

lemma bus_inv_on: "bus_inv b \<Longrightarrow> bus_inv (on_entry name e b)"
  by (auto simp: bus_inv_def on_entry_def push_entry_def update_conv' Let_def split: option.split if_splits)
     (metis less_irrefl_nat less_SucI)+

lemma bus_inv_unsubscribe: "bus_inv b \<Longrightarrow> bus_inv (unsubscribe name e b)"
  by (auto simp: bus_inv_def unsubscribe_def splice_entry_def delete_conv' Let_def split: option.split if_splits)

lemma bus_inv_any: "bus_inv b \<Longrightarrow> bus_inv (onAny h b)" "bus_inv b \<Longrightarrow> bus_inv (unsubscribeAny h b)"
  by (auto simp: bus_inv_def onAny_def unsubscribeAny_def push_entry_def splice_entry_def)

lemma bus_inv_off: "bus_inv b \<Longrightarrow> bus_inv (off name b)"
  by (auto simp: bus_inv_def off_def delete_conv' split: option.split if_splits)

lemma bus_inv_perform: "bus_inv b \<Longrightarrow> bus_inv (perform c b)"
proof (cases c)
  case (COnce n h)
  assume "bus_inv b"
  then have "bus_inv (b\<lparr>hb_onces := k\<rparr>)" for k by (simp add: bus_inv_def)
  then show ?thesis using COnce by (simp add: once_def Let_def bus_inv_on)
qed (simp_all add: on_hook_def bus_inv_on bus_inv_unsubscribe bus_inv_off bus_inv_any)

text \<open>unsubscribing undoes a subscription: after any history of the bus, \<open>on\<close> followed by the function it
  returned leaves the subscribers of every hook as they were.\<close>

theorem unsubscribe_undoes_on:
  assumes "b = fold perform cs new_HookBus" "Direct h \<notin> set (subscribers name b)"
  shows "subscribers n (unsubscribe name (Direct h) (on_hook name h b)) = subscribers n b"
proof -
  have "bus_inv (fold perform cs b0)" if "bus_inv b0" for b0
    using that by (induction cs arbitrary: b0) (simp_all add: bus_inv_perform)
  then have inv: "bus_inv b" using assms(1) bus_inv_new by simp
  show ?thesis
  proof (cases "map_of (hb_handlers b) name")
    case None
    then show ?thesis using inv
      by (auto simp: bus_inv_def subscribers_def unsubscribe_def on_hook_def on_entry_def push_entry_def
          splice_entry_def update_conv' delete_conv' Let_def split: option.splits)
  next
    case (Some r)
    then have "remove1 (Direct h) (hb_store b r @ [Direct h]) = hb_store b r" "hb_store b r \<noteq> []"
      using assms(2) inv by (auto simp: subscribers_def bus_inv_def remove1_append)
    then show ?thesis using Some inv
      by (auto simp: bus_inv_def subscribers_def unsubscribe_def on_hook_def on_entry_def push_entry_def
          splice_entry_def Let_def split: option.splits)
  qed
qed

theorem unsubscribe_undoes_on_witness:
  "subscribers ''onRetry'' (unsubscribe ''onRetry'' (Direct 5) (on_hook ''onRetry'' 5 (perform (COn ''onRetry'' 4) new_HookBus))) = [Direct 4]"
proof -
  have "subscribers ''onRetry'' (perform (COn ''onRetry'' 4) new_HookBus) = [Direct 4]" by code_simp
  then show ?thesis
    using unsubscribe_undoes_on[OF refl, of 5 "''onRetry''" "[COn ''onRetry'' 4]" "''onRetry''"] by simp
qed

end
