(* ===== verification/AgentBus.thy ===== *)
theory AgentBus
  imports Json
begin

text \<open>
  \<open>src/bus/agent-bus.ts\<close>. A subscription is an entry of a fresh identity around a handler (the identity
  of a function); the maps and sets are insertion-ordered lists. What a handler does while it runs is the
  parameter \<open>react\<close>: the emits it awaits, the subscriptions it makes or undoes, and whether it throws.
  Random ids and the clock are the parameters \<open>mk_id\<close> and \<open>clock\<close> of the number of events built so far.
  Handlers that emit without awaiting are not modelled.
\<close>

record agent_event =
  ae_id :: string
  ae_source :: string
  ae_kind :: string
  ae_payload :: json
  ae_timestamp :: rat
  ae_correlationId :: "string option"
  ae_causedBy :: "string option"

record event_input =
  ei_id :: "string option"
  ei_source :: string
  ei_kind :: string
  ei_payload :: json
  ei_timestamp :: "rat option"
  ei_correlationId :: "string option"
  ei_causedBy :: "string option"

type_synonym entry = "nat \<times> nat"

record agent_bus =
  ab_exact :: "entry list dict"
  ab_prefix :: "entry list dict"
  ab_wildcard :: "entry list"
  ab_replies :: "entry list dict"
  ab_queue :: "(nat \<times> agent_event) list"
  ab_nextEntry :: nat
  ab_nextPromise :: nat
  ab_built :: nat

definition new_AgentBus :: agent_bus where
  "new_AgentBus = \<lparr> ab_exact = [], ab_prefix = [], ab_wildcard = [], ab_replies = [], ab_queue = [],
     ab_nextEntry = 0, ab_nextPromise = 0, ab_built = 0 \<rparr>"

section \<open>Subscribing\<close>

datatype subscription = SubWildcard entry | SubPrefix string entry | SubExact string entry | SubReply string entry

definition add_entry :: "string \<Rightarrow> entry \<Rightarrow> entry list dict \<Rightarrow> entry list dict" where
  "add_entry k e m = AList.update k (nullish (map_of m k) [] @ [e]) m"

definition drop_entry :: "string \<Rightarrow> entry \<Rightarrow> entry list dict \<Rightarrow> entry list dict" where
  "drop_entry k e m =
     (case map_of m k of
        None \<Rightarrow> m
      | Some s \<Rightarrow> (let s1 = removeAll e s in if s1 = [] then AList.delete k m else AList.update k s1 m))"

definition on_kind :: "string \<Rightarrow> nat \<Rightarrow> agent_bus \<Rightarrow> subscription \<times> agent_bus" where
  "on_kind kindPattern handler b =
     (let e = (ab_nextEntry b, handler); b1 = b\<lparr>ab_nextEntry := ab_nextEntry b + 1\<rparr>
      in if kindPattern = ''*'' then (SubWildcard e, b1\<lparr>ab_wildcard := ab_wildcard b1 @ [e]\<rparr>)
         else if ends_with kindPattern ''.*'' then
           (let p = butlast kindPattern in (SubPrefix p e, b1\<lparr>ab_prefix := add_entry p e (ab_prefix b1)\<rparr>))
         else (SubExact kindPattern e, b1\<lparr>ab_exact := add_entry kindPattern e (ab_exact b1)\<rparr>))"

definition onReply :: "string \<Rightarrow> nat \<Rightarrow> agent_bus \<Rightarrow> subscription \<times> agent_bus" where
  "onReply correlationId handler b =
     (let e = (ab_nextEntry b, handler)
      in (SubReply correlationId e,
          b\<lparr>ab_nextEntry := ab_nextEntry b + 1, ab_replies := add_entry correlationId e (ab_replies b)\<rparr>))"

fun unsubscribe_agent :: "subscription \<Rightarrow> agent_bus \<Rightarrow> agent_bus" where
  "unsubscribe_agent (SubWildcard e) b = b\<lparr>ab_wildcard := removeAll e (ab_wildcard b)\<rparr>"
| "unsubscribe_agent (SubPrefix p e) b = b\<lparr>ab_prefix := drop_entry p e (ab_prefix b)\<rparr>"
| "unsubscribe_agent (SubExact k e) b = b\<lparr>ab_exact := drop_entry k e (ab_exact b)\<rparr>"
| "unsubscribe_agent (SubReply c e) b = b\<lparr>ab_replies := drop_entry c e (ab_replies b)\<rparr>"

definition dict_count :: "entry list dict \<Rightarrow> nat" where
  "dict_count m = sum_list (map (length \<circ> snd) m)"

definition agent_handlerCount :: "agent_bus \<Rightarrow> nat" where
  "agent_handlerCount b =
     length (ab_wildcard b) + dict_count (ab_exact b) + dict_count (ab_prefix b) + dict_count (ab_replies b)"

definition clear_agent :: "agent_bus \<Rightarrow> agent_bus" where
  "clear_agent b = b\<lparr>ab_exact := [], ab_prefix := [], ab_wildcard := [], ab_replies := []\<rparr>"

section \<open>Processing one event\<close>

definition kind_subs :: "agent_bus \<Rightarrow> string \<Rightarrow> entry list" where
  "kind_subs b kind =
     ab_wildcard b
     @ concat (map (\<lambda>(p, s). if starts_with kind p then s else []) (ab_prefix b))
     @ nullish (map_of (ab_exact b) kind) []"

definition match_subs :: "agent_bus \<Rightarrow> agent_event \<Rightarrow> entry list" where
  "match_subs b ev =
     kind_subs b (ae_kind ev)
     @ (case truthy_str (ae_correlationId ev) of
          None \<Rightarrow> []
        | Some c \<Rightarrow> nullish (map_of (ab_replies b) c) [])"

datatype agent_cmd = AEmit event_input | AOn string nat | AOnReply string nat | AUnsub subscription

text \<open>A call of a handler with an event, in the order the calls start.\<close>

type_synonym call = "nat \<times> agent_event"
type_synonym reactions = "nat \<Rightarrow> agent_event \<Rightarrow> agent_cmd list \<times> string option"
type_synonym outcome = "(call list \<times> agent_bus) option"

record ambient =
  am_id :: "nat \<Rightarrow> string"
  am_clock :: "nat \<Rightarrow> rat"
  am_react :: reactions

definition build_event :: "ambient \<Rightarrow> event_input \<Rightarrow> agent_bus \<Rightarrow> agent_event \<times> agent_bus" where
  "build_event amb inp b =
     (\<lparr> ae_id = nullish (ei_id inp) (am_id amb (ab_built b)), ae_source = ei_source inp, ae_kind = ei_kind inp,
        ae_payload = ei_payload inp, ae_timestamp = nullish (ei_timestamp inp) (am_clock amb (ab_built b)),
        ae_correlationId = ei_correlationId inp, ae_causedBy = ei_causedBy inp \<rparr>,
      b\<lparr>ab_built := ab_built b + 1\<rparr>)"

definition handler_error_event :: "ambient \<Rightarrow> agent_event \<Rightarrow> string \<Rightarrow> agent_bus \<Rightarrow> agent_event \<times> agent_bus" where
  "handler_error_event amb orig msg b =
     build_event amb
       \<lparr> ei_id = None, ei_source = ''agent-bus'', ei_kind = ''system.handler-error'',
         ei_payload = JObj [(''originalKind'', JStr (ae_kind orig)), (''error'', JStr msg)],
         ei_timestamp = None, ei_correlationId = None, ei_causedBy = Some (ae_id orig) \<rparr> b"

text \<open>\<open>nested\<close> processes the event of a reentrant emit; a handler awaits it before it goes on.\<close>

fun run_cmds :: "ambient \<Rightarrow> (agent_event \<Rightarrow> agent_bus \<Rightarrow> outcome) \<Rightarrow> agent_cmd list \<Rightarrow> agent_bus \<Rightarrow> outcome" where
  "run_cmds amb nested [] b = Some ([], b)"
| "run_cmds amb nested (AEmit inp # cs) b =
     (let (ev, b1) = build_event amb inp b
      in case nested ev b1 of
           None \<Rightarrow> None
         | Some (t, b2) \<Rightarrow> map_option (\<lambda>(t', b3). (t @ t', b3)) (run_cmds amb nested cs b2))"
| "run_cmds amb nested (AOn p h # cs) b = run_cmds amb nested cs (snd (on_kind p h b))"
| "run_cmds amb nested (AOnReply c h # cs) b = run_cmds amb nested cs (snd (onReply c h b))"
| "run_cmds amb nested (AUnsub u # cs) b = run_cmds amb nested cs (unsubscribe_agent u b)"

definition call_handler ::
  "ambient \<Rightarrow> (agent_event \<Rightarrow> agent_bus \<Rightarrow> outcome) \<Rightarrow> entry \<Rightarrow> agent_event \<Rightarrow> agent_bus \<Rightarrow> outcome" where
  "call_handler amb nested e ev b =
     map_option (\<lambda>(t, b1). ((snd e, ev) # t, b1)) (run_cmds amb nested (fst (am_react amb (snd e) ev)) b)"

fun call_each ::
  "ambient \<Rightarrow> (agent_event \<Rightarrow> agent_bus \<Rightarrow> outcome) \<Rightarrow> entry list \<Rightarrow> agent_event \<Rightarrow> agent_bus \<Rightarrow> outcome" where
  "call_each amb nested [] ev b = Some ([], b)"
| "call_each amb nested (e # es) ev b =
     (case call_handler amb nested e ev b of
        None \<Rightarrow> None
      | Some (t, b1) \<Rightarrow> map_option (\<lambda>(t', b2). (t @ t', b2)) (call_each amb nested es ev b1))"

definition emitInternalError ::
  "ambient \<Rightarrow> (agent_event \<Rightarrow> agent_bus \<Rightarrow> outcome) \<Rightarrow> agent_event \<Rightarrow> string \<Rightarrow> agent_bus \<Rightarrow> outcome" where
  "emitInternalError amb nested orig msg b =
     (let (ev, b1) = handler_error_event amb orig msg b
      in call_each amb nested (kind_subs b1 (ae_kind ev)) ev b1)"

fun run_subs ::
  "ambient \<Rightarrow> (agent_event \<Rightarrow> agent_bus \<Rightarrow> outcome) \<Rightarrow> entry list \<Rightarrow> agent_event \<Rightarrow> agent_bus \<Rightarrow> outcome" where
  "run_subs amb nested [] ev b = Some ([], b)"
| "run_subs amb nested (e # es) ev b =
     (case call_handler amb nested e ev b of
        None \<Rightarrow> None
      | Some (t, b1) \<Rightarrow>
          (case (case snd (am_react amb (snd e) ev) of
                   None \<Rightarrow> Some ([], b1)
                 | Some msg \<Rightarrow> emitInternalError amb nested ev msg b1) of
             None \<Rightarrow> None
           | Some (t1, b2) \<Rightarrow> map_option (\<lambda>(t', b3). (t @ t1 @ t', b3)) (run_subs amb nested es ev b2)))"

text \<open>\<open>processEvent\<close>; the fuel bounds the depth of reentrant emits.\<close>

fun processEvent :: "ambient \<Rightarrow> nat \<Rightarrow> agent_event \<Rightarrow> agent_bus \<Rightarrow> outcome" where
  "processEvent amb 0 ev b = None"
| "processEvent amb (Suc fuel) ev b = run_subs amb (processEvent amb fuel) (match_subs b ev) ev b"

section \<open>Top-level emits\<close>

definition emit_top :: "ambient \<Rightarrow> event_input \<Rightarrow> agent_bus \<Rightarrow> nat \<times> agent_bus" where
  "emit_top amb inp b =
     (let (ev, b1) = build_event amb inp b; p = ab_nextPromise b1
      in (p, b1\<lparr>ab_queue := ab_queue b1 @ [(p, ev)], ab_nextPromise := p + 1\<rparr>))"

definition reply :: "ambient \<Rightarrow> string \<Rightarrow> event_input \<Rightarrow> agent_bus \<Rightarrow> nat \<times> agent_bus" where
  "reply amb correlationId inp b = emit_top amb (inp\<lparr>ei_correlationId := Some correlationId\<rparr>) b"

text \<open>One turn of \<open>drain\<close>: the promise it settles and the calls it made.\<close>

definition drain_one :: "ambient \<Rightarrow> nat \<Rightarrow> agent_bus \<Rightarrow> (nat \<times> call list \<times> agent_bus) option" where
  "drain_one amb fuel b =
     (case ab_queue b of
        [] \<Rightarrow> None
      | (p, ev) # q \<Rightarrow>
          map_option (\<lambda>(t, b1). (p, t, b1)) (processEvent amb fuel ev (b\<lparr>ab_queue := q\<rparr>)))"

section \<open>Patterns\<close>

definition pattern_matches :: "string \<Rightarrow> string \<Rightarrow> bool" where
  "pattern_matches pat kind =
     (if pat = ''*'' then True
      else if ends_with pat ''.*'' then starts_with kind (butlast pat) else kind = pat)"

lemma add_entry_pair:
  "(k, s) \<in> set (add_entry p e m) \<Longrightarrow> (k, s) \<in> set m \<or> (k = p \<and> s = nullish (map_of m p) [] @ [e])"
  unfolding add_entry_def by (induction m) (auto split: if_splits)

lemma prefix_subs_add:
  "set (concat (map (\<lambda>(p, s). if P p then s else []) (add_entry q e m))) =
   set (concat (map (\<lambda>(p, s). if P p then s else []) m)) \<union> (if P q then {e} else {})"
proof (induction m)
  case Nil
  then show ?case by (simp add: add_entry_def nullish_def)
next
  case (Cons x m)
  show ?case
  proof (cases "fst x = q")
    case True
    then show ?thesis by (cases x) (auto simp: add_entry_def nullish_def)
  next
    case False
    then have "add_entry q e (x # m) = x # add_entry q e m" by (cases x) (simp add: add_entry_def)
    then show ?thesis using Cons by (cases x) auto
  qed
qed

text \<open>a subscription by pattern receives exactly the events its pattern names: all of them for \<open>*\<close>,
  those whose kind starts with \<open>foo.\<close> for \<open>foo.*\<close>, those of that kind for a plain name; the subscribers
  that were there keep receiving what they did.\<close>

theorem on_receives_pattern:
  "set (kind_subs (snd (on_kind pat h b)) kind) =
     set (kind_subs b kind) \<union> (if pattern_matches pat kind then {(ab_nextEntry b, h)} else {})"
proof -
  define P where "P m = set (concat (map (\<lambda>(p, s). if starts_with kind p then s else []) m))" for m :: "entry list dict"
  define X where "X m = set (nullish (map_of m kind) [])" for m :: "entry list dict"
  have ks: "set (kind_subs c kind) = set (ab_wildcard c) \<union> P (ab_prefix c) \<union> X (ab_exact c)" for c
    by (simp only: kind_subs_def P_def X_def set_append) blast
  have pre: "P (add_entry q e m) = P m \<union> (if starts_with kind q then {e} else {})" for q e m
    unfolding P_def by (rule prefix_subs_add)
  have ex: "X (add_entry pat e m) = X m \<union> (if kind = pat then {e} else {})" for e m
    by (auto simp: X_def add_entry_def update_conv' nullish_def)
  show ?thesis
    unfolding ks by (auto simp: on_kind_def pattern_matches_def Let_def pre ex split: if_splits)
qed

section \<open>Undoing a subscription\<close>

definition dict_inv :: "nat \<Rightarrow> entry list dict \<Rightarrow> bool" where
  "dict_inv n m \<longleftrightarrow> distinct (map fst m) \<and> (\<forall>k s. (k, s) \<in> set m \<longrightarrow> s \<noteq> [] \<and> (\<forall>i h. (i, h) \<in> set s \<longrightarrow> i < n))"

definition agent_inv :: "agent_bus \<Rightarrow> bool" where
  "agent_inv b \<longleftrightarrow> dict_inv (ab_nextEntry b) (ab_exact b) \<and> dict_inv (ab_nextEntry b) (ab_prefix b)
     \<and> dict_inv (ab_nextEntry b) (ab_replies b) \<and> (\<forall>e\<in>set (ab_wildcard b). fst e < ab_nextEntry b)"

lemma update_pair: "p \<in> set (AList.update k v xs) \<Longrightarrow> p = (k, v) \<or> p \<in> set xs"
  by (induction xs) (auto split: if_splits)

lemma dict_inv_values: "dict_inv n m \<Longrightarrow> (i, h) \<in> set (nullish (map_of m k) []) \<Longrightarrow> i < n"
  by (auto simp: dict_inv_def nullish_def dest: map_of_SomeD split: option.splits)

lemma dict_inv_add: "dict_inv n m \<Longrightarrow> dict_inv (Suc n) (add_entry k (n, h) m)"
proof -
  assume inv: "dict_inv n m"
  then have "distinct (map fst (add_entry k (n, h) m))" by (simp add: dict_inv_def add_entry_def distinct_update)
  moreover have "s \<noteq> [] \<and> (\<forall>i g. (i, g) \<in> set s \<longrightarrow> i < Suc n)" if "(q, s) \<in> set (add_entry k (n, h) m)" for q s
    using add_entry_pair[OF that]
  proof
    assume "(q, s) \<in> set m"
    then show ?thesis using inv unfolding dict_inv_def by (blast intro: less_SucI)
  next
    assume "q = k \<and> s = nullish (map_of m k) [] @ [(n, h)]"
    then show ?thesis using dict_inv_values[OF inv, of _ _ k] by (auto intro: less_SucI)
  qed
  ultimately show ?thesis by (simp add: dict_inv_def)
qed

lemma dict_inv_Suc: "dict_inv n m \<Longrightarrow> dict_inv (Suc n) m"
  by (fastforce simp: dict_inv_def)

lemma drop_add: "dict_inv n m \<Longrightarrow> drop_entry k (n, h) (add_entry k (n, h) m) = m"
proof (induction m)
  case Nil
  then show ?case by (simp add: add_entry_def drop_entry_def nullish_def)
next
  case (Cons q m)
  have inv: "dict_inv n m" using Cons.prems by (auto simp: dict_inv_def)
  obtain k' s where q: "q = (k', s)" by (cases q)
  show ?case
  proof (cases "k' = k")
    case True
    have s: "s \<noteq> []" "(n, h) \<notin> set s"
      using Cons.prems q less_irrefl[of n] unfolding dict_inv_def by (metis list.set_intros(1))+
    then show ?thesis using q True by (simp add: add_entry_def drop_entry_def nullish_def Let_def)
  next
    case False
    then have a: "add_entry k (n, h) (q # m) = q # add_entry k (n, h) m" using q by (simp add: add_entry_def)
    have "drop_entry k e (q # m') = q # drop_entry k e m'" for e m'
      using False q by (simp add: drop_entry_def Let_def split: option.split)
    then show ?thesis using a Cons.IH[OF inv] by simp
  qed
qed

lemma dict_inv_drop: "dict_inv n m \<Longrightarrow> dict_inv n (drop_entry k e m)"
proof (cases "map_of m k")
  case (Some s)
  assume inv: "dict_inv n m"
  have "dict_inv n (AList.update k (removeAll e s) m)" if "removeAll e s \<noteq> []"
  proof -
    have "v \<noteq> [] \<and> (\<forall>i g. (i, g) \<in> set v \<longrightarrow> i < n)" if "(q, v) \<in> set (AList.update k (removeAll e s) m)" for q v
      using update_pair[OF that]
    proof
      assume "(q, v) = (k, removeAll e s)"
      moreover have "\<forall>i g. (i, g) \<in> set s \<longrightarrow> i < n"
        using inv map_of_SomeD[OF Some] unfolding dict_inv_def by blast
      ultimately show ?thesis using \<open>removeAll e s \<noteq> []\<close> by auto
    next
      assume "(q, v) \<in> set m"
      then show ?thesis using inv unfolding dict_inv_def by blast
    qed
    then show ?thesis using inv by (auto simp: dict_inv_def distinct_update)
  qed
  moreover have "dict_inv n (AList.delete k m)"
    using inv by (auto simp: dict_inv_def distinct_delete) (auto simp: AList.delete_eq)
  ultimately show ?thesis using Some by (simp add: drop_entry_def Let_def)
qed (simp add: drop_entry_def)

fun sub_cmd :: "agent_cmd \<Rightarrow> agent_bus \<Rightarrow> agent_bus" where
  "sub_cmd (AOn p h) b = snd (on_kind p h b)"
| "sub_cmd (AOnReply c h) b = snd (onReply c h b)"
| "sub_cmd (AUnsub u) b = unsubscribe_agent u b"
| "sub_cmd (AEmit inp) b = b"

lemma agent_inv_sub: "agent_inv b \<Longrightarrow> agent_inv (sub_cmd c b)"
proof (cases c)
  case (AUnsub u)
  assume "agent_inv b"
  then show ?thesis using AUnsub by (cases u) (auto simp: agent_inv_def dict_inv_drop)
qed (auto simp: agent_inv_def on_kind_def onReply_def Let_def dict_inv_add dict_inv_Suc less_Suc_eq)

text \<open>the function returned by \<open>on\<close> and by \<open>onReply\<close> undoes the subscription, whatever subscriptions
  were made and undone before: every table of the bus, and so \<open>handlerCount\<close>, is as it was.\<close>

theorem unsubscribe_agent_undoes:
  assumes "b = fold sub_cmd cs new_AgentBus"
  shows "(case on_kind pat h b of (u, b') \<Rightarrow> (unsubscribe_agent u b')\<lparr>ab_nextEntry := ab_nextEntry b\<rparr> = b)
    \<and> (case onReply c h b of (u, b') \<Rightarrow> (unsubscribe_agent u b')\<lparr>ab_nextEntry := ab_nextEntry b\<rparr> = b)"
proof -
  have "agent_inv (fold sub_cmd cs b0)" if "agent_inv b0" for b0
    using that by (induction cs arbitrary: b0) (simp_all add: agent_inv_sub)
  moreover have "agent_inv new_AgentBus" by (simp add: agent_inv_def new_AgentBus_def dict_inv_def)
  ultimately have inv: "agent_inv b" using assms by simp
  have w: "(ab_nextEntry b, h) \<notin> set (ab_wildcard b)" using inv by (auto simp: agent_inv_def)
  have "case on_kind pat h b of (u, b') \<Rightarrow> (unsubscribe_agent u b')\<lparr>ab_nextEntry := ab_nextEntry b\<rparr> = b"
    using inv w by (auto simp: on_kind_def Let_def agent_inv_def drop_add)
  moreover have "case onReply c h b of (u, b') \<Rightarrow> (unsubscribe_agent u b')\<lparr>ab_nextEntry := ab_nextEntry b\<rparr> = b"
    using inv by (auto simp: onReply_def Let_def agent_inv_def drop_add)
  ultimately show ?thesis ..
qed

theorem unsubscribe_agent_undoes_witness:
  "let b = sub_cmd (AOn ''log.*'' 1) new_AgentBus
   in (case on_kind ''log.*'' 2 b of (u, b') \<Rightarrow>
         agent_handlerCount b' = 2 \<and> (unsubscribe_agent u b')\<lparr>ab_nextEntry := ab_nextEntry b\<rparr> = b)"
proof -
  define b where "b = sub_cmd (AOn ''log.*'' 1) new_AgentBus"
  have "b = fold sub_cmd [AOn ''log.*'' 1] new_AgentBus" by (simp add: b_def)
  note u = unsubscribe_agent_undoes[OF this, of "''log.*''" 2]
  have "agent_handlerCount (snd (on_kind ''log.*'' 2 b)) = 2" unfolding b_def by code_simp
  then show ?thesis using u unfolding b_def[symmetric] by (simp add: Let_def case_prod_unfold)
qed

section \<open>Delivery\<close>

text \<open>
  What the call of one handler sets off: its own emits, each processed to its end, then the report of
  its error. \<open>one_by_one\<close> is a sequence of such calls, each over before the next one starts.
\<close>

definition sets_off ::
  "ambient \<Rightarrow> (agent_event \<Rightarrow> agent_bus \<Rightarrow> outcome) \<Rightarrow> agent_event \<Rightarrow> nat \<Rightarrow> agent_bus \<Rightarrow> call list \<Rightarrow> agent_bus \<Rightarrow> bool" where
  "sets_off amb nested ev h b u b' \<longleftrightarrow>
     (\<exists>v c w. run_cmds amb nested (fst (am_react amb h ev)) b = Some (v, c) \<and> u = v @ w
        \<and> (case snd (am_react amb h ev) of
             None \<Rightarrow> w = [] \<and> b' = c
           | Some msg \<Rightarrow> emitInternalError amb nested ev msg c = Some (w, b')))"

inductive one_by_one ::
  "ambient \<Rightarrow> (agent_event \<Rightarrow> agent_bus \<Rightarrow> outcome) \<Rightarrow> agent_event \<Rightarrow> entry list \<Rightarrow> agent_bus \<Rightarrow> call list \<Rightarrow> agent_bus \<Rightarrow> bool"
  for amb nested ev where
  all_called: "one_by_one amb nested ev [] b [] b"
| call_next: "sets_off amb nested ev (snd e) b u b1 \<Longrightarrow> one_by_one amb nested ev es b1 t b2
    \<Longrightarrow> one_by_one amb nested ev (e # es) b ((snd e, ev) # u @ t) b2"

lemma run_subs_one_by_one:
  "run_subs amb nested es ev b = Some (t, b') \<Longrightarrow> one_by_one amb nested ev es b t b'"
proof (induction es arbitrary: b t)
  case Nil
  then show ?case by (simp add: all_called)
next
  case (Cons e es)
  obtain t0 b1 t1 b2 t2 where c: "call_handler amb nested e ev b = Some (t0, b1)"
    "(case snd (am_react amb (snd e) ev) of None \<Rightarrow> Some ([], b1) | Some msg \<Rightarrow> emitInternalError amb nested ev msg b1)
       = Some (t1, b2)" "run_subs amb nested es ev b2 = Some (t2, b')" "t = t0 @ t1 @ t2"
    using Cons.prems by (auto split: option.splits)
  obtain u where u: "t0 = (snd e, ev) # u" "run_cmds amb nested (fst (am_react amb (snd e) ev)) b = Some (u, b1)"
    using c(1) by (auto simp: call_handler_def)
  have "sets_off amb nested ev (snd e) b (u @ t1) b2"
    using u(2) c(2) by (fastforce simp: sets_off_def split: option.splits)
  from call_next[OF this Cons.IH[OF c(3)]] show ?case by (simp add: u(1) c(4))
qed

text \<open>
  The identity of an event, as long as nothing built from now on takes it: the random ids are others,
  and no handler emits an event with that id of its own choice.
\<close>

definition own_id :: "ambient \<Rightarrow> string \<Rightarrow> agent_bus \<Rightarrow> bool" where
  "own_id amb x b \<longleftrightarrow> (\<forall>n\<ge>ab_built b. am_id amb n \<noteq> x)
     \<and> (\<forall>h e inp. AEmit inp \<in> set (fst (am_react amb h e)) \<longrightarrow> ei_id inp \<noteq> Some x)"

text \<open>A run that started when \<open>x\<close> was taken by no later event called nobody with \<open>x\<close>, and built more events at most.\<close>

definition avoids :: "ambient \<Rightarrow> string \<Rightarrow> agent_bus \<Rightarrow> outcome \<Rightarrow> bool" where
  "avoids amb x b r \<longleftrightarrow> (own_id amb x b \<longrightarrow>
     (\<forall>t b'. r = Some (t, b') \<longrightarrow> own_id amb x b' \<and> (\<forall>c\<in>set t. ae_id (snd c) \<noteq> x)))"

definition nested_avoids :: "ambient \<Rightarrow> string \<Rightarrow> (agent_event \<Rightarrow> agent_bus \<Rightarrow> outcome) \<Rightarrow> bool" where
  "nested_avoids amb x nested \<longleftrightarrow> (\<forall>ev b. ae_id ev \<noteq> x \<longrightarrow> avoids amb x b (nested ev b))"

lemma own_id_built: "own_id amb x b \<Longrightarrow> ab_built b \<le> ab_built b' \<Longrightarrow> own_id amb x b'"
  by (auto simp: own_id_def)

lemma built_sub: "ab_built (snd (on_kind p h b)) = ab_built b" "ab_built (snd (onReply p h b)) = ab_built b"
  "ab_built (unsubscribe_agent u b) = ab_built b"
  by (simp_all add: on_kind_def onReply_def Let_def) (cases u; simp)

lemma run_cmds_avoids:
  assumes n: "nested_avoids amb x nested"
  shows "run_cmds amb nested cs b = Some (t, b') \<Longrightarrow> own_id amb x b
    \<Longrightarrow> \<forall>inp. AEmit inp \<in> set cs \<longrightarrow> ei_id inp \<noteq> Some x
    \<Longrightarrow> own_id amb x b' \<and> (\<forall>c\<in>set t. ae_id (snd c) \<noteq> x)"
proof (induction cs arbitrary: b t)
  case (Cons c cs)
  show ?case
  proof (cases c)
    case (AEmit inp)
    obtain ev b1 where e: "build_event amb inp b = (ev, b1)" by force
    obtain t1 b2 t2 where r: "nested ev b1 = Some (t1, b2)" "run_cmds amb nested cs b2 = Some (t2, b')" "t = t1 @ t2"
      using Cons.prems(1) AEmit e by (auto split: option.splits)
    have id: "ae_id ev \<noteq> x" using e Cons.prems(2,3) AEmit
      by (auto simp: build_event_def own_id_def nullish_def split: option.splits)
    have "own_id amb x b1" using e Cons.prems(2) by (auto simp: build_event_def intro: own_id_built)
    then have "own_id amb x b2 \<and> (\<forall>c\<in>set t1. ae_id (snd c) \<noteq> x)"
      using n id r(1) unfolding nested_avoids_def avoids_def by blast
    moreover from this have "own_id amb x b' \<and> (\<forall>c\<in>set t2. ae_id (snd c) \<noteq> x)"
      using Cons.prems(3) by (intro Cons.IH[OF r(2)]) simp_all
    ultimately show ?thesis using r(3) by auto
  next
    case (AOn p h)
    with Cons.prems show ?thesis
      by (intro Cons.IH[of "snd (on_kind p h b)"]) (simp_all add: own_id_built[of amb x b] built_sub)
  next
    case (AOnReply p h)
    with Cons.prems show ?thesis
      by (intro Cons.IH[of "snd (onReply p h b)"]) (simp_all add: own_id_built[of amb x b] built_sub)
  next
    case (AUnsub u)
    with Cons.prems show ?thesis
      by (intro Cons.IH[of "unsubscribe_agent u b"]) (simp_all add: own_id_built[of amb x b] built_sub)
  qed
qed simp

lemma call_avoids:
  assumes "nested_avoids amb x nested" "call_handler amb nested e ev b = Some (t, b')" "own_id amb x b" "ae_id ev \<noteq> x"
  shows "own_id amb x b' \<and> (\<forall>c\<in>set t. ae_id (snd c) \<noteq> x)"
proof -
  obtain u where u: "run_cmds amb nested (fst (am_react amb (snd e) ev)) b = Some (u, b')" "t = (snd e, ev) # u"
    using assms(2) by (auto simp: call_handler_def)
  have "own_id amb x b' \<and> (\<forall>c\<in>set u. ae_id (snd c) \<noteq> x)"
    using assms(3) by (intro run_cmds_avoids[OF assms(1) u(1) assms(3)]) (simp add: own_id_def)
  then show ?thesis using u(2) assms(4) by simp
qed

lemma each_avoids:
  assumes "nested_avoids amb x nested"
  shows "call_each amb nested es ev b = Some (t, b') \<Longrightarrow> own_id amb x b \<Longrightarrow> ae_id ev \<noteq> x
    \<Longrightarrow> own_id amb x b' \<and> (\<forall>c\<in>set t. ae_id (snd c) \<noteq> x)"
proof (induction es arbitrary: b t)
  case (Cons e es)
  then obtain t0 b1 t1 where c: "call_handler amb nested e ev b = Some (t0, b1)"
    "call_each amb nested es ev b1 = Some (t1, b')" "t = t0 @ t1"
    by (auto split: option.splits)
  have "own_id amb x b1 \<and> (\<forall>c\<in>set t0. ae_id (snd c) \<noteq> x)" by (rule call_avoids[OF assms c(1) Cons.prems(2,3)])
  moreover from this have "own_id amb x b' \<and> (\<forall>c\<in>set t1. ae_id (snd c) \<noteq> x)" using Cons.IH[OF c(2) _ Cons.prems(3)] by simp
  ultimately show ?case using c(3) by auto
qed simp

lemma error_avoids:
  assumes n: "nested_avoids amb x nested" and r: "emitInternalError amb nested orig msg b = Some (t, b')"
    and o: "own_id amb x b"
  shows "own_id amb x b' \<and> (\<forall>c\<in>set t. ae_id (snd c) \<noteq> x)"
proof -
  obtain ev b1 where e: "handler_error_event amb orig msg b = (ev, b1)" by force
  then have "ae_id ev = am_id amb (ab_built b)" "b1 = b\<lparr>ab_built := ab_built b + 1\<rparr>"
    by (auto simp: handler_error_event_def build_event_def nullish_def)
  then have "ae_id ev \<noteq> x" "own_id amb x b1" using o by (auto simp: own_id_def)
  then show ?thesis using r e each_avoids[OF n] by (simp add: emitInternalError_def)
qed

lemma sets_off_avoids:
  assumes "nested_avoids amb x nested" "sets_off amb nested ev h b u b'" "own_id amb x b"
  shows "own_id amb x b' \<and> (\<forall>c\<in>set u. ae_id (snd c) \<noteq> x)"
proof -
  obtain v c w where r: "run_cmds amb nested (fst (am_react amb h ev)) b = Some (v, c)" "u = v @ w"
    "case snd (am_react amb h ev) of None \<Rightarrow> w = [] \<and> b' = c | Some msg \<Rightarrow> emitInternalError amb nested ev msg c = Some (w, b')"
    using assms(2) unfolding sets_off_def by blast
  have "own_id amb x c \<and> (\<forall>c\<in>set v. ae_id (snd c) \<noteq> x)"
    using assms(3) by (intro run_cmds_avoids[OF assms(1) r(1)]) (simp_all add: own_id_def)
  then show ?thesis using r(2,3) error_avoids[OF assms(1)] by (fastforce split: option.splits)
qed

lemma one_by_one_once:
  assumes "one_by_one amb nested ev es b t b'" "nested_avoids amb x nested" "own_id amb x b"
  shows "own_id amb x b' \<and> filter (\<lambda>c. ae_id (snd c) = x) t = (if ae_id ev = x then map (\<lambda>e. (snd e, ev)) es else [])"
  using assms
proof (induction rule: one_by_one.induct)
  case (call_next e b u b1 es t b2)
  have "own_id amb x b1" "filter (\<lambda>c. ae_id (snd c) = x) u = []"
    using sets_off_avoids[OF call_next.prems(1) call_next.hyps(1) call_next.prems(2)] by (auto simp: filter_empty_conv)
  then show ?case using call_next.IH[OF call_next.prems(1)] by simp
qed simp

lemma process_avoids: "nested_avoids amb x (processEvent amb fuel)"
proof (induction fuel)
  case 0
  then show ?case by (simp add: nested_avoids_def avoids_def)
next
  case (Suc fuel)
  show ?case unfolding nested_avoids_def avoids_def
  proof (intro allI impI)
    fix ev b t b' assume ne: "ae_id ev \<noteq> x" and o: "own_id amb x b" and r: "processEvent amb (Suc fuel) ev b = Some (t, b')"
    from r have "one_by_one amb (processEvent amb fuel) ev (match_subs b ev) b t b'"
      by (intro run_subs_one_by_one) simp
    from one_by_one_once[OF this Suc.IH o] ne show "own_id amb x b' \<and> (\<forall>c\<in>set t. ae_id (snd c) \<noteq> x)"
      by (auto simp: filter_empty_conv)
  qed
qed

text \<open>
  When a run ends: reactions that descend, an emitted event having a smaller rank than the event it
  reacts to and the report of an error at most the rank of the event whose handler threw.
\<close>

definition descending :: "ambient \<Rightarrow> (string \<Rightarrow> nat) \<Rightarrow> bool" where
  "descending amb rank \<longleftrightarrow> (\<forall>h ev.
     (\<forall>inp. AEmit inp \<in> set (fst (am_react amb h ev)) \<longrightarrow> rank (ei_kind inp) < rank (ae_kind ev))
     \<and> (snd (am_react amb h ev) \<noteq> None \<longrightarrow> rank ''system.handler-error'' \<le> rank (ae_kind ev)))"

lemma run_cmds_ends:
  assumes "\<And>inp b. AEmit inp \<in> set cs \<Longrightarrow> nested (fst (build_event amb inp b)) (snd (build_event amb inp b)) \<noteq> None"
  shows "run_cmds amb nested cs b \<noteq> None"
  using assms
proof (induction cs arbitrary: b)
  case (Cons c cs)
  have rest: "run_cmds amb nested cs b \<noteq> None" for b using Cons by (intro Cons.IH) auto
  show ?case
  proof (cases c)
    case (AEmit inp)
    then obtain t b2 where "nested (fst (build_event amb inp b)) (snd (build_event amb inp b)) = Some (t, b2)"
      using Cons.prems[of inp b] by auto
    then show ?thesis using rest[of b2] AEmit by (simp add: case_prod_unfold)
  qed (use rest in simp_all)
qed simp

lemma call_ends_if:
  assumes d: "descending amb rank" and n: "\<And>ev b. rank (ae_kind ev) < n \<Longrightarrow> nested ev b \<noteq> None"
    and r: "rank (ae_kind ev) \<le> n"
  shows "call_handler amb nested e ev b \<noteq> None" and "call_each amb nested es ev b \<noteq> None"
proof -
  have c: "call_handler amb nested e ev b \<noteq> None" for e b
  proof -
    have "run_cmds amb nested (fst (am_react amb (snd e) ev)) b \<noteq> None"
    proof (rule run_cmds_ends)
      fix inp b' assume "AEmit inp \<in> set (fst (am_react amb (snd e) ev))"
      then have "rank (ei_kind inp) < rank (ae_kind ev)" using d by (simp add: descending_def)
      then show "nested (fst (build_event amb inp b')) (snd (build_event amb inp b')) \<noteq> None"
        using r by (intro n) (simp add: build_event_def)
    qed
    then show ?thesis by (auto simp: call_handler_def)
  qed
  show "call_handler amb nested e ev b \<noteq> None" by (rule c)
  show "call_each amb nested es ev b \<noteq> None"
  proof (induction es arbitrary: b)
    case (Cons e es)
    obtain t b1 where "call_handler amb nested e ev b = Some (t, b1)" using c[of e b] by auto
    then show ?case using Cons[of b1] by simp
  qed simp
qed

lemma process_ends:
  assumes d: "descending amb rank"
  shows "rank (ae_kind ev) < fuel \<Longrightarrow> processEvent amb fuel ev b \<noteq> None"
proof (induction fuel arbitrary: ev b)
  case (Suc fuel)
  have n: "rank (ae_kind ev') < fuel \<Longrightarrow> processEvent amb fuel ev' b' \<noteq> None" for ev' b' by (rule Suc.IH)
  have r: "rank (ae_kind ev) \<le> fuel" using Suc.prems by simp
  have err: "emitInternalError amb (processEvent amb fuel) ev msg b' \<noteq> None"
    if "snd (am_react amb h ev) \<noteq> None" for h msg b'
  proof -
    have "rank ''system.handler-error'' \<le> rank (ae_kind ev)" using d[unfolded descending_def] that by blast
    then have "rank ''system.handler-error'' \<le> fuel" using r by simp
    then have "call_each amb (processEvent amb fuel) es (fst (handler_error_event amb ev msg b')) c \<noteq> None" for es c
      by (intro call_ends_if(2)[OF d n]) (simp_all add: handler_error_event_def build_event_def)
    then show ?thesis unfolding emitInternalError_def case_prod_unfold Let_def .
  qed
  have "run_subs amb (processEvent amb fuel) es ev b \<noteq> None" for es
  proof (induction es arbitrary: b)
    case (Cons e es)
    obtain t b1 where c: "call_handler amb (processEvent amb fuel) e ev b = Some (t, b1)"
    proof -
      have "call_handler amb (processEvent amb fuel) e ev b \<noteq> None" by (rule call_ends_if(1)[OF d _ r]) (rule n)
      then show ?thesis using that by auto
    qed
    obtain t1 b2 where m: "(case snd (am_react amb (snd e) ev) of None \<Rightarrow> Some ([], b1)
        | Some msg \<Rightarrow> emitInternalError amb (processEvent amb fuel) ev msg b1) = Some (t1, b2)"
    proof (cases "snd (am_react amb (snd e) ev)")
      case (Some msg)
      then have "emitInternalError amb (processEvent amb fuel) ev msg b1 \<noteq> None" by (intro err[of "snd e"]) simp
      then show ?thesis using that Some by auto
    qed (use that in simp)
    obtain r where "run_subs amb (processEvent amb fuel) es ev b2 = Some r" using Cons[of b2] by auto
    then show ?case by (simp add: c m)
  qed simp
  then show ?case by simp
qed simp


definition sample_ambient :: ambient where
  "sample_ambient = \<lparr> am_id = (\<lambda>n. replicate (Suc n) CHR ''e''), am_clock = of_nat,
     am_react = (\<lambda>h ev. if h = 1 then ([], Some ''boom'') else ([], None)) \<rparr>"

definition sample_input :: event_input where
  "sample_input = \<lparr> ei_id = Some ''m1'', ei_source = ''m'', ei_kind = ''log.progress'', ei_payload = JNull,
     ei_timestamp = None, ei_correlationId = None, ei_causedBy = None \<rparr>"

definition sample_agent_bus :: agent_bus where
  "sample_agent_bus = fold sub_cmd [AOn ''log.*'' 1, AOn ''log.progress'' 2, AOn ''system.*'' 3] new_AgentBus"

definition sample_agent_event :: agent_event where
  "sample_agent_event = fst (build_event sample_ambient sample_input sample_agent_bus)"


section \<open>Order of top-level emits\<close>

definition same_queue :: "agent_bus \<Rightarrow> agent_bus \<Rightarrow> bool" where
  "same_queue b b' \<longleftrightarrow> ab_queue b' = ab_queue b \<and> ab_nextPromise b' = ab_nextPromise b"

lemma same_queue_trans: "same_queue a b \<Longrightarrow> same_queue b c \<Longrightarrow> same_queue a c"
  by (simp add: same_queue_def)

lemma same_queue_ops: "same_queue b (snd (build_event amb inp b))" "same_queue b (sub_cmd c b)"
proof -
  show "same_queue b (snd (build_event amb inp b))" by (simp add: build_event_def same_queue_def)
  show "same_queue b (sub_cmd c b)"
  proof (cases c)
    case (AUnsub u)
    then show ?thesis by (cases u) (simp_all add: same_queue_def)
  qed (simp_all add: same_queue_def on_kind_def onReply_def Let_def)
qed

definition keeps_queue :: "(agent_event \<Rightarrow> agent_bus \<Rightarrow> outcome) \<Rightarrow> bool" where
  "keeps_queue f \<longleftrightarrow> (\<forall>ev b t b'. f ev b = Some (t, b') \<longrightarrow> same_queue b b')"

lemma run_cmds_queue:
  assumes n: "keeps_queue nested"
  shows "run_cmds amb nested cs b = Some (t, b') \<Longrightarrow> same_queue b b'"
proof (induction cs arbitrary: b t)
  case Nil
  then show ?case by (simp add: same_queue_def)
next
  case (Cons c cs)
  show ?case
  proof (cases c)
    case (AEmit inp)
    obtain ev b1 where e: "build_event amb inp b = (ev, b1)" by force
    obtain t1 b2 t2 where "nested ev b1 = Some (t1, b2)" "run_cmds amb nested cs b2 = Some (t2, b')"
      using Cons.prems AEmit e by (auto split: option.splits)
    then show ?thesis
      using n same_queue_ops(1)[of b amb inp] e Cons.IH by (metis keeps_queue_def same_queue_trans snd_conv)
  next
    case (AOn p h)
    then show ?thesis using Cons same_queue_ops(2)[of b c] same_queue_trans by (simp; blast?)
  next
    case (AOnReply p h)
    then show ?thesis using Cons same_queue_ops(2)[of b c] same_queue_trans by (simp; blast?)
  next
    case (AUnsub u)
    then show ?thesis using Cons same_queue_ops(2)[of b c] same_queue_trans by (simp; blast?)
  qed
qed

lemma call_queue: "keeps_queue nested \<Longrightarrow> call_handler amb nested e ev b = Some (t, b') \<Longrightarrow> same_queue b b'"
  by (auto simp: call_handler_def dest: run_cmds_queue)

lemma each_queue: "keeps_queue nested \<Longrightarrow> call_each amb nested es ev b = Some (t, b') \<Longrightarrow> same_queue b b'"
proof (induction es arbitrary: b t)
  case Nil
  then show ?case by (simp add: same_queue_def)
next
  case (Cons e es)
  then show ?case by (auto split: option.splits dest: call_queue intro: same_queue_trans)
qed

lemma error_queue:
  assumes "keeps_queue nested" "emitInternalError amb nested orig msg b = Some (t, b')"
  shows "same_queue b b'"
proof -
  have "same_queue b (snd (handler_error_event amb orig msg b))"
    by (simp add: handler_error_event_def same_queue_ops)
  then show ?thesis
    using assms each_queue[OF assms(1)] same_queue_trans by (fastforce simp: emitInternalError_def split: prod.splits)
qed

lemma subs_queue: "keeps_queue nested \<Longrightarrow> run_subs amb nested es ev b = Some (t, b') \<Longrightarrow> same_queue b b'"
proof (induction es arbitrary: b t)
  case Nil
  then show ?case by (simp add: same_queue_def)
next
  case (Cons e es)
  then obtain t0 b1 t1 b2 t2 where c: "call_handler amb nested e ev b = Some (t0, b1)"
    "(case snd (am_react amb (snd e) ev) of None \<Rightarrow> Some ([], b1) | Some msg \<Rightarrow> emitInternalError amb nested ev msg b1)
       = Some (t1, b2)" "run_subs amb nested es ev b2 = Some (t2, b')"
    by (auto split: option.splits)
  have "same_queue b1 b2"
    using c(2) Cons.prems(1) error_queue by (auto simp: same_queue_def split: option.splits)
  then show ?case
    using call_queue[OF Cons.prems(1) c(1)] Cons.IH[OF Cons.prems(1) c(3)] same_queue_trans by blast
qed

lemma process_queue: "keeps_queue (processEvent amb fuel)"
  by (induction fuel) (auto simp: keeps_queue_def dest!: subs_queue[unfolded keeps_queue_def, rotated])

datatype top_op = TopEmit event_input | DrainOne nat

text \<open>A history of top-level emits and turns of \<open>drain\<close>: the promises settled so far, oldest first.\<close>

fun top_run :: "ambient \<Rightarrow> top_op list \<Rightarrow> nat list \<times> agent_bus \<Rightarrow> nat list \<times> agent_bus" where
  "top_run amb [] s = s"
| "top_run amb (TopEmit inp # ops) (ps, b) = top_run amb ops (ps, snd (emit_top amb inp b))"
| "top_run amb (DrainOne fuel # ops) (ps, b) =
     (case drain_one amb fuel b of
        None \<Rightarrow> top_run amb ops (ps, b)
      | Some (p, t, b1) \<Rightarrow> top_run amb ops (ps @ [p], b1))"

text \<open>top-level emits complete in submission order: in every history the settled promises, followed by
  those still queued, are all promises handed out, in the order they were handed out.\<close>

theorem top_level_fifo:
  assumes "top_run amb ops ([], new_AgentBus) = (ps, b)"
  shows "ps @ map fst (ab_queue b) = [0..<ab_nextPromise b]"
proof -
  have "ps' @ map fst (ab_queue b') = [0..<ab_nextPromise b']"
    if "top_run amb ops (ps0, b0) = (ps', b')" "ps0 @ map fst (ab_queue b0) = [0..<ab_nextPromise b0]" for ps0 b0 ps' b'
    using that
  proof (induction ops arbitrary: ps0 b0)
    case (Cons op ops)
    show ?case
    proof (cases op)
      case (TopEmit inp)
      then show ?thesis using Cons by (simp add: emit_top_def build_event_def Let_def)
    next
      case (DrainOne fuel)
      show ?thesis
      proof (cases "drain_one amb fuel b0")
        case None
        then show ?thesis using Cons DrainOne by simp
      next
        case (Some r)
        then obtain p ev q t b1 where q: "ab_queue b0 = (p, ev) # q" "r = (p, t, b1)"
          "processEvent amb fuel ev (b0\<lparr>ab_queue := q\<rparr>) = Some (t, b1)"
          by (auto simp: drain_one_def split: list.splits)
        have "same_queue (b0\<lparr>ab_queue := q\<rparr>) b1" using process_queue q(3) by (simp add: keeps_queue_def)
        then have "(ps0 @ [p]) @ map fst (ab_queue b1) = [0..<ab_nextPromise b1]"
          using Cons.prems(2) q(1) by (simp add: same_queue_def)
        then show ?thesis using Cons DrainOne Some q(2) by simp
      qed
    qed
  qed simp
  from this[OF assms] show ?thesis by (simp add: new_AgentBus_def)
qed

theorem top_level_fifo_witness:
  "\<exists>b. top_run sample_ambient [TopEmit sample_input, TopEmit sample_input, DrainOne 1] ([], new_AgentBus) = ([0], b)
     \<and> [0] @ map fst (ab_queue b) = [0..<2]"
proof -
  have "fst (top_run sample_ambient [TopEmit sample_input, TopEmit sample_input, DrainOne 1] ([], new_AgentBus)) = [0]
    \<and> ab_nextPromise (snd (top_run sample_ambient [TopEmit sample_input, TopEmit sample_input, DrainOne 1] ([], new_AgentBus))) = 2"
    by code_simp
  then obtain b where b: "top_run sample_ambient [TopEmit sample_input, TopEmit sample_input, DrainOne 1] ([], new_AgentBus) = ([0], b)"
    "ab_nextPromise b = 2" by (metis prod.collapse)
  then show ?thesis using top_level_fifo[OF b(1)] by auto
qed

end
