(* ===== verification/Persistence.thy ===== *)
theory Persistence
  imports Prelude "HOL-Library.Word"
begin

text \<open>
  \<open>src/plugins/persistence/\<close>: the key-value interface \<open>Persistence\<close> (\<open>types.ts\<close>) as a record of
  operations, the laws its clients rely on as the locale \<open>kv_store\<close>, and the two implementations:
  \<open>MemoryPersistence\<close> (\<open>memory.ts\<close>) over a \<open>Map\<close> and \<open>FilePersistence\<close> (\<open>file.ts\<close>) over a directory.
  Keys are JavaScript strings with their 16-bit code units, because the file names depend on them.
  A directory is an association list from file names to contents; a content is the JSON value whose
  text was written, or text that does not parse. Stored values are JSON values (the type variable stands for
  a type of them): writing the text of one and parsing it again, like \<open>structuredClone\<close>, gives the same value. Disk
  errors are not modelled.
\<close>

section \<open>Code units\<close>

type_synonym js_string = "16 word list"

definition js :: "string \<Rightarrow> js_string" where
  "js s = map (\<lambda>c. word_of_nat (code_unit c)) s"

definition js_starts_with :: "js_string \<Rightarrow> js_string \<Rightarrow> bool" where
  "js_starts_with s p = (take (length p) s = p)"

definition js_ends_with :: "js_string \<Rightarrow> js_string \<Rightarrow> bool" where
  "js_ends_with s p = (length p \<le> length s \<and> drop (length s - length p) s = p)"

lemma js_starts_with_append [simp]: "js_starts_with (p @ s) p"
  by (simp add: js_starts_with_def)

lemma js_ends_with_append [simp]: "js_ends_with (s @ p) p"
  by (simp add: js_ends_with_def)

text \<open>\<open>prefix ? keys.filter(k => k.startsWith(prefix)) : keys\<close>.\<close>

definition with_prefix :: "js_string option \<Rightarrow> js_string list \<Rightarrow> js_string list" where
  "with_prefix p ks = (case p of None \<Rightarrow> ks
                       | Some q \<Rightarrow> if q = [] then ks else filter (\<lambda>k. js_starts_with k q) ks)"

definition prefix_ok :: "js_string option \<Rightarrow> js_string \<Rightarrow> bool" where
  "prefix_ok p k = (case p of None \<Rightarrow> True | Some q \<Rightarrow> js_starts_with k q)"

lemma set_with_prefix [simp]: "set (with_prefix p ks) = {k \<in> set ks. prefix_ok p k}"
  by (auto simp: with_prefix_def prefix_ok_def js_starts_with_def split: option.split)

lemma distinct_with_prefix [simp]: "distinct ks \<Longrightarrow> distinct (with_prefix p ks)"
  by (auto simp: with_prefix_def split: option.split)

section \<open>The interface\<close>

record ('s, 'v) kv_ops =
  kv_get :: "js_string \<Rightarrow> 's \<Rightarrow> 'v option"
  kv_set :: "js_string \<Rightarrow> 'v \<Rightarrow> 's \<Rightarrow> 's"
  kv_delete :: "js_string \<Rightarrow> 's \<Rightarrow> 's"
  kv_list :: "js_string option \<Rightarrow> 's \<Rightarrow> js_string list"

record ('s, 'v) persistence = "('s, 'v) kv_ops" +
  kv_has :: "js_string \<Rightarrow> 's \<Rightarrow> bool"

text \<open>
  The laws. \<open>usable\<close> are the keys the store keeps apart. Listing may name a key whose value cannot
  be read back; every readable key is listed, once.
\<close>

locale kv_store =
  fixes ops :: "('s, 'v, 'm) kv_ops_scheme"
    and usable :: "js_string \<Rightarrow> bool"
    and inv :: "'s \<Rightarrow> bool"
  assumes set_inv: "inv s \<Longrightarrow> usable k \<Longrightarrow> inv (kv_set ops k v s)"
    and delete_inv: "inv s \<Longrightarrow> inv (kv_delete ops k s)"
    and get_set: "inv s \<Longrightarrow> usable k \<Longrightarrow> kv_get ops k (kv_set ops k v s) = Some v"
    and get_set_other:
      "inv s \<Longrightarrow> usable k \<Longrightarrow> usable k' \<Longrightarrow> k' \<noteq> k \<Longrightarrow> kv_get ops k' (kv_set ops k v s) = kv_get ops k' s"
    and get_delete: "kv_get ops k (kv_delete ops k s) = None"
    and get_delete_other:
      "inv s \<Longrightarrow> usable k \<Longrightarrow> usable k' \<Longrightarrow> k' \<noteq> k \<Longrightarrow> kv_get ops k' (kv_delete ops k s) = kv_get ops k' s"
    and list_sound: "inv s \<Longrightarrow> k \<in> set (kv_list ops p s) \<Longrightarrow> usable k \<and> prefix_ok p k"
    and list_complete:
      "inv s \<Longrightarrow> usable k \<Longrightarrow> kv_get ops k s \<noteq> None \<Longrightarrow> prefix_ok p k \<Longrightarrow> k \<in> set (kv_list ops p s)"
    and list_distinct: "inv s \<Longrightarrow> distinct (kv_list ops p s)"
begin

definition contents :: "'s \<Rightarrow> js_string \<Rightarrow> 'v option" where
  "contents s k = (if usable k then kv_get ops k s else None)"

lemma contents_set: "inv s \<Longrightarrow> usable k \<Longrightarrow> contents (kv_set ops k v s) = (contents s)(k \<mapsto> v)"
  by (auto simp: contents_def fun_eq_iff get_set get_set_other)

lemma contents_delete: "inv s \<Longrightarrow> usable k \<Longrightarrow> contents (kv_delete ops k s) = (contents s)(k := None)"
  by (auto simp: contents_def fun_eq_iff get_delete get_delete_other)

text \<open>Deleting a list of keys one after the other, as \<open>invalidate\<close> and \<open>clear\<close> do.\<close>

lemma delete_all:
  assumes "inv s" "\<forall>k\<in>set ks. usable k"
  shows "inv (fold (kv_delete ops) ks s)
    \<and> contents (fold (kv_delete ops) ks s) = (\<lambda>k. if k \<in> set ks then None else contents s k)"
  using assms
proof (induction ks arbitrary: s)
  case Nil
  then show ?case by simp
next
  case (Cons k ks)
  then have "inv (kv_delete ops k s)" by (simp add: delete_inv)
  with Cons show ?case by (auto simp: contents_delete)
qed

end

section \<open>\<open>MemoryPersistence\<close>\<close>

type_synonym 'v memory = "(js_string \<times> 'v) list"

text \<open>Values are immutable here, so \<open>structuredClone\<close> is the identity.\<close>

definition mem_get :: "js_string \<Rightarrow> 'v memory \<Rightarrow> 'v option" where
  "mem_get k s = map_of s k"

definition mem_set :: "js_string \<Rightarrow> 'v \<Rightarrow> 'v memory \<Rightarrow> 'v memory" where
  "mem_set k v s = AList.update k v s"

definition mem_delete :: "js_string \<Rightarrow> 'v memory \<Rightarrow> 'v memory" where
  "mem_delete k s = AList.delete k s"

definition mem_list :: "js_string option \<Rightarrow> 'v memory \<Rightarrow> js_string list" where
  "mem_list p s = with_prefix p (map fst s)"

definition mem_has :: "js_string \<Rightarrow> 'v memory \<Rightarrow> bool" where
  "mem_has k s = (map_of s k \<noteq> None)"

definition mem_size :: "'v memory \<Rightarrow> nat" where
  "mem_size s = length s"

definition mem_clear :: "'v memory \<Rightarrow> 'v memory" where
  "mem_clear s = []"

definition memory_ops :: "('v memory, 'v) persistence" where
  "memory_ops = \<lparr> kv_get = mem_get, kv_set = mem_set, kv_delete = mem_delete, kv_list = mem_list,
     kv_has = mem_has \<rparr>"

lemmas memory_defs = memory_ops_def mem_get_def mem_set_def mem_delete_def mem_list_def mem_has_def

interpretation mem: kv_store memory_ops "\<lambda>_. True" "\<lambda>s. distinct (map fst s)"
  by unfold_locales
    (auto simp: memory_defs update_conv' delete_conv' distinct_update distinct_delete weak_map_of_SomeI
      dest: map_of_SomeD intro!: rev_image_eqI)

section \<open>File names for keys\<close>

definition hex16 :: "nat \<Rightarrow> 16 word" where
  "hex16 n = word_of_nat (if n < 10 then 48 + n else 87 + n)"

text \<open>\<open>charCodeAt(0).toString(16)\<close>: no leading zeros.\<close>

fun to_hex :: "nat \<Rightarrow> js_string" where
  "to_hex n = (if n < 16 then [hex16 n] else to_hex (n div 16) @ [hex16 (n mod 16)])"

declare to_hex.simps [simp del]

definition pad_start2 :: "js_string \<Rightarrow> js_string" where
  "pad_start2 s = replicate (2 - length s) 48 @ s"

definition plain_unit :: "16 word \<Rightarrow> bool" where
  "plain_unit c = (let n = unat c in
     97 \<le> n \<and> n \<le> 122 \<or> 65 \<le> n \<and> n \<le> 90 \<or> 48 \<le> n \<and> n \<le> 57 \<or> n = 95 \<or> n = 45 \<or> n = 46)"

definition encode_unit :: "16 word \<Rightarrow> js_string" where
  "encode_unit c = (if plain_unit c then [c] else 37 # pad_start2 (to_hex (unat c)))"

definition encodeKey :: "js_string \<Rightarrow> js_string" where
  "encodeKey k = concat (map encode_unit k)"

definition hex_value :: "16 word \<Rightarrow> nat option" where
  "hex_value c = (let n = unat c in
     if 48 \<le> n \<and> n \<le> 57 then Some (n - 48) else if 97 \<le> n \<and> n \<le> 102 then Some (n - 87) else None)"

text \<open>\<open>replace(/%([0-9a-f]{2})/g, ...)\<close>: the leftmost match first, scanning on after it.\<close>

fun decodeKey :: "js_string \<Rightarrow> js_string" where
  "decodeKey (p # a # b # r) =
     (case (hex_value a, hex_value b) of
        (Some x, Some y) \<Rightarrow> if p = 37 then word_of_nat (16 * x + y) # decodeKey r else p # decodeKey (a # b # r)
      | _ \<Rightarrow> p # decodeKey (a # b # r))"
| "decodeKey (c # r) = c # decodeKey r"
| "decodeKey [] = []"

definition latin1 :: "js_string \<Rightarrow> bool" where
  "latin1 k = (\<forall>c\<in>set k. unat c < 256)"

lemma encode_unit_cases:
  assumes "unat c < 256"
  shows "encode_unit c = [c] \<and> c \<noteq> 37
    \<or> encode_unit c = [37, hex16 (unat c div 16), hex16 (unat c mod 16)]"
proof (cases "plain_unit c")
  case True
  then have "c \<noteq> 37" by (auto simp: plain_unit_def)
  with True show ?thesis by (simp add: encode_unit_def)
next
  case False
  have "to_hex (unat c) = (if unat c < 16 then [hex16 (unat c)] else [hex16 (unat c div 16), hex16 (unat c mod 16)])"
    using assms by (cases "unat c < 16") (simp_all add: to_hex.simps[of "unat c"] to_hex.simps[of "unat c div 16"] div_less_iff_less_mult)
  with False show ?thesis by (auto simp: encode_unit_def pad_start2_def hex16_def numeral_2_eq_2)
qed

lemma hex_value_hex16: "n < 16 \<Longrightarrow> hex_value (hex16 n) = Some n"
  by (auto simp: hex_value_def hex16_def unat_of_nat Let_def)

lemma decode_skip:
  "c \<noteq> 37 \<Longrightarrow> decodeKey (c # r) = c # decodeKey r"
  by (cases "c # r" rule: decodeKey.cases) (auto split: option.split)

lemma decode_encode: "latin1 k \<Longrightarrow> decodeKey (encodeKey k) = k"
proof (induction k)
  case Nil
  then show ?case by (simp add: encodeKey_def)
next
  case (Cons c k)
  then have c: "unat c < 256" and ih: "decodeKey (encodeKey k) = k" by (simp_all add: latin1_def)
  have e: "encodeKey (c # k) = encode_unit c @ encodeKey k" by (simp add: encodeKey_def)
  have "unat c mod 16 < 16" "unat c div 16 < 16" using c by auto
  then show ?case using encode_unit_cases[OF c] ih
    by (auto simp: e decode_skip hex_value_hex16)
qed

lemma encode_inj: "latin1 k \<Longrightarrow> latin1 k' \<Longrightarrow> encodeKey k = encodeKey k' \<longleftrightarrow> k = k'"
  by (metis decode_encode)

section \<open>\<open>FilePersistence\<close>\<close>

datatype 'v content = Parses 'v | Unparseable

type_synonym 'v directory = "(js_string \<times> 'v content) list"

definition json_ext :: js_string where "json_ext = js ''.json''"

definition keyPath :: "js_string \<Rightarrow> js_string" where
  "keyPath k = encodeKey k @ json_ext"

definition file_get :: "js_string \<Rightarrow> 'v directory \<Rightarrow> 'v option" where
  "file_get k d = (case map_of d (keyPath k) of Some (Parses v) \<Rightarrow> Some v | _ \<Rightarrow> None)"

definition file_set :: "js_string \<Rightarrow> 'v \<Rightarrow> 'v directory \<Rightarrow> 'v directory" where
  "file_set k v d = AList.update (keyPath k) (Parses v) d"

definition file_delete :: "js_string \<Rightarrow> 'v directory \<Rightarrow> 'v directory" where
  "file_delete k d = AList.delete (keyPath k) d"

definition file_list :: "js_string option \<Rightarrow> 'v directory \<Rightarrow> js_string list" where
  "file_list p d =
     with_prefix p (map (\<lambda>f. decodeKey (take (length f - 5) f)) (filter (\<lambda>f. js_ends_with f json_ext) (map fst d)))"

definition file_has :: "js_string \<Rightarrow> 'v directory \<Rightarrow> bool" where
  "file_has k d = (map_of d (keyPath k) \<noteq> None)"

definition file_ops :: "('v directory, 'v) persistence" where
  "file_ops = \<lparr> kv_get = file_get, kv_set = file_set, kv_delete = file_delete, kv_list = file_list,
     kv_has = file_has \<rparr>"

lemmas file_defs = file_ops_def file_get_def file_set_def file_delete_def file_list_def file_has_def

text \<open>A directory the SDK has written: its JSON files are named after keys.\<close>

definition key_file :: "js_string \<Rightarrow> bool" where
  "key_file f = (js_ends_with f json_ext \<longrightarrow> f \<in> keyPath ` Collect latin1)"

definition dir_inv :: "'v directory \<Rightarrow> bool" where
  "dir_inv d = (distinct (map fst d) \<and> (\<forall>f\<in>fst ` set d. key_file f))"

lemma keyPath_eq: "latin1 k \<Longrightarrow> latin1 k' \<Longrightarrow> keyPath k = keyPath k' \<longleftrightarrow> k = k'"
  by (simp add: keyPath_def encode_inj)

lemma length_json_ext [simp]: "length json_ext = 5"
  by (simp add: json_ext_def js_def)

lemma keyPath_decodes: "latin1 k \<Longrightarrow> decodeKey (take (length (keyPath k) - 5) (keyPath k)) = k"
  by (simp add: keyPath_def decode_encode)

lemma listed_keys:
  assumes "dir_inv d"
  shows "set (file_list p d) = {k. latin1 k \<and> keyPath k \<in> fst ` set d \<and> prefix_ok p k}"
proof -
  have "(\<lambda>f. decodeKey (take (length f - 5) f)) ` {f \<in> fst ` set d. js_ends_with f json_ext}
    = {k. latin1 k \<and> keyPath k \<in> fst ` set d}" (is "?dec ` ?F = ?K")
  proof
    show "?dec ` ?F \<subseteq> ?K"
    proof
      fix k assume "k \<in> ?dec ` ?F"
      then obtain f where f: "f \<in> fst ` set d" "js_ends_with f json_ext" "k = ?dec f" by blast
      with assms obtain k' where "latin1 k'" "f = keyPath k'" by (auto simp: dir_inv_def key_file_def)
      with f show "k \<in> ?K" by (simp add: keyPath_decodes)
    qed
    show "?K \<subseteq> ?dec ` ?F"
    proof
      fix k assume "k \<in> ?K"
      then have "keyPath k \<in> ?F" "?dec (keyPath k) = k" by (auto simp: keyPath_decodes) (simp add: keyPath_def)
      then show "k \<in> ?dec ` ?F" by (rule rev_image_eqI[OF _ sym])
    qed
  qed
  then show ?thesis by (auto simp: file_list_def)
qed

lemma listed_distinct: "dir_inv d \<Longrightarrow> distinct (file_list p d)"
proof -
  assume d: "dir_inv d"
  have "inj_on (\<lambda>f. decodeKey (take (length f - 5) f)) {f \<in> fst ` set d. js_ends_with f json_ext}"
  proof (rule inj_onI)
    fix f g assume f: "f \<in> {f \<in> fst ` set d. js_ends_with f json_ext}" "g \<in> {f \<in> fst ` set d. js_ends_with f json_ext}"
      and e: "decodeKey (take (length f - 5) f) = decodeKey (take (length g - 5) g)"
    have "\<exists>k. latin1 k \<and> h = keyPath k" if "h \<in> {f \<in> fst ` set d. js_ends_with f json_ext}" for h
      using that d by (auto simp: dir_inv_def key_file_def)
    with f obtain k k' where "latin1 k" "f = keyPath k" "latin1 k'" "g = keyPath k'" by meson
    with e show "f = g" by (simp add: keyPath_decodes)
  qed
  with d show ?thesis unfolding file_list_def
    by (intro distinct_with_prefix) (simp add: distinct_map dir_inv_def)
qed

interpretation files: kv_store file_ops latin1 dir_inv
proof unfold_locales
  fix d :: "'v directory" and k k' :: js_string and v p
  show "dir_inv d \<Longrightarrow> latin1 k \<Longrightarrow> dir_inv (kv_set file_ops k v d)"
    by (auto simp: dir_inv_def file_defs distinct_update dom_update key_file_def)
  show "dir_inv d \<Longrightarrow> dir_inv (kv_delete file_ops k d)"
    using distinct_delete[of d "keyPath k"] by (auto simp: dir_inv_def file_defs AList.delete_eq)
  show "kv_get file_ops k (kv_set file_ops k v d) = Some v"
    by (simp add: file_defs update_conv')
  show "latin1 k \<Longrightarrow> latin1 k' \<Longrightarrow> k' \<noteq> k \<Longrightarrow> kv_get file_ops k' (kv_set file_ops k v d) = kv_get file_ops k' d"
    by (simp add: file_defs update_conv' keyPath_eq)
  show "kv_get file_ops k (kv_delete file_ops k d) = None"
    by (simp add: file_defs delete_conv')
  show "latin1 k \<Longrightarrow> latin1 k' \<Longrightarrow> k' \<noteq> k \<Longrightarrow> kv_get file_ops k' (kv_delete file_ops k d) = kv_get file_ops k' d"
    by (simp add: file_defs delete_conv' keyPath_eq)
  show "dir_inv d \<Longrightarrow> k \<in> set (kv_list file_ops p d) \<Longrightarrow> latin1 k \<and> prefix_ok p k"
    by (simp add: listed_keys file_ops_def)
  show "dir_inv d \<Longrightarrow> latin1 k \<Longrightarrow> kv_get file_ops k d \<noteq> None \<Longrightarrow> prefix_ok p k \<Longrightarrow> k \<in> set (kv_list file_ops p d)"
    by (auto simp: listed_keys file_ops_def file_get_def split: option.splits dest!: map_of_SomeD intro: rev_image_eqI)
  show "dir_inv d \<Longrightarrow> distinct (kv_list file_ops p d)"
    by (simp add: listed_distinct file_ops_def)
qed

section \<open>Properties\<close>

text \<open>C36: \<open>FilePersistence\<close> is a faithful key-value store for keys whose code units are below 256: after a
  \<open>set\<close> the key reads back the value and every other key what it read before, after a \<open>delete\<close> the key is
  absent, a listing names exactly the stored keys, once each, and the file name of a key decodes to it.\<close>

theorem file_store_correct:
  assumes "dir_inv d" "latin1 k" "latin1 k'"
  shows "decodeKey (encodeKey k) = k
    \<and> file_get k' (file_set k v d) = (if k' = k then Some v else file_get k' d)
    \<and> file_get k' (file_delete k d) = (if k' = k then None else file_get k' d)
    \<and> dir_inv (file_set k v d) \<and> dir_inv (file_delete k d)
    \<and> distinct (file_list p d) \<and> (k \<in> set (file_list p d)) = (file_has k d \<and> prefix_ok p k)"
  using assms files.get_set[of d k v] files.get_set_other[of d k k' v] files.get_delete[of k d]
    files.get_delete_other[of d k k'] files.set_inv[of d k v] files.delete_inv[of d k] listed_keys[of d p]
    listed_distinct[of d p]
  by (auto simp: decode_encode file_ops_def file_has_def map_of_eq_None_iff)

lemmas key_eval = js_def code_unit_def encodeKey_def encode_unit_def plain_unit_def to_hex.simps hex16_def
  pad_start2_def hex_value_def latin1_def keyPath_def json_ext_def

theorem file_store_correct_witness:
  "file_get (js ''a/1'') (file_set (js ''b'') (1 :: nat) [(keyPath (js ''a/1''), Parses 2)]) = Some 2"
proof -
  have "dir_inv [(keyPath (js ''a/1''), Parses (2 :: nat))]"
    by (simp add: dir_inv_def key_file_def) (auto simp: js_def code_unit_def latin1_def)
  moreover have "latin1 (js ''a/1'')" "latin1 (js ''b'')" "js ''a/1'' \<noteq> js ''b''" by (simp_all add: key_eval)
  ultimately show ?thesis
    using file_store_correct[of "[(keyPath (js ''a/1''), Parses (2 :: nat))]" "js ''b''" "js ''a/1''" 1 None]
    by (simp add: file_get_def)
qed

text \<open>above 255 an escape has three or four hex digits, which neither the decoder nor the file names tell
  from two digits followed by text. The keys \<open>a\<close>, en dash, \<open>b\<close> and \<open>a 13b\<close> share one file: writing the second
  overwrites the first, and a listing shows the second name for either.\<close>

theorem file_keys_collide:
  "let dash = [97, 0x2013, 98] :: js_string; other = js ''a 13b'';
       d = file_set other (2 :: nat) (file_set dash 1 [])
   in dash \<noteq> other \<and> file_get dash d = Some 2 \<and> file_list None (file_set dash (1 :: nat) []) = [other]"
  by (simp add: Let_def key_eval file_defs with_prefix_def js_ends_with_def)

end
