(* ===== verification/Cache.thy ===== *)
theory Cache
  imports Persistence
begin

text \<open>
  \<open>src/plugins/cache/\<close>: the response cache over a \<open>CacheStore\<close>. A store is a key-value store with a
  \<open>clear\<close>; \<open>MemoryCacheStore\<close> and \<open>FileCacheStore\<close> are its two implementations, the second on top of
  \<open>FilePersistence\<close>. The operations of \<open>Cache\<close> take the store's operations as an argument, so every
  lemma about them holds for any store that satisfies the laws of \<open>kv_store\<close>. The contract: for
  namespaces without a colon the cache is a map from pairs of namespace and key to live entries.
\<close>

section \<open>Entries and stores\<close>

record 'b cache_entry =
  ce_body :: 'b
  ce_storedAt :: ms
  ce_ttlMs :: jsnum
  ce_cacheName :: js_string

record ('s, 'b) cache_store = "('s, 'b cache_entry) kv_ops" +
  cs_clear :: "'s \<Rightarrow> 's"

definition memory_cache_store :: "('b cache_entry memory, 'b) cache_store" where
  "memory_cache_store = \<lparr> kv_get = mem_get, kv_set = mem_set, kv_delete = mem_delete, kv_list = mem_list,
     cs_clear = (\<lambda>_. []) \<rparr>"

definition file_cache_clear :: "'v directory \<Rightarrow> 'v directory" where
  "file_cache_clear d = fold file_delete (file_list None d) d"

definition file_cache_store :: "('b cache_entry directory, 'b) cache_store" where
  "file_cache_store = \<lparr> kv_get = file_get, kv_set = file_set, kv_delete = file_delete, kv_list = file_list,
     cs_clear = file_cache_clear \<rparr>"

section \<open>Keys and expiry\<close>

definition STORAGE_PREFIX :: js_string where "STORAGE_PREFIX = js ''cache:''"

definition DEFAULT_TTL_MS :: rat where "DEFAULT_TTL_MS = 5 * 60 * 1000"

abbreviation colon :: "16 word" where "colon \<equiv> 58"

definition makeStorageKey :: "js_string \<Rightarrow> js_string \<Rightarrow> js_string" where
  "makeStorageKey cacheName cacheKey = STORAGE_PREFIX @ cacheName @ [colon] @ cacheKey"

definition parseStorageKey :: "js_string \<Rightarrow> (js_string \<times> js_string) option" where
  "parseStorageKey storageKey =
     (if \<not> js_starts_with storageKey STORAGE_PREFIX then None
      else (let rest = drop (length STORAGE_PREFIX) storageKey
            in if colon \<notin> set rest then None
               else (let sep = length (takeWhile (\<lambda>c. c \<noteq> colon) rest)
                     in Some (take sep rest, drop (sep + 1) rest))))"

definition isExpired :: "ms \<Rightarrow> 'b cache_entry \<Rightarrow> bool" where
  "isExpired now e = (case ce_ttlMs e of Fin ttl \<Rightarrow> now - ce_storedAt e > ttl | _ \<Rightarrow> False)"

section \<open>The cache\<close>

record cache_config =
  cc_ttlMs :: "jsnum option"
  cc_defaultName :: "js_string option"

record cache =
  ca_defaultTtl :: jsnum
  ca_defaultName :: js_string

definition new_Cache :: "cache_config \<Rightarrow> cache" where
  "new_Cache config = \<lparr> ca_defaultTtl = nullish (cc_ttlMs config) (Fin DEFAULT_TTL_MS),
     ca_defaultName = nullish (cc_defaultName config) (js ''default'') \<rparr>"

definition cache_get ::
  "('s, 'b cache_entry, 'm) kv_ops_scheme \<Rightarrow> cache \<Rightarrow> ms \<Rightarrow> js_string option \<Rightarrow> js_string \<Rightarrow> 's \<Rightarrow> 'b option \<times> 's" where
  "cache_get ops c now cacheName cacheKey s =
     (let storageKey = makeStorageKey (nullish cacheName (ca_defaultName c)) cacheKey
      in case kv_get ops storageKey s of
           None \<Rightarrow> (None, s)
         | Some entry \<Rightarrow>
             if isExpired now entry then (None, kv_delete ops storageKey s) else (Some (ce_body entry), s))"

definition cache_set ::
  "('s, 'b cache_entry, 'm) kv_ops_scheme \<Rightarrow> cache \<Rightarrow> ms \<Rightarrow> js_string option \<Rightarrow> js_string \<Rightarrow> 'b
     \<Rightarrow> jsnum option \<Rightarrow> 's \<Rightarrow> 's" where
  "cache_set ops c now cacheName cacheKey body ttlMs s =
     (let name = nullish cacheName (ca_defaultName c);
          entry = \<lparr> ce_body = body, ce_storedAt = now, ce_ttlMs = nullish ttlMs (ca_defaultTtl c),
                    ce_cacheName = name \<rparr>
      in kv_set ops (makeStorageKey name cacheKey) entry s)"

definition cache_delete ::
  "('s, 'b cache_entry, 'm) kv_ops_scheme \<Rightarrow> cache \<Rightarrow> js_string option \<Rightarrow> js_string \<Rightarrow> 's \<Rightarrow> 's" where
  "cache_delete ops c cacheName cacheKey s =
     kv_delete ops (makeStorageKey (nullish cacheName (ca_defaultName c)) cacheKey) s"

record invalidate_scope =
  is_cacheName :: "js_string option"
  is_keyPrefix :: "js_string option"

text \<open>A field of the scope that is absent or empty does not restrict.\<close>

definition in_scope :: "invalidate_scope \<Rightarrow> js_string \<Rightarrow> js_string \<Rightarrow> bool" where
  "in_scope scope name key =
     ((case is_cacheName scope of None \<Rightarrow> True | Some n \<Rightarrow> n = [] \<or> name = n)
      \<and> (case is_keyPrefix scope of None \<Rightarrow> True | Some p \<Rightarrow> p = [] \<or> js_starts_with key p))"

definition scope_hits :: "invalidate_scope \<Rightarrow> js_string \<Rightarrow> bool" where
  "scope_hits scope storageKey =
     (case parseStorageKey storageKey of None \<Rightarrow> False | Some (name, key) \<Rightarrow> in_scope scope name key)"

fun invalidate_keys ::
  "('s, 'v, 'm) kv_ops_scheme \<Rightarrow> invalidate_scope \<Rightarrow> js_string list \<Rightarrow> nat \<Rightarrow> 's \<Rightarrow> nat \<times> 's" where
  "invalidate_keys ops scope [] removed s = (removed, s)"
| "invalidate_keys ops scope (storageKey # ks) removed s =
     (if scope_hits scope storageKey then invalidate_keys ops scope ks (removed + 1) (kv_delete ops storageKey s)
      else invalidate_keys ops scope ks removed s)"

definition cache_invalidate ::
  "('s, 'v, 'm) kv_ops_scheme \<Rightarrow> invalidate_scope \<Rightarrow> 's \<Rightarrow> nat \<times> 's" where
  "cache_invalidate ops scope s = invalidate_keys ops scope (kv_list ops (Some STORAGE_PREFIX) s) 0 s"

definition cache_clear :: "('s, 'b) cache_store \<Rightarrow> 's \<Rightarrow> 's" where
  "cache_clear ops s = cs_clear ops s"

section \<open>Storage keys\<close>

lemma js_starts_with_iff: "js_starts_with s p \<longleftrightarrow> (\<exists>r. s = p @ r)"
  by (metis append_take_drop_id js_starts_with_append js_starts_with_def)

lemma takeWhile_colon: "colon \<notin> set a \<Longrightarrow> takeWhile (\<lambda>c. c \<noteq> colon) (a @ colon # b) = a"
  by (induction a) auto

lemma parse_make: "colon \<notin> set name \<Longrightarrow> parseStorageKey (makeStorageKey name key) = Some (name, key)"
  by (simp add: parseStorageKey_def makeStorageKey_def Let_def takeWhile_colon)

lemma parse_SomeD:
  assumes "parseStorageKey k = Some (name, key)"
  shows "k = makeStorageKey name key \<and> colon \<notin> set name"
proof -
  from assms obtain r where r: "k = STORAGE_PREFIX @ r" "colon \<in> set r"
    by (auto simp: parseStorageKey_def js_starts_with_iff split: if_splits)
  from r(2) obtain a b where ab: "r = a @ colon # b" "colon \<notin> set a" by (metis split_list_first)
  with assms r show ?thesis
    by (simp add: parseStorageKey_def makeStorageKey_def Let_def takeWhile_colon)
qed

lemma make_prefix [simp]: "js_starts_with (makeStorageKey name key) STORAGE_PREFIX"
  by (simp add: makeStorageKey_def)

lemma make_inj:
  "colon \<notin> set name \<Longrightarrow> colon \<notin> set name' \<Longrightarrow>
   makeStorageKey name key = makeStorageKey name' key' \<longleftrightarrow> name = name' \<and> key = key'"
  by (metis option.inject parse_make prod.inject)

section \<open>The cache over any store\<close>

text \<open>The abstract cache: what is stored under a namespace and a key.\<close>

definition cache_map ::
  "('s, 'v, 'm) kv_ops_scheme \<Rightarrow> 's \<Rightarrow> js_string \<times> js_string \<Rightarrow> 'v option" where
  "cache_map ops s = (\<lambda>(name, key). kv_get ops (makeStorageKey name key) s)"

locale cache_over = kv_store ops usable inv
  for ops :: "('s, 'b cache_entry, 'm) kv_ops_scheme" and usable inv +
  assumes usable_make: "usable (makeStorageKey name key) \<longleftrightarrow> usable name \<and> usable key"
begin

definition good :: "js_string \<times> js_string \<Rightarrow> bool" where
  "good p = (colon \<notin> set (fst p) \<and> usable (fst p) \<and> usable (snd p))"

lemma map_set:
  assumes "inv s" "good (nullish n (ca_defaultName c), k)" "good p"
  shows "cache_map ops (cache_set ops c now n k b ttl s) p =
    (if p = (nullish n (ca_defaultName c), k)
     then Some \<lparr> ce_body = b, ce_storedAt = now, ce_ttlMs = nullish ttl (ca_defaultTtl c),
       ce_cacheName = nullish n (ca_defaultName c) \<rparr>
     else cache_map ops s p)"
  using assms
  by (cases p) (auto simp: cache_map_def cache_set_def Let_def good_def get_set usable_make make_inj intro!: get_set_other)

lemma map_delete:
  assumes "inv s" "good (nullish n (ca_defaultName c), k)" "good p"
  shows "cache_map ops (cache_delete ops c n k s) p =
    (if p = (nullish n (ca_defaultName c), k) then None else cache_map ops s p)"
  using assms
  by (cases p) (auto simp: cache_map_def cache_delete_def Let_def good_def get_delete usable_make make_inj intro!: get_delete_other)

lemma get_result:
  "fst (cache_get ops c now n k s) =
     (case cache_map ops s (nullish n (ca_defaultName c), k) of
        None \<Rightarrow> None | Some e \<Rightarrow> if isExpired now e then None else Some (ce_body e))"
  by (simp add: cache_get_def cache_map_def Let_def split: option.split)

lemma map_get:
  assumes "inv s" "good (nullish n (ca_defaultName c), k)" "good p"
  shows "cache_map ops (snd (cache_get ops c now n k s)) p =
    (if p = (nullish n (ca_defaultName c), k)
        \<and> (\<exists>e. cache_map ops s p = Some e \<and> isExpired now e) then None else cache_map ops s p)"
  using assms
  by (cases p) (auto simp: cache_map_def cache_get_def Let_def good_def get_delete usable_make make_inj
      split: option.split intro!: get_delete_other)

lemma invalidate_keys_fold:
  "invalidate_keys ops scope ks r s =
     (r + length (filter (scope_hits scope) ks), fold (kv_delete ops) (filter (scope_hits scope) ks) s)"
  by (induction ks arbitrary: r s) auto

lemma map_invalidate:
  assumes "inv s" "good (name, key)"
  shows "cache_map ops (snd (cache_invalidate ops scope s)) (name, key) =
    (if in_scope scope name key then None else cache_map ops s (name, key))"
proof -
  let ?l = "kv_list ops (Some STORAGE_PREFIX) s" and ?k = "makeStorageKey name key"
  let ?ks = "filter (scope_hits scope) ?l"
  have u: "usable ?k" using assms by (simp add: good_def usable_make)
  have "contents (snd (cache_invalidate ops scope s)) ?k = (if ?k \<in> set ?ks then None else contents s ?k)"
    using delete_all[OF assms(1), of ?ks] list_sound[OF assms(1)]
    by (fastforce simp: cache_invalidate_def invalidate_keys_fold)
  moreover have "scope_hits scope ?k = in_scope scope name key"
    using assms(2) by (simp add: scope_hits_def good_def parse_make)
  moreover have "kv_get ops ?k s = None" if "?k \<notin> set ?l"
    using list_complete[OF assms(1) u, of "Some STORAGE_PREFIX"] that
    by (cases "kv_get ops ?k s") (auto simp: prefix_ok_def)
  ultimately show ?thesis using u by (auto simp: cache_map_def contents_def split: if_splits)
qed

lemma invalidate_inv: "inv s \<Longrightarrow> inv (snd (cache_invalidate ops scope s))"
  using delete_all[of s "filter (scope_hits scope) (kv_list ops (Some STORAGE_PREFIX) s)"]
    list_sound[of s _ "Some STORAGE_PREFIX"]
  by (simp add: cache_invalidate_def invalidate_keys_fold)

end

interpretation memc: cache_over memory_cache_store "\<lambda>_. True" "\<lambda>s. distinct (map fst s)"
  by unfold_locales
    (use mem.set_inv mem.delete_inv mem.get_set mem.get_set_other mem.get_delete mem.get_delete_other
      mem.list_sound mem.list_complete mem.list_distinct in \<open>simp_all add: memory_cache_store_def memory_ops_def\<close>)

lemma latin1_make: "latin1 (makeStorageKey name key) \<longleftrightarrow> latin1 name \<and> latin1 key"
  by (auto simp: latin1_def makeStorageKey_def STORAGE_PREFIX_def js_def code_unit_def)

interpretation filec: cache_over file_cache_store latin1 dir_inv
  by unfold_locales
    (use files.set_inv files.delete_inv files.get_set files.get_set_other files.get_delete files.get_delete_other
      files.list_sound files.list_complete files.list_distinct latin1_make in \<open>simp_all add: file_cache_store_def file_ops_def\<close>)

section \<open>Properties\<close>

text \<open>C30: the in-memory cache implements its contract. Over namespaces without a colon it is a map from pairs
  of namespace and key to entries: \<open>set\<close> stores the body with its time and lifetime, \<open>get\<close> answers with the
  body exactly until the lifetime has passed and then drops the entry, \<open>delete\<close> and \<open>invalidate\<close> remove what
  they name and nothing else changes.\<close>

theorem memory_cache_refines_map:
  fixes s :: "'b cache_entry memory"
  defines "m \<equiv> cache_map memory_cache_store"
    and "ops \<equiv> memory_cache_store :: ('b cache_entry memory, 'b) cache_store"
  assumes "distinct (map fst s)" "colon \<notin> set (nullish n (ca_defaultName c))" "colon \<notin> set name"
  shows "m (cache_set ops c now n k b ttl s) (name, key) =
        (if name = nullish n (ca_defaultName c) \<and> key = k
         then Some \<lparr> ce_body = b, ce_storedAt = now, ce_ttlMs = nullish ttl (ca_defaultTtl c), ce_cacheName = name \<rparr>
         else m s (name, key))
    \<and> fst (cache_get ops c now n k s) =
        (case m s (nullish n (ca_defaultName c), k) of
           None \<Rightarrow> None | Some e \<Rightarrow> if isExpired now e then None else Some (ce_body e))
    \<and> m (snd (cache_get ops c now n k s)) (name, key) =
        (if name = nullish n (ca_defaultName c) \<and> key = k \<and> (\<exists>e. m s (name, key) = Some e \<and> isExpired now e)
         then None else m s (name, key))
    \<and> m (cache_delete ops c n k s) (name, key) =
        (if name = nullish n (ca_defaultName c) \<and> key = k then None else m s (name, key))
    \<and> m (snd (cache_invalidate ops scope s)) (name, key) =
        (if in_scope scope name key then None else m s (name, key))"
  unfolding m_def ops_def
  using assms(3-) memc.map_set[of s n c k "(name, key)" now b ttl] memc.get_result[of c now n k s]
    memc.map_get[of s n c k "(name, key)" now] memc.map_delete[of s n c k "(name, key)"]
    memc.map_invalidate[of s name key scope]
  by (auto simp: memc.good_def)

definition demo_cache :: cache where
  "demo_cache = new_Cache \<lparr> cc_ttlMs = None, cc_defaultName = None \<rparr>"

lemmas cache_eval = demo_cache_def new_Cache_def cache_get_def cache_set_def cache_invalidate_def cache_map_def
  makeStorageKey_def STORAGE_PREFIX_def memory_cache_store_def mem_get_def mem_set_def mem_delete_def mem_list_def
  with_prefix_def scope_hits_def parseStorageKey_def js_starts_with_def in_scope_def isExpired_def js_def
  code_unit_def

theorem memory_cache_refines_map_witness:
  "fst (cache_get memory_cache_store demo_cache 20 None (js ''k'')
     (cache_set memory_cache_store demo_cache 10 None (js ''k'') (7 :: nat) None [])) = Some 7"
proof -
  let ?s = "cache_set memory_cache_store demo_cache 10 None (js ''k'') (7 :: nat) None []"
  have d: "distinct (map fst ?s)" by (simp add: cache_eval)
  have n: "colon \<notin> set (nullish None (ca_defaultName demo_cache))" by (simp add: cache_eval)
  show ?thesis
    unfolding memory_cache_refines_map[OF d n n, THEN conjunct2, THEN conjunct1, of 20 "js ''k''"]
    by (simp add: cache_eval DEFAULT_TTL_MS_def)
qed

text \<open>C0: a namespace that holds a colon is not kept apart: what is stored under \<open>a:b\<close> with key \<open>c\<close> is answered
  to a \<open>get\<close> of namespace \<open>a\<close> with key \<open>b:c\<close>, an \<open>invalidate\<close> of \<open>a:b\<close> removes nothing, and one of \<open>a\<close>
  removes the entry.\<close>


theorem colon_namespace_aliases:
  "let ops = memory_cache_store;
       s = cache_set ops demo_cache 0 (Some (js ''a:b'')) (js ''c'') (7 :: nat) None []
   in fst (cache_get ops demo_cache 0 (Some (js ''a'')) (js ''b:c'') s) = Some 7
    \<and> fst (cache_invalidate ops \<lparr> is_cacheName = Some (js ''a:b''), is_keyPrefix = None \<rparr> s) = 0
    \<and> cache_invalidate ops \<lparr> is_cacheName = Some (js ''a''), is_keyPrefix = None \<rparr> s = (1, [])"
  by (simp add: Let_def cache_eval DEFAULT_TTL_MS_def)

end
