(* ===== verification/Durations.thy ===== *)
theory Durations
  imports Http
begin

text \<open>
  The two duration parsers: \<open>src/util/duration.ts\<close> (\<open>parseDuration\<close>, \<open>parseDurationOrNull\<close>) and the one of
  \<open>src/plugins/scheduler/scheduler.ts\<close>. Both read \<open><number><unit>\<close>; they differ in the units, the case of
  the unit and what they do with other text. A decimal numeral is read as the exact rational.
\<close>

section \<open>The shared pattern\<close>

definition span_digits :: "string \<Rightarrow> string \<times> string" where
  "span_digits s = (takeWhile is_digit s, dropWhile is_digit s)"

text \<open>\<open>(\\d+(?:\\.\\d+)?)\\s*\<close>, and the text after it.\<close>

definition read_number :: "string \<Rightarrow> (rat \<times> string) option" where
  "read_number s =
     (case span_digits s of
        ([], _) \<Rightarrow> None
      | (ds, r) \<Rightarrow>
          (let whole = of_nat (digits_val ds) :: rat;
               (v, r1) = (case r of
                            CHR ''.'' # r' \<Rightarrow>
                              (case span_digits r' of
                                 ([], _) \<Rightarrow> (whole, r)
                               | (fs, r2) \<Rightarrow> (whole + of_nat (digits_val fs) / 10 ^ length fs, r2))
                          | _ \<Rightarrow> (whole, r))
           in Some (v, dropWhile is_space r1)))"

section \<open>\<open>util/duration.ts\<close>\<close>

definition UNIT_MS :: "rat dict" where
  "UNIT_MS = [(''s'', 1000), (''m'', 60000), (''h'', 3600000), (''d'', 86400000), (''w'', 604800000)]"

text \<open>\<open>None\<close>: the error \<open>Invalid duration\<close>.\<close>

definition parseDuration :: "string \<Rightarrow> ms option" where
  "parseDuration value =
     (case read_number (trim value) of
        None \<Rightarrow> None
      | Some (n, u) \<Rightarrow> (case map_of UNIT_MS (to_lower u) of None \<Rightarrow> None | Some k \<Rightarrow> Some (n * k)))"

text \<open>The outer option is the error, the inner one \<open>null\<close>.\<close>

definition parseDurationOrNull :: "string option \<Rightarrow> ms option option" where
  "parseDurationOrNull value =
     (case value of None \<Rightarrow> Some None
      | Some v \<Rightarrow> if v = [] then Some None else (case parseDuration v of None \<Rightarrow> None | Some n \<Rightarrow> Some (Some n)))"

section \<open>The scheduler's parser\<close>

datatype duration = DurNumber ms | DurText string

definition SCHEDULER_UNITS :: "rat dict" where
  "SCHEDULER_UNITS = [(''ms'', 1), (''s'', 1000), (''m'', 60000), (''h'', 3600000), (''d'', 86400000)]"

definition schedulerDuration :: "duration \<Rightarrow> ms option" where
  "schedulerDuration input =
     (case input of
        DurNumber n \<Rightarrow> Some n
      | DurText t \<Rightarrow>
          (case (case read_number t of None \<Rightarrow> None
                 | Some (n, u) \<Rightarrow> map_option (\<lambda>k. n * k) (map_of SCHEDULER_UNITS u)) of
             Some v \<Rightarrow> Some v
           | None \<Rightarrow> map_option of_int (parseInt10 t)))"

section \<open>Reading back numerals\<close>

lemma read_numeral:
  assumes "u = [] \<or> \<not> is_digit (hd u) \<and> hd u \<noteq> CHR ''.''"
  shows "read_number (nat_to_string n @ u) = Some (of_nat n, dropWhile is_space u)"
proof -
  have "takeWhile is_digit u = []" "dropWhile is_digit u = u" using assms by (cases u; auto)+
  then have s: "span_digits (nat_to_string n @ u) = (nat_to_string n, u)"
    using nat_to_string_digits[of n] by (simp add: span_digits_def takeWhile_append2 dropWhile_append2)
  obtain c cs where c: "nat_to_string n = c # cs" using nat_to_string_digits[of n] by (meson neq_Nil_conv)
  have "(case u of CHR ''.'' # r' \<Rightarrow> f r' | _ \<Rightarrow> (x, u)) = (x, u)" for f :: "string \<Rightarrow> rat \<times> string" and x
    using assms by (cases u) (auto split: char.splits bool.splits)
  then show ?thesis using s nat_to_string_digits[of n] by (simp add: read_number_def c)
qed

section \<open>Properties\<close>

lemma trim_numeral:
  assumes "u \<noteq> []" "\<not> is_space (last u)"
  shows "trim (nat_to_string n @ u) = nat_to_string n @ u"
proof -
  obtain c cs where c: "nat_to_string n = c # cs" "is_digit c"
    using nat_to_string_digits[of n] by (metis list.set_intros(1) neq_Nil_conv)
  have "\<not> is_space c" using c(2) by (auto simp: is_digit_def is_space_def)
  moreover have "dropWhile is_space (rev u @ xs) = rev u @ xs" for xs
    using assms by (cases u rule: rev_cases) simp_all
  ultimately show ?thesis using c(1) by (simp add: trim_def)
qed

lemma unit_cases:
  "to_upper ''s'' = ''S''" "to_upper ''m'' = ''M''" "to_upper ''h'' = ''H''" "to_upper ''d'' = ''D''"
  "to_upper ''w'' = ''W''" "to_lower ''S'' = ''s''" "to_lower ''M'' = ''m''" "to_lower ''H'' = ''h''"
  "to_lower ''D'' = ''d''" "to_lower ''W'' = ''w''" "to_lower ''s'' = ''s''" "to_lower ''m'' = ''m''"
  "to_lower ''h'' = ''h''" "to_lower ''d'' = ''d''" "to_lower ''w'' = ''w''"
  by code_simp+

text \<open>a whole number with a unit reads back as that many milliseconds: \<open>parseDuration\<close> knows s, m, h, d and w
  in either case, and the scheduler's parser ms, s, m, h and d; on the four units both know, in lower case, they agree.\<close>

theorem duration_reads_back:
  "((u, k) \<in> set UNIT_MS \<longrightarrow> parseDuration (nat_to_string n @ u) = Some (of_nat n * k)
      \<and> parseDuration (nat_to_string n @ to_upper u) = Some (of_nat n * k))
   \<and> ((u, k) \<in> set SCHEDULER_UNITS \<longrightarrow> schedulerDuration (DurText (nat_to_string n @ u)) = Some (of_nat n * k))"
  by (auto simp: UNIT_MS_def SCHEDULER_UNITS_def parseDuration_def schedulerDuration_def trim_numeral read_numeral
    unit_cases code_unit_def is_space_def is_digit_def)

theorem duration_reads_back_witness:
  "parseDuration ''72h'' = Some 259200000 \<and> parseDuration ''2W'' = Some 1209600000
   \<and> schedulerDuration (DurText ''250ms'') = Some 250"
proof -
  have n: "nat_to_string 72 = ''72''" "nat_to_string 2 = ''2''" "nat_to_string 250 = ''250''"
    by code_simp+
  show ?thesis
    using duration_reads_back[of "''h''" 3600000 72] duration_reads_back[of "''w''" 604800000 2]
      duration_reads_back[of "''ms''" 1 250]
    by (simp add: n UNIT_MS_def SCHEDULER_UNITS_def unit_cases)
qed

text \<open>the scheduler's parser does not reject what its error message rules out: text that starts with a
  number and ends in an unknown unit is read as that many milliseconds, so \<open>5 minutes\<close> is five
  milliseconds and \<open>1w\<close> one, where \<open>util/duration.ts\<close> answers an error and a week.\<close>

theorem unknown_unit_is_milliseconds:
  "schedulerDuration (DurText ''5 minutes'') = Some 5 \<and> parseDuration ''5 minutes'' = None
   \<and> schedulerDuration (DurText ''1w'') = Some 1 \<and> parseDuration ''1w'' = Some 604800000
   \<and> schedulerDuration (DurText ''soon'') = None"
  by code_simp

end
