(* ===== verification/Scheduler.thy ===== *)
theory Scheduler
  imports Persistence Durations Json
begin

text \<open>
  \<open>src/plugins/scheduler/scheduler.ts\<close>: durable tasks over a \<open>Persistence\<close>. The methods are
  coroutines: code up to an \<open>await\<close> runs at once, the rest is a suspended continuation (\<open>sc_conts\<close>) that
  any later step may resume. \<open>sc_timers\<close> is the scheduler's map from task ids to timer handles,
  \<open>sc_timeouts\<close> the runtime's pending timeouts. \<open>setTimeout\<close> is the documented one of Node: a delay
  below 1 or above 2147483647 becomes 1. A read of the persistence takes its value when it is called.
  The random task ids are arguments.
\<close>

section \<open>State\<close>

datatype task_type = Once | Periodic

record task_def =
  td_id :: js_string
  td_name :: string
  td_args :: json
  td_fireAt :: ms
  td_type :: task_type
  td_interval :: "rat option"

record timeout =
  to_handle :: nat
  to_due :: ms
  to_task :: task_def

text \<open>Suspended coroutines: after the \<open>set\<close> of \<open>after\<close>/\<open>at\<close>/\<open>every\<close>; in the loop of \<open>start\<close> before a
  key and after the \<open>get\<close> of a key; in \<open>fireTask\<close> while the handler runs and after the \<open>set\<close>.\<close>

datatype cont =
    CAdded task_def
  | CStart "js_string list"
  | CGot "task_def option" "js_string list"
  | CHandler task_def
  | CRearm task_def

datatype sched_event =
    Accepted js_string
  | Cancelled js_string
  | NoHandler js_string
  | Ran js_string ms
  | Finished js_string

record 's scheduler =
  sc_store :: 's
  sc_handlers :: "string list"
  sc_timers :: "(js_string \<times> nat) list"
  sc_running :: bool
  sc_timeouts :: "timeout list"
  sc_nextHandle :: nat
  sc_conts :: "cont list"
  sc_now :: ms
  sc_log :: "sched_event list"

definition new_Scheduler :: "'s \<Rightarrow> ms \<Rightarrow> 's scheduler" where
  "new_Scheduler persistence now = \<lparr> sc_store = persistence, sc_handlers = [], sc_timers = [], sc_running = False,
     sc_timeouts = [], sc_nextHandle = 0, sc_conts = [], sc_now = now, sc_log = [] \<rparr>"

definition task_key :: "js_string \<Rightarrow> js_string" where
  "task_key i = js ''task:'' @ i"

section \<open>Timers\<close>

definition timeout_delay :: "rat \<Rightarrow> rat" where
  "timeout_delay d = (if d < 1 \<or> d > 2147483647 then 1 else of_int \<lfloor>d\<rfloor>)"

definition clear_timeout :: "nat \<Rightarrow> timeout list \<Rightarrow> timeout list" where
  "clear_timeout h ts = filter (\<lambda>t. to_handle t \<noteq> h) ts"

definition scheduleTimer :: "task_def \<Rightarrow> 's scheduler \<Rightarrow> 's scheduler" where
  "scheduleTimer task s =
     (let now = sc_now s; delay = max 0 (td_fireAt task - now); h = sc_nextHandle s
      in s\<lparr>sc_timeouts := sc_timeouts s @ [\<lparr> to_handle = h, to_due = now + timeout_delay delay, to_task = task \<rparr>],
           sc_nextHandle := h + 1,
           sc_timers := AList.update (td_id task) h (sc_timers s)\<rparr>)"

definition suspend :: "cont \<Rightarrow> 's scheduler \<Rightarrow> 's scheduler" where
  "suspend c s = s\<lparr>sc_conts := sc_conts s @ [c]\<rparr>"

definition sched_log :: "sched_event \<Rightarrow> 's scheduler \<Rightarrow> 's scheduler" where
  "sched_log e s = s\<lparr>sc_log := sc_log s @ [e]\<rparr>"

definition persist :: "('s, task_def, 'm) kv_ops_scheme \<Rightarrow> task_def \<Rightarrow> 's scheduler \<Rightarrow> 's scheduler" where
  "persist ops task s = s\<lparr>sc_store := kv_set ops (task_key (td_id task)) task (sc_store s)\<rparr>"

definition unpersist :: "('s, task_def, 'm) kv_ops_scheme \<Rightarrow> js_string \<Rightarrow> 's scheduler \<Rightarrow> 's scheduler" where
  "unpersist ops i s = s\<lparr>sc_store := kv_delete ops (task_key i) (sc_store s)\<rparr>"

section \<open>Operations\<close>

definition register :: "string \<Rightarrow> 's scheduler \<Rightarrow> 's scheduler" where
  "register name s = s\<lparr>sc_handlers := List.insert name (sc_handlers s)\<rparr>"

definition add_task :: "('s, task_def, 'm) kv_ops_scheme \<Rightarrow> task_def \<Rightarrow> 's scheduler \<Rightarrow> 's scheduler" where
  "add_task ops task s = suspend (CAdded task) (sched_log (Accepted (td_id task)) (persist ops task s))"

text \<open>An invalid duration throws before anything is stored.\<close>

definition after_task ::
  "('s, task_def, 'm) kv_ops_scheme \<Rightarrow> js_string \<Rightarrow> duration \<Rightarrow> string \<Rightarrow> json \<Rightarrow> 's scheduler \<Rightarrow> 's scheduler" where
  "after_task ops i duration name args s =
     (case schedulerDuration duration of
        None \<Rightarrow> s
      | Some delayMs \<Rightarrow>
          add_task ops \<lparr> td_id = i, td_name = name, td_args = args, td_fireAt = sc_now s + delayMs,
            td_type = Once, td_interval = None \<rparr> s)"

definition at_task ::
  "('s, task_def, 'm) kv_ops_scheme \<Rightarrow> js_string \<Rightarrow> ms \<Rightarrow> string \<Rightarrow> json \<Rightarrow> 's scheduler \<Rightarrow> 's scheduler" where
  "at_task ops i fireAt name args s =
     add_task ops \<lparr> td_id = i, td_name = name, td_args = args, td_fireAt = fireAt,
       td_type = Once, td_interval = None \<rparr> s"

definition every_task ::
  "('s, task_def, 'm) kv_ops_scheme \<Rightarrow> js_string \<Rightarrow> duration \<Rightarrow> string \<Rightarrow> json \<Rightarrow> 's scheduler \<Rightarrow> 's scheduler" where
  "every_task ops i interval name args s =
     (case schedulerDuration interval of
        None \<Rightarrow> s
      | Some intervalMs \<Rightarrow>
          add_task ops \<lparr> td_id = i, td_name = name, td_args = args, td_fireAt = sc_now s + intervalMs,
            td_type = Periodic, td_interval = Some intervalMs \<rparr> s)"

definition cancel :: "('s, task_def, 'm) kv_ops_scheme \<Rightarrow> js_string \<Rightarrow> 's scheduler \<Rightarrow> 's scheduler" where
  "cancel ops taskId s =
     (let s1 = (case map_of (sc_timers s) taskId of
                  None \<Rightarrow> s
                | Some h \<Rightarrow> s\<lparr>sc_timeouts := clear_timeout h (sc_timeouts s),
                              sc_timers := AList.delete taskId (sc_timers s)\<rparr>)
      in sched_log (Cancelled taskId) (unpersist ops taskId s1))"

definition start :: "('s, task_def, 'm) kv_ops_scheme \<Rightarrow> 's scheduler \<Rightarrow> 's scheduler" where
  "start ops s = suspend (CStart (kv_list ops (Some (js ''task:'')) (sc_store s))) (s\<lparr>sc_running := True\<rparr>)"

definition stop :: "'s scheduler \<Rightarrow> 's scheduler" where
  "stop s = s\<lparr>sc_running := False,
              sc_timeouts := fold (\<lambda>(i, h) ts. clear_timeout h ts) (sc_timers s) (sc_timeouts s),
              sc_timers := []\<rparr>"

definition pending :: "('s, task_def, 'm) kv_ops_scheme \<Rightarrow> 's scheduler \<Rightarrow> task_def list" where
  "pending ops s = List.map_filter (\<lambda>key. kv_get ops key (sc_store s)) (kv_list ops (Some (js ''task:'')) (sc_store s))"

text \<open>The callback of a timer: \<open>fireTask\<close> up to its first \<open>await\<close>.\<close>

definition fire :: "timeout \<Rightarrow> 's scheduler \<Rightarrow> 's scheduler" where
  "fire t s =
     (let task = to_task t;
          s1 = s\<lparr>sc_timeouts := remove1 t (sc_timeouts s), sc_timers := AList.delete (td_id task) (sc_timers s)\<rparr>
      in if td_name task \<in> set (sc_handlers s1)
         then suspend (CHandler task) (sched_log (Ran (td_id task) (sc_now s1)) s1)
         else sched_log (NoHandler (td_id task)) s1)"

text \<open>The rest of \<open>fireTask\<close>, after the handler has returned or its error has been logged.\<close>

definition handler_done :: "('s, task_def, 'm) kv_ops_scheme \<Rightarrow> task_def \<Rightarrow> 's scheduler \<Rightarrow> 's scheduler" where
  "handler_done ops task s =
     (case (td_type task, td_interval task) of
        (Periodic, Some iv) \<Rightarrow>
          if iv \<noteq> 0 then
            (let task1 = task\<lparr>td_fireAt := sc_now s + iv\<rparr> in suspend (CRearm task1) (persist ops task1 s))
          else sched_log (Finished (td_id task)) (unpersist ops (td_id task) s)
      | _ \<Rightarrow> sched_log (Finished (td_id task)) (unpersist ops (td_id task) s))"

text \<open>The loop of \<open>start\<close> up to its next \<open>await\<close>.\<close>

fun start_loop :: "('s, task_def, 'm) kv_ops_scheme \<Rightarrow> js_string list \<Rightarrow> 's scheduler \<Rightarrow> 's scheduler" where
  "start_loop ops [] s = s"
| "start_loop ops (key # ks) s = suspend (CGot (kv_get ops key (sc_store s)) ks) s"

definition resume_cont :: "('s, task_def, 'm) kv_ops_scheme \<Rightarrow> cont \<Rightarrow> 's scheduler \<Rightarrow> 's scheduler" where
  "resume_cont ops c s =
     (case c of
        CAdded task \<Rightarrow> if sc_running s then scheduleTimer task s else s
      | CStart ks \<Rightarrow> start_loop ops ks s
      | CGot got ks \<Rightarrow> start_loop ops ks (case got of None \<Rightarrow> s | Some task \<Rightarrow> scheduleTimer task s)
      | CHandler task \<Rightarrow> handler_done ops task s
      | CRearm task \<Rightarrow> if sc_running s then scheduleTimer task s else s)"

section \<open>Runs\<close>

datatype sched_step =
    Register string
  | After js_string duration string json
  | AtTime js_string ms string json
  | Every js_string duration string json
  | Cancel js_string
  | Start
  | Stop
  | Resume nat
  | Fire nat
  | Advance rat

definition sched_step :: "('s, task_def, 'm) kv_ops_scheme \<Rightarrow> sched_step \<Rightarrow> 's scheduler \<Rightarrow> 's scheduler" where
  "sched_step ops e s =
     (case e of
        Register name \<Rightarrow> register name s
      | After i d name args \<Rightarrow> after_task ops i d name args s
      | AtTime i t name args \<Rightarrow> at_task ops i t name args s
      | Every i d name args \<Rightarrow> every_task ops i d name args s
      | Cancel i \<Rightarrow> cancel ops i s
      | Start \<Rightarrow> start ops s
      | Stop \<Rightarrow> stop s
      | Resume k \<Rightarrow>
          if k < length (sc_conts s)
          then resume_cont ops (sc_conts s ! k) (s\<lparr>sc_conts := take k (sc_conts s) @ drop (Suc k) (sc_conts s)\<rparr>) else s
      | Fire k \<Rightarrow>
          if k < length (sc_timeouts s) \<and> to_due (sc_timeouts s ! k) \<le> sc_now s then fire (sc_timeouts s ! k) s else s
      | Advance d \<Rightarrow> s\<lparr>sc_now := sc_now s + max 0 d\<rparr>)"

definition sched_run :: "('s, task_def, 'm) kv_ops_scheme \<Rightarrow> sched_step list \<Rightarrow> 's scheduler \<Rightarrow> 's scheduler" where
  "sched_run ops es s = fold (sched_step ops) es s"

section \<open>Nothing is lost\<close>

text \<open>What a suspended coroutine will still do for a task.\<close>

definition cont_for :: "js_string \<Rightarrow> cont \<Rightarrow> bool" where
  "cont_for i c = (case c of
      CAdded t \<Rightarrow> td_id t = i
    | CStart ks \<Rightarrow> task_key i \<in> set ks
    | CGot got ks \<Rightarrow> (case got of None \<Rightarrow> False | Some t \<Rightarrow> td_id t = i) \<or> task_key i \<in> set ks
    | CHandler t \<Rightarrow> td_id t = i
    | CRearm t \<Rightarrow> td_id t = i)"

text \<open>A task is attended to: a timeout is pending for it, a coroutine will arm or is running it, or it came due
  without a handler.\<close>

definition attended :: "js_string \<Rightarrow> 's scheduler \<Rightarrow> bool" where
  "attended i s = (i \<in> (\<lambda>t. td_id (to_task t)) ` set (sc_timeouts s)
     \<or> (\<exists>c\<in>set (sc_conts s). cont_for i c) \<or> NoHandler i \<in> set (sc_log s))"

definition handles_ok :: "'s scheduler \<Rightarrow> bool" where
  "handles_ok s = ((\<forall>t\<in>set (sc_timeouts s). to_handle t < sc_nextHandle s)
    \<and> (\<forall>i h. map_of (sc_timers s) i = Some h \<longrightarrow> h < sc_nextHandle s
         \<and> (\<forall>t\<in>set (sc_timeouts s). to_handle t = h \<longrightarrow> td_id (to_task t) = i)))"

definition cont_ids :: "cont \<Rightarrow> js_string set" where
  "cont_ids c = (case c of CAdded t \<Rightarrow> {td_id t} | CStart ks \<Rightarrow> {} | CGot got ks \<Rightarrow> (case got of None \<Rightarrow> {} | Some t \<Rightarrow> {td_id t})
     | CHandler t \<Rightarrow> {td_id t} | CRearm t \<Rightarrow> {td_id t})"

definition cont_keys :: "cont \<Rightarrow> js_string set" where
  "cont_keys c = (case c of CStart ks \<Rightarrow> set ks | CGot got ks \<Rightarrow> set ks | _ \<Rightarrow> {})"

lemma task_key_inj [simp]: "task_key i = task_key j \<longleftrightarrow> i = j"
  by (simp add: task_key_def)

lemmas sched_prims = scheduleTimer_def suspend_def sched_log_def persist_def unpersist_def Let_def

lemma attended_mono:
  "attended i s \<Longrightarrow> attended i (scheduleTimer t s)" "attended i s \<Longrightarrow> attended i (suspend c s)"
  "attended i s \<Longrightarrow> attended i (sched_log e s)" "attended i s \<Longrightarrow> attended i (persist ops t s)"
  "attended i s \<Longrightarrow> attended i (unpersist ops j s)"
  by (auto simp: attended_def sched_prims)

lemma attended_new:
  "attended (td_id t) (scheduleTimer t s)" "cont_for i c \<Longrightarrow> attended i (suspend c s)"
  "attended i (sched_log (NoHandler i) s)"
  by (auto simp: attended_def sched_prims)

lemma handles_schedule: "handles_ok s \<Longrightarrow> handles_ok (scheduleTimer t s)"
  by (fastforce simp: handles_ok_def sched_prims update_conv' split: if_splits)

lemma handles_frame [simp]:
  "handles_ok (suspend c s) = handles_ok s" "handles_ok (sched_log e s) = handles_ok s"
  "handles_ok (persist ops t s) = handles_ok s" "handles_ok (unpersist ops i s) = handles_ok s"
  by (simp_all add: handles_ok_def sched_prims)

lemma handles_fewer:
  assumes "handles_ok s" "set ts \<subseteq> set (sc_timeouts s)" "map_of ms \<subseteq>\<^sub>m map_of (sc_timers s)"
  shows "handles_ok (s\<lparr>sc_timeouts := ts, sc_timers := ms\<rparr>)"
  using assms by (fastforce simp: handles_ok_def map_le_def dom_def)

locale task_store = kv_store ops usable inv
  for ops :: "('s, task_def, 'm) kv_ops_scheme" and usable inv +
  assumes usable_key: "usable (task_key i) \<longleftrightarrow> usable i"
begin

definition stored :: "js_string \<Rightarrow> 's scheduler \<Rightarrow> bool" where
  "stored i s = (kv_get ops (task_key i) (sc_store s) \<noteq> None)"

text \<open>What the store holds under a task key is the task of that key.\<close>

definition store_ok :: "'s \<Rightarrow> bool" where
  "store_ok st = (inv st \<and> (\<forall>k t. usable k \<and> js_starts_with k (js ''task:'') \<and> kv_get ops k st = Some t
     \<longrightarrow> k = task_key (td_id t)))"

definition cont_ok :: "cont \<Rightarrow> bool" where
  "cont_ok c = ((\<forall>i\<in>cont_ids c. usable i)
     \<and> (\<forall>k\<in>cont_keys c. usable k \<and> js_starts_with k (js ''task:'')))"

definition base :: "'s scheduler \<Rightarrow> bool" where
  "base s = (store_ok (sc_store s) \<and> handles_ok s \<and> (\<forall>t\<in>set (sc_timeouts s). usable (td_id (to_task t)))
     \<and> (\<forall>c\<in>set (sc_conts s). cont_ok c))"

definition durable :: "'s scheduler \<Rightarrow> bool" where
  "durable s = (\<forall>i. usable i \<and> Accepted i \<in> set (sc_log s)
     \<longrightarrow> Cancelled i \<in> set (sc_log s) \<or> Finished i \<in> set (sc_log s) \<or> stored i s)"

definition covered :: "'s scheduler \<Rightarrow> bool" where
  "covered s = (sc_running s \<longrightarrow> (\<forall>i. usable i \<and> stored i s \<longrightarrow> attended i s))"

lemma store_ok_set: "store_ok st \<Longrightarrow> usable (td_id t) \<Longrightarrow> store_ok (kv_set ops (task_key (td_id t)) t st)"
  unfolding store_ok_def by (metis get_set get_set_other option.inject set_inv usable_key)

lemma store_ok_delete: "store_ok st \<Longrightarrow> usable i \<Longrightarrow> store_ok (kv_delete ops (task_key i) st)"
  unfolding store_ok_def by (metis delete_inv get_delete get_delete_other option.distinct(1) usable_key)

lemma stored_set:
  "store_ok (sc_store s) \<Longrightarrow> usable (td_id t) \<Longrightarrow> usable i \<Longrightarrow>
   stored i (s\<lparr>sc_store := kv_set ops (task_key (td_id t)) t (sc_store s)\<rparr>) \<longleftrightarrow> i = td_id t \<or> stored i s"
  by (cases "i = td_id t") (simp_all add: stored_def store_ok_def get_set get_set_other usable_key)

lemma stored_delete:
  "store_ok (sc_store s) \<Longrightarrow> usable j \<Longrightarrow> usable i \<Longrightarrow>
   stored i (s\<lparr>sc_store := kv_delete ops (task_key j) (sc_store s)\<rparr>) \<longleftrightarrow> i \<noteq> j \<and> stored i s"
  by (cases "i = j") (simp_all add: stored_def store_ok_def get_delete get_delete_other usable_key)

lemma base_ops:
  assumes "base s"
  shows "usable (td_id t) \<Longrightarrow> base (scheduleTimer t s)" "cont_ok c \<Longrightarrow> base (suspend c s)"
    "base (sched_log e s)" "usable (td_id t) \<Longrightarrow> base (persist ops t s)" "usable i \<Longrightarrow> base (unpersist ops i s)"
proof -
  have "usable (td_id t) \<Longrightarrow> handles_ok (scheduleTimer t s)" using assms by (simp add: base_def handles_schedule)
  then show "usable (td_id t) \<Longrightarrow> base (scheduleTimer t s)"
    using assms by (auto simp: base_def scheduleTimer_def Let_def)
  show "cont_ok c \<Longrightarrow> base (suspend c s)" "base (sched_log e s)"
    "usable (td_id t) \<Longrightarrow> base (persist ops t s)" "usable i \<Longrightarrow> base (unpersist ops i s)"
    using assms store_ok_set store_ok_delete
    by (simp_all add: base_def) (simp_all add: sched_prims)
qed

lemma stored_ops:
  "stored i (scheduleTimer t s) = stored i s" "stored i (suspend c s) = stored i s"
  "stored i (sched_log e s) = stored i s"
  "base s \<Longrightarrow> usable (td_id t) \<Longrightarrow> usable i \<Longrightarrow> stored i (persist ops t s) = (i = td_id t \<or> stored i s)"
  "base s \<Longrightarrow> usable j \<Longrightarrow> usable i \<Longrightarrow> stored i (unpersist ops j s) = (i \<noteq> j \<and> stored i s)"
  using stored_set[of s t i] stored_delete[of s j i]
  by (simp_all add: base_def persist_def unpersist_def) (simp_all add: stored_def sched_prims)

lemma log_ops:
  "sc_log (scheduleTimer t s) = sc_log s" "sc_log (suspend c s) = sc_log s"
  "sc_log (sched_log e s) = sc_log s @ [e]" "sc_log (persist ops t s) = sc_log s" "sc_log (unpersist ops i s) = sc_log s"
  "sc_running (scheduleTimer t s) = sc_running s" "sc_running (suspend c s) = sc_running s"
  "sc_running (sched_log e s) = sc_running s" "sc_running (persist ops t s) = sc_running s"
  "sc_running (unpersist ops i s) = sc_running s" "sc_store (suspend c s) = sc_store s"
  "sc_store (scheduleTimer t s) = sc_store s"
  by (simp_all add: sched_prims)

text \<open>The three invariants with a set of tasks the current step has taken out and still owes its attention.\<close>

definition owing :: "js_string set \<Rightarrow> 's scheduler \<Rightarrow> bool" where
  "owing I s = (base s \<and> durable s \<and> (sc_running s \<longrightarrow> (\<forall>i. usable i \<and> stored i s \<and> i \<notin> I \<longrightarrow> attended i s)))"

lemma owing_mono: "owing I s \<Longrightarrow> I \<subseteq> J \<Longrightarrow> owing J s"
  by (auto simp: owing_def)

lemma owing_schedule: "owing I s \<Longrightarrow> usable (td_id t) \<Longrightarrow> owing (I - {td_id t}) (scheduleTimer t s)"
  unfolding owing_def using base_ops(1)
  by (auto simp: durable_def stored_ops log_ops attended_mono) (auto simp: attended_new(1))

lemma owing_suspend: "owing I s \<Longrightarrow> cont_ok c \<Longrightarrow> owing (I - {i. cont_for i c}) (suspend c s)"
  unfolding owing_def using base_ops(2)
  by (auto simp: durable_def stored_ops log_ops attended_mono) (auto simp: attended_new(2))

lemma owing_persist: "owing I s \<Longrightarrow> usable (td_id t) \<Longrightarrow> owing (insert (td_id t) I) (persist ops t s)"
  unfolding owing_def using base_ops(4)
  by (auto simp: durable_def stored_ops log_ops attended_mono)

lemma owing_log:
  assumes "owing I s" "\<And>i. e = Accepted i \<Longrightarrow> usable i \<Longrightarrow> stored i s"
  shows "owing (I - {i. e = NoHandler i}) (sched_log e s)"
  using assms unfolding owing_def durable_def
  by (auto simp: stored_ops log_ops attended_mono base_ops(3)) (auto simp: attended_new(3))

lemma owing_remove:
  assumes "owing I s" "usable i" "e = Cancelled i \<or> e = Finished i"
  shows "owing (I - {i}) (sched_log e (unpersist ops i s))"
proof -
  have b: "base (sched_log e (unpersist ops i s))" using assms base_ops(3,5) unfolding owing_def by blast
  have st: "usable j \<Longrightarrow> stored j (sched_log e (unpersist ops i s)) = (j \<noteq> i \<and> stored j s)" for j
    using assms by (simp add: stored_ops owing_def)
  have "durable (sched_log e (unpersist ops i s))"
    using assms unfolding owing_def durable_def by (auto simp: st log_ops)
  with b show ?thesis using assms(1) unfolding owing_def
    by (auto simp: st log_ops intro!: attended_mono(3) attended_mono(5))
qed

text \<open>Each operation and each continuation.\<close>

lemma owing_add: "owing {} s \<Longrightarrow> usable (td_id t) \<Longrightarrow> owing {} (add_task ops t s)"
proof -
  assume a: "owing {} s" "usable (td_id t)"
  then have p: "owing {td_id t} (persist ops t s)" using owing_persist[of "{}"] by simp
  have "owing {td_id t} (sched_log (Accepted (td_id t)) (persist ops t s))"
    using owing_log[OF p, of "Accepted (td_id t)"] a by (auto simp: stored_ops owing_def)
  from owing_suspend[OF this, of "CAdded t"] a(2)
  show ?thesis by (simp add: add_task_def cont_ok_def cont_ids_def cont_keys_def cont_for_def)
qed

lemma owing_start_loop:
  assumes "owing I s" "\<And>k. k \<in> set ks \<Longrightarrow> usable k \<and> js_starts_with k (js ''task:'')"
  shows "owing (I - {i. task_key i \<in> set ks}) (start_loop ops ks s)"
proof (cases ks)
  case Nil
  with assms show ?thesis by simp
next
  case (Cons k ks')
  let ?g = "kv_get ops k (sc_store s)"
  have k: "usable k" "js_starts_with k (js ''task:'')" using assms(2) Cons by auto
  have st: "store_ok (sc_store s)" using assms(1) by (simp add: owing_def base_def)
  have id: "k = task_key (td_id t)" if "?g = Some t" for t using st k that by (simp add: store_ok_def)
  have ok: "cont_ok (CGot ?g ks')"
    using assms(2) Cons k id usable_key by (fastforce simp: cont_ok_def cont_ids_def cont_keys_def split: option.split)
  \<comment> \<open>A key that reads as absent is owed nothing.\<close>
  have "owing (I - {i. task_key i = k \<and> ?g = None}) s"
    using assms(1) by (auto simp: owing_def stored_def)
  from owing_suspend[OF this ok]
  have "owing (I - {i. task_key i = k \<and> ?g = None} - {i. cont_for i (CGot ?g ks')}) (suspend (CGot ?g ks') s)" .
  moreover have "I - {i. task_key i = k \<and> ?g = None} - {i. cont_for i (CGot ?g ks')} \<subseteq> I - {i. task_key i \<in> set ks}"
    using id by (auto simp: Cons cont_for_def split: option.splits)
  ultimately have "owing (I - {i. task_key i \<in> set ks}) (suspend (CGot ?g ks') s)" by (rule owing_mono)
  then show ?thesis by (simp add: Cons)
qed

lemma owing_handler_done:
  assumes "owing {td_id t} s" "usable (td_id t)"
  shows "owing {} (handler_done ops t s)"
proof -
  have fin: "owing {} (sched_log (Finished (td_id t)) (unpersist ops (td_id t) s))"
    using owing_remove[OF assms, of "Finished (td_id t)"] by simp
  have re: "owing {} (suspend (CRearm u) (persist ops u s))" if "td_id u = td_id t" for u
  proof -
    have "owing {td_id t} (persist ops u s)" using owing_persist[OF assms(1), of u] assms(2) that by simp
    from owing_suspend[OF this, of "CRearm u"] show ?thesis
      using assms(2) that by (simp add: cont_ok_def cont_ids_def cont_keys_def cont_for_def)
  qed
  show ?thesis using fin re
    by (auto simp: handler_done_def Let_def split: task_type.split option.split)
qed

lemma owing_resume:
  assumes "owing {i. cont_for i c} s" "cont_ok c"
  shows "owing {} (resume_cont ops c s)"
proof (cases c)
  case (CStart ks)
  with assms(2) owing_start_loop[OF assms(1), of ks] show ?thesis
    by (auto simp: resume_cont_def cont_ok_def cont_keys_def cont_for_def)
next
  case (CGot got ks)
  have ks: "\<And>k. k \<in> set ks \<Longrightarrow> usable k \<and> js_starts_with k (js ''task:'')"
    using assms(2) CGot by (simp add: cont_ok_def cont_keys_def)
  show ?thesis
  proof (cases got)
    case None
    with owing_start_loop[of "{i. task_key i \<in> set ks}" s ks] assms(1) ks CGot
    show ?thesis by (simp add: resume_cont_def cont_for_def)
  next
    case (Some t)
    then have "usable (td_id t)" using assms(2) CGot by (simp add: cont_ok_def cont_ids_def)
    from owing_start_loop[OF owing_schedule[OF assms(1) this], of ks] ks
    have "owing ({i. cont_for i c} - {td_id t} - {i. task_key i \<in> set ks}) (start_loop ops ks (scheduleTimer t s))"
      by simp
    moreover have "{i. cont_for i c} - {td_id t} - {i. task_key i \<in> set ks} = {}"
      using CGot Some by (auto simp: cont_for_def)
    ultimately have "owing {} (start_loop ops ks (scheduleTimer t s))" by metis
    then show ?thesis using CGot Some by (simp add: resume_cont_def)
  qed
next
  case (CHandler t)
  with assms show ?thesis
    by (simp add: resume_cont_def cont_for_def owing_handler_done cont_ok_def cont_ids_def)
next
  case (CAdded t)
  with assms owing_schedule[OF assms(1), of t] show ?thesis
    by (auto simp: resume_cont_def cont_for_def cont_ok_def cont_ids_def) (auto simp: owing_def)
next
  case (CRearm t)
  with assms owing_schedule[OF assms(1), of t] show ?thesis
    by (auto simp: resume_cont_def cont_for_def cont_ok_def cont_ids_def) (auto simp: owing_def)
qed

lemma owing_fewer_timeouts:
  assumes "owing {} s" "set ts \<subseteq> set (sc_timeouts s)" "map_of ms \<subseteq>\<^sub>m map_of (sc_timers s)"
  shows "owing ((\<lambda>t. td_id (to_task t)) ` (set (sc_timeouts s) - set ts)) (s\<lparr>sc_timeouts := ts, sc_timers := ms\<rparr>)"
  using assms handles_fewer[OF _ assms(2,3)]
  by (fastforce simp: owing_def base_def durable_def stored_def attended_def)

lemma delete_le: "map_of (AList.delete k m) \<subseteq>\<^sub>m map_of m"
  by (simp add: delete_conv' map_le_def)

lemma owing_cancel:
  assumes "owing {} s" "usable i"
  shows "owing {} (cancel ops i s)"
proof -
  let ?s1 = "case map_of (sc_timers s) i of None \<Rightarrow> s
    | Some h \<Rightarrow> s\<lparr>sc_timeouts := clear_timeout h (sc_timeouts s), sc_timers := AList.delete i (sc_timers s)\<rparr>"
  have "owing {i} ?s1"
  proof (cases "map_of (sc_timers s) i")
    case None
    then show ?thesis using owing_mono[OF assms(1)] by simp
  next
    case (Some h)
    have "handles_ok s" using assms(1) by (simp add: owing_def base_def)
    with Some have "(\<lambda>t. td_id (to_task t)) ` (set (sc_timeouts s) - set (clear_timeout h (sc_timeouts s))) \<subseteq> {i}"
      by (auto simp: handles_ok_def clear_timeout_def)
    moreover have "set (clear_timeout h (sc_timeouts s)) \<subseteq> set (sc_timeouts s)" by (auto simp: clear_timeout_def)
    ultimately show ?thesis using owing_mono[OF owing_fewer_timeouts[OF assms(1) _ delete_le]] Some by simp
  qed
  from owing_remove[OF this assms(2)] show ?thesis by (simp add: cancel_def Let_def)
qed

lemma owing_start:
  assumes "owing {} s" shows "owing {} (start ops s)"
proof -
  let ?ks = "kv_list ops (Some (js ''task:'')) (sc_store s)"
  have st: "store_ok (sc_store s)" using assms by (simp add: owing_def base_def)
  have "usable k \<and> js_starts_with k (js ''task:'')" if "k \<in> set ?ks" for k
    using list_sound[of "sc_store s" k "Some (js ''task:'')"] st that by (simp add: store_ok_def prefix_ok_def)
  then have ok: "cont_ok (CStart ?ks)" by (simp add: cont_ok_def cont_ids_def cont_keys_def)
  have "task_key i \<in> set ?ks" if "usable i" "stored i s" for i
    using list_complete st that usable_key by (auto simp: store_ok_def stored_def prefix_ok_def task_key_def)
  then have all: "usable i \<Longrightarrow> stored i s \<Longrightarrow> cont_for i (CStart ?ks)" for i by (simp add: cont_for_def)
  have "owing {i. usable i \<and> stored i s} (s\<lparr>sc_running := True\<rparr>)"
    using assms by (auto simp: owing_def base_def durable_def stored_def handles_ok_def)
  from owing_suspend[OF this ok] all show ?thesis
    by (auto simp: start_def intro!: owing_mono[of "{i. usable i \<and> stored i s} - _" _ "{}"])
qed

lemma owing_stop:
  assumes "owing {} s" shows "owing {} (stop s)"
proof -
  let ?ts = "fold (\<lambda>(i, h) ts. clear_timeout h ts) (sc_timers s) (sc_timeouts s)"
  have sub: "set (fold (\<lambda>(i, h) ts. clear_timeout h ts) ms ts) \<subseteq> set ts" for ms :: "(js_string \<times> nat) list" and ts
    by (induction ms arbitrary: ts) (force simp: clear_timeout_def)+
  define s1 where "s1 = s\<lparr>sc_timeouts := ?ts, sc_timers := []\<rparr>"
  have "owing ((\<lambda>t. td_id (to_task t)) ` (set (sc_timeouts s) - set ?ts)) s1"
    unfolding s1_def using owing_fewer_timeouts[OF assms sub, of "[]"] by simp
  then have "owing {} (s1\<lparr>sc_running := False\<rparr>)"
    by (simp add: owing_def base_def durable_def stored_def handles_ok_def)
  moreover have "s1\<lparr>sc_running := False\<rparr> = stop s" by (simp add: stop_def s1_def)
  ultimately show ?thesis by simp
qed

lemma owing_fire:
  assumes "owing {} s" "t \<in> set (sc_timeouts s)"
  shows "owing {} (fire t s)"
proof -
  let ?s1 = "s\<lparr>sc_timeouts := remove1 t (sc_timeouts s), sc_timers := AList.delete (td_id (to_task t)) (sc_timers s)\<rparr>"
  have u: "usable (td_id (to_task t))" using assms by (simp add: owing_def base_def)
  have "set (sc_timeouts s) - set (remove1 t (sc_timeouts s)) \<subseteq> {t}" by (metis DiffE in_set_remove1 insert_iff subsetI)
  then have s1: "owing {td_id (to_task t)} ?s1"
    using owing_fewer_timeouts[OF assms(1) set_remove1_subset delete_le, of t "td_id (to_task t)"]
    by (elim owing_mono) auto
  have "owing {} (suspend (CHandler (to_task t)) (sched_log e ?s1))" if "\<And>i. e \<noteq> Accepted i" for e
  proof -
    have "owing ({td_id (to_task t)} - {i. e = NoHandler i}) (sched_log e ?s1)"
      by (rule owing_log[OF s1]) (simp add: that)
    then have "owing {td_id (to_task t)} (sched_log e ?s1)" by (rule owing_mono) blast
    from owing_suspend[OF this, of "CHandler (to_task t)"] u
    show ?thesis by (simp add: cont_ok_def cont_ids_def cont_keys_def cont_for_def)
  qed
  moreover have "owing {} (sched_log (NoHandler (td_id (to_task t))) ?s1)"
    using owing_log[OF s1, of "NoHandler (td_id (to_task t))"] by simp
  ultimately show ?thesis by (simp add: fire_def Let_def)
qed

text \<open>Every step, for task ids the store keeps apart.\<close>

fun step_ids :: "sched_step \<Rightarrow> js_string set" where
  "step_ids (After i d n a) = {i}"
| "step_ids (AtTime i t n a) = {i}"
| "step_ids (Every i d n a) = {i}"
| "step_ids (Cancel i) = {i}"
| "step_ids _ = {}"

lemma owing_step:
  assumes "owing {} s" "\<forall>i\<in>step_ids e. usable i"
  shows "owing {} (sched_step ops e s)"
proof (cases e)
  case (Resume k)
  show ?thesis
  proof (cases "k < length (sc_conts s)")
    case True
    let ?c = "sc_conts s ! k" and ?s1 = "s\<lparr>sc_conts := take k (sc_conts s) @ drop (Suc k) (sc_conts s)\<rparr>"
    have split: "sc_conts s = take k (sc_conts s) @ ?c # drop (Suc k) (sc_conts s)"
      using True by (simp add: id_take_nth_drop)
    have cs: "set (sc_conts s) = insert ?c (set (sc_conts ?s1))" by (subst split) simp
    have "cont_ok ?c" using assms(1) True by (simp add: owing_def base_def)
    moreover have "owing {i. cont_for i ?c} ?s1"
      using assms(1) cs unfolding owing_def base_def durable_def stored_def attended_def handles_ok_def by auto
    ultimately show ?thesis using owing_resume True Resume by (simp add: sched_step_def)
  qed (use assms Resume in \<open>simp add: sched_step_def\<close>)
next
  case (Advance d)
  with assms show ?thesis
    by (simp add: sched_step_def owing_def base_def durable_def stored_def attended_def handles_ok_def)
next
  case (Register n)
  with assms show ?thesis
    by (simp add: sched_step_def register_def owing_def base_def durable_def stored_def attended_def handles_ok_def)
qed (use assms owing_add owing_cancel owing_start owing_stop owing_fire in
    \<open>simp_all add: sched_step_def after_task_def at_task_def every_task_def split: option.split\<close>)

lemma owing_run:
  "owing {} s \<Longrightarrow> \<forall>e\<in>set es. \<forall>i\<in>step_ids e. usable i \<Longrightarrow> owing {} (sched_run ops es s)"
  unfolding sched_run_def by (induction es arbitrary: s) (simp_all add: owing_step)

lemma owing_new: "store_ok st \<Longrightarrow> owing {} (new_Scheduler st now)"
  by (simp add: owing_def base_def durable_def new_Scheduler_def handles_ok_def)

end

interpretation memt: task_store memory_ops "\<lambda>_. True" "\<lambda>s. distinct (map fst s)"
  by unfold_locales simp

interpretation filet: task_store file_ops latin1 dir_inv
  by unfold_locales (auto simp: task_key_def latin1_def js_def code_unit_def)

section \<open>Properties\<close>

text \<open>C31: no task is lost. Over an in-memory persistence and whatever the interleaving of calls, timers,
  handlers and the coroutines in between, every task accepted so far has been cancelled, has finished, or is
  still persisted; and while the scheduler runs every persisted task has a pending timer, is being armed or
  executed by a suspended coroutine, or came due under a name without a handler.\<close>

theorem no_task_lost:
  fixes es :: "sched_step list" and now :: ms
  defines "s \<equiv> sched_run memory_ops es (new_Scheduler [] now)"
  shows "(Accepted i \<in> set (sc_log s) \<longrightarrow>
          Cancelled i \<in> set (sc_log s) \<or> Finished i \<in> set (sc_log s) \<or> mem_get (task_key i) (sc_store s) \<noteq> None)
    \<and> (sc_running s \<and> mem_get (task_key i) (sc_store s) \<noteq> None \<longrightarrow> attended i s)"
proof -
  have "memt.store_ok []" by (simp add: memt.store_ok_def) (simp add: memory_defs)
  then have "memt.owing {} s" unfolding s_def by (intro memt.owing_run memt.owing_new) simp_all
  moreover have "kv_get memory_ops k st = mem_get k st" for k and st :: "task_def memory"
    by (simp add: memory_ops_def)
  ultimately show ?thesis by (simp add: memt.owing_def memt.durable_def memt.stored_def)
qed

definition sched_demo :: "sched_step list \<Rightarrow> task_def memory scheduler" where
  "sched_demo es = sched_run memory_ops es (new_Scheduler [] 0)"

lemmas sched_eval = sched_demo_def sched_run_def sched_step_def new_Scheduler_def register_def after_task_def
  at_task_def every_task_def add_task_def cancel_def start_def stop_def fire_def handler_done_def resume_cont_def
  sched_prims memory_defs schedulerDuration_def timeout_delay_def clear_timeout_def with_prefix_def
  js_starts_with_def task_key_def attended_def cont_for_def js_def code_unit_def

theorem no_task_lost_witness:
  "let s = sched_demo [Register ''job'', Start, Resume 0, After [7] (DurNumber 1000) ''job'' JNull, Resume 0,
       Advance 1000, Fire 0]
   in sc_running s \<and> Accepted [7] \<in> set (sc_log s) \<and> mem_get (task_key [7]) (sc_store s) \<noteq> None
     \<and> attended [7] s"
proof -
  let ?es = "[Register ''job'', Start, Resume 0, After [7] (DurNumber 1000) ''job'' JNull, Resume 0,
       Advance 1000, Fire 0]"
  have "sc_running (sched_demo ?es) \<and> Accepted [7] \<in> set (sc_log (sched_demo ?es))
     \<and> Cancelled [7] \<notin> set (sc_log (sched_demo ?es)) \<and> Finished [7] \<notin> set (sc_log (sched_demo ?es))"
    by (simp add: sched_eval)
  with no_task_lost[of "[7]" ?es 0] show ?thesis by (simp add: sched_demo_def Let_def)
qed

text \<open>a task cannot be cancelled from its own handler, nor while the handler runs: \<open>fireTask\<close> writes the
  periodic task back when the handler returns, without looking whether it still exists, and arms its next
  timer.\<close>

theorem cancel_while_running_is_undone:
  "let s = sched_demo [Register ''poll'', Start, Resume 0, Every [7] (DurNumber 1000) ''poll'' JNull, Resume 0,
       Advance 1000, Fire 0, Cancel [7], Resume 0, Resume 0]
   in Cancelled [7] \<in> set (sc_log s) \<and> mem_get (task_key [7]) (sc_store s) \<noteq> None \<and> length (sc_timeouts s) = 1"
  by (simp add: sched_eval)

text \<open>a task due in more than \<open>2 ^ 31 - 1\<close> milliseconds (about 24.8 days) fires at once, because the
  whole delay is handed to \<open>setTimeout\<close>: a task scheduled for thirty days from now has run after one
  millisecond.\<close>

theorem long_delay_fires_at_once:
  "Ran [7] 1 \<in> set (sc_log (sched_demo [Register ''job'', Start, Resume 0, After [7] (DurText ''30d'') ''job'' JNull,
     Resume 0, Advance 1, Fire 0]))"
proof -
  have "schedulerDuration (DurText ''30d'') = Some 2592000000" by code_simp
  then show ?thesis by (simp add: sched_eval)
qed

text \<open>calling \<open>start\<close> twice arms every persisted task twice, so a task scheduled once runs twice.\<close>

theorem second_start_runs_twice:
  "filter (\<lambda>e. e = Ran [7] 1000) (sc_log (sched_demo [Register ''job'', After [7] (DurNumber 1000) ''job'' JNull,
     Resume 0, Start, Resume 0, Resume 0, Start, Resume 0, Resume 0, Advance 1000, Fire 0, Resume 0, Fire 0]))
   = [Ran [7] 1000, Ran [7] 1000]"
  by (simp add: sched_eval)

end
