(* ===== verification/Permissions.thy ===== *)
theory Permissions
  imports Json
begin

text \<open>
  \<open>src/plugins/permissions/\<close>: the glob compiler (\<open>glob.ts\<close>), the built-in target matchers
  (\<open>matchers.ts\<close>, \<open>withArgs\<close> of \<open>types.ts\<close>) and the rule evaluator (\<open>policy.ts\<close>). A compiled glob is the
  sequence of the pieces its regular expression consists of. In a regular expression without flags the
  dot does not match a line terminator, a negated class does. Keys that plain objects inherit
  from \<open>Object.prototype\<close> are outside the model of \<open>key in args\<close>.
\<close>

section \<open>Globs\<close>

datatype piece =
    Lit char
  | DotStar
  | SegStar
  | Dot
  | Seg

definition line_end :: "char \<Rightarrow> bool" where
  "line_end c = (c = LF \<or> c = CR)"

definition is_dot :: "char \<Rightarrow> bool" where "is_dot c = (\<not> line_end c)"
definition is_seg :: "char \<Rightarrow> bool" where "is_seg c = (c \<noteq> CHR ''/'')"

text \<open>\<open>globToRegex\<close>; \<open>**\<close> swallows a slash that follows it.\<close>

function globToRegex :: "bool \<Rightarrow> string \<Rightarrow> piece list" where
  "globToRegex loose [] = []"
| "globToRegex loose (c # cs) =
     (if c = CHR ''*'' then
        (case cs of
           CHR ''*'' # ds \<Rightarrow>
             DotStar # globToRegex loose (case ds of CHR ''/'' # es \<Rightarrow> es | _ \<Rightarrow> ds)
         | _ \<Rightarrow> (if loose then DotStar else SegStar) # globToRegex loose cs)
      else if c = CHR ''?'' then (if loose then Dot else Seg) # globToRegex loose cs
      else Lit c # globToRegex loose cs)"
  by pat_completeness auto
termination
  by (relation "measure (\<lambda>(l, s). length s)") (auto split: list.splits char.splits bool.splits)

declare globToRegex.simps(2) [simp del]

text \<open>\<open>RegExp.test\<close> of the anchored expression.\<close>

fun regex_test :: "piece list \<Rightarrow> string \<Rightarrow> bool" where
  "regex_test [] s = (s = [])"
| "regex_test (Lit c # ps) s = (case s of [] \<Rightarrow> False | d # ds \<Rightarrow> c = d \<and> regex_test ps ds)"
| "regex_test (Dot # ps) s = (case s of [] \<Rightarrow> False | d # ds \<Rightarrow> is_dot d \<and> regex_test ps ds)"
| "regex_test (Seg # ps) s = (case s of [] \<Rightarrow> False | d # ds \<Rightarrow> is_seg d \<and> regex_test ps ds)"
| "regex_test (DotStar # ps) s =
     (regex_test ps s \<or> (case s of [] \<Rightarrow> False | d # ds \<Rightarrow> is_dot d \<and> regex_test (DotStar # ps) ds))"
| "regex_test (SegStar # ps) s =
     (regex_test ps s \<or> (case s of [] \<Rightarrow> False | d # ds \<Rightarrow> is_seg d \<and> regex_test (SegStar # ps) ds))"

definition compileGlobs :: "bool \<Rightarrow> string list \<Rightarrow> string \<Rightarrow> bool" where
  "compileGlobs loose patterns s = list_ex (\<lambda>p. regex_test (globToRegex loose p) s) patterns"

section \<open>Targets and matchers\<close>

record perm_target =
  pt_kind :: string
  pt_arguments :: "json dict option"
  pt_fields :: "json dict"

type_synonym target_matcher = "perm_target \<Rightarrow> bool"

definition string_field :: "perm_target \<Rightarrow> string \<Rightarrow> string option" where
  "string_field t k = (case map_of (pt_fields t) k of Some (JStr s) \<Rightarrow> Some s | _ \<Rightarrow> None)"

definition field_test :: "string \<Rightarrow> string \<Rightarrow> (string \<Rightarrow> bool) \<Rightarrow> target_matcher" where
  "field_test kind field test t =
     (pt_kind t = kind \<and> (case string_field t field of None \<Rightarrow> False | Some s \<Rightarrow> test s))"

definition memoryCategory :: "string list \<Rightarrow> target_matcher" where
  "memoryCategory categories = field_test ''memory'' ''category'' (\<lambda>c. c \<in> set categories)"

definition fsGlob :: "string list \<Rightarrow> target_matcher" where
  "fsGlob patterns = field_test ''fs'' ''path'' (compileGlobs False patterns)"

definition shellGlob :: "string list \<Rightarrow> target_matcher" where
  "shellGlob patterns = field_test ''shell'' ''command'' (compileGlobs True patterns)"

definition urlPattern :: "string list \<Rightarrow> target_matcher" where
  "urlPattern patterns = field_test ''url'' ''url'' (compileGlobs True patterns)"

definition anyOfKind :: "string list \<Rightarrow> target_matcher" where
  "anyOfKind kinds t = (pt_kind t \<in> set kinds)"

definition withArgs :: "string \<Rightarrow> (json \<Rightarrow> bool) \<Rightarrow> target_matcher" where
  "withArgs key predicate t =
     (case pt_arguments t of
        None \<Rightarrow> False
      | Some args \<Rightarrow> (case map_of args key of None \<Rightarrow> False | Some v \<Rightarrow> predicate v))"

section \<open>The policy\<close>

datatype effect = Allow | Deny | Ask

datatype names = OneName string | Names "string list"

record rule =
  ru_source :: "names option"
  ru_target :: "target_matcher option"
  ru_action :: "names option"
  ru_effect :: effect
  ru_reason :: "string option"

record decision =
  de_allow :: bool
  de_ask :: "bool option"
  de_reason :: "string option"
  de_matchedRule :: "nat option"

definition arrayMatch :: "string \<Rightarrow> names \<Rightarrow> bool" where
  "arrayMatch value allowed =
     (let list = (case allowed of OneName n \<Rightarrow> [n] | Names ns \<Rightarrow> ns)
      in value \<in> set list \<or> ''*'' \<in> set list)"

definition rule_matches :: "string \<Rightarrow> perm_target \<Rightarrow> string \<Rightarrow> rule \<Rightarrow> bool" where
  "rule_matches source target action r =
     ((case ru_source r of None \<Rightarrow> True | Some n \<Rightarrow> arrayMatch source n)
      \<and> (case ru_action r of None \<Rightarrow> True | Some n \<Rightarrow> arrayMatch action n)
      \<and> (case ru_target r of None \<Rightarrow> True | Some m \<Rightarrow> m target))"

fun check_from :: "nat \<Rightarrow> rule list \<Rightarrow> string \<Rightarrow> perm_target \<Rightarrow> string \<Rightarrow> decision" where
  "check_from i [] source target action =
     \<lparr> de_allow = False, de_ask = None, de_reason = Some ''no rule matched (default deny)'', de_matchedRule = None \<rparr>"
| "check_from i (r # rs) source target action =
     (if rule_matches source target action r then
        \<lparr> de_allow = (ru_effect r = Allow), de_ask = (if ru_effect r = Ask then Some True else None),
          de_reason = ru_reason r, de_matchedRule = Some i \<rparr>
      else check_from (i + 1) rs source target action)"

definition check :: "rule list \<Rightarrow> string \<Rightarrow> perm_target \<Rightarrow> string \<Rightarrow> decision" where
  "check rules source target action = check_from 0 rules source target action"

definition withAdditional :: "rule list \<Rightarrow> rule list \<Rightarrow> rule list" where
  "withAdditional rules extra = rules @ extra"

definition policy_size :: "rule list \<Rightarrow> nat" where
  "policy_size rules = length rules"

section \<open>What a glob matches\<close>

text \<open>The reference: the strings each piece stands for, concatenated.\<close>

fun piece_lang :: "piece \<Rightarrow> string set" where
  "piece_lang (Lit c) = {[c]}"
| "piece_lang Dot = {[c] | c. is_dot c}"
| "piece_lang Seg = {[c] | c. is_seg c}"
| "piece_lang DotStar = {s. \<forall>c\<in>set s. is_dot c}"
| "piece_lang SegStar = {s. \<forall>c\<in>set s. is_seg c}"

fun pieces_lang :: "piece list \<Rightarrow> string set" where
  "pieces_lang [] = {[]}"
| "pieces_lang (p # ps) = {a @ b | a b. a \<in> piece_lang p \<and> b \<in> pieces_lang ps}"

lemma star_unfold:
  "(\<exists>a b. s = a @ b \<and> (\<forall>c\<in>set a. P c) \<and> b \<in> L) \<longleftrightarrow>
   s \<in> L \<or> (\<exists>d ds. s = d # ds \<and> P d \<and> (\<exists>a b. ds = a @ b \<and> (\<forall>c\<in>set a. P c) \<and> b \<in> L))" (is "?l \<longleftrightarrow> ?r")
proof
  assume ?l
  then obtain a b where ab: "s = a @ b" "\<forall>c\<in>set a. P c" "b \<in> L" by blast
  then show ?r by (cases a) auto
next
  assume ?r
  then show ?l
  proof
    assume "s \<in> L" then have "s = [] @ s \<and> (\<forall>c\<in>set []. P c) \<and> s \<in> L" by simp
    then show ?l by blast
  next
    assume "\<exists>d ds. s = d # ds \<and> P d \<and> (\<exists>a b. ds = a @ b \<and> (\<forall>c\<in>set a. P c) \<and> b \<in> L)"
    then obtain d a b where "s = (d # a) @ b \<and> (\<forall>c\<in>set (d # a). P c) \<and> b \<in> L" by auto
    then show ?l by blast
  qed
qed

lemma one_char: "(\<exists>a b. s = a @ b \<and> (\<exists>c. a = [c] \<and> P c) \<and> b \<in> L) \<longleftrightarrow> (\<exists>c b. s = c # b \<and> P c \<and> b \<in> L)"
  by (metis append_Cons append_Nil)

lemma regex_test_lang: "regex_test ps s \<longleftrightarrow> s \<in> pieces_lang ps"
proof (induction ps s rule: regex_test.induct)
  case (5 ps s)
  have "s \<in> pieces_lang (DotStar # ps) \<longleftrightarrow> s \<in> pieces_lang ps \<or> (\<exists>d ds. s = d # ds \<and> is_dot d \<and> ds \<in> pieces_lang (DotStar # ps))"
    using star_unfold[of s is_dot "pieces_lang ps"] by simp
  then show ?case using 5 by (cases s) auto
next
  case (6 ps s)
  have "s \<in> pieces_lang (SegStar # ps) \<longleftrightarrow> s \<in> pieces_lang ps \<or> (\<exists>d ds. s = d # ds \<and> is_seg d \<and> ds \<in> pieces_lang (SegStar # ps))"
    using star_unfold[of s is_seg "pieces_lang ps"] by simp
  then show ?case using 6 by (cases s) auto
qed (auto simp: one_char split: list.split)

lemma glob_plain: "\<forall>c\<in>set p. c \<noteq> CHR ''*'' \<and> c \<noteq> CHR ''?'' \<Longrightarrow> globToRegex loose (p @ q) = map Lit p @ globToRegex loose q"
  by (induction p) (auto simp: globToRegex.simps)

lemma lang_literal: "pieces_lang (map Lit p @ ps) = {p @ s | s. s \<in> pieces_lang ps}"
  by (induction p) auto

lemma check_from_append:
  "de_matchedRule (check_from i rs s t a) \<noteq> None \<Longrightarrow> check_from i (rs @ xs) s t a = check_from i rs s t a"
  by (induction rs arbitrary: i) auto

lemma check_from_none:
  "de_matchedRule (check_from i rs s t a) = None \<longleftrightarrow> (\<forall>r\<in>set rs. \<not> rule_matches s t a r)"
  by (induction rs arbitrary: i) auto

lemma check_from_first:
  assumes "i < length rs" "rule_matches s t a (rs ! i)" "\<forall>j<i. \<not> rule_matches s t a (rs ! j)"
  shows "check_from k rs s t a = \<lparr> de_allow = (ru_effect (rs ! i) = Allow),
     de_ask = (if ru_effect (rs ! i) = Ask then Some True else None), de_reason = ru_reason (rs ! i),
     de_matchedRule = Some (k + i) \<rparr>"
  using assms
proof (induction rs arbitrary: i k)
  case Nil
  then show ?case by simp
next
  case (Cons r rs)
  show ?case
  proof (cases i)
    case 0
    with Cons.prems show ?thesis by simp
  next
    case (Suc j)
    have "\<not> rule_matches s t a r" using Cons.prems(3)[rule_format, of 0] Suc by simp
    moreover have "\<forall>m<j. \<not> rule_matches s t a (rs ! m)" using Cons.prems(3)[rule_format, of "Suc _"] Suc by auto
    ultimately show ?thesis using Cons.IH[of j "k + 1"] Cons.prems Suc by simp
  qed
qed

section \<open>Properties\<close>

text \<open>the first matching rule decides, with its effect, its reason and its index; without a matching rule
  the answer is a denial; and rules added later never change a decision an earlier rule has made.\<close>

theorem first_match_wins:
  "(i < length rules \<and> rule_matches s t a (rules ! i) \<and> (\<forall>j<i. \<not> rule_matches s t a (rules ! j)) \<longrightarrow>
      check (withAdditional rules extra) s t a = \<lparr> de_allow = (ru_effect (rules ! i) = Allow),
        de_ask = (if ru_effect (rules ! i) = Ask then Some True else None), de_reason = ru_reason (rules ! i),
        de_matchedRule = Some i \<rparr>)
   \<and> ((\<forall>r\<in>set rules. \<not> rule_matches s t a r) \<longrightarrow> \<not> de_allow (check rules s t a) \<and> de_ask (check rules s t a) = None)"
proof -
  have "\<forall>r\<in>set rules. \<not> rule_matches s t a r \<Longrightarrow> \<not> de_allow (check_from k rules s t a) \<and> de_ask (check_from k rules s t a) = None" for k
    by (induction rules arbitrary: k) auto
  then show ?thesis using check_from_first[of i "rules @ extra" s t a 0]
    by (auto simp: check_def withAdditional_def nth_append)
qed

definition shell_target :: "string \<Rightarrow> perm_target" where
  "shell_target c = \<lparr> pt_kind = ''shell'', pt_arguments = None, pt_fields = [(''command'', JStr c)] \<rparr>"

definition plain_rule :: "target_matcher \<Rightarrow> effect \<Rightarrow> rule" where
  "plain_rule m e = \<lparr> ru_source = None, ru_target = Some m, ru_action = None, ru_effect = e, ru_reason = None \<rparr>"

theorem first_match_wins_witness:
  "check (withAdditional [plain_rule (shellGlob [''rm *'']) Deny, plain_rule (anyOfKind [''shell'']) Ask] [plain_rule (\<lambda>_. True) Allow])
     ''agent'' (shell_target ''ls'') ''run''
   = \<lparr> de_allow = False, de_ask = Some True, de_reason = None, de_matchedRule = Some 1 \<rparr>"
proof -
  let ?rs = "[plain_rule (shellGlob [''rm *'']) Deny, plain_rule (anyOfKind [''shell'']) Ask]"
  have "\<not> rule_matches ''agent'' (shell_target ''ls'') ''run'' (?rs ! 0)"
    "rule_matches ''agent'' (shell_target ''ls'') ''run'' (?rs ! 1)" by code_simp+
  then have "check (withAdditional ?rs [plain_rule (\<lambda>_. True) Allow]) ''agent'' (shell_target ''ls'') ''run''
    = \<lparr> de_allow = (ru_effect (?rs ! 1) = Allow), de_ask = (if ru_effect (?rs ! 1) = Ask then Some True else None),
        de_reason = ru_reason (?rs ! 1), de_matchedRule = Some 1 \<rparr>"
    using first_match_wins[of 1 ?rs "''agent''" "shell_target ''ls''" "''run''" "[plain_rule (\<lambda>_. True) Allow]"]
    by simp
  then show ?thesis by (simp add: plain_rule_def)
qed

text \<open>what a file pattern matches, for a directory name without wildcards: \<open>d/*\<close> the entries directly in
  \<open>d\<close> and nothing below, \<open>d/**\<close> everything below whose path has no line break, and a pattern
  without wildcards only itself.\<close>

theorem file_globs:
  assumes "\<forall>c\<in>set d. c \<noteq> CHR ''*'' \<and> c \<noteq> CHR ''?''"
  shows "compileGlobs False [d @ ''/*''] p = (\<exists>s. p = d @ ''/'' @ s \<and> CHR ''/'' \<notin> set s)
    \<and> compileGlobs False [d @ ''/**''] p = (\<exists>s. p = d @ ''/'' @ s \<and> LF \<notin> set s \<and> CR \<notin> set s)
    \<and> compileGlobs False [d] p = (p = d)"
proof -
  have g: "globToRegex False (d @ ''/*'') = map Lit (d @ ''/'') @ [SegStar]"
    "globToRegex False (d @ ''/**'') = map Lit (d @ ''/'') @ [DotStar]"
    "globToRegex False d = map Lit d"
    using glob_plain[OF assms] by (simp_all add: globToRegex.simps) (metis append.right_neutral globToRegex.simps(1))
  have "pieces_lang (map Lit d) = {d}" using lang_literal[of d "[]"] by simp
  then have d: "p \<in> pieces_lang (map Lit d) \<longleftrightarrow> p = d" by simp
  show ?thesis unfolding compileGlobs_def list_ex_iff regex_test_lang
    by (auto simp: g d lang_literal is_seg_def is_dot_def line_end_def)
qed

theorem file_globs_witness:
  "compileGlobs False [''/etc/*''] ''/etc/passwd'' \<and> \<not> compileGlobs False [''/etc/*''] ''/etc/ssh/key''"
  using file_globs[of "''/etc''" "''/etc/passwd''"] file_globs[of "''/etc''" "''/etc/ssh/key''"] by simp

text \<open>a line break takes a command out of a rule that should stop it: a denial of \<open>rm *\<close> does not match
  \<open>rm -rf /\<close> followed by a line feed, so a later rule that allows the shell lets it through, and
  \<open>**\<close> before a slash matches in the middle of a name.\<close>

theorem newline_passes_deny_rule:
  "let rules = [plain_rule (shellGlob [''rm *'']) Deny, plain_rule (anyOfKind [''shell'']) Allow]
   in \<not> de_allow (check rules ''agent'' (shell_target ''rm -rf /'') ''run'')
    \<and> de_allow (check rules ''agent'' (shell_target (''rm -rf /'' @ [LF])) ''run'')
    \<and> compileGlobs False [''/data/**/key''] ''/data/monkey''"
  by code_simp

end
