(* ===== verification/Messages.thy ===== *)
theory Messages
  imports Json
begin

text \<open>
  \<open>src/llm/types/messages.ts\<close> and the usage counters of \<open>src/llm/types/response.ts\<close>: the universal message
  and content types every layer above the network shares, the functions that read text out of content,
  and the JSON form of content (fields in the order the types declare them, absent ones left out).
  Opaque values (\<open>unknown\<close>, provider metadata) are JSON.
\<close>

section \<open>Content\<close>

datatype data_source =
    Base64 string string
  | Url string
  | FileRef string
  | Path string string
  | Buffer string "nat list"
  | ProviderRef string string

record tool_caller =
  tc_type :: string
  tc_callerId :: "string option"

datatype content_part =
    TextPart string "bool option" "string option"
  | ImagePart data_source "string option" "json dict option"
  | DocumentPart data_source "bool option"
  | AudioPart data_source
  | VideoPart data_source "json dict option"
  | ToolCallPart string string "json dict" "tool_caller option" "json dict option" bool
  | ToolResultPart string content "bool option" "string option" "tool_caller option"
  | ProgramCallPart string string string "json dict option"
  | ProgramResultPart string string "string option" "json dict option"
  | ConfigurationUpdatePart string "string option"
  | ImageOutputPart string string "string option" "nat option" "nat option" "string option"
  | AudioOutputPart string string "nat option" "nat option" "string option"
  | VideoOutputPart string string "nat option" "nat option" "nat option" "string option"
and content =
    ContentText string
  | ContentParts "content_part list"

datatype role = System | User | Assistant | Tool

record message_origin =
  mo_provider :: string
  mo_model :: "string option"
  mo_serverStateId :: "string option"
  mo_signatures :: "json option"

record message =
  msg_role :: role
  msg_content :: content
  msg_cache :: "bool option"
  msg_id :: "string option"
  msg_createdAt :: "ms option"
  msg_origin :: "message_origin option"

definition contentParts :: "content \<Rightarrow> content_part list" where
  "contentParts c = (case c of ContentText t \<Rightarrow> [TextPart t None None] | ContentParts ps \<Rightarrow> ps)"

definition part_text :: "content_part \<Rightarrow> string option" where
  "part_text p = (case p of TextPart t _ _ \<Rightarrow> Some t | _ \<Rightarrow> None)"

definition contentText :: "content \<Rightarrow> string" where
  "contentText c = (case c of ContentText t \<Rightarrow> t | ContentParts ps \<Rightarrow> concat (List.map_filter part_text ps))"

definition answer_text :: "content_part \<Rightarrow> string option" where
  "answer_text p = (case p of TextPart t _ phase \<Rightarrow> if phase = Some ''commentary'' then None else Some t | _ \<Rightarrow> None)"

definition finalAnswerText :: "content \<Rightarrow> string" where
  "finalAnswerText c = (case c of ContentText t \<Rightarrow> t | ContentParts ps \<Rightarrow> concat (List.map_filter answer_text ps))"

section \<open>The JSON form of content\<close>

definition opt_field :: "string \<Rightarrow> ('a \<Rightarrow> json) \<Rightarrow> 'a option \<Rightarrow> json dict" where
  "opt_field k f v = (case v of None \<Rightarrow> [] | Some x \<Rightarrow> [(k, f x)])"

abbreviation js_str :: "string \<Rightarrow> json" where "js_str \<equiv> JStr"

definition js_nat :: "nat \<Rightarrow> json" where "js_nat n = JNum (int n) 0"

definition source_json :: "data_source \<Rightarrow> json" where
  "source_json s = (case s of
      Base64 m d \<Rightarrow> JObj [(''type'', JStr ''base64''), (''mimeType'', JStr m), (''data'', JStr d)]
    | Url u \<Rightarrow> JObj [(''type'', JStr ''url''), (''url'', JStr u)]
    | FileRef i \<Rightarrow> JObj [(''type'', JStr ''file''), (''fileId'', JStr i)]
    | Path m p \<Rightarrow> JObj [(''type'', JStr ''path''), (''mimeType'', JStr m), (''path'', JStr p)]
    | Buffer m bs \<Rightarrow> JObj [(''type'', JStr ''buffer''), (''mimeType'', JStr m),
        (''data'', JObj (map (\<lambda>(i, b). (nat_to_string i, js_nat b)) (enumerate 0 bs)))]
    | ProviderRef m r \<Rightarrow> JObj [(''type'', JStr ''provider_ref''), (''mimeType'', JStr m), (''refId'', JStr r)])"

definition caller_json :: "tool_caller \<Rightarrow> json" where
  "caller_json c = JObj ([(''type'', JStr (tc_type c))] @ opt_field ''callerId'' JStr (tc_callerId c))"

fun part_json :: "content_part \<Rightarrow> json" and content_json :: "content \<Rightarrow> json" where
  "part_json (TextPart t cache phase) =
     JObj ([(''type'', JStr ''text''), (''text'', JStr t)] @ opt_field ''cache'' JBool cache @ opt_field ''phase'' JStr phase)"
| "part_json (ImagePart s detail opts) =
     JObj ([(''type'', JStr ''image''), (''source'', source_json s)] @ opt_field ''detail'' JStr detail
       @ opt_field ''providerOptions'' JObj opts)"
| "part_json (DocumentPart s citations) =
     JObj ([(''type'', JStr ''document''), (''source'', source_json s)] @ opt_field ''citations'' JBool citations)"
| "part_json (AudioPart s) = JObj [(''type'', JStr ''audio''), (''source'', source_json s)]"
| "part_json (VideoPart s opts) =
     JObj ([(''type'', JStr ''video''), (''source'', source_json s)] @ opt_field ''providerOptions'' JObj opts)"
| "part_json (ToolCallPart i n args caller meta malformed) =
     JObj ([(''type'', JStr ''tool_call''), (''id'', JStr i), (''name'', JStr n), (''arguments'', JObj args)]
       @ opt_field ''caller'' caller_json caller @ opt_field ''_meta'' JObj meta
       @ (if malformed then [(''malformed'', JBool True)] else []))"
| "part_json (ToolResultPart i c isError ns caller) =
     JObj ([(''type'', JStr ''tool_result''), (''id'', JStr i), (''content'', content_json c)]
       @ opt_field ''isError'' JBool isError @ opt_field ''namespace'' JStr ns @ opt_field ''caller'' caller_json caller)"
| "part_json (ProgramCallPart i code fp meta) =
     JObj ([(''type'', JStr ''program_call''), (''id'', JStr i), (''code'', JStr code), (''fingerprint'', JStr fp)]
       @ opt_field ''_meta'' JObj meta)"
| "part_json (ProgramResultPart i r status meta) =
     JObj ([(''type'', JStr ''program_result''), (''id'', JStr i), (''result'', JStr r)]
       @ opt_field ''status'' JStr status @ opt_field ''_meta'' JObj meta)"
| "part_json (ConfigurationUpdatePart effort i) =
     JObj ([(''type'', JStr ''configuration_update''), (''reasoning'', JObj [(''effort'', JStr effort)])]
       @ opt_field ''id'' JStr i)"
| "part_json (ImageOutputPart m mime revised w h d) =
     JObj ([(''type'', JStr ''image_output''), (''mediaId'', JStr m), (''mimeType'', JStr mime)]
       @ opt_field ''revisedPrompt'' JStr revised @ opt_field ''width'' js_nat w @ opt_field ''height'' js_nat h
       @ opt_field ''_data'' JStr d)"
| "part_json (AudioOutputPart m mime dur rate d) =
     JObj ([(''type'', JStr ''audio_output''), (''mediaId'', JStr m), (''mimeType'', JStr mime)]
       @ opt_field ''durationMs'' js_nat dur @ opt_field ''sampleRate'' js_nat rate @ opt_field ''_data'' JStr d)"
| "part_json (VideoOutputPart m mime dur w h d) =
     JObj ([(''type'', JStr ''video_output''), (''mediaId'', JStr m), (''mimeType'', JStr mime)]
       @ opt_field ''durationMs'' js_nat dur @ opt_field ''width'' js_nat w @ opt_field ''height'' js_nat h
       @ opt_field ''_data'' JStr d)"
| "content_json (ContentText t) = JStr t"
| "content_json (ContentParts ps) = JArr (map part_json ps)"

text \<open>\<open>typeof content === 'string' ? content : JSON.stringify(content)\<close>.\<close>

definition content_string :: "content \<Rightarrow> string" where
  "content_string c = (case c of ContentText t \<Rightarrow> t | ContentParts ps \<Rightarrow> stringify (JArr (map part_json ps)))"

section \<open>Usage\<close>

record usage =
  us_inputTokens :: nat
  us_outputTokens :: nat
  us_totalTokens :: nat
  us_cachedTokens :: nat
  us_cacheWriteTokens :: nat
  us_reasoningTokens :: nat
  us_audioInputTokens :: "nat option"
  us_audioOutputTokens :: "nat option"
  us_serviceTier :: "string option"
  us_pricingTier :: "string option"

definition emptyUsage :: usage where
  "emptyUsage = \<lparr> us_inputTokens = 0, us_outputTokens = 0, us_totalTokens = 0, us_cachedTokens = 0,
     us_cacheWriteTokens = 0, us_reasoningTokens = 0, us_audioInputTokens = None, us_audioOutputTokens = None,
     us_serviceTier = None, us_pricingTier = None \<rparr>"

section \<open>Text\<close>

lemma contentText_parts [simp]: "contentText (ContentParts (contentParts c)) = contentText c"
  by (cases c) (simp_all add: contentText_def contentParts_def part_text_def List.map_filter_def)

lemma map_filter_Cons: "List.map_filter f (x # xs) = (case f x of None \<Rightarrow> List.map_filter f xs | Some y \<Rightarrow> y # List.map_filter f xs)"
  by (simp add: List.map_filter_def split: option.split)

text \<open>Without commentary the answer is the whole text.\<close>

lemma finalAnswer_all:
  "(\<And>t c. TextPart t c (Some ''commentary'') \<notin> set ps) \<Longrightarrow> finalAnswerText (ContentParts ps) = contentText (ContentParts ps)"
proof (induction ps)
  case Nil
  then show ?case by (simp add: finalAnswerText_def contentText_def List.map_filter_def)
next
  case (Cons p ps)
  then have "finalAnswerText (ContentParts ps) = contentText (ContentParts ps)" by auto
  moreover have "answer_text p = part_text p" using Cons.prems
    by (cases p) (auto simp: answer_text_def part_text_def)
  ultimately show ?case by (simp add: finalAnswerText_def contentText_def map_filter_Cons split: option.split)
qed

end
