(* ===== verification/ContextRegistry.thy ===== *)
theory ContextRegistry
  imports Messages "HOL-Library.List_Lexorder" "HOL-Library.Product_Lexorder"
begin

text \<open>
  \<open>src/agent/context-registry/\<close>, one registry by itself: its named layers, the operations on them, the
  composition of layers into text (\<open>registry.ts\<close>, \<open>registry-internal.ts\<close>), and snapshots. Parents,
  subscriptions and events are in \<open>RegistryTree\<close>. \<open>Array.prototype.sort\<close> is the stable insertion sort.
\<close>

section \<open>Layers\<close>

record layer =
  ly_name :: string
  ly_content :: content
  ly_priority :: rat
  ly_tags :: "string list"
  ly_owner :: "string option"
  ly_version :: nat
  ly_createdAt :: ms
  ly_updatedAt :: ms
  ly_mergeParent :: "bool option"
  ly_metadata :: "json dict option"

record set_options =
  so_priority :: "rat option"
  so_tags :: "string list option"
  so_owner :: "string option"
  so_mergeParent :: "bool option"
  so_metadata :: "json dict option"

definition no_options :: set_options where
  "no_options = \<lparr> so_priority = None, so_tags = None, so_owner = None, so_mergeParent = None, so_metadata = None \<rparr>"

record render_options =
  ro_include :: "string list option"
  ro_exclude :: "string list option"
  ro_tag :: "string option"
  ro_tags :: "string list option"
  ro_ownerFilter :: "string option"
  ro_separator :: "string option"
  ro_includeParent :: "bool option"

definition no_filter :: render_options where
  "no_filter = \<lparr> ro_include = None, ro_exclude = None, ro_tag = None, ro_tags = None, ro_ownerFilter = None,
     ro_separator = None, ro_includeParent = None \<rparr>"

record registry =
  rg_id :: string
  rg_defaultOwner :: "string option"
  rg_separator :: string
  rg_layers :: "layer dict"

record registry_config =
  rc_id :: "string option"
  rc_defaultOwner :: "string option"
  rc_separator :: "string option"

definition new_ContextRegistry :: "string \<Rightarrow> registry_config \<Rightarrow> registry" where
  "new_ContextRegistry randomShort config =
     \<lparr> rg_id = nullish (rc_id config) (''ctx-reg-'' @ randomShort), rg_defaultOwner = rc_defaultOwner config,
       rg_separator = nullish (rc_separator config) [LF, LF], rg_layers = [] \<rparr>"

section \<open>Text of a layer\<close>

definition part_line :: "content_part \<Rightarrow> string option" where
  "part_line p = (case p of
      TextPart t _ _ \<Rightarrow> Some t
    | ToolCallPart _ name args _ _ _ \<Rightarrow> Some (''[tool_call '' @ name @ ''](''  @ stringify (JObj args) @ '')'')
    | ToolResultPart _ c _ _ _ \<Rightarrow> Some (''[tool_result] '' @ content_string c)
    | _ \<Rightarrow> None)"

definition contentPartsToText :: "content_part list \<Rightarrow> string" where
  "contentPartsToText ps = join [LF] (List.map_filter part_line ps)"

definition content_text :: "content \<Rightarrow> string" where
  "content_text c = (case c of ContentText t \<Rightarrow> t | ContentParts ps \<Rightarrow> contentPartsToText ps)"

definition layerToText :: "layer \<Rightarrow> string" where
  "layerToText l = content_text (ly_content l)"

definition concatContent :: "content \<Rightarrow> content \<Rightarrow> content" where
  "concatContent a b = (case (a, b) of
      (ContentText s, ContentText t) \<Rightarrow> ContentText (s @ [LF, LF] @ t)
    | (ContentParts ps, ContentParts qs) \<Rightarrow> ContentParts (ps @ qs)
    | _ \<Rightarrow> ContentText (content_text a @ [LF, LF] @ content_text b))"

section \<open>Operations on the layers\<close>

definition reg_get :: "string \<Rightarrow> registry \<Rightarrow> layer option" where
  "reg_get name r = map_of (rg_layers r) name"

definition reg_has :: "string \<Rightarrow> registry \<Rightarrow> bool" where
  "reg_has name r = (map_of (rg_layers r) name \<noteq> None)"

definition new_layer :: "ms \<Rightarrow> string \<Rightarrow> content \<Rightarrow> set_options \<Rightarrow> registry \<Rightarrow> layer" where
  "new_layer now name c opts r =
     (let previous = reg_get name r in
      \<lparr> ly_name = name, ly_content = c,
        ly_priority = nullish (so_priority opts) (nullish (map_option ly_priority previous) 100),
        ly_tags = nullish (so_tags opts) (nullish (map_option ly_tags previous) []),
        ly_owner = or_else (so_owner opts) (rg_defaultOwner r),
        ly_version = nullish (map_option ly_version previous) 0 + 1,
        ly_createdAt = nullish (map_option ly_createdAt previous) now,
        ly_updatedAt = now,
        ly_mergeParent = or_else (so_mergeParent opts) (Option.bind previous ly_mergeParent),
        ly_metadata = or_else (so_metadata opts) (Option.bind previous ly_metadata) \<rparr>)"

definition reg_set :: "ms \<Rightarrow> string \<Rightarrow> content \<Rightarrow> set_options \<Rightarrow> registry \<Rightarrow> registry" where
  "reg_set now name c opts r = r\<lparr>rg_layers := AList.update name (new_layer now name c opts r) (rg_layers r)\<rparr>"

datatype patch_result = NewContent content | NewLayer layer

definition patch_args :: "patch_result \<Rightarrow> content \<times> set_options" where
  "patch_args res = (case res of
      NewContent c \<Rightarrow> (c, no_options)
    | NewLayer l \<Rightarrow> (ly_content l, \<lparr> so_priority = Some (ly_priority l), so_tags = Some (ly_tags l),
        so_owner = ly_owner l, so_mergeParent = ly_mergeParent l, so_metadata = ly_metadata l \<rparr>))"

definition reg_patch :: "ms \<Rightarrow> string \<Rightarrow> (layer option \<Rightarrow> patch_result) \<Rightarrow> registry \<Rightarrow> registry" where
  "reg_patch now name fn r = (case patch_args (fn (reg_get name r)) of (c, opts) \<Rightarrow> reg_set now name c opts r)"

definition reg_remove :: "string \<Rightarrow> registry \<Rightarrow> bool \<times> registry" where
  "reg_remove name r =
     (if reg_has name r then (True, r\<lparr>rg_layers := AList.delete name (rg_layers r)\<rparr>) else (False, r))"

record list_filter =
  lf_tag :: "string option"
  lf_tags :: "string list option"
  lf_owner :: "string option"

text \<open>An empty tag or owner is falsy and does not filter.\<close>

definition reg_list :: "list_filter \<Rightarrow> registry \<Rightarrow> layer list" where
  "reg_list f r =
     (let ls = map snd (rg_layers r);
          ls1 = (case truthy_str (lf_tag f) of None \<Rightarrow> ls | Some t \<Rightarrow> filter (\<lambda>l. t \<in> set (ly_tags l)) ls);
          ls2 = (case lf_tags f of None \<Rightarrow> ls1 | Some ts \<Rightarrow> filter (\<lambda>l. list_ex (\<lambda>t. t \<in> set (ly_tags l)) ts) ls1)
      in case truthy_str (lf_owner f) of None \<Rightarrow> ls2 | Some w \<Rightarrow> filter (\<lambda>l. ly_owner l = Some w) ls2)"

definition reg_names :: "registry \<Rightarrow> string list" where
  "reg_names r = map fst (rg_layers r)"

text \<open>\<open>sizeCharsLocal\<close>: the running total and whether a text has been counted yet.\<close>

definition sizeCharsLocal :: "registry \<Rightarrow> nat" where
  "sizeCharsLocal r =
     fst (foldl (\<lambda>(total, first) (_, l).
            (let n = length (layerToText l)
             in if n = 0 then (total, first)
                else ((if first then total else total + length (rg_separator r)) + n, False)))
          (0, True) (rg_layers r))"

section \<open>Rendering\<close>

record collected =
  co_layer :: layer
  co_source :: string

definition passesFilter :: "layer \<Rightarrow> render_options \<Rightarrow> bool" where
  "passesFilter l opts =
     (if (case ro_include opts of None \<Rightarrow> False | Some ns \<Rightarrow> ly_name l \<notin> set ns) then False
      else if (case ro_exclude opts of None \<Rightarrow> False | Some ns \<Rightarrow> ly_name l \<in> set ns) then False
      else if (case truthy_str (ro_tag opts) of None \<Rightarrow> False | Some t \<Rightarrow> t \<notin> set (ly_tags l)) then False
      else if (case ro_tags opts of None \<Rightarrow> False | Some ts \<Rightarrow> \<not> list_ex (\<lambda>t. t \<in> set (ly_tags l)) ts) then False
      else if (case truthy_str (ro_ownerFilter opts) of None \<Rightarrow> False | Some w \<Rightarrow> ly_owner l \<noteq> Some w) then False
      else True)"

definition byCodepoint :: "string \<Rightarrow> string \<Rightarrow> rat" where
  "byCodepoint a b = (if a < b then -1 else if a > b then 1 else 0)"

definition sortLayers :: "collected \<Rightarrow> collected \<Rightarrow> rat" where
  "sortLayers a b =
     (let x = co_layer a; y = co_layer b in
      if ly_priority x \<noteq> ly_priority y then ly_priority x - ly_priority y
      else if ly_updatedAt x \<noteq> ly_updatedAt y then ly_updatedAt x - ly_updatedAt y
      else byCodepoint (ly_name x) (ly_name y))"

fun insert_by :: "('a \<Rightarrow> 'a \<Rightarrow> rat) \<Rightarrow> 'a \<Rightarrow> 'a list \<Rightarrow> 'a list" where
  "insert_by cmp x [] = [x]"
| "insert_by cmp x (y # ys) = (if cmp x y \<le> 0 then x # y # ys else y # insert_by cmp x ys)"

definition js_sort :: "('a \<Rightarrow> 'a \<Rightarrow> rat) \<Rightarrow> 'a list \<Rightarrow> 'a list" where
  "js_sort cmp xs = foldr (insert_by cmp) xs []"

text \<open>One registry's layers over what was collected from its parents.\<close>

definition overlay_layer :: "render_options \<Rightarrow> string \<Rightarrow> collected dict \<Rightarrow> string \<times> layer \<Rightarrow> collected dict" where
  "overlay_layer opts source result nl =
     (case nl of (name, l) \<Rightarrow>
        if \<not> passesFilter l opts then result
        else (case map_of result name of
                Some existing \<Rightarrow>
                  if ly_mergeParent l = Some True then
                    AList.update name
                      \<lparr> co_layer = l\<lparr>ly_content := concatContent (ly_content (co_layer existing)) (ly_content l)\<rparr>,
                        co_source = source \<rparr> result
                  else AList.update name \<lparr> co_layer = l, co_source = source \<rparr> result
              | None \<Rightarrow> AList.update name \<lparr> co_layer = l, co_source = source \<rparr> result))"

definition overlay :: "render_options \<Rightarrow> registry \<Rightarrow> collected dict \<Rightarrow> collected dict" where
  "overlay opts r result = foldl (overlay_layer opts (rg_id r)) result (rg_layers r)"

record rendered_part =
  rp_name :: string
  rp_content :: string
  rp_priority :: rat
  rp_tags :: "string list"
  rp_owner :: "string option"
  rp_registry :: string

record render_result =
  rr_parts :: "rendered_part list"
  rr_flat :: string
  rr_totalChars :: nat
  rr_rendered :: ms

definition rendered_part_of :: "collected \<Rightarrow> rendered_part" where
  "rendered_part_of e = (let l = co_layer e in
     \<lparr> rp_name = ly_name l, rp_content = layerToText l, rp_priority = ly_priority l, rp_tags = ly_tags l,
       rp_owner = ly_owner l, rp_registry = co_source e \<rparr>)"

definition render_collected :: "ms \<Rightarrow> render_options \<Rightarrow> registry \<Rightarrow> collected dict \<Rightarrow> render_result" where
  "render_collected now opts r collected =
     (let entries = js_sort sortLayers (map snd collected);
          parts = map rendered_part_of entries;
          separator = nullish (ro_separator opts) (rg_separator r);
          flat = join separator (filter (\<lambda>c. length c > 0) (map rp_content parts))
      in \<lparr> rr_parts = parts, rr_flat = flat, rr_totalChars = length flat, rr_rendered = now \<rparr>)"

text \<open>The render of a registry without its parents.\<close>

definition render_local :: "ms \<Rightarrow> render_options \<Rightarrow> registry \<Rightarrow> render_result" where
  "render_local now opts r = render_collected now opts r (overlay opts r [])"

text \<open>\<open>sizeTokens\<close> of a text: the injected counter or four characters per token, rounded up.\<close>

definition ceil_div4 :: "nat \<Rightarrow> nat" where "ceil_div4 n = (n + 3) div 4"

definition text_tokens :: "(string \<Rightarrow> nat) option \<Rightarrow> string \<Rightarrow> nat" where
  "text_tokens counter t = (case counter of None \<Rightarrow> ceil_div4 (length t) | Some estimate \<Rightarrow> estimate t)"

section \<open>Snapshots\<close>

record registry_snapshot =
  sn_id :: string
  sn_separator :: string
  sn_layers :: "layer list"

definition reg_snapshot :: "registry \<Rightarrow> registry_snapshot" where
  "reg_snapshot r = \<lparr> sn_id = rg_id r, sn_separator = rg_separator r, sn_layers = map snd (rg_layers r) \<rparr>"

definition fromSnapshot :: "registry_snapshot \<Rightarrow> string option \<Rightarrow> registry" where
  "fromSnapshot snap defaultOwner =
     \<lparr> rg_id = sn_id snap, rg_defaultOwner = defaultOwner, rg_separator = sn_separator snap,
       rg_layers = foldl (\<lambda>m l. AList.update (ly_name l) l m) [] (sn_layers snap) \<rparr>"

section \<open>Well-formed registries\<close>

definition layers_ok :: "registry \<Rightarrow> bool" where
  "layers_ok r = (distinct (map fst (rg_layers r)) \<and> (\<forall>(n, l)\<in>set (rg_layers r). ly_name l = n \<and> 1 \<le> ly_version l))"

lemma layers_ok_new [simp]: "layers_ok (new_ContextRegistry i c)"
  by (simp add: layers_ok_def new_ContextRegistry_def)

lemma update_entries: "set (AList.update k v m) \<subseteq> insert (k, v) (set m)"
  by (induction m) auto

lemma layers_ok_set: "layers_ok r \<Longrightarrow> layers_ok (reg_set now name c opts r)"
  using update_entries[of name "new_layer now name c opts r" "rg_layers r"]
  by (fastforce simp: layers_ok_def reg_set_def distinct_update new_layer_def Let_def)

lemma layers_ok_patch: "layers_ok r \<Longrightarrow> layers_ok (reg_patch now name fn r)"
  by (simp add: reg_patch_def layers_ok_set split: prod.split)

lemma layers_ok_remove: "layers_ok r \<Longrightarrow> layers_ok (snd (reg_remove name r))"
  using distinct_delete[of "rg_layers r" name] by (auto simp: layers_ok_def reg_remove_def AList.delete_eq)

section \<open>Sorting\<close>

definition layer_key :: "layer \<Rightarrow> rat \<times> rat \<times> string" where
  "layer_key l = (ly_priority l, ly_updatedAt l, ly_name l)"

lemma sortLayers_key: "sortLayers a b \<le> 0 \<longleftrightarrow> layer_key (co_layer a) \<le> layer_key (co_layer b)"
  by (auto simp: sortLayers_def layer_key_def byCodepoint_def Let_def)

lemma js_sort_key: "js_sort sortLayers xs = sort_key (\<lambda>e. layer_key (co_layer e)) xs"
proof -
  have "insert_by sortLayers x ys = insort_key (\<lambda>e. layer_key (co_layer e)) x ys" for x ys
    by (induction ys) (simp_all add: sortLayers_key)
  then show ?thesis unfolding js_sort_def by (induction xs) (simp_all add: sort_key_def)
qed

section \<open>A registry by itself\<close>

lemma update_append: "k \<notin> fst ` set m \<Longrightarrow> AList.update k v m = m @ [(k, v)]"
  by (induction m) auto

lemma overlay_fresh:
  assumes "distinct (map fst ls)" "fst ` set ls \<inter> fst ` set m = {}" "\<forall>(n, l)\<in>set ls. ly_name l = n"
  shows "foldl (overlay_layer opts source) m ls
    = m @ map (\<lambda>(n, l). (n, \<lparr> co_layer = l, co_source = source \<rparr>)) (filter (\<lambda>(n, l). passesFilter l opts) ls)"
  using assms
proof (induction ls arbitrary: m)
  case Nil
  then show ?case by simp
next
  case (Cons nl ls)
  obtain n l where nl: "nl = (n, l)" by (cases nl)
  have "n \<notin> fst ` set m" using Cons.prems(2) nl by auto
  then have "overlay_layer opts source m nl = (if passesFilter l opts then m @ [(n, \<lparr> co_layer = l, co_source = source \<rparr>)] else m)"
    by (simp add: overlay_layer_def nl update_append map_of_eq_None_iff[THEN iffD2])
  with Cons show ?case by (auto simp: nl)
qed

lemma overlay_alone:
  "layers_ok r \<Longrightarrow> map snd (overlay opts r []) =
     map (\<lambda>l. \<lparr> co_layer = l, co_source = rg_id r \<rparr>) (filter (\<lambda>l. passesFilter l opts) (map snd (rg_layers r)))"
  unfolding overlay_def layers_ok_def
  by (subst overlay_fresh) (auto simp: comp_def case_prod_unfold filter_map)

lemma sort_key_map: "sort_key f (map g xs) = map g (sort_key (f \<circ> g) xs)"
proof -
  have "insort_key f (g x) (map g ys) = map g (insort_key (f \<circ> g) x ys)" for x ys
    by (induction ys) simp_all
  then show ?thesis by (induction xs) (simp_all add: sort_key_def)
qed

lemma render_local_parts:
  "layers_ok r \<Longrightarrow> rr_parts (render_local now opts r) =
     map (\<lambda>l. rendered_part_of \<lparr> co_layer = l, co_source = rg_id r \<rparr>)
       (sort_key layer_key (filter (\<lambda>l. passesFilter l opts) (map snd (rg_layers r))))"
  by (simp add: render_local_def render_collected_def Let_def js_sort_key overlay_alone sort_key_map comp_def)

lemma layers_okD: "layers_ok r \<Longrightarrow> (n, l) \<in> set (rg_layers r) \<Longrightarrow> ly_name l = n"
  by (auto simp: layers_ok_def)

lemma layer_key_inj:
  assumes "layers_ok r" shows "inj_on layer_key (set (map snd (rg_layers r)))"
proof (rule inj_onI)
  fix a b assume "a \<in> set (map snd (rg_layers r))" "b \<in> set (map snd (rg_layers r))" "layer_key a = layer_key b"
  then obtain n m where "(n, a) \<in> set (rg_layers r)" "(m, b) \<in> set (rg_layers r)" "ly_name a = ly_name b"
    by (auto simp: layer_key_def)
  with layers_okD[OF assms] have "(n, a) \<in> set (rg_layers r)" "(n, b) \<in> set (rg_layers r)" by (metis, metis)
  with assms show "a = b" unfolding layers_ok_def by (blast intro: eq_key_imp_eq_value)
qed

lemma join_length:
  "length (join sep xs) = sum_list (map length xs) + (length xs - 1) * length sep"
proof (induction sep xs rule: join.induct)
  case (3 sep x y xs)
  then show ?case by (cases xs) (simp_all add: algebra_simps)
qed simp_all

lemma size_loop:
  "foldl (\<lambda>(total, first) (_, l). (let n = length (layerToText l)
       in if n = 0 then (total, first) else ((if first then total else total + k) + n, False))) (t, b) ls
   = (let ts = filter (\<lambda>x. length x > 0) (map (layerToText \<circ> snd) ls)
      in (t + sum_list (map length ts) + (length ts - (if b then 1 else 0)) * k, b \<and> ts = []))"
proof (induction ls arbitrary: t b)
  case Nil
  then show ?case by simp
next
  case (Cons nl ls)
  then show ?case by (cases nl) (auto simp: Let_def algebra_simps)
qed

lemma restore_layers:
  assumes "distinct (map fst ls)" "fst ` set ls \<inter> fst ` set m = {}" "\<forall>p\<in>set ls. ly_name (snd p) = fst p"
  shows "foldl (\<lambda>m l. AList.update (ly_name l) l m) m (map snd ls) = m @ ls"
  using assms
proof (induction ls arbitrary: m)
  case Nil
  then show ?case by simp
next
  case (Cons p ls)
  have "AList.update (fst p) (snd p) m = m @ [p]" using Cons.prems(2) by (simp add: update_append)
  moreover have "foldl (\<lambda>m l. AList.update (ly_name l) l m) (m @ [p]) (map snd ls) = (m @ [p]) @ ls"
    using Cons.prems by (intro Cons.IH) auto
  ultimately show ?case using Cons.prems(3) by simp
qed

section \<open>Properties\<close>

text \<open>the rendered order is a function of the layers, not of their history: the parts are the layers that pass
  the filter, sorted by priority, then time of the last change, then name, so two registries with the same
  layers in a different insertion order render the same.\<close>

theorem render_order:
  assumes "layers_ok r"
  shows "map rp_name (rr_parts (render_local now opts r))
      = map ly_name (sort_key layer_key (filter (\<lambda>l. passesFilter l opts) (map snd (rg_layers r))))
    \<and> (mset ls = mset (rg_layers r) \<longrightarrow> render_local now opts (r\<lparr>rg_layers := ls\<rparr>) = render_local now opts r)"
proof -
  let ?f = "filter (\<lambda>l. passesFilter l opts)"
  have names: "map rp_name (rr_parts (render_local now opts r)) = map ly_name (sort_key layer_key (?f (map snd (rg_layers r))))"
    unfolding render_local_parts[OF assms] by (simp add: rendered_part_of_def Let_def)
  have "render_local now opts (r\<lparr>rg_layers := ls\<rparr>) = render_local now opts r" if m: "mset ls = mset (rg_layers r)"
  proof -
    have st: "set ls = set (rg_layers r)" using m by (rule mset_eq_setD)
    have "mset (map fst ls) = mset (map fst (rg_layers r))" by (simp add: m)
    then have "distinct (map fst ls) = distinct (map fst (rg_layers r))" by (rule mset_eq_imp_distinct_iff)
    then have ok: "layers_ok (r\<lparr>rg_layers := ls\<rparr>)" using assms by (simp add: layers_ok_def st)
    have "mset (?f (map snd ls)) = mset (?f (map snd (rg_layers r)))" by (simp add: m)
    moreover have "inj_on layer_key (set (?f (map snd (rg_layers r))))"
      using layer_key_inj[OF assms] by (rule inj_on_subset) auto
    moreover have "set (?f (map snd ls)) = set (?f (map snd (rg_layers r)))" by (simp add: st)
    ultimately have "sort_key layer_key (?f (map snd ls)) = sort_key layer_key (?f (map snd (rg_layers r)))"
      by (intro sort_key_inj_key_eq) simp_all
    then have "rr_parts (render_local now opts (r\<lparr>rg_layers := ls\<rparr>)) = rr_parts (render_local now opts r)"
      unfolding render_local_parts[OF assms] render_local_parts[OF ok] by simp
    then show ?thesis by (simp add: render_local_def render_collected_def Let_def del: map_map)
  qed
  with names show ?thesis by blast
qed

definition demo_registry :: registry where
  "demo_registry = reg_set 3 ''b'' (ContentText ''second'') no_options
     (reg_set 2 ''c'' (ContentText ''third'') (no_options\<lparr>so_priority := Some 200\<rparr>)
       (reg_set 1 ''a'' (ContentText ''first'') (no_options\<lparr>so_tags := Some [''system'']\<rparr>)
         (new_ContextRegistry ''0'' \<lparr> rc_id = Some ''demo'', rc_defaultOwner = Some ''me'', rc_separator = None \<rparr>)))"

lemma demo_registry_ok: "layers_ok demo_registry"
  by (simp add: demo_registry_def layers_ok_set)

theorem render_order_witness:
  "render_local 9 no_filter (demo_registry\<lparr>rg_layers := rev (rg_layers demo_registry)\<rparr>) = render_local 9 no_filter demo_registry"
  using render_order[OF demo_registry_ok, of 9 no_filter "rev (rg_layers demo_registry)"] by simp

text \<open>the size a change event reports is the length of the registry's own rendered text: the running count of
  \<open>sizeCharsLocal\<close> over the stored layers equals the length of the unfiltered local render with the registry's
  separator.\<close>

theorem local_size_is_rendered_length:
  assumes "layers_ok r"
  shows "sizeCharsLocal r = rr_totalChars (render_local now no_filter r)"
proof -
  let ?nz = "filter (\<lambda>x :: string. length x > 0)"
  let ?ls = "map snd (rg_layers r)"
  have p: "passesFilter l no_filter" for l by (simp add: passesFilter_def no_filter_def truthy_str_def)
  have parts: "map rp_content (rr_parts (render_local now no_filter r)) = map layerToText (sort_key layer_key ?ls)"
    unfolding render_local_parts[OF assms] by (simp add: rendered_part_of_def Let_def p)
  have "mset (?nz (map layerToText (sort_key layer_key ?ls))) = mset (?nz (map layerToText ?ls))"
    by (simp add: multiset.map_comp comp_def)
  then have "mset (map length (?nz (map layerToText (sort_key layer_key ?ls)))) = mset (map length (?nz (map layerToText ?ls)))"
    "length (?nz (map layerToText (sort_key layer_key ?ls))) = length (?nz (map layerToText ?ls))"
    by (metis mset_map, metis size_mset)
  then have "length (join sep (?nz (map layerToText (sort_key layer_key ?ls)))) = length (join sep (?nz (map layerToText ?ls)))" for sep
    unfolding join_length by (metis sum_mset_sum_list)
  moreover have "rr_totalChars (render_local now no_filter r)
    = length (join (rg_separator r) (?nz (map rp_content (rr_parts (render_local now no_filter r)))))"
    by (simp add: render_local_def render_collected_def Let_def no_filter_def del: map_map)
  moreover have "sizeCharsLocal r = length (join (rg_separator r) (?nz (map layerToText ?ls)))"
    unfolding sizeCharsLocal_def size_loop by (simp add: join_length Let_def)
  ultimately show ?thesis unfolding parts by simp
qed

theorem local_size_is_rendered_length_witness:
  "sizeCharsLocal demo_registry = 20 \<and> rr_totalChars (render_local 9 no_filter demo_registry) = 20"
proof -
  have "sizeCharsLocal demo_registry = 20" by code_simp
  with local_size_is_rendered_length[OF demo_registry_ok, of 9] show ?thesis by simp
qed

text \<open>what \<open>set\<close> keeps: the new version is one more than the last, the creation time, priority, tags, merge flag
  and metadata come from the previous layer when the options leave them out, every other layer is untouched and
  keeps its place - but the owner is not inherited: without one in the options it becomes the registry's
  default owner, although the options are documented to inherit from the existing layer.\<close>

theorem set_inherits_all_but_owner:
  assumes "reg_get name r = Some l"
  shows "reg_get name (reg_set now name c no_options r) = Some (l\<lparr>ly_name := name, ly_content := c,
        ly_version := ly_version l + 1, ly_updatedAt := now, ly_owner := rg_defaultOwner r\<rparr>)
    \<and> (n \<noteq> name \<longrightarrow> reg_get n (reg_set now name c opts r) = reg_get n r)
    \<and> reg_names (reg_set now name c opts r) = reg_names r"
proof -
  have "reg_get name (reg_set now name c no_options r) = Some (new_layer now name c no_options r)"
    by (simp add: reg_get_def reg_set_def update_conv')
  moreover have "new_layer now name c no_options r = l\<lparr>ly_name := name, ly_content := c,
        ly_version := ly_version l + 1, ly_updatedAt := now, ly_owner := rg_defaultOwner r\<rparr>"
    using assms by (cases l) (simp add: new_layer_def no_options_def Let_def)
  moreover have "name \<in> fst ` set (rg_layers r)" using assms by (force simp: reg_get_def dest: map_of_SomeD)
  ultimately show ?thesis
    by (simp add: reg_get_def reg_set_def reg_names_def update_conv' update_keys)
qed

theorem set_inherits_all_but_owner_witness:
  "let r = reg_set 1 ''x'' (ContentText ''u'') (no_options\<lparr>so_owner := Some ''guard''\<rparr>) demo_registry
   in map_option ly_owner (reg_get ''x'' r) = Some (Some ''guard'')
    \<and> map_option ly_owner (reg_get ''x'' (reg_set 2 ''x'' (ContentText ''v'') no_options r)) = Some (Some ''me'')"
proof -
  let ?r = "reg_set 1 ''x'' (ContentText ''u'') (no_options\<lparr>so_owner := Some ''guard''\<rparr>) demo_registry"
  obtain l where l: "reg_get ''x'' ?r = Some l" "ly_owner l = Some ''guard''"
    by (simp add: reg_get_def reg_set_def update_conv' new_layer_def Let_def)
  have "rg_defaultOwner ?r = Some ''me''" by code_simp
  then have "map_option ly_owner (reg_get ''x'' (reg_set 2 ''x'' (ContentText ''v'') no_options ?r)) = Some (Some ''me'')"
    unfolding set_inherits_all_but_owner[OF l(1), THEN conjunct1] by simp
  with l show ?thesis by (simp add: Let_def)
qed

text \<open>a snapshot restores the registry: the same layers in the same order, with their versions and times,
  under the same id and separator.\<close>

theorem registry_snapshot_roundtrip:
  assumes "layers_ok r"
  shows "fromSnapshot (reg_snapshot r) (rg_defaultOwner r) = r"
proof -
  have "foldl (\<lambda>m l. AList.update (ly_name l) l m) [] (map snd (rg_layers r)) = [] @ rg_layers r"
    using assms unfolding layers_ok_def by (intro restore_layers) auto
  then show ?thesis by (simp add: fromSnapshot_def reg_snapshot_def)
qed

theorem registry_snapshot_roundtrip_witness:
  "fromSnapshot (reg_snapshot demo_registry) (rg_defaultOwner demo_registry) = demo_registry"
  using registry_snapshot_roundtrip[OF demo_registry_ok] .

end
