(* ===== verification/RegistryTree.thy ===== *)
theory RegistryTree
  imports ContextRegistry
begin

text \<open>
  \<open>src/agent/context-registry/registry.ts\<close>, registries together: parents, subscriptions, change events and the
  render that composes a registry with its ancestors. An object reference is an index into the heap of
  registries. A subscriber is passive: what it receives is logged and it does not change a registry while an
  event is delivered. A child that bubbles its parent's events is the subscriber \<open>Bubble\<close>. The walk up the
  parent chain and the delivery down to the children are recursions with fuel; the number of registries is
  enough because the parent relation is acyclic (\<open>tree_ok\<close>).
\<close>

section \<open>State\<close>

datatype subscriber = Handler nat | Bubble nat

record reg_node =
  rn_reg :: registry
  rn_parent :: "nat option"
  rn_exact :: "subscriber list dict"
  rn_prefix :: "subscriber list dict"
  rn_wild :: "subscriber list"
  rn_size :: "nat list"

type_synonym reg_heap = "reg_node list"

datatype event_type = EvSet | EvUpdate | EvRemove

record reg_event =
  re_type :: event_type
  re_name :: string
  re_previous :: "layer option"
  re_current :: "layer option"
  re_registry :: string
  re_sizeBefore :: nat
  re_sizeAfter :: nat
  re_timestamp :: ms

datatype delivery = Received nat reg_event | SizeChanged nat nat int

definition node_of :: "registry \<Rightarrow> reg_node" where
  "node_of r = \<lparr> rn_reg = r, rn_parent = None, rn_exact = [], rn_prefix = [], rn_wild = [], rn_size = [] \<rparr>"

definition parent_of :: "reg_heap \<Rightarrow> nat \<Rightarrow> nat option" where
  "parent_of h r = (if r < length h then rn_parent (h ! r) else None)"

section \<open>Parents\<close>

text \<open>\<open>wouldCreateCycle\<close>: the walk from the candidate upwards.\<close>

fun on_chain :: "nat \<Rightarrow> reg_heap \<Rightarrow> nat \<Rightarrow> nat \<Rightarrow> bool" where
  "on_chain 0 h self cur = False"
| "on_chain (Suc fuel) h self cur =
     (if cur = self then True
      else (case parent_of h cur of None \<Rightarrow> False | Some p \<Rightarrow> on_chain fuel h self p))"

definition wouldCreateCycle :: "reg_heap \<Rightarrow> nat \<Rightarrow> nat \<Rightarrow> bool" where
  "wouldCreateCycle h self candidate = on_chain (length h) h self candidate"

definition set_add :: "'a \<Rightarrow> 'a list \<Rightarrow> 'a list" where
  "set_add x xs = (if x \<in> set xs then xs else xs @ [x])"

definition set_drop :: "'a \<Rightarrow> 'a list \<Rightarrow> 'a list" where
  "set_drop x xs = filter (\<lambda>y. y \<noteq> x) xs"

definition upd_node :: "nat \<Rightarrow> (reg_node \<Rightarrow> reg_node) \<Rightarrow> reg_heap \<Rightarrow> reg_heap" where
  "upd_node r f h = (if r < length h then h[r := f (h ! r)] else h)"

text \<open>\<open>parentUnsub\<close> and the subscription to the new parent.\<close>

definition unbubble :: "nat \<Rightarrow> reg_heap \<Rightarrow> reg_heap" where
  "unbubble r h = (case parent_of h r of
      None \<Rightarrow> h | Some p \<Rightarrow> upd_node p (\<lambda>n. n\<lparr>rn_wild := set_drop (Bubble r) (rn_wild n)\<rparr>) h)"

definition attach :: "nat \<Rightarrow> nat option \<Rightarrow> reg_heap \<Rightarrow> reg_heap" where
  "attach r parent h =
     (let h1 = upd_node r (\<lambda>n. n\<lparr>rn_parent := parent\<rparr>) (unbubble r h)
      in case parent of None \<Rightarrow> h1
         | Some p \<Rightarrow> upd_node p (\<lambda>n. n\<lparr>rn_wild := set_add (Bubble r) (rn_wild n)\<rparr>) h1)"

text \<open>\<open>None\<close>: the error \<open>setParent would create a cycle\<close>.\<close>

definition setParent :: "nat \<Rightarrow> nat option \<Rightarrow> reg_heap \<Rightarrow> reg_heap option" where
  "setParent r parent h =
     (if parent = parent_of h r then Some h
      else if (case parent of None \<Rightarrow> False | Some p \<Rightarrow> wouldCreateCycle h r p) then None
      else Some (attach r parent h))"

section \<open>Subscriptions\<close>

definition add_sub :: "string \<Rightarrow> subscriber \<Rightarrow> subscriber list dict \<Rightarrow> subscriber list dict" where
  "add_sub k s d = AList.update k (set_add s (nullish (map_of d k) [])) d"

definition drop_sub :: "string \<Rightarrow> subscriber \<Rightarrow> subscriber list dict \<Rightarrow> subscriber list dict" where
  "drop_sub k s d = (case map_of d k of
      None \<Rightarrow> d
    | Some xs \<Rightarrow> (let ys = set_drop s xs in if ys = [] then AList.delete k d else AList.update k ys d))"

definition subscribe :: "nat \<Rightarrow> string \<Rightarrow> nat \<Rightarrow> reg_heap \<Rightarrow> reg_heap" where
  "subscribe r pattern k h = upd_node r (\<lambda>n.
     if pattern = ''*'' then n\<lparr>rn_wild := set_add (Handler k) (rn_wild n)\<rparr>
     else if ends_with pattern ''.*'' then n\<lparr>rn_prefix := add_sub (butlast pattern) (Handler k) (rn_prefix n)\<rparr>
     else n\<lparr>rn_exact := add_sub pattern (Handler k) (rn_exact n)\<rparr>) h"

definition unsubscribe_reg :: "nat \<Rightarrow> string \<Rightarrow> nat \<Rightarrow> reg_heap \<Rightarrow> reg_heap" where
  "unsubscribe_reg r pattern k h = upd_node r (\<lambda>n.
     if pattern = ''*'' then n\<lparr>rn_wild := set_drop (Handler k) (rn_wild n)\<rparr>
     else if ends_with pattern ''.*'' then n\<lparr>rn_prefix := drop_sub (butlast pattern) (Handler k) (rn_prefix n)\<rparr>
     else n\<lparr>rn_exact := drop_sub pattern (Handler k) (rn_exact n)\<rparr>) h"

definition onChange :: "nat \<Rightarrow> nat \<Rightarrow> reg_heap \<Rightarrow> reg_heap" where
  "onChange r k h = subscribe r ''*'' k h"

definition onSizeChange :: "nat \<Rightarrow> nat \<Rightarrow> reg_heap \<Rightarrow> reg_heap" where
  "onSizeChange r k h = upd_node r (\<lambda>n. n\<lparr>rn_size := set_add k (rn_size n)\<rparr>) h"

definition offSizeChange :: "nat \<Rightarrow> nat \<Rightarrow> reg_heap \<Rightarrow> reg_heap" where
  "offSizeChange r k h = upd_node r (\<lambda>n. n\<lparr>rn_size := set_drop k (rn_size n)\<rparr>) h"

definition reg_handlerCount :: "reg_node \<Rightarrow> nat" where
  "reg_handlerCount n = length (rn_wild n) + length (rn_size n)
     + sum_list (map (\<lambda>(_, xs). length xs) (rn_exact n)) + sum_list (map (\<lambda>(_, xs). length xs) (rn_prefix n))"

definition clear_registry :: "nat \<Rightarrow> reg_heap \<Rightarrow> reg_heap" where
  "clear_registry r h = upd_node r (\<lambda>n. n\<lparr>rn_exact := [], rn_prefix := [], rn_wild := [], rn_size := []\<rparr>)
     (case setParent r None h of None \<Rightarrow> h | Some h1 \<Rightarrow> h1)"

section \<open>Events\<close>

definition event_subs :: "reg_node \<Rightarrow> string \<Rightarrow> subscriber list" where
  "event_subs n name = rn_wild n
     @ concat (map snd (filter (\<lambda>(prefix, _). starts_with name prefix) (rn_prefix n)))
     @ nullish (map_of (rn_exact n) name) []"

text \<open>\<open>fireEvent\<close> and \<open>fireBubbledEvent\<close> have the same body.\<close>

fun fireEvent :: "nat \<Rightarrow> reg_heap \<Rightarrow> nat \<Rightarrow> reg_event \<Rightarrow> delivery list" where
  "fireEvent 0 h r ev = []"
| "fireEvent (Suc fuel) h r ev =
     (if r < length h then
        concat (map (\<lambda>s. case s of Handler k \<Rightarrow> [Received k ev] | Bubble c \<Rightarrow> fireEvent fuel h c ev)
                    (event_subs (h ! r) (re_name ev)))
        @ (if re_sizeBefore ev \<noteq> re_sizeAfter ev
           then map (\<lambda>k. SizeChanged k (re_sizeAfter ev) (int (re_sizeAfter ev) - int (re_sizeBefore ev))) (rn_size (h ! r))
           else [])
      else [])"

definition tree_set :: "ms \<Rightarrow> nat \<Rightarrow> string \<Rightarrow> content \<Rightarrow> set_options \<Rightarrow> reg_heap \<Rightarrow> delivery list \<times> reg_heap" where
  "tree_set now r name c opts h =
     (let reg = rn_reg (h ! r); previous = reg_get name reg; reg1 = reg_set now name c opts reg;
          h1 = upd_node r (\<lambda>n. n\<lparr>rn_reg := reg1\<rparr>) h;
          ev = \<lparr> re_type = (if previous \<noteq> None then EvUpdate else EvSet), re_name = name, re_previous = previous,
                 re_current = reg_get name reg1, re_registry = rg_id reg, re_sizeBefore = sizeCharsLocal reg,
                 re_sizeAfter = sizeCharsLocal reg1, re_timestamp = now \<rparr>
      in (fireEvent (length h) h1 r ev, h1))"

definition tree_remove :: "ms \<Rightarrow> nat \<Rightarrow> string \<Rightarrow> reg_heap \<Rightarrow> bool \<times> delivery list \<times> reg_heap" where
  "tree_remove now r name h =
     (let reg = rn_reg (h ! r) in
      case reg_get name reg of
        None \<Rightarrow> (False, [], h)
      | Some prev \<Rightarrow>
          (let reg1 = snd (reg_remove name reg); h1 = upd_node r (\<lambda>n. n\<lparr>rn_reg := reg1\<rparr>) h;
               ev = \<lparr> re_type = EvRemove, re_name = name, re_previous = Some prev, re_current = None,
                      re_registry = rg_id reg, re_sizeBefore = sizeCharsLocal reg,
                      re_sizeAfter = sizeCharsLocal reg1, re_timestamp = now \<rparr>
           in (True, fireEvent (length h) h1 r ev, h1)))"

section \<open>The composed render\<close>

fun collectForRender :: "nat \<Rightarrow> render_options \<Rightarrow> reg_heap \<Rightarrow> nat \<Rightarrow> collected dict" where
  "collectForRender 0 opts h r = []"
| "collectForRender (Suc fuel) opts h r =
     overlay opts (rn_reg (h ! r))
       (case (ro_includeParent opts, parent_of h r) of
          (Some False, _) \<Rightarrow> []
        | (_, None) \<Rightarrow> []
        | (_, Some p) \<Rightarrow> foldl (\<lambda>m (name, e). AList.update name e m) [] (collectForRender fuel opts h p))"

definition render :: "ms \<Rightarrow> render_options \<Rightarrow> reg_heap \<Rightarrow> nat \<Rightarrow> render_result" where
  "render now opts h r = render_collected now opts (rn_reg (h ! r)) (collectForRender (length h) opts h r)"

definition flat :: "ms \<Rightarrow> render_options \<Rightarrow> reg_heap \<Rightarrow> nat \<Rightarrow> string" where
  "flat now opts h r = rr_flat (render now opts h r)"

definition sizeChars :: "ms \<Rightarrow> render_options \<Rightarrow> reg_heap \<Rightarrow> nat \<Rightarrow> nat" where
  "sizeChars now opts h r = rr_totalChars (render now opts h r)"

definition sizeTokens :: "(string \<Rightarrow> nat) option \<Rightarrow> ms \<Rightarrow> render_options \<Rightarrow> reg_heap \<Rightarrow> nat \<Rightarrow> nat" where
  "sizeTokens counter now opts h r = text_tokens counter (flat now opts h r)"

section \<open>Acyclic parents\<close>

definition parent_rel :: "reg_heap \<Rightarrow> (nat \<times> nat) set" where
  "parent_rel h = {(c, p). parent_of h c = Some p}"

definition dict_subs :: "subscriber list dict \<Rightarrow> subscriber set" where
  "dict_subs d = \<Union> (set ` snd ` set d)"

definition tree_ok :: "reg_heap \<Rightarrow> bool" where
  "tree_ok h = (acyclic (parent_rel h) \<and> (\<forall>c p. parent_of h c = Some p \<longrightarrow> p < length h)
     \<and> (\<forall>p<length h. \<forall>c. Bubble c \<in> set (rn_wild (h ! p)) \<longrightarrow> parent_of h c = Some p)
     \<and> (\<forall>p<length h. \<forall>c. Bubble c \<notin> dict_subs (rn_exact (h ! p)) \<union> dict_subs (rn_prefix (h ! p))))"

text \<open>How many registries the walk from \<open>r\<close> can still meet.\<close>

definition above :: "reg_heap \<Rightarrow> nat \<Rightarrow> nat set" where
  "above h r = {q. (r, q) \<in> (parent_rel h)\<^sup>*} \<inter> {..<length h}"

definition below :: "reg_heap \<Rightarrow> nat \<Rightarrow> nat set" where
  "below h r = {q. (q, r) \<in> (parent_rel h)\<^sup>*} \<inter> {..<length h}"

lemma tree_okD:
  assumes "tree_ok h"
  shows "acyclic (parent_rel h)" "parent_of h c = Some p \<Longrightarrow> p < length h"
    "p < length h \<Longrightarrow> Bubble c \<in> set (rn_wild (h ! p)) \<Longrightarrow> parent_of h c = Some p"
    "p < length h \<Longrightarrow> Bubble c \<notin> dict_subs (rn_exact (h ! p)) \<union> dict_subs (rn_prefix (h ! p))"
  using assms unfolding tree_ok_def by blast+

lemma parent_in: "parent_of h c = Some p \<Longrightarrow> c < length h"
  by (simp add: parent_of_def split: if_splits)

lemma above_parent:
  assumes "tree_ok h" "parent_of h r = Some p"
  shows "card (above h p) < card (above h r)"
proof (rule psubset_card_mono)
  have e: "(r, p) \<in> parent_rel h" using assms(2) by (simp add: parent_rel_def)
  then have "above h p \<subseteq> above h r" unfolding above_def using converse_rtrancl_into_rtrancl[OF e] by blast
  moreover have "r \<in> above h r" using parent_in[OF assms(2)] by (simp add: above_def)
  moreover have "r \<notin> above h p"
  proof
    assume "r \<in> above h p"
    then have "(p, r) \<in> (parent_rel h)\<^sup>*" by (simp add: above_def)
    with e have "(r, r) \<in> (parent_rel h)\<^sup>+" by (rule rtrancl_into_trancl2)
    then show False using tree_okD(1)[OF assms(1)] by (simp add: acyclic_def)
  qed
  ultimately show "above h p \<subset> above h r" by blast
qed (simp add: above_def)

lemma above_card: "card (above h r) \<le> length h"
  using card_mono[of "{..<length h}" "above h r"] by (simp add: above_def)

lemma below_child:
  assumes "tree_ok h" "parent_of h c = Some r"
  shows "card (below h c) < card (below h r)"
proof (rule psubset_card_mono)
  have e: "(c, r) \<in> parent_rel h" using assms(2) by (simp add: parent_rel_def)
  then have "below h c \<subseteq> below h r" unfolding below_def using rtrancl_into_rtrancl[OF _ e] by blast
  moreover have "r \<in> below h r" using tree_okD(2)[OF assms] by (simp add: below_def)
  moreover have "r \<notin> below h c"
  proof
    assume "r \<in> below h c"
    then have "(r, c) \<in> (parent_rel h)\<^sup>*" by (simp add: below_def)
    with e have "(c, c) \<in> (parent_rel h)\<^sup>+" by (rule rtrancl_into_trancl2)
    then show False using tree_okD(1)[OF assms(1)] by (simp add: acyclic_def)
  qed
  ultimately show "below h c \<subset> below h r" by blast
qed (simp add: below_def)

lemma below_card: "card (below h r) \<le> length h"
  using card_mono[of "{..<length h}" "below h r"] by (simp add: below_def)

lemma on_chain_iff:
  "tree_ok h \<Longrightarrow> card (above h cur) \<le> fuel \<Longrightarrow> cur < length h \<Longrightarrow>
   on_chain fuel h self cur \<longleftrightarrow> (cur, self) \<in> (parent_rel h)\<^sup>*"
proof (induction fuel arbitrary: cur)
  case 0
  then have "cur \<in> above h cur" "finite (above h cur)" by (auto simp: above_def)
  with 0 show ?case by auto
next
  case (Suc fuel)
  show ?case
  proof (cases "parent_of h cur")
    case None
    then have "(cur, self) \<in> (parent_rel h)\<^sup>* \<longleftrightarrow> cur = self"
      by (auto simp: parent_rel_def elim: converse_rtranclE)
    with None show ?thesis by simp
  next
    case (Some p)
    then have "card (above h p) \<le> fuel" "p < length h"
      using above_parent[OF Suc.prems(1) Some] Suc.prems(2) tree_okD(2)[OF Suc.prems(1) Some] by simp_all
    moreover have "(cur, self) \<in> (parent_rel h)\<^sup>* \<longleftrightarrow> cur = self \<or> (p, self) \<in> (parent_rel h)\<^sup>*"
      using Some by (auto simp: parent_rel_def elim: converse_rtranclE intro: converse_rtrancl_into_rtrancl)
    ultimately show ?thesis using Suc Some by simp
  qed
qed

lemma wouldCreateCycle_iff:
  "tree_ok h \<Longrightarrow> p < length h \<Longrightarrow> wouldCreateCycle h r p \<longleftrightarrow> (p, r) \<in> (parent_rel h)\<^sup>*"
  by (simp add: wouldCreateCycle_def on_chain_iff above_card)

lemma length_upd [simp]: "length (upd_node r f h) = length h"
  by (simp add: upd_node_def)

lemma nth_upd: "i < length h \<Longrightarrow> upd_node r f h ! i = (if i = r then f (h ! i) else h ! i)"
  by (simp add: upd_node_def)

lemma parent_upd: "(\<And>n. rn_parent (f n) = rn_parent n) \<Longrightarrow> parent_of (upd_node r f h) c = parent_of h c"
  by (simp add: parent_of_def nth_upd)

lemma set_add_set [simp]: "set (set_add x xs) = insert x (set xs)"
  by (auto simp: set_add_def)

lemma set_drop_set [simp]: "set (set_drop x xs) = set xs - {x}"
  by (auto simp: set_drop_def)

lemma attach_length [simp]: "length (attach r p h) = length h"
  by (simp add: attach_def unbubble_def Let_def split: option.split)

lemma attach_parent:
  assumes "r < length h"
  shows "parent_of (attach r p h) c = (if c = r then p else parent_of h c)"
proof -
  have u: "parent_of (unbubble r h) c = parent_of h c" "length (unbubble r h) = length h" for c
    by (simp_all add: unbubble_def parent_upd split: option.split)
  have "parent_of (upd_node r (\<lambda>n. n\<lparr>rn_parent := p\<rparr>) (unbubble r h)) c = (if c = r then p else parent_of h c)"
    using assms u(1)[of c] by (auto simp: parent_of_def nth_upd u(2))
  then show ?thesis by (cases p) (simp_all add: attach_def Let_def parent_upd)
qed

lemma attach_subs:
  assumes "q < length h"
  shows "set (rn_wild (attach r p h ! q)) \<subseteq>
      (if p = Some q then insert (Bubble r) (set (rn_wild (h ! q))) else set (rn_wild (h ! q)))
    \<and> (parent_of h r = Some q \<and> p \<noteq> Some q \<longrightarrow> Bubble r \<notin> set (rn_wild (attach r p h ! q)))
    \<and> rn_exact (attach r p h ! q) = rn_exact (h ! q) \<and> rn_prefix (attach r p h ! q) = rn_prefix (h ! q)"
  using assms by (auto simp: attach_def unbubble_def Let_def nth_upd split: option.split)

lemma tree_ok_attach:
  assumes "tree_ok h" "r < length h" "\<And>q. p = Some q \<Longrightarrow> q < length h \<and> (q, r) \<notin> (parent_rel h)\<^sup>*"
  shows "tree_ok (attach r p h)"
proof -
  have rel: "parent_rel (attach r p h) \<subseteq> (case p of None \<Rightarrow> {} | Some q \<Rightarrow> {(r, q)}) \<union> parent_rel h"
    using assms(2) by (auto simp: parent_rel_def attach_parent split: option.split if_splits)
  have "acyclic ((case p of None \<Rightarrow> {} | Some q \<Rightarrow> {(r, q)}) \<union> parent_rel h)"
    using tree_okD(1)[OF assms(1)] assms(3) by (cases p) simp_all
  then have "acyclic (parent_rel (attach r p h))" using rel by (rule acyclic_subset)
  moreover have "parent_of (attach r p h) c = Some q" if "q < length h" "Bubble c \<in> set (rn_wild (attach r p h ! q))" for c q
  proof (cases "c = r")
    case True
    have "Bubble r \<in> set (rn_wild (h ! q)) \<Longrightarrow> parent_of h r = Some q" by (rule tree_okD(3)[OF assms(1) that(1)])
    then show ?thesis using attach_subs[OF that(1), of r p] that(2) True assms(2)
      by (auto simp: attach_parent split: if_splits)
  next
    case False
    then have "Bubble c \<in> set (rn_wild (h ! q))" using attach_subs[OF that(1), of r p] that(2) by (auto split: if_splits)
    then show ?thesis using tree_okD(3)[OF assms(1) that(1)] assms(2) False by (simp add: attach_parent)
  qed
  moreover have "q < length h" if "parent_of (attach r p h) c = Some q" for c q
    using that assms(2,3) tree_okD(2)[OF assms(1), of c q] by (simp add: attach_parent split: if_splits)
  moreover have "Bubble c \<notin> dict_subs (rn_exact (attach r p h ! q)) \<union> dict_subs (rn_prefix (attach r p h ! q))"
    if "q < length h" for q c
    using attach_subs[OF that, of r p] tree_okD(4)[OF assms(1) that, of c] by simp
  ultimately show ?thesis unfolding tree_ok_def attach_length by blast
qed

section \<open>Histories\<close>

datatype tree_step =
    NewRegistry registry "nat option"
  | SetParent nat "nat option"
  | Subscribe nat string nat
  | Unsubscribe nat string nat
  | OnSize nat nat
  | OffSize nat nat
  | SetLayer nat ms string content set_options
  | RemoveLayer nat ms string
  | ClearRegistry nat

text \<open>A refused \<open>setParent\<close> throws and changes nothing; references are to existing registries.\<close>

definition reparent :: "nat \<Rightarrow> nat option \<Rightarrow> reg_heap \<Rightarrow> reg_heap" where
  "reparent r p h =
     (if r < length h \<and> (case p of None \<Rightarrow> True | Some q \<Rightarrow> q < length h) then nullish (setParent r p h) h else h)"

definition tree_step :: "tree_step \<Rightarrow> reg_heap \<Rightarrow> reg_heap" where
  "tree_step e h =
     (case e of
        NewRegistry r p \<Rightarrow> reparent (length h) p (h @ [node_of r])
      | SetParent r p \<Rightarrow> reparent r p h
      | Subscribe r pattern k \<Rightarrow> subscribe r pattern k h
      | Unsubscribe r pattern k \<Rightarrow> unsubscribe_reg r pattern k h
      | OnSize r k \<Rightarrow> onSizeChange r k h
      | OffSize r k \<Rightarrow> offSizeChange r k h
      | SetLayer r now name c opts \<Rightarrow> snd (tree_set now r name c opts h)
      | RemoveLayer r now name \<Rightarrow> snd (snd (tree_remove now r name h))
      | ClearRegistry r \<Rightarrow> if r < length h then clear_registry r h else h)"

definition tree_run :: "tree_step list \<Rightarrow> reg_heap" where
  "tree_run es = fold tree_step es []"

text \<open>Every child bubbles from its parent.\<close>

definition linked :: "reg_heap \<Rightarrow> bool" where
  "linked h = (\<forall>c p. parent_of h c = Some p \<longrightarrow> Bubble c \<in> set (rn_wild (h ! p)))"

definition same_bubbles :: "reg_node \<Rightarrow> reg_node \<Rightarrow> bool" where
  "same_bubbles n m = (rn_parent n = rn_parent m \<and> (\<forall>c. Bubble c \<in> set (rn_wild n) \<longleftrightarrow> Bubble c \<in> set (rn_wild m))
     \<and> (\<forall>c. Bubble c \<in> dict_subs (rn_exact n) \<union> dict_subs (rn_prefix n) \<longrightarrow>
          Bubble c \<in> dict_subs (rn_exact m) \<union> dict_subs (rn_prefix m)))"

lemma tree_ok_upd:
  assumes "tree_ok h" "\<And>n. same_bubbles (f n) n"
  shows "tree_ok (upd_node r f h)" "linked (upd_node r f h) = linked h"
proof -
  have p: "parent_of (upd_node r f h) c = parent_of h c" for c
    using assms(2) by (simp add: parent_upd same_bubbles_def)
  then have rel: "parent_rel (upd_node r f h) = parent_rel h" by (simp add: parent_rel_def)
  have w: "q < length h \<Longrightarrow> Bubble c \<in> set (rn_wild (upd_node r f h ! q)) \<longleftrightarrow> Bubble c \<in> set (rn_wild (h ! q))" for q c
    using assms(2) by (simp add: nth_upd same_bubbles_def)
  have e: "Bubble c \<notin> dict_subs (rn_exact (upd_node r f h ! q)) \<union> dict_subs (rn_prefix (upd_node r f h ! q))"
    if "q < length h" for q c
    using tree_okD(4)[OF assms(1) that, of c] assms(2)[of "h ! q"] that unfolding same_bubbles_def nth_upd[OF that]
    by (cases "q = r") auto
  show "tree_ok (upd_node r f h)"
    using tree_okD(1-3)[OF assms(1)] e unfolding tree_ok_def p rel length_upd by (metis w)
  show "linked (upd_node r f h) = linked h"
    using tree_okD(2)[OF assms(1)] unfolding linked_def p by (metis w)
qed

lemma map_of_subs: "map_of d p = Some xs \<Longrightarrow> set xs \<subseteq> dict_subs d"
  by (force simp: dict_subs_def dest: map_of_SomeD)

lemma update_subs: "dict_subs (AList.update p xs d) \<subseteq> set xs \<union> dict_subs d"
  using update_entries[of p xs d] unfolding dict_subs_def by fastforce

lemma add_sub_subs: "dict_subs (add_sub p s d) \<subseteq> insert s (dict_subs d)"
  using update_subs[of p "set_add s (nullish (map_of d p) [])" d] map_of_subs[of d p]
  by (cases "map_of d p") (auto simp: add_sub_def)

lemma drop_sub_subs: "dict_subs (drop_sub p s d) \<subseteq> dict_subs d"
proof (cases "map_of d p")
  case None
  then show ?thesis by (simp add: drop_sub_def)
next
  case (Some xs)
  have "dict_subs (AList.delete p d) \<subseteq> dict_subs d" by (auto simp: dict_subs_def AList.delete_eq)
  moreover have "dict_subs (AList.update p (set_drop s xs) d) \<subseteq> dict_subs d"
    using update_subs[of p "set_drop s xs" d] map_of_subs[OF Some] by auto
  ultimately show ?thesis using Some by (simp add: drop_sub_def Let_def)
qed

lemma same_bubbles_ops:
  "same_bubbles (n\<lparr>rn_wild := set_add (Handler k) (rn_wild n)\<rparr>) n" "same_bubbles (n\<lparr>rn_wild := set_drop (Handler k) (rn_wild n)\<rparr>) n"
  "same_bubbles (n\<lparr>rn_exact := add_sub p (Handler k) (rn_exact n)\<rparr>) n" "same_bubbles (n\<lparr>rn_prefix := add_sub p (Handler k) (rn_prefix n)\<rparr>) n"
  "same_bubbles (n\<lparr>rn_exact := drop_sub p (Handler k) (rn_exact n)\<rparr>) n" "same_bubbles (n\<lparr>rn_prefix := drop_sub p (Handler k) (rn_prefix n)\<rparr>) n"
  "same_bubbles (n\<lparr>rn_size := xs\<rparr>) n" "same_bubbles (n\<lparr>rn_reg := g\<rparr>) n"
  using add_sub_subs[of p "Handler k"] drop_sub_subs[of p "Handler k"] by (auto simp: same_bubbles_def)

lemma subscribe_ok:
  "tree_ok h \<Longrightarrow> tree_ok (subscribe r p k h) \<and> linked (subscribe r p k h) = linked h"
  "tree_ok h \<Longrightarrow> tree_ok (unsubscribe_reg r p k h) \<and> linked (unsubscribe_reg r p k h) = linked h"
  "tree_ok h \<Longrightarrow> tree_ok (onSizeChange r k h) \<and> linked (onSizeChange r k h) = linked h"
  "tree_ok h \<Longrightarrow> tree_ok (offSizeChange r k h) \<and> linked (offSizeChange r k h) = linked h"
  "tree_ok h \<Longrightarrow> tree_ok (snd (tree_set now r name c opts h)) \<and> linked (snd (tree_set now r name c opts h)) = linked h"
  "tree_ok h \<Longrightarrow> tree_ok (snd (snd (tree_remove now r name h))) \<and> linked (snd (snd (tree_remove now r name h))) = linked h"
  unfolding subscribe_def unsubscribe_reg_def onSizeChange_def offSizeChange_def tree_set_def tree_remove_def Let_def
  by (auto split: option.split intro!: tree_ok_upd same_bubbles_ops)

lemma reparent_ok:
  assumes "tree_ok h"
  shows "tree_ok (reparent r p h) \<and> (linked h \<longrightarrow> linked (reparent r p h))"
proof (cases "r < length h \<and> (case p of None \<Rightarrow> True | Some q \<Rightarrow> q < length h) \<and> p \<noteq> parent_of h r
    \<and> \<not> (case p of None \<Rightarrow> False | Some q \<Rightarrow> wouldCreateCycle h r q)")
  case True
  then have a: "reparent r p h = attach r p h" by (auto simp: reparent_def setParent_def split: option.splits)
  have q: "\<And>q. p = Some q \<Longrightarrow> q < length h \<and> (q, r) \<notin> (parent_rel h)\<^sup>*"
    using True wouldCreateCycle_iff[OF assms] by auto
  have "linked (attach r p h)" if l: "linked h"
    unfolding linked_def
  proof (intro allI impI)
    fix c q assume "parent_of (attach r p h) c = Some q"
    then have c: "if c = r then p = Some q else parent_of h c = Some q" using True by (simp add: attach_parent split: if_splits)
    then have "q < length h" using q tree_okD(2)[OF assms] by (auto split: if_splits)
    then show "Bubble c \<in> set (rn_wild (attach r p h ! q))"
      using c l True by (auto simp: attach_def unbubble_def Let_def nth_upd linked_def split: option.split if_splits)
  qed
  with tree_ok_attach[OF assms _ q] True show ?thesis by (simp add: a)
next
  case False
  then have "reparent r p h = h" by (auto simp: reparent_def setParent_def split: option.splits)
  with assms show ?thesis by simp
qed

lemma tree_ok_new:
  assumes "tree_ok h" shows "tree_ok (h @ [node_of r]) \<and> linked (h @ [node_of r]) = linked h"
proof -
  have p: "parent_of (h @ [node_of r]) c = parent_of h c" for c
    by (auto simp: parent_of_def nth_append node_of_def)
  then have rel: "parent_rel (h @ [node_of r]) = parent_rel h" by (simp add: parent_rel_def)
  have "tree_ok (h @ [node_of r])"
    unfolding tree_ok_def p rel length_append list.size
  proof (intro conjI allI impI)
    show "acyclic (parent_rel h)" by (rule tree_okD(1)[OF assms])
    show "parent_of h c = Some q \<Longrightarrow> q < length h + (0 + Suc 0)" for c q using tree_okD(2)[OF assms, of c q] by simp
    show "parent_of h c = Some q" if "q < length h + (0 + Suc 0)" "Bubble c \<in> set (rn_wild ((h @ [node_of r]) ! q))" for q c
      using that tree_okD(3)[OF assms, of q c] by (auto simp: nth_append node_of_def less_Suc_eq split: if_splits)
    show "Bubble c \<notin> dict_subs (rn_exact ((h @ [node_of r]) ! q)) \<union> dict_subs (rn_prefix ((h @ [node_of r]) ! q))"
      if "q < length h + (0 + Suc 0)" for q c
      using that tree_okD(4)[OF assms, of q c] by (auto simp: nth_append node_of_def dict_subs_def less_Suc_eq split: if_splits)
  qed
  moreover have "linked (h @ [node_of r]) = linked h"
    unfolding linked_def p using tree_okD(2)[OF assms] by (metis nth_append)
  ultimately show ?thesis by blast
qed

lemma clear_ok: "tree_ok h \<Longrightarrow> r < length h \<Longrightarrow> tree_ok (clear_registry r h)"
proof -
  assume h: "tree_ok h" "r < length h"
  have "(case setParent r None h of None \<Rightarrow> h | Some h1 \<Rightarrow> h1) = reparent r None h"
    using h(2) by (simp add: reparent_def nullish_def)
  moreover have "tree_ok (reparent r None h)" using reparent_ok[OF h(1)] by simp
  moreover have "tree_ok g \<Longrightarrow> tree_ok (upd_node r (\<lambda>n. n\<lparr>rn_exact := [], rn_prefix := [], rn_wild := [], rn_size := []\<rparr>) g)" for g
  proof -
    assume g: "tree_ok g"
    let ?f = "\<lambda>n. n\<lparr>rn_exact := [], rn_prefix := [], rn_wild := [], rn_size := []\<rparr> :: reg_node"
    have p: "parent_of (upd_node r ?f g) c = parent_of g c" for c by (simp add: parent_upd)
    then have rel: "parent_rel (upd_node r ?f g) = parent_rel g" by (simp add: parent_rel_def)
    show ?thesis
      unfolding tree_ok_def p rel length_upd
    proof (intro conjI allI impI)
      show "acyclic (parent_rel g)" by (rule tree_okD(1)[OF g])
      show "parent_of g c = Some q \<Longrightarrow> q < length g" for c q by (rule tree_okD(2)[OF g])
      show "parent_of g c = Some q" if "q < length g" "Bubble c \<in> set (rn_wild (upd_node r ?f g ! q))" for q c
        using that tree_okD(3)[OF g that(1), of c] by (simp add: nth_upd split: if_splits)
      show "Bubble c \<notin> dict_subs (rn_exact (upd_node r ?f g ! q)) \<union> dict_subs (rn_prefix (upd_node r ?f g ! q))"
        if "q < length g" for q c
        using that tree_okD(4)[OF g that, of c] by (simp add: nth_upd dict_subs_def)
    qed
  qed
  ultimately show ?thesis by (simp add: clear_registry_def)
qed

lemma tree_ok_run: "tree_ok (tree_run es) \<and> ((\<forall>r. ClearRegistry r \<notin> set es) \<longrightarrow> linked (tree_run es))"
proof (induction es rule: rev_induct)
  case Nil
  then show ?case by (simp add: tree_run_def tree_ok_def linked_def parent_rel_def parent_of_def acyclic_def)
next
  case (snoc e es)
  let ?h = "tree_run es"
  have "tree_ok (tree_step e ?h) \<and> ((\<forall>r. e \<noteq> ClearRegistry r) \<and> linked ?h \<longrightarrow> linked (tree_step e ?h))"
    using snoc subscribe_ok[of ?h] reparent_ok[of ?h] clear_ok[of ?h] tree_ok_new[of ?h] reparent_ok[of "?h @ [node_of _]"]
    by (cases e) (auto simp: tree_step_def)
  with snoc show ?case by (auto simp: tree_run_def)
qed

section \<open>Delivery\<close>

definition link_rel :: "reg_heap \<Rightarrow> (nat \<times> nat) set" where
  "link_rel h = {(c, p). p < length h \<and> Bubble c \<in> set (rn_wild (h ! p))}"

lemma link_parent: "tree_ok h \<Longrightarrow> (c, p) \<in> link_rel h \<Longrightarrow> parent_of h c = Some p"
  by (auto simp: link_rel_def intro: tree_okD(3))

lemma linked_rel: "tree_ok h \<Longrightarrow> linked h \<Longrightarrow> link_rel h = parent_rel h"
  using link_parent[of h] tree_okD(2)[of h] unfolding link_rel_def parent_rel_def linked_def by blast

lemma event_subs_bubble:
  assumes "tree_ok h" "q < length h"
  shows "Bubble c \<in> set (event_subs (h ! q) name) \<longleftrightarrow> (c, q) \<in> link_rel h"
proof -
  have "Bubble c \<notin> set (nullish (map_of (rn_exact (h ! q)) name) [])"
    using map_of_subs[of "rn_exact (h ! q)" name] tree_okD(4)[OF assms, of c]
    by (cases "map_of (rn_exact (h ! q)) name") auto
  moreover have "Bubble c \<notin> set (concat (map snd (filter (\<lambda>(prefix, _). starts_with name prefix) (rn_prefix (h ! q)))))"
    using tree_okD(4)[OF assms, of c] by (auto simp: dict_subs_def)
  ultimately show ?thesis using assms(2) by (auto simp: event_subs_def link_rel_def)
qed

lemma delivered_by:
  "x \<in> set (case s of Handler k \<Rightarrow> [Received k ev] | Bubble c \<Rightarrow> f c) \<longleftrightarrow>
   (\<exists>j. s = Handler j \<and> x = Received j ev) \<or> (\<exists>c. s = Bubble c \<and> x \<in> set (f c))"
  by (cases s) auto

lemma fireEvent_receivers:
  assumes "tree_ok h"
  shows "q < length h \<Longrightarrow> card (below h q) \<le> fuel \<Longrightarrow> Received k ev' \<in> set (fireEvent fuel h q ev) \<longleftrightarrow>
    ev' = ev \<and> (\<exists>r. (r, q) \<in> (link_rel h)\<^sup>* \<and> Handler k \<in> set (event_subs (h ! r) (re_name ev)))"
proof (induction fuel arbitrary: q)
  case 0
  then have "q \<in> below h q" "finite (below h q)" by (auto simp: below_def)
  with 0 show ?case by auto
next
  case (Suc fuel)
  let ?R = "\<lambda>q. \<exists>r. (r, q) \<in> (link_rel h)\<^sup>* \<and> Handler k \<in> set (event_subs (h ! r) (re_name ev))"
  let ?d = "\<lambda>s. case s of Handler k \<Rightarrow> [Received k ev] | Bubble c \<Rightarrow> fireEvent fuel h c ev"
  have IH: "Received k ev' \<in> set (fireEvent fuel h c ev) \<longleftrightarrow> ev' = ev \<and> ?R c" if "(c, q) \<in> link_rel h" for c
  proof -
    have p: "parent_of h c = Some q" by (rule link_parent[OF assms that])
    show ?thesis using Suc.IH[OF parent_in[OF p]] below_child[OF assms p] Suc.prems(2) by simp
  qed
  have "?R q \<longleftrightarrow> Handler k \<in> set (event_subs (h ! q) (re_name ev)) \<or> (\<exists>c. (c, q) \<in> link_rel h \<and> ?R c)"
    by (metis rtrancl.rtrancl_refl rtrancl.rtrancl_into_rtrancl rtranclE)
  moreover have "Received k ev' \<in> set (fireEvent (Suc fuel) h q ev) \<longleftrightarrow>
      (\<exists>s\<in>set (event_subs (h ! q) (re_name ev)). Received k ev' \<in> set (?d s))"
    using Suc.prems(1) by auto
  moreover have "\<dots> \<longleftrightarrow> ev' = ev \<and> Handler k \<in> set (event_subs (h ! q) (re_name ev))
      \<or> (\<exists>c. (c, q) \<in> link_rel h \<and> Received k ev' \<in> set (fireEvent fuel h c ev))"
    unfolding delivered_by using event_subs_bubble[OF assms Suc.prems(1)] by auto
  ultimately show ?case using IH by blast
qed

section \<open>Composition\<close>

lemma collect_fuel:
  assumes "tree_ok h"
  shows "card (above h r) \<le> m \<Longrightarrow> card (above h r) \<le> n \<Longrightarrow> r < length h \<Longrightarrow>
    collectForRender m opts h r = collectForRender n opts h r"
proof (induction m arbitrary: n r)
  case 0
  then have "r \<in> above h r" "finite (above h r)" by (auto simp: above_def)
  with 0 show ?case by auto
next
  case (Suc m)
  have "r \<in> above h r" "finite (above h r)" using Suc.prems by (auto simp: above_def)
  with Suc.prems(2) obtain n' where n: "n = Suc n'" by (cases n) auto
  have "collectForRender m opts h p = collectForRender n' opts h p" if "parent_of h r = Some p" for p
    using Suc.IH[of p n'] above_parent[OF assms that] Suc.prems n tree_okD(2)[OF assms that] by simp
  then show ?case by (auto simp: n split: option.split bool.split)
qed

lemma copy_entries: "map_of (foldl (\<lambda>m (name, e). AList.update name e m) [] ds) = map_of (rev ds)"
  using map_of_foldl_update[of "[]" ds] by simp

text \<open>What a registry shows under a name, given its own layer and what its ancestors show.\<close>

definition overlaid :: "render_options \<Rightarrow> string \<Rightarrow> layer option \<Rightarrow> collected option \<Rightarrow> collected option" where
  "overlaid opts src own up =
     (case own of
        None \<Rightarrow> up
      | Some l \<Rightarrow>
          if \<not> passesFilter l opts then up
          else (case (up, ly_mergeParent l) of
                  (Some e, Some True) \<Rightarrow>
                    Some \<lparr> co_layer = l\<lparr>ly_content := concatContent (ly_content (co_layer e)) (ly_content l)\<rparr>, co_source = src \<rparr>
                | _ \<Rightarrow> Some \<lparr> co_layer = l, co_source = src \<rparr>))"

lemma overlay_layer_lookup:
  "map_of (overlay_layer opts src m (n, l)) name =
     (if name = n then overlaid opts src (Some l) (map_of m n) else map_of m name)"
  by (auto simp: overlay_layer_def overlaid_def update_conv' split: option.split bool.split)

lemma overlay_lookup:
  "distinct (map fst ls) \<Longrightarrow>
   map_of (foldl (overlay_layer opts src) m ls) name = overlaid opts src (map_of ls name) (map_of m name)"
proof (induction ls arbitrary: m)
  case Nil
  then show ?case by (simp add: overlaid_def)
next
  case (Cons nl ls)
  obtain n l where nl: "nl = (n, l)" by (cases nl)
  have "map_of ls n = None" using Cons.prems nl by (simp add: map_of_eq_None_iff)
  moreover have "overlaid opts src None up = up" for up by (simp add: overlaid_def)
  ultimately show ?case using Cons by (simp add: nl overlay_layer_lookup)
qed

section \<open>Properties\<close>

text \<open>C32: the parent relation never has a cycle, whatever the history of registries, parents, subscriptions and layers;
  \<open>setParent\<close> throws exactly when the new parent is the registry itself or lies below it, and every walk up
  the chain ends.\<close>

theorem parents_stay_acyclic:
  assumes "r < length (tree_run es)" "q < length (tree_run es)"
  shows "acyclic (parent_rel (tree_run es))
    \<and> (setParent r (Some q) (tree_run es) = None) = ((q, r) \<in> (parent_rel (tree_run es))\<^sup>*)"
proof -
  let ?h = "tree_run es"
  have ok: "tree_ok ?h" using tree_ok_run by blast
  have "(q, r) \<notin> (parent_rel ?h)\<^sup>*" if "parent_of ?h r = Some q"
  proof
    assume "(q, r) \<in> (parent_rel ?h)\<^sup>*"
    moreover have "(r, q) \<in> parent_rel ?h" using that by (simp add: parent_rel_def)
    ultimately have "(r, r) \<in> (parent_rel ?h)\<^sup>+" by (metis rtrancl_into_trancl2)
    then show False using tree_okD(1)[OF ok] by (simp add: acyclic_def)
  qed
  then show ?thesis using tree_okD(1)[OF ok] wouldCreateCycle_iff[OF ok assms(2), of r]
    by (auto simp: setParent_def)
qed

definition demo_tree :: "tree_step list" where
  "demo_tree = [NewRegistry (demo_registry\<lparr>rg_id := ''global''\<rparr>) None, NewRegistry (demo_registry\<lparr>rg_id := ''module''\<rparr>) (Some 0),
     NewRegistry (demo_registry\<lparr>rg_id := ''chat''\<rparr>) (Some 1), Subscribe 2 ''*'' 7, Subscribe 1 ''memory.*'' 8]"

theorem parents_stay_acyclic_witness:
  "setParent 0 (Some 2) (tree_run demo_tree) = None \<and> setParent 2 (Some 0) (tree_run demo_tree) \<noteq> None"
proof -
  let ?h = "tree_run demo_tree"
  have l: "length ?h = 3" and p: "parent_of ?h 2 = Some 1" "parent_of ?h 1 = Some 0" "parent_of ?h 0 = None" by code_simp+
  have "(2, 0) \<in> (parent_rel ?h)\<^sup>*"
    using p by (intro converse_rtrancl_into_rtrancl[of 2 1] converse_rtrancl_into_rtrancl[of 1 0]) (simp_all add: parent_rel_def)
  moreover have "(0, 2) \<notin> (parent_rel ?h)\<^sup>*"
    using p(3) by (auto simp: parent_rel_def elim: converse_rtranclE)
  ultimately show ?thesis using parents_stay_acyclic[of 0 demo_tree 2] parents_stay_acyclic[of 2 demo_tree 0] l by simp
qed

text \<open>changes reach everyone below: while no registry has been cleared, a change in a registry is delivered to
  exactly the handlers subscribed, by name, by prefix or to everything, at that registry or at one of its
  descendants.\<close>

theorem changes_reach_descendants:
  assumes "\<forall>r. ClearRegistry r \<notin> set es" "q < length (tree_run es)"
  shows "Received k ev' \<in> set (fireEvent (length (tree_run es)) (tree_run es) q ev) \<longleftrightarrow>
    ev' = ev \<and> (\<exists>r. (r, q) \<in> (parent_rel (tree_run es))\<^sup>*
      \<and> Handler k \<in> set (event_subs (tree_run es ! r) (re_name ev)))"
proof -
  have "tree_ok (tree_run es)" "linked (tree_run es)" using tree_ok_run assms(1) by blast+
  with fireEvent_receivers[of "tree_run es" q "length (tree_run es)"] assms(2)
  show ?thesis by (simp add: linked_rel below_card)
qed

definition demo_event :: "string \<Rightarrow> reg_event" where
  "demo_event name = \<lparr> re_type = EvRemove, re_name = name, re_previous = None, re_current = None, re_registry = ''global'',
     re_sizeBefore = 5, re_sizeAfter = 0, re_timestamp = 4 \<rparr>"

theorem changes_reach_descendants_witness:
  "Received 7 (demo_event ''facts'') \<in> set (fireEvent 3 (tree_run demo_tree) 0 (demo_event ''facts''))"
proof -
  let ?h = "tree_run demo_tree"
  have l: "length ?h = 3" and p: "parent_of ?h 2 = Some 1" "parent_of ?h 1 = Some 0" by code_simp+
  have "(2, 0) \<in> (parent_rel ?h)\<^sup>*"
    using p by (intro converse_rtrancl_into_rtrancl[of 2 1] converse_rtrancl_into_rtrancl[of 1 0]) (simp_all add: parent_rel_def)
  moreover have "Handler 7 \<in> set (event_subs (?h ! 2) (re_name (demo_event ''facts'')))" by code_simp
  moreover have "\<forall>r. ClearRegistry r \<notin> set demo_tree" by (simp add: demo_tree_def)
  ultimately show ?thesis using changes_reach_descendants[of demo_tree 0] l by auto
qed

text \<open>clearing a registry also removes the links its children bubble through: they keep it as their parent and
  render its layers, but no longer hear of its changes.\<close>

theorem clear_silences_children:
  "let h = tree_run (demo_tree @ [ClearRegistry 1])
   in parent_of h 2 = Some 1 \<and> fireEvent 3 h 1 (demo_event ''facts'') = []
    \<and> fireEvent 3 (tree_run demo_tree) 1 (demo_event ''facts'') = [Received 7 (demo_event ''facts'')]"
  by code_simp



end
