(* ===== verification/CostCollector.thy ===== *)
theory CostCollector
  imports Messages
begin

text \<open>
  \<open>src/plugins/cost-collector/\<close>: what a completion costs (\<open>cost-collector-internal.ts\<close>) and the ledger with its
  queries and budgets (\<open>collector.ts\<close>). Money and rates are exact rationals. A catalog is the function
  \<open>getPricing\<close>. A hook event the collector emits is logged; \<open>crypto.randomUUID()\<close> and \<open>Date.now()\<close> are
  arguments. A plain object that is read by any key (tags, scopes, evidence) is a dictionary.
\<close>

section \<open>Types\<close>

record model_pricing =
  mp_inputPerMTok :: "rat option"
  mp_outputPerMTok :: "rat option"
  mp_cacheReadPerMTok :: "rat option"
  mp_cacheWritePerMTok :: "rat option"
  mp_audioInputPerMTok :: "rat option"
  mp_audioOutputPerMTok :: "rat option"
  mp_perImage :: "rat option"
  mp_perSecond :: "rat option"
  mp_perMinute :: "rat option"
  mp_perMChars :: "rat option"
  mp_perUnit :: "rat dict option"

record priced_model = model_pricing +
  mp_tiers :: "model_pricing dict option"

type_synonym catalog = "string \<Rightarrow> string \<Rightarrow> priced_model option"

record token_counts =
  tk_input :: nat
  tk_output :: nat
  tk_cached :: nat
  tk_cacheWrite :: nat
  tk_reasoning :: nat
  tk_audioInput :: "nat option"
  tk_audioOutput :: "nat option"

datatype cost_source = Provider | Calculated | Unknown

record cost =
  cs_input :: rat
  cs_output :: rat
  cs_cacheRead :: rat
  cs_cacheWrite :: rat
  cs_reasoning :: rat
  cs_total :: rat
  cs_source :: cost_source

record cost_entry =
  en_id :: string
  en_timestamp :: ms
  en_provider :: string
  en_model :: string
  en_tokens :: token_counts
  en_cost :: cost
  en_serviceTier :: "string option"
  en_providerEvidence :: "json dict"
  en_tags :: "string option dict"

definition zeroCost :: "rat \<Rightarrow> cost_source \<Rightarrow> cost" where
  "zeroCost acc source = \<lparr> cs_input = 0, cs_output = 0, cs_cacheRead = 0, cs_cacheWrite = 0, cs_reasoning = 0,
     cs_total = acc, cs_source = source \<rparr>"

section \<open>Provider-reported cost\<close>

definition json_number :: "json \<Rightarrow> rat option" where
  "json_number j = (case j of JNum m k \<Rightarrow> Some (of_int m / 10 ^ k) | _ \<Rightarrow> None)"

text \<open>A field that is \<open>undefined\<close> in the evidence is left out of the dictionary. The division by \<open>1e10\<close> of a number
  moves its decimal point.\<close>

definition keep_field :: "string \<Rightarrow> json option \<Rightarrow> json dict" where
  "keep_field k v = (case v of None \<Rightarrow> [] | Some x \<Rightarrow> [(k, x)])"

definition is_object :: "json \<Rightarrow> bool" where
  \<comment> \<open>\<open>raw && typeof raw === 'object'\<close>: arrays too.\<close>
  "is_object j = (case j of JObj _ \<Rightarrow> True | JArr _ \<Rightarrow> True | _ \<Rightarrow> False)"

definition extractProviderCost :: "string \<Rightarrow> json option \<Rightarrow> json dict" where
  "extractProviderCost provider raw =
     (case raw of
        None \<Rightarrow> []
      | Some j \<Rightarrow> if \<not> is_object j then [] else
          (let usage = (case json_prop j ''usage'' of Some u \<Rightarrow> u | None \<Rightarrow> JObj []) in
           if provider = ''openrouter'' then
             keep_field ''cost'' (json_prop usage ''cost'')
             @ keep_field ''cost_details'' (json_prop usage ''cost_details'')
             @ keep_field ''is_byok'' (json_prop usage ''is_byok'')
           else if provider = ''xai'' then
             (let ticks = json_prop usage ''cost_in_usd_ticks'' in
              keep_field ''cost_in_usd_ticks'' ticks
              @ [(''cost_usd'', case ticks of Some (JNum m k) \<Rightarrow> JNum m (k + 10) | _ \<Rightarrow> JNull)])
           else []))"

definition getProviderTotal :: "string \<Rightarrow> json dict \<Rightarrow> rat option" where
  "getProviderTotal provider evidence =
     (case (if provider = ''openrouter'' then Option.bind (map_of evidence ''cost'') json_number else None) of
        Some c \<Rightarrow> Some c
      | None \<Rightarrow> if provider = ''xai'' then Option.bind (map_of evidence ''cost_usd'') json_number else None)"

section \<open>Catalog prices\<close>

text \<open>\<open>{ ...base, ...tierRates }\<close>: a rate the tier sets replaces the standard one.\<close>

definition with_tier :: "priced_model \<Rightarrow> model_pricing option \<Rightarrow> model_pricing" where
  "with_tier base tier = (let t = nullish tier \<lparr> mp_inputPerMTok = None, mp_outputPerMTok = None,
       mp_cacheReadPerMTok = None, mp_cacheWritePerMTok = None, mp_audioInputPerMTok = None, mp_audioOutputPerMTok = None,
       mp_perImage = None, mp_perSecond = None, mp_perMinute = None, mp_perMChars = None, mp_perUnit = None \<rparr> in
     \<lparr> mp_inputPerMTok = or_else (mp_inputPerMTok t) (mp_inputPerMTok base),
       mp_outputPerMTok = or_else (mp_outputPerMTok t) (mp_outputPerMTok base),
       mp_cacheReadPerMTok = or_else (mp_cacheReadPerMTok t) (mp_cacheReadPerMTok base),
       mp_cacheWritePerMTok = or_else (mp_cacheWritePerMTok t) (mp_cacheWritePerMTok base),
       mp_audioInputPerMTok = or_else (mp_audioInputPerMTok t) (mp_audioInputPerMTok base),
       mp_audioOutputPerMTok = or_else (mp_audioOutputPerMTok t) (mp_audioOutputPerMTok base),
       mp_perImage = or_else (mp_perImage t) (mp_perImage base),
       mp_perSecond = or_else (mp_perSecond t) (mp_perSecond base),
       mp_perMinute = or_else (mp_perMinute t) (mp_perMinute base),
       mp_perMChars = or_else (mp_perMChars t) (mp_perMChars base),
       mp_perUnit = or_else (mp_perUnit t) (mp_perUnit base) \<rparr>)"

definition tier_rates :: "priced_model \<Rightarrow> string option \<Rightarrow> model_pricing option" where
  "tier_rates base tier =
     (case truthy_str tier of
        None \<Rightarrow> None
      | Some t \<Rightarrow> if t = ''standard'' then None else Option.bind (mp_tiers base) (\<lambda>ts. map_of ts t))"

definition per_million :: "nat \<Rightarrow> rat" where "per_million n = of_nat n / 1000000"

definition calculateCost :: "catalog \<Rightarrow> string \<Rightarrow> string \<Rightarrow> token_counts \<Rightarrow> json dict \<Rightarrow> string option \<Rightarrow> cost" where
  "calculateCost cat provider model tokens evidence tier =
     (case getProviderTotal provider evidence of
        Some t \<Rightarrow> zeroCost t Provider
      | None \<Rightarrow>
          (case cat provider model of
             None \<Rightarrow> zeroCost 0 Unknown
           | Some base \<Rightarrow>
               (let pricing = with_tier base (tier_rates base tier);
                    inputRate = nullish (mp_inputPerMTok pricing) 0;
                    outputRate = nullish (mp_outputPerMTok pricing) 0;
                    cacheReadRate = nullish (mp_cacheReadPerMTok pricing) (inputRate * (1 / 10));
                    cacheWriteRate = nullish (mp_cacheWritePerMTok pricing) (inputRate * (5 / 4));
                    audioInRate = nullish (mp_audioInputPerMTok pricing) inputRate;
                    audioOutRate = nullish (mp_audioOutputPerMTok pricing) outputRate;
                    inp = per_million (tk_input tokens) * inputRate + per_million (nullish (tk_audioInput tokens) 0) * audioInRate;
                    outp = per_million (tk_output tokens) * outputRate + per_million (nullish (tk_audioOutput tokens) 0) * audioOutRate;
                    cacheRead = per_million (tk_cached tokens) * cacheReadRate;
                    cacheWrite = per_million (tk_cacheWrite tokens) * cacheWriteRate;
                    reasoning = per_million (tk_reasoning tokens) * outputRate
                in \<lparr> cs_input = inp, cs_output = outp, cs_cacheRead = cacheRead, cs_cacheWrite = cacheWrite,
                     cs_reasoning = reasoning, cs_total = inp + outp + cacheRead + cacheWrite + reasoning,
                     cs_source = Calculated \<rparr>)))"

section \<open>Transcriptions and media\<close>

definition calculateTranscriptionCost :: "catalog \<Rightarrow> string \<Rightarrow> string \<Rightarrow> rat option \<Rightarrow> cost \<times> string option" where
  "calculateTranscriptionCost cat provider model durationSeconds =
     (case cat provider model of
        None \<Rightarrow> (zeroCost 0 Unknown, Some (''unpriced: no catalog entry for '' @ provider @ ''/'' @ model))
      | Some pricing \<Rightarrow>
          (case mp_perMinute pricing of
             None \<Rightarrow> (zeroCost 0 Unknown, Some (''unpriced: no catalog perMinute rate for '' @ provider @ ''/'' @ model))
           | Some rate \<Rightarrow>
               (case durationSeconds of
                  None \<Rightarrow> (zeroCost 0 Unknown, Some ''unpriced: audio duration unknown; pass audioDurationSeconds to transcribe()'')
                | Some d \<Rightarrow>
                    if d \<le> 0 then (zeroCost 0 Unknown, Some ''unpriced: audio duration unknown; pass audioDurationSeconds to transcribe()'')
                    else (zeroCost (d / 60 * rate) Calculated, None))))"

datatype media_type = MImage | MAudio | MVideo

definition media_name :: "media_type \<Rightarrow> string" where
  "media_name t = (case t of MImage \<Rightarrow> ''image'' | MAudio \<Rightarrow> ''audio'' | MVideo \<Rightarrow> ''video'')"

record media_units =
  mu_type :: media_type
  mu_count :: "rat option"
  mu_durationSeconds :: "rat option"
  mu_textChars :: "nat option"
  mu_resolution :: "string option"

definition mediaUnitCost :: "priced_model \<Rightarrow> media_units \<Rightarrow> rat option" where
  "mediaUnitCost pricing media =
     (let count = nullish (mu_count media) 1;
          perUnit = (case truthy_str (mu_resolution media) of
                       None \<Rightarrow> None | Some r \<Rightarrow> Option.bind (mp_perUnit pricing) (\<lambda>u. map_of u r))
      in case mu_type media of
           MImage \<Rightarrow> map_option (\<lambda>rate. rate * count) (or_else perUnit (mp_perImage pricing))
         | MVideo \<Rightarrow> map_option (\<lambda>rate. rate * nullish (mu_durationSeconds media) count) (or_else perUnit (mp_perSecond pricing))
         | MAudio \<Rightarrow> (case (mp_perMChars pricing, mu_textChars media) of
                        (Some rate, Some n) \<Rightarrow> Some (per_million n * rate) | _ \<Rightarrow> None))"

record cost_input =
  ci_provider :: string
  ci_model :: string
  ci_tokens :: "token_counts option"
  ci_media :: "media_units option"
  ci_providerEvidence :: "json dict option"
  ci_tier :: "string option"

definition computeCost :: "catalog \<Rightarrow> cost_input \<Rightarrow> cost" where
  "computeCost cat input =
     (case getProviderTotal (ci_provider input) (nullish (ci_providerEvidence input) []) of
        Some t \<Rightarrow> zeroCost t Provider
      | None \<Rightarrow>
          (let base = or_else (cat (ci_provider input) (ci_model input))
                        (Option.bind (ci_media input) (\<lambda>m. cat (ci_provider input) (media_name (mu_type m))));
               hasTokenRates = (case base of None \<Rightarrow> False
                                | Some b \<Rightarrow> mp_inputPerMTok b \<noteq> None \<or> mp_outputPerMTok b \<noteq> None)
           in case (if hasTokenRates then ci_tokens input else None) of
                Some tokens \<Rightarrow> calculateCost cat (ci_provider input) (ci_model input) tokens [] (ci_tier input)
              | None \<Rightarrow>
                  (case (ci_media input, base) of
                     (Some m, Some b) \<Rightarrow>
                       (case mediaUnitCost b m of Some t \<Rightarrow> zeroCost t Calculated | None \<Rightarrow> zeroCost 0 Unknown)
                   | _ \<Rightarrow> zeroCost 0 Unknown)))"

section \<open>Scopes, filters, summaries\<close>

definition tag_of :: "cost_entry \<Rightarrow> string \<Rightarrow> string option" where
  "tag_of e k = Option.bind (map_of (en_tags e) k) id"

definition matchesScope :: "cost_entry \<Rightarrow> string option dict \<Rightarrow> bool" where
  "matchesScope entry scope =
     list_all (\<lambda>(key, v). case v of None \<Rightarrow> True | Some x \<Rightarrow> tag_of entry key = Some x) scope"

record cost_filter =
  cf_provider :: "string option"
  cf_model :: "string option"
  cf_runId :: "string option"
  cf_conversationId :: "string option"
  cf_sessionId :: "string option"
  cf_after :: "ms option"
  cf_before :: "ms option"

text \<open>A string of a filter that is empty and a time that is zero are falsy and do not filter.\<close>

definition text_filter :: "string option \<Rightarrow> string option \<Rightarrow> bool" where
  "text_filter want got = (case truthy_str want of None \<Rightarrow> True | Some w \<Rightarrow> got = Some w)"

definition applyFilter :: "cost_filter \<Rightarrow> cost_entry \<Rightarrow> bool" where
  "applyFilter f e =
     (text_filter (cf_provider f) (Some (en_provider e)) \<and> text_filter (cf_model f) (Some (en_model e))
      \<and> (case cf_after f of None \<Rightarrow> True | Some t \<Rightarrow> t = 0 \<or> \<not> en_timestamp e < t)
      \<and> (case cf_before f of None \<Rightarrow> True | Some t \<Rightarrow> t = 0 \<or> \<not> en_timestamp e > t)
      \<and> text_filter (cf_runId f) (tag_of e ''runId'')
      \<and> text_filter (cf_conversationId f) (tag_of e ''conversationId'')
      \<and> text_filter (cf_sessionId f) (tag_of e ''sessionId''))"

record cost_summary =
  su_input :: rat
  su_output :: rat
  su_cacheRead :: rat
  su_cacheWrite :: rat
  su_reasoning :: rat
  su_total :: rat
  su_tokens :: token_counts
  su_entries :: nat
  su_unpriced :: nat
  su_unpricedModels :: "string list"

definition model_key :: "cost_entry \<Rightarrow> string" where
  "model_key e = en_provider e @ ''/'' @ en_model e"

definition summarize_entry :: "cost_summary \<Rightarrow> cost_entry \<Rightarrow> cost_summary" where
  "summarize_entry s0 e =
     (let s = (if cs_source (en_cost e) = Unknown
               then s0\<lparr>su_unpriced := su_unpriced s0 + 1,
                       su_unpricedModels := (if model_key e \<in> set (su_unpricedModels s0) then su_unpricedModels s0
                                             else su_unpricedModels s0 @ [model_key e])\<rparr>
               else s0);
          t = su_tokens s; k = en_tokens e
      in s\<lparr>su_input := su_input s + cs_input (en_cost e), su_output := su_output s + cs_output (en_cost e),
           su_cacheRead := su_cacheRead s + cs_cacheRead (en_cost e), su_cacheWrite := su_cacheWrite s + cs_cacheWrite (en_cost e),
           su_reasoning := su_reasoning s + cs_reasoning (en_cost e), su_total := su_total s + cs_total (en_cost e),
           su_tokens := t\<lparr>tk_input := tk_input t + tk_input k, tk_output := tk_output t + tk_output k,
             tk_cached := tk_cached t + tk_cached k, tk_cacheWrite := tk_cacheWrite t + tk_cacheWrite k,
             tk_reasoning := tk_reasoning t + tk_reasoning k\<rparr>\<rparr>)"

definition no_tokens :: token_counts where
  "no_tokens = \<lparr> tk_input = 0, tk_output = 0, tk_cached = 0, tk_cacheWrite = 0, tk_reasoning = 0,
     tk_audioInput = None, tk_audioOutput = None \<rparr>"

definition summarize :: "cost_entry list \<Rightarrow> cost_summary" where
  "summarize entries = foldl summarize_entry
     \<lparr> su_input = 0, su_output = 0, su_cacheRead = 0, su_cacheWrite = 0, su_reasoning = 0, su_total = 0,
       su_tokens = no_tokens, su_entries = length entries, su_unpriced = 0, su_unpricedModels = [] \<rparr> entries"

section \<open>The collector\<close>

datatype budget_action = Warn | Stop

record budget =
  bg_id :: string
  bg_limit :: rat
  bg_scope :: "string option dict"
  bg_thresholds :: "rat list"
  bg_action :: budget_action

text \<open>What the collector emits, in order; \<open>AgentStopped\<close> is a call of \<open>stop()\<close> of a watched agent.\<close>

datatype cost_event =
    CostEntryEvent cost_entry rat
  | UnpricedModel string string
  | UnpricedTier string string string "string list"
  | BudgetWarning string rat rat rat jsnum
  | BudgetExceeded string rat rat rat
  | AgentStopped nat

record collector =
  cc_ledger :: "cost_entry list"
  cc_sessionId :: "string option"
  cc_defaultTags :: "string dict"
  cc_budgets :: "budget list"
  cc_triggeredThresholds :: "rat list dict"
  cc_runningTotal :: rat
  cc_warnedUnpriced :: "string list"
  cc_watchedAgents :: "nat list"
  cc_subscribed :: bool
  cc_log :: "cost_event list"

definition new_collector :: "string option \<Rightarrow> string dict option \<Rightarrow> collector" where
  "new_collector sessionId tags = \<lparr> cc_ledger = [], cc_sessionId = sessionId, cc_defaultTags = nullish tags [],
     cc_budgets = [], cc_triggeredThresholds = [], cc_runningTotal = 0, cc_warnedUnpriced = [], cc_watchedAgents = [],
     cc_subscribed = True, cc_log = [] \<rparr>"

definition destroy :: "collector \<Rightarrow> collector" where "destroy c = c\<lparr>cc_subscribed := False\<rparr>"

definition addBudget :: "budget \<Rightarrow> collector \<Rightarrow> collector" where
  "addBudget b c = c\<lparr>cc_budgets := cc_budgets c @ [b],
     cc_triggeredThresholds := AList.update (bg_id b) [] (cc_triggeredThresholds c)\<rparr>"

definition removeBudget :: "string \<Rightarrow> collector \<Rightarrow> collector" where
  "removeBudget i c = c\<lparr>cc_budgets := filter (\<lambda>b. bg_id b \<noteq> i) (cc_budgets c),
     cc_triggeredThresholds := AList.delete i (cc_triggeredThresholds c)\<rparr>"

definition watchAgent :: "nat \<Rightarrow> collector \<Rightarrow> collector" where
  "watchAgent a c = c\<lparr>cc_watchedAgents := (if a \<in> set (cc_watchedAgents c) then cc_watchedAgents c
                                            else cc_watchedAgents c @ [a])\<rparr>"

definition setTag :: "string \<Rightarrow> string \<Rightarrow> collector \<Rightarrow> collector" where
  "setTag k v c = c\<lparr>cc_defaultTags := AList.update k v (cc_defaultTags c)\<rparr>"

subsection \<open>Queries\<close>

definition filterEntries :: "cost_filter option \<Rightarrow> collector \<Rightarrow> cost_entry list" where
  "filterEntries flt c = (case flt of None \<Rightarrow> cc_ledger c | Some f \<Rightarrow> filter (applyFilter f) (cc_ledger c))"

definition total :: "cost_filter option \<Rightarrow> collector \<Rightarrow> cost_summary" where
  "total flt c = summarize (filterEntries flt c)"

text \<open>The groups are collected in a plain object: a key it inherits (\<open>constructor\<close>, \<open>toString\<close>, \<dots>) finds a value
  that is no array, and \<open>push\<close> throws (\<open>None\<close>).\<close>

definition inherited_keys :: "string list" where
  "inherited_keys = [''constructor'', ''__defineGetter__'', ''__defineSetter__'', ''hasOwnProperty'', ''__lookupGetter__'',
     ''__lookupSetter__'', ''isPrototypeOf'', ''propertyIsEnumerable'', ''toString'', ''valueOf'', ''__proto__'',
     ''toLocaleString'']"

fun add_to_groups :: "(cost_entry \<Rightarrow> string) \<Rightarrow> cost_entry list \<Rightarrow> cost_entry list dict \<Rightarrow> cost_entry list dict option" where
  "add_to_groups key [] groups = Some groups"
| "add_to_groups key (e # es) groups =
     (case map_of groups (key e) of
        Some g \<Rightarrow> add_to_groups key es (AList.update (key e) (g @ [e]) groups)
      | None \<Rightarrow> if key e \<in> set inherited_keys then None
                else add_to_groups key es (AList.update (key e) [e] groups))"

definition summarize_groups :: "(cost_entry \<Rightarrow> string) \<Rightarrow> cost_entry list \<Rightarrow> cost_summary dict option" where
  "summarize_groups key entries = map_option (map (\<lambda>(k, g). (k, summarize g))) (add_to_groups key entries [])"

definition byProvider :: "cost_filter option \<Rightarrow> collector \<Rightarrow> cost_summary dict option" where
  "byProvider flt c = summarize_groups en_provider (filterEntries flt c)"

definition byModel :: "cost_filter option \<Rightarrow> collector \<Rightarrow> cost_summary dict option" where
  "byModel flt c = summarize_groups model_key (filterEntries flt c)"

definition byTag :: "string \<Rightarrow> cost_filter option \<Rightarrow> collector \<Rightarrow> cost_summary dict option" where
  "byTag tagName flt c = summarize_groups (\<lambda>e. nullish (tag_of e tagName) ''(none)'') (filterEntries flt c)"

definition export_ledger :: "collector \<Rightarrow> cost_entry list" where "export_ledger c = cc_ledger c"

definition import_ledger :: "cost_entry list \<Rightarrow> collector \<Rightarrow> collector" where
  "import_ledger es c = c\<lparr>cc_ledger := cc_ledger c @ es,
     cc_runningTotal := foldl (\<lambda>t e. t + cs_total (en_cost e)) (cc_runningTotal c) es\<rparr>"

subsection \<open>Budgets\<close>

text \<open>A scope read as a filter: its provider, model and the three identifiers. A scope that names \<open>after\<close> or \<open>before\<close>
  (a tag there, a number in a filter) is outside the model.\<close>

definition scope_filter :: "string option dict \<Rightarrow> cost_filter" where
  "scope_filter s = (let g = (\<lambda>k. Option.bind (map_of s k) id) in
     \<lparr> cf_provider = g ''provider'', cf_model = g ''model'', cf_runId = g ''runId'',
       cf_conversationId = g ''conversationId'', cf_sessionId = g ''sessionId'', cf_after = None, cf_before = None \<rparr>)"

definition js_divide :: "rat \<Rightarrow> rat \<Rightarrow> jsnum" where
  "js_divide a b = (if b \<noteq> 0 then Fin (a / b) else if a = 0 then NaN else if a > 0 then PosInf else NegInf)"

definition check_threshold :: "budget \<Rightarrow> rat \<Rightarrow> rat list \<times> cost_event list \<Rightarrow> rat \<Rightarrow> rat list \<times> cost_event list" where
  "check_threshold b spent st threshold =
     (let (triggered, lg) = st in
      if threshold \<in> set triggered then st
      else if spent \<ge> bg_limit b * threshold
      then (triggered @ [threshold],
            lg @ [BudgetWarning (bg_id b) (bg_limit b) spent threshold (js_scale 100 (js_divide spent (bg_limit b)))])
      else st)"

definition check_limit :: "budget \<Rightarrow> rat \<Rightarrow> nat list \<Rightarrow> rat list \<times> cost_event list \<Rightarrow> rat list \<times> cost_event list" where
  "check_limit b spent agents st =
     (let (triggered, lg) = st in
      if spent \<ge> bg_limit b \<and> 1 \<notin> set triggered
      then (triggered @ [1],
            lg @ [BudgetExceeded (bg_id b) (bg_limit b) spent (spent - bg_limit b)]
                @ (if bg_action b = Stop then map AgentStopped agents else []))
      else st)"

definition check_budget :: "cost_entry \<Rightarrow> collector \<Rightarrow> budget \<Rightarrow> collector" where
  "check_budget entry c b =
     (if \<not> matchesScope entry (bg_scope b) then c
      else let spent = su_total (total (Some (scope_filter (bg_scope b))) c) in
        case map_of (cc_triggeredThresholds c) (bg_id b) of
          None \<Rightarrow> c
        | Some triggered \<Rightarrow>
            let (triggered1, lg) = check_limit b spent (cc_watchedAgents c)
                                      (foldl (check_threshold b spent) (triggered, cc_log c) (bg_thresholds b))
            in c\<lparr>cc_triggeredThresholds := AList.update (bg_id b) triggered1 (cc_triggeredThresholds c), cc_log := lg\<rparr>)"

definition checkBudgets :: "cost_entry \<Rightarrow> collector \<Rightarrow> collector" where
  "checkBudgets entry c = foldl (check_budget entry) c (cc_budgets c)"

subsection \<open>Completions and media\<close>

definition noteIfUnpriced :: "cost_entry \<Rightarrow> collector \<Rightarrow> collector" where
  "noteIfUnpriced e c =
     (if cs_source (en_cost e) \<noteq> Unknown then c
      else if model_key e \<in> set (cc_warnedUnpriced c) then c
      else c\<lparr>cc_warnedUnpriced := cc_warnedUnpriced c @ [model_key e],
             cc_log := cc_log c @ [UnpricedModel (en_provider e) (en_model e)]\<rparr>)"

definition noteIfTierUnpriced :: "catalog \<Rightarrow> cost_entry \<Rightarrow> string option \<Rightarrow> collector \<Rightarrow> collector" where
  "noteIfTierUnpriced cat e tier c =
     (case truthy_str tier of
        None \<Rightarrow> c
      | Some t \<Rightarrow>
          if t = ''standard'' \<or> cs_source (en_cost e) \<noteq> Calculated then c
          else (case Option.bind (cat (en_provider e) (en_model e)) mp_tiers of
                  None \<Rightarrow> c
                | Some tiers \<Rightarrow>
                    if map_of tiers t \<noteq> None then c
                    else let key = model_key e @ ''@'' @ t in
                      if key \<in> set (cc_warnedUnpriced c) then c
                      else c\<lparr>cc_warnedUnpriced := cc_warnedUnpriced c @ [key],
                             cc_log := cc_log c @ [UnpricedTier (en_provider e) (en_model e) t (map fst tiers)]\<rparr>))"

record completion_context =
  cx_provider :: string
  cx_model :: string
  cx_usage :: usage
  cx_raw :: "json option"
  cx_estimatedInputTokens :: nat
  cx_requestId :: "string option"
  cx_conversationId :: "string option"

definition truthy_nat :: "nat \<Rightarrow> nat \<Rightarrow> nat" where "truthy_nat a b = (if a = 0 then b else a)"

definition completion_tokens :: "completion_context \<Rightarrow> token_counts" where
  "completion_tokens x = (let u = cx_usage x in
     \<lparr> tk_input = truthy_nat (us_inputTokens u) (cx_estimatedInputTokens x), tk_output = us_outputTokens u,
       tk_cached = us_cachedTokens u, tk_cacheWrite = us_cacheWriteTokens u, tk_reasoning = us_reasoningTokens u,
       tk_audioInput = Some (nullish (us_audioInputTokens u) 0), tk_audioOutput = Some (nullish (us_audioOutputTokens u) 0) \<rparr>)"

definition default_tags :: "collector \<Rightarrow> string option dict" where
  "default_tags c = map (\<lambda>(k, v). (k, Some v)) (cc_defaultTags c)"

definition completion_entry :: "catalog \<Rightarrow> string \<Rightarrow> ms \<Rightarrow> completion_context \<Rightarrow> collector \<Rightarrow> cost_entry" where
  "completion_entry cat uuid now x c =
     (let tokens = completion_tokens x;
          evidence = extractProviderCost (cx_provider x) (cx_raw x)
      in \<lparr> en_id = uuid, en_timestamp = now, en_provider = cx_provider x, en_model = cx_model x, en_tokens = tokens,
           en_cost = calculateCost cat (cx_provider x) (cx_model x) tokens evidence (us_pricingTier (cx_usage x)),
           en_serviceTier = truthy_str (us_serviceTier (cx_usage x)), en_providerEvidence = evidence,
           en_tags = spread (default_tags c)
             [(''provider'', Some (cx_provider x)), (''model'', Some (cx_model x)), (''sessionId'', cc_sessionId c),
              (''runId'', cx_requestId x), (''conversationId'', cx_conversationId x)] \<rparr>)"

definition add_entry :: "cost_entry \<Rightarrow> collector \<Rightarrow> collector" where
  "add_entry e c = c\<lparr>cc_ledger := cc_ledger c @ [e], cc_runningTotal := cc_runningTotal c + cs_total (en_cost e)\<rparr>"

definition emit_entry :: "cost_entry \<Rightarrow> collector \<Rightarrow> collector" where
  "emit_entry e c = c\<lparr>cc_log := cc_log c @ [CostEntryEvent e (cc_runningTotal c)]\<rparr>"

definition handleCompletion :: "catalog \<Rightarrow> string \<Rightarrow> ms \<Rightarrow> completion_context \<Rightarrow> collector \<Rightarrow> collector" where
  "handleCompletion cat uuid now x c =
     (let e = completion_entry cat uuid now x c;
          c1 = noteIfTierUnpriced cat e (us_pricingTier (cx_usage x)) (noteIfUnpriced e (add_entry e c))
      in checkBudgets e (emit_entry e c1))"

record media_context =
  mx_provider :: string
  mx_model :: "string option"
  mx_mediaType :: "media_type option"
  mx_count :: "rat option"
  mx_textInput :: "string option"
  mx_durationSeconds :: "rat option"
  mx_usage :: "usage option"
  mx_resolution :: "string option"
  mx_providerEvidence :: "json dict option"

definition media_tokens :: "usage \<Rightarrow> token_counts" where
  "media_tokens u =
     \<lparr> tk_input = us_inputTokens u, tk_output = us_outputTokens u, tk_cached = us_cachedTokens u,
       tk_cacheWrite = us_cacheWriteTokens u, tk_reasoning = us_reasoningTokens u,
       tk_audioInput = Some (nullish (us_audioInputTokens u) 0), tk_audioOutput = Some (nullish (us_audioOutputTokens u) 0) \<rparr>"

definition media_entry :: "catalog \<Rightarrow> string \<Rightarrow> ms \<Rightarrow> media_type \<Rightarrow> rat \<Rightarrow> media_context \<Rightarrow> collector \<Rightarrow> cost_entry" where
  "media_entry cat uuid now mt cnt x c =
     (let provider = mx_provider x;
          model = nullish (mx_model x) (provider @ ''/'' @ media_name mt);
          tokens = map_option media_tokens (mx_usage x);
          evidence = (case mx_providerEvidence x of None \<Rightarrow> [] | Some ev \<Rightarrow> extractProviderCost provider (Some (JObj ev)))
      in \<lparr> en_id = uuid, en_timestamp = now, en_provider = provider, en_model = model, en_tokens = nullish tokens no_tokens,
           en_cost = computeCost cat
             \<lparr> ci_provider = provider, ci_model = nullish (mx_model x) (media_name mt), ci_tokens = tokens,
               ci_media = Some \<lparr> mu_type = mt, mu_count = Some cnt, mu_durationSeconds = mx_durationSeconds x,
                 mu_textChars = map_option length (mx_textInput x), mu_resolution = mx_resolution x \<rparr>,
               ci_providerEvidence = Some evidence, ci_tier = None \<rparr>,
           en_serviceTier = None, en_providerEvidence = evidence,
           en_tags = spread (default_tags c)
             [(''provider'', Some provider), (''model'', Some model), (''sessionId'', cc_sessionId c),
              (''type'', Some ''media''), (''mediaType'', Some (media_name mt))] \<rparr>)"

definition handleMediaGenerated :: "catalog \<Rightarrow> string \<Rightarrow> ms \<Rightarrow> media_context \<Rightarrow> collector \<Rightarrow> collector" where
  "handleMediaGenerated cat uuid now x c =
     (case (mx_mediaType x, mx_count x) of
        (Some mt, Some cnt) \<Rightarrow>
          if cnt = 0 then c
          else (let e = media_entry cat uuid now mt cnt x c
                in checkBudgets e (emit_entry e (noteIfUnpriced e (add_entry e c))))
      | _ \<Rightarrow> c)"

section \<open>Runs\<close>

text \<open>Everything that can happen to a collector; an event of the hook bus reaches it while it is subscribed.\<close>

datatype cost_op =
    AddBudget budget
  | RemoveBudget string
  | WatchAgent nat
  | SetTag string string
  | Import "cost_entry list"
  | Destroy
  | OnCompletion string ms completion_context
  | OnMedia string ms media_context

fun run_op :: "catalog \<Rightarrow> cost_op \<Rightarrow> collector \<Rightarrow> collector" where
  "run_op cat (AddBudget b) c = addBudget b c"
| "run_op cat (RemoveBudget i) c = removeBudget i c"
| "run_op cat (WatchAgent a) c = watchAgent a c"
| "run_op cat (SetTag k v) c = setTag k v c"
| "run_op cat (Import es) c = import_ledger es c"
| "run_op cat Destroy c = destroy c"
| "run_op cat (OnCompletion uuid now x) c = (if cc_subscribed c then handleCompletion cat uuid now x c else c)"
| "run_op cat (OnMedia uuid now x) c = (if cc_subscribed c then handleMediaGenerated cat uuid now x c else c)"

definition run_ops :: "catalog \<Rightarrow> cost_op list \<Rightarrow> collector \<Rightarrow> collector" where
  "run_ops cat ops c = foldl (\<lambda>c op. run_op cat op c) c ops"

end
