(* ===== verification/CostTheorems.thy ===== *)
theory CostTheorems
  imports CostCollector
begin

text \<open>
  What the cost collector promises: its running total and its summaries agree with the ledger, grouping partitions the
  ledger, a budget reports each threshold once, and pricing is additive in the tokens.
\<close>

section \<open>Sums\<close>

definition ledger_sum :: "cost_entry list \<Rightarrow> rat" where
  "ledger_sum es = sum_list (map (\<lambda>e. cs_total (en_cost e)) es)"

lemma ledger_sum_simps [simp]:
  "ledger_sum [] = 0" "ledger_sum (e # es) = cs_total (en_cost e) + ledger_sum es"
  "ledger_sum (es @ fs) = ledger_sum es + ledger_sum fs"
  by (simp_all add: ledger_sum_def)

lemma foldl_total: "foldl (\<lambda>t e. t + cs_total (en_cost e)) a es = a + ledger_sum es"
  by (induction es arbitrary: a) simp_all

lemma su_total_fold: "su_total (foldl summarize_entry s es) = su_total s + ledger_sum es"
  by (induction es arbitrary: s) (simp_all add: summarize_entry_def Let_def)

lemma su_total_summarize [simp]: "su_total (summarize es) = ledger_sum es"
  by (simp add: summarize_def su_total_fold)

section \<open>What a budget check changes\<close>

fun is_budget_event :: "cost_event \<Rightarrow> bool" where
  "is_budget_event (BudgetWarning _ _ _ _ _) = True"
| "is_budget_event (BudgetExceeded _ _ _ _) = True"
| "is_budget_event (AgentStopped _) = True"
| "is_budget_event _ = False"

lemma thresholds_log:
  "\<exists>ws. snd (foldl (check_threshold b spent) st ts) = snd st @ ws \<and> list_all is_budget_event ws"
proof (induction ts arbitrary: st)
  case Nil
  then show ?case by simp
next
  case (Cons t ts)
  have "\<exists>ws. snd (check_threshold b spent st t) = snd st @ ws \<and> list_all is_budget_event ws"
    by (cases st) (simp add: check_threshold_def)
  then show ?case using Cons[of "check_threshold b spent st t"] by fastforce
qed

lemma limit_log: "\<exists>ws. snd (check_limit b spent ags st) = snd st @ ws \<and> list_all is_budget_event ws"
  by (cases st) (auto simp: check_limit_def list_all_iff)

lemma check_budget_frame [simp]:
  "cc_ledger (check_budget e c b) = cc_ledger c"
  "cc_runningTotal (check_budget e c b) = cc_runningTotal c"
  "cc_budgets (check_budget e c b) = cc_budgets c"
  "cc_watchedAgents (check_budget e c b) = cc_watchedAgents c"
  "cc_warnedUnpriced (check_budget e c b) = cc_warnedUnpriced c"
  "cc_sessionId (check_budget e c b) = cc_sessionId c"
  "cc_defaultTags (check_budget e c b) = cc_defaultTags c"
  "cc_subscribed (check_budget e c b) = cc_subscribed c"
  by (simp_all add: check_budget_def Let_def split: option.splits prod.splits)

lemma check_budget_log: "\<exists>ws. cc_log (check_budget e c b) = cc_log c @ ws \<and> list_all is_budget_event ws"
proof (cases "matchesScope e (bg_scope b)")
  case False
  then show ?thesis by (simp add: check_budget_def)
next
  case True
  let ?spent = "su_total (total (Some (scope_filter (bg_scope b))) c)"
  show ?thesis
  proof (cases "map_of (cc_triggeredThresholds c) (bg_id b)")
    case None
    with True show ?thesis by (simp add: check_budget_def)
  next
    case (Some tr)
    let ?st = "foldl (check_threshold b ?spent) (tr, cc_log c) (bg_thresholds b)"
    obtain w1 where "snd ?st = cc_log c @ w1" "list_all is_budget_event w1"
      using thresholds_log[of b ?spent "(tr, cc_log c)" "bg_thresholds b"] by auto
    moreover obtain w2 where "snd (check_limit b ?spent (cc_watchedAgents c) ?st) = snd ?st @ w2" "list_all is_budget_event w2"
      using limit_log[of b ?spent "cc_watchedAgents c" ?st] by auto
    ultimately show ?thesis using True Some
      by (auto simp: check_budget_def Let_def case_prod_beta)
  qed
qed

lemma checkBudgets_frame [simp]:
  "cc_ledger (foldl (check_budget e) c bs) = cc_ledger c"
  "cc_runningTotal (foldl (check_budget e) c bs) = cc_runningTotal c"
  "cc_budgets (foldl (check_budget e) c bs) = cc_budgets c"
  "cc_subscribed (foldl (check_budget e) c bs) = cc_subscribed c"
  by (induction bs arbitrary: c) simp_all

lemma checkBudgets_log:
  "\<exists>ws. cc_log (foldl (check_budget e) c bs) = cc_log c @ ws \<and> list_all is_budget_event ws"
proof (induction bs arbitrary: c)
  case Nil
  then show ?case by simp
next
  case (Cons b bs)
  obtain w1 where "cc_log (check_budget e c b) = cc_log c @ w1" "list_all is_budget_event w1"
    using check_budget_log by blast
  with Cons[of "check_budget e c b"] show ?case by fastforce
qed

section \<open>The books balance\<close>

text \<open>The state and the log agree with the ledger.\<close>

definition books :: "collector \<Rightarrow> bool" where
  "books c \<longleftrightarrow> cc_runningTotal c = ledger_sum (cc_ledger c) \<and>
     (\<forall>e t. CostEntryEvent e t \<in> set (cc_log c) \<longrightarrow>
        (\<exists>before after. cc_ledger c = before @ e # after \<and> t = ledger_sum (before @ [e])))"

lemma booksI:
  assumes "cc_runningTotal c = ledger_sum (cc_ledger c)"
    and "\<And>e t. CostEntryEvent e t \<in> set (cc_log c) \<Longrightarrow>
         \<exists>before after. cc_ledger c = before @ e # after \<and> t = ledger_sum (before @ [e])"
  shows "books c"
  using assms unfolding books_def by blast

lemma books_grow:
  assumes "books c" "cc_ledger c1 = cc_ledger c @ es" "cc_runningTotal c1 = cc_runningTotal c + ledger_sum es"
    and "\<And>e t. CostEntryEvent e t \<in> set (cc_log c1) \<Longrightarrow>
         CostEntryEvent e t \<in> set (cc_log c) \<or> (es = [e] \<and> t = cc_runningTotal c1)"
  shows "books c1"
proof (rule booksI)
  show "cc_runningTotal c1 = ledger_sum (cc_ledger c1)" using assms(1-3) by (simp add: books_def)
  fix e t assume "CostEntryEvent e t \<in> set (cc_log c1)"
  then consider "CostEntryEvent e t \<in> set (cc_log c)" | "es = [e]" "t = cc_runningTotal c1" using assms(4) by blast
  then show "\<exists>before after. cc_ledger c1 = before @ e # after \<and> t = ledger_sum (before @ [e])"
  proof cases
    case 1
    then obtain bf af where "cc_ledger c = bf @ e # af" "t = ledger_sum (bf @ [e])" using assms(1) unfolding books_def by blast
    then show ?thesis using assms(2) by (metis append.assoc append_Cons)
  next
    case 2
    then show ?thesis using assms(1-3) by (intro exI[of _ "cc_ledger c"] exI[of _ "[]"]) (simp add: books_def)
  qed
qed

lemma note_frame [simp]:
  "cc_ledger (noteIfUnpriced e c) = cc_ledger c" "cc_runningTotal (noteIfUnpriced e c) = cc_runningTotal c"
  "cc_budgets (noteIfUnpriced e c) = cc_budgets c"
  "cc_triggeredThresholds (noteIfUnpriced e c) = cc_triggeredThresholds c"
  "cc_ledger (noteIfTierUnpriced cat e t c) = cc_ledger c" "cc_runningTotal (noteIfTierUnpriced cat e t c) = cc_runningTotal c"
  "cc_budgets (noteIfTierUnpriced cat e t c) = cc_budgets c"
  "cc_triggeredThresholds (noteIfTierUnpriced cat e t c) = cc_triggeredThresholds c"
  by (simp_all add: noteIfUnpriced_def noteIfTierUnpriced_def Let_def split: option.splits)

lemma note_log:
  "CostEntryEvent e' r \<in> set (cc_log (noteIfUnpriced e c)) \<longleftrightarrow> CostEntryEvent e' r \<in> set (cc_log c)"
  "CostEntryEvent e' r \<in> set (cc_log (noteIfTierUnpriced cat e t c)) \<longleftrightarrow> CostEntryEvent e' r \<in> set (cc_log c)"
  by (simp_all add: noteIfUnpriced_def noteIfTierUnpriced_def Let_def split: option.splits)

lemma checkBudgets_entry_event:
  "CostEntryEvent e' r \<in> set (cc_log (checkBudgets e c)) \<longleftrightarrow> CostEntryEvent e' r \<in> set (cc_log c)"
proof -
  obtain ws where "cc_log (checkBudgets e c) = cc_log c @ ws" "list_all is_budget_event ws"
    using checkBudgets_log unfolding checkBudgets_def by blast
  then show ?thesis by (auto simp: list_all_iff)
qed

lemma books_record:
  assumes "books c" "cc_ledger c1 = cc_ledger c @ [e]" "cc_runningTotal c1 = cc_runningTotal c + cs_total (en_cost e)"
    and "\<And>e' r. CostEntryEvent e' r \<in> set (cc_log c1) \<Longrightarrow> CostEntryEvent e' r \<in> set (cc_log c)"
  shows "books (checkBudgets e (emit_entry e c1))"
  by (rule books_grow[OF assms(1), where es = "[e]"])
     (use assms(2-4) in \<open>auto simp: checkBudgets_entry_event emit_entry_def checkBudgets_def[symmetric]\<close>,
      simp_all add: checkBudgets_def emit_entry_def)

lemma books_handleCompletion: "books c \<Longrightarrow> books (handleCompletion cat uuid now x c)"
  unfolding handleCompletion_def Let_def
  by (rule books_record[of c]) (simp_all add: note_log, simp_all add: add_entry_def)

lemma books_handleMedia: "books c \<Longrightarrow> books (handleMediaGenerated cat uuid now x c)"
  unfolding handleMediaGenerated_def Let_def
  by (auto split: option.splits intro!: books_record[of c] simp: note_log) (simp_all add: add_entry_def)

lemma books_same: "books c \<Longrightarrow> cc_ledger c1 = cc_ledger c \<Longrightarrow> cc_runningTotal c1 = cc_runningTotal c \<Longrightarrow>
  cc_log c1 = cc_log c \<Longrightarrow> books c1"
  by (simp add: books_def)

lemma books_step: "books c \<Longrightarrow> books (run_op cat op c)"
proof (cases op)
  case (Import es)
  moreover assume "books c"
  ultimately show ?thesis
    by simp (rule books_grow[of c _ es], simp_all add: import_ledger_def foldl_total)
qed (auto simp: books_handleCompletion books_handleMedia addBudget_def removeBudget_def watchAgent_def setTag_def
       destroy_def elim!: books_same)

lemma books_run: "books c \<Longrightarrow> books (run_ops cat ops c)"
  unfolding run_ops_def by (induction ops arbitrary: c) (simp_all add: books_step)

lemma books_new: "books (new_collector sid tags)"
  by (simp add: books_def new_collector_def)

text \<open>C39: Whatever happens to a collector (completions, media, imports, changes of budgets), its running total is the sum of
  the ledger and the total a summary reports, and every \<open>onCostEntry\<close> event carried the sum of the ledger up to its
  entry.\<close>
theorem books_balance:
  fixes ops :: "cost_op list" and cat :: catalog and sid :: "string option" and tags :: "string dict option"
  defines "c \<equiv> run_ops cat ops (new_collector sid tags)"
  shows "cc_runningTotal c = su_total (total None c)
    \<and> {(e, t). CostEntryEvent e t \<in> set (cc_log c)}
        \<subseteq> {(e, t). \<exists>before after. cc_ledger c = before @ e # after \<and> t = su_total (summarize (before @ [e]))}"
proof -
  have "books c" unfolding c_def by (rule books_run[OF books_new])
  then show ?thesis by (auto simp: books_def total_def filterEntries_def)
qed

section \<open>A threshold fires once\<close>

fun reports :: "string \<Rightarrow> rat \<Rightarrow> cost_event \<Rightarrow> bool" where
  "reports i t (BudgetWarning j _ _ u _) = (i = j \<and> t = u)"
| "reports i t (BudgetExceeded j _ _ _) = (i = j \<and> t = 1)"
| "reports i t _ = False"

definition reported :: "string \<Rightarrow> rat \<Rightarrow> cost_event list \<Rightarrow> nat" where
  "reported i t evs = length (filter (reports i t) evs)"

lemma reported_simps [simp]: "reported i t [] = 0"
  "reported i t (x # xs) = (if reports i t x then 1 else 0) + reported i t xs"
  "reported i t (xs @ ys) = reported i t xs + reported i t ys"
  "reported i t (map AgentStopped ags) = 0"
  by (simp_all add: reported_def filter_empty_conv)

definition armed :: "rat \<Rightarrow> rat list \<Rightarrow> nat" where "armed t triggered = (if t \<in> set triggered then 0 else 1)"

definition armed_in :: "string \<Rightarrow> rat \<Rightarrow> collector \<Rightarrow> nat" where
  "armed_in i t c = (case map_of (cc_triggeredThresholds c) i of None \<Rightarrow> 0 | Some ts \<Rightarrow> armed t ts)"

lemma check_threshold_armed:
  "reported i t (snd (check_threshold b sp st th)) + (if bg_id b = i then armed t (fst (check_threshold b sp st th)) else 0)
   = reported i t (snd st) + (if bg_id b = i then armed t (fst st) else 0)"
  by (cases st) (auto simp: check_threshold_def armed_def)

lemma thresholds_armed:
  "reported i t (snd (foldl (check_threshold b sp) st ths))
     + (if bg_id b = i then armed t (fst (foldl (check_threshold b sp) st ths)) else 0)
   = reported i t (snd st) + (if bg_id b = i then armed t (fst st) else 0)"
  by (induction ths arbitrary: st) (simp_all only: foldl.simps check_threshold_armed)

lemma check_limit_armed:
  "reported i t (snd (check_limit b sp ags st)) + (if bg_id b = i then armed t (fst (check_limit b sp ags st)) else 0)
   = reported i t (snd st) + (if bg_id b = i then armed t (fst st) else 0)"
  by (cases st) (auto simp: check_limit_def armed_def)

lemma check_budget_armed:
  "reported i t (cc_log (check_budget e c b)) + armed_in i t (check_budget e c b) = reported i t (cc_log c) + armed_in i t c"
proof (cases "matchesScope e (bg_scope b)")
  case False
  then show ?thesis by (simp add: check_budget_def)
next
  case True
  let ?spent = "su_total (total (Some (scope_filter (bg_scope b))) c)"
  show ?thesis
  proof (cases "map_of (cc_triggeredThresholds c) (bg_id b)")
    case None
    with True show ?thesis by (simp add: check_budget_def)
  next
    case (Some tr)
    let ?st = "foldl (check_threshold b ?spent) (tr, cc_log c) (bg_thresholds b)"
    let ?r = "check_limit b ?spent (cc_watchedAgents c) ?st"
    have eq: "check_budget e c b = c\<lparr>cc_triggeredThresholds := AList.update (bg_id b) (fst ?r) (cc_triggeredThresholds c),
                cc_log := snd ?r\<rparr>"
      using True Some by (simp add: check_budget_def Let_def case_prod_beta)
    show ?thesis
      using check_limit_armed[of i t b ?spent "cc_watchedAgents c" ?st] thresholds_armed[of i t b ?spent "(tr, cc_log c)" "bg_thresholds b"] Some
      by (auto simp: eq armed_in_def update_conv')
  qed
qed

lemma checkBudgets_armed:
  "reported i t (cc_log (checkBudgets e c)) + armed_in i t (checkBudgets e c) = reported i t (cc_log c) + armed_in i t c"
proof -
  have "reported i t (cc_log (foldl (check_budget e) c bs)) + armed_in i t (foldl (check_budget e) c bs)
        = reported i t (cc_log c) + armed_in i t c" for bs
    by (induction bs arbitrary: c) (simp_all add: check_budget_armed)
  then show ?thesis by (simp add: checkBudgets_def)
qed

lemma note_armed:
  "reported i t (cc_log (noteIfUnpriced e c)) = reported i t (cc_log c)"
  "reported i t (cc_log (noteIfTierUnpriced cat e tier c)) = reported i t (cc_log c)"
  "armed_in i t (noteIfUnpriced e c) = armed_in i t c"
  "armed_in i t (noteIfTierUnpriced cat e tier c) = armed_in i t c"
  by (simp_all add: noteIfUnpriced_def noteIfTierUnpriced_def armed_in_def Let_def split: option.splits)

lemma record_armed:
  "reported i t (cc_log (emit_entry e c)) = reported i t (cc_log c)" "armed_in i t (emit_entry e c) = armed_in i t c"
  "reported i t (cc_log (add_entry e c)) = reported i t (cc_log c)" "armed_in i t (add_entry e c) = armed_in i t c"
  by (simp_all add: emit_entry_def add_entry_def armed_in_def)

fun adds_budget :: "string \<Rightarrow> cost_op \<Rightarrow> bool" where
  "adds_budget i (AddBudget b) = (bg_id b = i)"
| "adds_budget i _ = False"

lemma run_op_armed:
  "\<not> adds_budget i op \<Longrightarrow>
   reported i t (cc_log (run_op cat op c)) + armed_in i t (run_op cat op c) \<le> reported i t (cc_log c) + armed_in i t c"
proof (cases op)
  case (AddBudget b)
  moreover assume "\<not> adds_budget i op"
  ultimately show ?thesis by (simp add: addBudget_def armed_in_def update_conv')
next
  case (RemoveBudget j)
  then show ?thesis by (cases "i = j") (simp_all add: removeBudget_def armed_in_def delete_conv')
next
  case (OnCompletion uuid now x)
  then show ?thesis by (simp add: handleCompletion_def Let_def checkBudgets_armed note_armed record_armed)
next
  case (OnMedia uuid now x)
  then show ?thesis
    by (simp add: handleMediaGenerated_def Let_def checkBudgets_armed note_armed record_armed split: option.splits)
qed (simp_all add: watchAgent_def setTag_def destroy_def import_ledger_def armed_in_def)

lemma run_ops_armed:
  "list_all (\<lambda>op. \<not> adds_budget i op) ops \<Longrightarrow>
   reported i t (cc_log (run_ops cat ops c)) + armed_in i t (run_ops cat ops c) \<le> reported i t (cc_log c) + armed_in i t c"
proof (induction ops arbitrary: c)
  case Nil
  then show ?case by (simp add: run_ops_def)
next
  case (Cons op ops)
  then have "reported i t (cc_log (run_ops cat ops (run_op cat op c))) + armed_in i t (run_ops cat ops (run_op cat op c))
      \<le> reported i t (cc_log (run_op cat op c)) + armed_in i t (run_op cat op c)" by simp
  also have "\<dots> \<le> reported i t (cc_log c) + armed_in i t c" using Cons.prems by (simp add: run_op_armed)
  finally show ?case by (simp add: run_ops_def)
qed

text \<open>From the moment a budget is added, whatever follows (more completions, other budgets, its removal), each of its
  thresholds is reported at most once, and the report that the limit is exceeded is at most one too and shares that slot
  with a warning at threshold 1.\<close>
theorem budget_events_fire_once:
  assumes "list_all (\<lambda>op. \<not> adds_budget (bg_id b) op) ops"
  shows "reported (bg_id b) t (cc_log (run_ops cat (AddBudget b # ops) c)) \<le> reported (bg_id b) t (cc_log c) + 1"
proof -
  have "armed_in (bg_id b) t (addBudget b c) = 1" by (simp add: armed_in_def addBudget_def armed_def update_conv')
  then show ?thesis
    using run_ops_armed[OF assms, of t cat "addBudget b c"] by (simp add: run_ops_def addBudget_def)
qed

section \<open>A budget with a threshold of 1\<close>

fun is_warning :: "cost_event \<Rightarrow> bool" where
  "is_warning (BudgetWarning _ _ _ _ _) = True"
| "is_warning _ = False"

lemma thresholds_warnings:
  "\<exists>ws. snd (foldl (check_threshold b spent) st ts) = snd st @ ws \<and> list_all is_warning ws"
proof (induction ts arbitrary: st)
  case Nil
  then show ?case by simp
next
  case (Cons t ts)
  have "\<exists>ws. snd (check_threshold b spent st t) = snd st @ ws \<and> list_all is_warning ws"
    by (cases st) (simp add: check_threshold_def)
  then show ?case using Cons[of "check_threshold b spent st t"] by fastforce
qed

lemma check_threshold_keeps: "set (fst st) \<subseteq> set (fst (check_threshold b sp st th))"
  by (cases st) (auto simp: check_threshold_def)

lemma thresholds_keep: "set (fst st) \<subseteq> set (fst (foldl (check_threshold b sp) st ths))"
proof (induction ths arbitrary: st)
  case Nil
  then show ?case by simp
next
  case (Cons th ths)
  show ?case using subset_trans[OF check_threshold_keeps[of st b sp th] Cons.IH] by simp
qed

lemma thresholds_trigger:
  "th \<in> set ths \<Longrightarrow> sp \<ge> bg_limit b * th \<Longrightarrow> th \<in> set (fst (foldl (check_threshold b sp) st ths))"
proof (induction ths arbitrary: st)
  case Nil
  then show ?case by simp
next
  case (Cons a ths)
  show ?case
  proof (cases "a = th")
    case True
    then have "th \<in> set (fst (check_threshold b sp st a))" using Cons.prems(2) by (cases st) (auto simp: check_threshold_def)
    then show ?thesis using thresholds_keep[of "check_threshold b sp st a" b sp ths] by auto
  qed (use Cons in auto)
qed

text \<open>A budget whose thresholds contain 1 never reports that its limit is exceeded and never stops an agent: the warning
  at threshold 1 marks the very value the limit check reads.\<close>
theorem threshold_one_disables_stop:
  assumes "1 \<in> set (bg_thresholds b)"
  shows "\<exists>ws. cc_log (check_budget e c b) = cc_log c @ ws \<and> list_all is_warning ws"
proof (cases "matchesScope e (bg_scope b)")
  case False
  then show ?thesis by (simp add: check_budget_def)
next
  case True
  let ?spent = "su_total (total (Some (scope_filter (bg_scope b))) c)"
  show ?thesis
  proof (cases "map_of (cc_triggeredThresholds c) (bg_id b)")
    case None
    with True show ?thesis by (simp add: check_budget_def)
  next
    case (Some tr)
    let ?st = "foldl (check_threshold b ?spent) (tr, cc_log c) (bg_thresholds b)"
    have "check_limit b ?spent (cc_watchedAgents c) ?st = ?st"
      using thresholds_trigger[OF assms, of b ?spent "(tr, cc_log c)"] by (auto simp: check_limit_def case_prod_beta)
    then show ?thesis using True Some thresholds_warnings[of b ?spent "(tr, cc_log c)" "bg_thresholds b"]
      by (auto simp: check_budget_def Let_def case_prod_beta)
  qed
qed

section \<open>Grouping partitions the ledger\<close>

lemma sum_update_alist:
  fixes f :: "'a \<Rightarrow> rat"
  shows "sum_list (map (f \<circ> snd) (AList.update k v m)) =
     sum_list (map (f \<circ> snd) m) - (case map_of m k of None \<Rightarrow> 0 | Some w \<Rightarrow> f w) + f v"
  by (induction m) (auto split: option.splits)

lemma add_to_groups_sum:
  "add_to_groups key es groups = Some gs \<Longrightarrow>
   sum_list (map (ledger_sum \<circ> snd) gs) = sum_list (map (ledger_sum \<circ> snd) groups) + ledger_sum es"
  by (induction key es groups rule: add_to_groups.induct)
     (auto simp: sum_update_alist simp del: AList.update.simps split: option.splits if_splits)

lemma add_to_groups_get:
  "add_to_groups key es groups = Some gs \<Longrightarrow>
   map_of gs k = (let new = filter (\<lambda>e. key e = k) es in
     case map_of groups k of None \<Rightarrow> if new = [] then None else Some new | Some g \<Rightarrow> Some (g @ new))"
  by (induction key es groups rule: add_to_groups.induct)
     (auto simp: update_conv' Let_def split: option.splits if_splits)

lemma add_to_groups_distinct:
  "add_to_groups key es groups = Some gs \<Longrightarrow> distinct (map fst groups) \<Longrightarrow> distinct (map fst gs)"
  by (induction key es groups rule: add_to_groups.induct)
     (auto simp: distinct_update split: option.splits if_splits)

lemma add_to_groups_None:
  "add_to_groups key es groups = None \<Longrightarrow> \<exists>e. e \<in> set es \<and> key e \<in> set inherited_keys"
  by (induction key es groups rule: add_to_groups.induct) (auto split: option.splits if_splits)

lemma add_to_groups_inherited:
  "e \<in> set es \<Longrightarrow> key e \<in> set inherited_keys \<Longrightarrow> dom (map_of groups) \<inter> set inherited_keys = {} \<Longrightarrow>
   add_to_groups key es groups = None"
proof (induction key es groups rule: add_to_groups.induct)
  case (1 key groups)
  then show ?case by simp
next
  case (2 key a es groups)
  show ?case
  proof (cases "key a \<in> set inherited_keys")
    case True
    with 2(5) have "map_of groups (key a) = None" by (auto simp: domIff)
    with True show ?thesis by simp
  next
    case False
    with 2(3,4) have "e \<in> set es" by auto
    moreover have "dom (map_of (AList.update (key a) v groups)) \<inter> set inherited_keys = {}" for v
      using False 2(5) by (auto simp: update_conv')
    ultimately show ?thesis using False 2(1,2,4) by (cases "map_of groups (key a)") simp_all
  qed
qed

lemma summarize_groups_correct:
  "case summarize_groups key es of
     None \<Rightarrow> \<exists>e. e \<in> set es \<and> key e \<in> set inherited_keys
   | Some gs \<Rightarrow> distinct (map fst gs)
       \<and> (\<forall>k. map_of gs k = (let g = filter (\<lambda>e. key e = k) es in if g = [] then None else Some (summarize g)))
       \<and> sum_list (map (su_total \<circ> snd) gs) = ledger_sum es"
proof (cases "add_to_groups key es []")
  case None
  then show ?thesis using add_to_groups_None by (auto simp: summarize_groups_def)
next
  case (Some gs)
  define ss where "ss = map (\<lambda>(k, g). (k, summarize g)) gs"
  have "map_of ss k = map_option summarize (map_of gs k)" for k by (simp add: ss_def map_of_map)
  moreover have "map (su_total \<circ> snd) ss = map (ledger_sum \<circ> snd) gs" "map fst ss = map fst gs"
    by (auto simp: ss_def)
  moreover have "summarize_groups key es = Some ss" by (simp add: summarize_groups_def Some ss_def)
  ultimately show ?thesis
    using add_to_groups_get[OF Some] add_to_groups_sum[OF Some] add_to_groups_distinct[OF Some] by (simp add: Let_def)
qed

text \<open>\<open>byTag\<close> partitions the entries a filter selects: one summary per tag value, of exactly the entries with that
  value, and the group totals add up to the total of the filter. It fails only when a value is the name of a property
  that every object inherits.\<close>
theorem groups_partition:
  fixes c :: collector and flt :: "cost_filter option" and name :: string
  defines "es \<equiv> filterEntries flt c" and "key \<equiv> (\<lambda>e. nullish (tag_of e name) ''(none)'')"
  shows "case byTag name flt c of
     None \<Rightarrow> \<exists>e. e \<in> set es \<and> key e \<in> set inherited_keys
   | Some gs \<Rightarrow> distinct (map fst gs)
       \<and> (\<forall>k. map_of gs k = (let g = filter (\<lambda>e. key e = k) es in if g = [] then None else Some (summarize g)))
       \<and> sum_list (map (su_total \<circ> snd) gs) = su_total (total flt c)"
proof -
  have "su_total (total flt c) = ledger_sum es" by (simp add: total_def es_def)
  moreover have "byTag name flt c = summarize_groups key es" by (simp add: byTag_def key_def es_def)
  ultimately show ?thesis using summarize_groups_correct[where key = key and es = es] by (simp only:)
qed

text \<open>A tag value such as \<open>constructor\<close> makes \<open>byTag\<close> throw.\<close>
lemma inherited_tag_throws:
  "e \<in> set (cc_ledger c) \<Longrightarrow> tag_of e name = Some v \<Longrightarrow> v \<in> set inherited_keys \<Longrightarrow> byTag name None c = None"
  by (simp add: byTag_def filterEntries_def summarize_groups_def add_to_groups_inherited)

section \<open>Scopes\<close>

definition filter_keys :: "string list" where
  "filter_keys = [''provider'', ''model'', ''runId'', ''conversationId'', ''sessionId'']"

lemma matchesScope_iff:
  "distinct (map fst s) \<Longrightarrow> matchesScope e s \<longleftrightarrow> (\<forall>k v. map_of s k = Some (Some v) \<longrightarrow> tag_of e k = Some v)"
  by (fastforce simp: matchesScope_def list_all_iff map_of_eq_Some_iff split: option.splits)

lemma text_filter_scope:
  "(\<forall>v. map_of s k \<noteq> Some (Some v) \<or> v \<noteq> []) \<Longrightarrow>
   text_filter (Option.bind (map_of s k) id) got \<longleftrightarrow> (\<forall>v. map_of s k = Some (Some v) \<longrightarrow> got = Some v)"
  by (auto simp: text_filter_def truthy_str_def split: option.splits) (auto simp: Option.bind_eq_Some_conv)

lemma scope_is_filter:
  assumes "distinct (map fst s)" "set (map fst s) \<subseteq> set filter_keys" "\<And>k. map_of s k \<noteq> Some (Some [])"
    and "tag_of e ''provider'' = Some (en_provider e)" "tag_of e ''model'' = Some (en_model e)"
  shows "matchesScope e s = applyFilter (scope_filter s) e"
proof -
  have "(\<forall>k v. map_of s k = Some (Some v) \<longrightarrow> tag_of e k = Some v) \<longleftrightarrow>
        (\<forall>k \<in> set filter_keys. \<forall>v. map_of s k = Some (Some v) \<longrightarrow> tag_of e k = Some v)"
    using assms(2) by (metis domI dom_map_of_conv_image_fst list.set_map subsetD)
  moreover have tf: "text_filter (Option.bind (map_of s k) id) got \<longleftrightarrow> (\<forall>v. map_of s k = Some (Some v) \<longrightarrow> got = Some v)" for k got
    using assms(3) by (intro text_filter_scope) metis
  ultimately show ?thesis
    by (simp add: matchesScope_iff[OF assms(1)] applyFilter_def scope_filter_def Let_def tf filter_keys_def assms(4,5))
qed

lemma completion_tags:
  "tag_of (completion_entry cat uuid now x c) ''provider'' = Some (en_provider (completion_entry cat uuid now x c))"
  "tag_of (completion_entry cat uuid now x c) ''model'' = Some (en_model (completion_entry cat uuid now x c))"
  by (simp_all add: completion_entry_def Let_def tag_of_def map_of_spread)

text \<open>For the entry of a completion, a budget scope over the provider, the model and the three identifiers selects what
  the cost filter of the same keys selects: such a budget spends exactly the entries in its scope.\<close>
theorem named_scope_is_filter:
  assumes "distinct (map fst s)" "set (map fst s) \<subseteq> set filter_keys" "\<And>k. map_of s k \<noteq> Some (Some [])"
  shows "matchesScope (completion_entry cat uuid now x c) s = applyFilter (scope_filter s) (completion_entry cat uuid now x c)"
  by (rule scope_is_filter[OF assms completion_tags])

text \<open>A scope over other tags does not filter the sum: the budget spends the whole ledger.\<close>
lemma custom_scope_counts_everything:
  assumes "set (map fst s) \<inter> set filter_keys = {}"
  shows "total (Some (scope_filter s)) c = total None c"
proof -
  have "map_of s k = None" if "k \<in> set filter_keys" for k using assms that by (auto simp: map_of_eq_None_iff)
  then show ?thesis
    by (simp add: total_def filterEntries_def scope_filter_def Let_def applyFilter_def[abs_def] text_filter_def truthy_str_def filter_keys_def)
qed

section \<open>Pricing\<close>

definition add_tokens :: "token_counts \<Rightarrow> token_counts \<Rightarrow> token_counts" where
  "add_tokens a b = \<lparr> tk_input = tk_input a + tk_input b, tk_output = tk_output a + tk_output b,
     tk_cached = tk_cached a + tk_cached b, tk_cacheWrite = tk_cacheWrite a + tk_cacheWrite b,
     tk_reasoning = tk_reasoning a + tk_reasoning b,
     tk_audioInput = Some (nullish (tk_audioInput a) 0 + nullish (tk_audioInput b) 0),
     tk_audioOutput = Some (nullish (tk_audioOutput a) 0 + nullish (tk_audioOutput b) 0) \<rparr>"

lemma per_million_add [simp]: "per_million (m + n) = per_million m + per_million n"
  by (simp add: per_million_def add_divide_distrib)

text \<open>Pricing is additive: the cost of two token counts together is the sum of their costs, at any model and tier, so
  pricing a summary of tokens and summing priced entries agree. Only a total the provider reports is not.\<close>
theorem pricing_additive:
  assumes "getProviderTotal p ev = None"
  shows "cs_total (calculateCost cat p m (add_tokens a b) ev tier)
       = cs_total (calculateCost cat p m a ev tier) + cs_total (calculateCost cat p m b ev tier)"
  using assms by (auto simp: calculateCost_def Let_def add_tokens_def zeroCost_def algebra_simps split: option.splits)

text \<open>Media whose price is found under the media type, with token rates, is not priced when tokens are reported: the token
  calculation looks the model up again.\<close>
lemma media_fallback_prices_nothing:
  assumes "cat p m = None" "cat p (media_name (mu_type md)) = Some b" "mp_inputPerMTok b \<noteq> None"
  shows "computeCost cat \<lparr> ci_provider = p, ci_model = m, ci_tokens = Some tk, ci_media = Some md,
           ci_providerEvidence = None, ci_tier = tier \<rparr> = zeroCost 0 Unknown"
  using assms by (auto simp: computeCost_def calculateCost_def getProviderTotal_def Let_def)

section \<open>Concrete runs\<close>

definition sample_entry :: cost_entry where
  "sample_entry = \<lparr> en_id = ''e1'', en_timestamp = 1, en_provider = ''xai'', en_model = ''m'', en_tokens = no_tokens,
     en_cost = zeroCost 5 Provider, en_serviceTier = None, en_providerEvidence = [], en_tags = [(''team'', Some ''a'')] \<rparr>"

definition sample_budget :: budget where
  "sample_budget = \<lparr> bg_id = ''b'', bg_limit = 4, bg_scope = [], bg_thresholds = [1 / 2, 1], bg_action = Stop \<rparr>"

definition sample_completion :: completion_context where
  "sample_completion = \<lparr> cx_provider = ''xai'', cx_model = ''m'', cx_usage = emptyUsage, cx_raw = None,
     cx_estimatedInputTokens = 2000000, cx_requestId = Some ''r1'', cx_conversationId = None \<rparr>"

definition sample_pricing :: priced_model where
  "sample_pricing = \<lparr> mp_inputPerMTok = Some 3, mp_outputPerMTok = Some 10, mp_cacheReadPerMTok = None, mp_cacheWritePerMTok = None,
     mp_audioInputPerMTok = None, mp_audioOutputPerMTok = None, mp_perImage = None, mp_perSecond = None, mp_perMinute = None,
     mp_perMChars = None, mp_perUnit = None, mp_tiers = None \<rparr>"

definition sample_collector :: collector where
  "sample_collector = import_ledger [sample_entry] (addBudget sample_budget (new_collector None None))"

lemmas sample_defs = sample_entry_def sample_budget_def sample_completion_def sample_pricing_def sample_collector_def

lemma budget_events_fire_once_witness:
  "reported ''b'' (1 / 2) (cc_log (run_ops (\<lambda>_ _. Some sample_pricing)
      [AddBudget sample_budget, OnCompletion ''u1'' 1 sample_completion, OnCompletion ''u2'' 2 sample_completion]
      (new_collector None None))) \<le> 1"
  using budget_events_fire_once[of sample_budget
      "[OnCompletion ''u1'' 1 sample_completion, OnCompletion ''u2'' 2 sample_completion]" "1 / 2"
      "\<lambda>_ _. Some sample_pricing" "new_collector None None"]
  by (simp add: sample_budget_def new_collector_def)

lemma threshold_one_disables_stop_witness:
  "(\<exists>ws. cc_log (check_budget sample_entry sample_collector sample_budget) = cc_log sample_collector @ ws \<and> list_all is_warning ws)
   \<and> length (cc_log (check_budget sample_entry sample_collector sample_budget)) = 2"
  using threshold_one_disables_stop[of sample_budget sample_entry sample_collector]
  by (simp add: sample_defs check_budget_def matchesScope_def total_def filterEntries_def applyFilter_def scope_filter_def
        text_filter_def truthy_str_def import_ledger_def addBudget_def new_collector_def check_threshold_def check_limit_def
        zeroCost_def Let_def)

text \<open>Without the threshold of 1 the same ledger is reported as exceeded.\<close>
lemma exceeded_without_threshold_one:
  "list_ex (\<lambda>ev. case ev of BudgetExceeded _ _ _ _ \<Rightarrow> True | _ \<Rightarrow> False)
     (cc_log (check_budget sample_entry sample_collector (sample_budget\<lparr>bg_thresholds := [1 / 2]\<rparr>)))"
  by (simp add: sample_defs check_budget_def matchesScope_def total_def filterEntries_def applyFilter_def scope_filter_def
        text_filter_def truthy_str_def import_ledger_def addBudget_def new_collector_def check_threshold_def check_limit_def
        zeroCost_def Let_def)

lemma named_scope_is_filter_witness:
  "matchesScope (completion_entry (\<lambda>_ _. None) ''u'' 1 sample_completion sample_collector) [(''runId'', Some ''r1'')]
   = applyFilter (scope_filter [(''runId'', Some ''r1'')]) (completion_entry (\<lambda>_ _. None) ''u'' 1 sample_completion sample_collector)"
  by (rule named_scope_is_filter) (simp_all add: filter_keys_def)

lemma pricing_additive_witness:
  "cs_total (calculateCost (\<lambda>_ _. Some sample_pricing) ''p'' ''m'' (add_tokens no_tokens (no_tokens\<lparr>tk_input := 1000000\<rparr>)) [] None)
   = cs_total (calculateCost (\<lambda>_ _. Some sample_pricing) ''p'' ''m'' no_tokens [] None)
     + cs_total (calculateCost (\<lambda>_ _. Some sample_pricing) ''p'' ''m'' (no_tokens\<lparr>tk_input := 1000000\<rparr>) [] None)"
  by (rule pricing_additive) (simp add: getProviderTotal_def)

end
