(* ===== verification/JsonParse.thy ===== *)
theory JsonParse
  imports Json
begin

text \<open>
  \<open>JSON.parse\<close> on strings of the model (the grammar of ECMA-404: insignificant white space, literals, numerals with
  fraction and exponent, strings with escapes, arrays, objects whose later members replace earlier ones of the same
  name), and its inverse relation to \<open>JSON.stringify\<close>. \<open>None\<close> is a \<open>SyntaxError\<close>. Escapes above \<open>u00ff\<close> are
  outside the model of strings and are refused. The order in which an object lists integer-like keys is not modelled.
\<close>

section \<open>Tokens\<close>

definition json_space :: "char \<Rightarrow> bool" where
  "json_space c = (code_unit c \<in> {9, 10, 13, 32})"

definition skip_ws :: "string \<Rightarrow> string" where "skip_ws s = dropWhile json_space s"

definition hex_val :: "char \<Rightarrow> nat option" where
  "hex_val c = (let n = code_unit c in
     if 48 \<le> n \<and> n \<le> 57 then Some (n - 48)
     else if 97 \<le> n \<and> n \<le> 102 then Some (n - 87)
     else if 65 \<le> n \<and> n \<le> 70 then Some (n - 55) else None)"

fun read_escape :: "string \<Rightarrow> (char \<times> string) option" where
  "read_escape [] = None"
| "read_escape (c # cs) =
     (let n = code_unit c in
      if n = 34 \<or> n = 92 \<or> n = 47 then Some (c, cs)
      else if n = 98 then Some (char_of (8 :: nat), cs)
      else if n = 102 then Some (char_of (12 :: nat), cs)
      else if n = 110 then Some (char_of (10 :: nat), cs)
      else if n = 114 then Some (char_of (13 :: nat), cs)
      else if n = 116 then Some (char_of (9 :: nat), cs)
      else if n = 117 then
        (case cs of
           a # b # d # e # rest \<Rightarrow>
             (case (hex_val a, hex_val b, hex_val d, hex_val e) of
                (Some 0, Some 0, Some h, Some l) \<Rightarrow> Some (char_of (16 * h + l), rest)
              | _ \<Rightarrow> None)
         | _ \<Rightarrow> None)
      else None)"

lemma read_escape_length: "read_escape s = Some (c, r) \<Longrightarrow> length r < length s"
  by (cases s) (auto simp: Let_def split: if_splits list.splits option.splits nat.splits)

text \<open>The rest of a string after its opening quote.\<close>

function read_string :: "string \<Rightarrow> (string \<times> string) option" where
  "read_string [] = None"
| "read_string (c # cs) =
     (if code_unit c = 34 then Some ([], cs)
      else if code_unit c < 32 then None
      else if code_unit c = 92 then
        (case read_escape cs of
           None \<Rightarrow> None
         | Some (d, rest) \<Rightarrow> map_option (\<lambda>(ds, r). (d # ds, r)) (read_string rest))
      else map_option (\<lambda>(ds, r). (c # ds, r)) (read_string cs))"
  by pat_completeness auto
termination
  by (relation "measure length") (auto dest: read_escape_length)

text \<open>\<open>-?(0|[1-9][0-9]*)(\.[0-9]+)?([eE][+-]?[0-9]+)?\<close>, the value in decimal normal form.\<close>

fun norm_num :: "int \<Rightarrow> nat \<Rightarrow> json" where
  "norm_num m 0 = JNum m 0"
| "norm_num m (Suc k) = (if m mod 10 = 0 then norm_num (m div 10) k else JNum m (Suc k))"

definition scale_num :: "int \<Rightarrow> nat \<Rightarrow> int \<Rightarrow> json" where
  "scale_num m k e = (if e \<le> int k then norm_num m (nat (int k - e)) else JNum (m * 10 ^ nat (e - int k)) 0)"

definition int_digits :: "string \<Rightarrow> bool" where
  "int_digits ds = (ds \<noteq> [] \<and> (hd ds = CHR ''0'' \<longrightarrow> ds = ''0''))"

definition read_fraction :: "string \<Rightarrow> (string \<times> string) option" where
  "read_fraction s =
     (case s of
        [] \<Rightarrow> Some ([], s)
      | c # r \<Rightarrow>
          if c \<noteq> CHR ''.'' then Some ([], s)
          else if takeWhile is_digit r = [] then None else Some (takeWhile is_digit r, dropWhile is_digit r))"

definition read_exponent :: "string \<Rightarrow> (int \<times> string) option" where
  "read_exponent s =
     (case s of
        [] \<Rightarrow> Some (0, s)
      | c # r \<Rightarrow>
          if c \<noteq> CHR ''e'' \<and> c \<noteq> CHR ''E'' then Some (0, s)
          else let neg = (r \<noteq> [] \<and> hd r = CHR ''-'');
                   r1 = (if r \<noteq> [] \<and> (hd r = CHR ''-'' \<or> hd r = CHR ''+'') then tl r else r);
                   ds = takeWhile is_digit r1
               in if ds = [] then None
                  else Some (if neg then - int (digits_val ds) else int (digits_val ds), dropWhile is_digit r1))"

definition read_numeral :: "string \<Rightarrow> (json \<times> string) option" where
  "read_numeral s =
     (let neg = (s \<noteq> [] \<and> hd s = CHR ''-'');
          s1 = (if neg then tl s else s);
          ip = takeWhile is_digit s1
      in if \<not> int_digits ip then None
         else (case read_fraction (dropWhile is_digit s1) of
                 None \<Rightarrow> None
               | Some (fp, s2) \<Rightarrow>
                   (case read_exponent s2 of
                      None \<Rightarrow> None
                    | Some (e, s3) \<Rightarrow>
                        (let v = int (digits_val (ip @ fp))
                         in Some (scale_num (if neg then - v else v) (length fp) e, s3)))))"

definition read_literal :: "string \<Rightarrow> json \<Rightarrow> string \<Rightarrow> (json \<times> string) option" where
  "read_literal word v s = (if starts_with s word then Some (v, drop (length word) s) else None)"

section \<open>Values\<close>

text \<open>The first argument bounds the nesting of the calls; twice the length of the text is enough.\<close>

fun read_value :: "nat \<Rightarrow> string \<Rightarrow> (json \<times> string) option"
and read_elements :: "nat \<Rightarrow> string \<Rightarrow> (json list \<times> string) option"
and read_members :: "nat \<Rightarrow> json dict \<Rightarrow> string \<Rightarrow> (json dict \<times> string) option" where
  "read_value 0 s = None"
| "read_value (Suc n) s =
     (case skip_ws s of
        [] \<Rightarrow> None
      | c # r \<Rightarrow>
          if c = CHR ''['' then
            (case skip_ws r of
               [] \<Rightarrow> None
             | d # r1 \<Rightarrow> if d = CHR '']'' then Some (JArr [], r1)
                         else map_option (\<lambda>(xs, r2). (JArr xs, r2)) (read_elements n r))
          else if c = CHR ''{'' then
            (case skip_ws r of
               [] \<Rightarrow> None
             | d # r1 \<Rightarrow> if d = CHR ''}'' then Some (JObj [], r1)
                         else map_option (\<lambda>(kvs, r2). (JObj kvs, r2)) (read_members n [] r))
          else if code_unit c = 34 then map_option (\<lambda>(t, r1). (JStr t, r1)) (read_string r)
          else if c = CHR ''n'' then read_literal ''null'' JNull (c # r)
          else if c = CHR ''t'' then read_literal ''true'' (JBool True) (c # r)
          else if c = CHR ''f'' then read_literal ''false'' (JBool False) (c # r)
          else read_numeral (c # r))"
| "read_elements 0 s = None"
| "read_elements (Suc n) s =
     (case read_value n s of
        None \<Rightarrow> None
      | Some (v, r) \<Rightarrow>
          (case skip_ws r of
             [] \<Rightarrow> None
           | c # r1 \<Rightarrow>
               if c = CHR '']'' then Some ([v], r1)
               else if c = CHR '','' then map_option (\<lambda>(vs, r2). (v # vs, r2)) (read_elements n r1)
               else None))"
| "read_members 0 acc s = None"
| "read_members (Suc n) acc s =
     (case skip_ws s of
        [] \<Rightarrow> None
      | q # r \<Rightarrow>
          if code_unit q \<noteq> 34 then None
          else (case read_string r of
                  None \<Rightarrow> None
                | Some (k, r1) \<Rightarrow>
                    (case skip_ws r1 of
                       [] \<Rightarrow> None
                     | c # r2 \<Rightarrow>
                         if c \<noteq> CHR '':'' then None
                         else (case read_value n r2 of
                                 None \<Rightarrow> None
                               | Some (v, r3) \<Rightarrow>
                                   (case skip_ws r3 of
                                      [] \<Rightarrow> None
                                    | d # r4 \<Rightarrow>
                                        if d = CHR ''}'' then Some (AList.update k v acc, r4)
                                        else if d = CHR '','' then read_members n (AList.update k v acc) r4
                                        else None)))))"

definition JSON_parse :: "string \<Rightarrow> json option" where
  "JSON_parse s =
     (case read_value (2 * length s + 1) s of
        None \<Rightarrow> None
      | Some (v, r) \<Rightarrow> if skip_ws r = [] then Some v else None)"

section \<open>Reading back strings\<close>

lemma code_units [simp]:
  "code_unit (CHR 0x22) = 34" "code_unit (CHR 0x5C) = 92" "code_unit (CHR ''u'') = 117" "code_unit (CHR ''0'') = 48"
  "code_unit (CHR ''b'') = 98" "code_unit (CHR ''f'') = 102" "code_unit (CHR ''n'') = 110" "code_unit (CHR ''r'') = 114"
  "code_unit (CHR ''t'') = 116" "code_unit (CHR ''/'') = 47" "code_unit (CHR '','') = 44" "code_unit (CHR '']'') = 93"
  "code_unit (CHR ''}'') = 125" "code_unit (CHR '':'') = 58" "code_unit (CHR ''['') = 91" "code_unit (CHR ''{'') = 123"
  "code_unit (CHR ''-'') = 45" "code_unit (CHR ''.'') = 46" "code_unit (CHR ''e'') = 101" "code_unit (CHR ''E'') = 69"
  by (simp_all add: code_unit_def)

lemma char_of_code_unit [simp]: "char_of (code_unit c) = c"
  by (simp add: code_unit_def)

lemma char_of_codes [simp]: "char_of (34 :: nat) = CHR 0x22" "char_of (92 :: nat) = CHR 0x5C"
  by (metis char_of_code_unit code_units(1)) (metis char_of_code_unit code_units(2))

lemma code_unit_inject: "code_unit c = n \<Longrightarrow> c = char_of n"
  by auto

lemma hex_digit_code: "n < 16 \<Longrightarrow> code_unit (hex_digit n) = (if n < 10 then 48 + n else 87 + n)"
  by (simp add: hex_digit_def code_unit_def)

lemma hex_val_hex_digit [simp]: "n < 16 \<Longrightarrow> hex_val (hex_digit n) = Some n"
  by (auto simp: hex_val_def Let_def hex_digit_code)

lemma hex_val_zero [simp]: "hex_val (CHR ''0'') = Some 0"
  by (simp add: hex_val_def code_unit_def)

lemma read_string_esc_char:
  "read_string (esc_char c @ r) = map_option (\<lambda>(ds, t). (c # ds, t)) (read_string r)"
proof -
  let ?n = "code_unit c"
  consider "?n \<in> {34, 92, 8, 12, 10, 13, 9}" | "?n \<notin> {34, 92, 8, 12, 10, 13, 9}" "?n < 32" | "?n \<notin> {34, 92}" "\<not> ?n < 32"
    by auto
  then show ?thesis
  proof cases
    case 1
    then show ?thesis by (auto simp: esc_char_def Let_def dest!: code_unit_inject)
  next
    case 2
    then have h: "?n div 16 < 16" "?n mod 16 < 16" "16 * (?n div 16) + ?n mod 16 = ?n" by auto
    have "esc_char c = [CHR 0x5C, CHR ''u'', CHR ''0'', CHR ''0'', hex_digit (?n div 16), hex_digit (?n mod 16)]"
      using 2 by (simp add: esc_char_def Let_def)
    then show ?thesis using h by (simp add: Let_def)
  next
    case 3
    then have "esc_char c = [c]" by (auto simp: esc_char_def Let_def)
    then show ?thesis using 3 by simp
  qed
qed

lemma read_string_quoted: "read_string (concat (map esc_char s) @ CHR 0x22 # r) = Some (s, r)"
proof (induction s)
  case Nil
  then show ?case by simp
next
  case (Cons c s)
  then show ?case by (simp add: read_string_esc_char del: read_string.simps)
qed

section \<open>Reading back numerals\<close>

definition numeral_ends :: "string \<Rightarrow> bool" where
  "numeral_ends r = (r = [] \<or> (\<not> is_digit (hd r) \<and> hd r \<notin> {CHR ''.'', CHR ''e'', CHR ''E''}))"

lemma norm_num_normal: "num_normal m k \<Longrightarrow> norm_num m k = JNum m k"
  by (cases k) (auto simp: num_normal_def)

lemma digits_val_append_zeros: "digits_val (replicate n (CHR ''0'') @ ds) = digits_val ds"
  by (induction n) (simp_all add: digits_val_def digit_val_def code_unit_def)

lemma nat_to_string_hd: "n > 0 \<Longrightarrow> hd (nat_to_string n) \<noteq> CHR ''0''"
proof (induction n rule: nat_to_string.induct)
  case (1 n)
  show ?case
  proof (cases "n < 10")
    case True
    have "char_of (48 + n) \<noteq> CHR ''0''"
    proof
      assume "char_of (48 + n) = CHR ''0''"
      with digit_char(2)[OF True] have "digit_val (CHR ''0'') = n" by simp
      with 1(2) show False by (simp add: digit_val_def)
    qed
    with True show ?thesis by (simp add: nat_to_string.simps[of n])
  next
    case False
    then have "hd (nat_to_string n) = hd (nat_to_string (n div 10))"
      using nat_to_string_digits[of "n div 10"] by (simp add: nat_to_string.simps[of n])
    with 1 False show ?thesis by simp
  qed
qed

lemma read_numeral_shape:
  assumes "int_digits ip" "\<forall>c\<in>set ip. is_digit c" "\<forall>c\<in>set fp. is_digit c" "numeral_ends r"
  shows "read_numeral ((if neg then ''-'' else []) @ ip @ (if fp = [] then [] else CHR ''.'' # fp) @ r)
       = Some (scale_num (if neg then - int (digits_val (ip @ fp)) else int (digits_val (ip @ fp))) (length fp) 0, r)"
proof -
  let ?tail = "(if fp = [] then [] else CHR ''.'' # fp) @ r"
  have nd: "\<not> is_digit (CHR ''.'')" "\<not> is_digit (CHR ''-'')" by (simp_all add: is_digit_def code_unit_def)
  have tl: "?tail = [] \<or> \<not> is_digit (hd ?tail)" using assms(4) nd by (auto simp: numeral_ends_def)
  have tw: "takeWhile is_digit (ip @ ?tail) = ip" "dropWhile is_digit (ip @ ?tail) = ?tail"
    using assms(2) tl by (cases ?tail; simp add: takeWhile_append2 dropWhile_append2)+
  have ip0: "ip \<noteq> []" "hd (ip @ ?tail) \<noteq> CHR ''-''" "ip @ ?tail \<noteq> []"
    using assms(1,2) nd by (cases ip; auto simp: int_digits_def)+
  have rt: "takeWhile is_digit (fp @ r) = fp" "dropWhile is_digit (fp @ r) = r"
    using assms(3,4) by (cases r; auto simp: numeral_ends_def takeWhile_append2 dropWhile_append2)+
  have fr: "read_fraction ?tail = Some (fp, r)"
  proof (cases "fp = []")
    case True
    then show ?thesis using assms(4) by (cases r) (auto simp: read_fraction_def numeral_ends_def)
  next
    case False
    then show ?thesis using rt by (simp add: read_fraction_def)
  qed
  have ex: "read_exponent r = Some (0, r)"
    using assms(4) by (cases r) (auto simp: read_exponent_def numeral_ends_def)
  show ?thesis
  proof (cases neg)
    case True
    then show ?thesis using tw fr ex assms(1) by (simp add: read_numeral_def Let_def)
  next
    case False
    then show ?thesis using tw fr ex assms(1) ip0 by (simp add: read_numeral_def Let_def)
  qed
qed

lemma num_to_string_shape:
  assumes "num_normal m k"
  shows "\<exists>ip fp. num_to_string m k = (if m < 0 then ''-'' else []) @ ip @ (if fp = [] then [] else CHR ''.'' # fp)
     \<and> int_digits ip \<and> (\<forall>c\<in>set ip. is_digit c) \<and> (\<forall>c\<in>set fp. is_digit c) \<and> length fp = k
     \<and> digits_val (ip @ fp) = nat \<bar>m\<bar>"
proof (cases "k = 0")
  case True
  let ?ds = "nat_to_string (nat \<bar>m\<bar>)"
  have "int_digits ?ds"
  proof (cases "m = 0")
    case True
    then show ?thesis by (simp add: int_digits_def nat_to_string.simps[of 0])
  next
    case False
    then show ?thesis using nat_to_string_hd[of "nat \<bar>m\<bar>"] nat_to_string_digits[of "nat \<bar>m\<bar>"] by (simp add: int_digits_def)
  qed
  then show ?thesis using True nat_to_string_digits[of "nat \<bar>m\<bar>"]
    by (intro exI[of _ ?ds] exI[of _ "[]"]) (auto simp: num_to_string_def int_to_string_def)
next
  case False
  let ?ds = "nat_to_string (nat \<bar>m\<bar>)"
  define pad where "pad = replicate (Suc k - length ?ds) (CHR ''0'') @ ?ds"
  define cut where "cut = length pad - k"
  have m: "m \<noteq> 0" using assms False by (auto simp: num_normal_def)
  have ds: "?ds \<noteq> []" "\<forall>c\<in>set ?ds. is_digit c" "digits_val ?ds = nat \<bar>m\<bar>" "hd ?ds \<noteq> CHR ''0''"
    using nat_to_string_digits[of "nat \<bar>m\<bar>"] nat_to_string_hd[of "nat \<bar>m\<bar>"] m by auto
  have "is_digit (CHR ''0'')" by (simp add: is_digit_def)
  then have pad: "\<forall>c\<in>set pad. is_digit c" using ds by (auto simp: pad_def)
  have len: "length pad \<ge> Suc k" by (simp add: pad_def)
  have int: "int_digits (take cut pad)"
  proof (cases "length ?ds \<le> k")
    case True
    then have "pad = CHR ''0'' # replicate (k - length ?ds) (CHR ''0'') @ ?ds" "cut = 1"
      by (simp_all add: pad_def cut_def Suc_diff_le)
    then show ?thesis by (simp add: int_digits_def)
  next
    case False
    then have "pad = ?ds" "cut > 0" by (simp_all add: pad_def cut_def)
    then show ?thesis using ds by (cases ?ds) (auto simp: int_digits_def take_Cons')
  qed
  have fp: "length (drop cut pad) = k" using len by (simp add: cut_def)
  have "num_to_string m k = (if m < 0 then ''-'' else []) @ take cut pad @ CHR ''.'' # drop cut pad"
    using False by (simp add: num_to_string_def Let_def pad_def cut_def)
  moreover have "drop cut pad \<noteq> []" using fp False by auto
  moreover have "digits_val (take cut pad @ drop cut pad) = nat \<bar>m\<bar>"
    unfolding append_take_drop_id using ds(3) digits_val_append_zeros by (simp add: pad_def)
  ultimately show ?thesis using int pad fp
    by (intro exI[of _ "take cut pad"] exI[of _ "drop cut pad"]) (auto dest: in_set_takeD in_set_dropD)
qed

lemma read_numeral_back:
  assumes "num_normal m k" "numeral_ends r"
  shows "read_numeral (num_to_string m k @ r) = Some (JNum m k, r)"
proof -
  obtain ip fp where s: "num_to_string m k = (if m < 0 then ''-'' else []) @ ip @ (if fp = [] then [] else CHR ''.'' # fp)"
    "int_digits ip" "\<forall>c\<in>set ip. is_digit c" "\<forall>c\<in>set fp. is_digit c" "length fp = k" "digits_val (ip @ fp) = nat \<bar>m\<bar>"
    using num_to_string_shape[OF assms(1)] by blast
  have "(if m < 0 then - int (digits_val (ip @ fp)) else int (digits_val (ip @ fp))) = m" using s(6) by auto
  then show ?thesis
    using read_numeral_shape[OF s(2,3,4) assms(2), of "m < 0"] s(1,5) norm_num_normal[OF assms(1)]
    by (simp add: scale_num_def)
qed

section \<open>Reading back values\<close>

text \<open>The values that \<open>JSON.stringify\<close> writes without loss: numbers in normal form, members with distinct names.\<close>

primrec json_ok :: "json \<Rightarrow> bool" where
  "json_ok JNull = True"
| "json_ok (JBool b) = True"
| "json_ok (JNum m k) = num_normal m k"
| "json_ok (JStr s) = True"
| "json_ok (JArr xs) = list_all id (map json_ok xs)"
| "json_ok (JObj kvs) = (distinct (map fst kvs) \<and> list_all snd (map (map_prod id json_ok) kvs))"

definition value_ends :: "string \<Rightarrow> bool" where
  "value_ends r = (r = [] \<or> hd r \<in> {CHR '','', CHR '']'', CHR ''}''})"

lemma value_ends_numeral: "value_ends r \<Longrightarrow> numeral_ends r"
  by (cases r) (auto simp: value_ends_def numeral_ends_def is_digit_def code_unit_def)

lemma skip_ws_char: "\<not> json_space c \<Longrightarrow> skip_ws (c # s) = c # s"
  by (simp add: skip_ws_def)

lemma num_first:
  assumes "num_normal m k"
  shows "\<exists>c t. num_to_string m k = c # t \<and> (c = CHR ''-'' \<or> is_digit c)"
proof -
  obtain ip fp where s: "num_to_string m k = (if m < 0 then ''-'' else []) @ ip @ (if fp = [] then [] else CHR ''.'' # fp)"
    "int_digits ip" "\<forall>c\<in>set ip. is_digit c"
    using num_to_string_shape[OF assms] by blast
  then show ?thesis by (cases ip) (auto simp: int_digits_def)
qed

definition reads_back :: "json \<Rightarrow> bool" where
  "reads_back j \<longleftrightarrow> (\<forall>n r. 2 * length (stringify j) \<le> n \<longrightarrow> value_ends r \<longrightarrow> read_value n (stringify j @ r) = Some (j, r))"

lemma reads_backD: "reads_back j \<Longrightarrow> 2 * length (stringify j) \<le> n \<Longrightarrow> value_ends r \<Longrightarrow> read_value n (stringify j @ r) = Some (j, r)"
  by (simp add: reads_back_def)

text \<open>The first character of a value decides how it is read.\<close>

lemma stringify_first:
  assumes "json_ok j"
  shows "\<exists>c t. stringify j = c # t \<and> \<not> json_space c \<and> c \<noteq> CHR '']'' \<and> c \<noteq> CHR ''}''"
proof (cases j)
  case (JNum m k)
  with assms have "num_normal m k" by simp
  from num_first[OF this] obtain c t where "num_to_string m k = c # t" "c = CHR ''-'' \<or> is_digit c" by blast
  with JNum show ?thesis by (auto simp: json_space_def is_digit_def code_unit_def)
qed (auto simp: quote_str_def json_space_def code_unit_def)

lemma join_length_bound: "length (join sep xs) \<ge> sum_list (map length xs) + (length xs - 1) * length sep"
  by (induction sep xs rule: join.induct) auto

lemma read_elements_back:
  assumes "xs \<noteq> []" "list_all reads_back xs" "2 * sum_list (map (\<lambda>x. length (stringify x)) xs) + length xs \<le> n"
  shows "read_elements n (join '','' (map stringify xs) @ CHR '']'' # r) = Some (xs, r)"
  using assms
proof (induction xs arbitrary: n)
  case Nil
  then show ?case by simp
next
  case (Cons x xs)
  obtain m where n: "n = Suc m" using Cons.prems(3) by (cases n) auto
  have x: "reads_back x" "2 * length (stringify x) \<le> m" using Cons.prems n by auto
  have ns: "\<not> json_space (CHR '']'')" "\<not> json_space (CHR '','')" by (simp_all add: json_space_def code_unit_def)
  show ?case
  proof (cases "xs = []")
    case True
    have "read_value m (stringify x @ CHR '']'' # r) = Some (x, CHR '']'' # r)"
      using reads_backD[OF x] by (simp add: value_ends_def)
    then show ?thesis using True n ns by (simp add: skip_ws_char)
  next
    case False
    have "read_value m (stringify x @ CHR '','' # join '','' (map stringify xs) @ CHR '']'' # r)
        = Some (x, CHR '','' # join '','' (map stringify xs) @ CHR '']'' # r)"
      using reads_backD[OF x] by (simp add: value_ends_def)
    moreover have "read_elements m (join '','' (map stringify xs) @ CHR '']'' # r) = Some (xs, r)"
      using Cons.IH False Cons.prems n by simp
    ultimately show ?thesis using False n ns by (simp add: skip_ws_char join_Cons)
  qed
qed

lemma update_fresh: "k \<notin> set (map fst al) \<Longrightarrow> AList.update k v al = al @ [(k, v)]"
  by (induction al) auto

lemma read_members_back:
  assumes "kvs \<noteq> []" "list_all (\<lambda>(k, v). reads_back v) kvs" "distinct (map fst kvs)" "set (map fst acc) \<inter> set (map fst kvs) = {}"
    and "2 * sum_list (map (\<lambda>(k, v). length (stringify v)) kvs) + length kvs \<le> n"
  shows "read_members n acc (join '','' (map (\<lambda>(k, v). quote_str k @ '':'' @ stringify v) kvs) @ CHR ''}'' # r) = Some (acc @ kvs, r)"
  using assms
proof (induction kvs arbitrary: n acc)
  case Nil
  then show ?case by simp
next
  case (Cons p kvs)
  obtain k v where p: "p = (k, v)" by force
  obtain m where n: "n = Suc m" using Cons.prems(5) by (cases n) auto
  have v: "reads_back v" "2 * length (stringify v) \<le> m" using Cons.prems n p by auto
  have ns: "\<not> json_space (CHR ''}'')" "\<not> json_space (CHR '','')" "\<not> json_space (CHR '':'')" "\<not> json_space (CHR 0x22)"
    by (simp_all add: json_space_def code_unit_def)
  have q: "code_unit (CHR 0x22) = 34" by (simp add: code_unit_def)
  have up: "AList.update k v acc = acc @ [(k, v)]"
    using Cons.prems(4) p by (intro update_fresh) auto
  show ?case
  proof (cases "kvs = []")
    case True
    have "read_value m (stringify v @ CHR ''}'' # r) = Some (v, CHR ''}'' # r)"
      using reads_backD[OF v] by (simp add: value_ends_def)
    then show ?thesis using True n ns p q up read_string_quoted by (simp add: skip_ws_char quote_str_def)
  next
    case False
    let ?rest = "join '','' (map (\<lambda>(k, v). quote_str k @ '':'' @ stringify v) kvs) @ CHR ''}'' # r"
    have "read_value m (stringify v @ CHR '','' # ?rest) = Some (v, CHR '','' # ?rest)"
      using reads_backD[OF v] by (simp add: value_ends_def)
    moreover have "read_members m (acc @ [(k, v)]) ?rest = Some ((acc @ [(k, v)]) @ kvs, r)"
      using Cons.prems n p False by (intro Cons.IH) auto
    ultimately show ?thesis using False n ns p q up read_string_quoted by (simp add: skip_ws_char quote_str_def join_Cons)
  qed
qed

lemma read_literals:
  assumes "n > 0"
  shows "read_value n (''null'' @ r) = Some (JNull, r)" "read_value n (''true'' @ r) = Some (JBool True, r)"
    "read_value n (''false'' @ r) = Some (JBool False, r)"
  using assms by (cases n; simp add: skip_ws_char json_space_def read_literal_def)+

lemma reads_back: "json_ok j \<Longrightarrow> reads_back j"
proof (induction j)
  case (JNum m k)
  then have k: "num_normal m k" by simp
  obtain c t where c: "num_to_string m k = c # t" "c = CHR ''-'' \<or> is_digit c" using num_first[OF k] by blast
  have ne: "\<not> json_space c" "c \<noteq> CHR ''[''" "c \<noteq> CHR ''{''" "code_unit c \<noteq> 34" "c \<noteq> CHR ''n''" "c \<noteq> CHR ''t''" "c \<noteq> CHR ''f''"
    using c(2) by (auto simp: json_space_def is_digit_def code_unit_def)
  show ?case
    unfolding reads_back_def
  proof (intro allI impI)
    fix n r assume "2 * length (stringify (JNum m k)) \<le> n" "value_ends r"
    moreover from this obtain n' where "n = Suc n'" using c by (cases n) auto
    ultimately show "read_value n (stringify (JNum m k) @ r) = Some (JNum m k, r)"
      using read_numeral_back[OF k value_ends_numeral, of r] c ne by (simp add: skip_ws_char)
  qed
next
  case (JArr xs)
  then have xs: "list_all reads_back xs" by (auto simp: list_all_iff)
  have nb: "\<not> json_space (CHR ''['')" "\<not> json_space (CHR '']'')" by (simp_all add: json_space_def code_unit_def)
  show ?case
    unfolding reads_back_def
  proof (intro allI impI)
    fix n r assume n: "2 * length (stringify (JArr xs)) \<le> n"
    then obtain n' where n': "n = Suc n'" by (cases n) auto
    show "read_value n (stringify (JArr xs) @ r) = Some (JArr xs, r)"
    proof (cases xs)
      case Nil
      then show ?thesis using n' nb by (simp add: skip_ws_char)
    next
      case (Cons x ys)
      obtain c t where "stringify x = c # t" "\<not> json_space c" "c \<noteq> CHR '']''"
        using stringify_first[of x] JArr.prems Cons by auto
      then have first: "\<exists>t. join '','' (map stringify xs) = c # t"
        using Cons by (cases ys) auto
      have "2 * sum_list (map (\<lambda>x. length (stringify x)) xs) + length xs \<le> n'"
        using n n' join_length_bound[of "map stringify xs" "'',''"] Cons by (simp add: comp_def)
      then have "read_elements n' (join '','' (map stringify xs) @ CHR '']'' # r) = Some (xs, r)"
        using read_elements_back xs Cons by blast
      then show ?thesis using n' nb first \<open>\<not> json_space c\<close> \<open>c \<noteq> CHR '']''\<close> by (auto simp: skip_ws_char)
    qed
  qed
next
  case (JObj kvs)
  then have kvs: "list_all (\<lambda>(k, v). reads_back v) kvs" "distinct (map fst kvs)"
    by (auto simp: list_all_iff)
  have nb: "\<not> json_space (CHR ''{'')" "\<not> json_space (CHR ''}'')" "\<not> json_space (CHR 0x22)"
    by (simp_all add: json_space_def code_unit_def)
  have eq: "map (\<lambda>(k, s). quote_str k @ '':'' @ s) (map (map_prod id stringify) kvs) = map (\<lambda>(k, v). quote_str k @ '':'' @ stringify v) kvs"
    by auto
  show ?case
    unfolding reads_back_def
  proof (intro allI impI)
    fix n r assume n: "2 * length (stringify (JObj kvs)) \<le> n"
    then obtain n' where n': "n = Suc n'" by (cases n) auto
    show "read_value n (stringify (JObj kvs) @ r) = Some (JObj kvs, r)"
    proof (cases kvs)
      case Nil
      then show ?thesis using n' nb by (simp add: skip_ws_char)
    next
      case (Cons p ps)
      have first: "\<exists>t. join '','' (map (\<lambda>(k, v). quote_str k @ '':'' @ stringify v) kvs) = CHR 0x22 # t"
        using Cons by (cases ps) (auto simp: quote_str_def split: prod.splits)
      define strs where "strs = map (\<lambda>(k, v). quote_str k @ '':'' @ stringify v) kvs"
      have "sum_list (map (\<lambda>(k, v). length (stringify v)) kvs) + length kvs \<le> sum_list (map length strs)"
        unfolding strs_def by (induction kvs) auto
      moreover have "length (stringify (JObj kvs)) = length (join '','' strs) + 2"
        unfolding strs_def stringify.simps eq by simp
      moreover have "sum_list (map (\<lambda>(k, v). 2 * length (stringify v)) kvs) = 2 * sum_list (map (\<lambda>(k, v). length (stringify v)) kvs)"
        by (induction kvs) auto
      ultimately have "2 * sum_list (map (\<lambda>(k, v). length (stringify v)) kvs) + length kvs \<le> n'"
        using n n' join_length_bound[of strs "'',''"] by linarith
      then have "read_members n' [] (join '','' (map (\<lambda>(k, v). quote_str k @ '':'' @ stringify v) kvs) @ CHR ''}'' # r) = Some ([] @ kvs, r)"
        using read_members_back[of kvs "[]"] kvs Cons by simp
      then show ?thesis unfolding stringify.simps eq using n' nb first by (auto simp: skip_ws_char)
    qed
  qed
next
  case (JStr s)
  show ?case
    unfolding reads_back_def
  proof (intro allI impI)
    fix n r assume "2 * length (stringify (JStr s)) \<le> n"
    then obtain n' where "n = Suc n'" by (cases n) (auto simp: quote_str_def)
    then show "read_value n (stringify (JStr s) @ r) = Some (JStr s, r)"
      using read_string_quoted[of s r] by (simp add: quote_str_def skip_ws_char json_space_def code_unit_def)
  qed
qed (use read_literals in \<open>auto simp: reads_back_def\<close>)

lemma parse_stringify: "json_ok j \<Longrightarrow> JSON_parse (stringify j) = Some j"
  using reads_backD[OF reads_back, of j "2 * length (stringify j) + 1" "[]"]
  by (simp add: JSON_parse_def value_ends_def skip_ws_def)

text \<open>\<open>JSON.parse\<close> reads back what \<open>JSON.stringify\<close> wrote: every value whose numbers are in normal form and whose
  objects have distinct names, whatever its depth and whatever characters its strings hold. No two such values have
  the same text.\<close>
theorem json_roundtrip:
  assumes "json_ok j"
  shows "JSON_parse (stringify j) = Some j \<and> (\<forall>i. json_ok i \<longrightarrow> stringify i = stringify j \<longrightarrow> i = j)"
  using parse_stringify[OF assms] parse_stringify by (metis option.inject)

lemma json_roundtrip_witness:
  "JSON_parse (stringify (JObj [(''a'', JArr [JStr ''x'', JNull]), (''b'', JBool True)]))
     = Some (JObj [(''a'', JArr [JStr ''x'', JNull]), (''b'', JBool True)])"
  using json_roundtrip[of "JObj [(''a'', JArr [JStr ''x'', JNull]), (''b'', JBool True)]"] by simp

corollary stringify_inject: "json_ok a \<Longrightarrow> json_ok b \<Longrightarrow> stringify a = stringify b \<longleftrightarrow> a = b"
  using parse_stringify by (metis option.inject)

section \<open>Reading a longer text\<close>

text \<open>A value that was read stays what it is when text follows it; only a numeral at the very end may go on.\<close>

lemma skip_ws_append: "skip_ws s = c # r \<Longrightarrow> skip_ws (s @ q) = c # r @ q"
  by (induction s) (auto simp: skip_ws_def split: if_splits)

lemma takeWhile_more: "dropWhile P s \<noteq> [] \<Longrightarrow> takeWhile P (s @ q) = takeWhile P s \<and> dropWhile P (s @ q) = dropWhile P s @ q"
  by (induction s) auto

lemma read_escape_more: "read_escape s = Some (c, r) \<Longrightarrow> read_escape (s @ q) = Some (c, r @ q)"
proof (cases s)
  case (Cons c' cs)
  assume e: "read_escape s = Some (c, r)"
  show ?thesis
  proof (cases "code_unit c' = 117")
    case True
    then obtain a b d e' rest where "cs = a # b # d # e' # rest"
      using e Cons by (simp add: Let_def split: list.splits)
    then show ?thesis using e Cons True by (simp add: Let_def split: option.splits nat.splits)
  next
    case False
    then show ?thesis using e Cons by (auto simp: Let_def split: if_splits)
  qed
qed simp

lemma read_string_more: "read_string s = Some (t, r) \<Longrightarrow> read_string (s @ q) = Some (t, r @ q)"
proof (induction s arbitrary: t r rule: read_string.induct)
  case (2 c cs)
  show ?case
  proof (cases "code_unit c = 92")
    case True
    obtain d rest where d: "read_escape cs = Some (d, rest)" using 2(3) True by (auto split: option.splits)
    show ?thesis using 2(1)[OF _ _ True d refl] 2(3) True read_escape_more[OF d, of q] d by auto
  next
    case False
    then show ?thesis using 2(2,3) by (auto split: if_splits)
  qed
qed simp

lemma read_fraction_more:
  assumes "read_fraction s = Some (fp, r)" "r \<noteq> []"
  shows "read_fraction (s @ q) = Some (fp, r @ q)"
proof (cases s)
  case (Cons c t)
  then show ?thesis using assms takeWhile_more[of is_digit t q] by (auto simp: read_fraction_def split: if_splits)
qed (use assms in \<open>simp add: read_fraction_def\<close>)

lemma read_exponent_more:
  assumes "read_exponent s = Some (e, r)" "r \<noteq> []"
  shows "read_exponent (s @ q) = Some (e, r @ q)"
proof (cases s)
  case (Cons c t)
  show ?thesis
  proof (cases "c = CHR ''e'' \<or> c = CHR ''E''")
    case True
    define t1 where "t1 = (if t \<noteq> [] \<and> (hd t = CHR ''-'' \<or> hd t = CHR ''+'') then tl t else t)"
    have e: "read_exponent (c # u) =
        (if takeWhile is_digit u1 = [] then None
         else Some (if u \<noteq> [] \<and> hd u = CHR ''-'' then - int (digits_val (takeWhile is_digit u1)) else int (digits_val (takeWhile is_digit u1)),
                    dropWhile is_digit u1))"
      if "u1 = (if u \<noteq> [] \<and> (hd u = CHR ''-'' \<or> hd u = CHR ''+'') then tl u else u)" for u u1
      unfolding that using True by (cases u) (auto simp: read_exponent_def Let_def)
    have d: "dropWhile is_digit t1 = r" "takeWhile is_digit t1 \<noteq> []" using assms Cons by (auto simp: e[OF t1_def] split: if_splits)
    then have t: "t \<noteq> []" "t1 \<noteq> []" by (auto simp: t1_def split: if_splits)
    then have t1q: "t1 @ q = (if t @ q \<noteq> [] \<and> (hd (t @ q) = CHR ''-'' \<or> hd (t @ q) = CHR ''+'') then tl (t @ q) else t @ q)"
      by (simp add: t1_def)
    have tw: "takeWhile is_digit (t1 @ q) = takeWhile is_digit t1 \<and> dropWhile is_digit (t1 @ q) = r @ q"
      using takeWhile_more[of is_digit t1 q] d(1) assms(2) by simp
    show ?thesis using assms(1) d(2) unfolding Cons append_Cons e[OF t1_def] e[OF t1q] using tw t(1) by auto
  next
    case False
    then show ?thesis using assms Cons by (auto simp: read_exponent_def)
  qed
qed (use assms in \<open>simp add: read_exponent_def\<close>)

lemma read_fraction_rest: "read_fraction s = Some (fp, r) \<Longrightarrow> r \<noteq> [] \<Longrightarrow> s \<noteq> []"
  by (auto simp: read_fraction_def split: list.splits)

lemma read_exponent_rest: "read_exponent s = Some (e, r) \<Longrightarrow> r \<noteq> [] \<Longrightarrow> s \<noteq> []"
  by (auto simp: read_exponent_def split: list.splits)

lemma read_numeral_more:
  assumes "read_numeral s = Some (v, r)" "r \<noteq> []"
  shows "read_numeral (s @ q) = Some (v, r @ q)"
proof -
  define s1 where "s1 = (if s \<noteq> [] \<and> hd s = CHR ''-'' then tl s else s)"
  from assms(1) obtain fp s2 e where f: "read_fraction (dropWhile is_digit s1) = Some (fp, s2)"
    and x: "read_exponent s2 = Some (e, r)" and ip: "int_digits (takeWhile is_digit s1)"
    by (auto simp: read_numeral_def Let_def s1_def split: if_splits option.splits)
  have s2: "s2 \<noteq> []" by (rule read_exponent_rest[OF x assms(2)])
  have d: "dropWhile is_digit s1 \<noteq> []" by (rule read_fraction_rest[OF f s2])
  then have s: "s1 \<noteq> []" "s \<noteq> []" by (auto simp: s1_def split: if_splits)
  have s1q: "(if s @ q \<noteq> [] \<and> hd (s @ q) = CHR ''-'' then tl (s @ q) else s @ q) = s1 @ q"
    using s by (simp add: s1_def)
  have n: "(s @ q \<noteq> [] \<and> hd (s @ q) = CHR ''-'') = (s \<noteq> [] \<and> hd s = CHR ''-'')" using s by simp
  have e: "read_numeral u =
      (if \<not> int_digits (takeWhile is_digit u1) then None
       else (case read_fraction (dropWhile is_digit u1) of None \<Rightarrow> None
             | Some (fp, s2) \<Rightarrow> (case read_exponent s2 of None \<Rightarrow> None
                | Some (e, s3) \<Rightarrow> (let v = int (digits_val (takeWhile is_digit u1 @ fp))
                    in Some (scale_num (if u \<noteq> [] \<and> hd u = CHR ''-'' then - v else v) (length fp) e, s3)))))"
    if "u1 = (if u \<noteq> [] \<and> hd u = CHR ''-'' then tl u else u)" for u u1
    unfolding that read_numeral_def Let_def ..
  show ?thesis
    using assms(1) ip takeWhile_more[OF d, of q] s(2) unfolding e[OF s1_def] e[OF s1q[symmetric]]
    by (simp add: f x read_fraction_more[OF f s2] read_exponent_more[OF x assms(2)] Let_def)
qed

lemma read_numeral_kind: "read_numeral s = Some (v, r) \<Longrightarrow> \<exists>m k. v = JNum m k"
proof -
  have n: "\<exists>m' k'. norm_num m k = JNum m' k'" for m k by (induction m k rule: norm_num.induct) auto
  show "read_numeral s = Some (v, r) \<Longrightarrow> \<exists>m k. v = JNum m k"
    using n by (auto simp: read_numeral_def Let_def scale_num_def split: if_splits option.splits)
qed

definition complete_read :: "json \<Rightarrow> string \<Rightarrow> bool" where
  "complete_read v r \<longleftrightarrow> r \<noteq> [] \<or> (\<nexists>m k. v = JNum m k)"

lemma read_literal_more: "read_literal w x s = Some (v, r) \<Longrightarrow> read_literal w x (s @ q) = Some (v, r @ q)"
proof -
  have "starts_with u p \<Longrightarrow> starts_with (u @ q) p \<and> drop (length p) (u @ q) = drop (length p) u @ q" for u p
    by (induction u p rule: starts_with.induct) auto
  then show "read_literal w x s = Some (v, r) \<Longrightarrow> read_literal w x (s @ q) = Some (v, r @ q)"
    by (auto simp: read_literal_def split: if_splits)
qed

lemma read_more:
  "read_value n s = Some (v, r) \<Longrightarrow> n \<le> m \<Longrightarrow> complete_read v r \<Longrightarrow> read_value m (s @ q) = Some (v, r @ q)"
  "read_elements n s = Some (vs, r) \<Longrightarrow> n \<le> m \<Longrightarrow> read_elements m (s @ q) = Some (vs, r @ q)"
  "read_members n acc s = Some (kvs, r) \<Longrightarrow> n \<le> m \<Longrightarrow> read_members m acc (s @ q) = Some (kvs, r @ q)"
proof (induction n s and n s and n acc s arbitrary: m v r and m vs r and m kvs r rule: read_value_read_elements_read_members.induct)
  case (2 n s)
  obtain m1 where m: "m = Suc m1" "n \<le> m1" using 2(4) by (cases m) auto
  obtain c t where c: "skip_ws s = c # t" using 2(3) by (auto split: list.splits)
  note cq = skip_ws_append[OF c, of q]
  show ?case
  proof (cases "c = CHR ''['' \<or> c = CHR ''{''")
    case True
    obtain d t1 where d: "skip_ws t = d # t1" using 2(3) c True by (auto split: list.splits)
    show ?thesis using 2(1,2)[OF c] 2(3) c cq d skip_ws_append[OF d, of q] True m by (auto split: if_splits)
  next
    case False
    then show ?thesis
      using 2(3) 2(5) m(1) c cq read_string_more[of t _ _ q] read_literal_more[of _ _ "c # t" _ _ q] read_numeral_more[of "c # t" v r q]
        read_numeral_kind[of "c # t" v r]
      by (auto simp: complete_read_def split: if_splits)
  qed
next
  case (4 n s)
  obtain m1 where m: "m = Suc m1" "n \<le> m1" using 4(4) by (cases m) auto
  obtain v r0 c r1 where v: "read_value n s = Some (v, r0)" "skip_ws r0 = c # r1"
    using 4(3) by (auto split: option.splits list.splits)
  then have k: "complete_read v r0" by (auto simp: complete_read_def skip_ws_def)
  show ?case using 4(2)[OF v(1) refl v(2)] 4(3) 4(1)[OF v(1) m(2) k] v skip_ws_append[OF v(2), of q] m
    by (auto split: if_splits)
next
  case (6 n acc s)
  obtain m1 where m: "m = Suc m1" "n \<le> m1" using 6(4) by (cases m) auto
  obtain c t where c: "skip_ws s = c # t" "code_unit c = 34" using 6(3) by (auto split: list.splits if_splits)
  obtain k r1 where k: "read_string t = Some (k, r1)" using 6(3) c by (auto split: option.splits)
  obtain r2 where r2: "skip_ws r1 = CHR '':'' # r2" using 6(3) c k by (auto split: list.splits if_splits)
  obtain v r3 where v: "read_value n r2 = Some (v, r3)" using 6(3) c k r2 by (auto split: option.splits)
  obtain d r4 where d: "skip_ws r3 = d # r4" using 6(3) c k r2 v by (auto split: list.splits)
  then have kp: "complete_read v r3" by (auto simp: complete_read_def skip_ws_def)
  show ?case
    using 6(2)[OF c(1) _ k refl r2 _ v refl d] 6(3) 6(1)[OF c(1) _ k refl r2 _ v m(2) kp] c k r2 v d m skip_ws_append[OF c(1), of q]
      read_string_more[OF k, of q] skip_ws_append[OF r2, of q] skip_ws_append[OF d, of q]
    by (auto split: if_splits)
qed simp_all

end
