(* ===== verification/Approval.thy ===== *)
theory Approval
  imports JsonParse "HOL-Library.Word" "HOL-Library.List_Lexorder"
begin

text \<open>
  \<open>src/agent/approval-types.ts\<close> and \<open>src/util/hash.ts\<close>: the canonical text of a tool call, its 32-bit FNV-1a
  fingerprint, and the records of the approval gate. The hash is kept at its width: \<open>Math.imul(h, p) >>> 0\<close> is the
  product of two \<open>32 word\<close>s.
\<close>

unbundle bit_operations_syntax

section \<open>The hash\<close>

definition FNV_PRIME :: "32 word" where "FNV_PRIME = 0x01000193"

definition fnv_step :: "32 word \<Rightarrow> char \<Rightarrow> 32 word" where
  "fnv_step h c = (h XOR word_of_nat (code_unit c)) * FNV_PRIME"

definition fnv1a32 :: "string \<Rightarrow> 32 word" where
  "fnv1a32 input = foldl fnv_step 0x811c9dc5 input"

fun hex_string :: "nat \<Rightarrow> string" where
  "hex_string n = (if n < 16 then [hex_digit n] else hex_string (n div 16) @ [hex_digit (n mod 16)])"

declare hex_string.simps [simp del]

definition padStart :: "nat \<Rightarrow> char \<Rightarrow> string \<Rightarrow> string" where
  "padStart n c s = replicate (n - length s) c @ s"

definition fnv1a32Hex :: "string \<Rightarrow> string" where
  "fnv1a32Hex input = padStart 8 (CHR ''0'') (hex_string (unat (fnv1a32 input)))"

section \<open>The canonical text\<close>

primrec canonicalJson :: "json \<Rightarrow> string" where
  "canonicalJson JNull = stringify JNull"
| "canonicalJson (JBool b) = stringify (JBool b)"
| "canonicalJson (JNum m k) = stringify (JNum m k)"
| "canonicalJson (JStr s) = stringify (JStr s)"
| "canonicalJson (JArr xs) = ''['' @ join '','' (map canonicalJson xs) @ '']''"
| "canonicalJson (JObj kvs) =
     ''{'' @ join '','' (map (\<lambda>(k, s). quote_str k @ '':'' @ s) (sort_key fst (map (map_prod id canonicalJson) kvs))) @ ''}''"

definition approvalDigest :: "string \<Rightarrow> json dict \<Rightarrow> string" where
  "approvalDigest toolName args = fnv1a32Hex (toolName @ '' '' @ canonicalJson (JObj args))"

section \<open>Records of the approval gate\<close>

record approval_request =
  aq_callId :: string
  aq_toolName :: string
  aq_arguments :: "json dict"
  aq_reason :: "string option"
  aq_step :: nat

datatype approval_verdict = Approve | Refuse | Skip

record approval_decision =
  ad_decision :: approval_verdict
  ad_overrideResult :: "string option"
  ad_note :: "string option"

record pending_call =
  pc_callId :: string
  pc_toolName :: string
  pc_arguments :: "json dict"
  pc_step :: nat
  pc_requestedAt :: ms
  pc_runId :: string
  pc_digest :: "string option"

section \<open>What a fingerprint tells apart\<close>

text \<open>The value with the members of every object in key order.\<close>

primrec norm_json :: "json \<Rightarrow> json" where
  "norm_json JNull = JNull"
| "norm_json (JBool b) = JBool b"
| "norm_json (JNum m k) = JNum m k"
| "norm_json (JStr s) = JStr s"
| "norm_json (JArr xs) = JArr (map norm_json xs)"
| "norm_json (JObj kvs) = JObj (sort_key fst (map (map_prod id norm_json) kvs))"

lemma insort_map_prod:
  "insort_key fst (map_prod id f p) (map (map_prod id f) xs) = map (map_prod id f) (insort_key fst p xs)"
  by (induction xs) (auto simp: map_prod_def split: prod.splits)

lemma sort_map_prod: "sort_key fst (map (map_prod id f) kvs) = map (map_prod id f) (sort_key fst kvs)"
  by (induction kvs) (simp_all only: list.map sort_key_simps insort_map_prod)

lemma canonical_is_stringify_norm: "canonicalJson j = stringify (norm_json j)"
proof (induction j)
  case (JArr xs)
  then have "map canonicalJson xs = map stringify (map norm_json xs)" by simp
  then show ?case by (simp only: canonicalJson.simps norm_json.simps stringify.simps)
next
  case (JObj kvs)
  have "map (map_prod id canonicalJson) kvs = map (map_prod id stringify) (map (map_prod id norm_json) kvs)"
    using JObj by (auto simp: map_prod_def)
  then have "sort_key fst (map (map_prod id canonicalJson) kvs)
      = map (map_prod id stringify) (sort_key fst (map (map_prod id norm_json) kvs))"
    by (simp only: sort_map_prod)
  then show ?case by (simp only: canonicalJson.simps norm_json.simps stringify.simps)
qed simp_all

lemma distinct_fst_sort: "distinct (map fst (sort_key fst xs)) \<longleftrightarrow> distinct (map fst xs)"
  by (metis mset_map mset_sort mset_eq_imp_distinct_iff)

lemma norm_json_ok: "json_ok j \<Longrightarrow> json_ok (norm_json j)"
proof (induction j)
  case (JObj kvs)
  have "map fst (map (map_prod id norm_json) kvs) = map fst kvs" by simp
  moreover have "v \<in> snd ` set kvs \<Longrightarrow> json_ok (norm_json v)" for v
    using JObj by (auto simp: list_all_iff)
  ultimately show ?case using JObj.prems
    by (auto simp: list_all_iff distinct_fst_sort[of "map (map_prod id norm_json) kvs", simplified])
qed (auto simp: list_all_iff)

lemma sort_fst_eq_iff:
  assumes "distinct (map fst xs)" "distinct (map fst ys)"
  shows "sort_key fst xs = sort_key fst ys \<longleftrightarrow> map_of xs = map_of ys"
proof
  assume "sort_key fst xs = sort_key fst ys"
  then have "set xs = set ys" by (metis set_sort)
  then show "map_of xs = map_of ys" using assms by (simp add: map_of_inject_set)
next
  assume "map_of xs = map_of ys"
  then have s: "set xs = set ys" using assms by (simp add: map_of_inject_set)
  have i: "inj_on fst (set (sort_key fst xs) \<union> set (sort_key fst ys))"
    using assms s by (simp add: distinct_map)
  show "sort_key fst xs = sort_key fst ys"
    by (rule map_sorted_distinct_set_unique[OF i]) (use assms s in \<open>simp_all add: distinct_fst_sort\<close>)
qed

lemma map_of_map_prod: "map_of (map (map_prod id f) kvs) k = map_option f (map_of kvs k)"
  by (induction kvs) (auto simp: map_prod_def)

text \<open>Two argument objects have the same canonical text exactly when they have the same members with the same
  values, whatever the order of the members, at every depth.\<close>
theorem canonical_text_identifies_arguments:
  assumes "json_ok (JObj a)" "json_ok (JObj b)"
  shows "canonicalJson (JObj a) = canonicalJson (JObj b)
    \<longleftrightarrow> (\<forall>k. map_option norm_json (map_of a k) = map_option norm_json (map_of b k))"
proof -
  have d: "distinct (map fst (map (map_prod id norm_json) a))" "distinct (map fst (map (map_prod id norm_json) b))"
    using assms by simp_all
  have "canonicalJson (JObj a) = canonicalJson (JObj b) \<longleftrightarrow> norm_json (JObj a) = norm_json (JObj b)"
    by (simp only: canonical_is_stringify_norm stringify_inject[OF norm_json_ok[OF assms(1)] norm_json_ok[OF assms(2)]])
  also have "\<dots> \<longleftrightarrow> map_of (map (map_prod id norm_json) a) = map_of (map (map_prod id norm_json) b)"
    using sort_fst_eq_iff[OF d] by simp
  finally show ?thesis by (simp only: fun_eq_iff map_of_map_prod)
qed

corollary digest_ignores_member_order:
  "json_ok (JObj a) \<Longrightarrow> json_ok (JObj b) \<Longrightarrow> map_of a = map_of b \<Longrightarrow> approvalDigest t a = approvalDigest t b"
  using canonical_text_identifies_arguments[of a b] by (simp add: approvalDigest_def)

text \<open>The prime is odd, so a step of the hash is invertible.\<close>

lemma fnv_inverse: "FNV_PRIME * 0x359c449b = (1 :: 32 word)"
  by (simp add: FNV_PRIME_def)

lemma xor_cancel: "(a :: 32 word) XOR (a XOR b) = b"
  by (simp flip: xor.assoc)

lemma xor_cancel_right: "((a :: 32 word) XOR b) XOR b = a"
  by (simp add: xor.assoc)

lemma fnv_step_inject: "fnv_step h c = fnv_step h' c \<longleftrightarrow> h = h'"
proof
  assume "fnv_step h c = fnv_step h' c"
  then have "(h XOR word_of_nat (code_unit c)) * (FNV_PRIME * 0x359c449b)
      = (h' XOR word_of_nat (code_unit c)) * (FNV_PRIME * 0x359c449b)"
    by (simp only: fnv_step_def flip: mult.assoc)
  then have "h XOR word_of_nat (code_unit c) = h' XOR word_of_nat (code_unit c)" by (simp add: fnv_inverse)
  then show "h = h'" using xor_cancel_right by metis
qed simp

lemma fnv_step_inject_char: "fnv_step h c = fnv_step h d \<longleftrightarrow> c = d"
proof
  assume "fnv_step h c = fnv_step h d"
  then have "(h XOR word_of_nat (code_unit c)) * (FNV_PRIME * 0x359c449b)
      = (h XOR word_of_nat (code_unit d)) * (FNV_PRIME * 0x359c449b)"
    by (simp only: fnv_step_def flip: mult.assoc)
  then have "h XOR word_of_nat (code_unit c) = h XOR word_of_nat (code_unit d)" by (simp add: fnv_inverse)
  then have w: "(word_of_nat (code_unit c) :: 32 word) = word_of_nat (code_unit d)"
    using xor_cancel by metis
  have u: "unat (word_of_nat (code_unit x) :: 32 word) = code_unit x" for x
  proof -
    have "code_unit x < 256" using nat_of_char_less_256 unfolding code_unit_def by simp
    then have "code_unit x < 2 ^ 32" by simp
    then show ?thesis by (simp add: unsigned_of_nat take_bit_nat_eq_self)
  qed
  have "code_unit c = code_unit d" using arg_cong[OF w, of unat] by (simp only: u)
  then show "c = d" by (metis char_of_code_unit)
qed simp

lemma fnv_fold_inject: "foldl fnv_step h s = foldl fnv_step h' s \<longleftrightarrow> h = h'"
  by (induction s arbitrary: h h') (simp_all add: fnv_step_inject)

lemma fnv_one_change: "c \<noteq> d \<Longrightarrow> fnv1a32 (p @ c # s) \<noteq> fnv1a32 (p @ d # s)"
  by (simp add: fnv1a32_def fnv_fold_inject fnv_step_inject_char)

definition read_hex :: "string \<Rightarrow> nat" where
  "read_hex s = foldl (\<lambda>n c. 16 * n + nullish (hex_val c) 0) 0 s"

lemma read_hex_string: "read_hex (hex_string n) = n"
proof (induction n rule: hex_string.induct)
  case (1 n)
  then show ?case by (subst hex_string.simps) (simp add: read_hex_def)
qed

lemma read_hex_pad: "read_hex (padStart n (CHR ''0'') s) = read_hex s"
proof -
  have "foldl (\<lambda>n c. 16 * n + nullish (hex_val c) 0) 0 (replicate k (CHR ''0'') @ s) = read_hex s" for k
    by (induction k) (simp_all add: read_hex_def)
  then show ?thesis by (simp add: read_hex_def padStart_def)
qed

lemma fnv1a32Hex_inject: "fnv1a32Hex s = fnv1a32Hex t \<longleftrightarrow> fnv1a32 s = fnv1a32 t"
proof
  assume "fnv1a32Hex s = fnv1a32Hex t"
  then have "read_hex (fnv1a32Hex s) = read_hex (fnv1a32Hex t)" by simp
  then have "unat (fnv1a32 s) = unat (fnv1a32 t)" by (simp add: fnv1a32Hex_def read_hex_pad read_hex_string)
  then show "fnv1a32 s = fnv1a32 t" by (rule unsigned_word_eqI)
qed (simp add: fnv1a32Hex_def)

text \<open>A call whose canonical arguments differ from the approved ones in one character never has their fingerprint:
  every step of the 32-bit hash is invertible, so a single difference cannot be cancelled by what follows.\<close>
theorem changed_character_changes_digest:
  assumes "canonicalJson (JObj a) = p @ c # s" "canonicalJson (JObj b) = p @ d # s" "c \<noteq> d"
  shows "approvalDigest t a \<noteq> approvalDigest t b"
  using assms(3) fnv_one_change[of c d "t @ '' '' @ p" s]
  unfolding approvalDigest_def fnv1a32Hex_inject assms(1,2) by simp

lemma changed_character_changes_digest_witness:
  "approvalDigest ''transfer'' [(''amount'', JNum 5 0)] \<noteq> approvalDigest ''transfer'' [(''amount'', JNum 6 0)]"
  by (rule changed_character_changes_digest[of _ "[CHR 0x7B, CHR 0x22] @ ''amount'' @ [CHR 0x22, CHR '':'']"
        "CHR ''5''" "[CHR 0x7D]" _ "CHR ''6''"])
     (simp_all add: quote_str_def esc_char_def num_to_string_def int_to_string_def nat_to_string.simps[of 5]
       nat_to_string.simps[of 6] code_unit_def char_of_def bit_0)

lemma canonical_text_identifies_arguments_witness:
  "canonicalJson (JObj [(''unit'', JStr ''c''), (''city'', JStr ''Paris'')])
   = canonicalJson (JObj [(''city'', JStr ''Paris''), (''unit'', JStr ''c'')])"
  by (subst canonical_text_identifies_arguments) simp_all

end
