(* ===== verification/JsonSchema.thy ===== *)
theory JsonSchema
  imports JsonParse
begin

text \<open>
  \<open>src/util/json-schema.ts\<close>: the bundled validator of tool arguments and structured results, with its error texts.
  A \<open>$ref\<close> that is already on the way is not followed again, so the recursion ends: the references not seen yet get
  fewer, or the schema gets smaller. Keys that objects inherit are outside the model of \<open>key in object\<close>; an array
  index in a pointer is written in decimal digits.
\<close>

section \<open>Values\<close>

definition is_record :: "json \<Rightarrow> bool" where
  "is_record v = (case v of JObj _ \<Rightarrow> True | _ \<Rightarrow> False)"

definition jsType :: "json \<Rightarrow> string" where
  "jsType v = (case v of JNull \<Rightarrow> ''null'' | JBool _ \<Rightarrow> ''boolean'' | JNum _ _ \<Rightarrow> ''number'' | JStr _ \<Rightarrow> ''string''
     | JArr _ \<Rightarrow> ''array'' | JObj _ \<Rightarrow> ''object'')"

definition matchesType :: "json \<Rightarrow> json \<Rightarrow> bool" where
  "matchesType t v =
     (case t of
        JStr s \<Rightarrow>
          if s = ''integer'' then (case v of JNum m k \<Rightarrow> k = 0 | _ \<Rightarrow> False)
          else if s \<in> {''string'', ''number'', ''boolean'', ''object'', ''array'', ''null''} then jsType v = s
          else True
      | _ \<Rightarrow> True)"

definition deepEqual :: "json \<Rightarrow> json \<Rightarrow> bool" where
  "deepEqual a b = (stringify a = stringify b)"

section \<open>Local references\<close>

fun replace_pair :: "char \<Rightarrow> char \<Rightarrow> char \<Rightarrow> string \<Rightarrow> string" where
  "replace_pair a b c (x # y # s) = (if x = a \<and> y = b then c # replace_pair a b c s else x # replace_pair a b c (y # s))"
| "replace_pair a b c s = s"

definition segment :: "string \<Rightarrow> string" where
  "segment raw = replace_pair (CHR ''~'') (CHR ''0'') (CHR ''~'') (replace_pair (CHR ''~'') (CHR ''1'') (CHR ''/'') raw)"

fun walk_pointer :: "json \<Rightarrow> string list \<Rightarrow> json option" where
  "walk_pointer cur [] = Some cur"
| "walk_pointer (JArr xs) (s # ss) =
     (if list_all is_digit s \<and> digits_val s < length xs then walk_pointer (xs ! digits_val s) ss else None)"
| "walk_pointer (JObj kvs) (s # ss) = (case map_of kvs s of None \<Rightarrow> None | Some v \<Rightarrow> walk_pointer v ss)"
| "walk_pointer _ (s # ss) = None"

definition is_schema_node :: "json \<Rightarrow> bool" where
  "is_schema_node v = (case v of JObj _ \<Rightarrow> True | JBool _ \<Rightarrow> True | _ \<Rightarrow> False)"

definition resolvePointer :: "json \<Rightarrow> string \<Rightarrow> json option" where
  "resolvePointer doc ref =
     (if \<not> is_record doc then None
      else let frag = tl ref in
        if frag = '''' \<or> frag = ''/'' then Some doc
        else if \<not> starts_with frag ''/'' then None
        else (case walk_pointer doc (map segment (split_on (CHR ''/'') (tl frag))) of
                None \<Rightarrow> None | Some v \<Rightarrow> if is_schema_node v then Some v else None))"

text \<open>Every string of a document; a reference can only be one of them.\<close>

primrec json_strings :: "json \<Rightarrow> string set" where
  "json_strings JNull = {}"
| "json_strings (JBool b) = {}"
| "json_strings (JNum m k) = {}"
| "json_strings (JStr s) = {s}"
| "json_strings (JArr xs) = \<Union> (set (map json_strings xs))"
| "json_strings (JObj kvs) = \<Union> (set (map snd (map (map_prod id json_strings) kvs)))"

lemma finite_json_strings [simp]: "finite (json_strings j)"
  by (induction j) (auto intro: snds.intros)

lemma strings_member: "map_of kvs k = Some v \<Longrightarrow> json_strings v \<subseteq> json_strings (JObj kvs)"
  by (auto simp: image_iff dest!: map_of_SomeD)

lemma strings_in: "(k, v) \<in> set kvs \<Longrightarrow> json_strings v \<subseteq> json_strings (JObj kvs)"
  by auto

lemma walk_pointer_strings: "walk_pointer j ss = Some v \<Longrightarrow> json_strings v \<subseteq> json_strings j"
proof (induction j ss rule: walk_pointer.induct)
  case (2 xs s ss)
  then have "json_strings v \<subseteq> json_strings (xs ! digits_val s)" "digits_val s < length xs" by (auto split: if_splits)
  moreover from this have "json_strings (xs ! digits_val s) \<subseteq> json_strings (JArr xs)" by auto (meson nth_mem)
  ultimately show ?case by blast
next
  case (3 kvs s ss)
  then obtain w where "map_of kvs s = Some w" "json_strings v \<subseteq> json_strings w" by (auto split: option.splits)
  then show ?case using strings_member by blast
qed auto

lemma resolvePointer_strings: "resolvePointer doc ref = Some v \<Longrightarrow> json_strings v \<subseteq> json_strings doc"
  by (auto simp: resolvePointer_def Let_def split: if_splits option.splits dest: walk_pointer_strings)

section \<open>Validation\<close>

definition type_errors :: "json dict \<Rightarrow> json \<Rightarrow> string \<Rightarrow> string list" where
  "type_errors s value path =
     (case map_of s ''type'' of
        None \<Rightarrow> []
      | Some t \<Rightarrow>
          let types = (case t of JArr ts \<Rightarrow> ts | _ \<Rightarrow> [t]) in
          if list_ex (\<lambda>t. matchesType t value) types then []
          else [path @ '': expected '' @ join ''|'' (map json_to_string types) @ '', got '' @ jsType value])"

definition enum_errors :: "json dict \<Rightarrow> json \<Rightarrow> string \<Rightarrow> string list" where
  "enum_errors s value path =
     (case map_of s ''enum'' of
        Some (JArr es) \<Rightarrow> if list_ex (\<lambda>e. deepEqual e value) es then [] else [path @ '': value not in enum'']
      | _ \<Rightarrow> [])
     @ (case map_of s ''const'' of
          None \<Rightarrow> []
        | Some c \<Rightarrow> if deepEqual c value then [] else [path @ '': value !== const''])"

definition required_errors :: "json dict \<Rightarrow> json dict \<Rightarrow> string \<Rightarrow> string list" where
  "required_errors s vals path =
     (let required = (case map_of s ''required'' of Some (JArr rs) \<Rightarrow> map json_to_string rs | _ \<Rightarrow> [])
      in map (\<lambda>r. path @ ''.'' @ r @ '': required property missing'') (filter (\<lambda>r. map_of vals r = None) required))"

definition additional_errors :: "json dict \<Rightarrow> json dict \<Rightarrow> json dict \<Rightarrow> string \<Rightarrow> string list" where
  "additional_errors s props vals path =
     (if map_of s ''additionalProperties'' = Some (JBool False)
      then map (\<lambda>k. path @ ''.'' @ k @ '': additional property not allowed'')
             (filter (\<lambda>k. map_of props k = None) (map fst vals))
      else [])"

lemma size_member: "map_of kvs k = Some v \<Longrightarrow> size v < size (JObj kvs)"
proof -
  assume "map_of kvs k = Some v"
  then have "(k, v) \<in> set kvs" by (rule map_of_SomeD)
  then show ?thesis by (induction kvs) auto
qed

lemma size_in: "(k, v) \<in> set kvs \<Longrightarrow> size v < size (JObj kvs)"
  by (induction kvs) auto

definition unseen :: "json \<Rightarrow> json \<Rightarrow> string set \<Rightarrow> nat" where
  "unseen doc s seen = card ((json_strings doc \<union> json_strings s) - seen)"

lemma unseen_mono: "json_strings t \<subseteq> json_strings s \<Longrightarrow> unseen doc t seen \<le> unseen doc s seen"
  unfolding unseen_def by (rule card_mono) auto

lemma unseen_ref:
  assumes "map_of s ''$ref'' = Some (JStr ref)" "ref \<notin> seen" "json_strings t \<subseteq> json_strings doc"
  shows "unseen doc t (insert ref seen) < unseen doc (JObj s) seen"
  unfolding unseen_def
proof (rule psubset_card_mono)
  have "ref \<in> json_strings (JObj s)" using strings_member[OF assms(1)] by auto
  then show "json_strings doc \<union> json_strings t - insert ref seen \<subset> json_strings doc \<union> json_strings (JObj s) - seen"
    using assms(2,3) by blast
qed simp

function validate :: "json \<Rightarrow> json \<Rightarrow> string \<Rightarrow> json \<Rightarrow> string set \<Rightarrow> string list" where
  "validate (JBool b) value path doc seen =
     (if b then [] else [path @ '': schema is false, so no value is valid here''])"
| "validate (JObj s) value path doc seen =
     (case map_of s ''$ref'' of
        Some (JStr ref) \<Rightarrow>
          if starts_with ref ''#'' \<and> ref \<notin> seen then
            (case resolvePointer doc ref of
               None \<Rightarrow> [] | Some target \<Rightarrow> validate target value path doc (insert ref seen))
          else []
      | _ \<Rightarrow> [])
     @ (if type_errors s value path \<noteq> [] then type_errors s value path
        else enum_errors s value path
           @ (case value of
                JObj vals \<Rightarrow>
                  (case map_of s ''properties'' of
                     Some (JObj props) \<Rightarrow>
                       required_errors s vals path
                       @ concat (map (\<lambda>(k, sub). case map_of vals k of
                                        None \<Rightarrow> [] | Some v \<Rightarrow> validate sub v (path @ ''.'' @ k) doc seen) props)
                       @ additional_errors s props vals path
                   | _ \<Rightarrow> [])
              | JArr vs \<Rightarrow>
                  (case map_of s ''items'' of
                     None \<Rightarrow> []
                   | Some items \<Rightarrow>
                       if is_schema_node items
                       then concat (map (\<lambda>(i, v). validate items v (path @ ''['' @ nat_to_string i @ '']'') doc seen)
                                      (enumerate 0 vs))
                       else [])
              | _ \<Rightarrow> []))"
| "validate JNull value path doc seen = []"
| "validate (JNum m k) value path doc seen = []"
| "validate (JStr t) value path doc seen = []"
| "validate (JArr xs) value path doc seen = []"
  by pat_completeness auto

termination
proof (relation "measures [\<lambda>(s, v, p, doc, seen). unseen doc s seen, \<lambda>(s, v, p, doc, seen). size s]", goal_cases)
  case 1
  then show ?case by simp
next
  case (2 s val path doc seen x2 ref target)
  then show ?case using unseen_ref[of s ref seen target doc] resolvePointer_strings by auto
next
  case (3 s val path doc seen vs items p i v)
  then have "json_strings items \<subseteq> json_strings (JObj s)" "size items < size (JObj s)"
    using strings_member[of s] size_member[of s] by blast+
  then show ?case using unseen_mono[of items "JObj s" doc seen] by (simp add: le_less)
next
  case (4 s val path doc seen vals x2 props p k sub v)
  then have k: "(k, sub) \<in> set props" "map_of s ''properties'' = Some (JObj props)" by auto
  have "json_strings sub \<subseteq> json_strings (JObj s)"
    using strings_in[OF k(1)] strings_member[OF k(2)] by blast
  moreover have "size sub < size (JObj s)" using size_in[OF k(1)] size_member[OF k(2)] by linarith
  ultimately show ?case using unseen_mono[of sub "JObj s" doc seen] by (simp add: le_less)
qed

declare validate.simps(2) [simp del]

definition validateJsonSchema :: "json \<Rightarrow> json \<Rightarrow> string list" where
  "validateJsonSchema schema value = validate schema value ''$'' schema {}"

section \<open>What acceptance means\<close>

text \<open>An object that is accepted has its required members, its declared members are accepted by their own schemas, and
  it has no other member where none is allowed.\<close>
theorem accepted_object:
  assumes "validate (JObj s) (JObj vals) path doc seen = []" "map_of s ''properties'' = Some (JObj props)"
  shows "(case map_of s ''required'' of Some (JArr rs) \<Rightarrow> json_to_string ` set rs \<subseteq> set (map fst vals) | _ \<Rightarrow> True)
    \<and> {(k, sub) \<in> set props. k \<in> set (map fst vals)}
       \<subseteq> {(k, sub). \<exists>v. map_of vals k = Some v \<and> validate sub v (path @ ''.'' @ k) doc seen = []}
    \<and> (map_of s ''additionalProperties'' = Some (JBool False) \<longrightarrow> set (map fst vals) \<subseteq> set (map fst props))"
proof (intro conjI)
  have t: "type_errors s (JObj vals) path = []"
    using assms(1) by (auto simp: validate.simps(2) split: if_splits)
  then have e: "required_errors s vals path = []" "additional_errors s props vals path = []"
    "concat (map (\<lambda>(k, sub). case map_of vals k of
        None \<Rightarrow> [] | Some v \<Rightarrow> validate sub v (path @ ''.'' @ k) doc seen) props) = []"
    using assms by (auto simp: validate.simps(2))
  have none: "map_of vals r = None \<longleftrightarrow> r \<notin> set (map fst vals)" for r by (simp add: map_of_eq_None_iff)
  show "case map_of s ''required'' of Some (JArr rs) \<Rightarrow> json_to_string ` set rs \<subseteq> set (map fst vals) | _ \<Rightarrow> True"
    using e(1) by (auto simp: required_errors_def Let_def filter_empty_conv none split: option.splits json.splits)
  show "{(k, sub) \<in> set props. k \<in> set (map fst vals)}
       \<subseteq> {(k, sub). \<exists>v. map_of vals k = Some v \<and> validate sub v (path @ ''.'' @ k) doc seen = []}"
  proof clarify
    fix k sub assume p: "(k, sub) \<in> set props" "k \<in> set (map fst vals)"
    then obtain v where v: "map_of vals k = Some v" using none[of k] by (cases "map_of vals k") auto
    have "(case map_of vals k of None \<Rightarrow> [] | Some v \<Rightarrow> validate sub v (path @ ''.'' @ k) doc seen) = []"
      using e(3) p(1) by auto
    with v show "\<exists>v. map_of vals k = Some v \<and> validate sub v (path @ ''.'' @ k) doc seen = []" by simp
  qed
  show "map_of s ''additionalProperties'' = Some (JBool False) \<longrightarrow> set (map fst vals) \<subseteq> set (map fst props)"
    using e(2) by (fastforce simp: additional_errors_def filter_empty_conv map_of_eq_None_iff)
qed

text \<open>\<open>required\<close> is only read when the schema also lists properties.\<close>
lemma required_needs_properties:
  "validateJsonSchema (JObj [(''type'', JStr ''object''), (''required'', JArr [JStr ''path''])]) (JObj []) = []"
  by (simp add: validateJsonSchema_def validate.simps(2) type_errors_def enum_errors_def matchesType_def jsType_def)

text \<open>A recursive schema is checked one level deep: the reference stays marked on the way down, so below the first
  child anything is accepted.\<close>

definition node_schema :: json where
  "node_schema = JObj [(''type'', JStr ''object''), (''properties'', JObj [(''child'', JObj [(''$ref'', JStr ''#'')])])]"

lemma recursive_schema_one_level:
  "validateJsonSchema node_schema (JObj [(''child'', JNum 5 0)]) \<noteq> []"
  "validateJsonSchema node_schema (JObj [(''child'', JObj [(''child'', JNum 5 0)])]) = []"
  by (simp_all add: validateJsonSchema_def validate.simps(2) type_errors_def enum_errors_def matchesType_def jsType_def
        node_schema_def resolvePointer_def is_record_def required_errors_def additional_errors_def)

lemma accepted_object_witness:
  "(case map_of [(''properties'', JObj [(''a'', JBool True)]), (''required'', JArr [JStr ''a''])] ''required'' of
      Some (JArr rs) \<Rightarrow> json_to_string ` set rs \<subseteq> set (map fst [(''a'', JNull)]) | _ \<Rightarrow> True)"
  using accepted_object[of "[(''properties'', JObj [(''a'', JBool True)]), (''required'', JArr [JStr ''a''])]" "[(''a'', JNull)]"
      "''$''" JNull "{}" "[(''a'', JBool True)]"]
  by (simp add: validate.simps(2) type_errors_def enum_errors_def required_errors_def additional_errors_def)

end
