(* ===== verification/AgentTools.thy ===== *)
theory AgentTools
  imports Permissions Approval JsonSchema Messages
begin

text \<open>
  The tools of an agent: \<open>AgentTool\<close> and \<open>ToolCallReport\<close> (\<open>src/agent/types.ts\<close>), their registry keys
  (\<open>tool-key.ts\<close>), the caller check (\<open>loop-internals.ts\<close>) and the lazy tools \<open>tool_search\<close> and \<open>call_tool\<close>
  (\<open>lazy-tools.ts\<close>). What a tool does when it is executed is not part of its record: it answers to the loop. A long
  dash of a message is written as two hyphens (its code unit is outside the model). The parameters of a function tool are a JSON schema; a Standard Schema object is converted before it gets here.
\<close>

section \<open>Tools and calls\<close>

definition dquote :: "string \<Rightarrow> string" where
  "dquote s = CHR 0x22 # s @ [CHR 0x22]"

record function_def =
  fd_name :: string
  fd_description :: "string option"
  fd_parameters :: json
  fd_strict :: "bool option"
  fd_cache :: "bool option"
  fd_allowedCallers :: "string list option"
  fd_outputSchema :: "json option"

datatype tool_def =
    FunctionDef function_def
  | BuiltinDef string "json dict option"

record agent_tool =
  at_object :: nat
  at_definition :: tool_def
  at_lazy :: bool
  at_outputGuardrails :: "string list"
  at_hasExtractor :: bool

record tool_call =
  ca_id :: string
  ca_name :: string
  ca_arguments :: "json dict"
  ca_caller :: "tool_caller option"
  ca_meta :: "json dict option"
  ca_malformed :: bool

definition call_part :: "tool_call \<Rightarrow> content_part" where
  "call_part tc = ToolCallPart (ca_id tc) (ca_name tc) (ca_arguments tc) (ca_caller tc) (ca_meta tc) (ca_malformed tc)"

record tool_report =
  tr_callId :: string
  tr_toolName :: string
  tr_arguments :: "json dict"
  tr_resultSize :: nat
  tr_latencyMs :: ms
  tr_skipped :: bool
  tr_error :: "string option"
  tr_customData :: "json option"
  tr_discoveredVia :: bool

definition toolKey :: "agent_tool \<Rightarrow> string" where
  "toolKey t = (case at_definition t of FunctionDef d \<Rightarrow> fd_name d | BuiltinDef ty _ \<Rightarrow> ty)"

definition describeTool :: "agent_tool \<Rightarrow> string" where
  "describeTool t = (case at_definition t of FunctionDef d \<Rightarrow> ''function:'' @ fd_name d | BuiltinDef ty _ \<Rightarrow> ''builtin:'' @ ty)"

definition definition_json :: "tool_def \<Rightarrow> json" where
  "definition_json d = (case d of
      FunctionDef f \<Rightarrow> JObj ([(''type'', JStr ''function''), (''name'', JStr (fd_name f))]
        @ opt_field ''description'' JStr (fd_description f) @ [(''parameters'', fd_parameters f)]
        @ opt_field ''strict'' JBool (fd_strict f) @ opt_field ''cache'' JBool (fd_cache f)
        @ opt_field ''allowedCallers'' (\<lambda>cs. JArr (map JStr cs)) (fd_allowedCallers f)
        @ opt_field ''outputSchema'' id (fd_outputSchema f))
    | BuiltinDef ty params \<Rightarrow> JObj ([(''type'', JStr ty)] @ opt_field ''params'' JObj params))"

definition callerViolation :: "tool_call \<Rightarrow> agent_tool \<Rightarrow> string option" where
  "callerViolation tc tool =
     (let caller = (case ca_caller tc of Some c \<Rightarrow> if tc_type c = ''program'' then ''programmatic'' else ''direct'' | None \<Rightarrow> ''direct'');
          allowed = nullish (case at_definition tool of FunctionDef d \<Rightarrow> fd_allowedCallers d | BuiltinDef _ _ \<Rightarrow> None) [''direct'']
      in if caller \<in> set allowed then None
         else Some (''Tool '' @ dquote (ca_name tc) @ '' was invoked by a '' @ caller @ '' caller, but it allows only ''
                 @ join '', '' allowed @ ''. The call was not executed.''))"

section \<open>Lazy tools\<close>

definition LAZY_SEARCH_TOOL :: string where "LAZY_SEARCH_TOOL = ''tool_search''"
definition LAZY_CALL_TOOL :: string where "LAZY_CALL_TOOL = ''call_tool''"

record lazy_config =
  lz_limit :: "nat option"
  lz_maxSearches :: "nat option"

definition DEFAULT_LIMIT :: nat where "DEFAULT_LIMIT = 5"
definition MAX_LIMIT :: nat where "MAX_LIMIT = 20"
definition DEFAULT_MAX_SEARCHES :: nat where "DEFAULT_MAX_SEARCHES = 5"

definition STOP_WORDS :: "string list" where
  "STOP_WORDS =
     [''the'', ''a'', ''an'', ''of'', ''for'', ''to'', ''in'', ''on'', ''and'', ''or'', ''is'', ''it'', ''that'', ''this'',
      ''with'', ''return'', ''returns'', ''my'', ''me'', ''do'', ''we'', ''i'', ''how'', ''many'', ''much'', ''what'',
      ''when'', ''has'', ''have'', ''need'', ''any'', ''get'', ''can'', ''you'', ''are'', ''was'', ''been'', ''does'',
      ''did'', ''should'', ''from'', ''by'', ''at'', ''as'', ''be'']"

definition is_word_char :: "char \<Rightarrow> bool" where
  "is_word_char c = (is_digit c \<or> (97 \<le> code_unit c \<and> code_unit c \<le> 122))"

text \<open>\<open>split\<close> at every other character; the empty words this adds are dropped by the length test.\<close>

fun split_words :: "string \<Rightarrow> string list" where
  "split_words [] = [[]]"
| "split_words (c # s) =
     (if is_word_char c then (c # hd (split_words s)) # tl (split_words s) else [] # split_words s)"

definition tokenize :: "string \<Rightarrow> string list" where
  "tokenize s = filter (\<lambda>w. length w > 2 \<and> w \<notin> set STOP_WORDS) (split_words (to_lower s))"

definition nameOf :: "agent_tool \<Rightarrow> string" where
  "nameOf t = (case at_definition t of FunctionDef d \<Rightarrow> fd_name d | BuiltinDef _ _ \<Rightarrow> [])"

definition parameter_names :: "function_def \<Rightarrow> string list" where
  "parameter_names d = (case json_prop (fd_parameters d) ''properties'' of Some (JObj props) \<Rightarrow> map fst props | _ \<Rightarrow> [])"

definition tool_score :: "string list \<Rightarrow> function_def \<Rightarrow> nat" where
  "tool_score q d =
     length (filter (\<lambda>w. w \<in> set q)
       (tokenize (fd_name d @ '' '' @ nullish (fd_description d) [] @ '' '' @ join '' '' (parameter_names d))))
     + 2 * length (filter (\<lambda>w. w \<in> set q) (tokenize (fd_name d)))"

definition scored :: "string list \<Rightarrow> agent_tool \<Rightarrow> (agent_tool \<times> nat) option" where
  "scored q t = (case at_definition t of
      FunctionDef d \<Rightarrow> if tool_score q d > 0 then Some (t, tool_score q d) else None
    | BuiltinDef _ _ \<Rightarrow> None)"

definition rankTools :: "string \<Rightarrow> agent_tool list \<Rightarrow> nat \<Rightarrow> agent_tool list" where
  "rankTools query candidates limit =
     (let q = tokenize query in
      if q = [] then []
      else map fst (take limit (sort_key (\<lambda>p. - int (snd p)) (List.map_filter (scored q) candidates))))"

record search_outcome =
  sr_result :: string
  sr_matched :: "string list"
  sr_unmatched :: "string list"

definition search_limit :: "lazy_config \<Rightarrow> nat" where
  "search_limit config = min (nullish (lz_limit config) DEFAULT_LIMIT) MAX_LIMIT"

definition query_texts :: "json dict \<Rightarrow> string list" where
  "query_texts args =
     List.map_filter (\<lambda>q. case q of JStr s \<Rightarrow> if trim s \<noteq> [] then Some s else None | _ \<Rightarrow> None)
       (case map_of args ''queries'' of None \<Rightarrow> [] | Some (JArr qs) \<Rightarrow> qs | Some v \<Rightarrow> [v])"

definition search_hits :: "agent_tool list \<Rightarrow> nat \<Rightarrow> string list \<Rightarrow> agent_tool dict \<times> string list" where
  "search_hits candidates limit queries =
     foldl (\<lambda>(hits, unmatched) q.
         let found = rankTools q candidates limit
         in (foldl (\<lambda>h t. AList.update (nameOf t) t h) hits found, if found = [] then unmatched @ [q] else unmatched))
       ([], []) queries"

text \<open>\<open>execute\<close> of \<open>tool_search\<close>: the result and the number of searches of the run after it; the outcome of
  \<open>onSearch\<close> when it is called.\<close>

definition search_execute ::
  "lazy_config \<Rightarrow> agent_tool list \<Rightarrow> nat \<Rightarrow> json dict \<Rightarrow> nat \<times> string \<times> (string list \<times> string list \<times> string list) option" where
  "search_execute config lazyTools searches args =
     (let maxSearches = nullish (lz_maxSearches config) DEFAULT_MAX_SEARCHES;
          n = searches + 1;
          queries = query_texts args;
          (hits, unmatched) = search_hits lazyTools (search_limit config) queries
      in if n > maxSearches then
           (n, stringify (JObj [(''error'', JStr (''Search budget exhausted ('' @ nat_to_string maxSearches
              @ '' searches per run). Use the tools you already found.''))]), None)
         else if queries = [] then
           (n, stringify (JObj [(''tools'', JArr []), (''error'', JStr ''Pass at least one query string in `queries`.'')]), None)
         else
           (n, stringify (JObj ([(''tools'', JArr (map (\<lambda>(k, t). definition_json (at_definition t)) hits))]
              @ (if unmatched = [] then []
                 else [(''unmatched'', JArr (map JStr unmatched)),
                       (''hint'', JStr (''These queries matched no tool. Search again for them using different words, or tell ''
                          @ ''the user the capability is unavailable.''))]))),
            Some (queries, map fst hits, unmatched)))"

text \<open>\<open>execute\<close> of \<open>call_tool\<close>: a text for the model, or the tool it runs with that tool's arguments.\<close>

datatype lazy_call =
    Answer string
  | RunTool agent_tool "json dict"

definition call_execute :: "agent_tool list \<Rightarrow> string list \<Rightarrow> json dict \<Rightarrow> lazy_call" where
  "call_execute lazyTools eagerNames args =
     (let name = (case map_of args ''name'' of None \<Rightarrow> [] | Some JNull \<Rightarrow> [] | Some v \<Rightarrow> json_to_string v) in
      case find (\<lambda>t. nameOf t = name) lazyTools of
        None \<Rightarrow>
          if name \<in> set eagerNames
          then Answer (dquote name @ '' is already available as a normal tool -- call it directly, not through call_tool.'')
          else Answer (''No tool named '' @ dquote name @ ''. Call tool_search first and use a name exactly as returned.'')
      | Some target \<Rightarrow>
          (case map_of args ''input'' of
             None \<Rightarrow> RunTool target []
           | Some (JObj input) \<Rightarrow> RunTool target input
           | Some v \<Rightarrow> Answer (''`input` must be an object of '' @ name @ [CHR 0x27] @ ''s arguments, not ''
               @ (case v of JArr _ \<Rightarrow> ''an array'' | JNull \<Rightarrow> ''object'' | _ \<Rightarrow> jsType v) @ ''.'')))"

definition unwrapLazyCall :: "string \<Rightarrow> json dict \<Rightarrow> string option" where
  "unwrapLazyCall toolName args =
     (if toolName \<noteq> LAZY_CALL_TOOL then None
      else (case map_of args ''name'' of Some (JStr inner) \<Rightarrow> if inner \<noteq> [] then Some inner else None | _ \<Rightarrow> None))"

end
