(* ===== verification/SystemLayers.thy ===== *)
theory SystemLayers
  imports ContextRegistry
begin

text \<open>
  \<open>src/agent/context-registry/layers.ts\<close>: the names and priorities of the system layers the agent loop writes, and
  its three writers.
\<close>

definition LAYER_AGENTLOOP_SYSTEM :: string where "LAYER_AGENTLOOP_SYSTEM = ''agentloop.system''"
definition LAYER_AGENTLOOP_CONTEXT :: string where "LAYER_AGENTLOOP_CONTEXT = ''agentloop.context''"
definition LAYER_LAZY_TOOLS :: string where "LAYER_LAZY_TOOLS = ''agentloop.lazy-tools''"
definition PRIORITY_AGENTLOOP_SYSTEM :: rat where "PRIORITY_AGENTLOOP_SYSTEM = 10"
definition PRIORITY_LAZY_TOOLS :: rat where "PRIORITY_LAZY_TOOLS = 20"
definition PRIORITY_AGENTLOOP_CONTEXT :: rat where "PRIORITY_AGENTLOOP_CONTEXT = 100"

definition write_layer :: "ms \<Rightarrow> string \<Rightarrow> rat \<Rightarrow> string option \<Rightarrow> string \<Rightarrow> registry \<Rightarrow> registry" where
  "write_layer now name priority text owner r =
     (case truthy_str text of
        None \<Rightarrow> snd (reg_remove name r)
      | Some t \<Rightarrow> reg_set now name (ContentText t)
          (no_options\<lparr>so_priority := Some priority, so_tags := Some [''system''], so_owner := Some owner\<rparr>) r)"

definition writeAgentLoopSystem :: "ms \<Rightarrow> string option \<Rightarrow> string \<Rightarrow> registry \<Rightarrow> registry" where
  "writeAgentLoopSystem now text owner r = write_layer now LAYER_AGENTLOOP_SYSTEM PRIORITY_AGENTLOOP_SYSTEM text owner r"

definition writeAgentLoopContext :: "ms \<Rightarrow> string option \<Rightarrow> string \<Rightarrow> registry \<Rightarrow> registry" where
  "writeAgentLoopContext now text owner r = write_layer now LAYER_AGENTLOOP_CONTEXT PRIORITY_AGENTLOOP_CONTEXT text owner r"

text \<open>A long dash of the protocol text is written as two hyphens (its code unit is outside the model).\<close>

definition LAZY_PROTOCOL :: string where
  "LAZY_PROTOCOL =
     ''Not all of your tools are listed. Use `tool_search` to find the ones you need -- ''
     @ ''it returns their exact names and full argument schemas -- ''
     @ ''then run them with `call_tool`. Search for every capability the request needs in ONE call, passing several queries. ''
     @ ''If the result reports a query as unmatched, search again with different words before answering; ''
     @ ''never answer as if a capability you could not find does not matter.''"

definition writeLazyToolsProtocol :: "ms \<Rightarrow> bool \<Rightarrow> string \<Rightarrow> registry \<Rightarrow> registry" where
  "writeLazyToolsProtocol now active owner r =
     (if \<not> active then snd (reg_remove LAYER_LAZY_TOOLS r)
      else reg_set now LAYER_LAZY_TOOLS (ContentText LAZY_PROTOCOL)
        (no_options\<lparr>so_priority := Some PRIORITY_LAZY_TOOLS, so_tags := Some [''system''], so_owner := Some owner\<rparr>) r)"

end
