(* ===== verification/History.thy ===== *)
theory History
  imports ContextRegistry
begin

text \<open>
  \<open>src/agent/history.ts\<close> and \<open>src/agent/history-types.ts\<close>: the conversation history. Its entries and counters,
  truncation and compaction, the token estimate, the legacy system prompt as a layer of its registry, fork,
  export and import. The registry of a history is used without a parent. The injected token counter is an
  argument (\<open>hi_counter\<close>); \<open>clock k\<close> is the time of the \<open>k\<close>-th call of \<open>Date.now()\<close> in a loop.
\<close>

section \<open>State\<close>

record history_entry =
  he_index :: nat
  he_message :: message
  he_timestamp :: ms
  he_model :: "string option"
  he_usage :: "usage option"
  he_latencyMs :: "ms option"
  he_tokenEstimate :: "nat option"

record append_meta =
  am_model :: "string option"
  am_usage :: "usage option"
  am_latencyMs :: "ms option"

datatype strategy = StrategyName string | NoStrategy

record history_config =
  hc_id :: "string option"
  hc_counter :: "(message \<Rightarrow> string \<Rightarrow> string \<Rightarrow> nat) option"
  hc_provider :: "string option"
  hc_model :: "string option"
  hc_strategy :: "strategy option"

record history =
  hi_entries :: "history_entry list"
  hi_id :: string
  hi_metadata :: "json dict"
  hi_createdAt :: ms
  hi_updatedAt :: ms
  hi_registry :: registry
  hi_lastActualTotal :: nat
  hi_lastActualEntryIndex :: int
  hi_counter :: "(message \<Rightarrow> string \<Rightarrow> string \<Rightarrow> nat) option"
  hi_provider :: "string option"
  hi_model :: "string option"

definition LEGACY_SYSTEM_LAYER :: string where "LEGACY_SYSTEM_LAYER = ''_legacy_system''"

definition history_registry :: "string \<Rightarrow> registry" where
  "history_registry i = new_ContextRegistry []
     \<lparr> rc_id = Some (''history-'' @ take 8 i), rc_defaultOwner = Some ''history'', rc_separator = None \<rparr>"

definition blank_history :: "ms \<Rightarrow> string \<Rightarrow> history" where
  "blank_history now i = \<lparr> hi_entries = [], hi_id = i, hi_metadata = [], hi_createdAt = now, hi_updatedAt = now,
     hi_registry = history_registry i, hi_lastActualTotal = 0, hi_lastActualEntryIndex = -1,
     hi_counter = None, hi_provider = None, hi_model = None \<rparr>"

text \<open>The constructor with an id, and with a config.\<close>

definition new_history :: "ms \<Rightarrow> string \<Rightarrow> string option \<Rightarrow> history" where
  "new_history now uuid i = blank_history now (nullish i uuid)"

definition configured_history :: "ms \<Rightarrow> string \<Rightarrow> history_config \<Rightarrow> history" where
  "configured_history now uuid config =
     (blank_history now (nullish (hc_id config) uuid))
       \<lparr>hi_counter := hc_counter config, hi_provider := hc_provider config, hi_model := hc_model config,
        hi_metadata := (case hc_strategy config of
            None \<Rightarrow> [] | Some NoStrategy \<Rightarrow> [(''contextStrategy'', JBool False)]
          | Some (StrategyName n) \<Rightarrow> [(''contextStrategy'', JStr n)])\<rparr>"

section \<open>Estimates\<close>

definition part_tokens :: "content_part \<Rightarrow> nat" where
  "part_tokens p = (case p of
      TextPart t _ _ \<Rightarrow> ceil_div4 (length t)
    | ToolCallPart _ _ args _ _ _ \<Rightarrow> ceil_div4 (length (stringify (JObj args))) + 10
    | ToolResultPart _ c _ _ _ \<Rightarrow> ceil_div4 (length (content_string c))
    | _ \<Rightarrow> 250)"

definition estimateTokens :: "content \<Rightarrow> nat" where
  "estimateTokens c = (case c of
      ContentText t \<Rightarrow> ceil_div4 (length t)
    | ContentParts ps \<Rightarrow> foldl (\<lambda>acc p. acc + part_tokens p) 0 ps)"

definition estimateTokensForMessage :: "history \<Rightarrow> message \<Rightarrow> nat" where
  "estimateTokensForMessage h msg =
     (case (hi_counter h, truthy_str (hi_provider h), truthy_str (hi_model h)) of
        (Some estimate, Some p, Some m) \<Rightarrow> estimate msg p m
      | _ \<Rightarrow> estimateTokens (msg_content msg))"

definition entry_tokens :: "history \<Rightarrow> history_entry \<Rightarrow> nat" where
  "entry_tokens h e = nullish (he_tokenEstimate e) (estimateTokensForMessage h (he_message e))"

section \<open>The system prompt\<close>

definition history_system :: "ms \<Rightarrow> history \<Rightarrow> string option" where
  "history_system now h =
     (let flat = rr_flat (render_local now (no_filter\<lparr>ro_tag := Some ''system'', ro_includeParent := Some False\<rparr>) (hi_registry h))
      in if length flat > 0 then Some flat else None)"

definition set_system :: "ms \<Rightarrow> string option \<Rightarrow> history \<Rightarrow> history" where
  "set_system now value h =
     (h\<lparr>hi_registry :=
          (case truthy_str value of
             None \<Rightarrow> snd (reg_remove LEGACY_SYSTEM_LAYER (hi_registry h))
           | Some v \<Rightarrow> reg_set now LEGACY_SYSTEM_LAYER (ContentText v)
               (no_options\<lparr>so_priority := Some 200, so_tags := Some [''system''], so_owner := Some ''history.system-setter''\<rparr>)
               (hi_registry h)),
        hi_updatedAt := now\<rparr>)"

definition appendSystem :: "ms \<Rightarrow> string \<Rightarrow> history \<Rightarrow> history" where
  "appendSystem now t h =
     (let prior = (case reg_get LEGACY_SYSTEM_LAYER (hi_registry h) of
                     None \<Rightarrow> []
                   | Some l \<Rightarrow> (case ly_content l of ContentText s \<Rightarrow> s | ContentParts _ \<Rightarrow> []));
          new = (if prior \<noteq> [] then prior @ [LF, LF] @ t else t)
      in h\<lparr>hi_registry := reg_set now LEGACY_SYSTEM_LAYER (ContentText new)
             (no_options\<lparr>so_priority := Some 200, so_tags := Some [''system''], so_owner := Some ''history.appendSystem''\<rparr>)
             (hi_registry h),
           hi_updatedAt := now\<rparr>)"

section \<open>Entries\<close>

definition history_length :: "history \<Rightarrow> nat" where
  "history_length h = length (hi_entries h)"

definition recordActualUsage :: "ms \<Rightarrow> nat \<Rightarrow> history \<Rightarrow> history" where
  "recordActualUsage now inputTokens h =
     h\<lparr>hi_lastActualTotal := inputTokens, hi_lastActualEntryIndex := int (length (hi_entries h)) - 1, hi_updatedAt := now\<rparr>"

definition setMetadata :: "ms \<Rightarrow> string \<Rightarrow> json \<Rightarrow> history \<Rightarrow> history" where
  "setMetadata now key v h = h\<lparr>hi_metadata := AList.update key v (hi_metadata h), hi_updatedAt := now\<rparr>"

definition append_entry :: "ms \<Rightarrow> message \<Rightarrow> append_meta option \<Rightarrow> history \<Rightarrow> history_entry \<times> history" where
  "append_entry now message meta h =
     (let usage = Option.bind meta am_usage;
          h1 = (case usage of
                  Some u \<Rightarrow> if msg_role message = Assistant \<and> us_inputTokens u > 0
                            then h\<lparr>hi_lastActualTotal := us_inputTokens u,
                                   hi_lastActualEntryIndex := int (length (hi_entries h)) - 1\<rparr> else h
                | None \<Rightarrow> h);
          tokenEstimate = (case usage of
                  Some u \<Rightarrow> if msg_role message = Assistant \<and> us_outputTokens u \<noteq> 0 then us_outputTokens u
                            else estimateTokensForMessage h1 message
                | None \<Rightarrow> estimateTokensForMessage h1 message);
          entry = \<lparr> he_index = length (hi_entries h1), he_message = message, he_timestamp = now,
                    he_model = Option.bind meta am_model, he_usage = usage,
                    he_latencyMs = Option.bind meta am_latencyMs, he_tokenEstimate = Some tokenEstimate \<rparr>
      in (entry, h1\<lparr>hi_entries := hi_entries h1 @ [entry], hi_updatedAt := now\<rparr>))"

definition messages :: "history \<Rightarrow> message list" where
  "messages h = map he_message (hi_entries h)"

definition at_index :: "int \<Rightarrow> history \<Rightarrow> history_entry option" where
  "at_index index h =
     (let n = int (length (hi_entries h)); i = (if index < 0 then n + index else index)
      in if 0 \<le> i \<and> i < n then Some (hi_entries h ! nat i) else None)"

text \<open>\<open>xs.slice(start)\<close>.\<close>

definition js_slice :: "int \<Rightarrow> 'a list \<Rightarrow> 'a list" where
  "js_slice start xs = drop (nat (if start < 0 then max 0 (int (length xs) + start) else start)) xs"

definition last_entries :: "int \<Rightarrow> history \<Rightarrow> history_entry list" where
  "last_entries n h = js_slice (- n) (hi_entries h)"

definition lastMessages :: "int \<Rightarrow> history \<Rightarrow> message list" where
  "lastMessages n h = map he_message (js_slice (- n) (hi_entries h))"

definition filter_entries :: "(history_entry \<Rightarrow> bool) \<Rightarrow> history \<Rightarrow> history_entry list" where
  "filter_entries fn h = filter fn (hi_entries h)"

definition byRole :: "role \<Rightarrow> history \<Rightarrow> history_entry list" where
  "byRole r h = filter (\<lambda>e. msg_role (he_message e) = r) (hi_entries h)"

definition add_usage :: "usage \<Rightarrow> history_entry \<Rightarrow> usage" where
  "add_usage acc e = (case he_usage e of
      None \<Rightarrow> acc
    | Some u \<Rightarrow> acc\<lparr>us_inputTokens := us_inputTokens acc + us_inputTokens u,
        us_outputTokens := us_outputTokens acc + us_outputTokens u,
        us_totalTokens := us_totalTokens acc + us_totalTokens u,
        us_cachedTokens := us_cachedTokens acc + us_cachedTokens u,
        us_cacheWriteTokens := us_cacheWriteTokens acc + us_cacheWriteTokens u,
        us_reasoningTokens := us_reasoningTokens acc + us_reasoningTokens u\<rparr>)"

definition totalUsage :: "history \<Rightarrow> usage" where
  "totalUsage h = foldl add_usage emptyUsage (hi_entries h)"

definition estimatedTokens :: "ms \<Rightarrow> history \<Rightarrow> nat" where
  "estimatedTokens now h =
     (let n = length (hi_entries h); anchor = hi_lastActualEntryIndex h in
      if 0 \<le> anchor \<and> anchor < int n then
        foldl (\<lambda>acc e. acc + entry_tokens h e) (hi_lastActualTotal h) (drop (nat anchor + 1) (hi_entries h))
      else
        foldl (\<lambda>acc e. acc + entry_tokens h e)
          (case history_system now h of None \<Rightarrow> 0 | Some s \<Rightarrow> estimateTokens (ContentText s)) (hi_entries h))"

definition clear_history :: "ms \<Rightarrow> history \<Rightarrow> history" where
  "clear_history now h = h\<lparr>hi_entries := [], hi_updatedAt := now\<rparr>"

section \<open>Truncation and compaction\<close>

definition part_list :: "message \<Rightarrow> content_part list" where
  "part_list m = (case msg_content m of ContentText _ \<Rightarrow> [] | ContentParts ps \<Rightarrow> ps)"

definition result_ids :: "message \<Rightarrow> string list" where
  "result_ids m = List.map_filter (\<lambda>p. case p of ToolResultPart i _ _ _ _ \<Rightarrow> Some i | _ \<Rightarrow> None) (part_list m)"

definition call_ids :: "message \<Rightarrow> string list" where
  "call_ids m = List.map_filter (\<lambda>p. case p of ToolCallPart i _ _ _ _ _ \<Rightarrow> Some i | _ \<Rightarrow> None) (part_list m)"

text \<open>\<open>isOrphanedResult\<close> on the entries from \<open>i\<close> on.\<close>

definition isOrphanedResult :: "history_entry list \<Rightarrow> bool" where
  "isOrphanedResult es = (case es of
      [] \<Rightarrow> False
    | e # _ \<Rightarrow> list_ex (\<lambda>i. i \<notin> set (concat (map (\<lambda>e. call_ids (he_message e)) es))) (result_ids (he_message e)))"

text \<open>\<open>while (cut < length && isOrphanedResult(cut)) cut++\<close>, on the entries from \<open>cut\<close> on.\<close>

fun orphans_skipped :: "history_entry list \<Rightarrow> nat" where
  "orphans_skipped [] = 0"
| "orphans_skipped (e # es) = (if isOrphanedResult (e # es) then Suc (orphans_skipped es) else 0)"

definition reindex :: "history_entry list \<Rightarrow> history_entry list" where
  "reindex es = map (\<lambda>(i, e). e\<lparr>he_index := i\<rparr>) (enumerate 0 es)"

definition truncate_history :: "ms \<Rightarrow> int \<Rightarrow> history \<Rightarrow> history_entry list \<times> history" where
  "truncate_history now keepLast h =
     (let es = hi_entries h; n = int (length es) in
      if keepLast \<ge> n then ([], h)
      else (let cut0 = nat (n - keepLast); cut = cut0 + orphans_skipped (drop cut0 es)
            in (take cut es, h\<lparr>hi_entries := reindex (drop cut es), hi_updatedAt := now\<rparr>)))"

definition spliceRange :: "ms \<Rightarrow> int \<Rightarrow> int \<Rightarrow> message \<Rightarrow> history \<Rightarrow> history_entry list \<times> history" where
  "spliceRange now a b replacement h =
     (if a < 0 \<or> b > int (length (hi_entries h)) \<or> a \<ge> b then ([], h)
      else (let i = nat a; j = nat b; removed = take (j - i) (drop i (hi_entries h));
                newest = foldl (\<lambda>t e. max t (he_timestamp e)) 0 removed;
                entry = \<lparr> he_index = i, he_message = replacement, he_timestamp = (if newest = 0 then now else newest),
                          he_model = None, he_usage = None, he_latencyMs = None, he_tokenEstimate = None \<rparr>;
                h1 = h\<lparr>hi_entries := reindex (take i (hi_entries h) @ entry # drop j (hi_entries h)), hi_updatedAt := now\<rparr>
            in (removed, if hi_lastActualEntryIndex h \<ge> a
                         then h1\<lparr>hi_lastActualTotal := 0, hi_lastActualEntryIndex := -1\<rparr> else h1)))"

section \<open>Fork, export, import\<close>

text \<open>The layers copied one by one through \<open>registry.set\<close>.\<close>

definition copy_options :: "layer \<Rightarrow> set_options" where
  "copy_options l = \<lparr> so_priority = Some (ly_priority l), so_tags = Some (ly_tags l), so_owner = ly_owner l,
     so_mergeParent = ly_mergeParent l, so_metadata = ly_metadata l \<rparr>"

fun copy_layers :: "(nat \<Rightarrow> ms) \<Rightarrow> nat \<Rightarrow> layer list \<Rightarrow> registry \<Rightarrow> registry" where
  "copy_layers clock k [] r = r"
| "copy_layers clock k (l # ls) r =
     copy_layers clock (Suc k) ls (reg_set (clock k) (ly_name l) (ly_content l) (copy_options l) r)"

definition fork :: "(nat \<Rightarrow> ms) \<Rightarrow> string \<Rightarrow> string option \<Rightarrow> history \<Rightarrow> history" where
  "fork clock uuid newId h =
     (let f = new_history (clock 0) uuid newId in
      f\<lparr>hi_metadata := hi_metadata h, hi_entries := hi_entries h,
        hi_registry := copy_layers clock 1 (map snd (rg_layers (hi_registry h))) (hi_registry f)\<rparr>)"

record history_snapshot =
  hs_id :: string
  hs_entries :: "history_entry list"
  hs_system :: "string option"
  hs_registry :: "registry_snapshot option"
  hs_metadata :: "json dict"
  hs_createdAt :: ms
  hs_updatedAt :: ms

definition export_history :: "history \<Rightarrow> history_snapshot" where
  "export_history h = \<lparr> hs_id = hi_id h, hs_entries = hi_entries h, hs_system = None,
     hs_registry = Some (reg_snapshot (hi_registry h)), hs_metadata = hi_metadata h,
     hs_createdAt = hi_createdAt h, hs_updatedAt = hi_updatedAt h \<rparr>"

definition import_history :: "(nat \<Rightarrow> ms) \<Rightarrow> history_snapshot \<Rightarrow> history" where
  "import_history clock snap =
     (let h = (blank_history (clock 0) (hs_id snap))\<lparr>hi_metadata := hs_metadata snap, hi_createdAt := hs_createdAt snap,
                hi_updatedAt := hs_updatedAt snap, hi_entries := hs_entries snap\<rparr>
      in case hs_registry snap of
           Some rs \<Rightarrow> h\<lparr>hi_registry := copy_layers clock 1 (sn_layers rs) (hi_registry h)\<rparr>
         | None \<Rightarrow> (case hs_system snap of None \<Rightarrow> h | Some s \<Rightarrow> set_system (clock 1) (Some s) h))"

section \<open>Indices\<close>

definition indexed :: "history \<Rightarrow> bool" where
  "indexed h = (\<forall>i<length (hi_entries h). he_index (hi_entries h ! i) = i)"

lemma reindex_nth: "i < length es \<Longrightarrow> reindex es ! i = (es ! i)\<lparr>he_index := i\<rparr>"
  by (simp add: reindex_def nth_enumerate_eq)

lemma length_reindex [simp]: "length (reindex es) = length es"
  by (simp add: reindex_def)

lemma messages_reindex: "map he_message (reindex es) = map he_message es"
  by (rule nth_equalityI) (simp_all add: reindex_nth)

datatype history_op =
    Append ms message "append_meta option"
  | Truncate ms int
  | Splice ms int int message
  | ClearEntries ms
  | RecordUsage ms nat
  | SetSystem ms "string option"
  | AppendSystem ms string
  | SetMetadata ms string json

definition history_step :: "history_op \<Rightarrow> history \<Rightarrow> history" where
  "history_step e h = (case e of
      Append now m meta \<Rightarrow> snd (append_entry now m meta h)
    | Truncate now k \<Rightarrow> snd (truncate_history now k h)
    | Splice now a b m \<Rightarrow> snd (spliceRange now a b m h)
    | ClearEntries now \<Rightarrow> clear_history now h
    | RecordUsage now n \<Rightarrow> recordActualUsage now n h
    | SetSystem now v \<Rightarrow> set_system now v h
    | AppendSystem now t \<Rightarrow> appendSystem now t h
    | SetMetadata now k v \<Rightarrow> setMetadata now k v h)"

definition history_run :: "history_op list \<Rightarrow> history \<Rightarrow> history" where
  "history_run es h = fold history_step es h"

text \<open>An anchor is either unset or was recorded when the history had that many entries.\<close>

definition history_ok :: "history \<Rightarrow> bool" where
  "history_ok h = (indexed h \<and> layers_ok (hi_registry h) \<and> -1 \<le> hi_lastActualEntryIndex h)"

lemma append_ops:
  "hi_entries (snd (append_entry now m meta h)) = hi_entries h @ [fst (append_entry now m meta h)]"
  "he_index (fst (append_entry now m meta h)) = length (hi_entries h)"
  "he_message (fst (append_entry now m meta h)) = m"
  "hi_registry (snd (append_entry now m meta h)) = hi_registry h"
  "-1 \<le> hi_lastActualEntryIndex h \<Longrightarrow> -1 \<le> hi_lastActualEntryIndex (snd (append_entry now m meta h))"
  by (auto simp: append_entry_def Let_def split: option.split)

lemma history_ok_step: "history_ok h \<Longrightarrow> history_ok (history_step e h)"
proof (cases e)
  case (Append now m meta)
  assume "history_ok h"
  with Append show ?thesis
    by (auto simp: history_ok_def indexed_def history_step_def append_ops nth_append less_Suc_eq)
next
  case (Truncate now k)
  assume "history_ok h"
  with Truncate show ?thesis
    by (auto simp: history_ok_def indexed_def history_step_def truncate_history_def Let_def reindex_nth)
next
  case (Splice now a b m)
  assume "history_ok h"
  with Splice show ?thesis
    by (auto simp: history_ok_def indexed_def history_step_def spliceRange_def Let_def reindex_nth simp del: nth_append)
next
  case (SetSystem now v)
  assume "history_ok h"
  with SetSystem show ?thesis
    by (auto simp: history_ok_def indexed_def history_step_def set_system_def layers_ok_set layers_ok_remove split: option.split)
next
  case (AppendSystem now t)
  assume "history_ok h"
  with AppendSystem show ?thesis
    by (auto simp: history_ok_def indexed_def history_step_def appendSystem_def Let_def layers_ok_set)
qed (auto simp: history_ok_def indexed_def history_step_def clear_history_def recordActualUsage_def setMetadata_def)

lemma history_ok_new: "history_ok (new_history now uuid i)"
  by (simp add: history_ok_def indexed_def new_history_def blank_history_def history_registry_def)

lemma history_ok_run: "history_ok h \<Longrightarrow> history_ok (history_run es h)"
  unfolding history_run_def by (induction es arbitrary: h) (simp_all add: history_ok_step)

section \<open>Truncation\<close>

lemma orphans_le: "orphans_skipped es \<le> length es"
  by (induction es) simp_all

lemma orphans_stop: "\<not> isOrphanedResult (drop (orphans_skipped es) es)"
proof (induction es)
  case Nil
  then show ?case by (simp add: isOrphanedResult_def)
qed simp

lemma orphaned_by_messages:
  assumes "map he_message xs = map he_message ys"
  shows "isOrphanedResult xs = isOrphanedResult ys"
proof -
  have "map (\<lambda>e. call_ids (he_message e)) xs = map (\<lambda>e. call_ids (he_message e)) ys"
    using arg_cong[OF assms, of "map call_ids"] by (simp add: comp_def)
  with assms show ?thesis by (cases xs; cases ys) (auto simp: isOrphanedResult_def)
qed

section \<open>Copied layers\<close>

definition copied :: "ms \<Rightarrow> registry \<Rightarrow> layer \<Rightarrow> layer" where
  "copied now r l = l\<lparr>ly_owner := or_else (ly_owner l) (rg_defaultOwner r), ly_version := 1, ly_createdAt := now,
     ly_updatedAt := now\<rparr>"

lemma copy_layers_fresh:
  assumes "distinct (map ly_name ls)" "ly_name ` set ls \<inter> fst ` set (rg_layers r) = {}"
  shows "rg_layers (copy_layers clock k ls r) =
      rg_layers r @ map (\<lambda>(j, l). (ly_name l, copied (clock j) r l)) (enumerate k ls)"
  using assms
proof (induction ls arbitrary: k r)
  case Nil
  then show ?case by simp
next
  case (Cons l ls)
  have "map_of (rg_layers r) (ly_name l) = None" using Cons.prems(2) by (simp add: map_of_eq_None_iff)
  then have "new_layer (clock k) (ly_name l) (ly_content l) (copy_options l) r = copied (clock k) r l"
    by (simp add: new_layer_def reg_get_def copy_options_def copied_def Let_def)
  then have s: "reg_set (clock k) (ly_name l) (ly_content l) (copy_options l) r
      = r\<lparr>rg_layers := rg_layers r @ [(ly_name l, copied (clock k) r l)]\<rparr>"
    using Cons.prems(2) by (simp add: reg_set_def update_append)
  have "ly_name ` set ls \<inter> fst ` set (rg_layers r @ [(ly_name l, copied (clock k) r l)]) = {}"
    using Cons.prems by auto
  with Cons.IH[of "r\<lparr>rg_layers := rg_layers r @ [(ly_name l, copied (clock k) r l)]\<rparr>" "Suc k"] Cons.prems(1)
  show ?case by (simp add: s copied_def)
qed

lemma layer_names: "layers_ok r \<Longrightarrow> map ly_name (map snd (rg_layers r)) = map fst (rg_layers r)"
  by (auto simp: layers_ok_def)

lemma imported_layers:
  assumes "layers_ok (hi_registry h)" "rg_layers r = []"
  shows "map snd (rg_layers (copy_layers clock k (map snd (rg_layers (hi_registry h))) r))
    = map (\<lambda>(j, l). copied (clock j) r l) (enumerate k (map snd (rg_layers (hi_registry h))))"
proof -
  have "distinct (map ly_name (map snd (rg_layers (hi_registry h))))"
    unfolding layer_names[OF assms(1)] using assms(1) by (simp add: layers_ok_def)
  from copy_layers_fresh[OF this, of r clock k] assms(2) show ?thesis by (simp add: comp_def case_prod_unfold)
qed

section \<open>Properties\<close>

text \<open>an entry's index is its position: after any sequence of appends, truncations, compactions, clears and system
  prompt changes of a new history, the \<open>k\<close>-th entry carries the index \<open>k\<close>.\<close>

theorem indices_are_positions:
  assumes "k < history_length (history_run es (new_history now uuid i))"
  shows "map_option he_index (at_index (int k) (history_run es (new_history now uuid i))) = Some k"
  using history_ok_run[OF history_ok_new, of es now uuid i] assms
  by (simp add: history_ok_def indexed_def at_index_def history_length_def Let_def)

text \<open>truncation keeps a suffix: the removed and the kept messages together are the old ones in order, at most
  \<open>keepLast\<close> entries stay, and the first kept entry holds no tool result whose call was cut away.\<close>

theorem truncate_keeps_suffix:
  fixes h :: history and now :: ms and keepLast :: int
  defines "es \<equiv> hi_entries (snd (truncate_history now keepLast h))"
  assumes "0 \<le> keepLast" "keepLast < int (history_length h)"
  shows "map he_message (fst (truncate_history now keepLast h)) @ map he_message es = messages h
    \<and> int (length es) \<le> keepLast \<and> (es \<noteq> [] \<longrightarrow>
        set (result_ids (he_message (hd es))) \<subseteq> set (concat (map (\<lambda>e. call_ids (he_message e)) es)))"
proof -
  let ?start = "nat (int (length (hi_entries h)) - keepLast)"
  let ?c = "?start + orphans_skipped (drop ?start (hi_entries h))"
  have t: "truncate_history now keepLast h = (take ?c (hi_entries h), h\<lparr>hi_entries := reindex (drop ?c (hi_entries h)), hi_updatedAt := now\<rparr>)"
    using assms(3) by (simp add: truncate_history_def Let_def history_length_def)
  have es: "es = reindex (drop ?c (hi_entries h))" by (simp add: es_def t)
  have "drop ?c (hi_entries h) = drop (orphans_skipped (drop ?start (hi_entries h))) (drop ?start (hi_entries h))"
    by (simp add: add.commute)
  then have "\<not> isOrphanedResult (drop ?c (hi_entries h))" by (simp only: orphans_stop not_False_eq_True)
  moreover have "isOrphanedResult (reindex xs) = isOrphanedResult xs" for xs
    by (rule orphaned_by_messages) (rule messages_reindex)
  ultimately have "\<not> isOrphanedResult es" by (simp add: es)
  then have "es \<noteq> [] \<longrightarrow> set (result_ids (he_message (hd es))) \<subseteq> set (concat (map (\<lambda>e. call_ids (he_message e)) es))"
    by (cases es) (auto simp: isOrphanedResult_def list_ex_iff)
  moreover have "map he_message (take ?c (hi_entries h)) @ map he_message es = messages h"
    by (simp add: es messages_reindex messages_def flip: map_append)
  moreover have "int (length es) \<le> keepLast" using assms(2) by (simp add: es)
  ultimately show ?thesis by (simp add: t)
qed

text \<open>the estimate after a completion: once the history is not empty, appending an assistant message with reported
  usage makes the estimate of the next request exactly the reported input plus output tokens, and each later
  message adds its own estimate.\<close>

theorem estimate_after_completion:
  fixes h :: history and u :: usage and m m' :: message and meta :: append_meta and now now' t :: ms
  defines "h1 \<equiv> snd (append_entry now m (Some meta) h)"
  assumes "hi_entries h \<noteq> []" "msg_role m = Assistant" "am_usage meta = Some u"
    "0 < us_inputTokens u" "0 < us_outputTokens u" "msg_role m' = User"
  shows "estimatedTokens t h1 = us_inputTokens u + us_outputTokens u
    \<and> estimatedTokens t (snd (append_entry now' m' None h1)) =
        us_inputTokens u + us_outputTokens u + estimateTokensForMessage h1 m'"
proof -
  let ?e = "fst (append_entry now m (Some meta) h)"
  have h1: "hi_entries h1 = hi_entries h @ [?e]" "hi_lastActualTotal h1 = us_inputTokens u"
    "hi_lastActualEntryIndex h1 = int (length (hi_entries h)) - 1" "he_tokenEstimate ?e = Some (us_outputTokens u)"
    using assms(3-6) by (auto simp: h1_def append_entry_def Let_def)
  let ?h2 = "snd (append_entry now' m' None h1)"
  have h2: "hi_entries ?h2 = hi_entries h1 @ [fst (append_entry now' m' None h1)]"
    "hi_lastActualTotal ?h2 = hi_lastActualTotal h1" "hi_lastActualEntryIndex ?h2 = hi_lastActualEntryIndex h1"
    "he_tokenEstimate (fst (append_entry now' m' None h1)) = Some (estimateTokensForMessage h1 m')"
    by (auto simp: append_entry_def Let_def)
  have n: "nat (int (length (hi_entries h)) - 1) + 1 = length (hi_entries h)" "0 < length (hi_entries h)"
    using assms(2) by (cases "hi_entries h"; simp)+
  show ?thesis using n by (simp add: estimatedTokens_def Let_def h1 h2 entry_tokens_def)
qed

text \<open>exporting a history and importing the snapshot keeps its identity, entries, metadata, times and total usage,
  and every registry layer in its place with its name, content, priority, tags, merge flag and metadata; only a
  layer's version and times start anew.\<close>

theorem export_import_keeps_conversation:
  fixes h :: history and clock :: "nat \<Rightarrow> ms"
  defines "h' \<equiv> import_history clock (export_history h)"
  assumes "layers_ok (hi_registry h)" "\<forall>l\<in>set (map snd (rg_layers (hi_registry h))). ly_owner l \<noteq> None"
  shows "hi_id h' = hi_id h \<and> hi_entries h' = hi_entries h \<and> hi_metadata h' = hi_metadata h
    \<and> hi_createdAt h' = hi_createdAt h \<and> hi_updatedAt h' = hi_updatedAt h \<and> totalUsage h' = totalUsage h
    \<and> map (\<lambda>l. l\<lparr>ly_version := 0, ly_createdAt := 0, ly_updatedAt := 0\<rparr>) (map snd (rg_layers (hi_registry h')))
      = map (\<lambda>l. l\<lparr>ly_version := 0, ly_createdAt := 0, ly_updatedAt := 0\<rparr>) (map snd (rg_layers (hi_registry h)))"
proof -
  let ?norm = "\<lambda>l. l\<lparr>ly_version := 0, ly_createdAt := 0, ly_updatedAt := 0\<rparr> :: layer"
  let ?ls = "map snd (rg_layers (hi_registry h))"
  have owner: "or_else (ly_owner l) b = ly_owner l" if "l \<in> set ?ls" for l b
    using assms(3) that by (cases "ly_owner l") auto
  have reg: "hi_registry h' = copy_layers clock 1 ?ls (history_registry (hi_id h))"
    by (simp add: h'_def import_history_def export_history_def reg_snapshot_def blank_history_def Let_def)
  have "map snd (rg_layers (hi_registry h')) = map (\<lambda>(j, l). copied (clock j) (history_registry (hi_id h)) l) (enumerate 1 ?ls)"
    unfolding reg by (rule imported_layers[OF assms(2)]) (simp add: history_registry_def new_ContextRegistry_def)
  moreover have "?norm (copied now r l) = ?norm l" if "l \<in> set ?ls" for now r l
    using owner[OF that] by (simp add: copied_def)
  moreover have "(j, l) \<in> set (enumerate 1 ?ls) \<Longrightarrow> l \<in> set ?ls" for j l by (auto simp: in_set_enumerate_eq)
  ultimately have "map ?norm (map snd (rg_layers (hi_registry h'))) = map (\<lambda>(j, l). ?norm l) (enumerate 1 ?ls)"
    by (auto simp: case_prod_unfold)
  also have "\<dots> = map ?norm (map snd (enumerate 1 ?ls))" by (simp only: map_map comp_def case_prod_unfold)
  also have "\<dots> = map ?norm ?ls" by (simp only: map_snd_enumerate)
  finally show ?thesis
    by (simp add: h'_def import_history_def export_history_def blank_history_def totalUsage_def Let_def)
qed

section \<open>Concrete histories\<close>

definition plain_message :: "role \<Rightarrow> content \<Rightarrow> message" where
  "plain_message r c = \<lparr> msg_role = r, msg_content = c, msg_cache = None, msg_id = None, msg_createdAt = None, msg_origin = None \<rparr>"

definition user_says :: "string \<Rightarrow> history_op" where
  "user_says t = Append 1 (plain_message User (ContentText t)) None"

definition used :: "nat \<Rightarrow> nat \<Rightarrow> usage" where
  "used i n = emptyUsage\<lparr>us_inputTokens := i, us_outputTokens := n, us_totalTokens := i + n\<rparr>"

definition assistant_says :: "string \<Rightarrow> nat \<Rightarrow> nat \<Rightarrow> history_op" where
  "assistant_says t i n = Append 2 (plain_message Assistant (ContentText t))
     (Some \<lparr> am_model = None, am_usage = Some (used i n), am_latencyMs = None \<rparr>)"

definition assistant_calls :: "string \<Rightarrow> history_op" where
  "assistant_calls i = Append 3 (plain_message Assistant (ContentParts [ToolCallPart i ''search'' [] None None False])) None"

definition tool_answers :: "string \<Rightarrow> history_op" where
  "tool_answers i = Append 4 (plain_message Tool (ContentParts [ToolResultPart i (ContentText ''found'') None None None])) None"

definition chat :: "history_op list \<Rightarrow> history" where
  "chat es = history_run es (new_history 0 ''0123456789'' None)"

lemma chat_ok: "history_ok (chat es)"
  by (simp add: chat_def history_ok_run history_ok_new)

theorem indices_are_positions_witness:
  "map_option he_index (at_index 1 (chat [user_says ''a'', user_says ''b'', user_says ''c'', Truncate 5 2])) = Some 1"
proof -
  have "1 < history_length (chat [user_says ''a'', user_says ''b'', user_says ''c'', Truncate 5 2])" by code_simp
  from indices_are_positions[OF this[unfolded chat_def]] show ?thesis by (simp add: chat_def)
qed

theorem truncate_keeps_suffix_witness:
  "map he_message (fst (truncate_history 5 1 (chat [assistant_calls ''x'', tool_answers ''x''])))
     @ map he_message (hi_entries (snd (truncate_history 5 1 (chat [assistant_calls ''x'', tool_answers ''x'']))))
   = messages (chat [assistant_calls ''x'', tool_answers ''x''])
   \<and> int (length (hi_entries (snd (truncate_history 5 1 (chat [assistant_calls ''x'', tool_answers ''x'']))))) \<le> 1"
proof -
  have "1 < int (history_length (chat [assistant_calls ''x'', tool_answers ''x'']))" by code_simp
  with truncate_keeps_suffix[of 1 "chat [assistant_calls ''x'', tool_answers ''x'']" 5] show ?thesis by simp
qed

theorem estimate_after_completion_witness:
  "estimatedTokens 9 (chat [user_says ''hello'', assistant_says ''hi'' 40 2]) = 42"
proof -
  let ?h = "chat [user_says ''hello'']"
  let ?m = "plain_message Assistant (ContentText ''hi'')"
  let ?meta = "\<lparr> am_model = None, am_usage = Some (used 40 2), am_latencyMs = None \<rparr>"
  have "hi_entries ?h \<noteq> []" by code_simp
  from estimate_after_completion[of ?h ?m ?meta "used 40 2" "plain_message User (ContentText [])" 9 2 2, OF this]
  have "estimatedTokens 9 (snd (append_entry 2 ?m (Some ?meta) ?h)) = 42"
    by (simp add: plain_message_def used_def)
  then show ?thesis by (simp add: chat_def history_run_def history_step_def assistant_says_def)
qed

theorem export_import_keeps_conversation_witness:
  "hi_entries (import_history (\<lambda>_. 9) (export_history (chat [SetSystem 1 (Some ''be brief''), user_says ''a''])))
   = hi_entries (chat [SetSystem 1 (Some ''be brief''), user_says ''a''])"
proof -
  let ?h = "chat [SetSystem 1 (Some ''be brief''), user_says ''a'']"
  have "layers_ok (hi_registry ?h)" using chat_ok by (simp add: history_ok_def)
  moreover have "\<forall>l\<in>set (map snd (rg_layers (hi_registry ?h))). ly_owner l \<noteq> None" by code_simp
  ultimately show ?thesis using export_import_keeps_conversation[of ?h "\<lambda>_. 9"] by blast
qed

text \<open>an import (and likewise a fork) can change the system prompt: layers of one priority render in the order of
  their last change, and the copies are all written anew, so within one millisecond they fall back to the
  order of their names.\<close>

theorem import_reorders_system_prompt:
  "let h = blank_history 0 ''c'';
       tagged = no_options\<lparr>so_tags := Some [''system'']\<rparr>;
       g = h\<lparr>hi_registry := reg_set 2 ''a'' (ContentText ''Then this.'') tagged
               (reg_set 1 ''b'' (ContentText ''First that.'') tagged (hi_registry h))\<rparr>
   in history_system 5 g = Some (''First that.'' @ [LF, LF] @ ''Then this.'')
    \<and> history_system 5 (import_history (\<lambda>_. 9) (export_history g)) = Some (''Then this.'' @ [LF, LF] @ ''First that.'')
    \<and> history_system 5 (fork (\<lambda>_. 9) ''d'' None g) = Some (''Then this.'' @ [LF, LF] @ ''First that.'')"
  by code_simp

text \<open>truncation and clearing leave the recorded token count in place: after a clear, two short messages are
  estimated at the 5000 tokens of the conversation that is gone, and after a truncation that cut the counted
  messages away the count still stands for them. Compaction with \<open>spliceRange\<close> does reset it.\<close>

theorem estimate_survives_clear:
  "let long = [user_says ''hello'', user_says ''again'', assistant_says ''hi'' 5000 2];
       short = [user_says ''abcd'', user_says ''abcd'']
   in estimatedTokens 9 (chat short) = 2 \<and> estimatedTokens 9 (chat (long @ [ClearEntries 5] @ short)) = 5000
    \<and> estimatedTokens 9 (chat (long @ short @ [Truncate 5 2])) = 5000
    \<and> estimatedTokens 9 (chat (long @ short @ [Splice 5 0 3 (plain_message User (ContentText ''abcd''))])) = 3"
  by code_simp

text \<open>truncation promises never to leave a tool result whose call was cut away, but it looks only at the first
  kept entry: with a user message between the call and the result, the result stays without its call.\<close>

theorem truncate_leaves_later_orphan:
  "let h = snd (truncate_history 5 2 (chat [assistant_calls ''x'', user_says ''wait'', tool_answers ''x'']))
   in map (\<lambda>m. (call_ids m, result_ids m)) (messages h) = [([], []), ([], [''x''])]"
  by code_simp

text \<open>\<open>last(0)\<close> and \<open>lastMessages(0)\<close> return every entry instead of none, because \<open>slice(-0)\<close> starts at the
  beginning; for a positive count within the length they return exactly that many from the end.\<close>

theorem last_zero_is_everything:
  "last_entries 0 h = hi_entries h
   \<and> (0 < n \<and> n \<le> int (history_length h) \<longrightarrow>
        last_entries n h = drop (history_length h - nat n) (hi_entries h) \<and> int (length (last_entries n h)) = n)"
  by (auto simp: last_entries_def js_slice_def history_length_def nat_diff_distrib)

theorem last_zero_is_everything_witness:
  "length (last_entries 0 (chat [user_says ''a'', user_says ''b''])) = 2
   \<and> int (length (last_entries 1 (chat [user_says ''a'', user_says ''b'']))) = 1"
proof -
  have "history_length (chat [user_says ''a'', user_says ''b'']) = 2" by code_simp
  then show ?thesis using last_zero_is_everything[of "chat [user_says ''a'', user_says ''b'']" 1]
    by (simp add: history_length_def)
qed

end
