(* ===== verification/AgentState.thy ===== *)
theory AgentState
  imports AgentTools SystemLayers History Errors
begin

text \<open>
  The state of an \<open>AgentLoop\<close> (\<open>src/agent/loop.ts\<close>): what its constructor fixes, what changes while it runs, what
  its hooks see, and the operations that are not part of a run (tools, staged input, approvals fed back, dump and
  restore). \<open>Date.now()\<close> and \<open>performance.now()\<close> are one clock, given as an argument; \<open>crypto.randomUUID()\<close> is an
  argument. Handlers of \<open>emitSync\<close> do not throw, handlers of \<open>emit\<close> may.
\<close>

section \<open>Errors, inputs, endings\<close>

datatype agent_error =
    PlainError string
  | ModelError llm_error
  | RunError string string
  | ApprovalMismatch string string "string \<times> string" "string \<times> string"

definition error_message :: "agent_error \<Rightarrow> string" where
  "error_message e = (case e of
      PlainError m \<Rightarrow> m
    | ModelError l \<Rightarrow> e_message l
    | RunError _ m \<Rightarrow> m
    | ApprovalMismatch r i (an, ad) (bn, bd) \<Rightarrow>
        if r = ''tool_name_mismatch''
        then ''Approval for call '' @ i @ '' was given for tool '' @ dquote an @ '' and the resumed run asked for ''
          @ dquote bn @ ''. The decision was not applied.''
        else ''Approval for call '' @ i @ '' ('' @ an @ '') was given for different arguments than the resumed run produced (''
          @ ad @ '' vs '' @ bd @ ''). The decision was not applied.'')"

datatype run_input =
    InputText string
  | InputParts "content_part list"
  | InputMessages "message list"

definition new_message :: "role \<Rightarrow> content \<Rightarrow> message" where
  "new_message r c = \<lparr> msg_role = r, msg_content = c, msg_cache = None, msg_id = None, msg_createdAt = None, msg_origin = None \<rparr>"

definition inputMessages :: "run_input \<Rightarrow> message list" where
  "inputMessages i = (case i of
      InputText t \<Rightarrow> [new_message User (ContentText t)]
    | InputParts ps \<Rightarrow> [new_message User (ContentParts ps)]
    | InputMessages [] \<Rightarrow> [new_message User (ContentParts [])]
    | InputMessages ms \<Rightarrow> ms)"

datatype end_reason = RunDone | RunStopped | RunFailed | RunGuardrail | RunMaxSteps | RunAborted

record step_report =
  sp_index :: nat
  sp_followup :: bool
  sp_llmLatencyMs :: ms
  sp_usage :: usage
  sp_finishReason :: string
  sp_toolCalls :: "tool_report list"
  sp_toolTotalMs :: ms

record run_report =
  ru_id :: string
  ru_model :: string
  ru_startedAt :: ms
  ru_completedAt :: ms
  ru_end :: end_reason
  ru_userMessage :: run_input
  ru_finalText :: string
  ru_error :: "string option"
  ru_steps :: "step_report list"
  ru_stepCount :: nat
  ru_toolCallCount :: nat
  ru_totalUsage :: usage
  ru_totalLlmTimeMs :: ms
  ru_totalToolTimeMs :: ms

section \<open>Snapshots\<close>

record agent_snapshot =
  as_system :: string
  as_context :: string
  as_history :: history_snapshot
  as_toolNames :: "string list"
  as_reports :: "run_report list"
  as_metadata :: "json dict"
  as_createdAt :: ms
  as_savedAt :: ms
  as_pendingToolCalls :: "pending_call list option"
  as_pendingInput :: "message list option"

section \<open>What the hooks see, and the calls to models and tools\<close>

record client =
  cl_provider :: string
  cl_model :: string
  cl_api :: string

datatype guard_kind = InputGuard | OutputGuard

datatype agent_event =
    AgentCreated string
  | RunStarted string "string list" nat
  | StepStarted string nat bool nat
  | StepCompleted string nat bool bool
  | GuardrailTriggered string nat string guard_kind string
  | ToolCallStarted string "json dict" string
  | ModelRequested client "message list" "string option" "tool_def list option"
  | ToolExecuted string string "json dict"
  | ToolCallCompleted string string content nat
  | ToolCallFailed string string
  | ApprovalRequested approval_request
  | ApprovalResolved string approval_verdict "string option"
  | CheckpointWritten agent_snapshot
  | AgentWarning string string
  | RunErrorSeen string string
  | RunCompleted run_report

section \<open>The agent\<close>

record reflect_policy =
  rf_maxRetries :: int
  rf_throwIfExceeded :: bool
  rf_reasons :: "string list"

datatype blocked_message = BlockedText string | BlockedFormatter

record agent_config =
  gc_clientChain :: "client list"
  gc_fallbackOn :: "error_kind list option"
  gc_parallelToolCalls :: bool
  gc_maxSteps :: nat
  gc_guardrails :: "(string \<times> guard_kind) list"
  gc_toolInputGuardrails :: "string list"
  gc_toolOutputGuardrails :: "string list"
  gc_toolOutputBlockedMessage :: "blocked_message option"
  gc_policy :: "rule list option"
  gc_hasApprover :: bool
  gc_hasCheckpoint :: bool
  gc_validateToolArguments :: bool
  gc_collisionError :: bool
  gc_reflectRetry :: "reflect_policy option"
  gc_lazyTools :: lazy_config
  gc_hasSystemThunk :: bool

record prefed_approval =
  pf_decision :: approval_decision
  pf_toolName :: string
  pf_digest :: string

record agent =
  ag_config :: agent_config
  ag_id :: string
  ag_system :: string
  ag_context :: string
  ag_tools :: "agent_tool dict"
  ag_lazyInstalled :: bool
  ag_searches :: nat
  ag_history :: history
  ag_reports :: "run_report list"
  ag_metadata :: "json dict"
  ag_consecutive :: nat
  ag_pendingToolCalls :: "pending_call list"
  ag_pendingInput :: "message list"
  ag_prefedApprovals :: "prefed_approval dict"
  ag_running :: bool
  ag_stopRequested :: bool
  ag_log :: "agent_event list"

definition emit :: "agent_event \<Rightarrow> agent \<Rightarrow> agent" where
  "emit ev a = a\<lparr>ag_log := ag_log a @ [ev]\<rparr>"

definition primary :: "agent \<Rightarrow> client" where "primary a = hd (gc_clientChain (ag_config a))"

section \<open>Tools\<close>

definition lazy_search_definition :: function_def where
  "lazy_search_definition =
     \<lparr> fd_name = LAZY_SEARCH_TOOL,
       fd_description = Some (''Find the tools you need. Returns their exact names and full argument schemas. ''
         @ ''Pass every capability you need as a separate query in one call.''),
       fd_parameters = JObj [(''type'', JStr ''object''),
         (''properties'', JObj [(''queries'', JObj [(''type'', JStr ''array''), (''items'', JObj [(''type'', JStr ''string'')]),
           (''description'', JStr ''One phrase per capability you need, in your own words.'')])]),
         (''required'', JArr [JStr ''queries''])],
       fd_strict = None, fd_cache = None, fd_allowedCallers = None, fd_outputSchema = None \<rparr>"

definition lazy_call_definition :: function_def where
  "lazy_call_definition =
     \<lparr> fd_name = LAZY_CALL_TOOL,
       fd_description = Some (''Call one tool returned by tool_search. Pass its exact name and its own arguments as `input`. ''
         @ ''To use several tools, call this several times in the same turn.''),
       fd_parameters = JObj [(''type'', JStr ''object''),
         (''properties'', JObj
           [(''name'', JObj [(''type'', JStr ''string''), (''description'', JStr ''Exact tool name from tool_search.'')]),
            (''input'', JObj [(''type'', JStr ''object''),
               (''description'', JStr (''That tool'' @ [CHR 0x27] @ ''s own arguments, as an object.'')),
               (''additionalProperties'', JBool True)])]),
         (''required'', JArr [JStr ''name'', JStr ''input''])],
       fd_strict = None, fd_cache = None, fd_allowedCallers = None, fd_outputSchema = None \<rparr>"

text \<open>The objects \<open>createLazyTools\<close> builds; their identities are the numbers 0 and 1.\<close>

definition lazy_tools :: "agent_tool list" where
  "lazy_tools =
     [\<lparr> at_object = 0, at_definition = FunctionDef lazy_search_definition, at_lazy = False, at_outputGuardrails = [], at_hasExtractor = False \<rparr>,
      \<lparr> at_object = 1, at_definition = FunctionDef lazy_call_definition, at_lazy = False, at_outputGuardrails = [], at_hasExtractor = False \<rparr>]"

text \<open>The part of \<open>registerTool\<close> up to the map entry; the second component is the thrown error.\<close>

definition put_tool :: "agent_tool \<Rightarrow> agent \<Rightarrow> agent \<times> agent_error option" where
  "put_tool tool a =
     (let key = toolKey tool;
          collides = (case map_of (ag_tools a) key of None \<Rightarrow> False | Some existing \<Rightarrow> at_object existing \<noteq> at_object tool)
      in if collides \<and> gc_collisionError (ag_config a) then
           (a, Some (PlainError (''AgentLoop: two tools registered under '' @ dquote key @ ''. Tools are indexed by function name ''
             @ ''(or builtin type), so one would silently shadow the other and the model would only ''
             @ ''ever see the last one. Rename one, or set toolNameCollisionPolicy: '' @ [CHR 0x27] @ ''warn'' @ [CHR 0x27]
             @ '' to keep last-write-wins.'')))
         else
           (let a1 = (if collides then emit (AgentWarning ''tool_name_collision'' (''Tool '' @ dquote key
                         @ '' was registered twice; the later registration wins and the earlier tool ''
                         @ ''is unreachable by the model.'')) a else a)
            in (a1\<lparr>ag_tools := AList.update key tool (ag_tools a1)\<rparr>, None)))"

definition syncLazyProtocol :: "ms \<Rightarrow> agent \<Rightarrow> agent" where
  "syncLazyProtocol now a =
     a\<lparr>ag_history := (ag_history a)\<lparr>hi_registry :=
        writeLazyToolsProtocol now (ag_lazyInstalled a) ''agent-loop'' (hi_registry (ag_history a))\<rparr>\<rparr>"

fun put_tools :: "agent_tool list \<Rightarrow> agent \<Rightarrow> agent \<times> agent_error option" where
  "put_tools [] a = (a, None)"
| "put_tools (t # ts) a = (case put_tool t a of (a1, Some e) \<Rightarrow> (a1, Some e) | (a1, None) \<Rightarrow> put_tools ts a1)"

definition installLazyTools :: "ms \<Rightarrow> agent \<Rightarrow> agent \<times> agent_error option" where
  "installLazyTools now a =
     (if ag_lazyInstalled a then (a, None)
      else (case put_tools lazy_tools (a\<lparr>ag_lazyInstalled := True\<rparr>) of
              (a1, Some e) \<Rightarrow> (a1, Some e) | (a1, None) \<Rightarrow> (syncLazyProtocol now a1, None)))"

definition registerTool :: "ms \<Rightarrow> agent_tool \<Rightarrow> agent \<Rightarrow> agent \<times> agent_error option" where
  "registerTool now tool a =
     (case put_tool tool a of
        (a1, Some e) \<Rightarrow> (a1, Some e)
      | (a1, None) \<Rightarrow> if at_lazy tool then installLazyTools now a1 else (a1, None))"

definition addTool :: "ms \<Rightarrow> agent_tool \<Rightarrow> agent \<Rightarrow> agent \<times> agent_error option" where
  "addTool now tool a = registerTool now tool a"

definition removeTool :: "string \<Rightarrow> agent \<Rightarrow> agent" where
  "removeTool name a = a\<lparr>ag_tools := AList.delete name (ag_tools a)\<rparr>"

definition toolNames :: "agent \<Rightarrow> string list" where "toolNames a = map fst (ag_tools a)"

text \<open>The declared tools: the registered ones that are not lazy, then the caller's.\<close>

definition toolDefinitions :: "tool_def list option \<Rightarrow> agent \<Rightarrow> tool_def list option" where
  "toolDefinitions callers a =
     (let own = map at_definition (filter (\<lambda>t. \<not> at_lazy t) (map snd (ag_tools a)))
      in case callers of Some ts \<Rightarrow> Some (own @ ts) | None \<Rightarrow> if own \<noteq> [] then Some own else None)"

section \<open>System prompt and context\<close>

definition set_agent_system :: "ms \<Rightarrow> string \<Rightarrow> agent \<Rightarrow> agent" where
  "set_agent_system now v a =
     a\<lparr>ag_system := v, ag_history := (ag_history a)\<lparr>hi_registry :=
        writeAgentLoopSystem now (Some v) ''agent-loop'' (hi_registry (ag_history a))\<rparr>\<rparr>"

definition set_agent_context :: "ms \<Rightarrow> string \<Rightarrow> agent \<Rightarrow> agent" where
  "set_agent_context now v a =
     a\<lparr>ag_context := v, ag_history := (ag_history a)\<lparr>hi_registry :=
        writeAgentLoopContext now (Some v) ''agent-loop'' (hi_registry (ag_history a))\<rparr>\<rparr>"

section \<open>Construction\<close>

definition blank_agent :: "agent_config \<Rightarrow> string \<Rightarrow> string \<Rightarrow> history \<Rightarrow> agent" where
  "blank_agent config sys ctx h =
     \<lparr> ag_config = config, ag_id = hi_id h, ag_system = sys, ag_context = ctx, ag_tools = [], ag_lazyInstalled = False,
       ag_searches = 0, ag_history = h, ag_reports = [], ag_metadata = [], ag_consecutive = 0, ag_pendingToolCalls = [],
       ag_pendingInput = [], ag_prefedApprovals = [], ag_running = False, ag_stopRequested = False, ag_log = [] \<rparr>"

fun register_all :: "ms \<Rightarrow> agent_tool list \<Rightarrow> agent \<Rightarrow> agent \<times> agent_error option" where
  "register_all now [] a = (a, None)"
| "register_all now (t # ts) a =
     (case registerTool now t a of (a1, Some e) \<Rightarrow> (a1, Some e) | (a1, None) \<Rightarrow> register_all now ts a1)"

definition new_agent ::
  "ms \<Rightarrow> agent_config \<Rightarrow> string \<Rightarrow> string \<Rightarrow> agent_tool list \<Rightarrow> history \<Rightarrow> agent_error + agent" where
  "new_agent now config sys ctx tools h =
     (case register_all now tools (blank_agent config (if gc_hasSystemThunk config then [] else sys) ctx h) of
        (a, Some e) \<Rightarrow> Inl e
      | (a, None) \<Rightarrow>
          Inr (emit (AgentCreated (ag_id a))
            (syncLazyProtocol now (set_agent_context now (ag_context a) (set_agent_system now (ag_system a) a)))))"

section \<open>Staged input and stopping\<close>

definition stop :: "agent \<Rightarrow> agent" where "stop a = a\<lparr>ag_stopRequested := True\<rparr>"

definition addInput :: "run_input \<Rightarrow> agent \<Rightarrow> agent \<times> agent_error option" where
  "addInput i a =
     (if ag_running a then (a, Some (PlainError (''AgentLoop.addInput: a run is in flight, and its input was admitted when it ''
        @ ''started -- staging now would reach the NEXT run, not this one. Stage input before the run, or after it ends.'')))
      else (a\<lparr>ag_pendingInput := ag_pendingInput a @ inputMessages i\<rparr>, None))"

definition clearPendingInput :: "agent \<Rightarrow> agent" where "clearPendingInput a = a\<lparr>ag_pendingInput := []\<rparr>"

section \<open>Approvals fed back\<close>

definition resumeWithApproval :: "string \<Rightarrow> approval_decision \<Rightarrow> agent \<Rightarrow> agent" where
  "resumeWithApproval callId decision a =
     (case find (\<lambda>p. pc_callId p = callId) (ag_pendingToolCalls a) of
        None \<Rightarrow> emit (AgentWarning ''approval_callid_not_found''
          (''resumeWithApproval: callId '' @ dquote callId @ '' not found in pending approvals'')) a
      | Some p \<Rightarrow>
          a\<lparr>ag_pendingToolCalls := takeWhile (\<lambda>q. pc_callId q \<noteq> callId) (ag_pendingToolCalls a)
              @ drop 1 (dropWhile (\<lambda>q. pc_callId q \<noteq> callId) (ag_pendingToolCalls a)),
            ag_prefedApprovals := AList.update callId
              \<lparr> pf_decision = decision, pf_toolName = pc_toolName p,
                pf_digest = nullish (pc_digest p) (approvalDigest (pc_toolName p) (pc_arguments p)) \<rparr>
              (ag_prefedApprovals a)\<rparr>)"

text \<open>\<open>resolveApproval\<close> up to the approver: \<open>Inl\<close> an error, \<open>Inr (Some d)\<close> a decision fed back before,
  \<open>Inr None\<close> a question for the approver.\<close>

definition prefed_decision :: "approval_request \<Rightarrow> agent \<Rightarrow> agent \<times> (agent_error + approval_decision option)" where
  "prefed_decision req a =
     (case map_of (ag_prefedApprovals a) (aq_callId req) of
        None \<Rightarrow> (a, Inr None)
      | Some p \<Rightarrow>
          (let digest = approvalDigest (aq_toolName req) (aq_arguments req);
               a1 = a\<lparr>ag_prefedApprovals := AList.delete (aq_callId req) (ag_prefedApprovals a)\<rparr>
           in if pf_toolName p \<noteq> aq_toolName req then
                (a1, Inl (ApprovalMismatch ''tool_name_mismatch'' (aq_callId req) (pf_toolName p, pf_digest p)
                        (aq_toolName req, digest)))
              else if pf_digest p \<noteq> digest then
                (a1, Inl (ApprovalMismatch ''arguments_mismatch'' (aq_callId req) (pf_toolName p, pf_digest p)
                        (aq_toolName req, digest)))
              else (a1, Inr (Some (pf_decision p)))))"

section \<open>Dump and restore\<close>

definition dump :: "ms \<Rightarrow> agent \<Rightarrow> agent_snapshot" where
  "dump now a =
     \<lparr> as_system = ag_system a, as_context = ag_context a, as_history = export_history (ag_history a),
       as_toolNames = toolNames a, as_reports = ag_reports a, as_metadata = ag_metadata a,
       as_createdAt = hi_createdAt (ag_history a), as_savedAt = now,
       as_pendingToolCalls = (if ag_pendingToolCalls a = [] then None else Some (ag_pendingToolCalls a)),
       as_pendingInput = (if ag_pendingInput a = [] then None else Some (ag_pendingInput a)) \<rparr>"

text \<open>The configuration a restored agent gets: the clients, the policy, the approver and the checkpoint store are
  passed again, everything else takes its default.\<close>

definition restored_config :: "client list \<Rightarrow> error_kind list option \<Rightarrow> rule list option \<Rightarrow> bool \<Rightarrow> bool \<Rightarrow> agent_config" where
  "restored_config chain kinds policy hasApprover hasCheckpoint =
     \<lparr> gc_clientChain = chain, gc_fallbackOn = kinds, gc_parallelToolCalls = True, gc_maxSteps = 16, gc_guardrails = [],
       gc_toolInputGuardrails = [], gc_toolOutputGuardrails = [], gc_toolOutputBlockedMessage = None, gc_policy = policy,
       gc_hasApprover = hasApprover, gc_hasCheckpoint = hasCheckpoint, gc_validateToolArguments = False,
       gc_collisionError = False, gc_reflectRetry = None, gc_lazyTools = \<lparr> lz_limit = None, lz_maxSearches = None \<rparr>,
       gc_hasSystemThunk = False \<rparr>"

definition tool_changes :: "string list \<Rightarrow> string list \<Rightarrow> agent_event list" where
  "tool_changes saved now =
     map (\<lambda>n. AgentWarning ''tool_removed'' (''Tool '' @ dquote n
       @ '' was used in saved conversation but is not provided now'')) (filter (\<lambda>n. n \<notin> set now) (remdups saved))
     @ map (\<lambda>n. AgentWarning ''tool_added'' (''Tool '' @ dquote n
       @ '' is new (not in saved conversation)'')) (filter (\<lambda>n. n \<notin> set saved) (remdups now))"

definition restore :: "(nat \<Rightarrow> ms) \<Rightarrow> agent_snapshot \<Rightarrow> agent_config \<Rightarrow> agent_tool list \<Rightarrow> agent_error + agent" where
  "restore clock snap config tools =
     (case new_agent (clock 0) config (as_system snap) (as_context snap) tools (import_history clock (as_history snap)) of
        Inl e \<Rightarrow> Inl e
      | Inr a \<Rightarrow>
          Inr (a\<lparr>ag_reports := as_reports snap, ag_metadata := as_metadata snap,
                 ag_pendingToolCalls := nullish (as_pendingToolCalls snap) [],
                 ag_pendingInput := nullish (as_pendingInput snap) [],
                 ag_log := ag_log a @ tool_changes (as_toolNames snap) (map toolKey tools)\<rparr>))"

end
