(* ===== verification/ToolCalls.thy ===== *)
theory ToolCalls
  imports AgentState
begin

text \<open>
  \<open>AgentLoop.executeSingleTool\<close> and the functions it is made of (\<open>src/agent/loop.ts\<close>, \<open>loop-internals.ts\<close>): one tool
  call of a step, from the start hook over lookup, guardrails, argument validation, permission and approval to the
  execution and its result. Every \<open>await\<close> is a stage; an answer of the outside (a hook, a guardrail, the approver, the
  tool itself) moves the call to its next stage. The state shared by the calls of a step is the agent and the list of
  reports. The metrics a hook may attach to a call are not modelled.
\<close>

type_synonym world = "agent \<times> tool_report list"

datatype tool_stage =
    OnStartHook
  | OnLookupError string bool ms
  | OnLookupWarning string ms
  | OnInputGuard agent_tool ms nat
  | OnArgsWarning string
  | OnApprovalHook agent_tool ms approval_request
  | OnCheckpoint agent_tool ms approval_request
  | OnDecision agent_tool ms "approval_decision option"
  | OnResolvedHook agent_tool ms approval_decision
  | OnExecute agent_tool ms
  | OnOutputGuard agent_tool ms ms content "string list"
  | OnBlockedMessage agent_tool ms ms string string
  | OnExtractor ms ms content
  | OnCompleteHook ms ms content "json option"
  | OnErrorHook ms agent_error
  | Answered content_part
  | Rejected agent_error

datatype tool_answer =
    StartHookDone bool "string option"
  | HookDone
  | Threw agent_error
  | GuardPassed
  | GuardTripped string "string option"
  | Decided approval_decision
  | ToolReturned content
  | FormatterReturned "string option"
  | ExtractorReturned "json option"
  | ErrorHookDone bool "string option"

section \<open>Results\<close>

definition DENIAL_DEFAULT_REASON :: string where
  "DENIAL_DEFAULT_REASON = ''Tool call denied by permission policy''"

definition TOOL_OUTPUT_WITHHELD :: string where
  "TOOL_OUTPUT_WITHHELD = ''Output withheld by an output guardrail.''"

definition text_result :: "tool_call \<Rightarrow> string \<Rightarrow> bool \<Rightarrow> content_part" where
  "text_result tc t isError = ToolResultPart (ca_id tc) (ContentText t) (if isError then Some True else None) None None"

definition text_report :: "tool_call \<Rightarrow> string \<Rightarrow> ms \<Rightarrow> bool \<Rightarrow> string option \<Rightarrow> tool_report" where
  "text_report tc t latency skipped err =
     \<lparr> tr_callId = ca_id tc, tr_toolName = ca_name tc, tr_arguments = ca_arguments tc, tr_resultSize = length t,
       tr_latencyMs = latency, tr_skipped = skipped, tr_error = err, tr_customData = None, tr_discoveredVia = False \<rparr>"

definition finish_call :: "tool_report \<Rightarrow> content_part \<Rightarrow> world \<Rightarrow> tool_stage \<times> world" where
  "finish_call r part w = (Answered part, (fst w, snd w @ [r]))"

definition buildMalformedResult :: "tool_call \<Rightarrow> world \<Rightarrow> tool_stage \<times> world" where
  "buildMalformedResult tc w =
     (let result = ''Tool call arguments for '' @ dquote (ca_name tc) @ '' were not valid JSON, so the tool was not run. ''
                 @ ''Re-issue the call with complete, well-formed arguments.''
      in finish_call (text_report tc result 0 True (Some ''malformed_tool_call'')) (text_result tc result True) w)"

definition buildSkippedResult :: "tool_call \<Rightarrow> string option \<Rightarrow> world \<Rightarrow> tool_stage \<times> world" where
  "buildSkippedResult tc overrideResult w =
     (let result = nullish overrideResult ''Tool call skipped by hook''
      in finish_call (text_report tc result 0 True None) (text_result tc result False) w)"

definition buildOverriddenResult :: "tool_call \<Rightarrow> string \<Rightarrow> world \<Rightarrow> tool_stage \<times> world" where
  "buildOverriddenResult tc result w = finish_call (text_report tc result 0 False None) (text_result tc result False) w"

definition buildDeniedResult :: "tool_call \<Rightarrow> string \<Rightarrow> world \<Rightarrow> tool_stage \<times> world" where
  "buildDeniedResult tc reason w = finish_call (text_report tc reason 0 False (Some reason)) (text_result tc reason True) w"

section \<open>Execution and its result\<close>

definition emit_in :: "agent_event \<Rightarrow> world \<Rightarrow> world" where
  "emit_in ev w = (emit ev (fst w), snd w)"

text \<open>\<open>executeWithTimeout\<close>: the tool is called; its timeout only aborts the signal the tool is given.\<close>

definition executeWithTimeout :: "tool_call \<Rightarrow> agent_tool \<Rightarrow> ms \<Rightarrow> world \<Rightarrow> tool_stage \<times> world" where
  "executeWithTimeout tc tool t0 w =
     (OnExecute tool t0, emit_in (ToolExecuted (toolKey tool) (ca_id tc) (ca_arguments tc)) w)"

definition handleToolError :: "ms \<Rightarrow> tool_call \<Rightarrow> ms \<Rightarrow> agent_error \<Rightarrow> world \<Rightarrow> tool_stage \<times> world" where
  "handleToolError now tc t0 e w = (OnErrorHook (now - t0) e, emit_in (ToolCallFailed (ca_id tc) (error_message e)) w)"

definition error_handled :: "tool_call \<Rightarrow> ms \<Rightarrow> agent_error \<Rightarrow> bool \<Rightarrow> string option \<Rightarrow> world \<Rightarrow> tool_stage \<times> world" where
  "error_handled tc latency e continueOnError fallbackResult w =
     (if \<not> continueOnError then (Rejected e, w)
      else (let result = nullish fallbackResult (''Error executing '' @ ca_name tc @ '': '' @ error_message e)
            in finish_call (text_report tc result latency False (Some (error_message e))) (text_result tc result True) w))"

definition complete_call :: "tool_call \<Rightarrow> ms \<Rightarrow> ms \<Rightarrow> content \<Rightarrow> json option \<Rightarrow> world \<Rightarrow> tool_stage \<times> world" where
  "complete_call tc t0 latency result customData w =
     (OnCompleteHook t0 latency result customData,
      emit_in (ToolCallCompleted (ca_id tc) (ca_name tc) result (length (content_string result))) w)"

definition success_result :: "tool_call \<Rightarrow> ms \<Rightarrow> content \<Rightarrow> json option \<Rightarrow> world \<Rightarrow> tool_stage \<times> world" where
  "success_result tc latency result customData w =
     (let inner = unwrapLazyCall (ca_name tc) (ca_arguments tc)
      in finish_call
           \<lparr> tr_callId = ca_id tc, tr_toolName = nullish inner (ca_name tc), tr_arguments = ca_arguments tc,
             tr_resultSize = length (content_string result), tr_latencyMs = latency, tr_skipped = False, tr_error = None,
             tr_customData = customData, tr_discoveredVia = (inner \<noteq> None) \<rparr>
           (ToolResultPart (ca_id tc) result None None None) w)"

text \<open>The output guardrails still to run; none left means that the output passed.\<close>

definition checkToolOutput :: "tool_call \<Rightarrow> agent_tool \<Rightarrow> ms \<Rightarrow> ms \<Rightarrow> content \<Rightarrow> string list \<Rightarrow> world \<Rightarrow> tool_stage \<times> world" where
  "checkToolOutput tc tool t0 latency result guards w =
     (if guards \<noteq> [] then (OnOutputGuard tool t0 latency result guards, w)
      else if at_hasExtractor tool then (OnExtractor t0 latency result, w)
      else complete_call tc t0 latency result None w)"

definition buildSuccessResult :: "ms \<Rightarrow> tool_call \<Rightarrow> agent_tool \<Rightarrow> ms \<Rightarrow> content \<Rightarrow> world \<Rightarrow> tool_stage \<times> world" where
  "buildSuccessResult now tc tool t0 result w =
     checkToolOutput tc tool t0 (now - t0) result (gc_toolOutputGuardrails (ag_config (fst w)) @ at_outputGuardrails tool) w"

text \<open>The output is replaced; what the tool returned is not kept anywhere.\<close>

definition withhold :: "tool_call \<Rightarrow> ms \<Rightarrow> ms \<Rightarrow> string \<Rightarrow> string \<Rightarrow> string \<Rightarrow> world \<Rightarrow> tool_stage \<times> world" where
  "withhold tc t0 latency guard reason message w =
     complete_call tc t0 latency (ContentText message) None
       (emit_in (AgentWarning ''tool_output_withheld'' (guard @ '' withheld the output of '' @ ca_name tc @ '': '' @ reason)) w)"

definition tripped :: "tool_call \<Rightarrow> agent_tool \<Rightarrow> ms \<Rightarrow> ms \<Rightarrow> string \<Rightarrow> string \<Rightarrow> string option \<Rightarrow> world \<Rightarrow> tool_stage \<times> world" where
  "tripped tc tool t0 latency guard reason replaceWith w =
     (case replaceWith of
        Some m \<Rightarrow> withhold tc t0 latency guard reason m w
      | None \<Rightarrow>
          (case gc_toolOutputBlockedMessage (ag_config (fst w)) of
             None \<Rightarrow> withhold tc t0 latency guard reason TOOL_OUTPUT_WITHHELD w
           | Some (BlockedText m) \<Rightarrow> withhold tc t0 latency guard reason (if m \<noteq> [] then m else TOOL_OUTPUT_WITHHELD) w
           | Some BlockedFormatter \<Rightarrow> (OnBlockedMessage tool t0 latency guard reason, w)))"

section \<open>Before the execution\<close>

definition permission_target :: "tool_call \<Rightarrow> perm_target" where
  "permission_target tc = \<lparr> pt_kind = ''tool'', pt_arguments = Some (ca_arguments tc),
     pt_fields = [(''toolName'', JStr (ca_name tc))] \<rparr>"

definition runApprovalGate ::
  "ms \<Rightarrow> string \<Rightarrow> nat \<Rightarrow> tool_call \<Rightarrow> string option \<Rightarrow> agent_tool \<Rightarrow> ms \<Rightarrow> world \<Rightarrow> tool_stage \<times> world" where
  "runApprovalGate now runId step tc reason tool t0 w =
     (let req = \<lparr> aq_callId = ca_id tc, aq_toolName = ca_name tc, aq_arguments = ca_arguments tc, aq_reason = reason,
                 aq_step = step \<rparr>;
          pending = \<lparr> pc_callId = ca_id tc, pc_toolName = ca_name tc, pc_arguments = ca_arguments tc, pc_step = step,
                     pc_requestedAt = now, pc_runId = runId,
                     pc_digest = Some (approvalDigest (ca_name tc) (ca_arguments tc)) \<rparr>;
          a1 = (fst w)\<lparr>ag_pendingToolCalls := ag_pendingToolCalls (fst w) @ [pending]\<rparr>
      in (OnApprovalHook tool t0 req, (emit (ApprovalRequested req) a1, snd w)))"

definition resolveApproval :: "approval_request \<Rightarrow> agent_tool \<Rightarrow> ms \<Rightarrow> world \<Rightarrow> tool_stage \<times> world" where
  "resolveApproval req tool t0 w =
     (case prefed_decision req (fst w) of
        (a, Inl e) \<Rightarrow> (Rejected e, (a, snd w))
      | (a, Inr (Some d)) \<Rightarrow> (OnDecision tool t0 (Some d), (a, snd w))
      | (a, Inr None) \<Rightarrow>
          (OnDecision tool t0 (if gc_hasApprover (ag_config a) then None
             else Some \<lparr> ad_decision = Refuse, ad_overrideResult = None, ad_note = None \<rparr>), (a, snd w)))"

definition after_approval_hook :: "ms \<Rightarrow> approval_request \<Rightarrow> agent_tool \<Rightarrow> ms \<Rightarrow> world \<Rightarrow> tool_stage \<times> world" where
  "after_approval_hook now req tool t0 w =
     (if gc_hasCheckpoint (ag_config (fst w))
      then (OnCheckpoint tool t0 req, emit_in (CheckpointWritten (dump now (fst w))) w)
      else resolveApproval req tool t0 w)"

definition decided :: "tool_call \<Rightarrow> agent_tool \<Rightarrow> ms \<Rightarrow> approval_decision \<Rightarrow> world \<Rightarrow> tool_stage \<times> world" where
  "decided tc tool t0 d w =
     (let a1 = (fst w)\<lparr>ag_pendingToolCalls := filter (\<lambda>p. pc_callId p \<noteq> ca_id tc) (ag_pendingToolCalls (fst w))\<rparr>
      in (OnResolvedHook tool t0 d, (emit (ApprovalResolved (ca_id tc) (ad_decision d) (ad_note d)) a1, snd w)))"

definition apply_decision :: "tool_call \<Rightarrow> agent_tool \<Rightarrow> ms \<Rightarrow> approval_decision \<Rightarrow> world \<Rightarrow> tool_stage \<times> world" where
  "apply_decision tc tool t0 d w =
     (case ad_decision d of
        Approve \<Rightarrow> (case ad_overrideResult d of
                      Some r \<Rightarrow> buildOverriddenResult tc r w | None \<Rightarrow> executeWithTimeout tc tool t0 w)
      | Skip \<Rightarrow> buildSkippedResult tc (ad_overrideResult d) w
      | Refuse \<Rightarrow> buildDeniedResult tc (nullish (ad_note d) DENIAL_DEFAULT_REASON) w)"

definition check_permission :: "ms \<Rightarrow> string \<Rightarrow> nat \<Rightarrow> tool_call \<Rightarrow> agent_tool \<Rightarrow> ms \<Rightarrow> world \<Rightarrow> tool_stage \<times> world" where
  "check_permission now runId step tc tool t0 w =
     (case gc_policy (ag_config (fst w)) of
        None \<Rightarrow> executeWithTimeout tc tool t0 w
      | Some rules \<Rightarrow>
          (let decision = check rules ''agent'' (permission_target tc) ''execute'' in
           if de_ask decision = Some True then runApprovalGate now runId step tc (de_reason decision) tool t0 w
           else if \<not> de_allow decision then buildDeniedResult tc (nullish (de_reason decision) DENIAL_DEFAULT_REASON) w
           else executeWithTimeout tc tool t0 w))"

definition argument_errors :: "agent_config \<Rightarrow> tool_call \<Rightarrow> agent_tool \<Rightarrow> string list" where
  "argument_errors config tc tool =
     (if gc_validateToolArguments config then
        (case at_definition tool of
           FunctionDef d \<Rightarrow> validateJsonSchema (fd_parameters d) (JObj (ca_arguments tc))
         | BuiltinDef _ _ \<Rightarrow> [])
      else [])"

definition check_arguments :: "ms \<Rightarrow> string \<Rightarrow> nat \<Rightarrow> tool_call \<Rightarrow> agent_tool \<Rightarrow> ms \<Rightarrow> world \<Rightarrow> tool_stage \<times> world" where
  "check_arguments now runId step tc tool t0 w =
     (let errors = argument_errors (ag_config (fst w)) tc tool in
      if errors \<noteq> [] then
        (OnArgsWarning (''Invalid arguments for '' @ dquote (ca_name tc) @ '': '' @ join ''; '' errors
           @ ''. Call the tool again with arguments matching its schema.''),
         emit_in (AgentWarning ''tool_arguments_invalid'' (''Tool '' @ dquote (ca_name tc)
           @ '' was called with arguments its schema rejects: '' @ join ''; '' errors
           @ ''. The errors were returned to the model.'')) w)
      else check_permission now runId step tc tool t0 w)"

definition input_guards :: "ms \<Rightarrow> string \<Rightarrow> nat \<Rightarrow> tool_call \<Rightarrow> agent_tool \<Rightarrow> ms \<Rightarrow> nat \<Rightarrow> world \<Rightarrow> tool_stage \<times> world" where
  "input_guards now runId step tc tool t0 i w =
     (if i < length (gc_toolInputGuardrails (ag_config (fst w))) then (OnInputGuard tool t0 i, w)
      else check_arguments now runId step tc tool t0 w)"

definition lookupToolOrError :: "ms \<Rightarrow> string \<Rightarrow> nat \<Rightarrow> tool_call \<Rightarrow> world \<Rightarrow> tool_stage \<times> world" where
  "lookupToolOrError now runId step tc w =
     (let tools = ag_tools (fst w);
          failed = (\<lambda>msg violation. (OnLookupError msg violation 0, emit_in (ToolCallFailed (ca_id tc) msg) w))
      in case map_of tools (ca_name tc) of
           None \<Rightarrow> failed (''Tool '' @ dquote (ca_name tc) @ '' is not available. Available tools: '' @ join '', '' (map fst tools)) False
         | Some tool \<Rightarrow>
             (case callerViolation tc tool of
                Some msg \<Rightarrow> failed msg True
              | None \<Rightarrow> input_guards now runId step tc tool now 0 w))"

section \<open>The steps of a call\<close>

definition start_call :: "tool_call \<Rightarrow> world \<Rightarrow> tool_stage \<times> world" where
  "start_call tc w =
     (if ca_malformed tc then buildMalformedResult tc w
      else (OnStartHook, emit_in (ToolCallStarted (ca_name tc) (ca_arguments tc) (ca_id tc)) w))"

text \<open>One answer. An answer that a stage does not wait for leaves the call where it is.\<close>

definition tool_step ::
  "ms \<Rightarrow> string \<Rightarrow> nat \<Rightarrow> tool_call \<Rightarrow> tool_answer \<Rightarrow> tool_stage \<Rightarrow> world \<Rightarrow> tool_stage \<times> world" where
  "tool_step now runId step tc ans stage w =
     (case stage of
        OnStartHook \<Rightarrow>
          (case ans of
             StartHookDone skip override \<Rightarrow>
               (if skip then buildSkippedResult tc override w
                else (case override of Some r \<Rightarrow> buildOverriddenResult tc r w
                      | None \<Rightarrow> lookupToolOrError now runId step tc w))
           | Threw e \<Rightarrow> (Rejected e, w) | _ \<Rightarrow> (stage, w))
      | OnLookupError msg violation latency \<Rightarrow>
          (case ans of
             HookDone \<Rightarrow> (OnLookupWarning msg latency,
               emit_in (AgentWarning (if violation then ''tool_caller_not_allowed'' else ''tool_not_found'') msg) w)
           | Threw e \<Rightarrow> (Rejected e, w) | _ \<Rightarrow> (stage, w))
      | OnLookupWarning msg latency \<Rightarrow>
          (case ans of
             HookDone \<Rightarrow> finish_call (text_report tc msg latency False (Some msg)) (text_result tc msg True) w
           | Threw e \<Rightarrow> (Rejected e, w) | _ \<Rightarrow> (stage, w))
      | OnInputGuard tool t0 i \<Rightarrow>
          (case ans of
             GuardPassed \<Rightarrow> input_guards now runId step tc tool t0 (i + 1) w
           | GuardTripped reason _ \<Rightarrow> buildDeniedResult tc reason w
           | Threw e \<Rightarrow> (Rejected e, w) | _ \<Rightarrow> (stage, w))
      | OnArgsWarning reason \<Rightarrow>
          (case ans of
             HookDone \<Rightarrow> buildDeniedResult tc reason w
           | Threw e \<Rightarrow> (Rejected e, w) | _ \<Rightarrow> (stage, w))
      | OnApprovalHook tool t0 req \<Rightarrow>
          (case ans of
             HookDone \<Rightarrow> after_approval_hook now req tool t0 w
           | Threw e \<Rightarrow> (Rejected e, w) | _ \<Rightarrow> (stage, w))
      | OnCheckpoint tool t0 req \<Rightarrow>
          (case ans of
             HookDone \<Rightarrow> resolveApproval req tool t0 w
           | Threw e \<Rightarrow> (Rejected e, w) | _ \<Rightarrow> (stage, w))
      | OnDecision tool t0 known \<Rightarrow>
          (case (known, ans) of
             (Some d, HookDone) \<Rightarrow> decided tc tool t0 d w
           | (None, Decided d) \<Rightarrow> decided tc tool t0 d w
           | (None, Threw e) \<Rightarrow> (Rejected e, w) | _ \<Rightarrow> (stage, w))
      | OnResolvedHook tool t0 d \<Rightarrow>
          (case ans of
             HookDone \<Rightarrow> apply_decision tc tool t0 d w
           | Threw e \<Rightarrow> (Rejected e, w) | _ \<Rightarrow> (stage, w))
      | OnExecute tool t0 \<Rightarrow>
          (case ans of
             ToolReturned result \<Rightarrow> buildSuccessResult now tc tool t0 result w
           | Threw e \<Rightarrow> handleToolError now tc t0 e w | _ \<Rightarrow> (stage, w))
      | OnOutputGuard tool t0 latency result guards \<Rightarrow>
          (case ans of
             GuardPassed \<Rightarrow> checkToolOutput tc tool t0 latency result (tl guards) w
           | GuardTripped reason replaceWith \<Rightarrow> tripped tc tool t0 latency (hd guards) reason replaceWith w
           | Threw e \<Rightarrow> tripped tc tool t0 latency (hd guards)
               (''guardrail '' @ dquote (hd guards) @ '' failed: Error: '' @ error_message e) None w
           | _ \<Rightarrow> (stage, w))
      | OnBlockedMessage tool t0 latency guard reason \<Rightarrow>
          (case ans of
             FormatterReturned m \<Rightarrow> withhold tc t0 latency guard reason (nullish (truthy_str m) TOOL_OUTPUT_WITHHELD) w
           | Threw _ \<Rightarrow> withhold tc t0 latency guard reason TOOL_OUTPUT_WITHHELD w | _ \<Rightarrow> (stage, w))
      | OnExtractor t0 latency result \<Rightarrow>
          (case ans of
             ExtractorReturned v \<Rightarrow> complete_call tc t0 latency result v w
           | Threw _ \<Rightarrow> complete_call tc t0 latency result None w | _ \<Rightarrow> (stage, w))
      | OnCompleteHook t0 latency result customData \<Rightarrow>
          (case ans of
             HookDone \<Rightarrow> success_result tc latency result customData w
           | Threw e \<Rightarrow> handleToolError now tc t0 e w | _ \<Rightarrow> (stage, w))
      | OnErrorHook latency e \<Rightarrow>
          (case ans of
             ErrorHookDone continueOnError fallback \<Rightarrow> error_handled tc latency e continueOnError fallback w
           | Threw e1 \<Rightarrow> (Rejected e1, w) | _ \<Rightarrow> (stage, w))
      | Answered part \<Rightarrow> (stage, w)
      | Rejected e \<Rightarrow> (stage, w))"

definition settled :: "tool_stage \<Rightarrow> bool" where
  "settled st = (case st of Answered _ \<Rightarrow> True | Rejected _ \<Rightarrow> True | _ \<Rightarrow> False)"

end
