(* ===== verification/AgentLoop.thy ===== *)
theory AgentLoop
  imports ToolCalls
begin

text \<open>
  \<open>AgentLoop.complete\<close> (\<open>src/agent/loop.ts\<close>): a run from the admission of its input to its report, with the chain of
  backup models (\<open>fallback.ts\<close>), the reflection policy (\<open>reflect-retry.ts\<close>) and the execution of tool calls in parallel or
  one after the other. Every \<open>await\<close> is a stage; between two of them the host may use the agent. A step of the model is
  one answer of the outside and everything the code does until the next \<open>await\<close>. \<open>now\<close> is the clock, \<open>fresh\<close> the value
  \<open>crypto.randomUUID()\<close> would return. Options that are only handed to the client are not modelled, nor are traces.
\<close>

section \<open>Responses\<close>

record citation =
  ct_url :: string
  ct_title :: "string option"
  ct_text :: "string option"

record llm_response =
  re_id :: string
  re_model :: string
  re_content :: "content_part list"
  re_finishReason :: string
  re_usage :: usage
  re_text :: string
  re_toolCalls :: "tool_call list"
  re_thinking :: "string option"
  re_media :: "content_part list"
  re_files :: "json option"
  re_builtinToolCalls :: "json option"
  re_citations :: "citation list option"
  re_moderation :: "json option"
  re_errorMessage :: "string option"
  re_signatures :: "json option"
  re_latencyMs :: ms
  re_raw :: json

definition buildAssistantMessage :: "ms \<Rightarrow> string \<Rightarrow> llm_response \<Rightarrow> client \<Rightarrow> message" where
  "buildAssistantMessage now fresh r origin =
     (let stateful = (cl_api origin = ''responses'' \<or> cl_api origin = ''interactions'')
      in \<lparr> msg_role = Assistant, msg_content = ContentParts (re_content r), msg_cache = None,
           msg_id = Some (if re_id r \<noteq> [] then re_id r else fresh), msg_createdAt = Some now,
           msg_origin = Some \<lparr> mo_provider = cl_provider origin, mo_model = Some (cl_model origin),
             mo_serverStateId = (if stateful \<and> re_id r \<noteq> [] then Some (re_id r) else None),
             mo_signatures = re_signatures r \<rparr> \<rparr>)"

definition addUsage :: "usage \<Rightarrow> usage \<Rightarrow> usage" where
  "addUsage target source =
     target\<lparr>us_inputTokens := us_inputTokens target + us_inputTokens source,
            us_outputTokens := us_outputTokens target + us_outputTokens source,
            us_totalTokens := us_totalTokens target + us_totalTokens source,
            us_cachedTokens := us_cachedTokens target + us_cachedTokens source,
            us_cacheWriteTokens := us_cacheWriteTokens target + us_cacheWriteTokens source,
            us_reasoningTokens := us_reasoningTokens target + us_reasoningTokens source\<rparr>"

section \<open>The chain of models\<close>

definition DEFAULT_AGENT_FALLBACK_KINDS :: "error_kind list" where
  "DEFAULT_AGENT_FALLBACK_KINDS = [RateLimit, ServerError, ModelNotFound, Timeout, Network, QuotaExceeded, Unsupported]"

definition clientChain :: "client \<Rightarrow> client list \<Rightarrow> client list" where
  "clientChain main backups = foldl (\<lambda>chain c. if c \<in> set chain then chain else chain @ [c]) [main] backups"

definition kindOf :: "agent_error \<Rightarrow> error_kind option" where
  "kindOf e = (case e of ModelError l \<Rightarrow> Some (e_kind l) | _ \<Rightarrow> None)"

definition retryable_failure :: "agent_error \<Rightarrow> error_kind list \<Rightarrow> bool" where
  "retryable_failure e kinds = (case kindOf e of None \<Rightarrow> False | Some k \<Rightarrow> k \<in> set kinds)"

definition kind_name :: "error_kind \<Rightarrow> string" where
  "kind_name k = (case k of
      RateLimit \<Rightarrow> ''rate_limit'' | Auth \<Rightarrow> ''auth'' | ContextOverflow \<Rightarrow> ''context_overflow''
    | InvalidRequest \<Rightarrow> ''invalid_request'' | ServerError \<Rightarrow> ''server_error'' | Timeout \<Rightarrow> ''timeout'' | Network \<Rightarrow> ''network''
    | ContentFilter \<Rightarrow> ''content_filter'' | ModelNotFound \<Rightarrow> ''model_not_found'' | QuotaExceeded \<Rightarrow> ''quota_exceeded''
    | Unsupported \<Rightarrow> ''unsupported'')"

section \<open>Reflection\<close>

definition handles :: "reflect_policy \<Rightarrow> string \<Rightarrow> bool" where
  "handles p finishReason = (finishReason \<in> set (rf_reasons p))"

definition reflectionGuidance :: "string \<Rightarrow> nat \<Rightarrow> int \<Rightarrow> string option \<Rightarrow> string" where
  "reflectionGuidance finishReason attempt maxRetries detail =
     join [LF] (filter (\<lambda>line. line \<noteq> [])
       [''The previous turn failed ('' @ finishReason @ '') and produced no usable tool call.'',
        (case truthy_str detail of None \<Rightarrow> [] | Some d \<Rightarrow> ''Details: '' @ d),
        [],
        ''**Reflection guidance:**'',
        ''- This is retry attempt '' @ nat_to_string attempt @ '' of '' @ int_to_string maxRetries @ ''.'',
        ''- Analyse the arguments you produced. Do NOT repeat the same call unchanged.'',
        ''- If a tool name was wrong, choose one from the tools actually available to you.'',
        [],
        ''Form a new plan from that analysis and try a corrected approach.''])"

section \<open>Runs\<close>

record run_options =
  op_system :: "string option"
  op_tools :: "tool_def list option"

record run =
  rn_call :: nat
  rn_id :: string
  rn_options :: run_options
  rn_input :: run_input
  rn_startedAt :: ms
  rn_steps :: "step_report list"
  rn_usage :: usage
  rn_llmMs :: ms
  rn_toolMs :: ms
  rn_stepCount :: nat
  rn_toolCallCount :: nat
  rn_last :: "llm_response option"
  rn_citations :: "citation dict"
  rn_stepStart :: ms

record request =
  rq_messages :: "message list"
  rq_system :: "string option"
  rq_tools :: "tool_def list option"

record served =
  sv_response :: llm_response
  sv_by :: client
  sv_latency :: ms

text \<open>The calls of a step: the ones started, in order, the ones that wait for their turn, and the reports so far.\<close>

record tool_pool =
  tp_slots :: "(tool_call \<times> tool_stage) list"
  tp_waiting :: "tool_call list"
  tp_reports :: "tool_report list"

datatype run_stage =
    Idle
  | AwaitThunk nat run_input run_options
  | AwaitRunStart run
  | AwaitStepStart run
  | AwaitInputGuard run "string option" "string list"
  | AwaitInputTrip run "string option" string
  | AwaitModel run request nat
  | AwaitRetryWarning run served nat
  | AwaitStepComplete run served bool
  | AwaitOutputGuard run served bool "string list"
  | AwaitOutputTrip run served bool string
  | AwaitTools run served tool_pool
  | AwaitRunError run agent_error

type_synonym run_result = "agent_error + llm_response"

text \<open>\<open>lp_closing\<close>: runs that are over and wait for their last hook; \<open>lp_settled\<close>: the calls of \<open>complete\<close> whose promise is
  settled; \<open>lp_background\<close>: tool calls of a failed step that are still running.\<close>

record loop_state =
  lp_agent :: agent
  lp_stage :: run_stage
  lp_closing :: "(nat \<times> run_result) list"
  lp_settled :: "(nat \<times> run_result) list"
  lp_background :: "(string \<times> nat \<times> tool_call \<times> tool_stage) list"

definition go :: "run_stage \<Rightarrow> agent \<Rightarrow> loop_state \<Rightarrow> loop_state" where
  "go stage a s = s\<lparr>lp_stage := stage, lp_agent := a\<rparr>"

definition settle_call :: "nat \<Rightarrow> run_result \<Rightarrow> loop_state \<Rightarrow> loop_state" where
  "settle_call i r s = s\<lparr>lp_settled := lp_settled s @ [(i, r)]\<rparr>"

section \<open>The end of a run\<close>

definition finish_reason :: "end_reason \<Rightarrow> llm_response option \<Rightarrow> string" where
  "finish_reason reason lst = (case reason of
      RunDone \<Rightarrow> (case lst of Some r \<Rightarrow> re_finishReason r | None \<Rightarrow> ''stop'')
    | RunStopped \<Rightarrow> ''stop'' | RunGuardrail \<Rightarrow> ''stop'' | RunMaxSteps \<Rightarrow> ''length'' | _ \<Rightarrow> ''error'')"

definition resolveFinalText :: "end_reason \<Rightarrow> string option \<Rightarrow> nat \<Rightarrow> llm_response option \<Rightarrow> string" where
  "resolveFinalText reason tripReason maxSteps lst =
     (if reason = RunGuardrail then nullish tripReason []
      else if reason = RunMaxSteps then ''stopped: reached maxSteps ('' @ nat_to_string maxSteps @ '')''
      else (case lst of
              None \<Rightarrow> []
            | Some r \<Rightarrow> (let t = finalAnswerText (ContentParts (re_content r)) in if t \<noteq> [] then t else re_text r)))"

definition buildFinalResponse :: "ms \<Rightarrow> string \<Rightarrow> end_reason \<Rightarrow> string \<Rightarrow> run \<Rightarrow> llm_response" where
  "buildFinalResponse now model reason finalText r =
     (let lst = rn_last r; cites = map snd (rn_citations r) in
      \<lparr> re_id = (case lst of Some x \<Rightarrow> re_id x | None \<Rightarrow> ''agent-'' @ rn_id r), re_model = model,
        re_content = (case lst of Some x \<Rightarrow> re_content x | None \<Rightarrow> []), re_finishReason = finish_reason reason lst,
        re_usage = rn_usage r, re_text = finalText, re_toolCalls = (case lst of Some x \<Rightarrow> re_toolCalls x | None \<Rightarrow> []),
        re_thinking = Option.bind lst re_thinking, re_media = (case lst of Some x \<Rightarrow> re_media x | None \<Rightarrow> []),
        re_files = Option.bind lst re_files, re_builtinToolCalls = Option.bind lst re_builtinToolCalls,
        re_citations = (if cites \<noteq> [] then Some cites else None), re_moderation = Option.bind lst re_moderation,
        re_errorMessage = None, re_signatures = None, re_latencyMs = now - rn_startedAt r,
        re_raw = (case lst of Some x \<Rightarrow> re_raw x | None \<Rightarrow> JNull) \<rparr>)"

definition run_report_of :: "ms \<Rightarrow> string \<Rightarrow> end_reason \<Rightarrow> string \<Rightarrow> string option \<Rightarrow> run \<Rightarrow> run_report" where
  "run_report_of now model reason finalText err r =
     \<lparr> ru_id = rn_id r, ru_model = model, ru_startedAt = rn_startedAt r, ru_completedAt = now, ru_end = reason,
       ru_userMessage = rn_input r, ru_finalText = finalText, ru_error = err, ru_steps = rn_steps r,
       ru_stepCount = rn_stepCount r, ru_toolCallCount = rn_toolCallCount r, ru_totalUsage = rn_usage r,
       ru_totalLlmTimeMs = rn_llmMs r, ru_totalToolTimeMs = rn_toolMs r \<rparr>"

text \<open>The \<open>finally\<close> block, the final response, and \<open>settleRun\<close> up to its hook. The error is the one a failed run rethrows.\<close>

definition finish_run :: "ms \<Rightarrow> end_reason \<Rightarrow> string option \<Rightarrow> agent_error option \<Rightarrow> run \<Rightarrow> loop_state \<Rightarrow> loop_state" where
  "finish_run now reason tripReason err r s =
     (let a = (lp_agent s)\<lparr>ag_running := False\<rparr>; model = cl_model (primary a);
          finalText = resolveFinalText reason tripReason (gc_maxSteps (ag_config a)) (rn_last r);
          response = buildFinalResponse now model reason finalText r;
          report = run_report_of now model reason finalText (map_option error_message err) r;
          a1 = emit (RunCompleted report) (a\<lparr>ag_reports := ag_reports a @ [report]\<rparr>);
          result = (case err of Some e \<Rightarrow> Inl e | None \<Rightarrow> Inr response)
      in s\<lparr>lp_agent := a1, lp_stage := Idle, lp_closing := lp_closing s @ [(rn_call r, result)]\<rparr>)"

definition recordRunError :: "agent_error \<Rightarrow> run \<Rightarrow> loop_state \<Rightarrow> loop_state" where
  "recordRunError e r s = go (AwaitRunError r e) (emit (RunErrorSeen (rn_id r) (error_message e)) (lp_agent s)) s"

section \<open>The start of a run\<close>

text \<open>\<open>repairUnansweredToolCalls\<close>: the calls of assistant messages without a result, each id once.\<close>

fun orphan_parts :: "string list \<Rightarrow> content_part list \<Rightarrow> content_part list" where
  "orphan_parts seen [] = []"
| "orphan_parts seen (p # ps) =
     (case p of
        ToolCallPart i name _ _ _ _ \<Rightarrow>
          if i \<in> set seen then orphan_parts seen ps
          else ToolResultPart i (ContentText (''Tool '' @ dquote name
                 @ '' was never run: the previous turn ended before it could execute.'')) (Some True) None None
               # orphan_parts (i # seen) ps
      | _ \<Rightarrow> orphan_parts seen ps)"

definition orphans :: "message list \<Rightarrow> content_part list" where
  "orphans ms = orphan_parts (concat (map result_ids ms)) (concat (map part_list (filter (\<lambda>m. msg_role m = Assistant) ms)))"

definition append_message :: "ms \<Rightarrow> message \<Rightarrow> append_meta option \<Rightarrow> agent \<Rightarrow> agent" where
  "append_message now m meta a = a\<lparr>ag_history := snd (append_entry now m meta (ag_history a))\<rparr>"

definition repairUnansweredToolCalls :: "ms \<Rightarrow> agent \<Rightarrow> agent" where
  "repairUnansweredToolCalls now a =
     (let os = orphans (messages (ag_history a)) in
      if os = [] then a
      else emit (AgentWarning ''unanswered_tool_calls_repaired''
             (nat_to_string (length os) @ '' tool call(s) from an interrupted turn had no result and were answered ''
              @ ''synthetically, because a provider rejects a history that leaves one open.''))
             (append_message now (new_message Tool (ContentParts os)) None a))"

definition append_all :: "ms \<Rightarrow> message list \<Rightarrow> agent \<Rightarrow> agent" where
  "append_all now ms a = foldl (\<lambda>b m. append_message now m None b) a ms"

text \<open>\<open>beginRun\<close> after its hook.\<close>

definition admit_input :: "ms \<Rightarrow> run_input \<Rightarrow> agent \<Rightarrow> agent" where
  "admit_input now i a =
     (let a1 = append_all now (inputMessages i) (repairUnansweredToolCalls now a)
      in (append_all now (ag_pendingInput a1) a1)\<lparr>ag_pendingInput := []\<rparr>)"

definition new_run :: "ms \<Rightarrow> string \<Rightarrow> nat \<Rightarrow> run_input \<Rightarrow> run_options \<Rightarrow> run" where
  "new_run now fresh call i options =
     \<lparr> rn_call = call, rn_id = fresh, rn_options = options, rn_input = i, rn_startedAt = now, rn_steps = [],
       rn_usage = emptyUsage, rn_llmMs = 0, rn_toolMs = 0, rn_stepCount = 0, rn_toolCallCount = 0, rn_last = None,
       rn_citations = [], rn_stepStart = now \<rparr>"

definition begin_run :: "ms \<Rightarrow> string \<Rightarrow> nat \<Rightarrow> run_input \<Rightarrow> run_options \<Rightarrow> agent \<Rightarrow> loop_state \<Rightarrow> loop_state" where
  "begin_run now fresh call i options a s =
     go (AwaitRunStart (new_run now fresh call i options))
        (emit (RunStarted fresh (toolNames a) (history_length (ag_history a))) a) s"

definition beginRun :: "ms \<Rightarrow> string \<Rightarrow> nat \<Rightarrow> run_input \<Rightarrow> run_options \<Rightarrow> loop_state \<Rightarrow> loop_state" where
  "beginRun now fresh call i options s =
     (if ag_running (lp_agent s) then settle_call call (Inl (PlainError ''AgentLoop is already running'')) s
      else (let a = (lp_agent s)\<lparr>ag_running := True, ag_stopRequested := False, ag_searches := 0\<rparr> in
            if gc_hasSystemThunk (ag_config a) then go (AwaitThunk call i options) a s
            else begin_run now fresh call i options a s))"

definition apply_thunk :: "ms \<Rightarrow> string \<Rightarrow> agent \<Rightarrow> agent" where
  "apply_thunk now v a = (if v \<noteq> ag_system a then set_agent_system now v a else a)"

text \<open>A run that fails before its \<open>try\<close> block: the promise is rejected and nothing else happens.\<close>

definition fail_start :: "nat \<Rightarrow> agent_error \<Rightarrow> loop_state \<Rightarrow> loop_state" where
  "fail_start call e s = settle_call call (Inl e) (s\<lparr>lp_stage := Idle\<rparr>)"

section \<open>A step\<close>

definition enter_step :: "ms \<Rightarrow> run \<Rightarrow> loop_state \<Rightarrow> loop_state" where
  "enter_step now r s =
     (if ag_stopRequested (lp_agent s) then finish_run now RunStopped None None r s
      else go (AwaitStepStart r)
        (emit (StepStarted (rn_id r) (rn_stepCount r) (rn_stepCount r \<noteq> 0) (history_length (ag_history (lp_agent s)))) (lp_agent s)) s)"

definition call_model :: "run \<Rightarrow> request \<Rightarrow> nat \<Rightarrow> loop_state \<Rightarrow> loop_state" where
  "call_model r req i s =
     go (AwaitModel r req i)
        (emit (ModelRequested (gc_clientChain (ag_config (lp_agent s)) ! i) (rq_messages req) (rq_system req) (rq_tools req))
           (lp_agent s)) s"

definition request_model :: "run \<Rightarrow> string option \<Rightarrow> loop_state \<Rightarrow> loop_state" where
  "request_model r sys s =
     (let a = lp_agent s in
      call_model r \<lparr> rq_messages = messages (ag_history a), rq_system = sys, rq_tools = toolDefinitions (op_tools (rn_options r)) a \<rparr> 0 s)"

definition guards_of :: "guard_kind \<Rightarrow> agent \<Rightarrow> string list" where
  "guards_of k a = map fst (filter (\<lambda>g. snd g = k) (gc_guardrails (ag_config a)))"

definition runInputGuardrails :: "run \<Rightarrow> string option \<Rightarrow> string list \<Rightarrow> loop_state \<Rightarrow> loop_state" where
  "runInputGuardrails r sys guards s =
     (if guards = [] then request_model r sys s else s\<lparr>lp_stage := AwaitInputGuard r sys guards\<rparr>)"

definition composed_system :: "ms \<Rightarrow> run \<Rightarrow> agent \<Rightarrow> string option" where
  "composed_system now r a =
     (let flat = rr_flat (render_local now (no_filter\<lparr>ro_tag := Some ''system''\<rparr>) (hi_registry (ag_history a)))
      in case op_system (rn_options r) of Some v \<Rightarrow> Some v | None \<Rightarrow> if length flat > 0 then Some flat else None)"

definition start_step :: "ms \<Rightarrow> run \<Rightarrow> loop_state \<Rightarrow> loop_state" where
  "start_step now r s =
     runInputGuardrails (r\<lparr>rn_stepStart := now\<rparr>) (composed_system now r (lp_agent s)) (guards_of InputGuard (lp_agent s)) s"

text \<open>\<open>completeWithFallback\<close> after a failure of the client \<open>i\<close>.\<close>

definition model_failed :: "run \<Rightarrow> request \<Rightarrow> nat \<Rightarrow> agent_error \<Rightarrow> loop_state \<Rightarrow> loop_state" where
  "model_failed r req i e s =
     (let chain = gc_clientChain (ag_config (lp_agent s));
          kinds = nullish (gc_fallbackOn (ag_config (lp_agent s))) DEFAULT_AGENT_FALLBACK_KINDS
      in if i = length chain - 1 \<or> \<not> retryable_failure e kinds then recordRunError e r s
         else (let a = emit (AgentWarning ''model_fallback'' (''Model '' @ dquote (cl_model (chain ! i)) @ '' failed (''
                 @ (case kindOf e of Some k \<Rightarrow> kind_name k | None \<Rightarrow> ''error'') @ '': '' @ error_message e @ ''); falling back to ''
                 @ dquote (cl_model (chain ! (i + 1))) @ ''.'')) (lp_agent s)
               in call_model r req (i + 1) (s\<lparr>lp_agent := a\<rparr>)))"

definition has_tool_calls :: "llm_response \<Rightarrow> bool" where
  "has_tool_calls x = (re_finishReason x = ''tool_use'' \<and> re_toolCalls x \<noteq> [])"

text \<open>The response becomes part of the conversation.\<close>

definition accept_response :: "ms \<Rightarrow> string \<Rightarrow> run \<Rightarrow> served \<Rightarrow> loop_state \<Rightarrow> loop_state" where
  "accept_response now fresh r sv s =
     (let x = sv_response sv; has = has_tool_calls x;
          a = append_message now (buildAssistantMessage now fresh x (sv_by sv))
                (Some \<lparr> am_model = Some (cl_model (sv_by sv)), am_usage = Some (re_usage x), am_latencyMs = Some (sv_latency sv) \<rparr>)
                (lp_agent s)
      in go (AwaitStepComplete r sv has)
           (emit (StepCompleted (rn_id r) (rn_stepCount r) has (has \<and> \<not> ag_stopRequested a)) a) s)"

definition count_response :: "ms \<Rightarrow> llm_response \<Rightarrow> run \<Rightarrow> run" where
  "count_response now x r =
     r\<lparr>rn_last := Some x, rn_llmMs := rn_llmMs r + (now - rn_stepStart r), rn_usage := addUsage (rn_usage r) (re_usage x),
       rn_citations := foldl (\<lambda>m c. AList.update (ct_url c) c m) (rn_citations r) (nullish (re_citations x) [])\<rparr>"

definition model_answered :: "ms \<Rightarrow> string \<Rightarrow> run \<Rightarrow> client \<Rightarrow> llm_response \<Rightarrow> loop_state \<Rightarrow> loop_state" where
  "model_answered now fresh r by_client x s =
     (let sv = \<lparr> sv_response = x, sv_by = by_client, sv_latency = now - rn_stepStart r \<rparr>; r1 = count_response now x r; a = lp_agent s
      in case gc_reflectRetry (ag_config a) of
           None \<Rightarrow> accept_response now fresh r1 sv s
         | Some p \<Rightarrow>
             if handles p (re_finishReason x) then
               (let attempt = ag_consecutive a + 1; retry = (int attempt \<le> rf_maxRetries p) in
                go (AwaitRetryWarning r1 sv attempt)
                   (emit (AgentWarning ''model_failure_retry'' (''Step '' @ nat_to_string (rn_stepCount r) @ '' ended with ''
                       @ dquote (re_finishReason x) @ ''; ''
                       @ (if retry then ''retrying with reflection guidance (attempt '' @ nat_to_string attempt @ '' of ''
                                        @ int_to_string (rf_maxRetries p) @ '')''
                          else ''retry budget exhausted'') @ ''.''))
                     (a\<lparr>ag_consecutive := attempt\<rparr>)) s)
             else accept_response now fresh r1 sv (s\<lparr>lp_agent := a\<lparr>ag_consecutive := 0\<rparr>\<rparr>))"

definition after_retry_warning :: "ms \<Rightarrow> string \<Rightarrow> run \<Rightarrow> served \<Rightarrow> nat \<Rightarrow> reflect_policy \<Rightarrow> loop_state \<Rightarrow> loop_state" where
  "after_retry_warning now fresh r sv attempt p s =
     (let x = sv_response sv in
      if int attempt \<le> rf_maxRetries p then
        enter_step now r (s\<lparr>lp_agent := append_message now (new_message User (ContentText
          (reflectionGuidance (re_finishReason x) attempt (rf_maxRetries p) (re_errorMessage x)))) None (lp_agent s)\<rparr>)
      else if rf_throwIfExceeded p then
        recordRunError (RunError ''model_failure_retry_exhausted''
          (''The model returned '' @ dquote (re_finishReason x) @ '' '' @ nat_to_string attempt @ '' times in a row ''
           @ ''(reflectAndRetry.maxRetries = '' @ int_to_string (rf_maxRetries p) @ ''). Set ''
           @ ''reflectAndRetry.throwIfExceeded = false to receive the last response instead.'')) r s
      else accept_response now fresh r sv s)"

section \<open>The tool calls of a step\<close>

text \<open>The calls that can start now: one after the other until one has to wait.\<close>

fun start_calls :: "tool_call list \<Rightarrow> (tool_call \<times> tool_stage) list \<Rightarrow> world
    \<Rightarrow> (tool_call \<times> tool_stage) list \<times> tool_call list \<times> world" where
  "start_calls [] slots w = (slots, [], w)"
| "start_calls (tc # tcs) slots w =
     (case start_call tc w of (st, w1) \<Rightarrow>
        if settled st then start_calls tcs (slots @ [(tc, st)]) w1 else (slots @ [(tc, st)], tcs, w1))"

fun start_every :: "tool_call list \<Rightarrow> (tool_call \<times> tool_stage) list \<Rightarrow> world \<Rightarrow> (tool_call \<times> tool_stage) list \<times> world" where
  "start_every [] slots w = (slots, w)"
| "start_every (tc # tcs) slots w = (case start_call tc w of (st, w1) \<Rightarrow> start_every tcs (slots @ [(tc, st)]) w1)"

definition answers :: "(tool_call \<times> tool_stage) list \<Rightarrow> content_part list" where
  "answers slots = List.map_filter (\<lambda>(tc, st). case st of Answered p \<Rightarrow> Some p | _ \<Rightarrow> None) slots"

definition step_type :: "nat \<Rightarrow> bool" where "step_type n = (n \<noteq> 0)"

text \<open>The step is written down.\<close>

definition write_step :: "run \<Rightarrow> served \<Rightarrow> bool \<Rightarrow> tool_report list \<Rightarrow> run" where
  "write_step r sv has reports =
     (let x = sv_response sv; toolMs = (if has then sum_list (map tr_latencyMs reports) else 0)
      in r\<lparr>rn_toolMs := rn_toolMs r + toolMs,
           rn_toolCallCount := rn_toolCallCount r + (if has then length (re_toolCalls x) else 0),
           rn_steps := rn_steps r @ [\<lparr> sp_index = rn_stepCount r, sp_followup = step_type (rn_stepCount r),
             sp_llmLatencyMs = sv_latency sv, sp_usage = re_usage x, sp_finishReason = re_finishReason x,
             sp_toolCalls = reports, sp_toolTotalMs = toolMs \<rparr>],
           rn_stepCount := rn_stepCount r + 1\<rparr>)"

text \<open>The end of a step; \<open>results\<close> are the answers of its calls.\<close>

definition close_step :: "ms \<Rightarrow> run \<Rightarrow> served \<Rightarrow> bool \<Rightarrow> tool_report list \<Rightarrow> content_part list \<Rightarrow> loop_state \<Rightarrow> loop_state" where
  "close_step now r sv has reports results s =
     (let a = (if has then append_message now (new_message Tool (ContentParts results)) None (lp_agent s) else lp_agent s);
          r1 = write_step r sv has reports;
          s1 = s\<lparr>lp_agent := a\<rparr>
      in if \<not> has then finish_run now RunDone None None r1 s1
         else if rn_stepCount r1 \<ge> gc_maxSteps (ag_config a) then finish_run now RunMaxSteps None None r1 s1
         else enter_step now r1 s1)"

definition advance_pool :: "ms \<Rightarrow> run \<Rightarrow> served \<Rightarrow> tool_pool \<Rightarrow> loop_state \<Rightarrow> loop_state" where
  "advance_pool now r sv pool s =
     (if list_all (\<lambda>(tc, st). settled st) (tp_slots pool) then
        (case start_calls (tp_waiting pool) (tp_slots pool) (lp_agent s, tp_reports pool) of
           (slots, waiting, (a, reports)) \<Rightarrow>
             if list_all (\<lambda>(tc, st). settled st) slots then
               close_step now r sv True reports (answers slots) (s\<lparr>lp_agent := a\<rparr>)
             else go (AwaitTools r sv \<lparr> tp_slots = slots, tp_waiting = waiting, tp_reports = reports \<rparr>) a s)
      else go (AwaitTools r sv pool) (lp_agent s) s)"

definition executeToolCalls :: "ms \<Rightarrow> run \<Rightarrow> served \<Rightarrow> loop_state \<Rightarrow> loop_state" where
  "executeToolCalls now r sv s =
     (let calls = re_toolCalls (sv_response sv) in
      if gc_parallelToolCalls (ag_config (lp_agent s)) \<and> length calls > 1 then
        (case start_every calls [] (lp_agent s, []) of
           (slots, (a, reports)) \<Rightarrow>
             advance_pool now r sv \<lparr> tp_slots = slots, tp_waiting = [], tp_reports = reports \<rparr> (s\<lparr>lp_agent := a\<rparr>))
      else advance_pool now r sv \<lparr> tp_slots = [], tp_waiting = calls, tp_reports = [] \<rparr> s)"

text \<open>An answer for the call in slot \<open>k\<close>. A call that fails rejects the whole step; the others go on by themselves.\<close>

definition tool_answered :: "ms \<Rightarrow> run \<Rightarrow> served \<Rightarrow> tool_pool \<Rightarrow> nat \<Rightarrow> tool_answer \<Rightarrow> loop_state \<Rightarrow> loop_state" where
  "tool_answered now r sv pool k ans s =
     (if k < length (tp_slots pool) then
        (case tp_slots pool ! k of (tc, st) \<Rightarrow>
         (case tool_step now (rn_id r) (rn_stepCount r) tc ans st (lp_agent s, tp_reports pool) of (st1, (a, reports)) \<Rightarrow>
            let slots = (tp_slots pool)[k := (tc, st1)]; s1 = s\<lparr>lp_agent := a\<rparr> in
            case st1 of
              Rejected e \<Rightarrow>
                recordRunError e r (s1\<lparr>lp_background := lp_background s1
                  @ map (\<lambda>(tc, st). (rn_id r, rn_stepCount r, tc, st)) (filter (\<lambda>(tc, st). \<not> settled st) slots)\<rparr>)
            | _ \<Rightarrow> advance_pool now r sv (pool\<lparr>tp_slots := slots, tp_reports := reports\<rparr>) s1))
      else s)"

definition after_output_guards :: "ms \<Rightarrow> run \<Rightarrow> served \<Rightarrow> bool \<Rightarrow> loop_state \<Rightarrow> loop_state" where
  "after_output_guards now r sv has s =
     (if has then executeToolCalls now r sv s else close_step now r sv False [] [] s)"

definition runOutputGuardrails :: "ms \<Rightarrow> run \<Rightarrow> served \<Rightarrow> bool \<Rightarrow> string list \<Rightarrow> loop_state \<Rightarrow> loop_state" where
  "runOutputGuardrails now r sv has guards s =
     (if guards = [] then after_output_guards now r sv has s else s\<lparr>lp_stage := AwaitOutputGuard r sv has guards\<rparr>)"

definition guardrail_tripped :: "guard_kind \<Rightarrow> run \<Rightarrow> string \<Rightarrow> string \<Rightarrow> agent \<Rightarrow> agent" where
  "guardrail_tripped k r name reason a = emit (GuardrailTriggered (rn_id r) (rn_stepCount r) name k reason) a"

section \<open>Answers\<close>

datatype run_answer =
    RunHookDone
  | RunThrew agent_error
  | ThunkReturned string
  | GuardSays bool bool string
  | ModelReturned llm_response

definition run_reply :: "ms \<Rightarrow> string \<Rightarrow> run_answer \<Rightarrow> loop_state \<Rightarrow> loop_state" where
  "run_reply now fresh ans s =
     (case lp_stage s of
        Idle \<Rightarrow> s
      | AwaitThunk call i options \<Rightarrow>
          (case ans of
             ThunkReturned v \<Rightarrow> begin_run now fresh call i options (apply_thunk now v (lp_agent s)) s
           | RunThrew e \<Rightarrow> fail_start call e s | _ \<Rightarrow> s)
      | AwaitRunStart r \<Rightarrow>
          (case ans of
             RunHookDone \<Rightarrow> enter_step now r (s\<lparr>lp_agent := admit_input now (rn_input r) (lp_agent s)\<rparr>)
           | RunThrew e \<Rightarrow> fail_start (rn_call r) e s | _ \<Rightarrow> s)
      | AwaitStepStart r \<Rightarrow>
          (case ans of
             RunHookDone \<Rightarrow> start_step now r s
           | RunThrew e \<Rightarrow> recordRunError e r s | _ \<Rightarrow> s)
      | AwaitInputGuard r sys guards \<Rightarrow>
          (case ans of
             GuardSays pass tripwire reason \<Rightarrow>
               if \<not> pass \<and> tripwire
               then go (AwaitInputTrip r sys reason) (guardrail_tripped InputGuard r (hd guards) reason (lp_agent s)) s
               else runInputGuardrails r sys (tl guards) s
           | RunThrew e \<Rightarrow> recordRunError e r s | _ \<Rightarrow> s)
      | AwaitInputTrip r sys reason \<Rightarrow>
          (case ans of
             RunHookDone \<Rightarrow> if reason \<noteq> [] then finish_run now RunGuardrail (Some reason) None r s else request_model r sys s
           | RunThrew e \<Rightarrow> recordRunError e r s | _ \<Rightarrow> s)
      | AwaitModel r req i \<Rightarrow>
          (case ans of
             ModelReturned x \<Rightarrow> model_answered now fresh r (gc_clientChain (ag_config (lp_agent s)) ! i) x s
           | RunThrew e \<Rightarrow> model_failed r req i e s | _ \<Rightarrow> s)
      | AwaitRetryWarning r sv attempt \<Rightarrow>
          (case ans of
             RunHookDone \<Rightarrow> (case gc_reflectRetry (ag_config (lp_agent s)) of
               Some p \<Rightarrow> after_retry_warning now fresh r sv attempt p s | None \<Rightarrow> s)
           | RunThrew e \<Rightarrow> recordRunError e r s | _ \<Rightarrow> s)
      | AwaitStepComplete r sv has \<Rightarrow>
          (case ans of
             RunHookDone \<Rightarrow> runOutputGuardrails now r sv has (guards_of OutputGuard (lp_agent s)) s
           | RunThrew e \<Rightarrow> recordRunError e r s | _ \<Rightarrow> s)
      | AwaitOutputGuard r sv has guards \<Rightarrow>
          (case ans of
             GuardSays pass tripwire reason \<Rightarrow>
               if \<not> pass \<and> tripwire
               then go (AwaitOutputTrip r sv has reason) (guardrail_tripped OutputGuard r (hd guards) reason (lp_agent s)) s
               else runOutputGuardrails now r sv has (tl guards) s
           | RunThrew e \<Rightarrow> recordRunError e r s | _ \<Rightarrow> s)
      | AwaitOutputTrip r sv has reason \<Rightarrow>
          (case ans of
             RunHookDone \<Rightarrow>
               if reason \<noteq> [] then finish_run now RunGuardrail (Some reason) None r s else after_output_guards now r sv has s
           | RunThrew e \<Rightarrow> recordRunError e r s | _ \<Rightarrow> s)
      | AwaitTools r sv pool \<Rightarrow> s
      | AwaitRunError r e \<Rightarrow>
          (case ans of
             RunHookDone \<Rightarrow> finish_run now RunFailed None (Some e) r s
           | RunThrew e1 \<Rightarrow> settle_call (rn_call r) (Inl e1) (s\<lparr>lp_stage := Idle, lp_agent := (lp_agent s)\<lparr>ag_running := False\<rparr>\<rparr>)
           | _ \<Rightarrow> s))"

section \<open>Everything that can happen\<close>

datatype host_op =
    HStop
  | HAddInput run_input
  | HClearInput
  | HAddTool agent_tool
  | HRemoveTool string
  | HSetSystem string
  | HSetContext string
  | HResume string approval_decision

definition host_step :: "ms \<Rightarrow> host_op \<Rightarrow> agent \<Rightarrow> agent" where
  "host_step now h a = (case h of
      HStop \<Rightarrow> stop a | HAddInput i \<Rightarrow> fst (addInput i a) | HClearInput \<Rightarrow> clearPendingInput a
    | HAddTool t \<Rightarrow> fst (addTool now t a) | HRemoveTool n \<Rightarrow> removeTool n a | HSetSystem v \<Rightarrow> set_agent_system now v a
    | HSetContext v \<Rightarrow> set_agent_context now v a | HResume i d \<Rightarrow> resumeWithApproval i d a)"

datatype loop_event =
    Complete nat run_input run_options
  | Reply run_answer
  | ToolReply nat tool_answer
  | BackgroundReply nat tool_answer
  | ClosingReply nat "agent_error option"
  | Host host_op

definition background_step :: "ms \<Rightarrow> nat \<Rightarrow> tool_answer \<Rightarrow> loop_state \<Rightarrow> loop_state" where
  "background_step now k ans s =
     (if k < length (lp_background s) then
        (case lp_background s ! k of (rid, n, tc, st) \<Rightarrow>
         (case tool_step now rid n tc ans st (lp_agent s, []) of (st1, (a, _)) \<Rightarrow>
            s\<lparr>lp_agent := a, lp_background := (lp_background s)[k := (rid, n, tc, st1)]\<rparr>))
      else s)"

definition closing_step :: "nat \<Rightarrow> agent_error option \<Rightarrow> loop_state \<Rightarrow> loop_state" where
  "closing_step k err s =
     (if k < length (lp_closing s) then
        (case lp_closing s ! k of (call, result) \<Rightarrow>
           settle_call call (case err of Some e \<Rightarrow> Inl e | None \<Rightarrow> result)
             (s\<lparr>lp_closing := take k (lp_closing s) @ drop (Suc k) (lp_closing s)\<rparr>))
      else s)"

definition loop_step :: "ms \<Rightarrow> string \<Rightarrow> loop_event \<Rightarrow> loop_state \<Rightarrow> loop_state" where
  "loop_step now fresh ev s = (case ev of
      Complete call i options \<Rightarrow> beginRun now fresh call i options s
    | Reply ans \<Rightarrow> run_reply now fresh ans s
    | ToolReply k ans \<Rightarrow> (case lp_stage s of AwaitTools r sv pool \<Rightarrow> tool_answered now r sv pool k ans s | _ \<Rightarrow> s)
    | BackgroundReply k ans \<Rightarrow> background_step now k ans s
    | ClosingReply k err \<Rightarrow> closing_step k err s
    | Host h \<Rightarrow> s\<lparr>lp_agent := host_step now h (lp_agent s)\<rparr>)"

fun loop_run :: "(ms \<times> string \<times> loop_event) list \<Rightarrow> loop_state \<Rightarrow> loop_state" where
  "loop_run [] s = s"
| "loop_run ((now, fresh, ev) # evs) s = loop_run evs (loop_step now fresh ev s)"

definition loop_start :: "agent \<Rightarrow> loop_state" where
  "loop_start a = \<lparr> lp_agent = a, lp_stage = Idle, lp_closing = [], lp_settled = [], lp_background = [] \<rparr>"

end
