(* ===== verification/ToolSafety.thy ===== *)
theory ToolSafety
  imports ToolCalls
begin

text \<open>
  What a tool call may do: when the tool runs, what an output guardrail keeps, how a call is answered, and that it ends.
  A call is followed along its own answers; between two of them the agent may be changed in any way that keeps its
  configuration (the other calls of the step, the host).
\<close>

section \<open>The path of a call\<close>

type_synonym call_history = "(tool_answer \<times> tool_stage \<times> world) list"

inductive call_path ::
  "agent_config \<Rightarrow> string \<Rightarrow> nat \<Rightarrow> tool_call \<Rightarrow> call_history \<Rightarrow> tool_stage \<Rightarrow> world \<Rightarrow> bool"
  for cfg :: agent_config and rid :: string and n :: nat and tc :: tool_call where
  called: "ag_config (fst w) = cfg \<Longrightarrow> start_call tc w = (s, w') \<Longrightarrow> call_path cfg rid n tc [] s w'"
| answered: "call_path cfg rid n tc h s v \<Longrightarrow> ag_config (fst w) = cfg \<Longrightarrow> tool_step now rid n tc ans s w = (s', w')
    \<Longrightarrow> call_path cfg rid n tc (h @ [(ans, s, w)]) s' w'"

lemmas call_defs = finish_call_def buildMalformedResult_def buildSkippedResult_def buildOverriddenResult_def
  buildDeniedResult_def executeWithTimeout_def handleToolError_def error_handled_def complete_call_def success_result_def
  checkToolOutput_def buildSuccessResult_def withhold_def tripped_def runApprovalGate_def resolveApproval_def
  after_approval_hook_def decided_def apply_decision_def check_permission_def check_arguments_def input_guards_def
  lookupToolOrError_def start_call_def

section \<open>When a tool runs\<close>

text \<open>A start hook let the call through, the tool was registered under the name of the call at that time, it allows
  the caller, and the first \<open>i\<close> input guardrails passed.\<close>

definition admitted :: "tool_call \<Rightarrow> call_history \<Rightarrow> agent_tool \<Rightarrow> nat \<Rightarrow> bool" where
  "admitted tc h tool i \<longleftrightarrow>
     \<not> ca_malformed tc \<and> callerViolation tc tool = None
     \<and> (\<exists>w. (StartHookDone False None, OnStartHook, w) \<in> set h \<and> map_of (ag_tools (fst w)) (ca_name tc) = Some tool)
     \<and> (\<forall>j<i. \<exists>t0 w. (GuardPassed, OnInputGuard tool t0 j, w) \<in> set h)"

definition ready :: "agent_config \<Rightarrow> tool_call \<Rightarrow> call_history \<Rightarrow> agent_tool \<Rightarrow> bool" where
  "ready cfg tc h tool \<longleftrightarrow>
     admitted tc h tool (length (gc_toolInputGuardrails cfg)) \<and> argument_errors cfg tc tool = []"

text \<open>A decision came from the approver, asked about this call, or it was fed back for a call with this id, this tool
  name and this fingerprint of the arguments.\<close>

definition decision_of :: "tool_call \<Rightarrow> call_history \<Rightarrow> approval_decision \<Rightarrow> bool" where
  "decision_of tc h d \<longleftrightarrow>
     (\<exists>tool t0 w. (Decided d, OnDecision tool t0 None, w) \<in> set h)
     \<or> (\<exists>ans s w p. (ans, s, w) \<in> set h \<and> map_of (ag_prefedApprovals (fst w)) (ca_id tc) = Some p \<and> pf_decision p = d
          \<and> pf_toolName p = ca_name tc \<and> pf_digest p = approvalDigest (ca_name tc) (ca_arguments tc))"

definition policy_says :: "agent_config \<Rightarrow> tool_call \<Rightarrow> decision option" where
  "policy_says cfg tc = map_option (\<lambda>rules. check rules ''agent'' (permission_target tc) ''execute'') (gc_policy cfg)"

definition asked :: "agent_config \<Rightarrow> tool_call \<Rightarrow> bool" where
  "asked cfg tc \<longleftrightarrow> (\<exists>dec. policy_says cfg tc = Some dec \<and> de_ask dec = Some True)"

definition permitted :: "agent_config \<Rightarrow> tool_call \<Rightarrow> call_history \<Rightarrow> bool" where
  "permitted cfg tc h \<longleftrightarrow>
     (case policy_says cfg tc of
        None \<Rightarrow> True
      | Some dec \<Rightarrow>
          if de_ask dec = Some True
          then \<exists>d. decision_of tc h d \<and> ad_decision d = Approve \<and> ad_overrideResult d = None
          else de_allow dec)"

definition about_call :: "tool_call \<Rightarrow> approval_request \<Rightarrow> bool" where
  "about_call tc req \<longleftrightarrow> aq_callId req = ca_id tc \<and> aq_toolName req = ca_name tc \<and> aq_arguments req = ca_arguments tc"

definition stage_ok :: "agent_config \<Rightarrow> tool_call \<Rightarrow> call_history \<Rightarrow> tool_stage \<Rightarrow> bool" where
  "stage_ok cfg tc h stage \<longleftrightarrow>
     (case stage of
        OnStartHook \<Rightarrow> \<not> ca_malformed tc
      | OnInputGuard tool t0 i \<Rightarrow> admitted tc h tool i \<and> i < length (gc_toolInputGuardrails cfg)
      | OnApprovalHook tool t0 req \<Rightarrow> ready cfg tc h tool \<and> asked cfg tc \<and> about_call tc req
      | OnCheckpoint tool t0 req \<Rightarrow> ready cfg tc h tool \<and> asked cfg tc \<and> about_call tc req
      | OnDecision tool t0 known \<Rightarrow> ready cfg tc h tool \<and> asked cfg tc
          \<and> (\<forall>d. known = Some d \<longrightarrow> ad_decision d = Approve \<longrightarrow> decision_of tc h d)
      | OnResolvedHook tool t0 d \<Rightarrow> ready cfg tc h tool \<and> asked cfg tc \<and> (ad_decision d = Approve \<longrightarrow> decision_of tc h d)
      | OnExecute tool t0 \<Rightarrow> ready cfg tc h tool \<and> permitted cfg tc h
      | _ \<Rightarrow> True)"

lemma stage_ok_simps [simp]:
  "stage_ok cfg tc h OnStartHook \<longleftrightarrow> \<not> ca_malformed tc"
  "stage_ok cfg tc h (OnLookupError m v l)" "stage_ok cfg tc h (OnLookupWarning m l)" "stage_ok cfg tc h (OnArgsWarning r)"
  "stage_ok cfg tc h (OnInputGuard tool t0 i) \<longleftrightarrow> admitted tc h tool i \<and> i < length (gc_toolInputGuardrails cfg)"
  "stage_ok cfg tc h (OnApprovalHook tool t0 req) \<longleftrightarrow> ready cfg tc h tool \<and> asked cfg tc \<and> about_call tc req"
  "stage_ok cfg tc h (OnCheckpoint tool t0 req) \<longleftrightarrow> ready cfg tc h tool \<and> asked cfg tc \<and> about_call tc req"
  "stage_ok cfg tc h (OnDecision tool t0 known) \<longleftrightarrow> ready cfg tc h tool \<and> asked cfg tc
     \<and> (\<forall>d. known = Some d \<longrightarrow> ad_decision d = Approve \<longrightarrow> decision_of tc h d)"
  "stage_ok cfg tc h (OnResolvedHook tool t0 d) \<longleftrightarrow> ready cfg tc h tool \<and> asked cfg tc
     \<and> (ad_decision d = Approve \<longrightarrow> decision_of tc h d)"
  "stage_ok cfg tc h (OnExecute tool t0) \<longleftrightarrow> ready cfg tc h tool \<and> permitted cfg tc h"
  "stage_ok cfg tc h (OnOutputGuard tool t0 l c gs)" "stage_ok cfg tc h (OnBlockedMessage tool t0 l g r)"
  "stage_ok cfg tc h (OnExtractor t0 l c)" "stage_ok cfg tc h (OnCompleteHook t0 l c j)" "stage_ok cfg tc h (OnErrorHook l e)"
  "stage_ok cfg tc h (Answered part)" "stage_ok cfg tc h (Rejected e)"
  by (auto simp: stage_ok_def)

lemma results_ok [simp]:
  "stage_ok cfg tc h (fst (finish_call r part w))"
  "stage_ok cfg tc h (fst (buildMalformedResult tc w))"
  "stage_ok cfg tc h (fst (buildSkippedResult tc ov w))"
  "stage_ok cfg tc h (fst (buildOverriddenResult tc r1 w))"
  "stage_ok cfg tc h (fst (buildDeniedResult tc r1 w))"
  by (simp_all add: call_defs Let_def)

lemma admitted_later: "admitted tc h tool i \<Longrightarrow> admitted tc (h @ g) tool i"
  unfolding admitted_def by (simp; blast)

lemma admitted_Suc:
  "admitted tc h tool i \<Longrightarrow> (GuardPassed, OnInputGuard tool t0 i, w) \<in> set h \<Longrightarrow> admitted tc h tool (Suc i)"
  unfolding admitted_def less_Suc_eq by blast

lemma ready_later: "ready cfg tc h tool \<Longrightarrow> ready cfg tc (h @ g) tool"
  unfolding ready_def by (simp add: admitted_later)

lemma decision_of_later: "decision_of tc h d \<Longrightarrow> decision_of tc (h @ g) d"
  unfolding decision_of_def by (simp; blast)

lemma decision_of_asked: "(Decided d, OnDecision tool t0 None, w) \<in> set h \<Longrightarrow> decision_of tc h d"
  unfolding decision_of_def by blast

lemma permitted_by:
  "asked cfg tc \<Longrightarrow> decision_of tc h d \<Longrightarrow> ad_decision d = Approve \<Longrightarrow> ad_overrideResult d = None \<Longrightarrow> permitted cfg tc h"
  unfolding permitted_def asked_def by auto

lemma permitted_later: "permitted cfg tc h \<Longrightarrow> permitted cfg tc (h @ g)"
  unfolding permitted_def using decision_of_later by (fastforce split: option.splits if_splits)

lemmas later = admitted_later ready_later decision_of_later permitted_later

lemma stage_ok_later: "stage_ok cfg tc h s \<Longrightarrow> stage_ok cfg tc (h @ g) s"
  by (cases s) (auto simp: intro: later)

lemma check_permission_ok:
  "ag_config (fst w) = cfg \<Longrightarrow> ready cfg tc h tool \<Longrightarrow> stage_ok cfg tc h (fst (check_permission now rid n tc tool t0 w))"
  by (auto simp: check_permission_def call_defs permitted_def policy_says_def asked_def about_call_def
      Let_def split: option.splits)

lemma check_arguments_ok:
  "ag_config (fst w) = cfg \<Longrightarrow> admitted tc h tool (length (gc_toolInputGuardrails cfg))
   \<Longrightarrow> stage_ok cfg tc h (fst (check_arguments now rid n tc tool t0 w))"
  using check_permission_ok[of w cfg tc h tool now rid n t0] by (auto simp: check_arguments_def ready_def Let_def)

lemma input_guards_ok:
  "ag_config (fst w) = cfg \<Longrightarrow> admitted tc h tool i \<Longrightarrow> i \<le> length (gc_toolInputGuardrails cfg)
   \<Longrightarrow> stage_ok cfg tc h (fst (input_guards now rid n tc tool t0 i w))"
  using check_arguments_ok[of w cfg tc h tool now rid n t0] by (auto simp: input_guards_def le_less)

lemma lookup_ok:
  assumes "ag_config (fst w) = cfg" "\<not> ca_malformed tc" "(StartHookDone False None, OnStartHook, w) \<in> set h"
  shows "stage_ok cfg tc h (fst (lookupToolOrError now rid n tc w))"
proof (cases "map_of (ag_tools (fst w)) (ca_name tc)")
  case (Some tool)
  have "admitted tc h tool 0" if "callerViolation tc tool = None"
    using that assms Some unfolding admitted_def by blast
  then show ?thesis
    using Some assms(1) by (cases "callerViolation tc tool")
      (auto simp: lookupToolOrError_def  Let_def intro!: input_guards_ok)
qed (simp add: lookupToolOrError_def Let_def)

lemma prefed_decision_of:
  assumes "about_call tc req" "prefed_decision req (fst w) = (a, Inr (Some d))" "(ans, s, w) \<in> set h"
  shows "decision_of tc h d"
proof -
  obtain p where "map_of (ag_prefedApprovals (fst w)) (ca_id tc) = Some p" "pf_decision p = d"
    "pf_toolName p = ca_name tc" "pf_digest p = approvalDigest (ca_name tc) (ca_arguments tc)"
    using assms(1,2) by (auto simp: prefed_decision_def about_call_def Let_def split: option.splits if_splits)
  then show ?thesis using assms(3) unfolding decision_of_def by blast
qed

lemma resolve_ok:
  assumes "ready cfg tc h tool" "asked cfg tc" "about_call tc req" "(ans, s, w) \<in> set h"
  shows "stage_ok cfg tc h (fst (resolveApproval req tool t0 w))"
proof -
  obtain a r where p: "prefed_decision req (fst w) = (a, r)" by force
  show ?thesis
    using assms p prefed_decision_of[OF assms(3) _ assms(4)]
    by (auto simp: resolveApproval_def split: sum.splits option.splits)
qed

lemma answer_is_last: "(ans, s, w) \<in> set (h @ [(ans, s, w)])"
  by simp

lemma tool_step_ok:
  assumes "ag_config (fst w) = cfg" "stage_ok cfg tc h s"
  shows "stage_ok cfg tc (h @ [(ans, s, w)]) (fst (tool_step now rid n tc ans s w))"
proof (cases s)
  case OnStartHook
  then show ?thesis
    using assms lookup_ok[OF assms(1), of tc "h @ [(ans, s, w)]"]
    by (cases ans) (auto simp: tool_step_def split: option.splits)
next
  case (OnInputGuard tool t0 i)
  then have "admitted tc (h @ [(ans, s, w)]) tool (Suc i)" if "ans = GuardPassed"
    using assms(2) that OnInputGuard by (intro admitted_Suc[of _ _ _ _ t0 w]) (auto intro: later)
  then show ?thesis
    using OnInputGuard assms stage_ok_later[OF assms(2)]
    by (cases ans) (auto simp: tool_step_def buildDeniedResult_def finish_call_def
         intro!: input_guards_ok)
next
  case (OnApprovalHook tool t0 req)
  have "stage_ok cfg tc (h @ [(ans, s, w)]) (fst (resolveApproval req tool t0 w))"
    by (rule resolve_ok[OF _ _ _ answer_is_last]) (use assms(2) OnApprovalHook in \<open>auto simp: intro: later\<close>)
  then show ?thesis
    using OnApprovalHook assms stage_ok_later[OF assms(2)]
    by (cases ans) (auto simp: tool_step_def after_approval_hook_def 
        )
next
  case (OnCheckpoint tool t0 req)
  have "stage_ok cfg tc (h @ [(ans, s, w)]) (fst (resolveApproval req tool t0 w))"
    by (rule resolve_ok[OF _ _ _ answer_is_last]) (use assms(2) OnCheckpoint in \<open>auto simp: intro: later\<close>)
  then show ?thesis
    using OnCheckpoint assms stage_ok_later[OF assms(2)]
    by (cases ans) (auto simp: tool_step_def)
next
  case (OnDecision tool t0 known)
  have "decision_of tc (h @ [(Decided d, s, w)]) d" if "known = None" for d
    using OnDecision that decision_of_asked[OF answer_is_last] by simp
  then show ?thesis
    using OnDecision assms stage_ok_later[OF assms(2)]
    by (cases ans; cases known) (auto simp: tool_step_def decided_def intro: later)
next
  case (OnResolvedHook tool t0 d)
  then have "permitted cfg tc (h @ [(ans, s, w)])" if "ad_decision d = Approve" "ad_overrideResult d = None"
    using assms(2) that by (intro permitted_by[of _ _ _ d]) (auto intro: later)
  then show ?thesis
    using OnResolvedHook assms stage_ok_later[OF assms(2)]
    by (cases ans; cases "ad_decision d"; cases "ad_overrideResult d")
      (auto simp: tool_step_def apply_decision_def executeWithTimeout_def)
qed (use assms stage_ok_later[OF assms(2)] in
    \<open>auto simp: tool_step_def call_defs Let_def split: tool_answer.splits option.splits blocked_message.splits\<close>)

lemma start_call_ok: "stage_ok cfg tc h (fst (start_call tc w))"
  by (simp add: start_call_def buildMalformedResult_def finish_call_def Let_def)

lemma path_ok: "call_path cfg rid n tc h s w \<Longrightarrow> stage_ok cfg tc h s"
proof (induction rule: call_path.induct)
  case (called w s w')
  then show ?case using start_call_ok[of cfg tc "[]" w] by simp
next
  case (answered h s v w now ans s' w')
  then show ?case using tool_step_ok[of w cfg tc h s ans now rid n] by simp
qed


section \<open>An instance\<close>

definition sample_config :: "rule list option \<Rightarrow> agent_config" where
  "sample_config policy = restored_config [] None policy True False"

definition ask_rule :: rule where
  "ask_rule = \<lparr> ru_source = None, ru_target = None, ru_action = None, ru_effect = Ask, ru_reason = None \<rparr>"

definition sample_tool :: agent_tool where
  "sample_tool = \<lparr> at_object = 7, at_definition = BuiltinDef ''rm'' None, at_lazy = False, at_outputGuardrails = [''secrets''],
     at_hasExtractor = False \<rparr>"

definition sample_call :: tool_call where
  "sample_call = \<lparr> ca_id = ''c1'', ca_name = ''rm'', ca_arguments = [(''path'', JStr ''/tmp'')], ca_caller = None, ca_meta = None,
     ca_malformed = False \<rparr>"

definition sample_agent :: "rule list option \<Rightarrow> agent" where
  "sample_agent policy = (blank_agent (sample_config policy) [] [] (new_history 0 ''h'' None))\<lparr>ag_tools := [(''rm'', sample_tool)]\<rparr>"

definition approve_it :: approval_decision where
  "approve_it = \<lparr> ad_decision = Approve, ad_overrideResult = None, ad_note = None \<rparr>"

lemmas sample_defs = sample_config_def restored_config_def ask_rule_def sample_tool_def sample_call_def sample_agent_def
  approve_it_def blank_agent_def


section \<open>A withheld output\<close>

text \<open>Answers in order; before each of them the agent may change by what else happens.\<close>

type_synonym timed_answer = "ms \<times> tool_answer \<times> (world \<Rightarrow> world)"

fun play :: "string \<Rightarrow> nat \<Rightarrow> tool_call \<Rightarrow> timed_answer list \<Rightarrow> tool_stage \<times> world \<Rightarrow> tool_stage \<times> world" where
  "play rid n tc [] sw = sw"
| "play rid n tc ((now, ans, f) # as) sw = play rid n tc as (tool_step now rid n tc ans (fst sw) (f (snd sw)))"

lemma play_append: "play rid n tc (as @ bs) sw = play rid n tc bs (play rid n tc as sw)"
proof (induction as arbitrary: sw)
  case (Cons a as)
  then show ?case by (cases a) simp
qed simp

lemma play_passes:
  "length ps < length gs \<Longrightarrow> \<forall>p \<in> set ps. fst (snd p) = GuardPassed
   \<Longrightarrow> \<exists>w'. \<forall>r. play rid n tc ps (OnOutputGuard tool t0 l r gs, w)
        = (OnOutputGuard tool t0 l r (drop (length ps) gs), w')"
proof (induction ps arbitrary: gs w)
  case (Cons p ps)
  obtain now f where p: "p = (now, GuardPassed, f)" using Cons.prems by (cases p) auto
  have "tl gs \<noteq> []" using Cons.prems(1) by (cases gs) auto
  then have "play rid n tc (p # ps) (OnOutputGuard tool t0 l r gs, w) = play rid n tc ps (OnOutputGuard tool t0 l r (tl gs), f w)" for r
    by (simp add: p tool_step_def checkToolOutput_def)
  moreover have "length ps < length (tl gs)" using Cons.prems(1) by (cases gs) auto
  ultimately show ?case using Cons.IH[of "tl gs" "f w"] Cons.prems(2) by (simp add: drop_Suc)
qed simp

definition trips :: "tool_answer \<Rightarrow> bool" where
  "trips ans \<longleftrightarrow> (case ans of GuardTripped _ _ \<Rightarrow> True | Threw _ \<Rightarrow> True | _ \<Rightarrow> False)"

lemma trip_forgets: "trips ans \<Longrightarrow> tool_step now rid n tc ans (OnOutputGuard tool t0 l r gs) w
    = tool_step now rid n tc ans (OnOutputGuard tool t0 l r' gs) w"
  by (cases ans) (auto simp: trips_def tool_step_def)

text \<open>C10: A withheld output is withheld everywhere: when an output guardrail trips, or crashes, after any number of others
  passed, then what follows (the stages of the call, the agent with its event log, the reports, the part the model
  reads) is the same whatever the tool returned.\<close>
theorem withheld_output_leaves_no_trace:
  assumes "\<forall>p \<in> set ps. fst (snd p) = GuardPassed"
    and "length ps < length (gc_toolOutputGuardrails (ag_config (fst (f w))) @ at_outputGuardrails tool)"
    and "trips ans"
  shows "play rid n tc ((now, ToolReturned result, f) # ps @ (now', ans, g) # rest) (OnExecute tool t0, w)
    = play rid n tc ((now, ToolReturned result', f) # ps @ (now', ans, g) # rest) (OnExecute tool t0, w)"
proof -
  let ?gs = "gc_toolOutputGuardrails (ag_config (fst (f w))) @ at_outputGuardrails tool"
  have "?gs \<noteq> []" using assms(2) by auto
  then have "tool_step now rid n tc (ToolReturned r) (OnExecute tool t0) (f w) = (OnOutputGuard tool t0 (now - t0) r ?gs, f w)" for r
    by (auto simp: tool_step_def buildSuccessResult_def checkToolOutput_def)
  moreover obtain w' where "\<forall>r. play rid n tc ps (OnOutputGuard tool t0 (now - t0) r ?gs, f w)
      = (OnOutputGuard tool t0 (now - t0) r (drop (length ps) ?gs), w')"
    using play_passes[OF assms(2,1)] by blast
  ultimately have "play rid n tc ((now, ToolReturned r, f) # ps @ (now', ans, g) # rest) (OnExecute tool t0, w)
      = play rid n tc rest (tool_step now' rid n tc ans (OnOutputGuard tool t0 (now - t0) r (drop (length ps) ?gs)) (g w'))" for r
    by (simp add: play_append del: drop_append)
  then show ?thesis
    using trip_forgets[OF assms(3), of now' rid n tc tool t0 "now - t0" result "drop (length ps) ?gs" "g w'" result']
    by (simp only:)
qed

lemma withheld_output_leaves_no_trace_witness:
  "play ''r'' 0 sample_call [(5, ToolReturned (ContentText ''key=1''), id), (6, Threw (PlainError ''down''), id), (7, HookDone, id)]
     (OnExecute sample_tool 0, (sample_agent None, []))
   = play ''r'' 0 sample_call [(5, ToolReturned (ContentText ''key=2''), id), (6, Threw (PlainError ''down''), id), (7, HookDone, id)]
     (OnExecute sample_tool 0, (sample_agent None, []))"
  by (rule withheld_output_leaves_no_trace[where ps = "[]", unfolded append_Nil]) (simp_all add: sample_tool_def trips_def)

section \<open>How a call is answered\<close>

definition answered_by :: "tool_call \<Rightarrow> world \<Rightarrow> tool_stage \<times> world \<Rightarrow> bool" where
  "answered_by tc w sw \<longleftrightarrow>
     (case fst sw of
        Answered part \<Rightarrow> \<exists>r c e. part = ToolResultPart (ca_id tc) c e None None \<and> snd (snd sw) = snd w @ [r]
          \<and> tr_callId r = ca_id tc \<and> tr_arguments r = ca_arguments tc \<and> (e = Some True \<longleftrightarrow> tr_error r \<noteq> None)
      | _ \<Rightarrow> snd (snd sw) = snd w)"

lemma answered_by_results [simp]:
  "answered_by tc w (buildMalformedResult tc w)"
  "answered_by tc w (buildSkippedResult tc ov w)"
  "answered_by tc w (buildOverriddenResult tc r1 w)"
  "answered_by tc w (buildDeniedResult tc r1 w)"
  "answered_by tc w (success_result tc l c j w)"
  "answered_by tc w (finish_call (text_report tc m l sk (Some er)) (text_result tc m True) w)"
  "answered_by tc w (error_handled tc l e con fb w)"
  by (auto simp: answered_by_def call_defs text_report_def text_result_def Let_def)

lemma answered_by_waits [simp]:
  "answered_by tc w (complete_call tc t0 l c j w)"
  "answered_by tc w (checkToolOutput tc tool t0 l c gs w)"
  "answered_by tc w (tripped tc tool t0 l g r m w)"
  "answered_by tc w (withhold tc t0 l g r msg w)"
  "answered_by tc w (handleToolError now tc t0 e w)"
  "answered_by tc w (executeWithTimeout tc tool t0 w)"
  "answered_by tc w (resolveApproval req tool t0 w)"
  "answered_by tc w (runApprovalGate now rid n tc reason tool t0 w)"
  "answered_by tc w (decided tc tool t0 d w)"
  "answered_by tc w (buildSuccessResult now tc tool t0 c w)"
  "answered_by tc w (OnLookupWarning msg l, emit_in ev w)"
  by (auto simp: answered_by_def call_defs emit_in_def prefed_decision_def Let_def
      split: option.splits blocked_message.splits sum.splits)

lemma answered_by_checks [simp]:
  "answered_by tc w (check_permission now rid n tc tool t0 w)"
  "answered_by tc w (check_arguments now rid n tc tool t0 w)"
  "answered_by tc w (input_guards now rid n tc tool t0 i w)"
  "answered_by tc w (lookupToolOrError now rid n tc w)"
  "answered_by tc w (after_approval_hook now req tool t0 w)"
  "answered_by tc w (apply_decision tc tool t0 d w)"
proof -
  show p: "answered_by tc w (check_permission now rid n tc tool t0 w)" for tool t0
    by (auto simp: check_permission_def Let_def split: option.splits)
  show a: "answered_by tc w (check_arguments now rid n tc tool t0 w)" for tool t0
    using p by (auto simp: check_arguments_def Let_def answered_by_def emit_in_def)
  show i: "answered_by tc w (input_guards now rid n tc tool t0 i w)" for tool t0 i
    using a by (auto simp: input_guards_def answered_by_def)
  show "answered_by tc w (lookupToolOrError now rid n tc w)"
    using i by (auto simp: lookupToolOrError_def Let_def answered_by_def emit_in_def split: option.splits)
  show "answered_by tc w (after_approval_hook now req tool t0 w)"
    by (auto simp: after_approval_hook_def) (simp add: answered_by_def emit_in_def)
  show "answered_by tc w (apply_decision tc tool t0 d w)"
    by (auto simp: apply_decision_def split: approval_verdict.splits option.splits)
qed

lemma answered_by_stay [simp]:
  "\<not> settled s \<Longrightarrow> answered_by tc w (s, w)" "answered_by tc w (Rejected e, w)"
  by (auto simp: answered_by_def settled_def split: tool_stage.splits)

lemma tool_step_answered_by: "\<not> settled s \<Longrightarrow> answered_by tc w (tool_step now rid n tc ans s w)"
  by (cases s) (auto simp: tool_step_def settled_def[of "Answered _"] settled_def[of "Rejected _"]
      split: tool_answer.splits option.splits)

text \<open>Every call gets one answer: a step that does not end the call leaves the reports alone, and the one that answers
  it adds one report and returns a result part, both with the id of the call; the part is marked as an error exactly
  when the report names one.\<close>
theorem one_answer_one_report:
  assumes "\<not> settled s" "tool_step now rid n tc ans s w = (s', w')"
  shows "case s' of
      Answered part \<Rightarrow> \<exists>r c e. part = ToolResultPart (ca_id tc) c e None None \<and> snd w' = snd w @ [r]
        \<and> tr_callId r = ca_id tc \<and> tr_arguments r = ca_arguments tc \<and> (e = Some True \<longleftrightarrow> tr_error r \<noteq> None)
    | _ \<Rightarrow> snd w' = snd w"
  using tool_step_answered_by[OF assms(1), of tc w now rid n ans] assms(2)
  by (simp add: answered_by_def split: tool_stage.splits)

lemma one_answer_one_report_witness:
  "\<exists>part w'. tool_step 0 ''r'' 0 sample_call (StartHookDone True None) OnStartHook (sample_agent None, []) = (Answered part, w')
     \<and> map tr_callId (snd w') = [''c1'']"
proof -
  obtain part w' where e: "tool_step 0 ''r'' 0 sample_call (StartHookDone True None) OnStartHook (sample_agent None, []) = (Answered part, w')"
    by (simp add: tool_step_def buildSkippedResult_def finish_call_def Let_def)
  then show ?thesis using one_answer_one_report[OF _ e] by (auto simp: settled_def sample_call_def)
qed

section \<open>A call ends\<close>

text \<open>The answers a stage waits for.\<close>

definition waits_for :: "tool_stage \<Rightarrow> tool_answer \<Rightarrow> bool" where
  "waits_for stage ans \<longleftrightarrow>
     (case stage of
        OnStartHook \<Rightarrow> (case ans of StartHookDone _ _ \<Rightarrow> True | Threw _ \<Rightarrow> True | _ \<Rightarrow> False)
      | OnInputGuard _ _ _ \<Rightarrow> (case ans of GuardPassed \<Rightarrow> True | GuardTripped _ _ \<Rightarrow> True | Threw _ \<Rightarrow> True | _ \<Rightarrow> False)
      | OnOutputGuard _ _ _ _ _ \<Rightarrow> (case ans of GuardPassed \<Rightarrow> True | GuardTripped _ _ \<Rightarrow> True | Threw _ \<Rightarrow> True | _ \<Rightarrow> False)
      | OnDecision _ _ (Some _) \<Rightarrow> ans = HookDone
      | OnDecision _ _ None \<Rightarrow> (case ans of Decided _ \<Rightarrow> True | Threw _ \<Rightarrow> True | _ \<Rightarrow> False)
      | OnExecute _ _ \<Rightarrow> (case ans of ToolReturned _ \<Rightarrow> True | Threw _ \<Rightarrow> True | _ \<Rightarrow> False)
      | OnBlockedMessage _ _ _ _ _ \<Rightarrow> (case ans of FormatterReturned _ \<Rightarrow> True | Threw _ \<Rightarrow> True | _ \<Rightarrow> False)
      | OnExtractor _ _ _ \<Rightarrow> (case ans of ExtractorReturned _ \<Rightarrow> True | Threw _ \<Rightarrow> True | _ \<Rightarrow> False)
      | OnErrorHook _ _ \<Rightarrow> (case ans of ErrorHookDone _ _ \<Rightarrow> True | Threw _ \<Rightarrow> True | _ \<Rightarrow> False)
      | Answered _ \<Rightarrow> False
      | Rejected _ \<Rightarrow> False
      | _ \<Rightarrow> (case ans of HookDone \<Rightarrow> True | Threw _ \<Rightarrow> True | _ \<Rightarrow> False))"

definition call_rank :: "agent_config \<Rightarrow> tool_stage \<Rightarrow> nat \<times> nat" where
  "call_rank cfg stage =
     (case stage of
        OnStartHook \<Rightarrow> (14, 0) | OnLookupError _ _ _ \<Rightarrow> (13, 0)
      | OnInputGuard _ _ i \<Rightarrow> (12, length (gc_toolInputGuardrails cfg) - i)
      | OnApprovalHook _ _ _ \<Rightarrow> (11, 0) | OnCheckpoint _ _ _ \<Rightarrow> (10, 0) | OnDecision _ _ _ \<Rightarrow> (9, 0)
      | OnResolvedHook _ _ _ \<Rightarrow> (8, 0) | OnExecute _ _ \<Rightarrow> (7, 0) | OnOutputGuard _ _ _ _ gs \<Rightarrow> (6, length gs)
      | OnBlockedMessage _ _ _ _ _ \<Rightarrow> (5, 0) | OnExtractor _ _ _ \<Rightarrow> (4, 0) | OnCompleteHook _ _ _ _ \<Rightarrow> (3, 0)
      | OnErrorHook _ _ \<Rightarrow> (2, 0) | OnLookupWarning _ _ \<Rightarrow> (1, 0) | OnArgsWarning _ \<Rightarrow> (1, 0)
      | Answered _ \<Rightarrow> (0, 0) | Rejected _ \<Rightarrow> (0, 0))"

definition lower :: "((nat \<times> nat) \<times> (nat \<times> nat)) set" where
  "lower = less_than <*lex*> less_than"

lemma wf_lower: "wf lower"
  by (simp add: lower_def wf_lex_prod)

lemma lower_iff [simp]: "((a, b), (c, d)) \<in> lower \<longleftrightarrow> a < c \<or> (a = c \<and> b < d)"
  by (auto simp: lower_def)

lemma call_rank_simps:
  "call_rank cfg OnStartHook = (14, 0)" "call_rank cfg (OnLookupError m v l) = (13, 0)"
  "call_rank cfg (OnInputGuard tool t0 i) = (12, length (gc_toolInputGuardrails cfg) - i)"
  "call_rank cfg (OnApprovalHook tool t0 req) = (11, 0)" "call_rank cfg (OnCheckpoint tool t0 req) = (10, 0)"
  "call_rank cfg (OnDecision tool t0 known) = (9, 0)" "call_rank cfg (OnResolvedHook tool t0 d) = (8, 0)"
  "call_rank cfg (OnExecute tool t0) = (7, 0)" "call_rank cfg (OnOutputGuard tool t0 l c gs) = (6, length gs)"
  "call_rank cfg (OnBlockedMessage tool t0 l g r) = (5, 0)" "call_rank cfg (OnExtractor t0 l c) = (4, 0)"
  "call_rank cfg (OnCompleteHook t0 l c j) = (3, 0)" "call_rank cfg (OnErrorHook l e) = (2, 0)"
  "call_rank cfg (OnLookupWarning msg l) = (1, 0)" "call_rank cfg (OnArgsWarning msg) = (1, 0)"
  "call_rank cfg (Answered part) = (0, 0)" "call_rank cfg (Rejected e) = (0, 0)"
  by (simp_all add: call_rank_def)

lemma rank_results:
  "call_rank cfg (fst (finish_call r part w)) = (0, 0)"
  "call_rank cfg (fst (buildSkippedResult tc ov w)) = (0, 0)"
  "call_rank cfg (fst (buildOverriddenResult tc r1 w)) = (0, 0)"
  "call_rank cfg (fst (buildDeniedResult tc r1 w)) = (0, 0)"
  "call_rank cfg (fst (success_result tc l c j w)) = (0, 0)"
  "call_rank cfg (fst (error_handled tc l e con fb w)) = (0, 0)"
  "call_rank cfg (fst (complete_call tc t0 l c j w)) = (3, 0)"
  "call_rank cfg (fst (withhold tc t0 l g r1 msg w)) = (3, 0)"
  "call_rank cfg (fst (handleToolError now tc t0 e w)) = (2, 0)"
  "call_rank cfg (fst (executeWithTimeout tc tool t0 w)) = (7, 0)"
  "call_rank cfg (fst (runApprovalGate now rid n tc reason tool t0 w)) = (11, 0)"
  "call_rank cfg (fst (decided tc tool t0 d w)) = (8, 0)"
  by (auto simp: call_rank_def call_defs Let_def)

lemma rank_output: "(call_rank cfg (fst (checkToolOutput tc tool t0 l c gs w)), (6, Suc (length gs))) \<in> lower"
  by (auto simp: checkToolOutput_def rank_results) (simp_all add: call_rank_def)

lemma rank_tripped: "(call_rank cfg (fst (tripped tc tool t0 l g r m w)), (6, k)) \<in> lower"
  by (auto simp: tripped_def rank_results split: option.splits blocked_message.splits) (simp add: call_rank_def)

lemma rank_resolve: "(call_rank cfg (fst (resolveApproval req tool t0 w)), (10, k)) \<in> lower"
  by (auto simp: resolveApproval_def call_rank_def split: prod.splits sum.splits option.splits)

lemma rank_apply: "(call_rank cfg (fst (apply_decision tc tool t0 d w)), (8, k)) \<in> lower"
  by (auto simp: apply_decision_def rank_results split: approval_verdict.splits option.splits)

lemma rank_permission: "(call_rank cfg (fst (check_permission now rid n tc tool t0 w)), (12, k)) \<in> lower"
  by (auto simp: check_permission_def rank_results Let_def split: option.splits)

lemma rank_arguments: "(call_rank cfg (fst (check_arguments now rid n tc tool t0 w)), (12, k)) \<in> lower"
  using rank_permission by (auto simp: check_arguments_def Let_def) (simp add: call_rank_def)

lemma rank_guards:
  "ag_config (fst w) = cfg
   \<Longrightarrow> (call_rank cfg (fst (input_guards now rid n tc tool t0 (Suc i) w)), (12, length (gc_toolInputGuardrails cfg) - i)) \<in> lower"
  using rank_arguments by (auto simp: input_guards_def) (simp add: call_rank_def)

lemma rank_lookup: "(call_rank cfg (fst (lookupToolOrError now rid n tc w)), (14, k)) \<in> lower"
proof -
  have a: "(call_rank cfg (fst (check_arguments now rid n tc tool t0 w)), (14, k)) \<in> lower" for tool t0
    using rank_arguments[of cfg now rid n tc tool t0 w 0] by (cases "call_rank cfg (fst (check_arguments now rid n tc tool t0 w))") simp
  then have "(call_rank cfg (fst (input_guards now rid n tc tool t0 0 w)), (14, k)) \<in> lower" for tool t0
    using a by (auto simp: input_guards_def) (simp add: call_rank_def)
  then show ?thesis
    by (auto simp: lookupToolOrError_def Let_def split: option.splits) (simp_all add: call_rank_def)
qed

lemmas ranks = rank_results rank_output rank_tripped rank_resolve rank_apply rank_guards rank_lookup

lemma step_lowers_rank:
  assumes "ag_config (fst w) = cfg" "waits_for s ans"
  shows "(call_rank cfg (fst (tool_step now rid n tc ans s w)), call_rank cfg s) \<in> lower"
proof (cases s)
  case (OnInputGuard tool t0 i)
  then show ?thesis using assms rank_guards[OF assms(1), of now rid n tc tool t0 i]
    by (cases ans) (auto simp: tool_step_def waits_for_def rank_results call_rank_simps)
next
  case (OnOutputGuard tool t0 l c gs)
  then show ?thesis using assms rank_output[of cfg tc tool t0 l c "tl gs" w]
    by (cases ans; cases gs) (auto simp: tool_step_def waits_for_def rank_tripped call_rank_simps checkToolOutput_def rank_results)
next
  case (OnExecute tool t0)
  have "(call_rank cfg (fst (buildSuccessResult now tc tool t0 c w)), (7, 0)) \<in> lower" for c
    by (auto simp: buildSuccessResult_def checkToolOutput_def rank_results call_rank_simps)
  then show ?thesis using OnExecute assms
    by (cases ans) (auto simp: tool_step_def waits_for_def rank_results call_rank_simps)
next
  case (OnApprovalHook tool t0 req)
  have "(call_rank cfg (fst (after_approval_hook now req tool t0 w)), (11, 0)) \<in> lower"
    using rank_resolve[of cfg req tool t0 w 0]
    by (cases "call_rank cfg (fst (resolveApproval req tool t0 w))") (auto simp: after_approval_hook_def call_rank_simps)
  then show ?thesis using OnApprovalHook assms
    by (cases ans) (auto simp: tool_step_def waits_for_def call_rank_simps)
qed (use assms in \<open>auto simp: tool_step_def waits_for_def rank_results rank_resolve rank_apply rank_lookup call_rank_simps
       split: tool_answer.splits option.splits\<close>)

text \<open>C11: A call ends: whatever the hooks, the guardrails, the approver and the tool answer, as long as each of them
  answers, there is a point at which the call has its result or its error. No answer can send it back.\<close>
theorem call_ends:
  assumes "\<forall>i. stage (Suc i) = fst (tool_step (now i) rid n tc (ans i) (stage i) (w i))"
    and "\<forall>i. ag_config (fst (w i)) = cfg" and "\<forall>i. \<not> settled (stage i) \<longrightarrow> waits_for (stage i) (ans i)"
  shows "\<exists>i. settled (stage i)"
proof (rule ccontr)
  assume "\<nexists>i. settled (stage i)"
  then have "(call_rank cfg (stage (Suc i)), call_rank cfg (stage i)) \<in> lower" for i
    using assms step_lowers_rank[of "w i" cfg "stage i" "ans i" "now i" rid n tc] by simp
  then have "\<exists>f. \<forall>i. (f (Suc i), f i) \<in> lower" by (intro exI[of _ "\<lambda>i. call_rank cfg (stage i)"]) blast
  then show False using wf_lower unfolding wf_iff_no_infinite_down_chain by blast
qed

lemma settled_answered: "settled (Answered p)" by (simp add: settled_def)

lemma waits_for_start: "waits_for OnStartHook (StartHookDone b m)" by (simp add: waits_for_def)

definition skip_start :: "tool_stage \<Rightarrow> tool_stage" where
  "skip_start s = fst (tool_step 0 ''r'' 0 sample_call (StartHookDone True None) s (sample_agent None, []))"

lemma call_ends_witness: "\<exists>i. settled ((skip_start ^^ i) OnStartHook)"
proof (rule call_ends[where now = "\<lambda>_. 0" and rid = "''r''" and n = 0 and tc = sample_call and w = "\<lambda>_. (sample_agent None, [])"
      and ans = "\<lambda>_. StartHookDone True None" and cfg = "sample_config None"])
  show "\<forall>i. (skip_start ^^ Suc i) OnStartHook
      = fst (tool_step 0 ''r'' 0 sample_call (StartHookDone True None) ((skip_start ^^ i) OnStartHook) (sample_agent None, []))"
    by (simp add: skip_start_def)
  show "\<forall>i::nat. ag_config (fst (sample_agent None, [] :: tool_report list)) = sample_config None" by (simp add: sample_defs)
  have 1: "\<exists>p. skip_start OnStartHook = Answered p"
    by (simp add: skip_start_def tool_step_def buildSkippedResult_def finish_call_def Let_def)
  have 2: "skip_start (Answered p) = Answered p" for p by (simp add: skip_start_def tool_step_def)
  have "\<exists>p. (skip_start ^^ Suc i) OnStartHook = Answered p" for i using 1 2 by (induction i) auto
  then have "(\<exists>p. (skip_start ^^ i) OnStartHook = Answered p) \<or> i = 0" for i by (cases i) blast+
  then show "\<forall>i. \<not> settled ((skip_start ^^ i) OnStartHook) \<longrightarrow> waits_for ((skip_start ^^ i) OnStartHook) (StartHookDone True None)"
    by (metis (no_types, lifting) funpow_0 settled_answered waits_for_start)
qed

section \<open>What the checks do not cover\<close>

text \<open>A lazy tool is reached through \<open>call_tool\<close>: the name that policy and guardrails see is \<open>call_tool\<close>, so a rule
  that denies the tool by its own name does not apply to it.\<close>

lemma lazy_call_hides_inner_tool:
  assumes "ca_name tc = LAZY_CALL_TOOL" "map_of (ca_arguments tc) ''name'' = Some (JStr (nameOf t))" "t \<in> set lazyTools"
    "\<forall>u \<in> set lazyTools. nameOf u = nameOf t \<longrightarrow> u = t" "map_of (ca_arguments tc) ''input'' = Some (JObj args)"
  shows "call_execute lazyTools eager (ca_arguments tc) = RunTool t args
    \<and> map_of (pt_fields (permission_target tc)) ''toolName'' = Some (JStr LAZY_CALL_TOOL)"
proof -
  have "find (\<lambda>u. nameOf u = nameOf t) lazyTools = Some t"
    using assms(3,4) by (induction lazyTools) auto
  then show ?thesis using assms by (simp add: call_execute_def permission_target_def json_to_string_def)
qed

text \<open>A decision that does not fit the call fails it and leaves it among the pending ones.\<close>

lemma mismatch_stays_pending:
  assumes "map_of (ag_prefedApprovals (fst w)) (aq_callId req) = Some p" "pf_toolName p \<noteq> aq_toolName req"
  shows "\<exists>e. fst (resolveApproval req tool t0 w) = Rejected e
    \<and> ag_pendingToolCalls (fst (snd (resolveApproval req tool t0 w))) = ag_pendingToolCalls (fst w)"
  using assms by (simp add: resolveApproval_def prefed_decision_def Let_def)

end
