(* ===== verification/AgentRuns.thy ===== *)
theory AgentRuns
  imports AgentLoop ToolSafety
begin

text \<open>
  What holds of the runs of an agent, whatever the models, the tools, the hooks and the host do: every call of
  \<open>complete\<close> is settled once, the reports add up, a start that fails blocks the agent, and staged input comes last.
\<close>

section \<open>What the steps leave alone\<close>

definition is_request :: "agent_event \<Rightarrow> bool" where
  "is_request ev = (case ev of ModelRequested _ _ _ _ \<Rightarrow> True | _ \<Rightarrow> False)"

lemma is_request_simps [simp]:
  "is_request (ModelRequested c ms sys ts)" "\<not> is_request (AgentWarning x y)" "\<not> is_request (ToolExecuted k i args)"
  "\<not> is_request (ToolCallStarted k args i)" "\<not> is_request (ToolCallCompleted i k cont len)" "\<not> is_request (ToolCallFailed i msg)"
  "\<not> is_request (ApprovalRequested req)" "\<not> is_request (ApprovalResolved i d note)" "\<not> is_request (CheckpointWritten snap)"
  "\<not> is_request (RunStarted i ks len)" "\<not> is_request (StepStarted i len b len')" "\<not> is_request (StepCompleted i len b b')"
  "\<not> is_request (GuardrailTriggered i len k gk msg)" "\<not> is_request (RunErrorSeen i msg)" "\<not> is_request (RunCompleted rep)"
  by (simp_all add: is_request_def)

text \<open>The requests sent so far.\<close>

definition sent :: "agent \<Rightarrow> agent_event list" where
  "sent a = filter is_request (ag_log a)"

text \<open>The agent a tool call leaves behind differs only in its approvals and in events that are not requests.\<close>

definition loop_part ::
  "agent \<Rightarrow> agent_config \<times> history \<times> bool \<times> bool \<times> run_report list \<times> message list \<times> nat \<times> agent_event list" where
  "loop_part a = (ag_config a, ag_history a, ag_running a, ag_stopRequested a, ag_reports a, ag_pendingInput a,
     ag_consecutive a, sent a)"

lemma sent_emit [simp]: "sent (emit ev a) = sent a @ (if is_request ev then [ev] else [])"
  by (simp add: sent_def emit_def)

lemma sent_updates [simp]:
  "sent (a\<lparr>ag_running := b\<rparr>) = sent a" "sent (a\<lparr>ag_stopRequested := b\<rparr>) = sent a" "sent (a\<lparr>ag_reports := rs\<rparr>) = sent a"
  "sent (a\<lparr>ag_consecutive := k\<rparr>) = sent a" "sent (a\<lparr>ag_searches := k\<rparr>) = sent a" "sent (a\<lparr>ag_pendingInput := ms\<rparr>) = sent a"
  by (simp_all add: sent_def)

lemma emit_keeps [simp]:
  "ag_config (emit ev a) = ag_config a" "ag_history (emit ev a) = ag_history a" "ag_running (emit ev a) = ag_running a"
  "ag_stopRequested (emit ev a) = ag_stopRequested a" "ag_reports (emit ev a) = ag_reports a"
  "ag_pendingInput (emit ev a) = ag_pendingInput a" "ag_consecutive (emit ev a) = ag_consecutive a"
  by (simp_all add: emit_def)

lemma loop_part_emit [simp]: "\<not> is_request ev \<Longrightarrow> loop_part (emit ev a) = loop_part a"
  by (simp add: loop_part_def)

lemma loop_part_emit_in [simp]: "\<not> is_request ev \<Longrightarrow> loop_part (fst (emit_in ev w)) = loop_part (fst w)"
  by (simp add: emit_in_def)

lemma loop_part_finish [simp]: "loop_part (fst (snd (finish_call r part w))) = loop_part (fst w)"
  by (simp add: finish_call_def)

lemma loop_part_results [simp]:
  "loop_part (fst (snd (buildMalformedResult tc w))) = loop_part (fst w)"
  "loop_part (fst (snd (buildSkippedResult tc ov w))) = loop_part (fst w)"
  "loop_part (fst (snd (buildOverriddenResult tc r1 w))) = loop_part (fst w)"
  "loop_part (fst (snd (buildDeniedResult tc r1 w))) = loop_part (fst w)"
  "loop_part (fst (snd (success_result tc l c j w))) = loop_part (fst w)"
  "loop_part (fst (snd (error_handled tc l e con fb w))) = loop_part (fst w)"
  "loop_part (fst (snd (complete_call tc t0 l c j w))) = loop_part (fst w)"
  "loop_part (fst (snd (checkToolOutput tc tool t0 l c gs w))) = loop_part (fst w)"
  "loop_part (fst (snd (handleToolError now tc t0 e w))) = loop_part (fst w)"
  "loop_part (fst (snd (executeWithTimeout tc tool t0 w))) = loop_part (fst w)"
  by (simp_all add: buildMalformedResult_def buildSkippedResult_def buildOverriddenResult_def buildDeniedResult_def
      success_result_def error_handled_def complete_call_def checkToolOutput_def handleToolError_def executeWithTimeout_def Let_def)

lemma loop_part_gate [simp]:
  "loop_part (fst (snd (withhold tc t0 l g r1 msg w))) = loop_part (fst w)"
  "loop_part (fst (snd (tripped tc tool t0 l g r1 m w))) = loop_part (fst w)"
  "loop_part (fst (snd (runApprovalGate now rid n tc reason tool t0 w))) = loop_part (fst w)"
  "loop_part (fst (snd (resolveApproval req tool t0 w))) = loop_part (fst w)"
  "loop_part (fst (snd (decided tc tool t0 d w))) = loop_part (fst w)"
  "loop_part (fst (snd (apply_decision tc tool t0 d w))) = loop_part (fst w)"
  "loop_part (fst (snd (after_approval_hook now req tool t0 w))) = loop_part (fst w)"
  "loop_part (fst (snd (buildSuccessResult now tc tool t0 c w))) = loop_part (fst w)"
proof -
  show w: "loop_part (fst (snd (withhold tc t0 l g r1 msg w))) = loop_part (fst w)" for msg w
    by (simp add: withhold_def)
  show "loop_part (fst (snd (tripped tc tool t0 l g r1 m w))) = loop_part (fst w)"
    by (simp add: tripped_def w split: option.split blocked_message.split)
  show "loop_part (fst (snd (runApprovalGate now rid n tc reason tool t0 w))) = loop_part (fst w)"
    by (simp add: runApprovalGate_def Let_def) (simp add: loop_part_def sent_def)
  show r: "loop_part (fst (snd (resolveApproval req tool t0 w))) = loop_part (fst w)" for w
    by (auto simp: resolveApproval_def prefed_decision_def Let_def loop_part_def sent_def split: option.splits)
  show "loop_part (fst (snd (decided tc tool t0 d w))) = loop_part (fst w)"
    by (simp add: decided_def Let_def) (simp add: loop_part_def sent_def)
  show "loop_part (fst (snd (apply_decision tc tool t0 d w))) = loop_part (fst w)"
    by (simp add: apply_decision_def split: approval_verdict.split option.split)
  show "loop_part (fst (snd (after_approval_hook now req tool t0 w))) = loop_part (fst w)"
    by (simp add: after_approval_hook_def r)
  show "loop_part (fst (snd (buildSuccessResult now tc tool t0 c w))) = loop_part (fst w)"
    by (simp add: buildSuccessResult_def)
qed

lemma loop_part_checks [simp]:
  "loop_part (fst (snd (check_permission now rid n tc tool t0 w))) = loop_part (fst w)"
  "loop_part (fst (snd (check_arguments now rid n tc tool t0 w))) = loop_part (fst w)"
  "loop_part (fst (snd (input_guards now rid n tc tool t0 i w))) = loop_part (fst w)"
  "loop_part (fst (snd (lookupToolOrError now rid n tc w))) = loop_part (fst w)"
proof -
  show p: "loop_part (fst (snd (check_permission now rid n tc tool t0 w))) = loop_part (fst w)" for tool t0
    by (simp add: check_permission_def Let_def split: option.split)
  show a: "loop_part (fst (snd (check_arguments now rid n tc tool t0 w))) = loop_part (fst w)" for tool t0
    by (simp add: check_arguments_def Let_def p)
  show i: "loop_part (fst (snd (input_guards now rid n tc tool t0 i w))) = loop_part (fst w)" for tool t0 i
    by (simp add: input_guards_def a)
  show "loop_part (fst (snd (lookupToolOrError now rid n tc w))) = loop_part (fst w)"
    by (simp add: lookupToolOrError_def Let_def i split: option.split)
qed

lemma loop_part_tool_step [simp]: "loop_part (fst (snd (tool_step now rid n tc ans st w))) = loop_part (fst w)"
  by (cases st) (auto simp: tool_step_def split: tool_answer.split option.split)

lemma loop_part_start_call [simp]: "loop_part (fst (snd (start_call tc w))) = loop_part (fst w)"
  by (simp add: start_call_def)

lemma loop_part_start_calls [simp]: "loop_part (fst (snd (snd (start_calls tcs slots w)))) = loop_part (fst w)"
proof (induction tcs arbitrary: slots w)
  case (Cons tc tcs)
  obtain st w1 where c: "start_call tc w = (st, w1)" by (rule prod.exhaust)
  then have "loop_part (fst w1) = loop_part (fst w)" using loop_part_start_call[of tc w] by simp
  then show ?case using Cons c by simp
qed simp

lemma loop_part_start_every [simp]: "loop_part (fst (snd (start_every tcs slots w))) = loop_part (fst w)"
proof (induction tcs arbitrary: slots w)
  case (Cons tc tcs)
  obtain st w1 where c: "start_call tc w = (st, w1)" by (rule prod.exhaust)
  then have "loop_part (fst w1) = loop_part (fst w)" using loop_part_start_call[of tc w] by simp
  then show ?case using Cons c by simp
qed simp

section \<open>Every call is settled once\<close>

text \<open>The promises of \<open>complete\<close> that the loop still owes or has settled.\<close>

definition stage_calls :: "run_stage \<Rightarrow> nat multiset" where
  "stage_calls st = (case st of
      Idle \<Rightarrow> {#} | AwaitThunk c i op \<Rightarrow> {#c#} | AwaitRunStart r \<Rightarrow> {#rn_call r#} | AwaitStepStart r \<Rightarrow> {#rn_call r#}
    | AwaitInputGuard r sys gs \<Rightarrow> {#rn_call r#} | AwaitInputTrip r sys m \<Rightarrow> {#rn_call r#} | AwaitModel r rq k \<Rightarrow> {#rn_call r#}
    | AwaitRetryWarning r sv k \<Rightarrow> {#rn_call r#} | AwaitStepComplete r sv has \<Rightarrow> {#rn_call r#}
    | AwaitOutputGuard r sv has gs \<Rightarrow> {#rn_call r#} | AwaitOutputTrip r sv has m \<Rightarrow> {#rn_call r#}
    | AwaitTools r sv pool \<Rightarrow> {#rn_call r#} | AwaitRunError r e \<Rightarrow> {#rn_call r#})"

definition over :: "loop_state \<Rightarrow> nat multiset" where
  "over s = mset (map fst (lp_settled s)) + mset (map fst (lp_closing s))"

definition calls_of :: "loop_state \<Rightarrow> nat multiset" where
  "calls_of s = over s + stage_calls (lp_stage s)"

lemma stage_calls_simps [simp]:
  "stage_calls Idle = {#}" "stage_calls (AwaitThunk c i op) = {#c#}" "stage_calls (AwaitRunStart r) = {#rn_call r#}"
  "stage_calls (AwaitStepStart r) = {#rn_call r#}" "stage_calls (AwaitInputGuard r sys gs) = {#rn_call r#}"
  "stage_calls (AwaitInputTrip r sys m) = {#rn_call r#}" "stage_calls (AwaitModel r rq k) = {#rn_call r#}"
  "stage_calls (AwaitRetryWarning r sv k) = {#rn_call r#}" "stage_calls (AwaitStepComplete r sv has) = {#rn_call r#}"
  "stage_calls (AwaitOutputGuard r sv has gs) = {#rn_call r#}" "stage_calls (AwaitOutputTrip r sv has m) = {#rn_call r#}"
  "stage_calls (AwaitTools r sv pool) = {#rn_call r#}" "stage_calls (AwaitRunError r e) = {#rn_call r#}"
  by (simp_all add: stage_calls_def)

lemma over_simps [simp]:
  "over (s\<lparr>lp_agent := a\<rparr>) = over s" "over (s\<lparr>lp_stage := st\<rparr>) = over s" "over (s\<lparr>lp_background := b\<rparr>) = over s"
  "over (settle_call c res s) = add_mset c (over s)"
  by (simp_all add: over_def settle_call_def)

lemma calls_of_stage [simp]: "calls_of (s\<lparr>lp_stage := st\<rparr>) = over s + stage_calls st"
  "calls_of (go st a s) = over s + stage_calls st"
  by (simp_all add: calls_of_def go_def)

lemma calls_of_settled [simp]:
  "calls_of (settle_call c res s) = add_mset c (calls_of s)" "calls_of (s\<lparr>lp_agent := a\<rparr>) = calls_of s"
  "calls_of (s\<lparr>lp_agent := a, lp_background := b\<rparr>) = calls_of s"
  by (simp_all add: calls_of_def over_def) (simp add: settle_call_def)

lemma over_go [simp]: "over (go st a s) = over s"
  by (simp add: go_def)

text \<open>The functions that go on with a run owe its call.\<close>

lemma calls_of_finish_run [simp]: "calls_of (finish_run now reason trip err r s) = add_mset (rn_call r) (over s)"
  by (simp add: finish_run_def Let_def calls_of_def over_def)

lemma calls_of_recordRunError [simp]: "calls_of (recordRunError e r s) = add_mset (rn_call r) (over s)"
  by (simp add: recordRunError_def)

lemma calls_of_enter_step [simp]: "calls_of (enter_step now r s) = add_mset (rn_call r) (over s)"
  by (simp add: enter_step_def)

lemma calls_of_model [simp]:
  "calls_of (call_model r req i s) = add_mset (rn_call r) (over s)"
  "calls_of (request_model r sys s) = add_mset (rn_call r) (over s)"
  "calls_of (runInputGuardrails r sys gs s) = add_mset (rn_call r) (over s)"
  "calls_of (start_step now r s) = add_mset (rn_call r) (over s)"
  "calls_of (model_failed r req i e s) = add_mset (rn_call r) (over s)"
  by (simp_all add: call_model_def request_model_def runInputGuardrails_def start_step_def model_failed_def Let_def)

lemma calls_of_accept [simp]: "calls_of (accept_response now fresh r sv s) = add_mset (rn_call r) (over s)"
  by (simp add: accept_response_def Let_def)

lemma rn_call_count [simp]: "rn_call (count_response now x r) = rn_call r"
  by (simp add: count_response_def)

lemma calls_of_answered [simp]:
  "calls_of (model_answered now fresh r c x s) = add_mset (rn_call r) (over s)"
  "calls_of (after_retry_warning now fresh r sv attempt p s) = add_mset (rn_call r) (over s)"
  by (auto simp: model_answered_def after_retry_warning_def Let_def split: option.split)

lemma rn_call_write [simp]: "rn_call (write_step r sv has reports) = rn_call r"
  by (simp add: write_step_def Let_def)

lemma calls_of_close_step [simp]: "calls_of (close_step now r sv has reports results s) = add_mset (rn_call r) (over s)"
  by (simp add: close_step_def Let_def)

lemma calls_of_tools [simp]:
  "calls_of (advance_pool now r sv pool s) = add_mset (rn_call r) (over s)"
  "calls_of (executeToolCalls now r sv s) = add_mset (rn_call r) (over s)"
  "calls_of (after_output_guards now r sv has s) = add_mset (rn_call r) (over s)"
  "calls_of (runOutputGuardrails now r sv has gs s) = add_mset (rn_call r) (over s)"
proof -
  show a: "calls_of (advance_pool now r sv pool s) = add_mset (rn_call r) (over s)" for pool s
    by (simp add: advance_pool_def split: prod.split)
  show e: "calls_of (executeToolCalls now r sv s) = add_mset (rn_call r) (over s)"
    by (simp add: executeToolCalls_def Let_def a split: prod.split)
  then show o: "calls_of (after_output_guards now r sv has s) = add_mset (rn_call r) (over s)"
    by (simp add: after_output_guards_def)
  then show "calls_of (runOutputGuardrails now r sv has gs s) = add_mset (rn_call r) (over s)"
    by (simp add: runOutputGuardrails_def)
qed

lemma calls_of_tool_answered:
  "lp_stage s = AwaitTools r sv pool \<Longrightarrow> calls_of (tool_answered now r sv pool k ans s) = calls_of s"
  by (simp add: tool_answered_def Let_def calls_of_def[of s] split: prod.split tool_stage.split)

lemma calls_of_run_reply: "calls_of (run_reply now fresh ans s) = calls_of s"
  by (cases "lp_stage s") (auto simp: run_reply_def begin_run_def new_run_def fail_start_def calls_of_def[of s]
      split: run_answer.split option.split)

lemma calls_of_closing_step: "calls_of (closing_step k err s) = calls_of s"
proof (cases "k < length (lp_closing s)")
  case True
  obtain c res where c: "lp_closing s ! k = (c, res)" by force
  have "mset (map fst (lp_closing s)) = add_mset c (mset (map fst (take k (lp_closing s) @ drop (Suc k) (lp_closing s))))"
    using arg_cong[OF id_take_nth_drop[OF True], of "\<lambda>l. mset (map fst l)"] c by simp
  then show ?thesis using True c by (simp add: closing_step_def calls_of_def over_def settle_call_def)
qed (simp add: closing_step_def)

definition issued :: "(ms \<times> string \<times> loop_event) list \<Rightarrow> nat list" where
  "issued evs = List.map_filter (\<lambda>(_, _, ev). case ev of Complete c _ _ \<Rightarrow> Some c | _ \<Rightarrow> None) evs"

lemma issued_simps [simp]:
  "issued [] = []" "issued ((now, fresh, Complete c i op) # evs) = c # issued evs"
  "(\<And>c i op. ev \<noteq> Complete c i op) \<Longrightarrow> issued ((now, fresh, ev) # evs) = issued evs"
  by (auto simp: issued_def List.map_filter_def split: loop_event.splits)

section \<open>What the host and the history operations change\<close>

lemma messages_append [simp]: "messages (snd (append_entry now m meta h)) = messages h @ [m]"
  by (simp add: messages_def append_entry_def Let_def split: option.split)

lemma append_message_keeps [simp]:
  "ag_config (append_message now m meta a) = ag_config a" "ag_running (append_message now m meta a) = ag_running a"
  "ag_stopRequested (append_message now m meta a) = ag_stopRequested a" "ag_reports (append_message now m meta a) = ag_reports a"
  "ag_pendingInput (append_message now m meta a) = ag_pendingInput a" "ag_consecutive (append_message now m meta a) = ag_consecutive a"
  "sent (append_message now m meta a) = sent a"
  "messages (ag_history (append_message now m meta a)) = messages (ag_history a) @ [m]"
  by (simp_all add: append_message_def sent_def)

lemma append_all_keeps [simp]:
  "ag_config (append_all now ms a) = ag_config a" "ag_running (append_all now ms a) = ag_running a"
  "ag_stopRequested (append_all now ms a) = ag_stopRequested a" "ag_reports (append_all now ms a) = ag_reports a"
  "ag_pendingInput (append_all now ms a) = ag_pendingInput a" "ag_consecutive (append_all now ms a) = ag_consecutive a"
  "sent (append_all now ms a) = sent a" "messages (ag_history (append_all now ms a)) = messages (ag_history a) @ ms"
  by (induction ms arbitrary: a) (simp_all add: append_all_def)

text \<open>What the host cannot change behind the back of a run.\<close>

definition core :: "agent \<Rightarrow> agent_config \<times> message list \<times> bool \<times> run_report list \<times> nat \<times> agent_event list" where
  "core a = (ag_config a, messages (ag_history a), ag_running a, ag_reports a, ag_consecutive a, sent a)"

lemma core_loop_part: "loop_part a = loop_part b \<Longrightarrow> core a = core b"
  by (simp add: core_def loop_part_def)

lemma core_emit [simp]: "\<not> is_request ev \<Longrightarrow> core (emit ev a) = core a"
  by (rule core_loop_part) simp

lemma core_registry [simp]:
  "core (a\<lparr>ag_history := (ag_history a)\<lparr>hi_registry := x\<rparr>\<rparr>) = core a" "core (a\<lparr>ag_tools := ts\<rparr>) = core a"
  "core (a\<lparr>ag_lazyInstalled := b\<rparr>) = core a"
  "core (a\<lparr>ag_system := v, ag_history := (ag_history a)\<lparr>hi_registry := x\<rparr>\<rparr>) = core a"
  "core (a\<lparr>ag_context := v, ag_history := (ag_history a)\<lparr>hi_registry := x\<rparr>\<rparr>) = core a"
  by (simp_all add: core_def messages_def sent_def)

lemma core_tools [simp]:
  "core (fst (put_tool t a)) = core a" "core (fst (put_tools ts a)) = core a" "core (syncLazyProtocol now a) = core a"
proof -
  show t: "core (fst (put_tool t a)) = core a" for t a by (simp add: put_tool_def Let_def)
  show "core (fst (put_tools ts a)) = core a"
  proof (induction ts arbitrary: a)
    case (Cons t ts)
    then show ?case using t[of t a] by (cases "put_tool t a") (simp split: option.split)
  qed simp
  show "core (syncLazyProtocol now a) = core a" by (simp add: syncLazyProtocol_def)
qed

lemma core_install [simp]: "core (fst (installLazyTools now a)) = core a"
proof (cases "put_tools lazy_tools (a\<lparr>ag_lazyInstalled := True\<rparr>)")
  case (Pair a1 e)
  then have "core a1 = core a" using core_tools(2)[of lazy_tools "a\<lparr>ag_lazyInstalled := True\<rparr>"] by simp
  then show ?thesis using Pair by (simp add: installLazyTools_def split: option.split)
qed

lemma core_register [simp]: "core (fst (registerTool now t a)) = core a"
proof (cases "put_tool t a")
  case (Pair a1 e)
  then have "core a1 = core a" using core_tools(1)[of t a] by simp
  then show ?thesis using Pair by (simp add: registerTool_def split: option.split)
qed

lemma core_host [simp]: "core (host_step now h a) = core a"
proof (cases h)
  case (HAddInput i)
  then show ?thesis by (simp add: host_step_def addInput_def) (simp add: core_def sent_def)
next
  case (HResume i d)
  then show ?thesis
    by (simp add: host_step_def resumeWithApproval_def split: option.split) (simp add: core_def sent_def)
qed (simp_all add: host_step_def addTool_def set_agent_system_def set_agent_context_def removeTool_def,
     simp_all add: stop_def clearPendingInput_def core_def sent_def)

lemma core_thunk [simp]: "core (apply_thunk now v a) = core a"
  by (simp add: apply_thunk_def set_agent_system_def)

lemma core_facts:
  assumes "core a = core b"
  shows "ag_config a = ag_config b" "messages (ag_history a) = messages (ag_history b)" "ag_running a = ag_running b"
    "ag_reports a = ag_reports b" "ag_consecutive a = ag_consecutive b" "sent a = sent b"
  using assms by (simp_all add: core_def)

lemmas host_facts [simp] = core_facts[OF core_host]
lemmas thunk_facts [simp] = core_facts[OF core_thunk]
lemmas tool_step_facts [simp] = core_facts[OF core_loop_part[OF loop_part_tool_step]]
lemmas start_calls_facts [simp] = core_facts[OF core_loop_part[OF loop_part_start_calls]]
lemmas start_every_facts [simp] = core_facts[OF core_loop_part[OF loop_part_start_every]]

lemma repair_keeps [simp]:
  "ag_config (repairUnansweredToolCalls now a) = ag_config a" "ag_running (repairUnansweredToolCalls now a) = ag_running a"
  "ag_reports (repairUnansweredToolCalls now a) = ag_reports a" "ag_consecutive (repairUnansweredToolCalls now a) = ag_consecutive a"
  "ag_pendingInput (repairUnansweredToolCalls now a) = ag_pendingInput a" "sent (repairUnansweredToolCalls now a) = sent a"
  by (simp_all add: repairUnansweredToolCalls_def Let_def)

lemma admit_keeps [simp]:
  "ag_config (admit_input now i a) = ag_config a" "ag_running (admit_input now i a) = ag_running a"
  "ag_reports (admit_input now i a) = ag_reports a" "ag_consecutive (admit_input now i a) = ag_consecutive a"
  "sent (admit_input now i a) = sent a" "ag_pendingInput (admit_input now i a) = []"
  by (simp_all add: admit_input_def Let_def)

section \<open>A run is going on while the stage is not idle\<close>

text \<open>The stage is idle whenever no run is going on, so a new call never replaces a run.\<close>

definition stage_running :: "loop_state \<Rightarrow> bool" where
  "stage_running s \<longleftrightarrow> (lp_stage s \<noteq> Idle \<longrightarrow> ag_running (lp_agent s))"

lemma stage_running_go [simp]: "ag_running a \<Longrightarrow> stage_running (go st a s)"
  by (simp add: stage_running_def go_def)

lemma stage_running_stage [simp]: "ag_running (lp_agent s) \<Longrightarrow> stage_running (s\<lparr>lp_stage := st\<rparr>)"
  by (simp add: stage_running_def)

lemma stage_running_finish [simp]: "stage_running (finish_run now reason trip err r s)"
  by (simp add: stage_running_def finish_run_def Let_def)

lemma stage_running_error [simp]: "ag_running (lp_agent s) \<Longrightarrow> stage_running (recordRunError e r s)"
  by (simp add: recordRunError_def)

lemma stage_running_enter [simp]: "ag_running (lp_agent s) \<Longrightarrow> stage_running (enter_step now r s)"
  by (simp add: enter_step_def)

lemma stage_running_call [simp]: "ag_running (lp_agent s) \<Longrightarrow> stage_running (call_model r req i s)"
  by (simp add: call_model_def)

lemma stage_running_request [simp]: "ag_running (lp_agent s) \<Longrightarrow> stage_running (request_model r sys s)"
  by (simp add: request_model_def Let_def)

lemma stage_running_guards [simp]: "ag_running (lp_agent s) \<Longrightarrow> stage_running (runInputGuardrails r sys gs s)"
  by (simp add: runInputGuardrails_def)

lemma stage_running_start [simp]: "ag_running (lp_agent s) \<Longrightarrow> stage_running (start_step now r s)"
  by (simp add: start_step_def)

lemma stage_running_failed [simp]: "ag_running (lp_agent s) \<Longrightarrow> stage_running (model_failed r req i e s)"
  by (simp add: model_failed_def Let_def)

lemma stage_running_accept [simp]: "ag_running (lp_agent s) \<Longrightarrow> stage_running (accept_response now fresh r sv s)"
  by (simp add: accept_response_def Let_def)

lemma stage_running_answered [simp]: "ag_running (lp_agent s) \<Longrightarrow> stage_running (model_answered now fresh r c x s)"
  by (simp add: model_answered_def Let_def split: option.split)

lemma stage_running_retry [simp]: "ag_running (lp_agent s) \<Longrightarrow> stage_running (after_retry_warning now fresh r sv attempt p s)"
  by (simp add: after_retry_warning_def Let_def)

lemma stage_running_close [simp]: "ag_running (lp_agent s) \<Longrightarrow> stage_running (close_step now r sv has reports results s)"
  by (simp add: close_step_def Let_def)

lemma stage_running_pool [simp]:
  assumes "ag_running (lp_agent s)"
  shows "stage_running (advance_pool now r sv pool s)"
proof -
  obtain slots waiting a reports
    where p: "start_calls (tp_waiting pool) (tp_slots pool) (lp_agent s, tp_reports pool) = (slots, waiting, a, reports)"
    by (metis surj_pair)
  then have "ag_running a" using assms start_calls_facts(3)[of "tp_waiting pool" "tp_slots pool" "(lp_agent s, tp_reports pool)"]
    by simp
  then show ?thesis using p assms by (simp add: advance_pool_def)
qed

lemma stage_running_tools [simp]:
  assumes "ag_running (lp_agent s)"
  shows "stage_running (executeToolCalls now r sv s)"
proof -
  obtain slots a reports where p: "start_every (re_toolCalls (sv_response sv)) [] (lp_agent s, []) = (slots, a, reports)"
    by (metis surj_pair)
  then have "ag_running a" using assms start_every_facts(3)[of "re_toolCalls (sv_response sv)" "[]" "(lp_agent s, [])"] by simp
  then show ?thesis using p assms by (simp add: executeToolCalls_def Let_def)
qed

lemma stage_running_outputs [simp]:
  "ag_running (lp_agent s) \<Longrightarrow> stage_running (after_output_guards now r sv has s)"
  "ag_running (lp_agent s) \<Longrightarrow> stage_running (runOutputGuardrails now r sv has gs s)"
  by (simp_all add: after_output_guards_def runOutputGuardrails_def)

lemma stage_running_tool_answered:
  assumes "ag_running (lp_agent s)"
  shows "stage_running (tool_answered now r sv pool k ans s)"
proof (cases "k < length (tp_slots pool)")
  case True
  obtain tc st where t: "tp_slots pool ! k = (tc, st)" by force
  obtain st1 a reports
    where p: "tool_step now (rn_id r) (rn_stepCount r) tc ans st (lp_agent s, tp_reports pool) = (st1, a, reports)"
    by (metis surj_pair)
  then have "ag_running a"
    using assms tool_step_facts(3)[of now "rn_id r" "rn_stepCount r" tc ans st "(lp_agent s, tp_reports pool)"] by simp
  then show ?thesis using True t p by (simp add: tool_answered_def Let_def split: tool_stage.split)
qed (simp add: tool_answered_def stage_running_def assms)

lemma stage_running_reply:
  assumes "stage_running s"
  shows "stage_running (run_reply now fresh ans s)"
proof (cases "lp_stage s = Idle")
  case False
  then have "ag_running (lp_agent s)" using assms by (simp add: stage_running_def)
  then show ?thesis using assms
    by (cases "lp_stage s") (simp_all add: run_reply_def begin_run_def fail_start_def settle_call_def
        guardrail_tripped_def stage_running_def[of "lp_settled_update _ _"] split: run_answer.split option.split)
qed (simp add: run_reply_def assms)

lemma stage_running_step: "stage_running s \<Longrightarrow> stage_running (loop_step now fresh ev s)"
proof (cases ev)
  case (Complete c i op)
  then show "stage_running s \<Longrightarrow> ?thesis"
    by (auto simp: loop_step_def beginRun_def begin_run_def Let_def) (simp add: stage_running_def settle_call_def)
next
  case (Reply ans)
  then show "stage_running s \<Longrightarrow> ?thesis" by (simp add: loop_step_def stage_running_reply)
next
  case (ToolReply k ans)
  then show "stage_running s \<Longrightarrow> ?thesis"
    by (auto simp: loop_step_def stage_running_def[of s] intro: stage_running_tool_answered split: run_stage.split)
next
  case (BackgroundReply k ans)
  show "stage_running s \<Longrightarrow> ?thesis"
  proof -
    assume "stage_running s"
    obtain rid n tc st where b: "lp_background s ! k = (rid, n, tc, st)" by (metis surj_pair)
    obtain st1 a reports where p: "tool_step now rid n tc ans st (lp_agent s, []) = (st1, a, reports)" by (metis surj_pair)
    then have "ag_running a = ag_running (lp_agent s)"
      using tool_step_facts(3)[of now rid n tc ans st "(lp_agent s, [])"] by simp
    then show ?thesis using \<open>stage_running s\<close> BackgroundReply b p
      by (simp add: loop_step_def background_step_def stage_running_def)
  qed
next
  case (ClosingReply k err)
  then show "stage_running s \<Longrightarrow> ?thesis"
    by (simp add: loop_step_def closing_step_def stage_running_def settle_call_def split: prod.split)
next
  case (Host h)
  then show "stage_running s \<Longrightarrow> ?thesis" by (simp add: loop_step_def stage_running_def)
qed

lemma calls_of_step:
  assumes "stage_running s"
  shows "calls_of (loop_step now fresh ev s) = mset (issued [(now, fresh, ev)]) + calls_of s"
proof (cases ev)
  case (Complete c i op)
  show ?thesis
  proof (cases "ag_running (lp_agent s)")
    case False
    then have "lp_stage s = Idle" using assms by (auto simp: stage_running_def)
    then show ?thesis using Complete False
      by (simp add: loop_step_def beginRun_def begin_run_def new_run_def Let_def calls_of_def[of s])
  qed (simp add: Complete loop_step_def beginRun_def)
qed (simp_all add: loop_step_def calls_of_run_reply calls_of_closing_step calls_of_tool_answered background_step_def
       split: run_stage.split prod.split)

text \<open>C7: Every call of \<open>complete\<close> is settled exactly once: after any events (answers of models, tools, hooks and guardrails
  in any order, host operations between them, calls made while a run is going on) the promises that were settled, those
  of runs waiting for their last hook and the one of the current run are together exactly the calls that were made.\<close>
theorem calls_settle_once:
  "mset (issued evs) = mset (map fst (lp_settled (loop_run evs (loop_start a))))
     + mset (map fst (lp_closing (loop_run evs (loop_start a)))) + stage_calls (lp_stage (loop_run evs (loop_start a)))"
proof -
  have "stage_running s \<Longrightarrow> calls_of (loop_run evs s) = mset (issued evs) + calls_of s" for s
  proof (induction evs arbitrary: s)
    case (Cons e evs)
    obtain now fresh ev where e: "e = (now, fresh, ev)" by (cases e)
    have "issued (e # evs) = issued [e] @ issued evs" by (simp add: issued_def List.map_filter_def)
    then show ?case using Cons.IH[OF stage_running_step[OF Cons.prems]] calls_of_step[OF Cons.prems] e by simp
  qed simp
  from this[of "loop_start a"] show ?thesis
    by (simp add: calls_of_def over_def stage_running_def loop_start_def)
qed

end
