(* ===== verification/AgentReports.thy ===== *)
theory AgentReports
  imports AgentRuns
begin

text \<open>
  The reports of an agent's runs, the start that fails, and the order in which input is admitted.
\<close>

section \<open>The books of a run\<close>

definition counters :: "(usage \<Rightarrow> nat) set" where
  "counters = {us_inputTokens, us_outputTokens, us_totalTokens, us_cachedTokens, us_cacheWriteTokens, us_reasoningTokens}"

text \<open>\<open>extra\<close> is the usage of a response whose step is not written down yet.\<close>

definition run_ok :: "usage \<Rightarrow> run \<Rightarrow> bool" where
  "run_ok extra r \<longleftrightarrow>
     map sp_index (rn_steps r) = [0..<rn_stepCount r]
     \<and> rn_toolMs r = sum_list (map sp_toolTotalMs (rn_steps r))
     \<and> (\<forall>f\<in>counters. sum_list (map (f \<circ> sp_usage) (rn_steps r)) + f extra \<le> f (rn_usage r))"

definition report_ok :: "nat \<Rightarrow> run_report \<Rightarrow> bool" where
  "report_ok M rep \<longleftrightarrow>
     map sp_index (ru_steps rep) = [0..<ru_stepCount rep] \<and> ru_stepCount rep \<le> M
     \<and> ru_totalToolTimeMs rep = sum_list (map sp_toolTotalMs (ru_steps rep))
     \<and> (\<forall>f\<in>counters. sum_list (map (f \<circ> sp_usage) (ru_steps rep)) \<le> f (ru_totalUsage rep))
     \<and> (ru_end rep = RunMaxSteps \<longrightarrow> ru_stepCount rep = M) \<and> (ru_error rep \<noteq> None \<longleftrightarrow> ru_end rep = RunFailed)"

text \<open>\<open>old\<close> are the reports of runs before the history that is looked at.\<close>

definition books :: "run_report set \<Rightarrow> nat \<Rightarrow> loop_state \<Rightarrow> bool" where
  "books old M s \<longleftrightarrow> gc_maxSteps (ag_config (lp_agent s)) = M \<and> (\<forall>rep\<in>set (ag_reports (lp_agent s)). rep \<in> old \<or> report_ok M rep)"

definition stage_books :: "nat \<Rightarrow> run_stage \<Rightarrow> bool" where
  "stage_books M st \<longleftrightarrow> (case st of
      Idle \<Rightarrow> True | AwaitThunk c i op \<Rightarrow> True
    | AwaitRunStart r \<Rightarrow> run_ok emptyUsage r \<and> rn_stepCount r < M
    | AwaitStepStart r \<Rightarrow> run_ok emptyUsage r \<and> rn_stepCount r < M
    | AwaitInputGuard r sys gs \<Rightarrow> run_ok emptyUsage r \<and> rn_stepCount r < M
    | AwaitInputTrip r sys m \<Rightarrow> run_ok emptyUsage r \<and> rn_stepCount r < M
    | AwaitModel r rq k \<Rightarrow> run_ok emptyUsage r \<and> rn_stepCount r < M
    | AwaitRetryWarning r sv k \<Rightarrow> run_ok (re_usage (sv_response sv)) r \<and> rn_stepCount r < M
    | AwaitStepComplete r sv has \<Rightarrow> run_ok (re_usage (sv_response sv)) r \<and> rn_stepCount r < M
    | AwaitOutputGuard r sv has gs \<Rightarrow> run_ok (re_usage (sv_response sv)) r \<and> rn_stepCount r < M
    | AwaitOutputTrip r sv has m \<Rightarrow> run_ok (re_usage (sv_response sv)) r \<and> rn_stepCount r < M
    | AwaitTools r sv pool \<Rightarrow> run_ok (re_usage (sv_response sv)) r \<and> rn_stepCount r < M
    | AwaitRunError r e \<Rightarrow> run_ok emptyUsage r \<and> rn_stepCount r < M)"

lemma stage_books_simps [simp]:
  "stage_books M Idle" "stage_books M (AwaitThunk c i op)"
  "stage_books M (AwaitRunStart r) \<longleftrightarrow> run_ok emptyUsage r \<and> rn_stepCount r < M"
  "stage_books M (AwaitStepStart r) \<longleftrightarrow> run_ok emptyUsage r \<and> rn_stepCount r < M"
  "stage_books M (AwaitInputGuard r sys gs) \<longleftrightarrow> run_ok emptyUsage r \<and> rn_stepCount r < M"
  "stage_books M (AwaitInputTrip r sys m) \<longleftrightarrow> run_ok emptyUsage r \<and> rn_stepCount r < M"
  "stage_books M (AwaitModel r rq k) \<longleftrightarrow> run_ok emptyUsage r \<and> rn_stepCount r < M"
  "stage_books M (AwaitRetryWarning r sv k) \<longleftrightarrow> run_ok (re_usage (sv_response sv)) r \<and> rn_stepCount r < M"
  "stage_books M (AwaitStepComplete r sv has) \<longleftrightarrow> run_ok (re_usage (sv_response sv)) r \<and> rn_stepCount r < M"
  "stage_books M (AwaitOutputGuard r sv has gs) \<longleftrightarrow> run_ok (re_usage (sv_response sv)) r \<and> rn_stepCount r < M"
  "stage_books M (AwaitOutputTrip r sv has m) \<longleftrightarrow> run_ok (re_usage (sv_response sv)) r \<and> rn_stepCount r < M"
  "stage_books M (AwaitTools r sv pool) \<longleftrightarrow> run_ok (re_usage (sv_response sv)) r \<and> rn_stepCount r < M"
  "stage_books M (AwaitRunError r e) \<longleftrightarrow> run_ok emptyUsage r \<and> rn_stepCount r < M"
  by (simp_all add: stage_books_def)

definition all_books :: "run_report set \<Rightarrow> nat \<Rightarrow> loop_state \<Rightarrow> bool" where
  "all_books old M s \<longleftrightarrow> books old M s \<and> stage_books M (lp_stage s)"

lemma counter_cases: "f \<in> counters \<Longrightarrow> f emptyUsage = 0" "f \<in> counters \<Longrightarrow> f (addUsage a b) = f a + f b"
  by (auto simp: counters_def emptyUsage_def addUsage_def)

lemma run_ok_forget: "run_ok u r \<Longrightarrow> run_ok emptyUsage r"
  unfolding run_ok_def using counter_cases add_leD1 by fastforce

lemma run_ok_count [simp]:
  "run_ok emptyUsage r \<Longrightarrow> run_ok (re_usage x) (count_response now x r)" "rn_stepCount (count_response now x r) = rn_stepCount r"
  unfolding run_ok_def count_response_def using counter_cases by fastforce+

lemma run_ok_start [simp]: "run_ok u (r\<lparr>rn_stepStart := now\<rparr>) = run_ok u r"
  by (simp add: run_ok_def)

lemma books_go [simp]: "ag_config a = ag_config (lp_agent s) \<Longrightarrow> ag_reports a = ag_reports (lp_agent s)
    \<Longrightarrow> all_books old M (go st a s) \<longleftrightarrow> books old M s \<and> stage_books M st"
  by (simp add: all_books_def books_def go_def)

lemma books_agent [simp]: "ag_config a = ag_config (lp_agent s) \<Longrightarrow> ag_reports a = ag_reports (lp_agent s)
    \<Longrightarrow> books old M (s\<lparr>lp_agent := a\<rparr>) = books old M s"
  by (simp add: books_def)

lemma books_other [simp]: "books old M (s\<lparr>lp_stage := st\<rparr>) = books old M s" "books old M (s\<lparr>lp_background := b\<rparr>) = books old M s"
  "books old M (settle_call c res s) = books old M s" "books old M (s\<lparr>lp_closing := cl\<rparr>) = books old M s"
  by (simp_all add: books_def settle_call_def)

lemma all_books_other [simp]:
  "all_books old M (settle_call c res s) = all_books old M s" "all_books old M (s\<lparr>lp_stage := st\<rparr>) \<longleftrightarrow> books old M s \<and> stage_books M st"
  "ag_config a = ag_config (lp_agent s) \<Longrightarrow> ag_reports a = ag_reports (lp_agent s)
    \<Longrightarrow> all_books old M (s\<lparr>lp_stage := st, lp_agent := a\<rparr>) \<longleftrightarrow> books old M s \<and> stage_books M st"
  by (simp_all add: all_books_def books_def settle_call_def)

lemma books_finish_run [simp]:
  assumes "books old M s" "run_ok u r" "rn_stepCount r \<le> M" "reason = RunMaxSteps \<longrightarrow> rn_stepCount r = M" "err \<noteq> None \<longleftrightarrow> reason = RunFailed"
  shows "all_books old M (finish_run now reason trip err r s)"
  using assms run_ok_forget[OF assms(2)]
  by (auto simp: finish_run_def all_books_def books_def report_ok_def run_report_of_def run_ok_def Let_def)

lemma books_error [simp]:
  "books old M s \<Longrightarrow> run_ok u r \<Longrightarrow> rn_stepCount r < M \<Longrightarrow> all_books old M (recordRunError e r s)"
  by (simp add: recordRunError_def run_ok_forget)

lemma books_enter [simp]:
  "books old M s \<Longrightarrow> run_ok u r \<Longrightarrow> rn_stepCount r < M \<Longrightarrow> all_books old M (enter_step now r s)"
  by (simp add: enter_step_def run_ok_forget)

lemma books_call [simp]:
  "books old M s \<Longrightarrow> run_ok emptyUsage r \<Longrightarrow> rn_stepCount r < M \<Longrightarrow> all_books old M (call_model r req i s)"
  by (simp add: call_model_def)

lemma books_request [simp]:
  "books old M s \<Longrightarrow> run_ok emptyUsage r \<Longrightarrow> rn_stepCount r < M \<Longrightarrow> all_books old M (request_model r sys s)"
  by (simp add: request_model_def Let_def)

lemma books_guards [simp]:
  "books old M s \<Longrightarrow> run_ok emptyUsage r \<Longrightarrow> rn_stepCount r < M \<Longrightarrow> all_books old M (runInputGuardrails r sys gs s)"
  by (simp add: runInputGuardrails_def)

lemma books_start [simp]:
  "books old M s \<Longrightarrow> run_ok emptyUsage r \<Longrightarrow> rn_stepCount r < M \<Longrightarrow> all_books old M (start_step now r s)"
  by (simp add: start_step_def)

lemma books_failed [simp]:
  "books old M s \<Longrightarrow> run_ok emptyUsage r \<Longrightarrow> rn_stepCount r < M \<Longrightarrow> all_books old M (model_failed r req i e s)"
  by (simp add: model_failed_def Let_def)

lemma books_accept [simp]:
  "books old M s \<Longrightarrow> run_ok (re_usage (sv_response sv)) r \<Longrightarrow> rn_stepCount r < M \<Longrightarrow> all_books old M (accept_response now fresh r sv s)"
  by (simp add: accept_response_def Let_def)

lemma books_answered [simp]:
  "books old M s \<Longrightarrow> run_ok emptyUsage r \<Longrightarrow> rn_stepCount r < M \<Longrightarrow> all_books old M (model_answered now fresh r c x s)"
  by (simp add: model_answered_def Let_def split: option.split)

lemma books_retry [simp]:
  "books old M s \<Longrightarrow> run_ok (re_usage (sv_response sv)) r \<Longrightarrow> rn_stepCount r < M
   \<Longrightarrow> all_books old M (after_retry_warning now fresh r sv attempt p s)"
  by (simp add: after_retry_warning_def Let_def)

lemma run_ok_write [simp]:
  "run_ok (re_usage (sv_response sv)) r \<Longrightarrow> run_ok emptyUsage (write_step r sv has reports)"
  "rn_stepCount (write_step r sv has reports) = Suc (rn_stepCount r)"
  unfolding run_ok_def write_step_def by (auto simp: counter_cases Let_def)

lemma books_close [simp]:
  assumes "books old M s" "run_ok (re_usage (sv_response sv)) r" "rn_stepCount r < M"
  shows "all_books old M (close_step now r sv has reports results s)"
proof -
  have c: "gc_maxSteps (ag_config (lp_agent s)) = M" using assms by (simp add: books_def)
  show ?thesis using assms c
    by (auto simp: close_step_def Let_def intro!: books_finish_run[where u = emptyUsage] books_enter[where u = emptyUsage])
qed

lemma books_pool [simp]:
  assumes "books old M s" "run_ok (re_usage (sv_response sv)) r" "rn_stepCount r < M"
  shows "all_books old M (advance_pool now r sv pool s)"
proof -
  obtain slots waiting a reports
    where p: "start_calls (tp_waiting pool) (tp_slots pool) (lp_agent s, tp_reports pool) = (slots, waiting, a, reports)"
    by (metis surj_pair)
  then have "ag_config a = ag_config (lp_agent s)" "ag_reports a = ag_reports (lp_agent s)"
    using start_calls_facts(1,4)[of "tp_waiting pool" "tp_slots pool" "(lp_agent s, tp_reports pool)"] by simp_all
  then show ?thesis using p assms by (simp add: advance_pool_def)
qed

lemma books_tools [simp]:
  assumes "books old M s" "run_ok (re_usage (sv_response sv)) r" "rn_stepCount r < M"
  shows "all_books old M (executeToolCalls now r sv s)"
proof -
  obtain slots a reports where p: "start_every (re_toolCalls (sv_response sv)) [] (lp_agent s, []) = (slots, a, reports)"
    by (metis surj_pair)
  then have "ag_config a = ag_config (lp_agent s)" "ag_reports a = ag_reports (lp_agent s)"
    using start_every_facts(1,4)[of "re_toolCalls (sv_response sv)" "[]" "(lp_agent s, [])"] by simp_all
  then show ?thesis using p assms by (simp add: executeToolCalls_def Let_def)
qed

lemma books_outputs [simp]:
  assumes "books old M s" "run_ok (re_usage (sv_response sv)) r" "rn_stepCount r < M"
  shows "all_books old M (after_output_guards now r sv has s)" "all_books old M (runOutputGuardrails now r sv has gs s)"
proof -
  show o: "all_books old M (after_output_guards now r sv has s)" using assms by (simp add: after_output_guards_def)
  show "all_books old M (runOutputGuardrails now r sv has gs s)"
    using assms o by (simp add: runOutputGuardrails_def)
qed

lemma books_tool_answered:
  assumes "books old M s" "run_ok (re_usage (sv_response sv)) r" "rn_stepCount r < M" "all_books old M s"
  shows "all_books old M (tool_answered now r sv pool k ans s)"
proof (cases "k < length (tp_slots pool)")
  case True
  obtain tc st where t: "tp_slots pool ! k = (tc, st)" by force
  obtain st1 a reports
    where p: "tool_step now (rn_id r) (rn_stepCount r) tc ans st (lp_agent s, tp_reports pool) = (st1, a, reports)"
    by (metis surj_pair)
  then have a: "ag_config a = ag_config (lp_agent s)" "ag_reports a = ag_reports (lp_agent s)"
    using tool_step_facts(1,4)[of now "rn_id r" "rn_stepCount r" tc ans st "(lp_agent s, tp_reports pool)"] by simp_all
  have "all_books old M (recordRunError e r (s\<lparr>lp_agent := a, lp_background := b\<rparr>))" for e b
    by (rule books_error[where u = "re_usage (sv_response sv)"]) (use a assms in \<open>simp_all add: books_def\<close>)
  then show ?thesis using True t p a assms by (simp add: tool_answered_def Let_def split: tool_stage.split)
qed (simp add: tool_answered_def assms)

lemma run_ok_new [simp]: "run_ok emptyUsage (new_run now fresh c i op)" "rn_stepCount (new_run now fresh c i op) = 0"
  by (auto simp: run_ok_def new_run_def counters_def)

lemma books_reply:
  assumes "all_books old M s" "0 < M"
  shows "all_books old M (run_reply now fresh ans s)"
proof -
  have b: "books old M s" using assms by (simp add: all_books_def)
  have st: "stage_books M (lp_stage s)" using assms by (simp add: all_books_def)
  show ?thesis
    by (cases "lp_stage s") (use b st assms in \<open>auto simp: run_reply_def begin_run_def fail_start_def guardrail_tripped_def
       intro: books_error books_finish_run books_enter split: run_answer.split option.split\<close>)
qed

lemma run_books_step:
  assumes "all_books old M s" "0 < M"
  shows "all_books old M (loop_step now fresh ev s)"
proof -
  have b: "books old M s" "stage_books M (lp_stage s)" using assms by (simp_all add: all_books_def)
  show ?thesis
  proof (cases ev)
    case (Complete c i op)
    then show ?thesis using assms b by (simp add: loop_step_def beginRun_def begin_run_def Let_def)
  next
    case (Reply ans)
    then show ?thesis using books_reply[OF assms] by (simp add: loop_step_def)
  next
    case (ToolReply k ans)
    then show ?thesis using assms b by (auto simp: loop_step_def intro: books_tool_answered split: run_stage.split)
  next
    case (BackgroundReply k ans)
    obtain rid n tc st where g: "lp_background s ! k = (rid, n, tc, st)" by (metis surj_pair)
    obtain st1 a reports where p: "tool_step now rid n tc ans st (lp_agent s, []) = (st1, a, reports)" by (metis surj_pair)
    then have "ag_config a = ag_config (lp_agent s)" "ag_reports a = ag_reports (lp_agent s)"
      using tool_step_facts(1,4)[of now rid n tc ans st "(lp_agent s, [])"] by simp_all
    then show ?thesis using b BackgroundReply g p assms by (simp add: loop_step_def background_step_def all_books_def books_def)
  next
    case (ClosingReply k err)
    then show ?thesis using assms by (simp add: loop_step_def closing_step_def all_books_def settle_call_def books_def split: prod.split)
  next
    case (Host h)
    then show ?thesis using b by (simp add: loop_step_def all_books_def)
  qed
qed


section \<open>A start that fails\<close>

text \<open>No run is going on, but the agent believes one is.\<close>

definition stuck :: "loop_state \<Rightarrow> bool" where
  "stuck s \<longleftrightarrow> lp_stage s = Idle \<and> ag_running (lp_agent s)"

definition refused :: "run_result" where
  "refused = Inl (PlainError ''AgentLoop is already running'')"

lemma stuck_step:
  assumes "stuck s"
  shows "stuck (loop_step now fresh ev s) \<and> sent (lp_agent (loop_step now fresh ev s)) = sent (lp_agent s)
    \<and> (\<forall>c i op. ev = Complete c i op \<longrightarrow> (c, refused) \<in> set (lp_settled (loop_step now fresh ev s)))
    \<and> set (lp_settled s) \<subseteq> set (lp_settled (loop_step now fresh ev s))"
proof (cases ev)
  case (BackgroundReply k ans)
  obtain rid n tc st where g: "lp_background s ! k = (rid, n, tc, st)" by (metis surj_pair)
  obtain st1 a reports where p: "tool_step now rid n tc ans st (lp_agent s, []) = (st1, a, reports)" by (metis surj_pair)
  then have "ag_running a = ag_running (lp_agent s)" "sent a = sent (lp_agent s)"
    using tool_step_facts(3,6)[of now rid n tc ans st "(lp_agent s, [])"] by simp_all
  then show ?thesis using assms BackgroundReply g p by (simp add: loop_step_def background_step_def stuck_def)
qed (use assms in \<open>auto simp: stuck_def loop_step_def beginRun_def settle_call_def refused_def run_reply_def closing_step_def
       split: prod.split\<close>)

text \<open>C12: A start that fails blocks the agent for good: when the system thunk or a subscriber of \<open>onRunStart\<close> throws, the
  agent keeps believing that a run is going on, so whatever happens later (\<open>stop\<close> included) no model is ever asked
  again and every further call is refused.\<close>
theorem failed_start_blocks_agent:
  fixes s s1 :: loop_state and now :: ms and fresh :: string and e :: agent_error and evs :: "(ms \<times> string \<times> loop_event) list"
    and r :: run and c0 :: nat and i0 :: run_input and op0 :: run_options
  assumes "ag_running (lp_agent s)" "lp_stage s = AwaitRunStart r \<or> lp_stage s = AwaitThunk c0 i0 op0"
  defines "s1 \<equiv> loop_step now fresh (Reply (RunThrew e)) s"
  shows "ag_running (lp_agent (loop_run evs s1)) \<and> sent (lp_agent (loop_run evs s1)) = sent (lp_agent s)
    \<and> (\<forall>c \<in> set (issued evs). (c, Inl (PlainError ''AgentLoop is already running'')) \<in> set (lp_settled (loop_run evs s1)))"
proof -
  have go: "stuck t \<Longrightarrow> stuck (loop_run evs t) \<and> sent (lp_agent (loop_run evs t)) = sent (lp_agent t)
      \<and> set (lp_settled t) \<subseteq> set (lp_settled (loop_run evs t))
      \<and> (\<forall>c \<in> set (issued evs). (c, refused) \<in> set (lp_settled (loop_run evs t)))" for t
  proof (induction evs arbitrary: t)
    case (Cons e evs)
    obtain n f ev where e: "e = (n, f, ev)" by (cases e)
    have "issued (e # evs) = (case ev of Complete c i op \<Rightarrow> [c] | _ \<Rightarrow> []) @ issued evs"
      by (simp add: e issued_def List.map_filter_def split: loop_event.split)
    then show ?case using Cons.IH[of "loop_step n f ev t"] stuck_step[OF Cons.prems, of n f ev] e
      by (auto split: loop_event.splits)
  qed simp
  have "stuck s1" "sent (lp_agent s1) = sent (lp_agent s)"
    using assms(1,2) by (auto simp: s1_def loop_step_def run_reply_def fail_start_def stuck_def settle_call_def)
  then show ?thesis using go[of s1] by (simp add: stuck_def refused_def)
qed

definition no_options_given :: run_options where
  "no_options_given = \<lparr> op_system = None, op_tools = None \<rparr>"

definition sample_started :: loop_state where
  "sample_started = loop_step 0 ''r'' (Complete 7 (InputText ''hi'') no_options_given) (loop_start (sample_agent None))"

lemma sample_started_stage:
  "ag_running (lp_agent sample_started)"
  "lp_stage sample_started = AwaitRunStart (new_run 0 ''r'' 7 (InputText ''hi'') no_options_given)"
  by (simp_all add: sample_started_def loop_step_def beginRun_def begin_run_def loop_start_def sample_defs go_def Let_def)

lemma failed_start_blocks_agent_witness:
  "(8, Inl (PlainError ''AgentLoop is already running'')) \<in> set (lp_settled (loop_run
     [(1, ''r2'', Host HStop), (2, ''r3'', Complete 8 (InputText ''again'') no_options_given)]
     (loop_step 0 ''r1'' (Reply (RunThrew (PlainError ''down''))) sample_started)))"
proof -
  let ?evs = "[(1, ''r2'', Host HStop), (2, ''r3'', Complete 8 (InputText ''again'') no_options_given)]"
  have "8 \<in> set (issued ?evs)" by simp
  then show ?thesis
    using failed_start_blocks_agent[OF sample_started_stage(1), of "new_run 0 ''r'' 7 (InputText ''hi'') no_options_given"]
      sample_started_stage(2) by blast
qed

section \<open>The order of input\<close>

text \<open>What a run adds to the conversation before its first request: the answers to calls left open, then its own
  input, then what was staged with \<open>addInput\<close>, in the order it was staged; the staging is emptied, and nothing that was
  said before changes.\<close>
theorem staged_input_comes_last:
  "messages (ag_history (admit_input now i a)) =
     messages (ag_history a)
     @ (if orphans (messages (ag_history a)) = [] then []
        else [new_message Tool (ContentParts (orphans (messages (ag_history a))))])
     @ inputMessages i @ ag_pendingInput a
   \<and> ag_pendingInput (admit_input now i a) = []"
  by (simp add: admit_input_def repairUnansweredToolCalls_def Let_def)

lemma admit_keeps_stop [simp]: "ag_stopRequested (admit_input now i a) = ag_stopRequested a"
  by (simp add: admit_input_def repairUnansweredToolCalls_def Let_def)

definition stopped_events :: "(ms \<times> string \<times> loop_event) list" where
  "stopped_events = [(0, ''r'', Complete 7 (InputText ''hi'') no_options_given), (1, ''r2'', Host HStop), (2, ''r3'', Reply RunHookDone)]"


section \<open>Weak points\<close>

text \<open>A guardrail that trips without a reason does not stop the run.\<close>

lemma empty_reason_does_not_stop:
  "lp_stage s = AwaitInputTrip r sys [] \<Longrightarrow> loop_step now fresh (Reply RunHookDone) s = request_model r sys s"
  by (simp add: loop_step_def run_reply_def)

text \<open>A subscriber of \<open>onRunError\<close> that throws: the call is rejected and no report is written.\<close>

lemma throwing_error_hook_loses_report:
  "lp_stage s = AwaitRunError r e \<Longrightarrow>
     ag_reports (lp_agent (loop_step now fresh (Reply (RunThrew e1)) s)) = ag_reports (lp_agent s)
     \<and> lp_closing (loop_step now fresh (Reply (RunThrew e1)) s) = lp_closing s
     \<and> lp_settled (loop_step now fresh (Reply (RunThrew e1)) s) = lp_settled s @ [(rn_call r, Inl e1)]"
  by (simp add: loop_step_def run_reply_def settle_call_def)

text \<open>The count of failed turns is not taken back when a run starts.\<close>

lemma retry_budget_leaks:
  "ag_consecutive (lp_agent (beginRun now fresh c i op s)) = ag_consecutive (lp_agent s)
   \<and> ag_consecutive (admit_input now' i' a) = ag_consecutive a"
  by (simp add: beginRun_def begin_run_def settle_call_def go_def Let_def)

text \<open>A call that fails ends the step; the others stay behind and go on.\<close>

lemma failed_call_leaves_others_running:
  assumes "k < length (tp_slots pool)" "tp_slots pool ! k = (tc, st)"
    "tool_step now (rn_id r) (rn_stepCount r) tc ans st (lp_agent s, tp_reports pool) = (Rejected e, w)"
    "j < length (tp_slots pool)" "j \<noteq> k" "tp_slots pool ! j = (tc', st')" "\<not> settled st'"
  shows "lp_stage (tool_answered now r sv pool k ans s) = AwaitRunError r e
    \<and> (rn_id r, rn_stepCount r, tc', st') \<in> set (lp_background (tool_answered now r sv pool k ans s))"
proof -
  have "(tc', st') \<in> set ((tp_slots pool)[k := (tc, Rejected e)])"
    using assms(4,5,6) by (metis length_list_update nth_list_update_neq nth_mem)
  then show ?thesis using assms(1,2,3,7)
    by (cases w) (force simp: tool_answered_def recordRunError_def go_def Let_def)
qed

end
