(* ===== verification/AgentEnds.thy ===== *)
theory AgentEnds
  imports AgentReports
begin

text \<open>
  A run ends: as long as everything the loop waits for answers, the loop comes to the end of its run. The measure goes
  down with every answer: the steps that are left, the retries that are left, the place inside the step, and inside that
  the guardrails, the backup models or the tool calls that are left.
\<close>

section \<open>Multisets of tool calls\<close>

definition slot_ranks :: "agent_config \<Rightarrow> (tool_call \<times> tool_stage) list \<Rightarrow> (nat \<times> nat) multiset" where
  "slot_ranks cfg slots = mset (map (call_rank cfg \<circ> snd) slots)"

definition pool_rank :: "agent_config \<Rightarrow> (tool_call \<times> tool_stage) list \<Rightarrow> tool_call list \<Rightarrow> (nat \<times> nat) multiset" where
  "pool_rank cfg slots waiting = slot_ranks cfg slots + replicate_mset (length waiting) (15, 0)"

lemma trans_lower: "trans lower"
  by (simp add: lower_def trans_lex_prod)

lemma mult_replace: "(y, x) \<in> lower \<Longrightarrow> (add_mset y K, add_mset x K) \<in> mult lower"
  using one_step_implies_mult[of "{#x#}" "{#y#}" lower K] by simp

lemma slot_ranks_update:
  assumes "k < length slots" "slots ! k = (tc, st)" "(call_rank cfg st1, call_rank cfg st) \<in> lower"
  shows "(slot_ranks cfg (slots[k := (tc, st1)]), slot_ranks cfg slots) \<in> mult lower"
proof -
  let ?xs = "map (call_rank cfg \<circ> snd) slots"
  have "mset ?xs = add_mset (call_rank cfg st) (mset ?xs - {# call_rank cfg st #})"
    using assms(1,2) by (metis (no_types, lifting) comp_apply insert_DiffM length_map nth_map nth_mem_mset snd_conv)
  moreover have "mset (?xs[k := call_rank cfg st1]) = add_mset (call_rank cfg st1) (mset ?xs - {# call_rank cfg st #})"
    using assms(1,2) mset_update[of k ?xs "call_rank cfg st1"] by simp
  ultimately show ?thesis
    using mult_replace[OF assms(3)] unfolding slot_ranks_def map_update comp_apply snd_conv by metis
qed

lemma start_call_rank: "(call_rank cfg (fst (start_call tc w)), (15, 0)) \<in> lower"
  by (simp add: start_call_def buildMalformedResult_def finish_call_def call_rank_def Let_def)

lemma start_calls_rank:
  "start_calls tcs slots w = (slots1, waiting, w1)
   \<Longrightarrow> (pool_rank cfg slots1 waiting, pool_rank cfg slots tcs) \<in> (mult lower)\<^sup>="
proof (induction tcs arbitrary: slots w)
  case (Cons tc tcs)
  obtain st w2 where c: "start_call tc w = (st, w2)" by (rule prod.exhaust)
  have "(pool_rank cfg (slots @ [(tc, st)]) tcs, pool_rank cfg slots (tc # tcs)) \<in> mult lower"
    using mult_replace[of "call_rank cfg st" "(15, 0)" "slot_ranks cfg slots + replicate_mset (length tcs) (15, 0)"]
      start_call_rank[of cfg tc w] c by (simp add: pool_rank_def slot_ranks_def)
  then show ?case
    using Cons.IH[of "slots @ [(tc, st)]" w2] Cons.prems c transD[OF trans_mult[OF trans_lower]]
    by (auto split: if_splits)
qed simp

section \<open>The measure\<close>

type_synonym run_rank = "nat \<times> nat \<times> nat \<times> nat \<times> (nat \<times> nat) multiset"

definition falls :: "(run_rank \<times> run_rank) set" where
  "falls = less_than <*lex*> less_than <*lex*> less_than <*lex*> less_than <*lex*> mult lower"

lemma wf_falls: "wf falls"
  by (simp add: falls_def wf_lex_prod wf_mult wf_lower)

lemma falls_iff [simp]:
  "((a, b, c, d, e), (a', b', c', d', e')) \<in> falls \<longleftrightarrow>
     a < a' \<or> a = a' \<and> (b < b' \<or> b = b' \<and> (c < c' \<or> c = c' \<and> (d < d' \<or> d = d' \<and> (e, e') \<in> mult lower)))"
  by (auto simp: falls_def)

definition budget :: "reflect_policy option \<Rightarrow> nat \<Rightarrow> nat" where
  "budget p k = (case p of None \<Rightarrow> 0 | Some q \<Rightarrow> nat (rf_maxRetries q + 1 - int k))"

definition retries_left :: "agent \<Rightarrow> nat" where
  "retries_left a = 2 * budget (gc_reflectRetry (ag_config a)) (ag_consecutive a) + 1"

definition steps_left :: "agent \<Rightarrow> run \<Rightarrow> nat" where
  "steps_left a r = gc_maxSteps (ag_config a) - rn_stepCount r"

definition rank_of :: "agent \<Rightarrow> run_stage \<Rightarrow> run_rank" where
  "rank_of a st = (case st of
      Idle \<Rightarrow> (0, 0, 0, 0, {#})
    | AwaitThunk c i op \<Rightarrow> (gc_maxSteps (ag_config a) + 2, 0, 0, 0, {#})
    | AwaitRunStart r \<Rightarrow> (gc_maxSteps (ag_config a) + 1, 0, 0, 0, {#})
    | AwaitStepStart r \<Rightarrow> (steps_left a r, retries_left a, 12, 0, {#})
    | AwaitInputGuard r sys gs \<Rightarrow> (steps_left a r, retries_left a, 11, length gs, {#})
    | AwaitInputTrip r sys m \<Rightarrow> (steps_left a r, retries_left a, 10, 0, {#})
    | AwaitModel r rq k \<Rightarrow> (steps_left a r, retries_left a, 9, length (gc_clientChain (ag_config a)) - k, {#})
    | AwaitRetryWarning r sv k \<Rightarrow>
        (steps_left a r,
         (case gc_reflectRetry (ag_config a) of None \<Rightarrow> 0
          | Some p \<Rightarrow> if int k \<le> rf_maxRetries p then 2 * budget (Some p) k + 2 else 0), 8, 0, {#})
    | AwaitStepComplete r sv has \<Rightarrow> (steps_left a r, 0, 7, 0, {#})
    | AwaitOutputGuard r sv has gs \<Rightarrow> (steps_left a r, 0, 6, length gs, {#})
    | AwaitOutputTrip r sv has m \<Rightarrow> (steps_left a r, 0, 5, 0, {#})
    | AwaitTools r sv pool \<Rightarrow> (steps_left a r, 0, 4, 0, pool_rank (ag_config a) (tp_slots pool) (tp_waiting pool))
    | AwaitRunError r e \<Rightarrow> (0, 0, 1, 0, {#}))"

definition rk :: "loop_state \<Rightarrow> run_rank" where "rk s = rank_of (lp_agent s) (lp_stage s)"

text \<open>What the measure needs to know of a stage: the model asked is in the chain, and the attempt is the one counted.\<close>

definition linked :: "loop_state \<Rightarrow> bool" where
  "linked s \<longleftrightarrow> (case lp_stage s of
      AwaitModel r rq k \<Rightarrow> k \<le> length (gc_clientChain (ag_config (lp_agent s))) - 1
    | AwaitRetryWarning r sv k \<Rightarrow> k = ag_consecutive (lp_agent s) \<and> gc_reflectRetry (ag_config (lp_agent s)) \<noteq> None
    | _ \<Rightarrow> True)"

lemma rank_same_core: "core a = core b \<Longrightarrow> rank_of a st = rank_of b st" "core a = core b \<Longrightarrow> steps_left a r = steps_left b r"
  "core a = core b \<Longrightarrow> retries_left a = retries_left b"
  by (simp_all add: rank_of_def core_def steps_left_def retries_left_def split: run_stage.split)

lemma left_emit [simp]: "steps_left (emit ev a) r = steps_left a r" "retries_left (emit ev a) = retries_left a"
  by (simp_all add: steps_left_def retries_left_def)

lemma left_append [simp]: "steps_left (append_message now m meta a) r = steps_left a r"
  "retries_left (append_message now m meta a) = retries_left a"
  by (simp_all add: steps_left_def retries_left_def)

lemma left_run [simp]: "steps_left a (r\<lparr>rn_stepStart := t\<rparr>) = steps_left a r" "steps_left a (count_response now x r) = steps_left a r"
  "steps_left (a\<lparr>ag_consecutive := k\<rparr>) r = steps_left a r"
  by (simp_all add: steps_left_def)

lemma rk_go [simp]: "rk (go st a s) = rank_of a st" "rk (s\<lparr>lp_stage := st\<rparr>) = rank_of (lp_agent s) st"
  by (simp_all add: rk_def go_def)

lemma linked_go: "linked (go st a s) \<longleftrightarrow> (case st of
      AwaitModel r rq k \<Rightarrow> k \<le> length (gc_clientChain (ag_config a)) - 1
    | AwaitRetryWarning r sv k \<Rightarrow> k = ag_consecutive a \<and> gc_reflectRetry (ag_config a) \<noteq> None | _ \<Rightarrow> True)"
  by (simp add: linked_def go_def split: run_stage.split)

lemma linked_settle [simp]:
  "linked (settle_call c res s) = linked s" "rk (settle_call c res s) = rk s"
  "linked (s\<lparr>lp_stage := Idle\<rparr>)" "linked (s\<lparr>lp_stage := Idle, lp_agent := a\<rparr>)"
  "rk (s\<lparr>lp_stage := Idle, lp_agent := a\<rparr>) = (0, 0, 0, 0, {#})"
  by (simp_all add: linked_def rk_def rank_of_def settle_call_def split: run_stage.split)

lemma linked_finish [simp]: "linked (finish_run now reason trip err r s)" "rk (finish_run now reason trip err r s) = (0, 0, 0, 0, {#})"
  by (simp_all add: linked_def rk_def rank_of_def finish_run_def Let_def)

lemma linked_error [simp]: "linked (recordRunError e r s)" "rk (recordRunError e r s) = (0, 0, 1, 0, {#})"
  by (simp_all add: recordRunError_def linked_go rank_of_def)

lemma linked_enter [simp]: "linked (enter_step now r s)"
  "\<not> ag_stopRequested (lp_agent s) \<Longrightarrow> rk (enter_step now r s) = (steps_left (lp_agent s) r, retries_left (lp_agent s), 12, 0, {#})"
  "ag_stopRequested (lp_agent s) \<Longrightarrow> rk (enter_step now r s) = (0, 0, 0, 0, {#})"
  by (simp_all add: enter_step_def linked_go rank_of_def)

lemma linked_model [simp]:
  "i \<le> length (gc_clientChain (ag_config (lp_agent s))) - 1 \<Longrightarrow> linked (call_model r req i s)"
  "rk (call_model r req i s) = (steps_left (lp_agent s) r, retries_left (lp_agent s), 9, length (gc_clientChain (ag_config (lp_agent s))) - i, {#})"
  "linked (request_model r sys s)"
  "rk (request_model r sys s) = (steps_left (lp_agent s) r, retries_left (lp_agent s), 9, length (gc_clientChain (ag_config (lp_agent s))), {#})"
  by (simp_all add: call_model_def request_model_def linked_go rank_of_def Let_def)

lemma linked_guards [simp]: "linked (runInputGuardrails r sys gs s)" "linked (start_step now r s)"
  by (simp_all add: runInputGuardrails_def start_step_def linked_def[of "s\<lparr>lp_stage := AwaitInputGuard _ _ _\<rparr>"])

lemma rk_guards:
  "rk (runInputGuardrails r sys gs s) = (if gs = [] then rk (request_model r sys s)
     else (steps_left (lp_agent s) r, retries_left (lp_agent s), 11, length gs, {#}))"
  by (simp add: runInputGuardrails_def rank_of_def)

lemma linked_failed [simp]: "linked (model_failed r req i e s)" if "i \<le> length (gc_clientChain (ag_config (lp_agent s))) - 1"
  using that by (simp add: model_failed_def Let_def)

lemma linked_accept [simp]: "linked (accept_response now fresh r sv s)"
  "rk (accept_response now fresh r sv s) = (steps_left (lp_agent s) r, 0, 7, 0, {#})"
  by (simp_all add: accept_response_def linked_go rank_of_def Let_def)

lemma linked_answered [simp]: "linked (model_answered now fresh r c x s)" "linked (after_retry_warning now fresh r sv attempt p s)"
  by (simp_all add: model_answered_def after_retry_warning_def Let_def linked_go split: option.split)

lemma linked_close [simp]: "linked (close_step now r sv has reports results s)"
  by (simp add: close_step_def Let_def)

lemma linked_tools [simp]: "linked (advance_pool now r sv pool s)" "linked (executeToolCalls now r sv s)"
  "linked (after_output_guards now r sv has s)" "linked (runOutputGuardrails now r sv has gs s)"
proof -
  show a: "linked (advance_pool now r sv pool s)" for pool s by (simp add: advance_pool_def linked_go split: prod.split)
  show e: "linked (executeToolCalls now r sv s)" by (simp add: executeToolCalls_def a Let_def split: prod.split)
  show o: "linked (after_output_guards now r sv has s)" by (simp add: after_output_guards_def e)
  show "linked (runOutputGuardrails now r sv has gs s)" by (simp add: runOutputGuardrails_def o) (simp add: linked_def)
qed

section \<open>Every awaited answer lowers the measure\<close>

text \<open>A step in which every answer of the functions below stays under a bound.\<close>

lemma start_falls:
  assumes "steps_left (lp_agent s) r = m"
  shows "(rk (start_step now r s), (m, retries_left (lp_agent s), 12, 0, {#})) \<in> falls"
  using assms by (simp add: start_step_def rk_guards)

lemma input_guards_fall:
  "gs \<noteq> [] \<Longrightarrow> (rk (runInputGuardrails r sys (tl gs) s), (steps_left (lp_agent s) r, retries_left (lp_agent s), 11, length gs, {#})) \<in> falls"
  by (cases gs) (simp_all add: rk_guards)

lemma failed_falls:
  assumes "i \<le> length (gc_clientChain (ag_config (lp_agent s))) - 1" "0 < steps_left (lp_agent s) r"
  shows "(rk (model_failed r req i e s), (steps_left (lp_agent s) r, retries_left (lp_agent s), 9,
      length (gc_clientChain (ag_config (lp_agent s))) - i, {#})) \<in> falls"
  using assms by (simp add: model_failed_def Let_def) arith

lemma rank_retry: "rank_of a (AwaitRetryWarning r sv k) = (steps_left a r,
    (case gc_reflectRetry (ag_config a) of None \<Rightarrow> 0
     | Some p \<Rightarrow> if int k \<le> rf_maxRetries p then 2 * budget (Some p) k + 2 else 0), 8, 0, {#})"
  by (simp add: rank_of_def)

lemma answered_falls:
  "(rk (model_answered now fresh r c x s), (steps_left (lp_agent s) r, retries_left (lp_agent s), 9, n, {#})) \<in> falls"
proof (cases "gc_reflectRetry (ag_config (lp_agent s))")
  case (Some p)
  have "2 * budget (Some p) (Suc (ag_consecutive (lp_agent s))) + 2 < retries_left (lp_agent s)"
    if "int (Suc (ag_consecutive (lp_agent s))) \<le> rf_maxRetries p"
    using that Some by (simp add: budget_def retries_left_def)
  then show ?thesis using Some
    by (simp add: model_answered_def Let_def rank_retry) (simp add: retries_left_def)
qed (simp add: model_answered_def Let_def retries_left_def)

lemma retry_falls:
  assumes "gc_reflectRetry (ag_config (lp_agent s)) = Some p" "k = ag_consecutive (lp_agent s)" "0 < steps_left (lp_agent s) r"
  shows "(rk (after_retry_warning now fresh r sv k p s), rank_of (lp_agent s) (AwaitRetryWarning r sv k)) \<in> falls"
proof (cases "int k \<le> rf_maxRetries p")
  case True
  define t where "t = s\<lparr>lp_agent := append_message now (new_message User (ContentText
      (reflectionGuidance (re_finishReason (sv_response sv)) k (rf_maxRetries p) (re_errorMessage (sv_response sv))))) None (lp_agent s)\<rparr>"
  have l: "steps_left (lp_agent t) r = steps_left (lp_agent s) r" "retries_left (lp_agent t) = retries_left (lp_agent s)"
    by (simp_all add: t_def)
  have "after_retry_warning now fresh r sv k p s = enter_step now r t"
    using True by (simp add: after_retry_warning_def t_def Let_def)
  then show ?thesis using True assms l
    by (cases "ag_stopRequested (lp_agent t)") (simp_all add: rank_retry retries_left_def)
qed (use assms in \<open>simp add: after_retry_warning_def Let_def rank_retry\<close>)

lemma close_falls:
  assumes "0 < steps_left (lp_agent s) r"
  shows "(rk (close_step now r sv has reports results s), (steps_left (lp_agent s) r, 0, Suc c, d, e)) \<in> falls"
proof -
  define t where "t = s\<lparr>lp_agent := append_message now (new_message Tool (ContentParts results)) None (lp_agent s)\<rparr>"
  have "steps_left (lp_agent t) (write_step r sv True reports) < steps_left (lp_agent s) r"
    using assms by (simp add: t_def steps_left_def)
  then have "(rk (enter_step now (write_step r sv True reports) t), (steps_left (lp_agent s) r, 0, Suc c, d, e)) \<in> falls"
    using assms by (cases "ag_stopRequested (lp_agent t)") simp_all
  then show ?thesis by (simp add: close_step_def Let_def t_def assms)
qed

lemma rank_tools: "rank_of a (AwaitTools r sv pool) = (steps_left a r, 0, 4, 0, pool_rank (ag_config a) (tp_slots pool) (tp_waiting pool))"
  by (simp add: rank_of_def)

lemma pool_falls:
  assumes "0 < steps_left (lp_agent s) r"
    and "(pool_rank (ag_config (lp_agent s)) (tp_slots pool) (tp_waiting pool), e) \<in> mult lower \<and> d = 0 \<or> 4 < c"
  shows "(rk (advance_pool now r sv pool s), (steps_left (lp_agent s) r, 0, c, d, e)) \<in> falls \<or> c < 4"
proof (cases "c < 4")
  case False
  then obtain c0 where c0: "c = Suc c0" by (cases c) auto
  obtain slots waiting a reports
    where p: "start_calls (tp_waiting pool) (tp_slots pool) (lp_agent s, tp_reports pool) = (slots, waiting, a, reports)"
    by (metis surj_pair)
  then have "loop_part a = loop_part (lp_agent s)"
    using loop_part_start_calls[of "tp_waiting pool" "tp_slots pool" "(lp_agent s, tp_reports pool)"] by simp
  then have co: "core a = core (lp_agent s)" by (rule core_loop_part)
  have l: "steps_left a r = steps_left (lp_agent s) r" "ag_config a = ag_config (lp_agent s)"
    using rank_same_core(2)[OF co] core_facts(1)[OF co] by simp_all
  have "(pool_rank (ag_config a) slots waiting, e) \<in> mult lower \<and> d = 0 \<or> 4 < c"
    using start_calls_rank[OF p, of "ag_config a"] assms(2) transD[OF trans_mult[OF trans_lower]] l(2) by auto
  moreover have "(rk (close_step now r sv True reports (answers slots) (s\<lparr>lp_agent := a\<rparr>)), (steps_left (lp_agent s) r, 0, c, d, e)) \<in> falls"
    using close_falls[of "s\<lparr>lp_agent := a\<rparr>" r] assms(1) l(1) c0 by simp
  ultimately show ?thesis using p l assms False by (auto simp: advance_pool_def rank_tools)
qed simp

lemma tools_fall:
  assumes "0 < steps_left (lp_agent s) r" "4 < c"
  shows "(rk (executeToolCalls now r sv s), (steps_left (lp_agent s) r, 0, c, d, e)) \<in> falls"
proof -
  obtain slots a reports where p: "start_every (re_toolCalls (sv_response sv)) [] (lp_agent s, []) = (slots, a, reports)"
    by (metis surj_pair)
  then have "loop_part a = loop_part (lp_agent s)"
    using loop_part_start_every[of "re_toolCalls (sv_response sv)" "[]" "(lp_agent s, [])"] by simp
  then have l: "steps_left a r = steps_left (lp_agent s) r" using rank_same_core(2)[OF core_loop_part] by blast
  have "(rk (advance_pool now r sv pool t), (steps_left (lp_agent s) r, 0, c, d, e)) \<in> falls"
    if "steps_left (lp_agent t) r = steps_left (lp_agent s) r" for pool t
    using pool_falls[of t r pool e d c now sv] that assms by simp
  from this[of "s\<lparr>lp_agent := a\<rparr>"] this[of s] show ?thesis using p l by (simp add: executeToolCalls_def Let_def)
qed

lemma outputs_fall:
  assumes "0 < steps_left (lp_agent s) r" "4 < c"
  shows "(rk (after_output_guards now r sv has s), (steps_left (lp_agent s) r, 0, c, d, e)) \<in> falls"
  using assms tools_fall[OF assms] close_falls[OF assms(1), of now sv False "[]" "[]" "c - 1" d e]
  by (cases c) (simp_all add: after_output_guards_def)

lemma rk_output_guards:
  "rk (runOutputGuardrails now r sv has gs s) = (if gs = [] then rk (after_output_guards now r sv has s)
     else (steps_left (lp_agent s) r, 0, 6, length gs, {#}))"
  by (simp add: runOutputGuardrails_def rank_of_def)

lemma output_guards_fall:
  "0 < steps_left (lp_agent s) r
   \<Longrightarrow> (rk (runOutputGuardrails now r sv has gs s), (steps_left (lp_agent s) r, 0, 7, 0, {#})) \<in> falls"
  "0 < steps_left (lp_agent s) r \<Longrightarrow> gs \<noteq> []
   \<Longrightarrow> (rk (runOutputGuardrails now r sv has (tl gs) s), (steps_left (lp_agent s) r, 0, 6, length gs, {#})) \<in> falls"
  by (cases gs; simp add: rk_output_guards outputs_fall)+

section \<open>The run ends\<close>

text \<open>The answers a stage waits for; while tools run, an answer for one of the calls that are not settled.\<close>

definition awaits :: "run_stage \<Rightarrow> loop_event \<Rightarrow> bool" where
  "awaits st ev \<longleftrightarrow> (case ev of
      Reply ans \<Rightarrow>
        (case st of
           Idle \<Rightarrow> False | AwaitTools _ _ _ \<Rightarrow> False
         | AwaitThunk _ _ _ \<Rightarrow> (case ans of ThunkReturned _ \<Rightarrow> True | RunThrew _ \<Rightarrow> True | _ \<Rightarrow> False)
         | AwaitInputGuard _ _ _ \<Rightarrow> (case ans of GuardSays _ _ _ \<Rightarrow> True | RunThrew _ \<Rightarrow> True | _ \<Rightarrow> False)
         | AwaitOutputGuard _ _ _ _ \<Rightarrow> (case ans of GuardSays _ _ _ \<Rightarrow> True | RunThrew _ \<Rightarrow> True | _ \<Rightarrow> False)
         | AwaitModel _ _ _ \<Rightarrow> (case ans of ModelReturned _ \<Rightarrow> True | RunThrew _ \<Rightarrow> True | _ \<Rightarrow> False)
         | _ \<Rightarrow> (case ans of RunHookDone \<Rightarrow> True | RunThrew _ \<Rightarrow> True | _ \<Rightarrow> False))
    | ToolReply k ans \<Rightarrow>
        (case st of AwaitTools _ _ pool \<Rightarrow> k < length (tp_slots pool) \<and> waits_for (snd (tp_slots pool ! k)) ans | _ \<Rightarrow> False)
    | _ \<Rightarrow> False)"

lemma slot_falls:
  assumes "k < length slots" "slots ! k = (tc, st)" "waits_for st ans"
    "tool_step now rid n tc ans st (a, reports) = (st1, w1)"
  shows "(pool_rank (ag_config a) (slots[k := (tc, st1)]) waiting, pool_rank (ag_config a) slots waiting) \<in> mult lower"
proof -
  have "(call_rank (ag_config a) st1, call_rank (ag_config a) st) \<in> lower"
    using step_lowers_rank[of "(a, reports)" "ag_config a" st ans now rid n tc] assms(3,4) by simp
  then have "(slot_ranks (ag_config a) (slots[k := (tc, st1)]), slot_ranks (ag_config a) slots) \<in> mult lower"
    by (rule slot_ranks_update[OF assms(1,2)])
  moreover have "irrefl_on X lower" for X by (auto simp: irrefl_on_def lower_def)
  ultimately show ?thesis unfolding pool_rank_def by (subst mult_cancel[OF trans_lower])
qed

lemma tool_reply_falls:
  assumes "lp_stage s = AwaitTools r sv pool" "0 < steps_left (lp_agent s) r" "k < length (tp_slots pool)"
    "waits_for (snd (tp_slots pool ! k)) ans"
  shows "linked (tool_answered now r sv pool k ans s) \<and> (rk (tool_answered now r sv pool k ans s), rk s) \<in> falls"
proof -
  obtain tc st where c: "tp_slots pool ! k = (tc, st)" by force
  obtain st1 a reports
    where p: "tool_step now (rn_id r) (rn_stepCount r) tc ans st (lp_agent s, tp_reports pool) = (st1, a, reports)"
    by (metis surj_pair)
  then have "loop_part a = loop_part (lp_agent s)"
    using loop_part_tool_step[of now "rn_id r" "rn_stepCount r" tc ans st "(lp_agent s, tp_reports pool)"] by simp
  then have co: "core a = core (lp_agent s)" by (rule core_loop_part)
  have l: "steps_left a r = steps_left (lp_agent s) r" "ag_config a = ag_config (lp_agent s)"
    using rank_same_core(2)[OF co] core_facts(1)[OF co] by simp_all
  have "(pool_rank (ag_config (lp_agent s)) ((tp_slots pool)[k := (tc, st1)]) (tp_waiting pool),
      pool_rank (ag_config (lp_agent s)) (tp_slots pool) (tp_waiting pool)) \<in> mult lower"
    by (rule slot_falls[OF assms(3) c _ p]) (use assms(4) c in simp)
  then have "(rk (advance_pool now r sv (pool\<lparr>tp_slots := (tp_slots pool)[k := (tc, st1)], tp_reports := reports\<rparr>) (s\<lparr>lp_agent := a\<rparr>)), rk s) \<in> falls"
    using pool_falls[of "s\<lparr>lp_agent := a\<rparr>" r "pool\<lparr>tp_slots := (tp_slots pool)[k := (tc, st1)], tp_reports := reports\<rparr>"
        "pool_rank (ag_config (lp_agent s)) (tp_slots pool) (tp_waiting pool)" 0 4 now sv] l assms(1,2)
    by (simp add: rk_def[of s] rank_tools)
  then show ?thesis using assms c p
    by (cases st1) (simp_all add: tool_answered_def Let_def rk_def[of s] rank_tools)
qed

lemma reply_falls:
  assumes "all_books old M s" "linked s" "awaits (lp_stage s) (Reply ans)"
  shows "linked (run_reply now fresh ans s) \<and> (rk (run_reply now fresh ans s), rk s) \<in> falls"
proof -
  have b: "gc_maxSteps (ag_config (lp_agent s)) = M" "stage_books M (lp_stage s)"
    using assms(1) by (simp_all add: all_books_def books_def)
  show ?thesis
  proof (cases "lp_stage s")
    case (AwaitRunStart r)
    define t where "t = s\<lparr>lp_agent := admit_input now (rn_input r) (lp_agent s)\<rparr>"
    have "steps_left (lp_agent t) r \<le> M" using b by (simp add: t_def steps_left_def)
    then have "(rk (enter_step now r t), (M + 1, 0, 0, 0, {#})) \<in> falls"
      by (cases "ag_stopRequested (lp_agent t)") simp_all
    then show ?thesis using AwaitRunStart assms(3) b
      by (cases ans) (simp_all add: awaits_def run_reply_def t_def rk_def[of s] rank_of_def[of _ "AwaitRunStart r"] fail_start_def
          rank_of_def[of _ Idle])
  next
    case (AwaitModel r rq i)
    have "0 < steps_left (lp_agent s) r" using b AwaitModel by (simp add: steps_left_def)
    then show ?thesis
      using AwaitModel assms(2,3) failed_falls[of i s r] answered_falls[of now _ r]
      by (cases ans) (simp_all add: awaits_def run_reply_def rk_def[of s] rank_of_def[of _ "AwaitModel r rq i"] linked_def[of s])
  next
    case (AwaitRetryWarning r sv k)
    then obtain p where "gc_reflectRetry (ag_config (lp_agent s)) = Some p" "k = ag_consecutive (lp_agent s)"
      using assms(2) by (auto simp: linked_def)
    then show ?thesis using AwaitRetryWarning assms(3) b retry_falls[of s p k r]
      by (cases ans) (simp_all add: awaits_def run_reply_def rk_def[of s] rank_retry steps_left_def)
  next
    case Idle
    then show ?thesis using assms(3) by (simp add: awaits_def)
  next
    case (AwaitThunk c i op)
    then show ?thesis using assms(3)
      by (cases ans) (simp_all add: awaits_def run_reply_def begin_run_def fail_start_def linked_go rk_def[of s] rank_of_def)
  next
    case (AwaitStepStart r)
    then show ?thesis using assms(3) b start_falls[of s r _ now]
      by (cases ans) (simp_all add: awaits_def run_reply_def rk_def[of s] rank_of_def steps_left_def)
  next
    case (AwaitInputGuard r sys gs)
    then show ?thesis using assms(3) b
      by (cases ans; cases gs) (simp_all add: awaits_def run_reply_def rk_def[of s] rank_of_def steps_left_def rk_guards linked_go
          guardrail_tripped_def)
  next
    case (AwaitInputTrip r sys m)
    then show ?thesis using assms(3) b
      by (cases ans) (simp_all add: awaits_def run_reply_def rk_def[of s] rank_of_def steps_left_def)
  next
    case (AwaitStepComplete r sv has)
    then show ?thesis using assms(3) b output_guards_fall(1)[of s r now sv has]
      by (cases ans) (simp_all add: awaits_def run_reply_def rk_def[of s] rank_of_def steps_left_def)
  next
    case (AwaitOutputGuard r sv has gs)
    have "gs \<noteq> [] \<Longrightarrow> (rk (runOutputGuardrails now r sv has (tl gs) s), (steps_left (lp_agent s) r, 0, 6, length gs, {#})) \<in> falls"
      "(rk (runOutputGuardrails now r sv has [] s), (steps_left (lp_agent s) r, 0, 6, 0, {#})) \<in> falls"
      using output_guards_fall(2)[of s r gs] outputs_fall[of s r 6] b AwaitOutputGuard
      by (simp_all add: steps_left_def rk_output_guards)
    then show ?thesis using AwaitOutputGuard assms(3) b
      by (cases ans; cases gs) (simp_all add: awaits_def run_reply_def rk_def[of s] rank_of_def[of _ "AwaitOutputGuard _ _ _ _"]
          rank_of_def[of _ "AwaitOutputTrip _ _ _ _"] linked_go guardrail_tripped_def steps_left_def)
  next
    case (AwaitOutputTrip r sv has m)
    then show ?thesis using assms(3) b outputs_fall[of s r 5 now sv has 0 "{#}"]
      by (cases ans) (simp_all add: awaits_def run_reply_def rk_def[of s] rank_of_def[of _ "AwaitOutputTrip _ _ _ _"] steps_left_def)
  next
    case (AwaitTools r sv pool)
    then show ?thesis using assms(3) by (simp add: awaits_def)
  next
    case (AwaitRunError r e)
    then show ?thesis using assms(3)
      by (cases ans) (simp_all add: awaits_def run_reply_def rk_def[of s] rank_of_def)
  qed
qed

lemma awaited_falls:
  assumes "all_books old M s" "linked s" "awaits (lp_stage s) ev"
  shows "linked (loop_step now fresh ev s) \<and> (rk (loop_step now fresh ev s), rk s) \<in> falls"
proof (cases ev)
  case (Reply ans)
  then show ?thesis using reply_falls[OF assms(1,2)] assms(3) by (simp add: loop_step_def)
next
  case (ToolReply k ans)
  then obtain r sv pool where p: "lp_stage s = AwaitTools r sv pool" "k < length (tp_slots pool)"
    "waits_for (snd (tp_slots pool ! k)) ans"
    using assms(3) by (auto simp: awaits_def split: run_stage.splits)
  moreover have "0 < steps_left (lp_agent s) r" using assms(1) p(1) by (simp add: all_books_def books_def steps_left_def)
  ultimately show ?thesis using tool_reply_falls ToolReply by (simp add: loop_step_def)
qed (use assms(3) in \<open>simp_all add: awaits_def\<close>)

lemma quiet_between:
  assumes "lp_stage t = lp_stage s" "core (lp_agent t) = core (lp_agent s)"
  shows "all_books old M s \<Longrightarrow> all_books old M t" "linked s \<Longrightarrow> linked t" "rk t = rk s"
proof -
  show "all_books old M s \<Longrightarrow> all_books old M t"
    using assms(1) core_facts[OF assms(2)] by (simp add: all_books_def books_def)
  show "linked s \<Longrightarrow> linked t" using assms(1) core_facts[OF assms(2)] by (auto simp: linked_def split: run_stage.splits)
  show "rk t = rk s" using assms(1) rank_same_core(1)[OF assms(2)] by (simp add: rk_def)
qed

text \<open>C8: A run ends: take any idle agent with a positive \<open>maxSteps\<close>, fresh, restored or after any earlier runs, and any
  course of a run of it in which everything the loop waits for (hooks, guardrails, models, tools and
  approvers) answers at some point, with any answer, and in between the host may do anything that leaves the
  stage of the run and the agent's configuration, conversation, reports and retry count alone (\<open>core\<close>; by
  \<open>core_host\<close> every host operation does). Then the loop is idle again at some point: \<open>maxSteps\<close> bounds the
  steps, the reflection budget the repeated turns, the chain the models tried for one request.\<close>
theorem run_ends:
  assumes "0 < gc_maxSteps (ag_config (lp_agent s0))" "lp_stage s0 = Idle" "st 0 = loop_step t f (Complete c i op) s0"
    and "\<forall>n. st (Suc n) = loop_step (now n) (fresh n) (ev n) (other n (st n))"
    and "\<forall>n s. lp_stage (other n s) = lp_stage s \<and> core (lp_agent (other n s)) = core (lp_agent s)"
    and "\<forall>n. lp_stage (st n) \<noteq> Idle \<longrightarrow> awaits (lp_stage (st n)) (ev n)"
  shows "\<exists>n. lp_stage (st n) = Idle"
proof (rule ccontr)
  assume busy: "\<nexists>n. lp_stage (st n) = Idle"
  define old where "old = set (ag_reports (lp_agent s0))"
  let ?M = "gc_maxSteps (ag_config (lp_agent s0))"
  have quiet: "all_books old ?M s \<Longrightarrow> all_books old ?M (other n s)" "linked s \<Longrightarrow> linked (other n s)" "rk (other n s) = rk s" for n s
    using quiet_between[of "other n s" s] assms(5) by blast+
  have b0: "all_books old ?M s0" using assms(2) by (simp add: all_books_def books_def old_def)
  have inv: "all_books old ?M (st n) \<and> linked (st n)" for n
  proof (induction n)
    case 0
    show ?case using run_books_step[OF b0 assms(1)]
      by (simp add: assms(3)) (simp add: loop_step_def beginRun_def begin_run_def linked_def settle_call_def go_def assms(2) Let_def)
  next
    case (Suc n)
    let ?s = "other n (st n)"
    have s: "all_books old ?M ?s" "linked ?s" "awaits (lp_stage ?s) (ev n)"
      using Suc quiet assms(5,6) busy by metis+
    then have "linked (loop_step (now n) (fresh n) (ev n) ?s)" using awaited_falls by blast
    then show ?case using run_books_step[OF s(1) assms(1)] assms(4) by simp
  qed
  have "(rk (st (Suc n)), rk (st n)) \<in> falls" for n
  proof -
    let ?s = "other n (st n)"
    have s: "all_books old ?M ?s" "linked ?s" "awaits (lp_stage ?s) (ev n)"
      using inv[of n] quiet assms(5,6) busy by metis+
    then have "(rk (loop_step (now n) (fresh n) (ev n) ?s), rk ?s) \<in> falls" using awaited_falls by blast
    then show ?thesis using assms(4) quiet(3) by simp
  qed
  then have "\<exists>g. \<forall>n. (g (Suc n), g n) \<in> falls" by (intro exI[of _ "\<lambda>n. rk (st n)"]) blast
  then show False using wf_falls unfolding wf_iff_no_infinite_down_chain by blast
qed

text \<open>The second run of an agent whose first one was stopped: a model that asks for a tool, the tool, and the final answer.\<close>

definition plain_answer :: "tool_call list \<Rightarrow> llm_response" where
  "plain_answer calls =
     \<lparr> re_id = ''r'', re_model = ''m'', re_content = map call_part calls, re_finishReason = (if calls = [] then ''stop'' else ''tool_use''), re_usage = emptyUsage,
       re_text = ''ok'', re_toolCalls = calls, re_thinking = None, re_media = [], re_files = None, re_builtinToolCalls = None,
       re_citations = None, re_moderation = None, re_errorMessage = None, re_signatures = None, re_latencyMs = 0, re_raw = JNull \<rparr>"

definition second_run :: "loop_event list" where
  "second_run = [Reply RunHookDone, Reply RunHookDone, Reply (ModelReturned (plain_answer [sample_call])), Reply RunHookDone,
     ToolReply 0 (StartHookDone False None), ToolReply 0 (ToolReturned (ContentText ''done'')), ToolReply 0 GuardPassed, ToolReply 0 HookDone,
     Reply RunHookDone, Reply (ModelReturned (plain_answer [])), Reply RunHookDone]"

definition once_stopped :: loop_state where
  "once_stopped = loop_run stopped_events (loop_start (sample_agent None))"

fun course :: "nat \<Rightarrow> loop_state" where
  "course 0 = loop_step 3 ''r4'' (Complete 8 (InputText ''again'') no_options_given) once_stopped"
| "course (Suc n) = loop_step 4 ''r5'' (if n < length second_run then second_run ! n else Reply RunHookDone) (course n)"

fun answered :: "loop_event list \<Rightarrow> loop_state \<Rightarrow> bool" where
  "answered [] s \<longleftrightarrow> (case lp_stage s of Idle \<Rightarrow> True | _ \<Rightarrow> False)"
| "answered (ev # evs) s \<longleftrightarrow> awaits (lp_stage s) ev \<and> answered evs (loop_step 4 ''r5'' ev s)"

lemma course_answered: "answered second_run (course 0)"
  by code_simp

lemma course_state: "(n < length second_run \<longrightarrow> awaits (lp_stage (course n)) (second_run ! n))
    \<and> answered (drop n second_run) (course n)"
proof (induction n)
  case 0
  show ?case using course_answered by (simp add: second_run_def del: course.simps)
next
  case (Suc n)
  have "answered (drop (Suc n) second_run) (course (Suc n))"
  proof (cases "n < length second_run")
    case True
    then show ?thesis using Suc by (simp add: Cons_nth_drop_Suc[symmetric])
  next
    case False
    then show ?thesis using Suc by (simp add: loop_step_def run_reply_def split: run_stage.splits)
  qed
  then show ?case by (cases "Suc n < length second_run") (auto simp: Cons_nth_drop_Suc[symmetric] simp del: course.simps)
qed

lemma run_ends_witness:
  "(\<exists>n. lp_stage (course n) = Idle) \<and> length (ag_reports (lp_agent once_stopped)) = 1 \<and> length second_run = 11"
proof (intro conjI)
  show "\<exists>n. lp_stage (course n) = Idle"
  proof (rule run_ends[where ?s0.0 = once_stopped and st = course and t = 3 and f = "''r4''" and c = 8 and i = "InputText ''again''"
        and op = no_options_given and now = "\<lambda>_. 4" and fresh = "\<lambda>_. ''r5''" and other = "\<lambda>_ s. s"
        and ev = "\<lambda>n. if n < length second_run then second_run ! n else Reply RunHookDone"])
    show "0 < gc_maxSteps (ag_config (lp_agent once_stopped))" by code_simp
    have "answered [] once_stopped" by code_simp
    then show "lp_stage once_stopped = Idle" by (simp split: run_stage.splits)
    show "\<forall>n. lp_stage (course n) \<noteq> Idle \<longrightarrow>
        awaits (lp_stage (course n)) (if n < length second_run then second_run ! n else Reply RunHookDone)"
    proof (intro allI impI)
      fix n assume "lp_stage (course n) \<noteq> Idle"
      then show "awaits (lp_stage (course n)) (if n < length second_run then second_run ! n else Reply RunHookDone)"
        using course_state[of n] by (cases "n < length second_run") (simp_all split: run_stage.splits del: course.simps)
    qed
  qed simp_all
  show "length (ag_reports (lp_agent once_stopped)) = 1" by code_simp
qed (simp add: second_run_def)

end
