(* ===== verification/AgentRequests.thy ===== *)
theory AgentRequests
  imports AgentRuns
begin

text \<open>
  What a model is sent: the conversation of an agent never reaches a model with a tool call that has no result.
\<close>

section \<open>Calls and results\<close>

definition results_in :: "message list \<Rightarrow> string set" where
  "results_in ms = set (concat (map result_ids ms))"

text \<open>Every call of an assistant message has a result, the ones in \<open>open_ids\<close> excepted.\<close>

definition answered_but :: "string set \<Rightarrow> message list \<Rightarrow> bool" where
  "answered_but open_ids ms \<longleftrightarrow> (\<forall>m\<in>set ms. msg_role m = Assistant \<longrightarrow> set (call_ids m) \<subseteq> results_in ms \<union> open_ids)"

definition plain :: "message \<Rightarrow> bool" where
  "plain m \<longleftrightarrow> (msg_role m = Assistant \<longrightarrow> call_ids m = [])"

lemma results_in_append [simp]: "results_in (ms @ ns) = results_in ms \<union> results_in ns" "results_in [m] = set (result_ids m)" "results_in [] = {}"
  by (auto simp: results_in_def)

lemma answered_but_append:
  "answered_but X ms \<Longrightarrow> (msg_role m = Assistant \<Longrightarrow> set (call_ids m) \<subseteq> X) \<Longrightarrow> answered_but X (ms @ [m])"
  unfolding answered_but_def by (auto 0 3)

lemma answered_but_mono: "answered_but X ms \<Longrightarrow> X \<subseteq> Y \<Longrightarrow> answered_but Y ms"
  unfolding answered_but_def by blast

lemma answered_but_plain: "answered_but X ms \<Longrightarrow> plain m \<Longrightarrow> answered_but X (ms @ [m])"
  by (rule answered_but_append) (auto simp: plain_def)

lemma answered_but_plains: "answered_but X ms \<Longrightarrow> \<forall>m\<in>set ns. plain m \<Longrightarrow> answered_but X (ms @ ns)"
proof (induction ns arbitrary: ms)
  case (Cons n ns)
  then show ?case using Cons.IH[of "ms @ [n]"] answered_but_plain[of X ms n] by simp
qed simp

lemma answered_but_results:
  "answered_but X ms \<Longrightarrow> X \<subseteq> set (result_ids m) \<Longrightarrow> msg_role m \<noteq> Assistant \<Longrightarrow> answered_but {} (ms @ [m])"
  unfolding answered_but_def by (auto 0 3)

lemma plain_simps [simp]: "plain (new_message User c)" "plain (new_message Tool c)"
  by (simp_all add: plain_def new_message_def)

section \<open>The repair\<close>

definition calls_in :: "content_part list \<Rightarrow> string list" where
  "calls_in ps = List.map_filter (\<lambda>p. case p of ToolCallPart i _ _ _ _ _ \<Rightarrow> Some i | _ \<Rightarrow> None) ps"

definition answers_in :: "content_part list \<Rightarrow> string list" where
  "answers_in ps = List.map_filter (\<lambda>p. case p of ToolResultPart i _ _ _ _ \<Rightarrow> Some i | _ \<Rightarrow> None) ps"

lemma calls_in_simps [simp]:
  "calls_in [] = []" "calls_in (p # ps) = (case p of ToolCallPart i _ _ _ _ _ \<Rightarrow> i # calls_in ps | _ \<Rightarrow> calls_in ps)"
  by (simp_all add: calls_in_def List.map_filter_def split: content_part.split)

lemma answers_in_simps [simp]:
  "answers_in [] = []" "answers_in (p # ps) = (case p of ToolResultPart i _ _ _ _ \<Rightarrow> i # answers_in ps | _ \<Rightarrow> answers_in ps)"
  by (simp_all add: answers_in_def List.map_filter_def split: content_part.split)

lemma ids_of_parts: "call_ids m = calls_in (part_list m)" "result_ids m = answers_in (part_list m)"
  by (simp_all add: call_ids_def result_ids_def calls_in_def answers_in_def)

lemma ids_of_new [simp]:
  "call_ids (new_message r (ContentParts ps)) = calls_in ps" "result_ids (new_message r (ContentParts ps)) = answers_in ps"
  by (simp_all add: ids_of_parts part_list_def new_message_def)

lemma calls_in_concat: "set (calls_in (concat pss)) = (\<Union>ps\<in>set pss. set (calls_in ps))"
  by (auto simp: calls_in_def List.map_filter_def)

lemma orphan_parts_cover: "set (calls_in ps) \<subseteq> set seen \<union> set (answers_in (orphan_parts seen ps))"
proof (induction ps arbitrary: seen)
  case (Cons p ps)
  show ?case
  proof (cases "\<exists>i name args caller meta b. p = ToolCallPart i name args caller meta b")
    case True
    then obtain i name args caller meta b where p: "p = ToolCallPart i name args caller meta b" by blast
    show ?thesis
    proof (cases "i \<in> set seen")
      case False
      have "set (calls_in ps) \<subseteq> set (i # seen) \<union> set (answers_in (orphan_parts (i # seen) ps))" by (rule Cons.IH)
      then show ?thesis using p False by auto
    qed (use p Cons.IH[of seen] in auto)
  next
    case False
    then have "calls_in (p # ps) = calls_in ps" "orphan_parts seen (p # ps) = orphan_parts seen ps" by (cases p; simp)+
    then show ?thesis using Cons.IH[of seen] by simp
  qed
qed simp

lemma orphans_cover:
  assumes "m \<in> set ms" "msg_role m = Assistant"
  shows "set (call_ids m) \<subseteq> results_in ms \<union> set (answers_in (orphans ms))"
proof -
  have "set (call_ids m) \<subseteq> set (calls_in (concat (map part_list (filter (\<lambda>m. msg_role m = Assistant) ms))))"
    using assms by (auto simp: calls_in_concat ids_of_parts)
  then show ?thesis
    using orphan_parts_cover[of "concat (map part_list (filter (\<lambda>m. msg_role m = Assistant) ms))" "concat (map result_ids ms)"]
    unfolding orphans_def results_in_def by blast
qed

lemma repair_answers: "answered_but {} (messages (ag_history (repairUnansweredToolCalls now a)))"
proof (cases "orphans (messages (ag_history a)) = []")
  case True
  then show ?thesis
    using orphans_cover[of _ "messages (ag_history a)"]
    by (auto simp: repairUnansweredToolCalls_def Let_def answered_but_def)
next
  case False
  have "answered_but (set (answers_in (orphans (messages (ag_history a))))) (messages (ag_history a))"
    using orphans_cover by (auto simp: answered_but_def)
  then show ?thesis using False
    by (simp add: repairUnansweredToolCalls_def Let_def)
      (rule answered_but_results, auto simp: new_message_def ids_of_parts part_list_def)
qed

lemma admit_answers:
  assumes "\<forall>m\<in>set (inputMessages i). plain m" "\<forall>m\<in>set (ag_pendingInput a). plain m"
  shows "answered_but {} (messages (ag_history (admit_input now i a)))"
proof -
  have "messages (ag_history (admit_input now i a))
      = (messages (ag_history (repairUnansweredToolCalls now a)) @ inputMessages i) @ ag_pendingInput a"
    by (simp add: admit_input_def Let_def)
  then show ?thesis using answered_but_plains[OF answered_but_plains[OF repair_answers assms(1)] assms(2)] by simp
qed

section \<open>The pool\<close>

definition fine :: "tool_call \<Rightarrow> tool_stage \<Rightarrow> bool" where
  "fine tc st \<longleftrightarrow> (case st of Answered p \<Rightarrow> \<exists>c e. p = ToolResultPart (ca_id tc) c e None None | Rejected _ \<Rightarrow> False | _ \<Rightarrow> True)"

definition slots_fine :: "(tool_call \<times> tool_stage) list \<Rightarrow> bool" where
  "slots_fine slots \<longleftrightarrow> list_all (\<lambda>(tc, st). fine tc st) slots"

lemma slots_fine_update: "slots_fine slots \<Longrightarrow> fine tc st \<Longrightarrow> slots_fine (slots[k := (tc, st)])"
  using set_update_subset_insert[of slots k "(tc, st)"] by (fastforce simp: slots_fine_def list_all_iff)

lemma fine_start: "fine tc (fst (start_call tc w))"
  by (simp add: start_call_def buildMalformedResult_def finish_call_def text_result_def fine_def Let_def)

lemma fine_step: "fine tc st \<Longrightarrow> fst (tool_step now rid n tc ans st w) = st1 \<Longrightarrow> (\<And>e. st1 \<noteq> Rejected e) \<Longrightarrow> fine tc st1"
proof (cases "settled st")
  case True
  assume "fine tc st" "fst (tool_step now rid n tc ans st w) = st1"
  then show "fine tc st1" using True by (cases st) (auto simp: settled_def tool_step_def)
next
  case False
  assume "fst (tool_step now rid n tc ans st w) = st1" "\<And>e. st1 \<noteq> Rejected e"
  then show "fine tc st1" using tool_step_answered_by[OF False, of tc w now rid n ans]
    by (cases st1) (auto simp: answered_by_def fine_def)
qed

lemma start_calls_fine:
  assumes "slots_fine slots" "start_calls tcs slots w = (slots1, waiting, w1)"
  shows "slots_fine slots1 \<and> map fst slots1 @ waiting = map fst slots @ tcs
    \<and> (list_all (\<lambda>(tc, st). settled st) slots1 \<longrightarrow> waiting = [])"
  using assms
proof (induction tcs arbitrary: slots w)
  case (Cons tc tcs)
  obtain st w2 where c: "start_call tc w = (st, w2)" by (rule prod.exhaust)
  then have "slots_fine (slots @ [(tc, st)])" using Cons.prems(1) fine_start[of tc w] by (simp add: slots_fine_def)
  then show ?case using Cons c by (auto split: if_splits)
qed simp

lemma start_every_fine:
  assumes "slots_fine slots" "start_every tcs slots w = (slots1, w1)"
  shows "slots_fine slots1 \<and> map fst slots1 = map fst slots @ tcs"
  using assms
proof (induction tcs arbitrary: slots w)
  case (Cons tc tcs)
  obtain st w2 where c: "start_call tc w = (st, w2)" by (rule prod.exhaust)
  then have "slots_fine (slots @ [(tc, st)])" using Cons.prems(1) fine_start[of tc w] by (simp add: slots_fine_def)
  then show ?case using Cons c by simp
qed simp

lemma answers_of_slots:
  "slots_fine slots \<Longrightarrow> list_all (\<lambda>(tc, st). settled st) slots \<Longrightarrow> answers_in (answers slots) = map (ca_id \<circ> fst) slots"
proof (induction slots)
  case (Cons s slots)
  obtain tc st where s: "s = (tc, st)" by force
  then obtain c e where "st = Answered (ToolResultPart (ca_id tc) c e None None)"
    using Cons.prems by (cases st) (auto simp: slots_fine_def fine_def settled_def)
  then show ?case using Cons s by (simp add: answers_def List.map_filter_def slots_fine_def)
qed (simp add: answers_def List.map_filter_def)

section \<open>The invariant\<close>

text \<open>The calls in the content of a response are among the calls it lists.\<close>

definition coherent :: "llm_response \<Rightarrow> bool" where
  "coherent x \<longleftrightarrow> set (calls_in (re_content x)) \<subseteq> set (map ca_id (re_toolCalls x))"

definition talk :: "agent \<Rightarrow> message list" where "talk a = messages (ag_history a)"

definition tidy :: "agent \<Rightarrow> bool" where
  "tidy a \<longleftrightarrow> (\<forall>c ms sys ts. ModelRequested c ms sys ts \<in> set (sent a) \<longrightarrow> answered_but {} ms)
     \<and> (\<forall>m\<in>set (ag_pendingInput a). plain m)"

definition open_ids :: "served \<Rightarrow> string set" where
  "open_ids sv = set (map ca_id (re_toolCalls (sv_response sv)))"

definition stage_tidy :: "message list \<Rightarrow> run_stage \<Rightarrow> bool" where
  "stage_tidy ms st \<longleftrightarrow> (case st of
      Idle \<Rightarrow> True | AwaitThunk c i op \<Rightarrow> \<forall>m\<in>set (inputMessages i). plain m
    | AwaitRunStart r \<Rightarrow> \<forall>m\<in>set (inputMessages (rn_input r)). plain m
    | AwaitStepStart r \<Rightarrow> answered_but {} ms
    | AwaitInputGuard r sys gs \<Rightarrow> answered_but {} ms
    | AwaitInputTrip r sys m \<Rightarrow> answered_but {} ms
    | AwaitModel r rq k \<Rightarrow> answered_but {} ms \<and> answered_but {} (rq_messages rq)
    | AwaitRetryWarning r sv k \<Rightarrow> answered_but {} ms \<and> coherent (sv_response sv)
    | AwaitStepComplete r sv has \<Rightarrow> has \<longrightarrow> answered_but (open_ids sv) ms
    | AwaitOutputGuard r sv has gs \<Rightarrow> has \<longrightarrow> answered_but (open_ids sv) ms
    | AwaitOutputTrip r sv has m \<Rightarrow> has \<longrightarrow> answered_but (open_ids sv) ms
    | AwaitTools r sv pool \<Rightarrow> answered_but (open_ids sv) ms \<and> slots_fine (tp_slots pool)
        \<and> map fst (tp_slots pool) @ tp_waiting pool = re_toolCalls (sv_response sv)
    | AwaitRunError r e \<Rightarrow> True)"

lemma stage_tidy_simps [simp]:
  "stage_tidy ms Idle" "stage_tidy ms (AwaitThunk c i op) \<longleftrightarrow> (\<forall>m\<in>set (inputMessages i). plain m)"
  "stage_tidy ms (AwaitRunStart r) \<longleftrightarrow> (\<forall>m\<in>set (inputMessages (rn_input r)). plain m)"
  "stage_tidy ms (AwaitStepStart r) \<longleftrightarrow> answered_but {} ms"
  "stage_tidy ms (AwaitInputGuard r sys gs) \<longleftrightarrow> answered_but {} ms"
  "stage_tidy ms (AwaitInputTrip r sys t) \<longleftrightarrow> answered_but {} ms"
  "stage_tidy ms (AwaitModel r rq k) \<longleftrightarrow> answered_but {} ms \<and> answered_but {} (rq_messages rq)"
  "stage_tidy ms (AwaitRetryWarning r sv k) \<longleftrightarrow> answered_but {} ms \<and> coherent (sv_response sv)"
  "stage_tidy ms (AwaitStepComplete r sv has) \<longleftrightarrow> (has \<longrightarrow> answered_but (open_ids sv) ms)"
  "stage_tidy ms (AwaitOutputGuard r sv has gs) \<longleftrightarrow> (has \<longrightarrow> answered_but (open_ids sv) ms)"
  "stage_tidy ms (AwaitOutputTrip r sv has t) \<longleftrightarrow> (has \<longrightarrow> answered_but (open_ids sv) ms)"
  "stage_tidy ms (AwaitTools r sv pool) \<longleftrightarrow> answered_but (open_ids sv) ms \<and> slots_fine (tp_slots pool)
        \<and> map fst (tp_slots pool) @ tp_waiting pool = re_toolCalls (sv_response sv)"
  "stage_tidy ms (AwaitRunError r e)"
  by (simp_all add: stage_tidy_def)

definition all_tidy :: "loop_state \<Rightarrow> bool" where
  "all_tidy s \<longleftrightarrow> tidy (lp_agent s) \<and> stage_tidy (talk (lp_agent s)) (lp_stage s)"

lemma tidy_same: "loop_part a = loop_part b \<Longrightarrow> tidy a = tidy b" "loop_part a = loop_part b \<Longrightarrow> talk a = talk b"
  by (simp_all add: tidy_def talk_def loop_part_def)

lemma tidy_emit [simp]: "\<not> is_request ev \<Longrightarrow> tidy (emit ev a) = tidy a" "talk (emit ev a) = talk a"
  by (simp_all add: tidy_def talk_def)

lemma tidy_request [simp]: "answered_but {} ms \<Longrightarrow> tidy (emit (ModelRequested c ms sys ts) a) = tidy a"
  by (auto simp: tidy_def)

lemma tidy_append [simp]: "tidy (append_message now m meta a) = tidy a" "talk (append_message now m meta a) = talk a @ [m]"
  by (simp_all add: tidy_def talk_def)

lemma tidy_updates [simp]:
  "tidy (a\<lparr>ag_running := b\<rparr>) = tidy a" "tidy (a\<lparr>ag_reports := rs\<rparr>) = tidy a" "tidy (a\<lparr>ag_consecutive := k\<rparr>) = tidy a"
  "tidy (a\<lparr>ag_running := b, ag_reports := rs\<rparr>) = tidy a"
  "tidy (a\<lparr>ag_running := b, ag_stopRequested := c, ag_searches := k\<rparr>) = tidy a"
  "talk (a\<lparr>ag_consecutive := k\<rparr>) = talk a"
  by (simp_all add: tidy_def talk_def sent_def)

lemma all_tidy_go [simp]: "all_tidy (go st a s) \<longleftrightarrow> tidy a \<and> stage_tidy (talk a) st"
  by (simp add: all_tidy_def go_def)

lemma all_tidy_stage [simp]: "all_tidy (s\<lparr>lp_stage := st\<rparr>) \<longleftrightarrow> tidy (lp_agent s) \<and> stage_tidy (talk (lp_agent s)) st"
  by (simp add: all_tidy_def)

lemma all_tidy_stage_agent [simp]: "all_tidy (s\<lparr>lp_stage := st, lp_agent := a\<rparr>) \<longleftrightarrow> tidy a \<and> stage_tidy (talk a) st"
  by (simp add: all_tidy_def)

lemma all_tidy_settle [simp]: "all_tidy (settle_call c res s) = all_tidy s"
  by (simp add: all_tidy_def settle_call_def)

lemma tidy_finish [simp]: "tidy (lp_agent s) \<Longrightarrow> all_tidy (finish_run now reason trip err r s)"
  by (simp add: finish_run_def all_tidy_def Let_def)

lemma tidy_error [simp]: "tidy (lp_agent s) \<Longrightarrow> all_tidy (recordRunError e r s)"
  by (simp add: recordRunError_def)

lemma tidy_enter [simp]: "tidy (lp_agent s) \<Longrightarrow> answered_but {} (talk (lp_agent s)) \<Longrightarrow> all_tidy (enter_step now r s)"
  by (simp add: enter_step_def)

lemma tidy_call [simp]: "tidy (lp_agent s) \<Longrightarrow> answered_but {} (talk (lp_agent s)) \<Longrightarrow> answered_but {} (rq_messages req)
    \<Longrightarrow> all_tidy (call_model r req i s)"
  by (simp add: call_model_def)

lemma tidy_request_model [simp]:
  "tidy (lp_agent s) \<Longrightarrow> answered_but {} (talk (lp_agent s)) \<Longrightarrow> all_tidy (request_model r sys s)"
  by (simp add: request_model_def Let_def talk_def)

lemma tidy_guards [simp]:
  "tidy (lp_agent s) \<Longrightarrow> answered_but {} (talk (lp_agent s)) \<Longrightarrow> all_tidy (runInputGuardrails r sys gs s)"
  "tidy (lp_agent s) \<Longrightarrow> answered_but {} (talk (lp_agent s)) \<Longrightarrow> all_tidy (start_step now r s)"
  by (simp_all add: runInputGuardrails_def start_step_def)

lemma tidy_failed [simp]:
  "tidy (lp_agent s) \<Longrightarrow> answered_but {} (talk (lp_agent s)) \<Longrightarrow> answered_but {} (rq_messages req)
   \<Longrightarrow> all_tidy (model_failed r req i e s)"
  by (simp add: model_failed_def Let_def)

lemma tidy_accept [simp]:
  assumes "tidy (lp_agent s)" "answered_but {} (talk (lp_agent s))" "coherent (sv_response sv)"
  shows "all_tidy (accept_response now fresh r sv s)"
proof -
  have "answered_but (open_ids sv) (talk (lp_agent s) @ [buildAssistantMessage now fresh (sv_response sv) (sv_by sv)])"
    by (rule answered_but_append[OF answered_but_mono[OF assms(2)]])
      (use assms(3) in \<open>simp_all add: buildAssistantMessage_def ids_of_parts part_list_def coherent_def open_ids_def Let_def\<close>)
  then show ?thesis using assms(1) by (simp add: accept_response_def Let_def)
qed

lemma tidy_answered [simp]:
  "tidy (lp_agent s) \<Longrightarrow> answered_but {} (talk (lp_agent s)) \<Longrightarrow> coherent x \<Longrightarrow> all_tidy (model_answered now fresh r c x s)"
  by (simp add: model_answered_def Let_def split: option.split)

lemma tidy_retry [simp]:
  "tidy (lp_agent s) \<Longrightarrow> answered_but {} (talk (lp_agent s)) \<Longrightarrow> coherent (sv_response sv)
   \<Longrightarrow> all_tidy (after_retry_warning now fresh r sv attempt p s)"
  by (simp add: after_retry_warning_def Let_def answered_but_plain)

lemma tidy_close:
  assumes "tidy (lp_agent s)" "has \<longrightarrow> answered_but (open_ids sv) (talk (lp_agent s)) \<and> open_ids sv \<subseteq> set (answers_in results)"
  shows "all_tidy (close_step now r sv has reports results s)"
proof (cases has)
  case True
  then have "answered_but {} (talk (lp_agent s) @ [new_message Tool (ContentParts results)])"
    using assms(2) by (intro answered_but_results[of "open_ids sv"]) (simp_all, simp add: new_message_def)
  then show ?thesis using True assms(1) by (simp add: close_step_def Let_def)
qed (use assms in \<open>simp add: close_step_def Let_def\<close>)

lemma tidy_pool:
  assumes "tidy (lp_agent s)" "answered_but (open_ids sv) (talk (lp_agent s))" "slots_fine (tp_slots pool)"
    "map fst (tp_slots pool) @ tp_waiting pool = re_toolCalls (sv_response sv)"
  shows "all_tidy (advance_pool now r sv pool s)"
proof -
  obtain slots waiting a reports
    where p: "start_calls (tp_waiting pool) (tp_slots pool) (lp_agent s, tp_reports pool) = (slots, waiting, a, reports)"
    by (metis surj_pair)
  then have "loop_part a = loop_part (lp_agent s)"
    using loop_part_start_calls[of "tp_waiting pool" "tp_slots pool" "(lp_agent s, tp_reports pool)"] by simp
  then have a: "tidy a" "talk a = talk (lp_agent s)" using tidy_same assms(1) by blast+
  have f: "slots_fine slots" "map fst slots @ waiting = re_toolCalls (sv_response sv)"
    "list_all (\<lambda>(tc, st). settled st) slots \<Longrightarrow> waiting = []"
    using start_calls_fine[OF assms(3) p] assms(4) by simp_all
  have "all_tidy (close_step now r sv True reports (answers slots) (s\<lparr>lp_agent := a\<rparr>))" if "list_all (\<lambda>(tc, st). settled st) slots"
  proof (rule tidy_close)
    have "open_ids sv = set (map (ca_id \<circ> fst) slots)" using f(2,3) that by (simp add: open_ids_def flip: f(2))
    then show "True \<longrightarrow> answered_but (open_ids sv) (talk (lp_agent (s\<lparr>lp_agent := a\<rparr>))) \<and> open_ids sv \<subseteq> set (answers_in (answers slots))"
      using a(2) assms(2) answers_of_slots[OF f(1) that] by simp
  qed (use a in simp)
  then show ?thesis using p a f assms by (simp add: advance_pool_def)
qed

lemma tidy_tools:
  assumes "tidy (lp_agent s)" "answered_but (open_ids sv) (talk (lp_agent s))"
  shows "all_tidy (executeToolCalls now r sv s)"
proof -
  obtain slots a reports where p: "start_every (re_toolCalls (sv_response sv)) [] (lp_agent s, []) = (slots, a, reports)"
    by (metis surj_pair)
  then have "loop_part a = loop_part (lp_agent s)"
    using loop_part_start_every[of "re_toolCalls (sv_response sv)" "[]" "(lp_agent s, [])"] by simp
  then have a: "tidy a" "talk a = talk (lp_agent s)" using tidy_same assms(1) by blast+
  have "slots_fine slots \<and> map fst slots = re_toolCalls (sv_response sv)"
    using start_every_fine[OF _ p] by (simp add: slots_fine_def)
  then show ?thesis using p a assms
    by (auto simp: executeToolCalls_def Let_def slots_fine_def intro!: tidy_pool)
qed

lemma tidy_outputs:
  assumes "tidy (lp_agent s)" "has \<longrightarrow> answered_but (open_ids sv) (talk (lp_agent s))"
  shows "all_tidy (after_output_guards now r sv has s)" "all_tidy (runOutputGuardrails now r sv has gs s)"
proof -
  show o: "all_tidy (after_output_guards now r sv has s)"
    using assms tidy_tools tidy_close[of s False sv] by (simp add: after_output_guards_def)
  show "all_tidy (runOutputGuardrails now r sv has gs s)"
    using assms o by (simp add: runOutputGuardrails_def)
qed

lemma tidy_tool_answered:
  assumes "lp_stage s = AwaitTools r sv pool" "all_tidy s"
  shows "all_tidy (tool_answered now r sv pool k ans s)"
proof (cases "k < length (tp_slots pool)")
  case True
  have t: "tidy (lp_agent s)" "answered_but (open_ids sv) (talk (lp_agent s))" "slots_fine (tp_slots pool)"
    "map fst (tp_slots pool) @ tp_waiting pool = re_toolCalls (sv_response sv)"
    using assms by (simp_all add: all_tidy_def)
  obtain tc st where c: "tp_slots pool ! k = (tc, st)" by force
  obtain st1 a reports
    where p: "tool_step now (rn_id r) (rn_stepCount r) tc ans st (lp_agent s, tp_reports pool) = (st1, a, reports)"
    by (metis surj_pair)
  then have "loop_part a = loop_part (lp_agent s)"
    using loop_part_tool_step[of now "rn_id r" "rn_stepCount r" tc ans st "(lp_agent s, tp_reports pool)"] by simp
  then have a: "tidy a" "talk a = talk (lp_agent s)" using tidy_same t(1) by blast+
  have "fine tc st" using t(3) True c by (auto simp: slots_fine_def list_all_length dest: spec[of _ k])
  then have f: "fine tc st1" if "\<And>e. st1 \<noteq> Rejected e" using fine_step[OF _ _ that] p by (metis fst_conv)
  have m: "map fst ((tp_slots pool)[k := (tc, st1)]) = map fst (tp_slots pool)"
    using True c by (simp add: map_update list_update_same_conv)
  have "all_tidy (advance_pool now r sv (pool\<lparr>tp_slots := (tp_slots pool)[k := (tc, st1)], tp_reports := reports\<rparr>) (s\<lparr>lp_agent := a\<rparr>))"
    if "\<And>e. st1 \<noteq> Rejected e"
    by (rule tidy_pool) (use a t slots_fine_update[OF t(3) f[OF that]] m in simp_all)
  then show ?thesis using True c p a by (cases st1) (simp_all add: tool_answered_def Let_def)
qed (simp add: tool_answered_def assms)

lemma tidy_apply_thunk [simp]: "tidy (apply_thunk now v a) = tidy a" "talk (apply_thunk now v a) = talk a"
  by (simp_all add: tidy_def talk_def) (simp add: apply_thunk_def set_agent_system_def)

lemma tidy_admit [simp]: "tidy a \<Longrightarrow> tidy (admit_input now i a)"
  by (simp add: tidy_def)

lemma tidy_reply:
  assumes "all_tidy s" "\<And>x. ans = ModelReturned x \<Longrightarrow> coherent x"
  shows "all_tidy (run_reply now fresh ans s)"
proof -
  have t: "tidy (lp_agent s)" "stage_tidy (talk (lp_agent s)) (lp_stage s)" using assms(1) by (simp_all add: all_tidy_def)
  then have "\<forall>m\<in>set (inputMessages i). plain m \<Longrightarrow> answered_but {} (talk (admit_input now i (lp_agent s)))" for i
    unfolding talk_def using admit_answers[of i "lp_agent s"] by (simp add: tidy_def)
  then show ?thesis
    by (cases "lp_stage s") (use t assms in \<open>auto simp: run_reply_def begin_run_def new_run_def fail_start_def guardrail_tripped_def
        intro: tidy_outputs split: run_answer.split option.split\<close>)
qed

text \<open>What the host and the outside have to keep to: input without open calls, and responses that list their calls.\<close>

definition fair :: "loop_event \<Rightarrow> bool" where
  "fair ev \<longleftrightarrow> (case ev of
      Complete _ i _ \<Rightarrow> \<forall>m\<in>set (inputMessages i). plain m
    | Host (HAddInput i) \<Rightarrow> \<forall>m\<in>set (inputMessages i). plain m
    | Reply (ModelReturned x) \<Rightarrow> coherent x
    | _ \<Rightarrow> True)"

lemma tidy_host:
  assumes "tidy a" "fair (Host h)"
  shows "tidy (host_step now h a)" "talk (host_step now h a) = talk a"
proof -
  show "talk (host_step now h a) = talk a" by (simp add: talk_def)
  have "\<forall>m\<in>set (ag_pendingInput (host_step now h a)). plain m"
  proof (cases h)
    case (HAddInput i)
    then show ?thesis using assms by (auto simp: host_step_def addInput_def tidy_def fair_def)
  next
    case (HAddTool t)
    have k: "ag_pendingInput (fst (put_tool t a)) = ag_pendingInput a" for t a by (simp add: put_tool_def Let_def)
    have ks: "ag_pendingInput (fst (put_tools ts a)) = ag_pendingInput a" for ts a
    proof (induction ts arbitrary: a)
      case (Cons t ts)
      then show ?case using k[of t a] by (cases "put_tool t a") (simp split: option.split)
    qed simp
    have i: "ag_pendingInput (fst (installLazyTools now a)) = ag_pendingInput a" for a
      using ks[of lazy_tools "a\<lparr>ag_lazyInstalled := True\<rparr>"]
      by (cases "put_tools lazy_tools (a\<lparr>ag_lazyInstalled := True\<rparr>)")
        (simp add: installLazyTools_def syncLazyProtocol_def split: option.split)
    have "ag_pendingInput (fst (registerTool now t a)) = ag_pendingInput a"
      using k[of t a] i by (cases "put_tool t a") (simp add: registerTool_def split: option.split)
    then show ?thesis using HAddTool assms(1) by (simp add: host_step_def addTool_def tidy_def)
  qed (use assms(1) in \<open>auto simp: host_step_def tidy_def stop_def clearPendingInput_def removeTool_def set_agent_system_def
         set_agent_context_def resumeWithApproval_def split: option.split\<close>)
  then show "tidy (host_step now h a)" using assms(1) by (simp add: tidy_def)
qed

lemma tidy_step:
  assumes "all_tidy s" "fair ev"
  shows "all_tidy (loop_step now fresh ev s)"
proof -
  have t: "tidy (lp_agent s)" "stage_tidy (talk (lp_agent s)) (lp_stage s)" using assms(1) by (simp_all add: all_tidy_def)
  show ?thesis
  proof (cases ev)
    case (Complete c i op)
    have "talk ((lp_agent s)\<lparr>ag_running := True, ag_stopRequested := False, ag_searches := 0\<rparr>) = talk (lp_agent s)" by (simp add: talk_def)
    then show ?thesis using Complete assms t
      by (simp add: loop_step_def beginRun_def begin_run_def new_run_def fair_def Let_def)
  next
    case (Reply ans)
    then have "coherent x" if "ans = ModelReturned x" for x using that assms(2) by (simp add: fair_def)
    then show ?thesis using Reply tidy_reply[OF assms(1)] by (simp add: loop_step_def)
  next
    case (ToolReply k ans)
    then show ?thesis using tidy_tool_answered[OF _ assms(1)] assms(1) by (simp add: loop_step_def split: run_stage.split)
  next
    case (BackgroundReply k ans)
    obtain rid n tc st where g: "lp_background s ! k = (rid, n, tc, st)" by (metis surj_pair)
    obtain st1 a reports where p: "tool_step now rid n tc ans st (lp_agent s, []) = (st1, a, reports)" by (metis surj_pair)
    then have "loop_part a = loop_part (lp_agent s)" using loop_part_tool_step[of now rid n tc ans st "(lp_agent s, [])"] by simp
    then have "tidy a" "talk a = talk (lp_agent s)" using tidy_same t(1) by blast+
    then show ?thesis using t BackgroundReply g p assms(1) by (simp add: loop_step_def background_step_def all_tidy_def)
  next
    case (ClosingReply k err)
    then show ?thesis using assms(1)
      by (simp add: loop_step_def closing_step_def all_tidy_def settle_call_def split: prod.split)
  next
    case (Host h)
    then show ?thesis using t tidy_host[OF t(1), of h now] assms(2) by (simp add: loop_step_def all_tidy_def)
  qed
qed

text \<open>C6: No model ever gets a conversation with an open tool call. Whatever the conversation looked like when the loop
  started (an earlier run may have ended between a call and its result), whatever the tools, hooks, guardrails and models
  answer and whenever a run fails, stops or is tripped: in every request, each tool call of an assistant message has
  a result with its id. It is required that responses list the calls they contain and that the host adds no open calls.\<close>
theorem requests_leave_no_call_open:
  assumes "sent a = []" "\<forall>m\<in>set (ag_pendingInput a). msg_role m = Assistant \<longrightarrow> call_ids m = []"
    and "\<forall>(now, fresh, ev) \<in> set evs. fair ev"
    and "ModelRequested c ms sys ts \<in> set (ag_log (lp_agent (loop_run evs (loop_start a))))"
    and "m \<in> set ms" "msg_role m = Assistant" "i \<in> set (call_ids m)"
  shows "\<exists>m'\<in>set ms. i \<in> set (result_ids m')"
proof -
  have "all_tidy s \<Longrightarrow> \<forall>(now, fresh, ev) \<in> set evs. fair ev \<Longrightarrow> all_tidy (loop_run evs s)" for s evs
  proof (induction evs arbitrary: s)
    case (Cons e evs)
    then show ?case using tidy_step by (cases e) simp
  qed simp
  moreover have "all_tidy (loop_start a)" using assms(1,2) by (simp add: all_tidy_def tidy_def loop_start_def plain_def)
  ultimately have "tidy (lp_agent (loop_run evs (loop_start a)))" using assms(3) by (simp add: all_tidy_def)
  then have "answered_but {} ms" using assms(4) by (auto simp: tidy_def sent_def)
  then show ?thesis using assms(5,6,7) by (auto simp: answered_but_def results_in_def)
qed

text \<open>A conversation restored with an open call, and the request of the next run.\<close>

definition broken_agent :: agent where
  "broken_agent = append_message 0 (new_message Assistant (ContentParts [call_part sample_call])) None
     ((sample_agent None)\<lparr>ag_config := (sample_config None)\<lparr>gc_clientChain := [\<lparr> cl_provider = ''p'', cl_model = ''m'', cl_api = ''a'' \<rparr>]\<rparr>\<rparr>)"

definition broken_events :: "(ms \<times> string \<times> loop_event) list" where
  "broken_events = [(0, ''r'', Complete 7 (InputText ''hi'') \<lparr> op_system = Some ''s'', op_tools = None \<rparr>),
     (1, ''r1'', Reply RunHookDone), (2, ''r2'', Reply RunHookDone)]"

lemma start_step_requests:
  "guards_of InputGuard (lp_agent s) = []
   \<Longrightarrow> \<exists>c sys ts. ModelRequested c (talk (lp_agent s)) sys ts \<in> set (ag_log (lp_agent (start_step now r s)))"
  by (auto simp: start_step_def runInputGuardrails_def request_model_def call_model_def go_def emit_def talk_def Let_def)

lemma admit_keeps_said: "m \<in> set (messages (ag_history a)) \<Longrightarrow> m \<in> set (messages (ag_history (admit_input now i a)))"
  by (simp add: admit_input_def repairUnansweredToolCalls_def Let_def)

lemma requests_leave_no_call_open_witness:
  "\<exists>c ms sys ts m'. ModelRequested c ms sys ts \<in> set (ag_log (lp_agent (loop_run broken_events (loop_start broken_agent))))
     \<and> m' \<in> set ms \<and> ''c1'' \<in> set (result_ids m')"
proof -
  let ?m = "new_message Assistant (ContentParts [call_part sample_call])"
  have m0: "messages (ag_history broken_agent) = [?m]"
    by (simp add: broken_agent_def) (simp add: sample_defs messages_def new_history_def blank_history_def)
  have r: "\<not> ag_running broken_agent" "\<not> gc_hasSystemThunk (ag_config broken_agent)" "gc_guardrails (ag_config broken_agent) = []"
    by (simp_all add: broken_agent_def) (simp_all add: sample_defs)
  have "\<exists>r s. loop_run broken_events (loop_start broken_agent) = start_step 2 r s \<and> ?m \<in> set (talk (lp_agent s))
      \<and> guards_of InputGuard (lp_agent s) = []"
  proof (intro exI conjI)
    let ?a = "emit (RunStarted ''r'' (toolNames (broken_agent\<lparr>ag_running := True, ag_stopRequested := False, ag_searches := 0\<rparr>))
        (history_length (ag_history broken_agent))) (broken_agent\<lparr>ag_running := True, ag_stopRequested := False, ag_searches := 0\<rparr>)"
    let ?r = "new_run 0 ''r'' 7 (InputText ''hi'') \<lparr> op_system = Some ''s'', op_tools = None \<rparr>"
    let ?s0 = "go (AwaitRunStart ?r) ?a (loop_start broken_agent)"
    let ?s = "enter_step 1 ?r (?s0\<lparr>lp_agent := admit_input 1 (InputText ''hi'') ?a\<rparr>)"
    have st: "\<not> ag_stopRequested (admit_input 1 (InputText ''hi'') ?a)"
      by (simp add: admit_input_def repairUnansweredToolCalls_def Let_def)
    then have e: "lp_stage ?s = AwaitStepStart ?r" "lp_agent ?s = emit (StepStarted ''r'' 0 False
        (history_length (ag_history (admit_input 1 (InputText ''hi'') ?a)))) (admit_input 1 (InputText ''hi'') ?a)"
      by (simp_all add: enter_step_def go_def) (simp_all add: new_run_def)
    show "loop_run broken_events (loop_start broken_agent) = start_step 2 ?r ?s"
      using r e(1) by (simp add: broken_events_def loop_step_def beginRun_def begin_run_def run_reply_def loop_start_def go_def Let_def)
        (simp add: new_run_def)
    show "?m \<in> set (talk (lp_agent ?s))" using m0 by (simp add: e(2) talk_def admit_keeps_said)
    show "guards_of InputGuard (lp_agent ?s) = []" using r(3) by (simp add: e(2) guards_of_def)
  qed
  then obtain c ms sys ts where q: "ModelRequested c ms sys ts \<in> set (ag_log (lp_agent (loop_run broken_events (loop_start broken_agent))))"
      "?m \<in> set ms"
    using start_step_requests by metis
  have s: "sent broken_agent = []" "ag_pendingInput broken_agent = []"
    by (simp_all add: broken_agent_def) (simp_all add: sample_defs sent_def)
  have f: "\<forall>(now, fresh, ev) \<in> set broken_events. fair ev" by (simp add: broken_events_def fair_def inputMessages_def)
  have "''c1'' \<in> set (call_ids ?m)" "msg_role ?m = Assistant" by (simp_all add: call_part_def sample_call_def) (simp add: new_message_def)
  then show ?thesis using requests_leave_no_call_open[OF s(1) _ f q(1) q(2)] s(2) q(1) by fastforce
qed

end
