(* ===== verification/AgentResume.thy ===== *)
theory AgentResume
  imports AgentRuns
begin

text \<open>
  Stopping an agent and bringing it back: what \<open>dump\<close> and \<open>restore\<close> keep, and what an approval fed back is bound to.
\<close>

section \<open>Dump and restore\<close>

text \<open>What the constructor does not touch after it has taken it from its arguments.\<close>

definition kept :: "agent \<Rightarrow> string \<times> message list \<times> string \<times> string \<times> bool \<times> prefed_approval dict \<times> agent_config" where
  "kept a = (ag_id a, messages (ag_history a), ag_system a, ag_context a, ag_running a, ag_prefedApprovals a, ag_config a)"

lemma kept_emit [simp]: "kept (emit ev a) = kept a"
  by (simp add: kept_def) (simp add: emit_def)

lemma kept_updates [simp]:
  "kept (a\<lparr>ag_history := (ag_history a)\<lparr>hi_registry := x\<rparr>\<rparr>) = kept a" "kept (a\<lparr>ag_tools := ts\<rparr>) = kept a"
  "kept (a\<lparr>ag_lazyInstalled := b\<rparr>) = kept a"
  by (simp_all add: kept_def messages_def)

lemma kept_put [simp]: "kept (fst (put_tool t a)) = kept a"
  by (simp add: put_tool_def Let_def)

lemma kept_puts [simp]: "kept (fst (put_tools ts a)) = kept a"
proof (induction ts arbitrary: a)
  case (Cons t ts)
  then show ?case using kept_put[of t a] by (cases "put_tool t a") (simp split: option.split)
qed simp

lemma kept_sync [simp]: "kept (syncLazyProtocol now a) = kept a"
  by (simp add: syncLazyProtocol_def)

lemma kept_install [simp]: "kept (fst (installLazyTools now a)) = kept a"
proof (cases "put_tools lazy_tools (a\<lparr>ag_lazyInstalled := True\<rparr>)")
  case (Pair a1 e)
  then have "kept a1 = kept a" using kept_puts[of lazy_tools "a\<lparr>ag_lazyInstalled := True\<rparr>"] by simp
  then show ?thesis using Pair by (simp add: installLazyTools_def split: option.split)
qed

lemma kept_register [simp]: "kept (fst (registerTool now t a)) = kept a"
proof (cases "put_tool t a")
  case (Pair a1 e)
  then have "kept a1 = kept a" using kept_put[of t a] by simp
  then show ?thesis using Pair by (simp add: registerTool_def split: option.split)
qed

lemma kept_register_all [simp]: "kept (fst (register_all now ts a)) = kept a"
proof (induction ts arbitrary: a)
  case (Cons t ts)
  then show ?case using kept_register[of now t a] by (cases "registerTool now t a") (simp split: option.split)
qed simp

lemma new_agent_kept:
  assumes "new_agent now config sys ctx tools h = Inr a"
  shows "kept a = (hi_id h, messages h, if gc_hasSystemThunk config then [] else sys, ctx, False, [], config)"
proof -
  obtain a1 where r: "register_all now tools (blank_agent config (if gc_hasSystemThunk config then [] else sys) ctx h) = (a1, None)"
    and a: "a = emit (AgentCreated (ag_id a1)) (syncLazyProtocol now (set_agent_context now (ag_context a1) (set_agent_system now (ag_system a1) a1)))"
    using assms by (auto simp: new_agent_def split: prod.splits option.splits)
  have k: "kept a1 = (hi_id h, messages h, if gc_hasSystemThunk config then [] else sys, ctx, False, [], config)"
    using kept_register_all[of now tools "blank_agent config (if gc_hasSystemThunk config then [] else sys) ctx h"] r
    by (simp add: kept_def blank_agent_def)
  have "kept (set_agent_context now (ag_context a1) (set_agent_system now (ag_system a1) a1)) = kept a1"
    by (simp add: kept_def set_agent_context_def set_agent_system_def messages_def)
  then show ?thesis using a k by simp
qed

lemma copy_layers_kept: "messages ((import_history clock snap)) = map he_message (hs_entries snap)" "hi_id (import_history clock snap) = hs_id snap"
  by (auto simp: import_history_def blank_history_def messages_def set_system_def Let_def split: option.split)

text \<open>C17: An agent that was dumped and restored goes on where it was: the same conversation under the same id, the same
  stored system text and context, reports, metadata, calls waiting for approval and staged input; it is not running.
  (The layers the system prompt is rendered from are copied with new times, so those of one priority may render in
  another order: \<open>import_reorders_system_prompt\<close> in \<open>History\<close>.) A decision fed back to it is bound to the tool and the
  fingerprint written down when the approval was asked for.\<close>
theorem restore_resumes_dump:
  assumes "restore clock (dump now a) (restored_config chain kinds policy approver checkpoint) tools = Inr b"
  shows "messages (ag_history b) = messages (ag_history a) \<and> ag_id b = hi_id (ag_history a)
    \<and> ag_system b = ag_system a \<and> ag_context b = ag_context a \<and> ag_reports b = ag_reports a \<and> ag_metadata b = ag_metadata a
    \<and> ag_pendingToolCalls b = ag_pendingToolCalls a \<and> ag_pendingInput b = ag_pendingInput a \<and> \<not> ag_running b
    \<and> (\<forall>i d. map_of (ag_prefedApprovals (resumeWithApproval i d b)) i =
         map_option (\<lambda>p. \<lparr> pf_decision = d, pf_toolName = pc_toolName p,
             pf_digest = nullish (pc_digest p) (approvalDigest (pc_toolName p) (pc_arguments p)) \<rparr>)
           (find (\<lambda>p. pc_callId p = i) (ag_pendingToolCalls a)))"
proof -
  let ?cfg = "restored_config chain kinds policy approver checkpoint"
  obtain b0 where n: "new_agent (clock 0) ?cfg (ag_system a) (ag_context a) tools (import_history clock (export_history (ag_history a))) = Inr b0"
    and b: "b = b0\<lparr>ag_reports := ag_reports a, ag_metadata := ag_metadata a, ag_pendingToolCalls := ag_pendingToolCalls a,
      ag_pendingInput := ag_pendingInput a, ag_log := ag_log b0 @ tool_changes (toolNames a) (map toolKey tools)\<rparr>"
    using assms by (auto simp: restore_def dump_def split: sum.splits if_splits)
  have k: "kept b0 = (hi_id (ag_history a), messages (ag_history a), ag_system a, ag_context a, False, [], ?cfg)"
    using new_agent_kept[OF n] by (simp add: copy_layers_kept export_history_def restored_config_def messages_def[of "ag_history a"])
  then have "ag_prefedApprovals b = []" by (simp add: b kept_def)
  then have "map_of (ag_prefedApprovals (resumeWithApproval i d b)) i =
      map_option (\<lambda>p. \<lparr> pf_decision = d, pf_toolName = pc_toolName p,
          pf_digest = nullish (pc_digest p) (approvalDigest (pc_toolName p) (pc_arguments p)) \<rparr>)
        (find (\<lambda>p. pc_callId p = i) (ag_pendingToolCalls b))" for i d
    by (simp add: resumeWithApproval_def emit_def split: option.split)
  then show ?thesis using k by (simp add: b kept_def)
qed

text \<open>An agent that waits for the approval of a call, with a message staged meanwhile.\<close>

definition waiting_agent :: agent where
  "waiting_agent = (append_message 0 (new_message Assistant (ContentParts [call_part sample_call])) None (sample_agent None))
     \<lparr>ag_pendingToolCalls := [\<lparr> pc_callId = ''c1'', pc_toolName = ''rm'', pc_arguments = ca_arguments sample_call, pc_step = 0,
        pc_requestedAt = 1, pc_runId = ''r'', pc_digest = Some ''f00d'' \<rparr>],
      ag_pendingInput := [new_message User (ContentText ''also this'')]\<rparr>"

lemma restore_resumes_dump_witness:
  "\<exists>b. restore (\<lambda>n. 5) (dump 3 waiting_agent) (restored_config [] None None True False) [sample_tool] = Inr b
     \<and> ag_id b = ''h'' \<and> \<not> ag_running b
     \<and> messages (ag_history b) = [new_message Assistant (ContentParts [call_part sample_call])]
     \<and> ag_pendingInput b = [new_message User (ContentText ''also this'')]
     \<and> map_of (ag_prefedApprovals (resumeWithApproval ''c1'' approve_it b)) ''c1''
         = Some \<lparr> pf_decision = approve_it, pf_toolName = ''rm'', pf_digest = ''f00d'' \<rparr>"
proof -
  let ?cfg = "restored_config [] None None True False"
  have "\<exists>b. restore (\<lambda>n. 5) (dump 3 waiting_agent) ?cfg [sample_tool] = Inr b"
    by (simp add: restore_def dump_def new_agent_def registerTool_def put_tool_def blank_agent_def sample_tool_def Let_def)
  then obtain b where b: "restore (\<lambda>n. 5) (dump 3 waiting_agent) ?cfg [sample_tool] = Inr b" by blast
  have "hi_id (ag_history waiting_agent) = ''h''" by code_simp
  moreover have "messages (ag_history waiting_agent) = [new_message Assistant (ContentParts [call_part sample_call])]"
    by (simp add: waiting_agent_def) (simp add: sample_agent_def blank_agent_def messages_def new_history_def blank_history_def)
  moreover have "ag_pendingInput waiting_agent = [new_message User (ContentText ''also this'')]"
    "find (\<lambda>p. pc_callId p = ''c1'') (ag_pendingToolCalls waiting_agent)
      = Some \<lparr> pc_callId = ''c1'', pc_toolName = ''rm'', pc_arguments = ca_arguments sample_call, pc_step = 0,
          pc_requestedAt = 1, pc_runId = ''r'', pc_digest = Some ''f00d'' \<rparr>"
    by (simp_all add: waiting_agent_def)
  ultimately show ?thesis using restore_resumes_dump[OF b] b by (auto simp: nullish_def)
qed

end
