(* ===== verification/UrlGuard.thy ===== *)
theory UrlGuard
  imports Http "HOL-Library.Word"
begin

text \<open>
  \<open>src/plugins/mcp/url-guard.ts\<close>: the guard that every endpoint discovered from an MCP server has to pass before it is
  contacted. \<open>new URL\<close> is the runtime's parser, a parameter; the addresses are 32-bit words as in the code.
\<close>

unbundle bit_operations_syntax

section \<open>Addresses\<close>

definition LOOPBACK_HOSTNAMES :: "string set" where
  "LOOPBACK_HOSTNAMES = {''localhost'', ''0.0.0.0'', ''ip6-localhost'', ''ip6-loopback''}"

definition IPV6_LOOPBACK_LITERALS :: "string set" where
  "IPV6_LOOPBACK_LITERALS = {''::1'', ''::'', ''0:0:0:0:0:0:0:1'', ''0:0:0:0:0:0:0:0''}"

definition IPV6_PRIVATE_PREFIXES :: "string list" where
  "IPV6_PRIVATE_PREFIXES = [''fc'', ''fd'', ''fe80'', ''fec0'', ''ff'', ''64:ff9b'', ''::ffff:'']"

definition radix_digit :: "char \<Rightarrow> nat" where
  "radix_digit c = (let n = code_unit c in
     if 48 \<le> n \<and> n \<le> 57 then n - 48
     else if 97 \<le> n \<and> n \<le> 122 then n - 87
     else if 65 \<le> n \<and> n \<le> 90 then n - 55 else 36)"

definition radix_val :: "nat \<Rightarrow> string \<Rightarrow> nat" where
  "radix_val r s = foldl (\<lambda>n c. r * n + radix_digit c) 0 s"

text \<open>\<open>parseInt(s, radix)\<close> for the radices 8, 10 and 16; \<open>None\<close> is NaN.\<close>

definition parseInt :: "nat \<Rightarrow> string \<Rightarrow> int option" where
  "parseInt radix s =
     (let t = dropWhile is_space s;
          neg = (t \<noteq> [] \<and> hd t = CHR ''-'');
          u = (if t \<noteq> [] \<and> (hd t = CHR ''-'' \<or> hd t = CHR ''+'') then tl t else t);
          v = (if radix = 16 \<and> (starts_with u ''0x'' \<or> starts_with u ''0X'') then drop 2 u else u);
          ds = takeWhile (\<lambda>c. radix_digit c < radix) v
      in if ds = [] then None else Some ((if neg then - 1 else 1) * int (radix_val radix ds)))"

definition MAX_IPV4_INT :: nat where "MAX_IPV4_INT = 0xffffffff"

definition parseIpv4Part :: "string \<Rightarrow> nat option" where
  "parseIpv4Part part =
     (if part = [] then None
      else let val = (if starts_with part ''0x'' \<or> starts_with part ''0X'' then parseInt 16 part
                      else if starts_with part ''0'' \<and> length part > 1 then parseInt 8 part
                      else parseInt 10 part)
           in case val of None \<Rightarrow> None | Some v \<Rightarrow> if v < 0 then None else Some (nat v))"

type_synonym octets = "nat \<times> nat \<times> nat \<times> nat"

definition octets_of :: "32 word \<Rightarrow> octets" where
  "octets_of a = (unat (drop_bit 24 a AND 0xff), unat (drop_bit 16 a AND 0xff), unat (drop_bit 8 a AND 0xff), unat (a AND 0xff))"

fun address :: "nat list \<Rightarrow> 32 word option" where
  "address [a] = (if a > MAX_IPV4_INT then None else Some (word_of_nat a))"
| "address [a, b] = (if a > 255 \<or> b > 0xffffff then None else Some (push_bit 24 (word_of_nat a) OR word_of_nat b))"
| "address [a, b, c] =
     (if a > 255 \<or> b > 255 \<or> c > 0xffff then None
      else Some (push_bit 24 (word_of_nat a) OR push_bit 16 (word_of_nat b) OR word_of_nat c))"
| "address [a, b, c, d] =
     (if a > 255 \<or> b > 255 \<or> c > 255 \<or> d > 255 then None
      else Some (push_bit 24 (word_of_nat a) OR push_bit 16 (word_of_nat b) OR push_bit 8 (word_of_nat c) OR word_of_nat d))"
| "address _ = None"

definition parseCanonicalIpv4 :: "string \<Rightarrow> octets option" where
  "parseCanonicalIpv4 host =
     (let parts = split_on (CHR ''.'') host; parsed = map parseIpv4Part parts in
      if length parts > 4 \<or> None \<in> set parsed then None
      else map_option octets_of (address (map the parsed)))"

definition isPrivateIpv4 :: "string \<Rightarrow> bool" where
  "isPrivateIpv4 host =
     (case parseCanonicalIpv4 host of
        None \<Rightarrow> False
      | Some (a, b, c, _) \<Rightarrow>
          a = 0 \<or> a = 10 \<or> a = 127 \<or> (a = 100 \<and> b \<ge> 64 \<and> b \<le> 127) \<or> (a = 169 \<and> b = 254)
          \<or> (a = 172 \<and> b \<ge> 16 \<and> b \<le> 31) \<or> (a = 192 \<and> b = 0 \<and> c = 0) \<or> (a = 192 \<and> b = 0 \<and> c = 2)
          \<or> (a = 192 \<and> b = 168) \<or> (a = 198 \<and> b = 18) \<or> (a = 198 \<and> b = 19) \<or> (a = 198 \<and> b = 51 \<and> c = 100)
          \<or> (a = 203 \<and> b = 0 \<and> c = 113) \<or> a \<ge> 240)"

definition isPrivateIpv6 :: "string \<Rightarrow> bool" where
  "isPrivateIpv6 host =
     (let lower = to_lower host in
      lower \<in> IPV6_LOOPBACK_LITERALS \<or> list_ex (starts_with lower) IPV6_PRIVATE_PREFIXES)"

definition isBlockedHost :: "string \<Rightarrow> bool" where
  "isBlockedHost hostname =
     (let lower = to_lower hostname;
          stripped = (if starts_with lower ''['' \<and> ends_with lower '']'' then butlast (tl lower) else lower)
      in lower \<in> LOOPBACK_HOSTNAMES \<or> isPrivateIpv4 stripped
         \<or> (CHR '':'' \<in> set stripped \<and> isPrivateIpv6 stripped))"

section \<open>The guard\<close>

record ssrf_options =
  sf_allowedHosts :: "string list option"
  sf_allowInsecureHttp :: bool
  sf_allowLoopback :: bool

datatype guard_error = McpSsrfError string string | TypeError

type_synonym url_parser = "string \<Rightarrow> string option \<Rightarrow> url option"

definition hostnameOf :: "url_parser \<Rightarrow> string \<Rightarrow> string option" where
  "hostnameOf parse_url urlStr = map_option (\<lambda>u. to_lower (u_hostname u)) (parse_url urlStr None)"

definition quoted :: "string \<Rightarrow> string" where
  "quoted s = CHR 0x22 # s @ [CHR 0x22]"

definition scheme_error :: "string \<Rightarrow> ssrf_options \<Rightarrow> string option" where
  "scheme_error protocol opts =
     (if protocol = ''https:'' then None
      else if \<not> sf_allowInsecureHttp opts then Some (''scheme '' @ quoted protocol @ '' is not allowed; only https: is permitted'')
      else if protocol \<noteq> ''http:'' then
        Some (''scheme '' @ quoted protocol @ '' is not allowed; only https: (or http: with allowInsecureHttp) is permitted'')
      else None)"

definition origin_error :: "string \<Rightarrow> string \<Rightarrow> ssrf_options \<Rightarrow> string option" where
  "origin_error hostname issuerHostname opts =
     (case sf_allowedHosts opts of
        Some (h # hs) \<Rightarrow>
          if hostname \<notin> set (map to_lower (h # hs)) \<and> hostname \<noteq> issuerHostname
          then Some (''host '' @ quoted hostname @ '' is not in the allowedHosts list and does not match the issuer host ''
                 @ quoted issuerHostname)
          else None
      | _ \<Rightarrow>
          if hostname \<noteq> issuerHostname
          then Some (''host '' @ quoted hostname @ '' differs from issuer host '' @ quoted issuerHostname
                 @ ''; supply allowedHosts to permit a separate auth server'')
          else None)"

definition assertSafeAuthUrl :: "url_parser \<Rightarrow> string \<Rightarrow> string \<Rightarrow> ssrf_options \<Rightarrow> guard_error + unit" where
  "assertSafeAuthUrl parse_url url issuerUrl opts =
     (case parse_url url None of
        None \<Rightarrow> Inl (McpSsrfError url ''not a valid URL'')
      | Some parsed \<Rightarrow>
          (case scheme_error (u_protocol parsed) opts of
             Some reason \<Rightarrow> Inl (McpSsrfError url reason)
           | None \<Rightarrow>
               (let hostname = to_lower (u_hostname parsed); hostIsBlocked = isBlockedHost hostname in
                if \<not> sf_allowLoopback opts \<and> hostIsBlocked
                then Inl (McpSsrfError url (''host '' @ quoted hostname @ '' resolves to a loopback, link-local, or private address''))
                else if sf_allowLoopback opts \<and> hostIsBlocked then Inr ()
                else (case hostnameOf parse_url issuerUrl of
                        None \<Rightarrow> Inl TypeError
                      | Some issuerHostname \<Rightarrow>
                          (case origin_error hostname issuerHostname opts of
                             Some reason \<Rightarrow> Inl (McpSsrfError url reason) | None \<Rightarrow> Inr ())))))"

definition SECURE :: ssrf_options where
  "SECURE = \<lparr> sf_allowedHosts = None, sf_allowInsecureHttp = False, sf_allowLoopback = False \<rparr>"

section \<open>Numerals in any radix\<close>

definition digit_char :: "nat \<Rightarrow> char" where
  "digit_char n = ''0123456789abcdef'' ! n"

fun radix_text :: "nat \<Rightarrow> nat \<Rightarrow> string" where
  "radix_text r n = (if n < r \<or> r < 2 then [digit_char n] else radix_text r (n div r) @ [digit_char (n mod r)])"

declare radix_text.simps [simp del]

definition plain_digit :: "nat \<Rightarrow> bool" where
  "plain_digit n \<longleftrightarrow> radix_digit (digit_char n) = n \<and> digit_char n \<notin> {CHR ''-'', CHR ''+'', CHR ''.'', CHR ''x'', CHR ''X''}
    \<and> \<not> is_space (digit_char n) \<and> (digit_char n = CHR ''0'' \<longleftrightarrow> n = 0)"

lemma plain_digits: "n < 16 \<Longrightarrow> plain_digit n"
proof -
  have "list_all plain_digit [0..<16]" by code_simp
  then show "n < 16 \<Longrightarrow> plain_digit n" by (simp add: list_all_iff)
qed

lemma digit_char_facts:
  assumes "n < 16"
  shows "radix_digit (digit_char n) = n" "digit_char n \<noteq> CHR ''-''" "digit_char n \<noteq> CHR ''+''" "digit_char n \<noteq> CHR ''.''"
    "\<not> is_space (digit_char n)" "digit_char n \<noteq> CHR ''x''" "digit_char n \<noteq> CHR ''X''" "digit_char n = CHR ''0'' \<longleftrightarrow> n = 0"
  using plain_digits[OF assms] by (auto simp: plain_digit_def)

lemma radix_text_props:
  assumes "2 \<le> r" "r \<le> 16"
  shows "radix_text r n \<noteq> [] \<and> (\<forall>c\<in>set (radix_text r n). \<exists>d<r. c = digit_char d) \<and> radix_val r (radix_text r n) = n
    \<and> (n > 0 \<longrightarrow> hd (radix_text r n) \<noteq> CHR ''0'')"
proof (induction n rule: less_induct)
  case (less n)
  show ?case
  proof (cases "n < r")
    case True
    then show ?thesis using assms digit_char_facts[of n] by (auto simp: radix_text.simps[of r n] radix_val_def)
  next
    case False
    then have d: "n div r < n" "n div r > 0" using assms by (auto simp: div_greater_zero_iff)
    note ih = less[OF d(1)]
    have m: "n mod r < r" using assms by simp
    then have "radix_digit (digit_char (n mod r)) = n mod r" using digit_char_facts(1)[of "n mod r"] assms(2) by linarith
    moreover have "radix_text r n = radix_text r (n div r) @ [digit_char (n mod r)]"
      using False assms by (simp add: radix_text.simps[of r n])
    ultimately show ?thesis using ih d(2) m by (auto simp: radix_val_def)
  qed
qed

datatype numeral_form = Decimal | Octal | Hexadecimal

definition spell :: "numeral_form \<Rightarrow> nat \<Rightarrow> string" where
  "spell f n = (case f of Decimal \<Rightarrow> radix_text 10 n | Octal \<Rightarrow> CHR ''0'' # radix_text 8 n | Hexadecimal \<Rightarrow> ''0x'' @ radix_text 16 n)"

lemma takeWhile_radix:
  assumes "2 \<le> r" "r \<le> 16"
  shows "takeWhile (\<lambda>c. radix_digit c < r) (radix_text r n) = radix_text r n"
proof -
  have "\<forall>c\<in>set (radix_text r n). radix_digit c < r"
    using radix_text_props[OF assms, of n] assms(2) digit_char_facts(1) by fastforce
  then show ?thesis by simp
qed

lemma radix_text_first:
  assumes "2 \<le> r" "r \<le> 16"
  obtains d ds where "radix_text r n = digit_char d # ds" "d < r" "n > 0 \<longrightarrow> d \<noteq> 0"
    "\<forall>c\<in>set ds. c \<noteq> CHR ''x'' \<and> c \<noteq> CHR ''X''"
proof -
  note p = radix_text_props[OF assms, of n]
  then obtain c ds where e: "radix_text r n = c # ds" by (cases "radix_text r n") auto
  then obtain d where d: "d < r" "c = digit_char d" using p by auto
  have "n > 0 \<longrightarrow> d \<noteq> 0" using p digit_char_facts(8)[of d] assms(2) d(1) by (simp add: e d(2))
  moreover have "\<forall>c\<in>set ds. c \<noteq> CHR ''x'' \<and> c \<noteq> CHR ''X''"
  proof
    fix c assume "c \<in> set ds"
    then obtain k where "k < r" "c = digit_char k" using p e by auto
    then show "c \<noteq> CHR ''x'' \<and> c \<noteq> CHR ''X''" using digit_char_facts(6,7)[of k] assms(2) by simp
  qed
  ultimately show ?thesis using that e d by blast
qed

lemma parseInt_plain:
  assumes "s = c # cs" "\<not> is_space c" "c \<noteq> CHR ''-''" "c \<noteq> CHR ''+''" "\<not> (r = 16 \<and> (starts_with s ''0x'' \<or> starts_with s ''0X''))"
    "takeWhile (\<lambda>c. radix_digit c < r) s = s"
  shows "parseInt r s = Some (int (radix_val r s))"
proof -
  have d: "dropWhile is_space s = s" using assms(1,2) by simp
  have h: "hd s \<noteq> CHR ''-''" "hd s \<noteq> CHR ''+''" "s \<noteq> []" using assms(1,3,4) by auto
  have "(if r = 16 \<and> (starts_with s ''0x'' \<or> starts_with s ''0X'') then drop 2 s else s) = s" using assms(5) by (simp only: if_False)
  moreover have "(if s \<noteq> [] \<and> (hd s = CHR ''-'' \<or> hd s = CHR ''+'') then tl s else s) = s" using h by simp
  ultimately show ?thesis unfolding parseInt_def Let_def d using h by (simp only: assms(6) if_False simp_thms mult_1)
qed

lemma parseInt_text:
  assumes "2 \<le> r" "r \<le> 16"
  shows "parseInt r (radix_text r n) = Some (int n)"
proof -
  obtain d ds where t: "radix_text r n = digit_char d # ds" "d < r" "\<forall>c\<in>set ds. c \<noteq> CHR ''x'' \<and> c \<noteq> CHR ''X''"
    using radix_text_first[OF assms, of n] by metis
  have "\<not> starts_with (digit_char d # ds) ''0x''" "\<not> starts_with (digit_char d # ds) ''0X''"
    using t(3) by (cases ds; simp)+
  then have "parseInt r (radix_text r n) = Some (int (radix_val r (radix_text r n)))"
    using digit_char_facts[of d] t(2) assms takeWhile_radix[OF assms, of n]
    by (intro parseInt_plain[OF t(1)]) (auto simp: t(1))
  then show ?thesis using radix_text_props[OF assms, of n] by simp
qed

lemma parse_spelled: "parseIpv4Part (spell f n) = Some n"
proof (cases f)
  case Decimal
  obtain d ds where t: "radix_text 10 n = digit_char d # ds" "d < 10" "n > 0 \<longrightarrow> d \<noteq> 0" "\<forall>c\<in>set ds. c \<noteq> CHR ''x'' \<and> c \<noteq> CHR ''X''"
    using radix_text_first[of 10 n] by auto
  have "ds = [] \<or> d \<noteq> 0" using t(1,3) by (cases "n = 0") (auto simp: radix_text.simps[of 10 0])
  then have "\<not> (starts_with (digit_char d # ds) ''0'' \<and> length (digit_char d # ds) > 1)"
    using digit_char_facts(8)[of d] t(2) by (cases ds; simp)
  moreover have "\<not> starts_with (digit_char d # ds) ''0x''" "\<not> starts_with (digit_char d # ds) ''0X''"
    using t(4) by (cases ds; simp)+
  ultimately have "parseIpv4Part (radix_text 10 n) = (case parseInt 10 (radix_text 10 n) of None \<Rightarrow> None | Some v \<Rightarrow> if v < 0 then None else Some (nat v))"
    unfolding parseIpv4Part_def Let_def t(1) by (simp only: if_False simp_thms list.distinct)
  then show ?thesis using Decimal parseInt_text[of 10 n] by (simp add: spell_def)
next
  case Octal
  obtain d ds where t: "radix_text 8 n = digit_char d # ds" "d < 8" by (rule radix_text_first[of 8 n]) auto
  have x: "\<not> starts_with (CHR ''0'' # digit_char d # ds) ''0x''" "\<not> starts_with (CHR ''0'' # digit_char d # ds) ''0X''"
    using digit_char_facts(6,7)[of d] t(2) by simp_all
  have "parseInt 8 (CHR ''0'' # radix_text 8 n) = Some (int n)"
    using takeWhile_radix[of 8 n] radix_text_props[of 8 n]
    by (subst parseInt_plain[OF refl]) (simp_all add: radix_val_def radix_digit_def code_unit_def is_space_def)
  then show ?thesis using Octal x t(1) by (simp add: spell_def parseIpv4Part_def)
next
  case Hexadecimal
  have n: "\<not> is_space (CHR ''0'')" by (simp add: is_space_def code_unit_def)
  have "dropWhile is_space (''0x'' @ s) = ''0x'' @ s" for s using n by simp
  then have "parseInt 16 (''0x'' @ radix_text 16 n) = Some (int n)"
    using radix_text_props[of 16 n] unfolding parseInt_def Let_def by (simp add: takeWhile_radix)
  then show ?thesis using Hexadecimal unfolding spell_def parseIpv4Part_def Let_def by simp
qed

lemma radix_text_no_dot:
  assumes "2 \<le> r" "r \<le> 16"
  shows "CHR ''.'' \<notin> set (radix_text r n)"
proof
  assume "CHR ''.'' \<in> set (radix_text r n)"
  then obtain d where d: "d < r" "CHR ''.'' = digit_char d" using radix_text_props[OF assms, of n] by blast
  then have "d < 16" using assms by simp
  then show False using digit_char_facts(4)[of d] d(2) by simp
qed

lemma spell_no_dot: "CHR ''.'' \<notin> set (spell f n)"
  using radix_text_no_dot[of 10 n] radix_text_no_dot[of 8 n] radix_text_no_dot[of 16 n] by (cases f) (simp_all add: spell_def)

section \<open>One address, many spellings\<close>

text \<open>An address cut into its first \<open>k\<close> octets and the rest, the forms the parser reads.\<close>

definition parts :: "nat \<Rightarrow> 32 word \<Rightarrow> nat list" where
  "parts k w = map (\<lambda>i. unat (drop_bit (24 - 8 * i) w AND 0xff)) [0..<k] @ [unat (take_bit (32 - 8 * k) w)]"

lemma octet_less: "unat (v AND 0xff :: 32 word) \<le> 255"
proof -
  have "v AND 0xff \<le> (0xff :: 32 word)" by (rule word_and_le1)
  then show ?thesis by (simp add: word_le_nat_alt)
qed

lemma rest_less: "unat (take_bit n w :: 32 word) < 2 ^ n"
  by (simp add: unsigned_take_bit_eq take_bit_nat_less_exp)

lemma ff_mask: "(0xff :: 32 word) = mask 8" by (simp add: mask_eq_decr_exp)

lemma address_parts:
  assumes "k \<le> 3"
  shows "address (parts k w) = Some w"
proof -
  have m: "i + (j - i) = max i j" for i j :: nat by simp
  have u: "[0..<2] = [0, 1::nat]" "[0..<3] = [0, 1, 2::nat]" by (simp_all add: upt_rec)
  have "k = 0 \<or> k = 1 \<or> k = 2 \<or> k = 3" using assms by auto
  moreover have "take_bit 32 w = w" by (rule bit_word_eqI) (auto simp: bit_simps not_less m max_def split: if_splits)
  then have "address (parts 0 w) = Some w"
    using rest_less[of 32 w] by (simp add: parts_def MAX_IPV4_INT_def)
  moreover have "address (parts 1 w) = Some w"
    using rest_less[of 24 w] octet_less[of "drop_bit 24 w"]
    by (simp add: parts_def ff_mask, intro bit_word_eqI) (auto simp: bit_simps not_less m max_def split: if_splits)
  moreover have "address (parts 2 w) = Some w"
    using rest_less[of 16 w] octet_less[of "drop_bit 24 w"] octet_less[of "drop_bit 16 w"]
    by (simp add: parts_def ff_mask u, intro bit_word_eqI) (auto simp: bit_simps not_less m max_def split: if_splits)
  moreover have "address (parts 3 w) = Some w"
    using rest_less[of 8 w] octet_less[of "drop_bit 24 w"] octet_less[of "drop_bit 16 w"] octet_less[of "drop_bit 8 w"]
    by (simp add: parts_def ff_mask u, intro bit_word_eqI) (auto simp: bit_simps not_less m max_def split: if_splits)
  ultimately show ?thesis by auto
qed

lemma length_parts [simp]: "length (parts k w) = Suc k" by (simp add: parts_def)

lemma spelling_irrelevant:
  assumes "k \<le> 3" "length fs = Suc k"
  shows "parseCanonicalIpv4 (join ''.'' (map2 spell fs (parts k w))) = Some (octets_of w)"
proof -
  let ?ts = "map2 spell fs (parts k w)"
  have l: "length ?ts = Suc k" using assms(2) by simp
  then have "?ts \<noteq> []" by (metis length_0_conv nat.distinct(1))
  moreover have "\<forall>t\<in>set ?ts. CHR ''.'' \<notin> set t" using spell_no_dot by auto
  ultimately have s: "split_on (CHR ''.'') (join ''.'' ?ts) = ?ts" by (rule split_on_join)
  have p: "map parseIpv4Part ?ts = map Some (parts k w)"
    using assms(2) by (intro nth_equalityI) (simp_all add: parse_spelled)
  have "map the (map parseIpv4Part ?ts) = parts k w" unfolding p by (simp add: comp_def)
  then show ?thesis
    unfolding parseCanonicalIpv4_def s Let_def using assms(1) l address_parts[OF assms(1), of w] p by simp
qed

section \<open>The reserved networks\<close>

text \<open>The table in the comment of the file: a network address and the length of its prefix.\<close>

definition RESERVED :: "(32 word \<times> nat) list" where
  "RESERVED = [(0x7f000000, 8), (0x0a000000, 8), (0xac100000, 12), (0xc0a80000, 16), (0xa9fe0000, 16), (0x64400000, 10),
     (0x00000000, 8), (0xf0000000, 4), (0xc0000000, 24), (0xc0000200, 24), (0xc6336400, 24), (0xcb007100, 24), (0xc6120000, 15)]"

definition in_network :: "32 word \<Rightarrow> 32 word \<times> nat \<Rightarrow> bool" where
  "in_network w net = (case net of (b, n) \<Rightarrow> drop_bit (32 - n) w = drop_bit (32 - n) b)"

definition private_octets :: "octets \<Rightarrow> bool" where
  "private_octets = (\<lambda>(a, b, c, _).
          a = 0 \<or> a = 10 \<or> a = 127 \<or> (a = 100 \<and> b \<ge> 64 \<and> b \<le> 127) \<or> (a = 169 \<and> b = 254)
          \<or> (a = 172 \<and> b \<ge> 16 \<and> b \<le> 31) \<or> (a = 192 \<and> b = 0 \<and> c = 0) \<or> (a = 192 \<and> b = 0 \<and> c = 2)
          \<or> (a = 192 \<and> b = 168) \<or> (a = 198 \<and> b = 18) \<or> (a = 198 \<and> b = 19) \<or> (a = 198 \<and> b = 51 \<and> c = 100)
          \<or> (a = 203 \<and> b = 0 \<and> c = 113) \<or> a \<ge> 240)"

lemma in_network_nat: "in_network w (b, n) \<longleftrightarrow> unat w div 2 ^ (32 - n) = unat b div 2 ^ (32 - n)"
  unfolding in_network_def prod.case word_unat_eq_iff unat_drop_bit_eq
  unfolding drop_bit_eq_div ..

lemma octet_nat: "unat (drop_bit n w AND 0xff :: 32 word) = unat w div 2 ^ n mod 256"
  unfolding ff_mask take_bit_eq_mask[symmetric] unsigned_take_bit_eq unat_drop_bit_eq
  unfolding drop_bit_eq_div by (simp add: take_bit_eq_mod)

lemma octets_nat: "octets_of w = (unat w div 16777216 mod 256, unat w div 65536 mod 256, unat w div 256 mod 256, unat w mod 256)"
  using octet_nat[of 24 w] octet_nat[of 16 w] octet_nat[of 8 w] octet_nat[of 0 w] by (simp add: octets_of_def)

lemma mixed_radix: "q < m \<Longrightarrow> a * m + q = v \<longleftrightarrow> a = v div m \<and> q = v mod m" for a m q v :: nat
  by auto

lemma div_between: "0 < k \<Longrightarrow> b div k = q \<longleftrightarrow> q * k \<le> b \<and> b < (q + 1) * k" for b k q :: nat
  by (auto simp: div_nat_eqI less_mult_imp_div_less dividend_less_times_div mult.commute)

lemma private_iff_reserved: "private_octets (octets_of w) \<longleftrightarrow> (\<exists>net\<in>set RESERVED. in_network w net)"
proof -
  define W where "W = unat w"
  have W: "W < 4294967296" unfolding W_def using unsigned_less[of w] by simp
  define a b c d where "a = W div 16777216" "b = W div 65536 mod 256" "c = W div 256 mod 256" "d = W mod 256"
  have "W div 65536 = W div 256 div 256" "W div 16777216 = W div 65536 div 256" by (simp_all flip: div_mult2_eq)
  then have "W = W div 256 * 256 + d" "W div 256 = W div 65536 * 256 + c" "W div 65536 = a * 256 + b"
    unfolding a_b_c_d_def by (metis div_mult_mod_eq)+
  then have e: "W = a * 16777216 + b * 65536 + c * 256 + d" by simp
  have l: "b < 256" "c < 256" "d < 256" "a < 256" using W unfolding a_b_c_d_def by simp_all
  have o: "octets_of w = (a, b, c, d)" unfolding octets_nat W_def[symmetric] using l(4) by (simp add: a_b_c_d_def)
  have n4: "W div 268435456 = a div 16" and n8: "W div 16777216 = a" and n10: "W div 4194304 = a * 4 + b div 64"
    and n12: "W div 1048576 = a * 16 + b div 16" and n15: "W div 131072 = a * 128 + b div 2"
    and n16: "W div 65536 = a * 256 + b" and n24: "W div 256 = a * 65536 + b * 256 + c"
    using l unfolding e by linarith+
  have r: "(\<exists>net\<in>set RESERVED. in_network w net) \<longleftrightarrow>
      a = 127 \<or> a = 10 \<or> a * 16 + b div 16 = 2753 \<or> a * 256 + b = 49320 \<or> a * 256 + b = 43518 \<or> a * 4 + b div 64 = 401
      \<or> a = 0 \<or> a div 16 = 15 \<or> a * 65536 + b * 256 + c = 12582912 \<or> a * 65536 + b * 256 + c = 12582914
      \<or> a * 65536 + b * 256 + c = 12989284 \<or> a * 65536 + b * 256 + c = 13303921 \<or> a * 128 + b div 2 = 25353"
    unfolding RESERVED_def by (simp add: in_network_nat W_def[symmetric] n4 n8 n10 n12 n15 n16 n24)
  have "b div 16 < 16" "b div 64 < 4" "b div 2 < 128" "b * 256 + c < 65536" using l by linarith+
  then have q: "a * 16 + b div 16 = v \<longleftrightarrow> a = v div 16 \<and> b div 16 = v mod 16"
    "a * 4 + b div 64 = v \<longleftrightarrow> a = v div 4 \<and> b div 64 = v mod 4"
    "a * 128 + b div 2 = v \<longleftrightarrow> a = v div 128 \<and> b div 2 = v mod 128"
    "a * 256 + b = v \<longleftrightarrow> a = v div 256 \<and> b = v mod 256"
    "a * 65536 + b * 256 + c = v \<longleftrightarrow> a = v div 65536 \<and> b = v mod 65536 div 256 \<and> c = v mod 65536 mod 256" for v
    using l mixed_radix[of "b * 256 + c" 65536 a v] mixed_radix[of c 256 b] by (auto simp: mixed_radix add.assoc)
  have d: "b div 16 = Suc 0 \<longleftrightarrow> 16 \<le> b \<and> b \<le> 31" "b div 64 = Suc 0 \<longleftrightarrow> 64 \<le> b \<and> b \<le> 127" "b div 2 = 9 \<longleftrightarrow> b = 18 \<or> b = 19"
    "a div 16 = 15 \<longleftrightarrow> 240 \<le> a"
    using l(4) by (auto simp: div_between)
  show ?thesis unfolding o private_octets_def prod.case r q by (simp add: d) (intro iffI; elim disjE conjE; simp)
qed

lemma isPrivateIpv4_alt: "isPrivateIpv4 host = (case parseCanonicalIpv4 host of None \<Rightarrow> False | Some v \<Rightarrow> private_octets v)"
  by (simp add: isPrivateIpv4_def private_octets_def split: option.split prod.split)

section \<open>What the guard lets through\<close>

definition spelled :: "numeral_form list \<Rightarrow> 32 word \<Rightarrow> string" where
  "spelled fs w = join ''.'' (map2 spell fs (parts (length fs - 1) w))"

lemma spell_first: "\<exists>c cs. spell f n = c # cs \<and> c \<noteq> CHR ''[''"
proof -
  have n: "CHR ''['' \<noteq> digit_char d" if "d < 16" for d
  proof
    assume "CHR ''['' = digit_char d"
    moreover have "radix_digit (CHR ''['') = 36" by code_simp
    ultimately show False using digit_char_facts(1)[OF that] that by simp
  qed
  obtain d ds where "radix_text 10 n = digit_char d # ds" "d < 10" by (rule radix_text_first[of 10 n]) auto
  then show ?thesis using n[of d] by (cases f) (auto simp: spell_def)
qed

lemma spelled_first: "fs \<noteq> [] \<Longrightarrow> \<not> starts_with (spelled fs w) ''[''"
proof -
  assume "fs \<noteq> []"
  then obtain f gs where "fs = f # gs" by (cases fs) auto
  moreover obtain n ns where "parts (length gs) w = n # ns" by (metis length_Suc_conv length_parts)
  moreover obtain c cs where "spell f n = c # cs" "c \<noteq> CHR ''[''" using spell_first by blast
  moreover have "\<not> starts_with (join ''.'' ((x # cs) # xs)) ''[''" if "x \<noteq> CHR ''[''" for x cs xs
    using that by (cases xs) auto
  ultimately show ?thesis by (simp add: spelled_def)
qed

lemma reserved_blocked:
  assumes "fs \<noteq> []" "length fs \<le> 4" "net \<in> set RESERVED" "in_network w net" "to_lower h = spelled fs w"
  shows "isBlockedHost h"
proof -
  have "parseCanonicalIpv4 (spelled fs w) = Some (octets_of w)"
    using spelling_irrelevant[of "length fs - 1" fs w] assms(1,2) by (simp add: spelled_def)
  then have "isPrivateIpv4 (spelled fs w)"
    using private_iff_reserved[of w] assms(3,4) by (auto simp: isPrivateIpv4_alt)
  then show ?thesis using spelled_first[OF assms(1), of w] by (simp add: isBlockedHost_def Let_def assms(5))
qed

lemma lower_char_idem [simp]: "lower_char (lower_char c) = lower_char c"
  by (auto simp: lower_char_def code_unit_def)

lemma to_lower_idem [simp]: "to_lower (to_lower s) = to_lower s"
  by (simp add: to_lower_def comp_def)

lemma isBlockedHost_lower [simp]: "isBlockedHost (to_lower h) = isBlockedHost h"
  by (simp add: isBlockedHost_def)

lemma origin_error_None: "origin_error h i opts = None \<longleftrightarrow> h = i \<or> (\<exists>a\<in>set (nullish (sf_allowedHosts opts) []). h = to_lower a)"
  by (auto simp: origin_error_def split: option.split list.split)

lemma accepted_unblocked:
  assumes "assertSafeAuthUrl parse_url url issuer opts = Inr ()" "\<not> sf_allowLoopback opts"
  obtains u i where "parse_url url None = Some u" "parse_url issuer None = Some i" "scheme_error (u_protocol u) opts = None"
    "origin_error (to_lower (u_hostname u)) (to_lower (u_hostname i)) opts = None" "\<not> isBlockedHost (u_hostname u)"
  using assms that by (auto simp: assertSafeAuthUrl_def hostnameOf_def Let_def split: option.splits if_splits)

text \<open>C38: An endpoint the guard accepts without allowing loopback is reached over \<open>https\<close> (\<open>http\<close> where insecure http was
  allowed) on the host of the issuer or on one of the allowed hosts, as the URL parser gives their names and whatever
  their case. That host is none of the four names of the loopback host the guard lists, and no IPv4 address of the
  thirteen networks \<open>RESERVED\<close>: not in dotted decimal, not as one number, not in octal or hexadecimal, not with any of
  its parts left out. (Of IPv6 addresses, other names of the loopback host and what a name resolves to it says
  nothing: \<open>link_local_partly_blocked\<close> and \<open>loopback_in_disguise\<close> show what gets through.)\<close>
theorem accepted_endpoint:
  assumes "assertSafeAuthUrl parse_url url issuer opts = Inr ()" "\<not> sf_allowLoopback opts"
  shows "\<exists>u i. parse_url url None = Some u \<and> parse_url issuer None = Some i
    \<and> (u_protocol u = ''https:'' \<or> sf_allowInsecureHttp opts \<and> u_protocol u = ''http:'')
    \<and> (to_lower (u_hostname u) = to_lower (u_hostname i)
       \<or> (\<exists>h\<in>set (nullish (sf_allowedHosts opts) []). to_lower (u_hostname u) = to_lower h))
    \<and> to_lower (u_hostname u) \<notin> LOOPBACK_HOSTNAMES
    \<and> (\<forall>w fs net. 0 < length fs \<and> length fs \<le> 4 \<and> net \<in> set RESERVED \<and> in_network w net \<longrightarrow> to_lower (u_hostname u) \<noteq> spelled fs w)"
proof -
  obtain u i where u: "parse_url url None = Some u" "parse_url issuer None = Some i" "scheme_error (u_protocol u) opts = None"
    "origin_error (to_lower (u_hostname u)) (to_lower (u_hostname i)) opts = None" "\<not> isBlockedHost (u_hostname u)"
    by (rule accepted_unblocked[OF assms])
  have "to_lower (u_hostname u) \<notin> LOOPBACK_HOSTNAMES" using u(5) by (auto simp: isBlockedHost_def Let_def)
  moreover have "to_lower (u_hostname u) \<noteq> spelled fs w" if "0 < length fs" "length fs \<le> 4" "net \<in> set RESERVED" "in_network w net" for w fs net
    using reserved_blocked[of fs net w "u_hostname u"] that u(5) by auto
  ultimately show ?thesis using u origin_error_None by (fastforce simp: scheme_error_def split: if_splits)
qed

definition one_host :: "string \<Rightarrow> url_parser" where
  "one_host h url base = Some \<lparr> u_protocol = ''https:'', u_host = h, u_hostname = h, u_port = [], u_username = [], u_password = [], u_href = url \<rparr>"

lemma accepted_endpoint_witness:
  "\<exists>u i. one_host ''idp.example'' ''https://idp.example/token'' None = Some u \<and> one_host ''idp.example'' ''https://idp.example'' None = Some i
    \<and> to_lower (u_hostname u) = to_lower (u_hostname i)"
proof -
  have "assertSafeAuthUrl (one_host ''idp.example'') ''https://idp.example/token'' ''https://idp.example'' SECURE = Inr ()"
    by code_simp
  from accepted_endpoint[OF this] show ?thesis by (auto simp: SECURE_def one_host_def)
qed

section \<open>What the guard does not catch\<close>

text \<open>The prefix test covers one sixteenth of \<open>fe80::/10\<close>; the table of the file lists the whole network.\<close>

lemma link_local_partly_blocked: "isBlockedHost ''[fe80::1]''" "\<not> isBlockedHost ''[fe90::1]''" "\<not> isBlockedHost ''[febf::1]''"
  by code_simp+

text \<open>An IPv4 address embedded in \<open>::/96\<close>, as the URL parser prints it, and the name of the loopback host with its root dot.\<close>

lemma loopback_in_disguise: "\<not> isBlockedHost ''[::7f00:1]''" "\<not> isBlockedHost ''localhost.''" "isBlockedHost ''[::ffff:7f00:1]''"
  by code_simp+

text \<open>The same host on another port is accepted, although another port is another origin.\<close>

lemma other_port_accepted:
  assumes "parse_url url None = Some (u\<lparr>u_port := p\<rparr>)" "parse_url issuer None = Some u" "u_protocol u = ''https:''" "\<not> isBlockedHost (u_hostname u)"
  shows "assertSafeAuthUrl parse_url url issuer SECURE = Inr ()"
  using assms by (simp add: assertSafeAuthUrl_def SECURE_def scheme_error_def hostnameOf_def origin_error_def Let_def)

end
