(* ===== verification/Catalog.thy ===== *)
theory Catalog
  imports CostCollector
begin

text \<open>
  \<open>src/catalog/catalog.ts\<close>: the model catalog. Its three maps (models, callable aliases, spellings), \<open>set\<close> and \<open>load\<close>
  that fill them, the lookups, the id sent to a provider, the refusal of models known to be gone. The bundled data
  files are the argument of \<open>load_catalog\<close>; a value of a data file has one of the three shapes \<open>load\<close> tells apart.
\<close>

section \<open>Models\<close>

datatype api_type = Responses | Completions | Interactions | Generate | ApiMessages

record model_capabilities =
  cb_toolUse :: bool
  cb_builtinTools :: "string list option"
  cb_streaming :: bool
  cb_structuredOutput :: bool
  cb_vision :: bool
  cb_audio :: bool
  cb_video :: bool
  cb_imageGeneration :: bool
  cb_audioGeneration :: bool
  cb_videoGeneration :: bool
  cb_videoExtension :: "bool option"

text \<open>The capabilities of an entry as it is given, members may be missing.\<close>

record given_capabilities =
  gb_toolUse :: "bool option"
  gb_builtinTools :: "string list option"
  gb_streaming :: "bool option"
  gb_structuredOutput :: "bool option"
  gb_vision :: "bool option"
  gb_audio :: "bool option"
  gb_video :: "bool option"
  gb_imageGeneration :: "bool option"
  gb_audioGeneration :: "bool option"
  gb_videoGeneration :: "bool option"
  gb_videoExtension :: "bool option"

record model_reasoning =
  rs_supported :: bool
  rs_automatic :: bool
  rs_effortControl :: bool
  rs_effortValues :: "string list option"
  rs_encryptedContent :: bool
  rs_summaryAvailable :: bool
  rs_canDisable :: "bool option"
  rs_betweenTools :: "bool option"

record given_reasoning =
  gr_supported :: "bool option"
  gr_automatic :: "bool option"
  gr_effortControl :: "bool option"
  gr_effortValues :: "string list option"
  gr_encryptedContent :: "bool option"
  gr_summaryAvailable :: "bool option"
  gr_canDisable :: "bool option"
  gr_betweenTools :: "bool option"

text \<open>What \<open>set\<close> copies as it is. A retention may be absent, \<open>null\<close> or a duration.\<close>

record model_details =
  mi_contextWindow :: "nat option"
  mi_maxOutput :: "nat option"
  mi_mediaOnly :: "bool option"
  mi_tokenizer :: "json option"
  mi_requiresDedicatedClient :: "bool option"
  mi_supportsPreviousResponseId :: "bool option"
  mi_wireSpec :: "string option"
  mi_stateRetentionDuration :: "string option option"
  mi_stateModelBound :: "bool option"
  mi_providerModelName :: "string option"
  mi_aliases :: "string list option"
  mi_type :: "string option"
  mi_inputModalities :: "string list option"
  mi_outputModalities :: "string list option"
  mi_mediaParams :: "json option"
  mi_family :: "string option"
  mi_version :: "string option"
  mi_status :: "string option"
  mi_unavailable :: "(string \<times> string) option"
  mi_availability :: "string option"
  mi_active :: "bool option"
  mi_shutdownDate :: "string option"
  mi_deprecation :: "json option"

record model_init = model_details +
  in_pricing :: priced_model
  in_preferredApi :: "api_type option"
  in_supportedApis :: "api_type list option"
  in_capabilities :: "given_capabilities option"
  in_reasoning :: "given_reasoning option"

record model_info = model_details +
  md_provider :: string
  md_model :: string
  md_pricing :: priced_model
  md_preferredApi :: api_type
  md_supportedApis :: "api_type list"
  md_capabilities :: model_capabilities
  md_reasoning :: model_reasoning

definition no_capabilities :: given_capabilities where
  "no_capabilities = \<lparr> gb_toolUse = None, gb_builtinTools = None, gb_streaming = None, gb_structuredOutput = None, gb_vision = None,
     gb_audio = None, gb_video = None, gb_imageGeneration = None, gb_audioGeneration = None, gb_videoGeneration = None,
     gb_videoExtension = None \<rparr>"

definition no_reasoning :: given_reasoning where
  "no_reasoning = \<lparr> gr_supported = None, gr_automatic = None, gr_effortControl = None, gr_effortValues = None,
     gr_encryptedContent = None, gr_summaryAvailable = None, gr_canDisable = None, gr_betweenTools = None \<rparr>"

definition with_default_capabilities :: "given_capabilities option \<Rightarrow> model_capabilities" where
  "with_default_capabilities caps =
     (let g = nullish caps no_capabilities in
      \<lparr> cb_toolUse = nullish (gb_toolUse g) True, cb_builtinTools = gb_builtinTools g,
        cb_streaming = nullish (gb_streaming g) True, cb_structuredOutput = nullish (gb_structuredOutput g) True,
        cb_vision = nullish (gb_vision g) False, cb_audio = nullish (gb_audio g) False, cb_video = nullish (gb_video g) False,
        cb_imageGeneration = nullish (gb_imageGeneration g) False, cb_audioGeneration = nullish (gb_audioGeneration g) False,
        cb_videoGeneration = nullish (gb_videoGeneration g) False, cb_videoExtension = gb_videoExtension g \<rparr>)"

definition with_default_reasoning :: "given_reasoning option \<Rightarrow> model_reasoning" where
  "with_default_reasoning reasoning =
     (let g = nullish reasoning no_reasoning in
      \<lparr> rs_supported = nullish (gr_supported g) False, rs_automatic = nullish (gr_automatic g) False,
        rs_effortControl = nullish (gr_effortControl g) False, rs_effortValues = gr_effortValues g,
        rs_encryptedContent = nullish (gr_encryptedContent g) False, rs_summaryAvailable = nullish (gr_summaryAvailable g) False,
        rs_canDisable = gr_canDisable g, rs_betweenTools = gr_betweenTools g \<rparr>)"

definition PROVIDER_BUILTIN_TOOLS :: "string list dict" where
  "PROVIDER_BUILTIN_TOOLS =
     [(''anthropic'', [''web_search'', ''web_fetch'', ''code_interpreter'']),
      (''openai'', [''web_search'', ''code_interpreter'', ''image_generation'', ''shell'']),
      (''google'', [''web_search'', ''web_fetch'', ''code_interpreter'']),
      (''xai'', [''web_search'', ''code_interpreter'', ''image_generation'', ''shell'']),
      (''openrouter'', [''web_search''])]"

definition withBuiltinTools :: "string \<Rightarrow> model_capabilities \<Rightarrow> model_capabilities" where
  "withBuiltinTools provider caps =
     (if cb_builtinTools caps \<noteq> None then caps
      else if \<not> cb_toolUse caps then caps
      else case map_of PROVIDER_BUILTIN_TOOLS provider of
             None \<Rightarrow> caps
           | Some tools \<Rightarrow> if tools = [] then caps else caps\<lparr>cb_builtinTools := Some tools\<rparr>)"

record provider_state =
  ps_supports :: bool
  ps_retention :: "string option"
  ps_modelBound :: bool

definition PROVIDER_STATE :: "provider_state dict" where
  "PROVIDER_STATE =
     [(''openai'', \<lparr> ps_supports = True, ps_retention = Some ''30d'', ps_modelBound = True \<rparr>),
      (''xai'', \<lparr> ps_supports = True, ps_retention = Some ''30d'', ps_modelBound = True \<rparr>),
      (''google'', \<lparr> ps_supports = True, ps_retention = Some ''72h'', ps_modelBound = False \<rparr>),
      (''anthropic'', \<lparr> ps_supports = False, ps_retention = None, ps_modelBound = True \<rparr>),
      (''openrouter'', \<lparr> ps_supports = False, ps_retention = None, ps_modelBound = True \<rparr>)]"

section \<open>Names\<close>

text \<open>\<open>model.toLowerCase().replace(/(?<=\d)[-.](?=\d)/g, '.')\<close>; the first argument is the character before.\<close>

fun unify_separators :: "char option \<Rightarrow> string \<Rightarrow> string" where
  "unify_separators prev [] = []"
| "unify_separators prev (c # s) =
     (if (c = CHR ''-'' \<or> c = CHR ''.'') \<and> (case prev of None \<Rightarrow> False | Some p \<Rightarrow> is_digit p) \<and> s \<noteq> [] \<and> is_digit (hd s)
      then CHR ''.'' else c) # unify_separators (Some c) s"

definition normalizeId :: "string \<Rightarrow> string" where
  "normalizeId model = unify_separators None (to_lower model)"

definition catalog_key :: "string \<Rightarrow> string \<Rightarrow> string" where
  "catalog_key provider model = provider @ ''/'' @ model"

definition normKey :: "string \<Rightarrow> string \<Rightarrow> string" where
  "normKey provider model = provider @ ''/'' @ normalizeId model"

section \<open>The catalog\<close>

record model_catalog =
  mc_models :: "model_info dict"
  mc_aliasIndex :: "string dict"
  mc_normIndex :: "string dict"

definition empty_catalog :: model_catalog where
  "empty_catalog = \<lparr> mc_models = [], mc_aliasIndex = [], mc_normIndex = [] \<rparr>"

definition model_entry :: "string \<Rightarrow> string \<Rightarrow> model_init \<Rightarrow> model_info" where
  "model_entry provider model info =
     model_details.extend (model_details.truncate info)
       (model_info.fields provider model (in_pricing info) (nullish (in_preferredApi info) Completions)
          (nullish (in_supportedApis info) [nullish (in_preferredApi info) Completions])
          (withBuiltinTools provider (with_default_capabilities (in_capabilities info)))
          (with_default_reasoning (in_reasoning info)))"

text \<open>\<open>if (!name) continue\<close>\<close>

definition names_of :: "string option list \<Rightarrow> string list" where
  "names_of xs = List.map_filter truthy_str xs"

definition catalog_set :: "string \<Rightarrow> string \<Rightarrow> model_init \<Rightarrow> model_catalog \<Rightarrow> model_catalog" where
  "catalog_set provider model info c =
     (let canonical = catalog_key provider model;
          models = AList.update canonical (model_entry provider model info) (mc_models c);
          given = mi_providerModelName info # map Some (nullish (mi_aliases info) []);
          aliases = foldl (\<lambda>m alias. let k = catalog_key provider alias in
                      if map_of models k = None then AList.update k canonical m else m) (mc_aliasIndex c) (names_of given);
          norms = foldl (\<lambda>m name. let nk = normKey provider name in
                    if map_of m nk = None then AList.update nk canonical m else m) (mc_normIndex c) (names_of (Some model # given))
      in \<lparr> mc_models = models, mc_aliasIndex = aliases, mc_normIndex = norms \<rparr>)"

definition catalog_get :: "string \<Rightarrow> string \<Rightarrow> model_catalog \<Rightarrow> model_info option" where
  "catalog_get provider model c =
     (case map_of (mc_models c) (catalog_key provider model) of
        Some direct \<Rightarrow> Some direct
      | None \<Rightarrow>
          (case or_else (map_of (mc_aliasIndex c) (catalog_key provider model)) (map_of (mc_normIndex c) (normKey provider model)) of
             None \<Rightarrow> None | Some canonical \<Rightarrow> if canonical = [] then None else map_of (mc_models c) canonical))"

definition resolveModelId :: "string \<Rightarrow> string \<Rightarrow> model_catalog \<Rightarrow> string" where
  "resolveModelId provider model c =
     (case map_of (mc_models c) (catalog_key provider model) of
        Some direct \<Rightarrow> nullish (mi_providerModelName direct) model
      | None \<Rightarrow>
          if map_of (mc_aliasIndex c) (catalog_key provider model) \<noteq> None then model
          else (case map_of (mc_normIndex c) (normKey provider model) of
                  None \<Rightarrow> model
                | Some canonical \<Rightarrow>
                    if canonical = [] then model
                    else (case map_of (mc_models c) canonical of
                            None \<Rightarrow> model | Some info \<Rightarrow> nullish (mi_providerModelName info) (md_model info))))"

section \<open>Questions\<close>

definition getPricing :: "model_catalog \<Rightarrow> catalog" where
  "getPricing c provider model = map_option md_pricing (catalog_get provider model c)"

definition getPreferredApi :: "string \<Rightarrow> string \<Rightarrow> model_catalog \<Rightarrow> api_type option" where
  "getPreferredApi provider model c = map_option md_preferredApi (catalog_get provider model c)"

definition supportsApi :: "string \<Rightarrow> string \<Rightarrow> api_type \<Rightarrow> model_catalog \<Rightarrow> bool" where
  "supportsApi provider model api c =
     (case catalog_get provider model c of None \<Rightarrow> False | Some info \<Rightarrow> api \<in> set (md_supportedApis info))"

definition supportsTools :: "string \<Rightarrow> string \<Rightarrow> model_catalog \<Rightarrow> bool" where
  "supportsTools provider model c =
     nullish (map_option (\<lambda>info. cb_toolUse (md_capabilities info)) (catalog_get provider model c)) False"

definition builtinToolsFor :: "string \<Rightarrow> string \<Rightarrow> model_catalog \<Rightarrow> string list" where
  "builtinToolsFor provider model c =
     nullish (Option.bind (catalog_get provider model c) (\<lambda>info. cb_builtinTools (md_capabilities info))) []"

definition supportsBuiltinTool :: "string \<Rightarrow> string \<Rightarrow> string \<Rightarrow> model_catalog \<Rightarrow> bool" where
  "supportsBuiltinTool provider model tool c =
     nullish (map_option (\<lambda>tools. tool \<in> set tools)
       (Option.bind (catalog_get provider model c) (\<lambda>info. cb_builtinTools (md_capabilities info)))) False"

definition stateful_api :: "api_type \<Rightarrow> bool" where
  "stateful_api a = (a = Responses \<or> a = Interactions)"

definition supportsPreviousResponseId :: "string \<Rightarrow> string \<Rightarrow> model_catalog \<Rightarrow> bool" where
  "supportsPreviousResponseId provider model c =
     (let info = catalog_get provider model c;
          default_support = nullish (map_option ps_supports (map_of PROVIDER_STATE provider)) False
      in case info of
           None \<Rightarrow> default_support
         | Some i \<Rightarrow> if \<not> list_ex stateful_api (md_supportedApis i) then False
                     else nullish (mi_supportsPreviousResponseId i) default_support)"

definition getStateRetention :: "string \<Rightarrow> string \<Rightarrow> model_catalog \<Rightarrow> string option" where
  "getStateRetention provider model c =
     nullish (Option.bind (catalog_get provider model c) mi_stateRetentionDuration)
       (Option.bind (map_of PROVIDER_STATE provider) ps_retention)"

definition isStateModelBound :: "string \<Rightarrow> string \<Rightarrow> model_catalog \<Rightarrow> bool" where
  "isStateModelBound provider model c =
     nullish (Option.bind (catalog_get provider model c) mi_stateModelBound)
       (nullish (map_option ps_modelBound (map_of PROVIDER_STATE provider)) True)"

section \<open>Models that are gone\<close>

text \<open>\<open>a < b\<close> on strings compares code units; \<open>today\<close> is \<open>now.toISOString().slice(0, 10)\<close>.\<close>

fun js_less :: "string \<Rightarrow> string \<Rightarrow> bool" where
  "js_less _ [] = False"
| "js_less [] (y # ys) = True"
| "js_less (x # xs) (y # ys) = (code_unit x < code_unit y \<or> x = y \<and> js_less xs ys)"

definition unavailableReason :: "string \<Rightarrow> string \<Rightarrow> string \<Rightarrow> model_catalog \<Rightarrow> string option" where
  "unavailableReason provider model today c =
     (case catalog_get provider model c of
        None \<Rightarrow> None
      | Some info \<Rightarrow>
          (case mi_unavailable info of
             Some (since, reason) \<Rightarrow> Some (reason @ '' (measured '' @ since @ '')'')
           | None \<Rightarrow>
               (case truthy_str (mi_shutdownDate info) of
                  Some shutdown \<Rightarrow>
                    if js_less shutdown today then Some (''announced shutdown date '' @ shutdown @ '' has passed'') else None
                | None \<Rightarrow> None)))"

definition override_hint :: "string \<Rightarrow> string option \<Rightarrow> string" where
  "override_hint model providerId =
     (case truthy_str providerId of
        Some i \<Rightarrow> if i \<noteq> model then '' To request it anyway, name the provider's own id: '' @ CHR 0x22 # i @ [CHR 0x22, CHR ''.''] else []
      | None \<Rightarrow> [])"

definition refuseCall :: "string \<Rightarrow> string \<Rightarrow> string \<Rightarrow> model_catalog \<Rightarrow> string option" where
  "refuseCall provider model today c =
     (case unavailableReason provider model today c of
        None \<Rightarrow> None
      | Some reason \<Rightarrow>
          (let usedSlug = (map_of (mc_models c) (catalog_key provider model) \<noteq> None);
               usedProviderId = (\<not> usedSlug \<and> map_of (mc_aliasIndex c) (catalog_key provider model) \<noteq> None)
           in if usedProviderId then None
              else Some (provider @ ''/'' @ model @ '' is not callable: '' @ reason @ ''.''
                     @ override_hint model (Option.bind (catalog_get provider model c) mi_providerModelName))))"

section \<open>Loading\<close>

definition list_models :: "string option \<Rightarrow> model_catalog \<Rightarrow> model_info list" where
  "list_models provider c =
     (case truthy_str provider of
        None \<Rightarrow> map snd (mc_models c) | Some p \<Rightarrow> filter (\<lambda>m. md_provider m = p) (map snd (mc_models c)))"

text \<open>A value of a data file: flat rates, an object with \<open>pricing\<close>, or anything else.\<close>

datatype file_entry = FlatRates priced_model | FullEntry model_init | OtherEntry

definition priced_only :: "priced_model \<Rightarrow> model_init" where
  "priced_only p =
     \<lparr> mi_contextWindow = None, mi_maxOutput = None, mi_mediaOnly = None, mi_tokenizer = None, mi_requiresDedicatedClient = None,
       mi_supportsPreviousResponseId = None, mi_wireSpec = None, mi_stateRetentionDuration = None, mi_stateModelBound = None,
       mi_providerModelName = None, mi_aliases = None, mi_type = None, mi_inputModalities = None, mi_outputModalities = None,
       mi_mediaParams = None, mi_family = None, mi_version = None, mi_status = None, mi_unavailable = None,
       mi_availability = None, mi_active = None, mi_shutdownDate = None, mi_deprecation = None,
       in_pricing = p, in_preferredApi = None, in_supportedApis = None, in_capabilities = None, in_reasoning = None \<rparr>"

definition load_entry :: "model_catalog \<Rightarrow> string \<times> file_entry \<Rightarrow> model_catalog" where
  "load_entry c e =
     (case e of (key, v) \<Rightarrow>
        if CHR ''/'' \<notin> set key then c
        else (let provider = takeWhile (\<lambda>x. x \<noteq> CHR ''/'') key; model = drop (length provider + 1) key in
              case v of FlatRates p \<Rightarrow> catalog_set provider model (priced_only p) c
                      | FullEntry i \<Rightarrow> catalog_set provider model i c
                      | OtherEntry \<Rightarrow> c))"

definition load :: "(string \<times> file_entry) list \<Rightarrow> model_catalog \<Rightarrow> model_catalog" where
  "load entries c = foldl load_entry c entries"

definition withProviderDefaults :: "(string \<times> file_entry) list list \<Rightarrow> model_catalog" where
  "withProviderDefaults files = foldl (\<lambda>c entries. load entries c) empty_catalog files"

definition catalog_size :: "model_catalog \<Rightarrow> nat" where
  "catalog_size c = length (mc_models c)"

section \<open>What is in the catalog\<close>

text \<open>One call of \<open>set\<close>. The names it answers to are the slug, the provider's name and the aliases.\<close>

record set_call =
  sc_provider :: string
  sc_model :: string
  sc_info :: model_init

definition other_names :: "set_call \<Rightarrow> string list" where
  "other_names e = names_of (mi_providerModelName (sc_info e) # map Some (nullish (mi_aliases (sc_info e)) []))"

definition call_names :: "set_call \<Rightarrow> string list" where
  "call_names e = names_of (Some (sc_model e) # mi_providerModelName (sc_info e) # map Some (nullish (mi_aliases (sc_info e)) []))"

definition run_set :: "model_catalog \<Rightarrow> set_call \<Rightarrow> model_catalog" where
  "run_set c e = catalog_set (sc_provider e) (sc_model e) (sc_info e) c"

definition run_sets :: "set_call list \<Rightarrow> model_catalog" where
  "run_sets calls = foldl run_set empty_catalog calls"

text \<open>Names of a provider that differ only in case and version separators belong to one model, and no provider has a slash.\<close>

definition unambiguous :: "set_call list \<Rightarrow> bool" where
  "unambiguous calls \<longleftrightarrow>
     (\<forall>e\<in>set calls. CHR ''/'' \<notin> set (sc_provider e) \<and> sc_model e \<noteq> [] \<and> mi_providerModelName (sc_info e) \<noteq> Some [])
     \<and> (\<forall>e\<in>set calls. \<forall>f\<in>set calls. sc_provider e = sc_provider f \<longrightarrow>
          (\<forall>a\<in>set (call_names e). \<forall>b\<in>set (call_names f). normalizeId a = normalizeId b \<longrightarrow> sc_model e = sc_model f))"

lemma key_inject: "CHR ''/'' \<notin> set p \<Longrightarrow> CHR ''/'' \<notin> set q \<Longrightarrow> p @ ''/'' @ a = q @ ''/'' @ b \<longleftrightarrow> p = q \<and> a = b"
proof (induction p arbitrary: q)
  case Nil
  then show ?case by (cases q) auto
next
  case (Cons c p)
  then show ?case by (cases q) auto
qed

lemma names_of_simps: "set (names_of (x # xs)) = (case truthy_str x of None \<Rightarrow> {} | Some t \<Rightarrow> {t}) \<union> set (names_of xs)"
  by (simp add: names_of_def map_filter_simps split: option.split)

lemma other_in_names: "set (other_names e) \<subseteq> set (call_names e)"
  by (simp add: other_names_def call_names_def names_of_simps[of "Some (sc_model e)"])

lemma slug_in_names: "sc_model e \<noteq> [] \<Longrightarrow> sc_model e \<in> set (call_names e)"
  by (simp add: call_names_def names_of_simps[of "Some (sc_model e)"] truthy_str_def)

lemma names_cases: "a \<in> set (call_names e) \<Longrightarrow> a = sc_model e \<or> a \<in> set (other_names e)"
  by (auto simp: call_names_def other_names_def names_of_simps[of "Some (sc_model e)"] truthy_str_def split: if_splits)

definition slug_key :: "set_call \<Rightarrow> string" where
  "slug_key e = catalog_key (sc_provider e) (sc_model e)"

definition index_ok :: "(string \<Rightarrow> string \<Rightarrow> string) \<Rightarrow> set_call list \<Rightarrow> string dict \<Rightarrow> bool" where
  "index_ok mk calls m \<longleftrightarrow>
     (\<forall>k canon. map_of m k = Some canon \<longrightarrow> (\<exists>e\<in>set calls. \<exists>a\<in>set (call_names e). k = mk (sc_provider e) a \<and> canon = slug_key e))"

lemma index_ok_mono: "index_ok mk calls m \<Longrightarrow> index_ok mk (calls @ [e]) m"
  unfolding index_ok_def by (metis UnCI set_append)

lemma index_ok_fold:
  assumes "index_ok mk calls m" "e \<in> set calls" "set names \<subseteq> set (call_names e)"
  shows "index_ok mk calls (foldl (\<lambda>m a. if cond m a then AList.update (mk (sc_provider e) a) (slug_key e) m else m) m names)"
  using assms(1,3)
proof (induction names arbitrary: m)
  case (Cons a names)
  have "index_ok mk calls (AList.update (mk (sc_provider e) a) (slug_key e) m)"
    using Cons.prems assms(2) unfolding index_ok_def by (auto simp: update_conv')
  then show ?case using Cons by simp
qed simp

lemma fold_keeps_dom:
  "map_of m k \<noteq> None \<Longrightarrow> map_of (foldl (\<lambda>m a. if cond m a then AList.update (f a) v m else m) m names) k \<noteq> None"
proof (induction names arbitrary: m)
  case (Cons a names)
  have "map_of (if cond m a then AList.update (f a) v m else m) k \<noteq> None" using Cons.prems by (simp add: update_conv')
  then show ?case using Cons.IH by simp
qed simp

lemma fold_covers:
  assumes "a \<in> set names" "\<And>m. \<not> cond m a \<Longrightarrow> Q \<or> map_of m (f a) \<noteq> None"
  shows "Q \<or> map_of (foldl (\<lambda>m a. if cond m a then AList.update (f a) v m else m) m names) (f a) \<noteq> None"
  using assms(1)
proof (induction names arbitrary: m)
  case (Cons b names)
  show ?case
  proof (cases "a = b")
    case True
    have "Q \<or> map_of (if cond m a then AList.update (f a) v m else m) (f a) \<noteq> None"
      using assms(2)[of m] by (simp add: update_conv')
    then show ?thesis using fold_keeps_dom[of _ "f a" cond f v names] True by auto
  next
    case False
    then show ?thesis using Cons by simp
  qed
qed simp

text \<open>The catalog after a list of calls.\<close>

definition catalog_ok :: "set_call list \<Rightarrow> model_catalog \<Rightarrow> bool" where
  "catalog_ok calls c \<longleftrightarrow>
     distinct (map fst (mc_models c))
     \<and> (\<forall>k j. map_of (mc_models c) k = Some j \<longrightarrow> (\<exists>e\<in>set calls. k = slug_key e \<and> j = model_entry (sc_provider e) (sc_model e) (sc_info e)))
     \<and> (\<forall>e\<in>set calls. map_of (mc_models c) (slug_key e) \<noteq> None)
     \<and> index_ok catalog_key calls (mc_aliasIndex c) \<and> index_ok normKey calls (mc_normIndex c)
     \<and> (\<forall>e\<in>set calls. \<forall>a\<in>set (call_names e). map_of (mc_normIndex c) (normKey (sc_provider e) a) \<noteq> None)
     \<and> (\<forall>e\<in>set calls. \<forall>a\<in>set (other_names e).
          map_of (mc_models c) (catalog_key (sc_provider e) a) \<noteq> None \<or> map_of (mc_aliasIndex c) (catalog_key (sc_provider e) a) \<noteq> None)"

lemma catalog_ok_empty: "catalog_ok [] empty_catalog"
  by (simp add: catalog_ok_def empty_catalog_def index_ok_def)

lemma catalog_ok_set:
  assumes "catalog_ok calls c"
  shows "catalog_ok (calls @ [e]) (run_set c e)"
proof -
  let ?c = "run_set c e"
  define models where "models = AList.update (slug_key e) (model_entry (sc_provider e) (sc_model e) (sc_info e)) (mc_models c)"
  note d = assms[unfolded catalog_ok_def]
  have m: "mc_models ?c = models" by (simp add: run_set_def catalog_set_def models_def slug_key_def Let_def)
  have al: "mc_aliasIndex ?c = foldl (\<lambda>m a. if map_of models (catalog_key (sc_provider e) a) = None
      then AList.update (catalog_key (sc_provider e) a) (slug_key e) m else m) (mc_aliasIndex c) (other_names e)"
    unfolding run_set_def catalog_set_def models_def slug_key_def Let_def other_names_def by simp
  have nm: "mc_normIndex ?c = foldl (\<lambda>m a. if map_of m (normKey (sc_provider e) a) = None
      then AList.update (normKey (sc_provider e) a) (slug_key e) m else m) (mc_normIndex c) (call_names e)"
    unfolding run_set_def catalog_set_def slug_key_def Let_def call_names_def by simp
  have lm: "map_of models k = (if k = slug_key e then Some (model_entry (sc_provider e) (sc_model e) (sc_info e)) else map_of (mc_models c) k)" for k
    by (simp add: models_def update_conv')
  have 1: "distinct (map fst models)" using d by (simp add: models_def distinct_update)
  have 2: "\<forall>k j. map_of models k = Some j \<longrightarrow> (\<exists>e\<in>set (calls @ [e]). k = slug_key e \<and> j = model_entry (sc_provider e) (sc_model e) (sc_info e))"
    using d by (auto simp: lm)
  have 3: "\<forall>e\<in>set (calls @ [e]). map_of models (slug_key e) \<noteq> None" using d by (auto simp: lm)
  have 4: "index_ok catalog_key (calls @ [e]) (mc_aliasIndex ?c)"
    unfolding al using d other_in_names[of e] by (intro index_ok_fold index_ok_mono) auto
  have 5: "index_ok normKey (calls @ [e]) (mc_normIndex ?c)"
    unfolding nm using d by (intro index_ok_fold index_ok_mono) auto
  have 6: "map_of (mc_normIndex ?c) (normKey (sc_provider g) a) \<noteq> None" if "g \<in> set (calls @ [e])" "a \<in> set (call_names g)" for g a
  proof (cases "g = e")
    case True
    then show ?thesis unfolding nm using fold_covers[where Q = False and f = "normKey (sc_provider e)" and
        cond = "\<lambda>m a. map_of m (normKey (sc_provider e) a) = None", OF that(2)] by simp
  next
    case False
    then have "map_of (mc_normIndex c) (normKey (sc_provider g) a) \<noteq> None" using d that by auto
    then show ?thesis unfolding nm by (rule fold_keeps_dom)
  qed
  have 7: "map_of models (catalog_key (sc_provider g) a) \<noteq> None \<or> map_of (mc_aliasIndex ?c) (catalog_key (sc_provider g) a) \<noteq> None"
    if "g \<in> set (calls @ [e])" "a \<in> set (other_names g)" for g a
  proof (cases "g = e")
    case True
    then show ?thesis unfolding al
      using fold_covers[where Q = "map_of models (catalog_key (sc_provider e) a) \<noteq> None" and f = "catalog_key (sc_provider e)" and
        cond = "\<lambda>m a. map_of models (catalog_key (sc_provider e) a) = None", OF that(2)] by simp
  next
    case False
    then have "g \<in> set calls" using that(1) by simp
    with d that(2) have "map_of (mc_models c) (catalog_key (sc_provider g) a) \<noteq> None \<or> map_of (mc_aliasIndex c) (catalog_key (sc_provider g) a) \<noteq> None"
      by blast
    then show ?thesis
    proof
      assume "map_of (mc_models c) (catalog_key (sc_provider g) a) \<noteq> None"
      then show ?thesis by (simp add: lm)
    next
      assume "map_of (mc_aliasIndex c) (catalog_key (sc_provider g) a) \<noteq> None"
      then show ?thesis unfolding al by (intro disjI2 fold_keeps_dom)
    qed
  qed
  from 6 have 6: "\<forall>g\<in>set (calls @ [e]). \<forall>a\<in>set (call_names g). map_of (mc_normIndex ?c) (normKey (sc_provider g) a) \<noteq> None" by blast
  from 7 have 7: "\<forall>g\<in>set (calls @ [e]). \<forall>a\<in>set (other_names g).
      map_of models (catalog_key (sc_provider g) a) \<noteq> None \<or> map_of (mc_aliasIndex ?c) (catalog_key (sc_provider g) a) \<noteq> None" by blast
  show ?thesis unfolding catalog_ok_def m by (intro conjI 1 2 3 4 5 6 7)
qed

lemma catalog_ok_run: "catalog_ok calls (run_sets calls)"
proof (induction calls rule: rev_induct)
  case (snoc e calls)
  then show ?case using catalog_ok_set by (simp add: run_sets_def)
qed (simp add: run_sets_def catalog_ok_empty)

section \<open>Looking models up\<close>

lemma model_entry_simps [simp]:
  "md_provider (model_entry p s i) = p" "md_model (model_entry p s i) = s"
  "mi_providerModelName (model_entry p s i) = mi_providerModelName i"
  by (simp_all add: model_entry_def model_details.defs model_info.defs)

lemma catalog_key_ne [simp]: "catalog_key p n \<noteq> []" "slug_key e \<noteq> []" by (simp_all add: slug_key_def catalog_key_def)

text \<open>Every spelling of a name leads to the model of that name, also through the indexes.\<close>

lemma spelling_leads_to:
  assumes u: "unambiguous calls" and e: "e \<in> set calls" "a \<in> set (call_names e)" "normalizeId n = normalizeId a"
  defines "c \<equiv> run_sets calls" and "p \<equiv> sc_provider e"
  shows "map_of (mc_models c) (catalog_key p n) \<noteq> None \<Longrightarrow> n = sc_model e"
    and "map_of (mc_aliasIndex c) (catalog_key p n) \<in> {None, Some (slug_key e)}"
    and "map_of (mc_normIndex c) (normKey p n) = Some (slug_key e)"
proof -
  have ok: "catalog_ok calls c" unfolding c_def by (rule catalog_ok_run)
  have same: "sc_model g = sc_model e" if "g \<in> set calls" "sc_provider g = p" "b \<in> set (call_names g)" "normalizeId b = normalizeId n" for g b
    using u that e unfolding unambiguous_def p_def by metis
  have slash: "CHR ''/'' \<notin> set (sc_provider g)" "sc_model g \<in> set (call_names g)" if "g \<in> set calls" for g
    using u that slug_in_names by (auto simp: unambiguous_def)
  show "n = sc_model e" if m: "map_of (mc_models c) (catalog_key p n) \<noteq> None"
  proof -
    obtain g where g: "g \<in> set calls" "catalog_key p n = slug_key g" using m ok unfolding catalog_ok_def by blast
    then have "p = sc_provider g" "n = sc_model g"
      using key_inject[of p "sc_provider g"] slash(1)[OF g(1)] slash(1)[OF e(1)] by (auto simp: catalog_key_def slug_key_def p_def)
    then show ?thesis using same[OF g(1)] slash(2)[OF g(1)] by simp
  qed
  have k: "canon = slug_key e"
    if i: "index_ok mk calls m" "map_of m (mk p n) = Some canon" and
      j: "\<And>q b. CHR ''/'' \<notin> set q \<Longrightarrow> mk p n = mk q b \<Longrightarrow> p = q \<and> normalizeId n = normalizeId b" for mk m canon
  proof -
    obtain g b where g: "g \<in> set calls" "b \<in> set (call_names g)" "mk p n = mk (sc_provider g) b" "canon = slug_key g"
      using i unfolding index_ok_def by blast
    then show ?thesis using j[OF slash(1)[OF g(1)] g(3)] same[OF g(1)] by (metis p_def slug_key_def)
  qed
  have sp: "CHR ''/'' \<notin> set p" using slash(1)[OF e(1)] by (simp add: p_def)
  have "canon = slug_key e" if "map_of (mc_aliasIndex c) (catalog_key p n) = Some canon" for canon
    using k[where mk = catalog_key, OF _ that] ok key_inject[OF sp] unfolding catalog_ok_def catalog_key_def by blast
  then show "map_of (mc_aliasIndex c) (catalog_key p n) \<in> {None, Some (slug_key e)}"
    by (cases "map_of (mc_aliasIndex c) (catalog_key p n)") auto
  have "map_of (mc_normIndex c) (normKey p n) \<noteq> None"
    using ok e unfolding catalog_ok_def p_def normKey_def by metis
  then obtain canon where canon: "map_of (mc_normIndex c) (normKey p n) = Some canon" by blast
  have "canon = slug_key e"
    using k[where mk = normKey, OF _ canon] ok key_inject[OF sp] unfolding catalog_ok_def normKey_def by blast
  then show "map_of (mc_normIndex c) (normKey p n) = Some (slug_key e)" using canon by simp
qed

lemma get_by_spelling:
  assumes "unambiguous calls" "e \<in> set calls" "a \<in> set (call_names e)" "normalizeId n = normalizeId a"
  shows "catalog_get (sc_provider e) n (run_sets calls) = map_of (mc_models (run_sets calls)) (slug_key e)"
  using spelling_leads_to[OF assms]
  by (cases "map_of (mc_models (run_sets calls)) (catalog_key (sc_provider e) n)";
      cases "map_of (mc_aliasIndex (run_sets calls)) (catalog_key (sc_provider e) n)")
     (simp_all add: catalog_get_def slug_key_def)

lemma found_entry:
  assumes "unambiguous calls" "e \<in> set calls"
  obtains g where "g \<in> set calls" "sc_provider g = sc_provider e" "sc_model g = sc_model e"
    "map_of (mc_models (run_sets calls)) (slug_key e) = Some (model_entry (sc_provider g) (sc_model g) (sc_info g))"
proof -
  have ok: "catalog_ok calls (run_sets calls)" by (rule catalog_ok_run)
  then obtain j where j: "map_of (mc_models (run_sets calls)) (slug_key e) = Some j"
    using assms(2) unfolding catalog_ok_def by blast
  then obtain g where g: "g \<in> set calls" "slug_key e = slug_key g" "j = model_entry (sc_provider g) (sc_model g) (sc_info g)"
    using ok unfolding catalog_ok_def by blast
  have "CHR ''/'' \<notin> set (sc_provider e)" "CHR ''/'' \<notin> set (sc_provider g)"
    using assms g(1) by (auto simp: unambiguous_def)
  then have "sc_provider g = sc_provider e" "sc_model g = sc_model e"
    using g(2) key_inject by (auto simp: slug_key_def catalog_key_def)
  then show ?thesis using that g j by auto
qed

text \<open>The name a model is sent under is a name of the model and stays what it is.\<close>

lemma sent_name_fixed:
  assumes u: "unambiguous calls" and g: "g \<in> set calls"
    "map_of (mc_models (run_sets calls)) (slug_key g) = Some (model_entry (sc_provider g) (sc_model g) (sc_info g))"
  defines "x \<equiv> nullish (mi_providerModelName (sc_info g)) (sc_model g)"
  shows "catalog_get (sc_provider g) x (run_sets calls) = map_of (mc_models (run_sets calls)) (slug_key g)
    \<and> resolveModelId (sc_provider g) x (run_sets calls) = x"
proof -
  let ?c = "run_sets calls" and ?p = "sc_provider g"
  have slug: "sc_model g \<in> set (call_names g)" using u g(1) slug_in_names by (auto simp: unambiguous_def)
  have x: "x \<in> set (call_names g)"
  proof (cases "mi_providerModelName (sc_info g)")
    case None
    then show ?thesis using slug by (simp add: x_def)
  next
    case (Some y)
    then have "y \<noteq> []" using u g(1) by (auto simp: unambiguous_def)
    then show ?thesis using Some by (simp add: x_def call_names_def names_of_simps truthy_str_def)
  qed
  note lead = spelling_leads_to[OF u g(1) x refl]
  have "resolveModelId ?p x ?c = x"
  proof (cases "map_of (mc_models ?c) (catalog_key ?p x)")
    case None
    then have "x \<noteq> sc_model g" using g(2) by (auto simp: slug_key_def)
    then have "x \<in> set (other_names g)" using x names_cases by blast
    then have "map_of (mc_aliasIndex ?c) (catalog_key ?p x) \<noteq> None"
      using catalog_ok_run[of calls] g(1) None unfolding catalog_ok_def by blast
    then show ?thesis using None by (simp add: resolveModelId_def)
  next
    case (Some d)
    then have "x = sc_model g" using lead(1) by simp
    then show ?thesis using Some g(2) by (simp add: resolveModelId_def x_def slug_key_def)
  qed
  then show ?thesis using get_by_spelling[OF u g(1) x refl] by simp
qed

text \<open>The spelling of a model never decides whether it is found: any name of the model (slug, provider name, alias) in any
  case and with any version separators leads to this very model; the id sent for it is a name of the same model, and
  resolving that id again changes nothing.\<close>
theorem any_spelling_resolves:
  assumes "unambiguous calls" "e \<in> set calls" "a \<in> set (call_names e)" "normalizeId n = normalizeId a"
  shows "\<exists>j. catalog_get (sc_provider e) n (run_sets calls) = Some j \<and> md_provider j = sc_provider e \<and> md_model j = sc_model e
    \<and> catalog_get (sc_provider e) (resolveModelId (sc_provider e) n (run_sets calls)) (run_sets calls) = Some j
    \<and> resolveModelId (sc_provider e) (resolveModelId (sc_provider e) n (run_sets calls)) (run_sets calls)
      = resolveModelId (sc_provider e) n (run_sets calls)"
proof -
  let ?c = "run_sets calls" and ?p = "sc_provider e"
  obtain g where g: "g \<in> set calls" "sc_provider g = ?p" "sc_model g = sc_model e"
    "map_of (mc_models ?c) (slug_key e) = Some (model_entry ?p (sc_model e) (sc_info g))"
    by (rule found_entry[OF assms(1,2)]) metis
  have k: "slug_key g = slug_key e" using g by (simp add: slug_key_def)
  define x where "x = nullish (mi_providerModelName (sc_info g)) (sc_model g)"
  have fixed: "catalog_get ?p x ?c = map_of (mc_models ?c) (slug_key e)" "resolveModelId ?p x ?c = x"
    using sent_name_fixed[OF assms(1) g(1)] g(2,3,4) by (simp_all add: x_def k)
  note lead = spelling_leads_to[OF assms]
  have get: "catalog_get ?p n ?c = map_of (mc_models ?c) (slug_key e)" by (rule get_by_spelling[OF assms])
  have "resolveModelId ?p n ?c = n \<or> resolveModelId ?p n ?c = x"
  proof (cases "map_of (mc_models ?c) (catalog_key ?p n)")
    case (Some d)
    then have "n = sc_model e" using lead(1) by simp
    then show ?thesis using g by (simp add: resolveModelId_def x_def slug_key_def)
  next
    case None
    then show ?thesis using lead(3) g by (auto simp: resolveModelId_def x_def)
  qed
  moreover have "resolveModelId ?p n ?c = n \<Longrightarrow> resolveModelId ?p (resolveModelId ?p n ?c) ?c = resolveModelId ?p n ?c" by simp
  ultimately show ?thesis using fixed get g(4) by auto
qed

definition sample_model :: set_call where
  "sample_model = \<lparr> sc_provider = ''anthropic'', sc_model = ''claude-opus-4.8'',
     sc_info = (priced_only \<lparr> mp_inputPerMTok = None, mp_outputPerMTok = None, mp_cacheReadPerMTok = None, mp_cacheWritePerMTok = None,
       mp_audioInputPerMTok = None, mp_audioOutputPerMTok = None, mp_perImage = None, mp_perSecond = None, mp_perMinute = None,
       mp_perMChars = None, mp_perUnit = None, mp_tiers = None \<rparr>)\<lparr>mi_providerModelName := Some ''claude-opus-4-8-20260101''\<rparr> \<rparr>"

lemma any_spelling_resolves_witness:
  "\<exists>j. catalog_get ''anthropic'' ''Claude-Opus-4-8'' (run_sets [sample_model]) = Some j \<and> md_model j = ''claude-opus-4.8''"
proof -
  have u: "unambiguous [sample_model]" by code_simp
  have n: "sc_model sample_model \<in> set (call_names sample_model)" "normalizeId ''Claude-Opus-4-8'' = normalizeId (sc_model sample_model)"
    by code_simp+
  then show ?thesis using any_spelling_resolves[OF u _ n] by (auto simp: sample_model_def)
qed

text \<open>Loading data files is a list of calls of \<open>set\<close>, none with a slash in its provider.\<close>

definition call_of :: "string \<times> file_entry \<Rightarrow> set_call option" where
  "call_of e = (case e of (key, v) \<Rightarrow>
     if CHR ''/'' \<notin> set key then None
     else (let provider = takeWhile (\<lambda>x. x \<noteq> CHR ''/'') key; model = drop (length provider + 1) key in
           case v of FlatRates p \<Rightarrow> Some \<lparr> sc_provider = provider, sc_model = model, sc_info = priced_only p \<rparr>
                   | FullEntry i \<Rightarrow> Some \<lparr> sc_provider = provider, sc_model = model, sc_info = i \<rparr>
                   | OtherEntry \<Rightarrow> None))"

lemma load_entry_call: "load_entry c e = (case call_of e of None \<Rightarrow> c | Some s \<Rightarrow> run_set c s)"
  by (auto simp: load_entry_def call_of_def run_set_def Let_def split: prod.split file_entry.split)

lemma load_calls: "load entries c = foldl run_set c (List.map_filter call_of entries)"
  unfolding load_def by (induction entries arbitrary: c) (auto simp: load_entry_call map_filter_simps split: option.split)

lemma defaults_calls: "withProviderDefaults files = run_sets (List.map_filter call_of (concat files))"
proof -
  have "List.map_filter call_of (xs @ ys) = List.map_filter call_of xs @ List.map_filter call_of ys" for xs ys
    by (induction xs) (auto simp: map_filter_simps split: option.split)
  then have "foldl (\<lambda>c entries. load entries c) c files = foldl run_set c (List.map_filter call_of (concat files))" for c
    by (induction files arbitrary: c) (simp_all add: load_calls map_filter_simps)
  then show ?thesis by (simp add: withProviderDefaults_def run_sets_def)
qed

lemma loaded_provider: "s \<in> set (List.map_filter call_of es) \<Longrightarrow> CHR ''/'' \<notin> set (sc_provider s)"
proof -
  have "CHR ''/'' \<notin> set (takeWhile (\<lambda>x. x \<noteq> CHR ''/'') k)" for k by (auto dest: set_takeWhileD)
  then show "s \<in> set (List.map_filter call_of es) \<Longrightarrow> CHR ''/'' \<notin> set (sc_provider s)"
    by (induction es) (auto simp: map_filter_simps call_of_def Let_def split: option.splits if_splits file_entry.splits prod.splits)
qed

text \<open>A catalog built from any data files is well formed: every model is stored once, under the key of its own provider and
  slug, and both indexes point to stored models only.\<close>
theorem loaded_catalog_well_formed:
  "distinct (map fst (mc_models (withProviderDefaults files)))
   \<and> map fst (mc_models (withProviderDefaults files))
     = map (\<lambda>(k, j). catalog_key (md_provider j) (md_model j)) (mc_models (withProviderDefaults files))
   \<and> ran (map_of (mc_aliasIndex (withProviderDefaults files))) \<subseteq> dom (map_of (mc_models (withProviderDefaults files)))
   \<and> ran (map_of (mc_normIndex (withProviderDefaults files))) \<subseteq> dom (map_of (mc_models (withProviderDefaults files)))"
proof -
  let ?c = "withProviderDefaults files"
  obtain calls where ok: "catalog_ok calls ?c" using catalog_ok_run defaults_calls by metis
  have d: "distinct (map fst (mc_models ?c))" using ok by (simp add: catalog_ok_def)
  have "fst kj = (\<lambda>(k, j). catalog_key (md_provider j) (md_model j)) kj" if "kj \<in> set (mc_models ?c)" for kj
  proof -
    obtain k j where kj: "kj = (k, j)" by (cases kj)
    then have "map_of (mc_models ?c) k = Some j" using that d by simp
    then obtain e where "k = slug_key e" "j = model_entry (sc_provider e) (sc_model e) (sc_info e)"
      using ok unfolding catalog_ok_def by blast
    then show ?thesis using kj by (simp add: slug_key_def)
  qed
  then have "map fst (mc_models ?c) = map (\<lambda>(k, j). catalog_key (md_provider j) (md_model j)) (mc_models ?c)" by simp
  moreover have stored: "\<forall>e\<in>set calls. map_of (mc_models ?c) (slug_key e) \<noteq> None" using ok unfolding catalog_ok_def by blast
  have "ran (map_of m) \<subseteq> dom (map_of (mc_models ?c))" if i: "index_ok mk calls m" for mk m
  proof
    fix v assume "v \<in> ran (map_of m)"
    then obtain e where "e \<in> set calls" "v = slug_key e" using i unfolding index_ok_def ran_def by blast
    then show "v \<in> dom (map_of (mc_models ?c))" using stored by blast
  qed
  moreover have "index_ok catalog_key calls (mc_aliasIndex ?c)" "index_ok normKey calls (mc_normIndex ?c)"
    using ok unfolding catalog_ok_def by blast+
  ultimately show ?thesis using d by blast
qed

section \<open>Refusals\<close>

text \<open>A call is refused exactly when the model is known to be gone and was not named by an id of the provider.\<close>

lemma refused_iff:
  "refuseCall provider model today c \<noteq> None \<longleftrightarrow> unavailableReason provider model today c \<noteq> None
    \<and> (map_of (mc_models c) (catalog_key provider model) \<noteq> None \<or> map_of (mc_aliasIndex c) (catalog_key provider model) = None)"
  by (auto simp: refuseCall_def Let_def split: option.split)

text \<open>The message for another spelling of a model whose slug is the provider's id names that id as the way to request
  it anyway, which is refused as well.\<close>

definition gone_model :: set_call where
  "gone_model = sample_model\<lparr>sc_provider := ''openai'', sc_model := ''sora-2'',
     sc_info := (sc_info sample_model)\<lparr>mi_providerModelName := Some ''sora-2'', mi_shutdownDate := Some ''2026-09-24''\<rparr>\<rparr>"

lemma offered_door_is_closed:
  "refuseCall ''openai'' ''Sora-2'' ''2026-10-02'' (run_sets [gone_model])
     = Some (''openai/Sora-2 is not callable: announced shutdown date 2026-09-24 has passed. ''
         @ ''To request it anyway, name the provider's own id: '' @ CHR 0x22 # ''sora-2'' @ [CHR 0x22, CHR ''.''])"
  "refuseCall ''openai'' ''sora-2'' ''2026-10-02'' (run_sets [gone_model]) \<noteq> None"
  by code_simp+

text \<open>The index of spellings keeps its first entry: an alias registered earlier hides the slug of a later model.\<close>

definition early_alias :: set_call where
  "early_alias = sample_model\<lparr>sc_model := ''old'', sc_info := (sc_info sample_model)\<lparr>mi_providerModelName := Some ''claude-opus-4-8''\<rparr>\<rparr>"

lemma earlier_alias_wins:
  "map_option md_model (catalog_get ''anthropic'' ''claude-opus-4.8'' (run_sets [early_alias, sample_model])) = Some ''claude-opus-4.8''"
  "map_option md_model (catalog_get ''anthropic'' ''Claude-Opus-4.8'' (run_sets [early_alias, sample_model])) = Some ''old''"
  by code_simp+

end
