(* ===== verification/ServerState.thy ===== *)
theory ServerState
  imports Catalog Durations
begin

text \<open>
  \<open>src/llm/server-state.ts\<close>: whether a request continues a conversation the provider keeps (an id and the turns after
  it) or sends the history again. A retention text that is no duration makes the call fail (\<open>None\<close>).
\<close>

record server_decision =
  sd_previousResponseId :: "string option"
  sd_messages :: "message list"

definition state_id :: "message \<Rightarrow> string option" where
  "state_id m = Option.bind (msg_origin m) (\<lambda>o'. truthy_str (mo_serverStateId o'))"

definition carries_state :: "message \<Rightarrow> bool" where
  "carries_state m = (msg_role m = Assistant \<and> state_id m \<noteq> None)"

text \<open>The loop from the end: the index of the last message that carries an id.\<close>

fun last_state :: "message list \<Rightarrow> nat option" where
  "last_state [] = None"
| "last_state (m # ms) =
     (case last_state ms of Some i \<Rightarrow> Some (Suc i) | None \<Rightarrow> if carries_state m then Some 0 else None)"

definition resolveServerState ::
  "message list \<Rightarrow> string \<Rightarrow> string \<Rightarrow> model_catalog \<Rightarrow> bool \<Rightarrow> ms \<Rightarrow> server_decision option" where
  "resolveServerState msgs provider model c stateful now =
     (let full = \<lparr> sd_previousResponseId = None, sd_messages = msgs \<rparr> in
      if \<not> stateful then Some full
      else case last_state msgs of
        None \<Rightarrow> Some full
      | Some idx \<Rightarrow>
          (case msg_origin (msgs ! idx) of
             None \<Rightarrow> Some full
           | Some origin \<Rightarrow>
               if truthy_str (mo_serverStateId origin) = None then Some full
               else if mo_provider origin \<noteq> provider then Some full
               else if \<not> supportsPreviousResponseId provider model c then Some full
               else (case parseDurationOrNull (getStateRetention provider model c) of
                       None \<Rightarrow> None
                     | Some ttl \<Rightarrow>
                         if (case (ttl, msg_createdAt (msgs ! idx)) of
                               (Some ttlMs, Some createdAt) \<Rightarrow> now - createdAt > ttlMs | _ \<Rightarrow> False) then Some full
                         else if isStateModelBound provider model c
                                 \<and> (case truthy_str (mo_model origin) of None \<Rightarrow> False | Some m \<Rightarrow> m \<noteq> model) then Some full
                         else (let trimmed = drop (idx + 1) msgs in
                               if trimmed = [] then Some full
                               else Some \<lparr> sd_previousResponseId = mo_serverStateId origin, sd_messages = trimmed \<rparr>))))"

lemma last_state_None: "last_state ms = None \<Longrightarrow> \<forall>x\<in>set ms. \<not> carries_state x"
  by (induction ms) (auto split: option.splits if_splits)

lemma last_state_Some:
  "last_state ms = Some i \<Longrightarrow> i < length ms \<and> carries_state (ms ! i) \<and> (\<forall>m\<in>set (drop (Suc i) ms). \<not> carries_state m)"
proof (induction ms arbitrary: i)
  case (Cons m ms)
  then show ?case using last_state_None[of ms] by (cases "last_state ms") (auto split: if_splits)
qed simp

text \<open>C40: A request that continues on the server leaves out the conversation up to the last assistant turn that carries an
  id and nothing after it, and sends the id of that turn; at least one message goes with it. That turn was answered by
  the same provider, for the same model where the provider binds its state to the model (or no model is written down),
  and within the retention period where the turn says when it was. In every other case the whole conversation is sent
  and no id. (A turn without a time counts as kept, and the id is taken as it is written down: that the provider knows
  it is not checked, see \<open>streamed_turn_continues_unknown_state\<close> in \<open>AgentStream\<close>.)\<close>
theorem continued_turn_sends_the_rest:
  assumes "resolveServerState ms provider model c stateful now = Some d"
  shows "case sd_previousResponseId d of
      None \<Rightarrow> sd_messages d = ms
    | Some i \<Rightarrow> \<exists>pre m orig. ms = pre @ m # sd_messages d \<and> sd_messages d \<noteq> [] \<and> msg_role m = Assistant
        \<and> msg_origin m = Some orig \<and> mo_serverStateId orig = Some i \<and> i \<noteq> [] \<and> mo_provider orig = provider
        \<and> (\<forall>x\<in>set (sd_messages d). \<not> carries_state x)
        \<and> stateful \<and> supportsPreviousResponseId provider model c
        \<and> (\<forall>t ttl. msg_createdAt m = Some t \<longrightarrow> parseDurationOrNull (getStateRetention provider model c) = Some (Some ttl)
             \<longrightarrow> now - t \<le> ttl)
        \<and> (isStateModelBound provider model c \<longrightarrow> mo_model orig \<in> {None, Some [], Some model})"
proof (cases "sd_previousResponseId d")
  case None
  then show ?thesis using assms
    by (auto simp: resolveServerState_def Let_def truthy_str_def split: if_splits option.splits)
next
  case (Some i)
  then obtain idx orig where o: "last_state ms = Some idx" "msg_origin (ms ! idx) = Some orig" "mo_serverStateId orig = Some i" "i \<noteq> []"
      "mo_provider orig = provider" "stateful" "supportsPreviousResponseId provider model c" "sd_messages d = drop (idx + 1) ms"
      "sd_messages d \<noteq> []"
      "\<forall>t ttl. msg_createdAt (ms ! idx) = Some t \<longrightarrow> parseDurationOrNull (getStateRetention provider model c) = Some (Some ttl) \<longrightarrow> now - t \<le> ttl"
      "isStateModelBound provider model c \<longrightarrow> mo_model orig \<in> {None, Some [], Some model}"
    using assms by (auto simp: resolveServerState_def Let_def truthy_str_def split: if_splits option.splits)
  note l = last_state_Some[OF o(1)]
  have "ms = take idx ms @ ms ! idx # drop (idx + 1) ms" using l by (simp add: id_take_nth_drop)
  then show ?thesis using o l Some by (auto simp: carries_state_def intro!: exI[of _ "take idx ms"] exI[of _ "ms ! idx"])
qed

definition plain_turn :: "role \<Rightarrow> string \<Rightarrow> message" where
  "plain_turn r t = \<lparr> msg_role = r, msg_content = ContentText t, msg_cache = None, msg_id = None, msg_createdAt = None, msg_origin = None \<rparr>"

definition answered_turn :: "string \<Rightarrow> message" where
  "answered_turn i = (plain_turn Assistant ''ok'')\<lparr>msg_origin := Some \<lparr> mo_provider = ''openai'', mo_model = Some ''gpt'',
     mo_serverStateId = Some i, mo_signatures = None \<rparr>\<rparr>"

lemma continued_turn_sends_the_rest_witness:
  "\<exists>pre m. [plain_turn User ''a'', answered_turn ''r1'', plain_turn User ''b''] = pre @ m # [plain_turn User ''b''] \<and> msg_role m = Assistant"
proof -
  have "resolveServerState [plain_turn User ''a'', answered_turn ''r1'', plain_turn User ''b''] ''openai'' ''gpt'' empty_catalog True 0
      = Some \<lparr> sd_previousResponseId = Some ''r1'', sd_messages = [plain_turn User ''b''] \<rparr>"
    by code_simp
  from continued_turn_sends_the_rest[OF this] show ?thesis by auto
qed

end
