(* ===== verification/StepStream.thy ===== *)
theory StepStream
  imports AgentLoop JsonParse
begin

text \<open>
  One streamed step: the events of a provider (\<open>src/llm/types/stream.ts\<close>), their accumulation into the state of the
  step and the response made of it (\<open>src/agent/loop-step-state.ts\<close>, \<open>src/agent/loop-internals.ts\<close>). Events the agent
  loop ignores (media, files, hosted tools, moderation, errors) are \<open>OtherEvent\<close> with their type.
\<close>

section \<open>Events\<close>

datatype stream_event =
    TextEvent string "string option"
  | ThinkingEvent string
  | CallStart string string "json dict option"
  | CallDelta string string
  | CallEnd string
  | UsageEvent usage
  | DoneEvent string "json option"
  | CitationEvent citation
  | OtherEvent string

datatype agent_stream_event =
    OutStepStart nat
  | OutText string "string option"
  | OutThinking string
  | OutCallStart nat string string "json dict"
  | OutCallDelta nat string string
  | OutCallEnd nat string ms
  | OutStepEnd nat usage ms
  | OutDone llm_response

section \<open>The state of a step\<close>

record accum_entry =
  ac_id :: string
  ac_name :: string
  ac_args :: string
  ac_meta :: "json dict option"

record step_state =
  st_step :: nat
  st_text :: string
  st_commentary :: string
  st_thinking :: string
  st_toolCalls :: "tool_call list"
  st_accum :: "accum_entry dict"
  st_usage :: usage
  st_finishReason :: string
  st_citations :: "citation dict"

definition makeStepState :: "nat \<Rightarrow> step_state" where
  "makeStepState n =
     \<lparr> st_step = n, st_text = [], st_commentary = [], st_thinking = [], st_toolCalls = [], st_accum = [],
       st_usage = emptyUsage, st_finishReason = ''stop'', st_citations = [] \<rparr>"

definition accumFor :: "step_state \<Rightarrow> string \<Rightarrow> accum_entry option" where
  "accumFor s i =
     (case (if i \<noteq> [] then map_of (st_accum s) i else None) of
        Some acc \<Rightarrow> Some acc
      | None \<Rightarrow> if st_accum s = [] then None else Some (snd (last (st_accum s))))"

definition parseAccumEntry :: "accum_entry \<Rightarrow> tool_call" where
  "parseAccumEntry acc =
     (let (args, malformed) =
        (if trim (ac_args acc) = [] then ([], False)
         else case JSON_parse (ac_args acc) of Some (JObj kvs) \<Rightarrow> (kvs, False) | _ \<Rightarrow> ([], True))
      in \<lparr> ca_id = ac_id acc, ca_name = ac_name acc, ca_arguments = args, ca_caller = None, ca_meta = ac_meta acc,
           ca_malformed = malformed \<rparr>)"

definition has_call :: "string \<Rightarrow> step_state \<Rightarrow> bool" where
  "has_call i s = list_ex (\<lambda>tc. ca_id tc = i) (st_toolCalls s)"

text \<open>An accumulator is updated in place; its own id is its key.\<close>

definition accumulateStreamEvent :: "stream_event \<Rightarrow> step_state \<Rightarrow> agent_stream_event option \<times> step_state" where
  "accumulateStreamEvent ev s = (case ev of
      TextEvent t phase \<Rightarrow>
        (Some (OutText t (truthy_str phase)),
         if phase = Some ''commentary'' then s\<lparr>st_commentary := st_commentary s @ t\<rparr> else s\<lparr>st_text := st_text s @ t\<rparr>)
    | ThinkingEvent t \<Rightarrow> (Some (OutThinking t), s\<lparr>st_thinking := st_thinking s @ t\<rparr>)
    | CallStart i n meta \<Rightarrow>
        (None, s\<lparr>st_accum := AList.update i \<lparr> ac_id = i, ac_name = n, ac_args = [], ac_meta = meta \<rparr> (st_accum s)\<rparr>)
    | CallDelta i a \<Rightarrow>
        (case accumFor s i of
           None \<Rightarrow> (Some (OutCallDelta (st_step s) i a), s)
         | Some acc \<Rightarrow>
             (Some (OutCallDelta (st_step s) (ac_id acc) a),
              s\<lparr>st_accum := AList.update (ac_id acc) (acc\<lparr>ac_args := ac_args acc @ a\<rparr>) (st_accum s)\<rparr>))
    | CallEnd i \<Rightarrow>
        (case accumFor s i of
           None \<Rightarrow> (None, s)
         | Some acc \<Rightarrow>
             (None, if has_call (ac_id acc) s then s else s\<lparr>st_toolCalls := st_toolCalls s @ [parseAccumEntry acc]\<rparr>))
    | CitationEvent c \<Rightarrow> (None, s\<lparr>st_citations := AList.update (ct_url c) c (st_citations s)\<rparr>)
    | UsageEvent u \<Rightarrow> (None, s\<lparr>st_usage := u\<rparr>)
    | DoneEvent reason signatures \<Rightarrow> (None, s\<lparr>st_finishReason := reason\<rparr>)
    | OtherEvent ty \<Rightarrow> (None, s))"

definition finalizeUnendedToolCalls :: "step_state \<Rightarrow> step_state" where
  "finalizeUnendedToolCalls s =
     foldl (\<lambda>s (i, acc). if has_call i s then s else s\<lparr>st_toolCalls := st_toolCalls s @ [parseAccumEntry acc]\<rparr>) s (st_accum s)"

definition step_content :: "step_state \<Rightarrow> content_part list" where
  "step_content s =
     (if st_commentary s \<noteq> [] then [TextPart (st_commentary s) None (Some ''commentary'')] else [])
     @ (if st_text s \<noteq> []
        then [TextPart (st_text s) None (if st_commentary s \<noteq> [] then Some ''final_answer'' else None)] else [])
     @ map call_part (st_toolCalls s)"

definition effective_reason :: "step_state \<Rightarrow> string" where
  "effective_reason s =
     (if list_ex ca_malformed (st_toolCalls s) then ''malformed_tool_call''
      else if st_toolCalls s \<noteq> [] then ''tool_use'' else st_finishReason s)"

definition buildStepResponse :: "ms \<Rightarrow> string \<Rightarrow> step_state \<Rightarrow> string \<Rightarrow> llm_response" where
  "buildStepResponse latency fresh s model =
     (let reason = effective_reason s in
      \<lparr> re_id = fresh, re_model = model, re_content = step_content s,
        re_finishReason = (if reason = ''tool_use'' then ''tool_use''
                           else if reason = ''malformed_tool_call'' then ''malformed_tool_call'' else ''stop''),
        re_usage = st_usage s, re_text = st_text s, re_toolCalls = st_toolCalls s,
        re_thinking = (if st_thinking s = [] then None else Some (st_thinking s)), re_media = [], re_files = None,
        re_builtinToolCalls = None,
        re_citations = (if st_citations s \<noteq> [] then Some (map snd (st_citations s)) else None), re_moderation = None,
        re_errorMessage = None, re_signatures = None, re_latencyMs = latency, re_raw = JNull \<rparr>)"

text \<open>All events of a step: what is yielded and the state they leave.\<close>

fun accumulate_all :: "stream_event list \<Rightarrow> step_state \<Rightarrow> agent_stream_event list \<times> step_state" where
  "accumulate_all [] s = ([], s)"
| "accumulate_all (ev # evs) s =
     (case accumulateStreamEvent ev s of (out, s1) \<Rightarrow>
        (case accumulate_all evs s1 of (outs, s2) \<Rightarrow> ((case out of None \<Rightarrow> outs | Some e \<Rightarrow> e # outs), s2)))"

section \<open>What the consumer saw is what is remembered\<close>

definition seen_answer :: "agent_stream_event list \<Rightarrow> string" where
  "seen_answer outs = concat (map (\<lambda>o'. case o' of OutText t phase \<Rightarrow> if phase = Some ''commentary'' then [] else t | _ \<Rightarrow> []) outs)"

definition seen_commentary :: "agent_stream_event list \<Rightarrow> string" where
  "seen_commentary outs = concat (map (\<lambda>o'. case o' of OutText t phase \<Rightarrow> if phase = Some ''commentary'' then t else [] | _ \<Rightarrow> []) outs)"

definition seen_thinking :: "agent_stream_event list \<Rightarrow> string" where
  "seen_thinking outs = concat (map (\<lambda>o'. case o' of OutThinking t \<Rightarrow> t | _ \<Rightarrow> []) outs)"

lemmas seen_defs = seen_answer_def seen_commentary_def seen_thinking_def

lemma accumulate_texts:
  "accumulate_all evs s = (outs, s') \<Longrightarrow>
     st_text s' = st_text s @ seen_answer outs \<and> st_commentary s' = st_commentary s @ seen_commentary outs
     \<and> st_thinking s' = st_thinking s @ seen_thinking outs"
proof (induction evs arbitrary: s outs s')
  case Nil
  then show ?case by (simp add: seen_defs)
next
  case (Cons ev evs)
  obtain o1 s1 where 1: "accumulateStreamEvent ev s = (o1, s1)" by (rule prod.exhaust)
  obtain os s2 where 2: "accumulate_all evs s1 = (os, s2)" by (rule prod.exhaust)
  have o: "outs = (case o1 of None \<Rightarrow> os | Some e \<Rightarrow> e # os)" "s' = s2" using Cons.prems 1 2 by auto
  note ih = Cons.IH[OF 2]
  show ?case
  proof (cases ev)
    case (TextEvent t phase)
    have "truthy_str phase = Some ''commentary'' \<longleftrightarrow> phase = Some ''commentary''"
      by (auto simp: truthy_str_def split: option.split)
    then show ?thesis using 1 ih TextEvent unfolding o by (auto simp: accumulateStreamEvent_def seen_defs split: if_splits)
  qed (use 1 ih in \<open>auto simp: o accumulateStreamEvent_def seen_defs split: option.splits\<close>)
qed

lemma finalize_texts [simp]:
  "st_text (finalizeUnendedToolCalls s) = st_text s" "st_commentary (finalizeUnendedToolCalls s) = st_commentary s"
  "st_thinking (finalizeUnendedToolCalls s) = st_thinking s"
proof -
  have "st_text (foldl (\<lambda>s (i, acc). if has_call i s then s else s\<lparr>st_toolCalls := st_toolCalls s @ [parseAccumEntry acc]\<rparr>) s xs) = st_text s
    \<and> st_commentary (foldl (\<lambda>s (i, acc). if has_call i s then s else s\<lparr>st_toolCalls := st_toolCalls s @ [parseAccumEntry acc]\<rparr>) s xs) = st_commentary s
    \<and> st_thinking (foldl (\<lambda>s (i, acc). if has_call i s then s else s\<lparr>st_toolCalls := st_toolCalls s @ [parseAccumEntry acc]\<rparr>) s xs) = st_thinking s" for xs
    by (induction xs arbitrary: s) auto
  then show "st_text (finalizeUnendedToolCalls s) = st_text s" "st_commentary (finalizeUnendedToolCalls s) = st_commentary s"
    "st_thinking (finalizeUnendedToolCalls s) = st_thinking s" by (simp_all add: finalizeUnendedToolCalls_def)
qed

lemma calls_have_no_text [simp]: "List.map_filter answer_text (map call_part tcs) = []" "List.map_filter part_text (map call_part tcs) = []"
  by (induction tcs) (simp_all add: map_filter_simps call_part_def answer_text_def part_text_def)

lemma map_filter_app: "List.map_filter f (xs @ ys) = List.map_filter f xs @ List.map_filter f ys"
  by (induction xs) (simp_all add: map_filter_simps split: option.split)

text \<open>C16: What the consumer of a stream saw is what the conversation keeps: whatever events a provider sends and in whatever
  order, the answer of the step is the concatenation of the answer texts that were yielded, its whole text is the
  narration followed by that answer, and its thinking is the thinking that was yielded.\<close>
theorem streamed_answer_is_kept:
  "let (outs, st) = accumulate_all evs (makeStepState n); x = buildStepResponse latency fresh (finalizeUnendedToolCalls st) model
   in finalAnswerText (ContentParts (re_content x)) = seen_answer outs \<and> re_text x = seen_answer outs
      \<and> contentText (ContentParts (re_content x)) = seen_commentary outs @ seen_answer outs
      \<and> nullish (re_thinking x) [] = seen_thinking outs"
proof -
  obtain outs st where e: "accumulate_all evs (makeStepState n) = (outs, st)" by (rule prod.exhaust)
  have "st_text st = seen_answer outs" "st_commentary st = seen_commentary outs" "st_thinking st = seen_thinking outs"
    using accumulate_texts[OF e] by (simp_all add: makeStepState_def)
  then show ?thesis
    by (simp add: e buildStepResponse_def Let_def step_content_def finalAnswerText_def contentText_def map_filter_app
        map_filter_simps answer_text_def part_text_def)
qed

section \<open>Interleaved calls\<close>

text \<open>
  What one call of a stream is made of, without the accumulators. \<open>started\<close> are the ids of the calls so far, in
  the order of their first start. A fragment or an end that carries the id of a started call means that
  call; without an id (as some providers send them) or with an unknown one it means the call that started last.
\<close>

definition aim :: "string list \<Rightarrow> string \<Rightarrow> string option" where
  "aim started j =
     (if j \<noteq> [] \<and> j \<in> set started then Some j else if started = [] then None else Some (last started))"

definition start_id :: "string \<Rightarrow> string list \<Rightarrow> string list" where
  "start_id j started = (if j \<in> set started then started else started @ [j])"

text \<open>
  The call \<open>i\<close>: its name and continuation data are those of its start, its arguments the fragments meant for it
  since then, up to the first end meant for it. A second start before that end begins it anew.
\<close>

fun call_of :: "string \<Rightarrow> string list \<Rightarrow> accum_entry option \<Rightarrow> stream_event list \<Rightarrow> accum_entry option" where
  "call_of i started acc [] = acc"
| "call_of i started acc (ev # evs) =
     (case ev of
        CallStart j n meta \<Rightarrow>
          call_of i (start_id j started)
            (if j = i then Some \<lparr> ac_id = i, ac_name = n, ac_args = [], ac_meta = meta \<rparr> else acc) evs
      | CallDelta j a \<Rightarrow>
          call_of i started
            (if aim started j = Some i then map_option (\<lambda>c. c\<lparr>ac_args := ac_args c @ a\<rparr>) acc else acc) evs
      | CallEnd j \<Rightarrow> if aim started j = Some i then acc else call_of i started acc evs
      | _ \<Rightarrow> call_of i started acc evs)"

text \<open>The calls a stream starts that were not started before it.\<close>

fun new_ids :: "string list \<Rightarrow> stream_event list \<Rightarrow> string list" where
  "new_ids started [] = []"
| "new_ids started (CallStart j n meta # evs) =
     (if j \<in> set started then [] else [j]) @ new_ids (start_id j started) evs"
| "new_ids started (ev # evs) = new_ids started evs"

definition streamed_call :: "string list \<Rightarrow> string \<Rightarrow> accum_entry option \<Rightarrow> stream_event list \<Rightarrow> tool_call" where
  "streamed_call started i acc evs = parseAccumEntry (the (call_of i started acc evs))"

lemma new_ids_fresh: "j \<in> set (new_ids started evs) \<Longrightarrow> j \<notin> set started"
  by (induction started evs rule: new_ids.induct) (auto simp: start_id_def split: if_splits)

lemma call_of_some: "call_of i started (Some acc) evs \<noteq> None"
  by (induction evs arbitrary: started acc) (auto split: stream_event.split)

lemma call_of_id: "call_of i started acc evs = Some c \<Longrightarrow> (\<forall>a. acc = Some a \<longrightarrow> ac_id a = i) \<Longrightarrow> ac_id c = i"
proof (induction evs arbitrary: started acc)
  case (Cons ev evs)
  show ?case
  proof (cases ev)
    case (CallDelta j a)
    show ?thesis
      by (rule Cons.IH[of started "if aim started j = Some i then map_option (\<lambda>c. c\<lparr>ac_args := ac_args c @ a\<rparr>) acc else acc"])
        (use Cons.prems CallDelta in auto)
  qed (use Cons.prems in \<open>auto split: if_splits intro: Cons.IH\<close>)
qed auto

lemma call_of_new: "i \<in> set (new_ids started evs) \<Longrightarrow> call_of i started acc evs \<noteq> None"
proof (induction evs arbitrary: started acc)
  case (Cons ev evs)
  show ?case
  proof (cases ev)
    case (CallStart j n meta)
    then show ?thesis using Cons call_of_some by (auto split: if_splits)
  next
    case (CallEnd j)
    then have "i \<in> set (new_ids started evs)" using Cons.prems by simp
    moreover from this have "aim started j \<noteq> Some i"
      using new_ids_fresh[of i started evs] by (auto simp: aim_def split: if_splits)
    ultimately show ?thesis using CallEnd Cons.IH by simp
  qed (use Cons in auto)
qed simp

text \<open>The accumulators that have not become a call, with what is still to come for them.\<close>

definition keys :: "step_state \<Rightarrow> string list" where
  "keys s = map fst (st_accum s)"

definition pending_calls :: "step_state \<Rightarrow> stream_event list \<Rightarrow> tool_call list" where
  "pending_calls s evs = map (\<lambda>(k, acc). streamed_call (keys s) k (Some acc) evs)
     (filter (\<lambda>(k, acc). \<not> has_call k s) (st_accum s))"

definition coming_calls :: "step_state \<Rightarrow> stream_event list \<Rightarrow> tool_call list" where
  "coming_calls s evs = map (\<lambda>i. streamed_call (keys s) i None evs) (new_ids (keys s) evs)"

definition accum_ok :: "step_state \<Rightarrow> bool" where
  "accum_ok s \<longleftrightarrow> distinct (keys s) \<and> (\<forall>(k, acc)\<in>set (st_accum s). ac_id acc = k)
     \<and> ca_id ` set (st_toolCalls s) \<subseteq> set (keys s)"

lemma parse_id [simp]: "ca_id (parseAccumEntry acc) = ac_id acc"
  by (simp add: parseAccumEntry_def Let_def split: prod.split)

lemma finalize_calls:
  assumes "accum_ok s"
  shows "st_toolCalls (finalizeUnendedToolCalls s) = st_toolCalls s @ pending_calls s []"
proof -
  have "st_toolCalls (foldl (\<lambda>s (i, acc). if has_call i s then s else s\<lparr>st_toolCalls := st_toolCalls s @ [parseAccumEntry acc]\<rparr>) s xs)
      = st_toolCalls s @ map (\<lambda>(k, acc). parseAccumEntry acc) (filter (\<lambda>(k, acc). \<not> has_call k s) xs)"
    if "distinct (map fst xs)" "\<forall>(k, acc)\<in>set xs. ac_id acc = k" for xs
    using that
  proof (induction xs arbitrary: s)
    case (Cons x xs)
    obtain k acc where x: "x = (k, acc)" by (rule prod.exhaust)
    show ?case
    proof (cases "has_call k s")
      case True
      then show ?thesis using Cons x by simp
    next
      case False
      let ?s = "s\<lparr>st_toolCalls := st_toolCalls s @ [parseAccumEntry acc]\<rparr>"
      have "filter (\<lambda>(k, acc). \<not> has_call k ?s) xs = filter (\<lambda>(k, acc). \<not> has_call k s) xs"
        using Cons.prems x by (intro filter_cong) (force simp: has_call_def)+
      then show ?thesis using Cons x False by simp
    qed
  qed simp
  from this[of "st_accum s"] show ?thesis
    using assms by (auto simp: finalizeUnendedToolCalls_def pending_calls_def accum_ok_def keys_def streamed_call_def)
qed

lemma update_new_key: "i \<notin> fst ` set al \<Longrightarrow> AList.update i b al = al @ [(i, b)]"
  by (induction al) auto

lemma update_in_place:
  "distinct (map fst al) \<Longrightarrow> k \<in> fst ` set al \<Longrightarrow>
     AList.update k v al = map (\<lambda>(k', v'). (k', if k' = k then v else v')) al"
proof (induction al)
  case (Cons x al)
  have "map (\<lambda>(k', v'). (k', if k' = k then v else v')) al = al" if "k \<notin> fst ` set al"
    using that by (intro map_idI) (auto simp: image_iff)
  then show ?case using Cons by (cases x) auto
qed simp

lemma accumFor_aim:
  assumes "accum_ok s"
  shows "(aim (keys s) j = None \<and> accumFor s j = None)
    \<or> (\<exists>k acc. aim (keys s) j = Some k \<and> accumFor s j = Some acc \<and> (k, acc) \<in> set (st_accum s) \<and> ac_id acc = k)"
proof (cases "j \<noteq> [] \<and> j \<in> set (keys s)")
  case True
  then obtain acc where "map_of (st_accum s) j = Some acc" unfolding keys_def by (metis map_of_eq_None_iff not_None_eq set_map)
  moreover then have "(j, acc) \<in> set (st_accum s)" by (rule map_of_SomeD)
  ultimately show ?thesis using True assms by (auto simp: accumFor_def aim_def accum_ok_def)
next
  case False
  then have none: "(if j \<noteq> [] then map_of (st_accum s) j else None) = None"
    by (auto simp: keys_def map_of_eq_None_iff)
  show ?thesis
  proof (cases "st_accum s = []")
    case True
    then show ?thesis by (simp add: aim_def keys_def accumFor_def)
  next
    case ne: False
    then have "last (st_accum s) \<in> set (st_accum s)" by simp
    moreover obtain k acc where l: "last (st_accum s) = (k, acc)" by (rule prod.exhaust)
    moreover have "aim (keys s) j = Some k"
      unfolding aim_def if_not_P[OF False] using ne l by (simp add: keys_def last_map)
    moreover have "accumFor s j = Some acc" using none ne l by (simp add: accumFor_def)
    ultimately show ?thesis using assms by (auto simp: accum_ok_def)
  qed
qed

text \<open>One event: what has become a call, what is pending, and what has not started together stay the same.\<close>

definition all_calls :: "step_state \<Rightarrow> stream_event list \<Rightarrow> tool_call multiset" where
  "all_calls s evs = mset (st_toolCalls s @ pending_calls s evs @ coming_calls s evs)"

lemma same_accumulators:
  assumes "accum_ok s" "st_accum s1 = st_accum s" "st_toolCalls s1 = st_toolCalls s"
    and "\<And>i acc. i \<notin> set (keys s) \<or> \<not> has_call i s \<Longrightarrow> call_of i (keys s) acc (ev # evs) = call_of i (keys s) acc evs"
    and "new_ids (keys s) (ev # evs) = new_ids (keys s) evs"
  shows "accum_ok s1 \<and> all_calls s (ev # evs) = all_calls s1 evs"
proof -
  have k: "keys s1 = keys s" "\<And>i. has_call i s1 = has_call i s" using assms(2,3) by (simp_all add: keys_def has_call_def)
  have "pending_calls s1 evs = pending_calls s (ev # evs)"
    unfolding pending_calls_def k assms(2) streamed_call_def by (intro map_cong refl) (auto simp del: call_of.simps simp: assms(4))
  moreover have "coming_calls s1 evs = coming_calls s (ev # evs)"
    unfolding coming_calls_def k assms(5) streamed_call_def
    by (intro map_cong refl) (simp del: call_of.simps add: assms(4) new_ids_fresh)
  moreover have "accum_ok s1" using assms(1) by (simp add: accum_ok_def k assms(2,3))
  ultimately show ?thesis by (simp add: all_calls_def assms(3))
qed

lemma one_accumulator:
  assumes ok: "accum_ok s" and k: "k \<in> set (keys s)" "ac_id v = k"
    and s1: "s1 = s\<lparr>st_accum := AList.update k v (st_accum s)\<rparr>"
    and own: "\<And>acc. (k, acc) \<in> set (st_accum s) \<Longrightarrow> call_of k (keys s) (Some acc) (ev # evs) = call_of k (keys s) (Some v) evs"
    and others: "\<And>i acc. i \<noteq> k \<Longrightarrow> call_of i (keys s) acc (ev # evs) = call_of i (keys s) acc evs"
    and ids: "new_ids (keys s) (ev # evs) = new_ids (keys s) evs"
  shows "accum_ok s1 \<and> all_calls s (ev # evs) = all_calls s1 evs"
proof -
  have u: "st_accum s1 = map (\<lambda>(k', v'). (k', if k' = k then v else v')) (st_accum s)"
    using ok k(1) by (simp add: s1 update_in_place accum_ok_def keys_def)
  have same: "keys s1 = keys s" "\<And>i. has_call i s1 = has_call i s" "st_toolCalls s1 = st_toolCalls s"
    unfolding keys_def u by (simp_all add: has_call_def s1 case_prod_unfold comp_def)
  have "pending_calls s1 evs = pending_calls s (ev # evs)"
    unfolding pending_calls_def same u filter_map map_map streamed_call_def
    by (intro map_cong filter_cong refl) (auto simp del: call_of.simps simp: own others)
  moreover have "coming_calls s1 evs = coming_calls s (ev # evs)"
    unfolding coming_calls_def same ids streamed_call_def
    using k(1) by (intro map_cong refl arg_cong[of _ _ "\<lambda>c. parseAccumEntry (the c)"] others[symmetric])
      (auto dest: new_ids_fresh)
  moreover have "accum_ok s1" using ok k(2) unfolding accum_ok_def same by (auto simp: u)
  ultimately show ?thesis by (simp add: all_calls_def same)
qed

lemma call_started:
  assumes ok: "accum_ok s" and new: "i \<notin> set (keys s)"
    and s1: "s1 = s\<lparr>st_accum := st_accum s @ [(i, \<lparr> ac_id = i, ac_name = n, ac_args = [], ac_meta = meta \<rparr>)]\<rparr>"
  shows "accum_ok s1 \<and> all_calls s (CallStart i n meta # evs) = all_calls s1 evs"
proof -
  let ?acc = "\<lparr> ac_id = i, ac_name = n, ac_args = [], ac_meta = meta \<rparr>" and ?ev = "CallStart i n meta"
  have k: "keys s1 = keys s @ [i]" "start_id i (keys s) = keys s @ [i]" using new by (simp_all add: keys_def s1 start_id_def)
  have h: "has_call j s1 = has_call j s" for j by (simp add: has_call_def s1)
  have hi: "\<not> has_call i s" using ok new by (auto simp: accum_ok_def has_call_def list_ex_iff)
  have ne: "k' \<noteq> i" if "(k', a) \<in> set (st_accum s)" for k' a using that new by (force simp: keys_def)
  have q: "pending_calls s (?ev # evs) = map (\<lambda>(k, acc). streamed_call (keys s1) k (Some acc) evs)
      (filter (\<lambda>(k, acc). \<not> has_call k s) (st_accum s))"
    unfolding pending_calls_def streamed_call_def by (intro map_cong refl) (auto simp: k dest: ne)
  have "st_accum s1 = st_accum s @ [(i, ?acc)]" by (simp add: s1)
  then have p: "pending_calls s1 evs = pending_calls s (?ev # evs) @ [streamed_call (keys s1) i (Some ?acc) evs]"
    unfolding q by (simp add: pending_calls_def h hi)
  have "coming_calls s (?ev # evs) = streamed_call (keys s1) i (Some ?acc) evs # coming_calls s1 evs"
    using new new_ids_fresh[of _ "keys s @ [i]" evs]
    by (auto simp: coming_calls_def streamed_call_def k intro!: arg_cong[of _ _ "\<lambda>c. parseAccumEntry (the c)"])
  moreover have "accum_ok s1" using ok new unfolding accum_ok_def k by (auto simp: s1)
  ultimately show ?thesis by (simp add: all_calls_def p) (simp add: s1)
qed

lemma call_ended:
  assumes ok: "accum_ok s" and acc: "(k, acc) \<in> set (st_accum s)" "aim (keys s) j = Some k" "\<not> has_call k s"
    and s1: "s1 = s\<lparr>st_toolCalls := st_toolCalls s @ [parseAccumEntry acc]\<rparr>"
  shows "accum_ok s1 \<and> all_calls s (CallEnd j # evs) = all_calls s1 evs"
proof -
  have id: "ac_id acc = k" using ok acc(1) by (auto simp: accum_ok_def)
  have kk: "k \<in> set (keys s)" using acc(1) by (force simp: keys_def)
  have ks: "keys s1 = keys s" by (simp add: keys_def s1)
  have h: "has_call i s1 \<longleftrightarrow> has_call i s \<or> i = k" for i using id by (auto simp: has_call_def s1)
  obtain xs ys where u: "st_accum s = xs @ (k, acc) # ys" using acc(1) by (auto simp: in_set_conv_decomp)
  have d: "k \<notin> fst ` set xs" "k \<notin> fst ` set ys" using ok u by (auto simp: accum_ok_def keys_def)
  have rest: "map (\<lambda>(k, acc). streamed_call (keys s) k (Some acc) (CallEnd j # evs)) (filter (\<lambda>(k, acc). \<not> has_call k s) zs)
      = map (\<lambda>(k, acc). streamed_call (keys s) k (Some acc) evs) (filter (\<lambda>(k, acc). \<not> has_call k s1) zs)"
    if "k \<notin> fst ` set zs" for zs
    using that acc(2) by (intro map_cong filter_cong refl) (force simp: h streamed_call_def)+
  have "mset (pending_calls s (CallEnd j # evs)) = add_mset (parseAccumEntry acc) (mset (pending_calls s1 evs))"
    using rest[OF d(1)] rest[OF d(2)] acc(2,3) h[of k]
    unfolding pending_calls_def ks by (simp add: s1 u streamed_call_def)
  moreover have "coming_calls s1 evs = coming_calls s (CallEnd j # evs)"
    unfolding coming_calls_def ks streamed_call_def using kk acc(2)
    by (auto dest: new_ids_fresh)
  moreover have "accum_ok s1" using ok id kk unfolding accum_ok_def ks by (auto simp: s1)
  ultimately show ?thesis by (simp add: all_calls_def) (simp add: s1)
qed

lemma accumulate_step:
  assumes ok: "accum_ok s" and e: "accumulateStreamEvent ev s = (out, s1)"
  shows "accum_ok s1 \<and> all_calls s (ev # evs) = all_calls s1 evs"
proof (cases ev)
  case (CallStart i n meta)
  let ?acc = "\<lparr> ac_id = i, ac_name = n, ac_args = [], ac_meta = meta \<rparr>"
  have s1: "s1 = s\<lparr>st_accum := AList.update i ?acc (st_accum s)\<rparr>" using e CallStart by (simp add: accumulateStreamEvent_def)
  show ?thesis
  proof (cases "i \<in> set (keys s)")
    case True
    then show ?thesis unfolding CallStart by (intro one_accumulator[OF ok True _ s1]) (simp_all add: start_id_def)
  next
    case False
    then have "i \<notin> fst ` set (st_accum s)" by (simp add: keys_def)
    from update_new_key[OF this] s1 show ?thesis unfolding CallStart by (intro call_started[OF ok False]) simp
  qed
next
  case (CallDelta j a)
  show ?thesis
  proof (cases "accumFor s j")
    case None
    then have "aim (keys s) j = None" "s1 = s" using accumFor_aim[OF ok, of j] e CallDelta by (auto simp: accumulateStreamEvent_def)
    then show ?thesis unfolding CallDelta by (intro same_accumulators[OF ok]) simp_all
  next
    case (Some acc)
    then obtain k where k: "aim (keys s) j = Some k" "(k, acc) \<in> set (st_accum s)" "ac_id acc = k"
      using accumFor_aim[OF ok, of j] by auto
    then have d: "k \<in> set (keys s)" "\<And>acc'. (k, acc') \<in> set (st_accum s) \<Longrightarrow> acc' = acc"
      using ok by (force simp: keys_def, auto simp: accum_ok_def keys_def dest: eq_key_imp_eq_value)
    have "s1 = s\<lparr>st_accum := AList.update k (acc\<lparr>ac_args := ac_args acc @ a\<rparr>) (st_accum s)\<rparr>"
      using e CallDelta Some k(3) by (simp add: accumulateStreamEvent_def)
    then show ?thesis unfolding CallDelta using d(2)
      by (intro one_accumulator[OF ok d(1)]) (auto simp: k)
  qed
next
  case (CallEnd j)
  show ?thesis
  proof (cases "accumFor s j")
    case None
    then have "aim (keys s) j = None" "s1 = s" using accumFor_aim[OF ok, of j] e CallEnd by (auto simp: accumulateStreamEvent_def)
    then show ?thesis unfolding CallEnd by (intro same_accumulators[OF ok]) simp_all
  next
    case (Some acc)
    then obtain k where k: "aim (keys s) j = Some k" "(k, acc) \<in> set (st_accum s)" "ac_id acc = k"
      using accumFor_aim[OF ok, of j] by auto
    then have d: "k \<in> set (keys s)" by (force simp: keys_def)
    show ?thesis
    proof (cases "has_call k s")
      case True
      then have "s1 = s" using e CallEnd Some k(3) by (simp add: accumulateStreamEvent_def)
      then show ?thesis unfolding CallEnd using True k(1) d by (intro same_accumulators[OF ok]) auto
    next
      case False
      then show ?thesis unfolding CallEnd using e Some k(3) CallEnd
        by (intro call_ended[OF ok k(2,1) False]) (simp add: accumulateStreamEvent_def)
    qed
  qed
next
  case (TextEvent t ph)
  show ?thesis unfolding TextEvent
    by (rule same_accumulators[OF ok]) (use e TextEvent in \<open>auto simp: accumulateStreamEvent_def split: if_splits\<close>)
next
  case (ThinkingEvent t)
  show ?thesis unfolding ThinkingEvent
    by (rule same_accumulators[OF ok]) (use e ThinkingEvent in \<open>auto simp: accumulateStreamEvent_def\<close>)
next
  case (UsageEvent u)
  show ?thesis unfolding UsageEvent
    by (rule same_accumulators[OF ok]) (use e UsageEvent in \<open>auto simp: accumulateStreamEvent_def\<close>)
next
  case (DoneEvent x y)
  show ?thesis unfolding DoneEvent
    by (rule same_accumulators[OF ok]) (use e DoneEvent in \<open>auto simp: accumulateStreamEvent_def\<close>)
next
  case (CitationEvent c)
  show ?thesis unfolding CitationEvent
    by (rule same_accumulators[OF ok]) (use e CitationEvent in \<open>auto simp: accumulateStreamEvent_def\<close>)
next
  case (OtherEvent t)
  show ?thesis unfolding OtherEvent
    by (rule same_accumulators[OF ok]) (use e OtherEvent in \<open>auto simp: accumulateStreamEvent_def\<close>)
qed

lemma accumulate_calls:
  "accum_ok s \<Longrightarrow> accumulate_all evs s = (outs, s') \<Longrightarrow> accum_ok s' \<and> all_calls s evs = all_calls s' []"
proof (induction evs arbitrary: s outs)
  case (Cons ev evs)
  obtain o1 s1 where 1: "accumulateStreamEvent ev s = (o1, s1)" by (rule prod.exhaust)
  obtain os s2 where 2: "accumulate_all evs s1 = (os, s2)" by (rule prod.exhaust)
  have s2: "s2 = s'" using Cons.prems(2) 1 2 by simp
  from accumulate_step[OF Cons.prems(1) 1, of evs] Cons.IH[OF _ 2[unfolded s2]] show ?case by simp
qed simp

section \<open>Arguments that were cut off\<close>

text \<open>A beginning of a JSON text is no JSON text, unless what is missing is white space.\<close>

lemma JSON_parse_cut:
  assumes "JSON_parse (p @ q) \<noteq> None" "skip_ws q \<noteq> []"
  shows "JSON_parse p \<noteq> Some (JObj kvs)"
proof
  assume "JSON_parse p = Some (JObj kvs)"
  then obtain r where r: "read_value (2 * length p + 1) p = Some (JObj kvs, r)" "skip_ws r = []"
    by (auto simp: JSON_parse_def split: option.splits if_splits)
  have "read_value (2 * length (p @ q) + 1) (p @ q) = Some (JObj kvs, r @ q)"
    by (rule read_more(1)[OF r(1)]) (simp_all add: complete_read_def)
  then have "skip_ws (r @ q) = []" using assms(1) by (auto simp: JSON_parse_def split: if_splits)
  then show False using assms(2) by (auto simp: skip_ws_def)
qed

lemma step_calls:
  "mset (st_toolCalls (finalizeUnendedToolCalls (snd (accumulate_all evs (makeStepState n)))))
    = mset (map (\<lambda>i. streamed_call [] i None evs) (new_ids [] evs))"
proof -
  obtain outs st where e: "accumulate_all evs (makeStepState n) = (outs, st)" by (rule prod.exhaust)
  have "accum_ok (makeStepState n)" by (simp add: accum_ok_def makeStepState_def keys_def)
  from accumulate_calls[OF this e]
  have "accum_ok st" "mset (st_toolCalls st @ pending_calls st []) = mset (map (\<lambda>i. streamed_call [] i None evs) (new_ids [] evs))"
    by (simp_all add: all_calls_def coming_calls_def makeStepState_def pending_calls_def keys_def)
  then show ?thesis by (simp add: e finalize_calls)
qed

text \<open>C15: Calls that stream at the same time do not mix: whatever events a provider sends, the step ends with one call per
  id that was started, read from exactly the fragments meant for it: those that carry its id, and those without
  an id or with an unknown one while it was the last to start, from its last start to the first end meant for it.\<close>
theorem interleaved_calls_kept_apart:
  "mset (st_toolCalls (finalizeUnendedToolCalls (snd (accumulate_all evs (makeStepState n)))))
    = mset (map (\<lambda>i. parseAccumEntry (the (call_of i [] None evs))) (new_ids [] evs))"
  using step_calls unfolding streamed_call_def .

text \<open>Two calls at once, whose fragments and ends carry their ids; and a provider that sends no ids with them.\<close>

lemma interleaved_fragments:
  "call_of ''a'' [] None [CallStart ''a'' n m, CallStart ''b'' n' m', CallDelta ''a'' x, CallDelta ''b'' y, CallDelta ''a'' z, CallEnd ''b'', CallEnd ''a'']
     = Some \<lparr> ac_id = ''a'', ac_name = n, ac_args = x @ z, ac_meta = m \<rparr>"
  "call_of ''b'' [] None [CallStart ''a'' n m, CallDelta [] x, CallEnd [], CallStart ''b'' n' m', CallDelta [] y, CallEnd []]
     = Some \<lparr> ac_id = ''b'', ac_name = n', ac_args = y, ac_meta = m' \<rparr>"
  by (simp_all add: aim_def start_id_def)

lemma text_report_skipped: "tr_skipped (text_report tc t latency sk err) = sk"
  by (simp add: text_report_def)

text \<open>C14: A tool never runs on arguments that were cut off: whatever events a provider sends, when what was received for a call
  is a proper beginning of the JSON text the model was writing, the call the step ends with is answered as an error
  before any hook, guardrail or tool sees it, and its report says it was skipped. (A call for which nothing but white
  space was received is a call without arguments: the code cannot tell the two apart and runs it with \<open>{}\<close>.)\<close>
theorem cut_arguments_never_run:
  assumes "tc \<in> set (st_toolCalls (finalizeUnendedToolCalls (snd (accumulate_all evs (makeStepState n)))))"
    "received = ac_args (the (call_of (ca_id tc) [] None evs))"
    "trim received \<noteq> []" "JSON_parse (received @ q) \<noteq> None" "skip_ws q \<noteq> []"
  shows "\<exists>t rep. start_call tc w = (Answered (text_result tc t True), (fst w, snd w @ [rep])) \<and> tr_skipped rep"
proof -
  have "tc \<in> set (map (\<lambda>i. streamed_call [] i None evs) (new_ids [] evs))"
    using assms(1) arg_cong[OF step_calls[of evs n], of set_mset] by simp
  then obtain i where i: "i \<in> set (new_ids [] evs)" "tc = parseAccumEntry (the (call_of i [] None evs))"
    by (auto simp: streamed_call_def)
  then obtain c where c: "call_of i [] None evs = Some c" using call_of_new by fastforce
  then have tc: "tc = parseAccumEntry c" "ca_id tc = i" using call_of_id[OF c] i(2) by simp_all
  then have "trim (ac_args c) \<noteq> []" "\<And>kvs. JSON_parse (ac_args c) \<noteq> Some (JObj kvs)"
    using assms(2,3) JSON_parse_cut[OF assms(4,5)] c by simp_all
  then have "ca_malformed tc" unfolding tc by (auto simp: parseAccumEntry_def Let_def split: option.split json.split)
  then show ?thesis unfolding start_call_def buildMalformedResult_def finish_call_def Let_def
    by (intro exI conjI, simp, simp add: text_report_skipped)
qed

text \<open>The second call is cut off; its fragment carries no id.\<close>

definition cut_call :: "stream_event list" where
  "cut_call = [CallStart ''a'' ''delete'' None, CallDelta ''a'' ''{}'', CallEnd [], CallStart ''b'' ''write'' None, CallDelta [] ''{'']"

lemma cut_arguments_never_run_witness:
  "\<exists>tc\<in>set (st_toolCalls (finalizeUnendedToolCalls (snd (accumulate_all cut_call (makeStepState 0))))).
     ca_id tc = ''b'' \<and> (\<forall>w. \<exists>t rep. start_call tc w = (Answered (text_result tc t True), (fst w, snd w @ [rep])) \<and> tr_skipped rep)"
proof -
  let ?calls = "st_toolCalls (finalizeUnendedToolCalls (snd (accumulate_all cut_call (makeStepState 0))))"
  have f: "ac_args (the (call_of ''b'' [] None cut_call)) = ''{''" by (simp add: cut_call_def aim_def start_id_def)
  have t: "trim ''{'' \<noteq> []" by code_simp
  have j: "JSON_parse (''{'' @ ''}'') \<noteq> None" by code_simp
  have s: "skip_ws ''}'' \<noteq> []" by code_simp
  have "map ca_id ?calls = [''a'', ''b'']" by code_simp
  then have "''b'' \<in> ca_id ` set ?calls" by (metis image_set list.set_intros(1) list.set_intros(2))
  then obtain tc where tc: "tc \<in> set ?calls" "ca_id tc = ''b''" by auto
  have "\<exists>t rep. start_call tc w = (Answered (text_result tc t True), (fst w, snd w @ [rep])) \<and> tr_skipped rep" for w
    by (rule cut_arguments_never_run[OF tc(1) refl, where q = "''}''"]) (use f t j s tc(2) in simp_all)
  then show ?thesis using tc by blast
qed

end
