(* ===== verification/AgentStream.thy ===== *)
theory AgentStream
  imports StepStream AgentReports ServerState
begin

text \<open>
  \<open>AgentLoop.stream\<close> (\<open>src/agent/loop.ts\<close>), the generator, with \<open>streamWithFallback\<close> (\<open>src/agent/fallback.ts\<close>). A stage is
  an \<open>await\<close> or a \<open>yield\<close>: at a \<open>yield\<close> the generator is parked until its consumer asks for the next event or leaves;
  a consumer that leaves runs the \<open>finally\<close> block. Runs, requests, tool calls and reports are those of \<open>AgentLoop\<close>.
\<close>

section \<open>State\<close>

text \<open>A streamed step also remembers the reason the provider gave, which its step report shows.\<close>

record streamed = served +
  sv_providerReason :: string

datatype yield_point =
    AtStepStart run
  | AtModelEvent run request nat step_state
  | AtStepEnd run streamed
  | AtCallStart run streamed "tool_call list"
  | AtCallEnd run streamed "tool_report list" "tool_report list" "content_part list"
  | AtDone

datatype outcome = ThrowsOut agent_error | Returns | YieldsDone llm_response

datatype stream_stage =
    NotBegun run_input run_options
  | InThunk run_input run_options
  | InRunStart run
  | Parked yield_point
  | InStepStart run
  | InInputGuard run "string option" "string list"
  | InInputTrip run "string option" string
  | InModel run request nat bool step_state
  | InClose run
  | InStepComplete run streamed
  | InOutputGuard run streamed "string list"
  | InOutputTrip run streamed string
  | InTools run streamed tool_pool
  | InRunError run agent_error
  | InSettle outcome
  | Ended "agent_error option"

record stream_state =
  sx_agent :: agent
  sx_stage :: stream_stage
  sx_yielded :: "agent_stream_event list"
  sx_background :: "(string \<times> nat \<times> tool_call \<times> tool_stage) list"

definition to_stage :: "stream_stage \<Rightarrow> agent \<Rightarrow> stream_state \<Rightarrow> stream_state" where
  "to_stage st a s = s\<lparr>sx_stage := st, sx_agent := a\<rparr>"

definition yield_event :: "agent_stream_event \<Rightarrow> yield_point \<Rightarrow> stream_state \<Rightarrow> stream_state" where
  "yield_event ev y s = s\<lparr>sx_stage := Parked y, sx_yielded := sx_yielded s @ [ev]\<rparr>"

definition has_calls :: "streamed \<Rightarrow> bool" where
  "has_calls sv = (re_toolCalls (sv_response sv) \<noteq> [])"

section \<open>The end of a run\<close>

definition streamed_text :: "end_reason \<Rightarrow> string option \<Rightarrow> nat \<Rightarrow> llm_response option \<Rightarrow> string" where
  "streamed_text reason tripReason maxSteps lst =
     (if reason = RunGuardrail then nullish tripReason []
      else if reason = RunMaxSteps then ''stopped: reached maxSteps ('' @ nat_to_string maxSteps @ '')''
      else (case lst of None \<Rightarrow> [] | Some x \<Rightarrow> re_text x))"

text \<open>The \<open>finally\<close> block up to the hook of \<open>finalizeRun\<close>. \<open>failure\<close>: the message of the report and the error thrown.\<close>

definition finish_stream ::
  "ms \<Rightarrow> end_reason \<Rightarrow> string option \<Rightarrow> (string option \<times> agent_error) option \<Rightarrow> run \<Rightarrow> stream_state \<Rightarrow> stream_state" where
  "finish_stream now reason tripReason failure r s =
     (let a = (sx_agent s)\<lparr>ag_running := False\<rparr>; model = cl_model (primary a);
          finalText = streamed_text reason tripReason (gc_maxSteps (ag_config a)) (rn_last r);
          report = run_report_of now model reason finalText (Option.bind failure fst) r;
          outcome = (case failure of
             Some (_, e) \<Rightarrow> ThrowsOut e
           | None \<Rightarrow> if reason = RunAborted then Returns else YieldsDone (buildFinalResponse now model reason finalText r))
      in to_stage (InSettle outcome) (emit (RunCompleted report) (a\<lparr>ag_reports := ag_reports a @ [report]\<rparr>)) s)"

definition record_error :: "agent_error \<Rightarrow> run \<Rightarrow> stream_state \<Rightarrow> stream_state" where
  "record_error e r s = to_stage (InRunError r e) (emit (RunErrorSeen (rn_id r) (error_message e)) (sx_agent s)) s"

section \<open>A step\<close>

definition next_step :: "ms \<Rightarrow> run \<Rightarrow> stream_state \<Rightarrow> stream_state" where
  "next_step now r s =
     (if ag_stopRequested (sx_agent s) then finish_stream now RunStopped None None r s
      else yield_event (OutStepStart (rn_stepCount r)) (AtStepStart r) s)"

definition announce_step :: "run \<Rightarrow> stream_state \<Rightarrow> stream_state" where
  "announce_step r s =
     to_stage (InStepStart r)
       (emit (StepStarted (rn_id r) (rn_stepCount r) (rn_stepCount r \<noteq> 0) (history_length (ag_history (sx_agent s)))) (sx_agent s)) s"

definition open_stream :: "run \<Rightarrow> request \<Rightarrow> nat \<Rightarrow> step_state \<Rightarrow> stream_state \<Rightarrow> stream_state" where
  "open_stream r req i st s =
     to_stage (InModel r req i False st)
       (emit (ModelRequested (gc_clientChain (ag_config (sx_agent s)) ! i) (rq_messages req) (rq_system req) (rq_tools req))
          (sx_agent s)) s"

definition request_stream :: "run \<Rightarrow> string option \<Rightarrow> stream_state \<Rightarrow> stream_state" where
  "request_stream r sys s =
     (let a = sx_agent s in
      open_stream r \<lparr> rq_messages = messages (ag_history a), rq_system = sys, rq_tools = toolDefinitions (op_tools (rn_options r)) a \<rparr>
        0 (makeStepState (rn_stepCount r)) s)"

definition stream_input_guards :: "run \<Rightarrow> string option \<Rightarrow> string list \<Rightarrow> stream_state \<Rightarrow> stream_state" where
  "stream_input_guards r sys guards s =
     (if guards = [] then request_stream r sys s else s\<lparr>sx_stage := InInputGuard r sys guards\<rparr>)"

text \<open>\<open>streamWithFallback\<close> after a failure of client \<open>i\<close>: only a stream that delivered nothing may be taken over.\<close>

definition stream_failed :: "run \<Rightarrow> request \<Rightarrow> nat \<Rightarrow> bool \<Rightarrow> step_state \<Rightarrow> agent_error \<Rightarrow> stream_state \<Rightarrow> stream_state" where
  "stream_failed r req i emitted st e s =
     (let chain = gc_clientChain (ag_config (sx_agent s));
          kinds = nullish (gc_fallbackOn (ag_config (sx_agent s))) DEFAULT_AGENT_FALLBACK_KINDS
      in if emitted \<or> i = length chain - 1 \<or> \<not> retryable_failure e kinds then record_error e r s
         else (let a = emit (AgentWarning ''model_fallback'' (''Model '' @ dquote (cl_model (chain ! i)) @ '' failed (''
                 @ (case kindOf e of Some k \<Rightarrow> kind_name k | None \<Rightarrow> ''error'') @ '': '' @ error_message e @ ''); falling back to ''
                 @ dquote (cl_model (chain ! (i + 1))) @ ''.'')) (sx_agent s)
               in open_stream r req (i + 1) st (s\<lparr>sx_agent := a\<rparr>)))"

definition stream_event_in :: "run \<Rightarrow> request \<Rightarrow> nat \<Rightarrow> step_state \<Rightarrow> stream_event \<Rightarrow> stream_state \<Rightarrow> stream_state" where
  "stream_event_in r req i st ev s =
     (case accumulateStreamEvent ev st of
        (None, st1) \<Rightarrow> s\<lparr>sx_stage := InModel r req i True st1\<rparr>
      | (Some out, st1) \<Rightarrow> yield_event out (AtModelEvent r req i st1) s)"

definition stream_finished :: "ms \<Rightarrow> string \<Rightarrow> run \<Rightarrow> client \<Rightarrow> step_state \<Rightarrow> stream_state \<Rightarrow> stream_state" where
  "stream_finished now fresh r by_client st s =
     (let st1 = finalizeUnendedToolCalls st; latency = now - rn_stepStart r;
          x = buildStepResponse latency fresh st1 (cl_model by_client);
          r1 = count_response now x r;
          sv = \<lparr> sv_response = x, sv_by = by_client, sv_latency = latency, sv_providerReason = st_finishReason st1 \<rparr>;
          a = append_message now (buildAssistantMessage now fresh x by_client)
                (Some \<lparr> am_model = Some (cl_model by_client), am_usage = Some (st_usage st1), am_latencyMs = Some latency \<rparr>) (sx_agent s);
          has = has_calls sv
      in to_stage (InStepComplete r1 sv)
           (emit (StepCompleted (rn_id r) (rn_stepCount r) has (has \<and> \<not> ag_stopRequested a)) a) s)"

definition stream_output_guards :: "run \<Rightarrow> streamed \<Rightarrow> string list \<Rightarrow> stream_state \<Rightarrow> stream_state" where
  "stream_output_guards r sv guards s =
     (if guards = [] then yield_event (OutStepEnd (rn_stepCount r) (re_usage (sv_response sv)) (sv_latency sv)) (AtStepEnd r sv) s
      else s\<lparr>sx_stage := InOutputGuard r sv guards\<rparr>)"

section \<open>The tool calls of a step\<close>

definition write_streamed_step :: "run \<Rightarrow> streamed \<Rightarrow> tool_report list \<Rightarrow> run" where
  "write_streamed_step r sv reports =
     write_step r ((served.truncate sv)\<lparr>sv_response := (sv_response sv)\<lparr>re_finishReason := sv_providerReason sv\<rparr>\<rparr>) (has_calls sv) reports"

definition close_streamed_step :: "ms \<Rightarrow> run \<Rightarrow> streamed \<Rightarrow> tool_report list \<Rightarrow> stream_state \<Rightarrow> stream_state" where
  "close_streamed_step now r sv reports s =
     (let r1 = write_streamed_step r sv reports in
      if \<not> has_calls sv then finish_stream now RunDone None None r1 s
      else if rn_stepCount r1 \<ge> gc_maxSteps (ag_config (sx_agent s)) then finish_stream now RunMaxSteps None None r1 s
      else next_step now r1 s)"

text \<open>\<open>emitToolCallEnds\<close>, then the results become part of the conversation.\<close>

definition report_call_ends ::
  "ms \<Rightarrow> run \<Rightarrow> streamed \<Rightarrow> tool_report list \<Rightarrow> tool_report list \<Rightarrow> content_part list \<Rightarrow> stream_state \<Rightarrow> stream_state" where
  "report_call_ends now r sv rest reports results s =
     (case rest of
        rep # others \<Rightarrow> yield_event (OutCallEnd (rn_stepCount r) (tr_callId rep) (tr_latencyMs rep)) (AtCallEnd r sv others reports results) s
      | [] \<Rightarrow> close_streamed_step now r sv reports
                (s\<lparr>sx_agent := append_message now (new_message Tool (ContentParts results)) None (sx_agent s)\<rparr>))"

definition advance_stream_pool :: "ms \<Rightarrow> run \<Rightarrow> streamed \<Rightarrow> tool_pool \<Rightarrow> stream_state \<Rightarrow> stream_state" where
  "advance_stream_pool now r sv pool s =
     (if list_all (\<lambda>(tc, st). settled st) (tp_slots pool) then
        (case start_calls (tp_waiting pool) (tp_slots pool) (sx_agent s, tp_reports pool) of
           (slots, waiting, (a, reports)) \<Rightarrow>
             if list_all (\<lambda>(tc, st). settled st) slots then
               report_call_ends now r sv reports reports (answers slots) (s\<lparr>sx_agent := a\<rparr>)
             else to_stage (InTools r sv \<lparr> tp_slots = slots, tp_waiting = waiting, tp_reports = reports \<rparr>) a s)
      else to_stage (InTools r sv pool) (sx_agent s) s)"

definition execute_streamed_calls :: "ms \<Rightarrow> run \<Rightarrow> streamed \<Rightarrow> stream_state \<Rightarrow> stream_state" where
  "execute_streamed_calls now r sv s =
     (let calls = re_toolCalls (sv_response sv) in
      if gc_parallelToolCalls (ag_config (sx_agent s)) \<and> length calls > 1 then
        (case start_every calls [] (sx_agent s, []) of
           (slots, (a, reports)) \<Rightarrow>
             advance_stream_pool now r sv \<lparr> tp_slots = slots, tp_waiting = [], tp_reports = reports \<rparr> (s\<lparr>sx_agent := a\<rparr>))
      else advance_stream_pool now r sv \<lparr> tp_slots = [], tp_waiting = calls, tp_reports = [] \<rparr> s)"

text \<open>\<open>emitToolCallStarts\<close>, then the calls.\<close>

definition announce_calls :: "ms \<Rightarrow> run \<Rightarrow> streamed \<Rightarrow> tool_call list \<Rightarrow> stream_state \<Rightarrow> stream_state" where
  "announce_calls now r sv rest s =
     (case rest of
        tc # others \<Rightarrow> yield_event (OutCallStart (rn_stepCount r) (ca_id tc) (ca_name tc) (ca_arguments tc)) (AtCallStart r sv others) s
      | [] \<Rightarrow> execute_streamed_calls now r sv s)"

definition stream_tool_answered :: "ms \<Rightarrow> run \<Rightarrow> streamed \<Rightarrow> tool_pool \<Rightarrow> nat \<Rightarrow> tool_answer \<Rightarrow> stream_state \<Rightarrow> stream_state" where
  "stream_tool_answered now r sv pool k ans s =
     (if k < length (tp_slots pool) then
        (case tp_slots pool ! k of (tc, st) \<Rightarrow>
         (case tool_step now (rn_id r) (rn_stepCount r) tc ans st (sx_agent s, tp_reports pool) of (st1, (a, reports)) \<Rightarrow>
            let slots = (tp_slots pool)[k := (tc, st1)]; s1 = s\<lparr>sx_agent := a\<rparr> in
            case st1 of
              Rejected e \<Rightarrow>
                record_error e r (s1\<lparr>sx_background := sx_background s1
                  @ map (\<lambda>(tc, st). (rn_id r, rn_stepCount r, tc, st)) (filter (\<lambda>(tc, st). \<not> settled st) slots)\<rparr>)
            | _ \<Rightarrow> advance_stream_pool now r sv (pool\<lparr>tp_slots := slots, tp_reports := reports\<rparr>) s1))
      else s)"

section \<open>The consumer\<close>

text \<open>The totals of a run are raised before the ends of its calls are announced, the step is written after.\<close>

definition count_calls :: "run \<Rightarrow> streamed \<Rightarrow> tool_report list \<Rightarrow> run" where
  "count_calls r sv reports =
     r\<lparr>rn_toolMs := rn_toolMs r + sum_list (map tr_latencyMs reports),
       rn_toolCallCount := rn_toolCallCount r + length (re_toolCalls (sv_response sv))\<rparr>"

definition begin_stream :: "ms \<Rightarrow> string \<Rightarrow> run_input \<Rightarrow> run_options \<Rightarrow> agent \<Rightarrow> stream_state \<Rightarrow> stream_state" where
  "begin_stream now fresh i options a s =
     to_stage (InRunStart (new_run now fresh 0 i options)) (emit (RunStarted fresh (toolNames a) (history_length (ag_history a))) a) s"

definition start_stream :: "ms \<Rightarrow> string \<Rightarrow> run_input \<Rightarrow> run_options \<Rightarrow> stream_state \<Rightarrow> stream_state" where
  "start_stream now fresh i options s =
     (if ag_running (sx_agent s) then s\<lparr>sx_stage := Ended (Some (PlainError ''AgentLoop is already running''))\<rparr>
      else (let a = (sx_agent s)\<lparr>ag_running := True, ag_stopRequested := False, ag_searches := 0\<rparr> in
            if gc_hasSystemThunk (ag_config a) then to_stage (InThunk i options) a s
            else begin_stream now fresh i options a s))"

text \<open>\<open>next()\<close>: starts the generator, or goes on after a \<open>yield\<close>.\<close>

definition consumer_next :: "ms \<Rightarrow> string \<Rightarrow> stream_state \<Rightarrow> stream_state" where
  "consumer_next now fresh s =
     (case sx_stage s of
        NotBegun i options \<Rightarrow> start_stream now fresh i options s
      | Parked y \<Rightarrow>
          (case y of
             AtStepStart r \<Rightarrow> announce_step r s
           | AtModelEvent r req i st \<Rightarrow> s\<lparr>sx_stage := InModel r req i True st\<rparr>
           | AtStepEnd r sv \<Rightarrow>
               if has_calls sv then announce_calls now r sv (re_toolCalls (sv_response sv)) s
               else close_streamed_step now r sv [] s
           | AtCallStart r sv rest \<Rightarrow> announce_calls now r sv rest s
           | AtCallEnd r sv rest reports results \<Rightarrow> report_call_ends now r sv rest reports results s
           | AtDone \<Rightarrow> s\<lparr>sx_stage := Ended None\<rparr>)
      | _ \<Rightarrow> s)"

text \<open>\<open>return()\<close> at a \<open>yield\<close>: inside the model's stream that stream is closed first, elsewhere \<open>finally\<close> runs at once.\<close>

definition consumer_leaves :: "ms \<Rightarrow> stream_state \<Rightarrow> stream_state" where
  "consumer_leaves now s =
     (case sx_stage s of
        NotBegun i options \<Rightarrow> s\<lparr>sx_stage := Ended None\<rparr>
      | Parked y \<Rightarrow>
          (case y of
             AtStepStart r \<Rightarrow> finish_stream now RunAborted None None r s
           | AtModelEvent r req i st \<Rightarrow> s\<lparr>sx_stage := InClose r\<rparr>
           | AtStepEnd r sv \<Rightarrow> finish_stream now RunAborted None None r s
           | AtCallStart r sv rest \<Rightarrow> finish_stream now RunAborted None None r s
           | AtCallEnd r sv rest reports results \<Rightarrow> finish_stream now RunAborted None None (count_calls r sv reports) s
           | AtDone \<Rightarrow> s\<lparr>sx_stage := Ended None\<rparr>)
      | _ \<Rightarrow> s)"

section \<open>Answers\<close>

datatype stream_answer =
    HookReturned
  | AnswerThrew agent_error
  | ThunkGave string
  | GuardSaid bool bool string
  | EventCame stream_event
  | StreamOver

definition stream_reply :: "ms \<Rightarrow> string \<Rightarrow> stream_answer \<Rightarrow> stream_state \<Rightarrow> stream_state" where
  "stream_reply now fresh ans s =
     (case sx_stage s of
        InThunk i options \<Rightarrow>
          (case ans of
             ThunkGave v \<Rightarrow> begin_stream now fresh i options (apply_thunk now v (sx_agent s)) s
           | AnswerThrew e \<Rightarrow> s\<lparr>sx_stage := Ended (Some e)\<rparr> | _ \<Rightarrow> s)
      | InRunStart r \<Rightarrow>
          (case ans of
             HookReturned \<Rightarrow> next_step now r (s\<lparr>sx_agent := admit_input now (rn_input r) (sx_agent s)\<rparr>)
           | AnswerThrew e \<Rightarrow> s\<lparr>sx_stage := Ended (Some e)\<rparr> | _ \<Rightarrow> s)
      | InStepStart r \<Rightarrow>
          (case ans of
             HookReturned \<Rightarrow>
               stream_input_guards (r\<lparr>rn_stepStart := now\<rparr>) (composed_system now r (sx_agent s)) (guards_of InputGuard (sx_agent s)) s
           | AnswerThrew e \<Rightarrow> record_error e r s | _ \<Rightarrow> s)
      | InInputGuard r sys guards \<Rightarrow>
          (case ans of
             GuardSaid pass tripwire reason \<Rightarrow>
               if \<not> pass \<and> tripwire
               then to_stage (InInputTrip r sys reason) (guardrail_tripped InputGuard r (hd guards) reason (sx_agent s)) s
               else stream_input_guards r sys (tl guards) s
           | AnswerThrew e \<Rightarrow> record_error e r s | _ \<Rightarrow> s)
      | InInputTrip r sys reason \<Rightarrow>
          (case ans of
             HookReturned \<Rightarrow>
               if reason \<noteq> [] then finish_stream now RunGuardrail (Some reason) None r s else request_stream r sys s
           | AnswerThrew e \<Rightarrow> record_error e r s | _ \<Rightarrow> s)
      | InModel r req i emitted st \<Rightarrow>
          (case ans of
             EventCame ev \<Rightarrow> stream_event_in r req i st ev s
           | StreamOver \<Rightarrow> stream_finished now fresh r (gc_clientChain (ag_config (sx_agent s)) ! i) st s
           | AnswerThrew e \<Rightarrow> stream_failed r req i emitted st e s | _ \<Rightarrow> s)
      | InClose r \<Rightarrow>
          (case ans of
             HookReturned \<Rightarrow> finish_stream now RunAborted None None r s
           | AnswerThrew e \<Rightarrow> record_error e r s | _ \<Rightarrow> s)
      | InStepComplete r sv \<Rightarrow>
          (case ans of
             HookReturned \<Rightarrow> stream_output_guards r sv (guards_of OutputGuard (sx_agent s)) s
           | AnswerThrew e \<Rightarrow> record_error e r s | _ \<Rightarrow> s)
      | InOutputGuard r sv guards \<Rightarrow>
          (case ans of
             GuardSaid pass tripwire reason \<Rightarrow>
               if \<not> pass \<and> tripwire
               then to_stage (InOutputTrip r sv reason) (guardrail_tripped OutputGuard r (hd guards) reason (sx_agent s)) s
               else stream_output_guards r sv (tl guards) s
           | AnswerThrew e \<Rightarrow> record_error e r s | _ \<Rightarrow> s)
      | InOutputTrip r sv reason \<Rightarrow>
          (case ans of
             HookReturned \<Rightarrow>
               if reason \<noteq> [] then finish_stream now RunGuardrail (Some reason) None r s
               else stream_output_guards r sv [] s
           | AnswerThrew e \<Rightarrow> record_error e r s | _ \<Rightarrow> s)
      | InRunError r e \<Rightarrow>
          (case ans of
             HookReturned \<Rightarrow> finish_stream now RunFailed None (Some (Some (error_message e), e)) r s
           | AnswerThrew e1 \<Rightarrow> finish_stream now RunFailed None (Some (None, PlainError ''agent run failed'')) r s
           | _ \<Rightarrow> s)
      | InSettle out \<Rightarrow>
          (case ans of
             HookReturned \<Rightarrow>
               (case out of ThrowsOut e \<Rightarrow> s\<lparr>sx_stage := Ended (Some e)\<rparr> | Returns \<Rightarrow> s\<lparr>sx_stage := Ended None\<rparr>
                          | YieldsDone x \<Rightarrow> yield_event (OutDone x) AtDone s)
           | AnswerThrew e \<Rightarrow> s\<lparr>sx_stage := Ended (Some e)\<rparr> | _ \<Rightarrow> s)
      | _ \<Rightarrow> s)"

datatype stream_action =
    ConsumerNext
  | ConsumerLeaves
  | StreamReply stream_answer
  | StreamToolReply nat tool_answer
  | LateToolReply nat tool_answer
  | StreamHost host_op

definition stream_step :: "ms \<Rightarrow> string \<Rightarrow> stream_action \<Rightarrow> stream_state \<Rightarrow> stream_state" where
  "stream_step now fresh ev s = (case ev of
      ConsumerNext \<Rightarrow> consumer_next now fresh s
    | ConsumerLeaves \<Rightarrow> consumer_leaves now s
    | StreamReply ans \<Rightarrow> stream_reply now fresh ans s
    | StreamToolReply k ans \<Rightarrow> (case sx_stage s of InTools r sv pool \<Rightarrow> stream_tool_answered now r sv pool k ans s | _ \<Rightarrow> s)
    | LateToolReply k ans \<Rightarrow>
        (if k < length (sx_background s) then
           (case sx_background s ! k of (rid, n, tc, st) \<Rightarrow>
            (case tool_step now rid n tc ans st (sx_agent s, []) of (st1, (a, _)) \<Rightarrow>
               s\<lparr>sx_agent := a, sx_background := (sx_background s)[k := (rid, n, tc, st1)]\<rparr>))
         else s)
    | StreamHost h \<Rightarrow> s\<lparr>sx_agent := host_step now h (sx_agent s)\<rparr>)"

fun stream_run :: "(ms \<times> string \<times> stream_action) list \<Rightarrow> stream_state \<Rightarrow> stream_state" where
  "stream_run [] s = s"
| "stream_run ((now, fresh, ev) # evs) s = stream_run evs (stream_step now fresh ev s)"

definition new_stream :: "agent \<Rightarrow> run_input \<Rightarrow> run_options \<Rightarrow> stream_state" where
  "new_stream a i options = \<lparr> sx_agent = a, sx_stage = NotBegun i options, sx_yielded = [], sx_background = [] \<rparr>"

section \<open>Every stream is recorded once\<close>

definition done_events :: "agent_stream_event list \<Rightarrow> agent_stream_event list" where
  "done_events outs = filter (\<lambda>o'. case o' of OutDone x \<Rightarrow> True | _ \<Rightarrow> False) outs"

lemma done_events_simps [simp]:
  "done_events [] = []" "done_events (xs @ ys) = done_events xs @ done_events ys" "done_events [OutDone x] = [OutDone x]"
  "done_events [OutStepStart n] = []" "done_events [OutStepEnd n u t] = []" "done_events [OutCallStart n c nm args] = []"
  "done_events [OutCallEnd n c t] = []"
  by (simp_all add: done_events_def)

lemma model_event_not_done [simp]: "accumulateStreamEvent ev st = (Some out, st1) \<Longrightarrow> done_events [out] = []"
  by (cases ev) (auto simp: accumulateStreamEvent_def done_events_def split: option.splits)

definition live :: "run_report list \<Rightarrow> stream_state \<Rightarrow> bool" where
  "live R s \<longleftrightarrow> ag_reports (sx_agent s) = R \<and> ag_running (sx_agent s) \<and> done_events (sx_yielded s) = []"

definition recorded :: "run_report list \<Rightarrow> run_report \<Rightarrow> stream_state \<Rightarrow> bool" where
  "recorded R rep s \<longleftrightarrow> ag_reports (sx_agent s) = R @ [rep] \<and> \<not> ag_running (sx_agent s)"

definition answered_end :: "run_report \<Rightarrow> bool" where
  "answered_end rep \<longleftrightarrow> ru_end rep \<noteq> RunFailed \<and> ru_end rep \<noteq> RunAborted"

definition ended_well :: "run_report \<Rightarrow> agent_error option \<Rightarrow> agent_stream_event list \<Rightarrow> bool" where
  "ended_well rep e outs \<longleftrightarrow>
     (case e of
        Some err \<Rightarrow> done_events outs = []
      | None \<Rightarrow> done_events outs = [] \<and> ru_end rep = RunAborted
                \<or> (\<exists>x ys. outs = ys @ [OutDone x] \<and> done_events ys = []) \<and> answered_end rep)"

definition stream_inv :: "run_report list \<Rightarrow> stream_state \<Rightarrow> bool" where
  "stream_inv R s \<longleftrightarrow> (case sx_stage s of
      NotBegun i options \<Rightarrow> ag_reports (sx_agent s) = R \<and> sx_yielded s = []
    | InThunk i options \<Rightarrow> live R s \<and> sx_yielded s = []
    | InRunStart r \<Rightarrow> live R s \<and> sx_yielded s = []
    | Parked y \<Rightarrow>
        (case y of
           AtDone \<Rightarrow> \<exists>rep. recorded R rep s \<and> answered_end rep \<and> (\<exists>x ys. sx_yielded s = ys @ [OutDone x] \<and> done_events ys = [])
         | _ \<Rightarrow> live R s)
    | InSettle out \<Rightarrow> done_events (sx_yielded s) = [] \<and> (\<exists>rep. recorded R rep s
        \<and> (case out of ThrowsOut e \<Rightarrow> True | Returns \<Rightarrow> ru_end rep = RunAborted | YieldsDone x \<Rightarrow> answered_end rep))
    | Ended e \<Rightarrow> ag_reports (sx_agent s) = R \<and> sx_yielded s = [] \<or> (\<exists>rep. recorded R rep s \<and> ended_well rep e (sx_yielded s))
    | _ \<Rightarrow> live R s)"

lemma stream_inv_at [simp]:
  "stream_inv R (s\<lparr>sx_stage := Ended e\<rparr>) \<longleftrightarrow>
     ag_reports (sx_agent s) = R \<and> sx_yielded s = [] \<or> (\<exists>rep. recorded R rep s \<and> ended_well rep e (sx_yielded s))"
  by (simp add: stream_inv_def recorded_def)

lemma live_updates [simp]:
  "live R (s\<lparr>sx_stage := st\<rparr>) = live R s" "live R (s\<lparr>sx_background := b\<rparr>) = live R s"
  "ag_reports a = ag_reports (sx_agent s) \<Longrightarrow> ag_running a = ag_running (sx_agent s) \<Longrightarrow> live R (s\<lparr>sx_agent := a\<rparr>) = live R s"
  by (simp_all add: live_def)

lemma inv_finish [simp]:
  assumes "live R s" "reason = RunFailed \<longleftrightarrow> failure \<noteq> None"
  shows "stream_inv R (finish_stream now reason trip failure r s)"
  using assms by (cases failure) (auto simp: stream_inv_def finish_stream_def Let_def to_stage_def recorded_def live_def
      run_report_of_def answered_end_def split: prod.split)

lemma inv_record [simp]: "live R s \<Longrightarrow> stream_inv R (record_error e r s)"
  by (simp add: record_error_def to_stage_def stream_inv_def live_def)

lemma inv_next_step [simp]: "live R s \<Longrightarrow> stream_inv R (next_step now r s)"
  by (simp add: next_step_def yield_event_def) (simp add: stream_inv_def live_def)

lemma inv_announce_step [simp]: "live R s \<Longrightarrow> stream_inv R (announce_step r s)"
  by (simp add: announce_step_def to_stage_def stream_inv_def live_def)

lemma inv_open [simp]: "live R s \<Longrightarrow> stream_inv R (open_stream r req k st s)"
  by (simp add: open_stream_def to_stage_def stream_inv_def live_def)

lemma inv_request [simp]: "live R s \<Longrightarrow> stream_inv R (request_stream r sys s)"
  by (simp add: request_stream_def Let_def)

lemma inv_input_guards [simp]: "live R s \<Longrightarrow> stream_inv R (stream_input_guards r sys gs s)"
  by (simp add: stream_input_guards_def) (simp add: stream_inv_def live_def)

lemma inv_failed [simp]: "live R s \<Longrightarrow> stream_inv R (stream_failed r req k emitted st e s)"
  by (simp add: stream_failed_def Let_def)

lemma inv_event_in [simp]: "live R s \<Longrightarrow> stream_inv R (stream_event_in r req k st ev s)"
  by (auto simp: stream_event_in_def yield_event_def stream_inv_def live_def split: prod.split option.split)

lemma inv_finished [simp]: "live R s \<Longrightarrow> stream_inv R (stream_finished now fresh r c st s)"
  by (simp add: stream_finished_def Let_def to_stage_def stream_inv_def live_def)

lemma inv_output_guards [simp]: "live R s \<Longrightarrow> stream_inv R (stream_output_guards r sv gs s)"
  by (simp add: stream_output_guards_def yield_event_def stream_inv_def live_def)

lemma inv_close_step [simp]: "live R s \<Longrightarrow> stream_inv R (close_streamed_step now r sv reports s)"
  by (simp add: close_streamed_step_def Let_def)

lemma inv_call_ends [simp]: "live R s \<Longrightarrow> stream_inv R (report_call_ends now r sv rest reports results s)"
  by (cases rest) (simp_all add: report_call_ends_def yield_event_def, simp add: stream_inv_def live_def)

lemma inv_pool [simp]: "live R s \<Longrightarrow> stream_inv R (advance_stream_pool now r sv pool s)"
proof -
  assume l: "live R s"
  obtain slots waiting a reports where c: "start_calls (tp_waiting pool) (tp_slots pool) (sx_agent s, tp_reports pool) = (slots, waiting, (a, reports))"
    by (metis prod.exhaust)
  then have "ag_reports a = ag_reports (sx_agent s)" "ag_running a = ag_running (sx_agent s)"
    using start_calls_facts[of "tp_waiting pool" "tp_slots pool" "(sx_agent s, tp_reports pool)"] by simp_all
  then show ?thesis using l c by (simp add: advance_stream_pool_def to_stage_def) (simp add: stream_inv_def live_def)
qed

lemma inv_execute [simp]: "live R s \<Longrightarrow> stream_inv R (execute_streamed_calls now r sv s)"
proof -
  assume l: "live R s"
  obtain slots a reports where c: "start_every (re_toolCalls (sv_response sv)) [] (sx_agent s, []) = (slots, (a, reports))"
    by (metis prod.exhaust)
  then have "ag_reports a = ag_reports (sx_agent s)" "ag_running a = ag_running (sx_agent s)"
    using start_every_facts[of "re_toolCalls (sv_response sv)" "[]" "(sx_agent s, [])"] by simp_all
  then show ?thesis using l c by (simp add: execute_streamed_calls_def Let_def)
qed

lemma inv_announce_calls [simp]: "live R s \<Longrightarrow> stream_inv R (announce_calls now r sv rest s)"
  by (cases rest) (simp_all add: announce_calls_def yield_event_def, simp add: stream_inv_def live_def)

lemma inv_tool_answered:
  assumes "live R s" "stream_inv R s"
  shows "stream_inv R (stream_tool_answered now r sv pool k ans s)"
proof (cases "k < length (tp_slots pool)")
  case True
  obtain tc st where k: "tp_slots pool ! k = (tc, st)" by (rule prod.exhaust)
  obtain st1 a reports where t: "tool_step now (rn_id r) (rn_stepCount r) tc ans st (sx_agent s, tp_reports pool) = (st1, (a, reports))"
    by (metis prod.exhaust)
  then have "ag_reports a = ag_reports (sx_agent s)" "ag_running a = ag_running (sx_agent s)"
    using tool_step_facts[of now "rn_id r" "rn_stepCount r" tc ans st "(sx_agent s, tp_reports pool)"] by simp_all
  then show ?thesis using True k t assms(1) by (simp add: stream_tool_answered_def Let_def split: tool_stage.split)
qed (simp add: stream_tool_answered_def assms)

lemma inv_begin [simp]: "live R s \<Longrightarrow> sx_yielded s = [] \<Longrightarrow> ag_reports a = R \<Longrightarrow> ag_running a \<Longrightarrow> stream_inv R (begin_stream now fresh i options a s)"
  by (simp add: begin_stream_def to_stage_def stream_inv_def live_def)

lemma inv_consumer_next: "stream_inv R s \<Longrightarrow> stream_inv R (consumer_next now fresh s)"
proof (cases "sx_stage s")
  case (NotBegun i options)
  assume "stream_inv R s"
  then have "ag_reports (sx_agent s) = R" "sx_yielded s = []" using NotBegun by (simp_all add: stream_inv_def)
  then show ?thesis using NotBegun
    by (simp add: consumer_next_def start_stream_def Let_def begin_stream_def to_stage_def) (simp add: stream_inv_def live_def)
next
  case (Parked y)
  assume i: "stream_inv R s"
  show ?thesis
  proof (cases y)
    case (AtModelEvent r req k st)
    then show ?thesis using i Parked by (simp add: consumer_next_def) (simp add: stream_inv_def)
  next
    case AtDone
    then show ?thesis using i Parked by (auto simp: consumer_next_def) (auto simp: stream_inv_def ended_well_def)
  qed (use i Parked in \<open>simp_all add: consumer_next_def stream_inv_def[of R s]\<close>)
qed (simp_all add: consumer_next_def)

lemma inv_consumer_leaves: "stream_inv R s \<Longrightarrow> stream_inv R (consumer_leaves now s)"
proof (cases "sx_stage s")
  case (NotBegun i options)
  assume "stream_inv R s"
  then show ?thesis using NotBegun by (simp add: consumer_leaves_def) (simp add: stream_inv_def)
next
  case (Parked y)
  assume i: "stream_inv R s"
  show ?thesis
  proof (cases y)
    case (AtModelEvent r req k st)
    then show ?thesis using i Parked by (simp add: consumer_leaves_def) (simp add: stream_inv_def)
  next
    case AtDone
    then show ?thesis using i Parked by (auto simp: consumer_leaves_def) (auto simp: stream_inv_def ended_well_def)
  qed (use i Parked in \<open>simp_all add: consumer_leaves_def stream_inv_def[of R s]\<close>)
qed (simp_all add: consumer_leaves_def)

lemma inv_to_stage:
  "live R s \<Longrightarrow> ag_reports a = ag_reports (sx_agent s) \<Longrightarrow> ag_running a = ag_running (sx_agent s) \<Longrightarrow>
   stream_inv R (to_stage (InInputTrip r sys m) a s) \<and> stream_inv R (to_stage (InOutputTrip r sv m) a s)"
  by (simp add: to_stage_def stream_inv_def)

lemma tripped_keeps [simp]:
  "ag_reports (guardrail_tripped k r n m a) = ag_reports a" "ag_running (guardrail_tripped k r n m a) = ag_running a"
  by (simp_all add: guardrail_tripped_def)

lemma inv_reply:
  assumes i: "stream_inv R s"
  shows "stream_inv R (stream_reply now fresh ans s)"
proof (cases "sx_stage s")
  case (InThunk inp options)
  then have "live R s" "sx_yielded s = []" using i by (simp_all add: stream_inv_def)
  then show ?thesis using InThunk i by (cases ans) (simp_all add: stream_reply_def, simp_all add: live_def)
next
  case (InRunStart r)
  then have "live R s" "sx_yielded s = []" using i by (simp_all add: stream_inv_def)
  then show ?thesis using InRunStart i by (cases ans) (simp_all add: stream_reply_def, simp_all add: live_def)
next
  case (InSettle out)
  then obtain rep where r: "recorded R rep s" "done_events (sx_yielded s) = []"
    "case out of ThrowsOut e \<Rightarrow> True | Returns \<Rightarrow> ru_end rep = RunAborted | YieldsDone x \<Rightarrow> answered_end rep"
    using i by (auto simp: stream_inv_def)
  have "stream_inv R (yield_event (OutDone x) AtDone s)" if "answered_end rep" for x
    using r(1,2) that by (auto simp: yield_event_def stream_inv_def recorded_def)
  then show ?thesis using InSettle r i
    by (cases ans; cases out) (auto simp: stream_reply_def ended_well_def)
next
  case (InInputGuard r sys gs)
  then have "live R s" using i by (simp add: stream_inv_def)
  then show ?thesis using InInputGuard i inv_to_stage[of R s] by (cases ans) (simp_all add: stream_reply_def)
next
  case (InOutputGuard r sv gs)
  then have "live R s" using i by (simp add: stream_inv_def)
  then show ?thesis using InOutputGuard i inv_to_stage[of R s] by (cases ans) (simp_all add: stream_reply_def)
next
  case (InStepStart r)
  then have "live R s" using i by (simp add: stream_inv_def)
  then show ?thesis using InStepStart i by (cases ans) (simp_all add: stream_reply_def)
next
  case (InInputTrip r sys m)
  then have "live R s" using i by (simp add: stream_inv_def)
  then show ?thesis using InInputTrip i by (cases ans) (simp_all add: stream_reply_def)
next
  case (InModel r req k em st)
  then have "live R s" using i by (simp add: stream_inv_def)
  then show ?thesis using InModel i by (cases ans) (simp_all add: stream_reply_def)
next
  case (InClose r)
  then have "live R s" using i by (simp add: stream_inv_def)
  then show ?thesis using InClose i by (cases ans) (simp_all add: stream_reply_def)
next
  case (InStepComplete r sv)
  then have "live R s" using i by (simp add: stream_inv_def)
  then show ?thesis using InStepComplete i by (cases ans) (simp_all add: stream_reply_def)
next
  case (InOutputTrip r sv m)
  then have "live R s" using i by (simp add: stream_inv_def)
  then show ?thesis using InOutputTrip i by (cases ans) (simp_all add: stream_reply_def)
next
  case (InRunError r e)
  then have "live R s" using i by (simp add: stream_inv_def)
  then show ?thesis using InRunError i by (cases ans) (simp_all add: stream_reply_def)
qed (use i in \<open>simp_all add: stream_reply_def\<close>)

text \<open>What happens beside the generator.\<close>

lemma inv_agent:
  assumes "stream_inv R s" "ag_reports a = ag_reports (sx_agent s)" "ag_running a = ag_running (sx_agent s)"
  shows "stream_inv R (s\<lparr>sx_agent := a, sx_background := b\<rparr>)" "stream_inv R (s\<lparr>sx_agent := a\<rparr>)"
  using assms by (simp_all add: stream_inv_def live_def recorded_def cong: stream_stage.case_cong yield_point.case_cong)

lemma inv_step: "stream_inv R s \<Longrightarrow> stream_inv R (stream_step now fresh ev s)"
proof (cases ev)
  case (StreamToolReply k ans)
  assume i: "stream_inv R s"
  show ?thesis
  proof (cases "sx_stage s")
    case (InTools r sv pool)
    then have "live R s" using i by (simp add: stream_inv_def)
    then show ?thesis using StreamToolReply InTools i by (simp add: stream_step_def inv_tool_answered)
  qed (simp_all add: stream_step_def StreamToolReply i)
next
  case (LateToolReply k ans)
  assume i: "stream_inv R s"
  obtain rid n tc st where b: "sx_background s ! k = (rid, n, tc, st)" by (metis prod.exhaust)
  obtain st1 a reps where t: "tool_step now rid n tc ans st (sx_agent s, []) = (st1, (a, reps))" by (metis prod.exhaust)
  then have "ag_reports a = ag_reports (sx_agent s)" "ag_running a = ag_running (sx_agent s)"
    using tool_step_facts[of now rid n tc ans st "(sx_agent s, [])"] by simp_all
  then show ?thesis using LateToolReply b t i by (simp add: stream_step_def inv_agent)
qed (simp_all add: stream_step_def inv_consumer_next inv_consumer_leaves inv_reply inv_agent)

lemma inv_run: "stream_inv R s \<Longrightarrow> stream_inv R (stream_run evs s)"
  by (induction evs s rule: stream_run.induct) (simp_all add: inv_step)

text \<open>C13: Whatever the consumer does, every stream that yielded anything is recorded exactly once, and the report says how it
  ended: a generator that returns without a \<open>done\<close> event was left early and is reported as aborted, a \<open>done\<close> event is the
  last event and stands for a run that neither failed nor was aborted, and one that throws never gave a \<open>done\<close> event. In
  each case the agent is free for the next run.\<close>
theorem stream_recorded_once:
  assumes "sx_stage (stream_run evs (new_stream a i options)) = Ended e" "sx_yielded (stream_run evs (new_stream a i options)) \<noteq> []"
  shows "\<exists>rep. ag_reports (sx_agent (stream_run evs (new_stream a i options))) = ag_reports a @ [rep]
     \<and> \<not> ag_running (sx_agent (stream_run evs (new_stream a i options)))
     \<and> ended_well rep e (sx_yielded (stream_run evs (new_stream a i options)))"
proof -
  have "stream_inv (ag_reports a) (new_stream a i options)" by (simp add: new_stream_def stream_inv_def)
  from inv_run[OF this, of evs] show ?thesis using assms by (auto simp: stream_inv_def recorded_def)
qed

text \<open>A consumer that leaves after the first event.\<close>

definition left_early :: "(ms \<times> string \<times> stream_action) list" where
  "left_early = [(0, ''r'', ConsumerNext), (0, ''r'', StreamReply HookReturned), (0, ''r'', ConsumerLeaves), (0, ''r'', StreamReply HookReturned)]"

lemma sample_agent_idle [simp]:
  "ag_running (sample_agent None) = False" "ag_reports (sample_agent None) = []" "gc_hasSystemThunk (ag_config (sample_agent None)) = False"
  by (simp_all add: sample_defs)

lemma admit_stop [simp]: "ag_stopRequested (admit_input now i a) = ag_stopRequested a"
  by (simp add: admit_input_def repairUnansweredToolCalls_def Let_def)

lemma left_early_run:
  "sx_stage (stream_run left_early (new_stream (sample_agent None) (InputText ''hi'') no_options_given)) = Ended None"
  "sx_yielded (stream_run left_early (new_stream (sample_agent None) (InputText ''hi'') no_options_given)) = [OutStepStart 0]"
  by (simp_all add: left_early_def new_stream_def stream_step_def consumer_next_def start_stream_def begin_stream_def to_stage_def
      stream_reply_def next_step_def yield_event_def consumer_leaves_def finish_stream_def Let_def new_run_def)

lemma stream_recorded_once_witness:
  "\<exists>rep. ag_reports (sx_agent (stream_run left_early (new_stream (sample_agent None) (InputText ''hi'') no_options_given))) = [rep]
     \<and> ru_end rep = RunAborted"
proof -
  let ?s = "stream_run left_early (new_stream (sample_agent None) (InputText ''hi'') no_options_given)"
  have y: "sx_yielded ?s \<noteq> []" by (simp only: left_early_run) simp
  obtain rep where r: "ag_reports (sx_agent ?s) = ag_reports (sample_agent None) @ [rep]" "ended_well rep None (sx_yielded ?s)"
    using stream_recorded_once[OF left_early_run(1) y] by blast
  have "ended_well rep None [OutStepStart 0]" using r(2) by (simp only: left_early_run)
  then have "ru_end rep = RunAborted" by (auto simp: ended_well_def)
  then show ?thesis using r(1) by auto
qed

section \<open>Server state after a streamed turn\<close>

text \<open>A streamed step has no response id of the provider, so its answer is kept under a made-up one. On an API with server
  state the next turn takes that id for a turn the provider keeps: it names it and sends only what came after.\<close>

lemma streamed_turn_continues_unknown_state:
  assumes "cl_api c = ''responses'' \<or> cl_api c = ''interactions''" "fresh \<noteq> []" "rest \<noteq> []" "\<forall>m\<in>set rest. \<not> carries_state m"
    "supportsPreviousResponseId (cl_provider c) (cl_model c) cat"
    "parseDurationOrNull (getStateRetention (cl_provider c) (cl_model c) cat) = Some ttl" "\<forall>x. ttl = Some x \<longrightarrow> now - t \<le> x"
  shows "resolveServerState (pre @ buildAssistantMessage t i (buildStepResponse l fresh st (cl_model c)) c # rest)
      (cl_provider c) (cl_model c) cat True now
    = Some \<lparr> sd_previousResponseId = Some fresh, sd_messages = rest \<rparr>"
proof -
  let ?m = "buildAssistantMessage t i (buildStepResponse l fresh st (cl_model c)) c"
  have o: "msg_origin ?m = Some \<lparr> mo_provider = cl_provider c, mo_model = Some (cl_model c), mo_serverStateId = Some fresh,
      mo_signatures = None \<rparr>" "msg_createdAt ?m = Some t" "msg_role ?m = Assistant"
    using assms(1,2) by (auto simp: buildAssistantMessage_def buildStepResponse_def Let_def)
  then have c: "carries_state ?m" using assms(2) by (simp add: carries_state_def state_id_def truthy_str_def)
  have "last_state rest = None"
  proof (cases "last_state rest")
    case (Some k)
    then show ?thesis using last_state_Some[OF Some] assms(4) by auto
  qed
  then have "last_state (pre @ ?m # rest) = Some (length pre)"
    using c by (induction pre) simp_all
  then show ?thesis using o assms(2,3,5,6,7)
    by (cases ttl) (auto simp: resolveServerState_def Let_def truthy_str_def nth_append)
qed

end
