(* ===== verification/WireEval.thy ===== *)
theory WireEval
  imports Json
begin

text \<open>
  The evaluator of the wire specs (\<open>src/wire/interpreter.ts\<close>): paths into JSON values, conditions and templates.
  Specs, conditions and templates are JSON, read by their keys as the code reads them. The registry of named transforms,
  builders, predicates and effects is an argument, as in the code. \<open>None\<close> is \<open>undefined\<close> (and \<open>OMIT\<close> for a template). An
  argument of a shape its type excludes is a \<open>TypeError\<close>; names inherited from the prototypes are not modelled.
\<close>

section \<open>Paths\<close>

definition index_name :: "string \<Rightarrow> bool" where
  "index_name k = (k \<noteq> [] \<and> list_all is_digit k \<and> (hd k = CHR ''0'' \<longrightarrow> k = ''0''))"

text \<open>\<open>v[k]\<close>\<close>

definition member_of :: "json \<Rightarrow> string \<Rightarrow> json option" where
  "member_of v k =
     (case v of
        JObj kvs \<Rightarrow> map_of kvs k
      | JArr xs \<Rightarrow>
          if k = ''length'' then Some (JNum (int (length xs)) 0)
          else if index_name k \<and> digits_val k < length xs then Some (xs ! digits_val k) else None
      | JStr s \<Rightarrow>
          if k = ''length'' then Some (JNum (int (length s)) 0)
          else if index_name k \<and> digits_val k < length s then Some (JStr [s ! digits_val k]) else None
      | _ \<Rightarrow> None)"

definition path_parts :: "string \<Rightarrow> string list" where
  "path_parts path = split_on (CHR ''.'') path"

definition walk :: "json option \<Rightarrow> string list \<Rightarrow> json option" where
  "walk from_root parts = foldl (\<lambda>cur p. Option.bind cur (\<lambda>v. member_of v p)) from_root parts"

definition getPath :: "json option \<Rightarrow> string \<Rightarrow> json option" where
  "getPath from_root path = (if path = [] then from_root else walk from_root (path_parts path))"

fun set_parts :: "json dict \<Rightarrow> string list \<Rightarrow> json \<Rightarrow> json dict" where
  "set_parts from_root [] v = from_root"
| "set_parts from_root [p] v = AList.update p v from_root"
| "set_parts from_root (p # q # ps) v =
     AList.update p (JObj (set_parts (case map_of from_root p of Some (JObj kvs) \<Rightarrow> kvs | _ \<Rightarrow> []) (q # ps) v)) from_root"

definition setPath :: "json dict \<Rightarrow> string \<Rightarrow> json \<Rightarrow> json dict" where
  "setPath from_root path v = set_parts from_root (path_parts path) v"

fun delete_parts :: "json dict \<Rightarrow> string list \<Rightarrow> json dict" where
  "delete_parts from_root [] = from_root"
| "delete_parts from_root [p] = AList.delete p from_root"
| "delete_parts from_root (p # q # ps) =
     (case map_of from_root p of Some (JObj kvs) \<Rightarrow> AList.update p (JObj (delete_parts kvs (q # ps))) from_root | _ \<Rightarrow> from_root)"

definition deletePath :: "json dict \<Rightarrow> string \<Rightarrow> json dict" where
  "deletePath from_root path = delete_parts from_root (path_parts path)"

text \<open>\<open>deepMerge\<close> of two objects, and of any two values.\<close>

function merge_entries :: "json dict \<Rightarrow> json dict \<Rightarrow> json dict" where
  "merge_entries out [] = out"
| "merge_entries out ((k, v) # rest) =
     merge_entries
       (AList.update k (case (v, map_of out k) of (JObj d, Some (JObj c)) \<Rightarrow> JObj (merge_entries c d) | _ \<Rightarrow> v) out) rest"
  by pat_completeness auto
termination
  by (relation "measure (\<lambda>(out, src). size (JObj src))") auto

definition deepMerge :: "json \<Rightarrow> json \<Rightarrow> json" where
  "deepMerge target source = (case (target, source) of (JObj a, JObj b) \<Rightarrow> JObj (merge_entries a b) | _ \<Rightarrow> source)"

text \<open>\<open>===\<close>: two objects, or two arrays, of different origin are different.\<close>

definition strict_eq :: "json option \<Rightarrow> json option \<Rightarrow> bool" where
  "strict_eq a b = (a = b \<and> (case a of Some (JArr xs) \<Rightarrow> False | Some (JObj kvs) \<Rightarrow> False | _ \<Rightarrow> True))"

definition is_obj :: "json \<Rightarrow> bool" where
  "is_obj v = (case v of JObj kvs \<Rightarrow> True | _ \<Rightarrow> False)"

definition js_String :: "json option \<Rightarrow> string" where
  "js_String v = (case v of None \<Rightarrow> ''undefined'' | Some j \<Rightarrow> json_to_string j)"

section \<open>Results and notes\<close>

datatype wire_error =
    UnknownPredicate string | UnknownCondition json | UnknownTable string | UnknownTransform string
  | UnknownVariantFn string | UnknownBuilder string | UnknownEffect string | UnknownOverlayEffect string
  | MapUnmatched nat | HeaderNeedsName string | QueryWithoutTarget string | NoOperation string string | NoUrl string
  | UndeclaredAccumulator string string | PushIntoScalar string string | ConcatNeedsArray string string
  | ReservedEvents string | WireTypeError | StackExceeded | Thrown string

text \<open>A computation may throw, and may add to the notes (\<open>None\<close>: the context collects none).\<close>

type_synonym 'a wire = "string list option \<Rightarrow> wire_error + ('a \<times> string list option)"

definition wret :: "'a \<Rightarrow> 'a wire" where "wret x = (\<lambda>s. Inr (x, s))"
definition wfail :: "wire_error \<Rightarrow> 'a wire" where "wfail e = (\<lambda>s. Inl e)"
definition wbind :: "'a wire \<Rightarrow> ('a \<Rightarrow> 'b wire) \<Rightarrow> 'b wire" where
  "wbind m f = (\<lambda>s. case m s of Inl e \<Rightarrow> Inl e | Inr (x, s1) \<Rightarrow> f x s1)"
definition wlift :: "wire_error + 'a \<Rightarrow> 'a wire" where
  "wlift r = (\<lambda>s. case r of Inl e \<Rightarrow> Inl e | Inr x \<Rightarrow> Inr (x, s))"

definition add_note :: "string \<Rightarrow> unit wire" where
  "add_note why = (\<lambda>s. Inr ((), map_option (\<lambda>ns. if why \<in> set ns then ns else ns @ [why]) s))"

primrec wsome :: "('a \<Rightarrow> bool wire) \<Rightarrow> 'a list \<Rightarrow> bool wire" where
  "wsome f [] = wret False"
| "wsome f (x # xs) = wbind (f x) (\<lambda>b. if b then wret True else wsome f xs)"

primrec wevery :: "('a \<Rightarrow> bool wire) \<Rightarrow> 'a list \<Rightarrow> bool wire" where
  "wevery f [] = wret True"
| "wevery f (x # xs) = wbind (f x) (\<lambda>b. if b then wevery f xs else wret False)"

primrec wfind :: "('a \<Rightarrow> bool wire) \<Rightarrow> 'a list \<Rightarrow> 'a option wire" where
  "wfind f [] = wret None"
| "wfind f (x # xs) = wbind (f x) (\<lambda>b. if b then wret (Some x) else wfind f xs)"

primrec wmap :: "('a \<Rightarrow> 'b wire) \<Rightarrow> 'a list \<Rightarrow> 'b list wire" where
  "wmap f [] = wret []"
| "wmap f (x # xs) = wbind (f x) (\<lambda>y. wbind (wmap f xs) (\<lambda>ys. wret (y # ys)))"

primrec wfold :: "('b \<Rightarrow> 'a \<Rightarrow> 'b wire) \<Rightarrow> 'b \<Rightarrow> 'a list \<Rightarrow> 'b wire" where
  "wfold f acc [] = wret acc"
| "wfold f acc (x # xs) = wbind (f acc x) (\<lambda>acc1. wfold f acc1 xs)"

section \<open>The context\<close>

record wire_item =
  it_value :: json
  it_index :: nat
  it_last :: bool

record tool_constraint =
  tk_tool :: string
  tk_conflictsWith :: json
  tk_why :: string

text \<open>Of the spec the evaluator reads the tables and the constraints.\<close>

record wire_ctx =
  cx_req :: json
  cx_tables :: "json dict dict"
  cx_constraints :: "tool_constraint list"
  cx_flavor :: string
  cx_config :: "json dict"
  cx_variants :: "string list"
  cx_body :: "json dict"
  cx_item :: "wire_item option"

record wire_registry =
  rg_transforms :: "string \<Rightarrow> (json option \<Rightarrow> wire_ctx \<Rightarrow> wire_error + json option) option"
  rg_builders :: "string \<Rightarrow> (wire_ctx \<Rightarrow> wire_error + json option) option"
  rg_predicates :: "string \<Rightarrow> (wire_ctx \<Rightarrow> wire_error + bool) option"
  rg_effects :: "string \<Rightarrow> (wire_ctx \<Rightarrow> wire_error + wire_ctx) option"

definition at_item :: "wire_ctx \<Rightarrow> json \<Rightarrow> nat \<Rightarrow> bool \<Rightarrow> wire_ctx" where
  "at_item ctx v i l = ctx\<lparr>cx_item := Some \<lparr> it_value = v, it_index = i, it_last = l \<rparr>\<rparr>"

definition item_value :: "wire_ctx \<Rightarrow> json option" where
  "item_value ctx = map_option it_value (cx_item ctx)"

definition path_in :: "json option \<Rightarrow> json option \<Rightarrow> json option wire" where
  "path_in from_root path =
     (case path of
        Some (JStr p) \<Rightarrow> wret (getPath from_root p)
      | Some j \<Rightarrow> if json_truthy j then wfail WireTypeError else wret from_root
      | None \<Rightarrow> wret from_root)"

definition run_predicate :: "wire_registry \<Rightarrow> string \<Rightarrow> wire_ctx \<Rightarrow> bool wire" where
  "run_predicate reg name ctx =
     (case rg_predicates reg name of None \<Rightarrow> wfail (UnknownPredicate name) | Some p \<Rightarrow> wlift (p ctx))"

text \<open>\<open>reg.predicates.isFunctionTool!\<close>\<close>

definition is_function_tool :: "wire_registry \<Rightarrow> wire_ctx \<Rightarrow> bool wire" where
  "is_function_tool reg ctx =
     (case rg_predicates reg ''isFunctionTool'' of None \<Rightarrow> wfail WireTypeError | Some p \<Rightarrow> wlift (p ctx))"

definition of_type :: "json option \<Rightarrow> json \<Rightarrow> bool" where
  "of_type t ty = strict_eq (Option.bind t (\<lambda>v. member_of v ''type'')) (Some ty)"

text \<open>\<open>req.tools\<close>: absent is no tools.\<close>

definition list_at :: "wire_ctx \<Rightarrow> string \<Rightarrow> json list wire" where
  "list_at ctx name =
     (case member_of (cx_req ctx) name of None \<Rightarrow> wret [] | Some JNull \<Rightarrow> wret [] | Some (JArr xs) \<Rightarrow> wret xs | _ \<Rightarrow> wfail WireTypeError)"

section \<open>Conditions\<close>

datatype cond =
    CDefined json | CTruthy json | CEq json | CNe json | CVariant json | CFlavor json | CPred json | CItemTruthy json
  | CItemEq json | CIsLast | CIsFunctionTool | CBuiltin json | CHasPartType json | CHasTool json | CHasFunctionTool
  | CIncludes json | CNot json | CAll json | CAny json | CUnknown

text \<open>The first key that is present decides.\<close>

definition cond_keys :: "(string \<times> (json \<Rightarrow> cond)) list" where
  "cond_keys =
     [(''defined'', CDefined), (''truthy'', CTruthy), (''eq'', CEq), (''ne'', CNe), (''variant'', CVariant),
      (''flavor'', CFlavor), (''pred'', CPred), (''itemTruthy'', CItemTruthy), (''itemEq'', CItemEq),
      (''isLast'', \<lambda>_. CIsLast), (''isFunctionTool'', \<lambda>_. CIsFunctionTool), (''builtin'', CBuiltin),
      (''hasPartType'', CHasPartType), (''hasTool'', CHasTool), (''hasFunctionTool'', \<lambda>_. CHasFunctionTool),
      (''includes'', CIncludes), (''not'', CNot), (''all'', CAll), (''any'', CAny)]"

fun first_key :: "(string \<times> (json \<Rightarrow> cond)) list \<Rightarrow> json dict \<Rightarrow> cond" where
  "first_key [] c = CUnknown"
| "first_key ((k, mk) # ks) c = (case map_of c k of Some v \<Rightarrow> mk v | None \<Rightarrow> first_key ks c)"

definition read_cond :: "json dict \<Rightarrow> cond" where
  "read_cond c = first_key cond_keys c"

definition pair_at :: "json \<Rightarrow> (json option \<times> json option) wire" where
  "pair_at v = (case v of
      JArr [] \<Rightarrow> wret (None, None) | JArr [p] \<Rightarrow> wret (Some p, None) | JArr (p # x # rest) \<Rightarrow> wret (Some p, Some x) | _ \<Rightarrow> wfail WireTypeError)"

definition has_part_type :: "json \<Rightarrow> wire_ctx \<Rightarrow> bool wire" where
  "has_part_type types ctx =
     (case types of
        JArr tys \<Rightarrow>
          wbind (list_at ctx ''messages'') (\<lambda>ms. wret
            (list_ex (\<lambda>m. case member_of m ''content'' of
                Some (JArr parts) \<Rightarrow> list_ex (\<lambda>p. list_ex (of_type (Some p)) tys) parts | _ \<Rightarrow> False) ms))
      | _ \<Rightarrow> wfail WireTypeError)"

text \<open>The first argument bounds the nesting, as the stack of the runtime does.\<close>

fun evalCond :: "nat \<Rightarrow> wire_registry \<Rightarrow> wire_ctx \<Rightarrow> json option \<Rightarrow> bool wire" where
  "evalCond n reg ctx None = wret True"
| "evalCond 0 reg ctx (Some c) = wfail StackExceeded"
| "evalCond (Suc n) reg ctx (Some c) =
     (if \<not> json_truthy c then wret True
      else case c of
        JObj kvs \<Rightarrow>
          (case read_cond kvs of
             CDefined p \<Rightarrow> wbind (path_in (Some (cx_req ctx)) (Some p)) (\<lambda>v. wret (v \<noteq> None))
           | CTruthy p \<Rightarrow> wbind (path_in (Some (cx_req ctx)) (Some p)) (\<lambda>v. wret (case v of None \<Rightarrow> False | Some j \<Rightarrow> json_truthy j))
           | CEq e \<Rightarrow> wbind (pair_at e) (\<lambda>(p, x). wbind (path_in (Some (cx_req ctx)) p) (\<lambda>v. wret (strict_eq v x)))
           | CNe e \<Rightarrow> wbind (pair_at e) (\<lambda>(p, x). wbind (path_in (Some (cx_req ctx)) p) (\<lambda>v. wret (\<not> strict_eq v x)))
           | CVariant v \<Rightarrow> wret (\<exists>f\<in>set (cx_variants ctx). v = JStr f)
           | CFlavor f \<Rightarrow> wret (case f of JArr fs \<Rightarrow> JStr (cx_flavor ctx) \<in> set fs | _ \<Rightarrow> f = JStr (cx_flavor ctx))
           | CPred p \<Rightarrow> (case p of JStr name \<Rightarrow> run_predicate reg name ctx | _ \<Rightarrow> wfail WireTypeError)
           | CItemTruthy p \<Rightarrow> wbind (path_in (item_value ctx) (Some p)) (\<lambda>v. wret (case v of None \<Rightarrow> False | Some j \<Rightarrow> json_truthy j))
           | CItemEq x \<Rightarrow> wret (strict_eq (item_value ctx) (Some x))
           | CIsLast \<Rightarrow> wret (case cx_item ctx of None \<Rightarrow> False | Some it \<Rightarrow> it_last it)
           | CIsFunctionTool \<Rightarrow> is_function_tool reg ctx
           | CBuiltin ty \<Rightarrow> wbind (is_function_tool reg ctx) (\<lambda>b. wret (\<not> b \<and> of_type (item_value ctx) ty))
           | CHasPartType tys \<Rightarrow> has_part_type tys ctx
           | CHasTool ty \<Rightarrow>
               wbind (list_at ctx ''tools'') (\<lambda>tools.
               wbind (wsome (\<lambda>t. wbind (is_function_tool reg (at_item ctx t 0 False)) (\<lambda>b. wret (\<not> b \<and> of_type (Some t) ty))) tools)
                 (\<lambda>present.
                  if \<not> present then wret False
                  else wbind (wfind (\<lambda>k. if JStr (tk_tool k) = ty then evalCond n reg ctx (Some (tk_conflictsWith k)) else wret False)
                         (cx_constraints ctx))
                       (\<lambda>blocked. case blocked of
                            Some k \<Rightarrow> wbind (add_note (tk_why k)) (\<lambda>_. wret False)
                          | None \<Rightarrow> wret True)))
           | CHasFunctionTool \<Rightarrow>
               wbind (list_at ctx ''tools'') (wsome (\<lambda>t. is_function_tool reg (at_item ctx t 0 False)))
           | CIncludes e \<Rightarrow>
               wbind (pair_at e) (\<lambda>(p, x). wbind (path_in (Some (cx_req ctx)) p)
                 (\<lambda>v. wret (case v of Some (JArr xs) \<Rightarrow> list_ex (\<lambda>y. strict_eq (Some y) x) xs | _ \<Rightarrow> False)))
           | CNot d \<Rightarrow> wbind (evalCond n reg ctx (Some d)) (\<lambda>b. wret (\<not> b))
           | CAll ds \<Rightarrow> (case ds of JArr xs \<Rightarrow> wevery (\<lambda>d. evalCond n reg ctx (Some d)) xs | _ \<Rightarrow> wfail WireTypeError)
           | CAny ds \<Rightarrow> (case ds of JArr xs \<Rightarrow> wsome (\<lambda>d. evalCond n reg ctx (Some d)) xs | _ \<Rightarrow> wfail WireTypeError)
           | CUnknown \<Rightarrow> wfail (UnknownCondition c))
      | JArr xs \<Rightarrow> wfail (UnknownCondition c)
      | _ \<Rightarrow> wfail WireTypeError)"

section \<open>Templates\<close>

text \<open>\<open>xs.join(sep)\<close> after \<open>$join\<close>\<close>

definition join_text :: "json \<Rightarrow> string" where
  "join_text j = (if j = JNull then [] else json_to_string j)"

definition splice :: "json \<Rightarrow> json option" where
  "splice el = (case el of JObj kvs \<Rightarrow> map_of kvs ''$each'' | _ \<Rightarrow> None)"

definition as_list :: "json option \<Rightarrow> json list wire" where
  "as_list v = (case v of Some (JArr xs) \<Rightarrow> wret xs | _ \<Rightarrow> wfail WireTypeError)"

definition keep :: "json option \<Rightarrow> json list" where
  "keep v = (case v of None \<Rightarrow> [] | Some j \<Rightarrow> [j])"

definition read_path :: "wire_ctx \<Rightarrow> json \<Rightarrow> json option wire" where
  "read_path ctx p =
     (case p of
        JStr s \<Rightarrow> wret (if starts_with s ''@'' then getPath (item_value ctx) (drop 1 s) else getPath (Some (cx_req ctx)) s)
      | _ \<Rightarrow> wfail WireTypeError)"

definition look_up :: "wire_ctx \<Rightarrow> json dict \<Rightarrow> json \<Rightarrow> json option wire" where
  "look_up ctx t name =
     (case name of
        JStr tn \<Rightarrow>
          (case map_of (cx_tables ctx) tn of
             None \<Rightarrow> wfail (UnknownTable tn)
           | Some table \<Rightarrow>
               wbind (path_in (Some (cx_req ctx)) (map_of t ''$key'')) (\<lambda>v.
                 wret (case map_of table (js_String v) of Some j \<Rightarrow> Some j | None \<Rightarrow> map_of t ''$default'')))
      | _ \<Rightarrow> wfail WireTypeError)"

text \<open>The case of \<open>$map\<close> that takes an item: \<open>None\<close> when there is none, otherwise what it gives.\<close>

fun take_case ::
  "(json option \<Rightarrow> bool wire) \<Rightarrow> (json \<Rightarrow> json option wire) \<Rightarrow> json list \<Rightarrow> json option option wire" where
  "take_case holds eval [] = wret None"
| "take_case holds eval (kase # rest) =
     (case kase of
        JObj kvs \<Rightarrow>
          wbind (holds (map_of kvs ''when'')) (\<lambda>b.
            if b then wbind (eval (nullish (map_of kvs ''value'') JNull)) (\<lambda>v. wret (Some v))
            else take_case holds eval rest)
      | _ \<Rightarrow> wfail WireTypeError)"

text \<open>The elements of a list with their position and whether they are the last.\<close>

definition with_places :: "json list \<Rightarrow> (json \<times> nat \<times> bool) list" where
  "with_places xs = map (\<lambda>i. (xs ! i, i, i = length xs - 1)) [0..<length xs]"

fun evalTemplate :: "nat \<Rightarrow> wire_registry \<Rightarrow> wire_ctx \<Rightarrow> json \<Rightarrow> json option wire" where
  "evalTemplate 0 reg ctx tpl = wfail StackExceeded"
| "evalTemplate (Suc n) reg ctx tpl =
     (case tpl of
        JArr els \<Rightarrow>
          wbind (wfold (\<lambda>out el.
              case splice el of
                Some many \<Rightarrow> wbind (evalTemplate n reg ctx many) (\<lambda>v. wret (case v of Some (JArr xs) \<Rightarrow> out @ xs | _ \<Rightarrow> out))
              | None \<Rightarrow> wbind (evalTemplate n reg ctx el) (\<lambda>v. wret (out @ keep v))) [] els)
            (\<lambda>out. wret (Some (JArr out)))
      | JObj t \<Rightarrow>
          (case map_of t ''$when'' of
             Some w \<Rightarrow>
               wbind (evalCond n reg ctx (Some w)) (\<lambda>b.
                 if \<not> b then wret None
                 else case map_of t ''$value'' of Some v \<Rightarrow> evalTemplate n reg ctx v | None \<Rightarrow> wret None)
           | None \<Rightarrow>
          (case map_of t ''$'' of
             Some p \<Rightarrow> wbind (read_path ctx p) (\<lambda>raw. wret (case raw of Some j \<Rightarrow> Some j | None \<Rightarrow> map_of t ''$default''))
           | None \<Rightarrow>
          (case map_of t ''$config'' of
             Some c \<Rightarrow> wret (map_of (cx_config ctx) (json_to_string c))
           | None \<Rightarrow>
          (case map_of t ''$join'' of
             Some ps \<Rightarrow>
               wbind (as_list (Some ps)) (\<lambda>xs.
               wbind (wmap (evalTemplate n reg ctx) xs) (\<lambda>parts.
                 if None \<in> set parts then wret None
                 else wret (Some (JStr (join (case map_of t ''$sep'' of None \<Rightarrow> [] | Some sep \<Rightarrow> json_to_string sep)
                        (map (join_text \<circ> the) parts))))))
           | None \<Rightarrow>
          (case map_of t ''$table'' of
             Some name \<Rightarrow> look_up ctx t name
           | None \<Rightarrow>
          (case map_of t ''$call'' of
             Some f \<Rightarrow>
               (case f of
                  JStr name \<Rightarrow>
                    (case rg_transforms reg name of
                       None \<Rightarrow> wfail (UnknownTransform name)
                     | Some fn \<Rightarrow>
                         wbind (case map_of t ''$arg'' of None \<Rightarrow> wret None | Some a \<Rightarrow> evalTemplate n reg ctx a)
                           (\<lambda>arg. wlift (fn arg ctx)))
                | _ \<Rightarrow> wfail WireTypeError)
           | None \<Rightarrow>
          (case map_of t ''$map'' of
             Some p \<Rightarrow>
               wbind (path_in (Some (cx_req ctx)) (Some p)) (\<lambda>found.
                 case (case found of Some (JArr xs) \<Rightarrow> Some (JArr xs) | _ \<Rightarrow> map_of t ''$mapDefault'') of
                   Some (JArr xs) \<Rightarrow>
                     wbind (wfold (\<lambda>out (x, i, l).
                         let ictx = at_item ctx x i l in
                         wbind (as_list (map_of t ''$case'')) (\<lambda>cases.
                         wbind (take_case (evalCond n reg ictx) (evalTemplate n reg ictx) cases) (\<lambda>r.
                           case r of
                             Some v \<Rightarrow> wret (out @ keep v)
                           | None \<Rightarrow>
                               if (case map_of t ''$dropUnmatched'' of None \<Rightarrow> False | Some d \<Rightarrow> json_truthy d) then wret out
                               else wfail (MapUnmatched i)))) [] (with_places xs))
                       (\<lambda>out. wret (Some (JArr out)))
                 | _ \<Rightarrow> wret None)
           | None \<Rightarrow>
               wbind (wfold (\<lambda>out (k, v).
                   if k = ''$note'' then wret out
                   else if k = ''$spread'' then
                     wbind (evalTemplate n reg ctx v) (\<lambda>src. wret (case src of Some (JObj kvs) \<Rightarrow> spread out kvs | _ \<Rightarrow> out))
                   else wbind (evalTemplate n reg ctx v) (\<lambda>x. wret (case x of None \<Rightarrow> out | Some j \<Rightarrow> AList.update k j out))) [] t)
                 (\<lambda>out. wret (Some (JObj out)))))))))) 
      | _ \<Rightarrow> wret (Some tpl))"

end
