(* ===== verification/WireBuild.thy ===== *)
theory WireBuild
  imports WireEval
begin

text \<open>
  Requests from wire specs (\<open>buildFromSpec\<close>, \<open>buildConnection\<close> and \<open>buildFrames\<close> of \<open>src/wire/interpreter.ts\<close>). Optional lists
  are empty when absent. A regular expression test is the argument \<open>rx\<close>; \<open>fuel\<close> is that of the evaluator. The coverage
  hook \<open>onUse\<close> is the list \<open>bs_used\<close>.
\<close>

section \<open>Specs\<close>

record field_rule =
  fr_from :: string
  fr_to :: string
  fr_default :: "json option"
  fr_when :: "json option"
  fr_truthy :: bool
  fr_table :: "string option"
  fr_tableDefault :: "json option"
  fr_call :: "string option"

record block_rule =
  br_name :: string
  br_when :: "json option"
  br_to :: "string option"
  br_merge :: bool
  br_template :: "json option"
  br_call :: "string option"
  br_effects :: "string list"

record header_rule =
  hr_name :: "string option"
  hr_value :: "json option"
  hr_when :: "json option"
  hr_spread :: "json option"

record query_rule =
  qr_name :: string
  qr_value :: json
  qr_when :: "json option"

record envelope =
  en_path :: "json option"
  en_url :: "json option"
  en_method :: "string option"
  en_bodyKind :: "string option"
  en_headers :: "header_rule list option"
  en_query :: "query_rule list option"
  en_queryEncoding :: "string option"

record variant_rule =
  vr_flag :: string
  vr_idMatch :: "string option"
  vr_fn :: "string option"
  vr_unless :: "string option"

record multipart_rule =
  mr_name :: string
  mr_value :: "json option"
  mr_file :: bool
  mr_when :: "json option"
  mr_repeat :: bool

record frame_rule =
  fm_when :: "json option"
  fm_template :: json

record operation_rule =
  or_url :: "json option"
  or_protocols :: "json option"
  or_frames :: "frame_rule list"

record overlay_op =
  ov_op :: string
  ov_from :: "string option"
  ov_to :: "string option"
  ov_value :: "json option"
  ov_call :: "string option"
  ov_when :: "json option"

record wire_spec =
  ws_id :: string
  ws_provider :: string
  ws_api :: string
  ws_toolConstraints :: "tool_constraint list"
  ws_flavors :: "string list"
  ws_envelope :: "envelope option"
  ws_variants :: "variant_rule list"
  ws_tables :: "json dict dict"
  ws_unsupported :: "(string \<times> string) list"
  ws_fields :: "field_rule list"
  ws_blocks :: "block_rule list"
  ws_multipart :: "multipart_rule list"
  ws_operations :: "operation_rule dict"
  ws_overlays :: "overlay_op list dict"

datatype multipart_field = FileField string | ValueField string json

section \<open>Variants\<close>

text \<open>\<open>model.toLowerCase().replace(/^[a-z]+\//, '')\<close>\<close>

definition is_small :: "char \<Rightarrow> bool" where
  "is_small c = (97 \<le> code_unit c \<and> code_unit c \<le> 122)"

definition bare_model :: "string \<Rightarrow> string" where
  "bare_model model =
     (let m = to_lower model; rest = dropWhile is_small m
      in if takeWhile is_small m \<noteq> [] \<and> rest \<noteq> [] \<and> hd rest = CHR ''/'' then tl rest else m)"

definition add_flag :: "string \<Rightarrow> string list \<Rightarrow> string list" where
  "add_flag f flags = (if f \<in> set flags then flags else flags @ [f])"

definition bare_ctx :: "json \<Rightarrow> wire_ctx" where
  "bare_ctx req = \<lparr> cx_req = req, cx_tables = [], cx_constraints = [], cx_flavor = [], cx_config = [], cx_variants = [],
     cx_body = [], cx_item = None \<rparr>"

definition variant_flag :: "(string \<Rightarrow> string \<Rightarrow> bool) \<Rightarrow> wire_registry \<Rightarrow> string \<Rightarrow> string list \<Rightarrow> variant_rule \<Rightarrow> string list wire" where
  "variant_flag rx reg model flags v =
     (let flags1 = (case truthy_str (vr_idMatch v) of None \<Rightarrow> flags
                    | Some re \<Rightarrow> if rx re (bare_model model) then add_flag (vr_flag v) flags else flags)
      in case truthy_str (vr_fn v) of
           None \<Rightarrow> wret flags1
         | Some name \<Rightarrow>
             (case rg_transforms reg name of
                None \<Rightarrow> wfail (UnknownVariantFn name)
              | Some fn \<Rightarrow>
                  wbind (wlift (fn (Some (JStr model)) (bare_ctx (JObj [(''model'', JStr model)]))))
                    (\<lambda>r. wret (if (case r of None \<Rightarrow> False | Some j \<Rightarrow> json_truthy j) then add_flag (vr_flag v) flags1 else flags1))))"

definition resolveVariants :: "(string \<Rightarrow> string \<Rightarrow> bool) \<Rightarrow> wire_registry \<Rightarrow> wire_spec \<Rightarrow> string \<Rightarrow> string list wire" where
  "resolveVariants rx reg spec model =
     wbind (wfold (variant_flag rx reg model) [] (ws_variants spec)) (\<lambda>flags.
       wret (foldl (\<lambda>fs v. case truthy_str (vr_unless v) of
                      None \<Rightarrow> fs
                    | Some u \<Rightarrow> if u \<in> set fs then filter (\<lambda>f. f \<noteq> vr_flag v) fs else fs) flags (ws_variants spec)))"

section \<open>The body\<close>

record build =
  bs_ctx :: wire_ctx
  bs_used :: "(string \<times> string) list"

definition use_rule :: "string \<Rightarrow> string \<Rightarrow> build \<Rightarrow> build" where
  "use_rule kind name b = b\<lparr>bs_used := bs_used b @ [(kind, name)]\<rparr>"

definition put_body :: "string \<Rightarrow> json \<Rightarrow> build \<Rightarrow> build" where
  "put_body path v b = b\<lparr>bs_ctx := (bs_ctx b)\<lparr>cx_body := setPath (cx_body (bs_ctx b)) path v\<rparr>\<rparr>"

definition assign_body :: "json dict \<Rightarrow> build \<Rightarrow> build" where
  "assign_body kvs b = b\<lparr>bs_ctx := (bs_ctx b)\<lparr>cx_body := spread (cx_body (bs_ctx b)) kvs\<rparr>\<rparr>"

text \<open>The value a field rule sends: through its table, then through its transform.\<close>

definition field_value :: "wire_registry \<Rightarrow> wire_spec \<Rightarrow> wire_ctx \<Rightarrow> field_rule \<Rightarrow> json \<Rightarrow> json option wire" where
  "field_value reg spec ctx f value =
     wbind (case truthy_str (fr_table f) of
              None \<Rightarrow> wret (Some value)
            | Some tn \<Rightarrow>
                (case map_of (ws_tables spec) tn of
                   None \<Rightarrow> wfail (UnknownTable tn)
                 | Some table \<Rightarrow> wret (case map_of table (json_to_string value) of Some j \<Rightarrow> Some j | None \<Rightarrow> fr_tableDefault f)))
       (\<lambda>out. case out of
          None \<Rightarrow> wret None
        | Some j \<Rightarrow>
            (case truthy_str (fr_call f) of
               None \<Rightarrow> wret (Some j)
             | Some name \<Rightarrow>
                 (case rg_transforms reg name of
                    None \<Rightarrow> wfail (UnknownTransform name)
                  | Some fn \<Rightarrow> wlift (fn (Some value) ctx))))"

definition apply_field :: "nat \<Rightarrow> wire_registry \<Rightarrow> wire_spec \<Rightarrow> build \<Rightarrow> field_rule \<Rightarrow> build wire" where
  "apply_field fuel reg spec b f =
     (let raw = getPath (Some (cx_req (bs_ctx b))) (fr_from f);
          present = (case raw of None \<Rightarrow> False | Some j \<Rightarrow> fr_truthy f \<longrightarrow> json_truthy j)
      in case (if present then raw else fr_default f) of
           None \<Rightarrow> wret b
         | Some value \<Rightarrow>
             wbind (evalCond fuel reg (bs_ctx b) (fr_when f)) (\<lambda>holds.
               if \<not> holds then wret b
               else wbind (field_value reg spec (bs_ctx b) f value) (\<lambda>out. case out of
                      None \<Rightarrow> wret b
                    | Some j \<Rightarrow> wret (use_rule ''field'' (fr_to f) (put_body (fr_to f) j b)))))"

definition run_effects :: "wire_registry \<Rightarrow> (string \<Rightarrow> wire_error) \<Rightarrow> string list \<Rightarrow> build \<Rightarrow> build wire" where
  "run_effects reg unknown names b =
     wfold (\<lambda>b1 name. case rg_effects reg name of
              None \<Rightarrow> wfail (unknown name)
            | Some fn \<Rightarrow> wbind (wlift (fn (bs_ctx b1))) (\<lambda>ctx. wret (b1\<lparr>bs_ctx := ctx\<rparr>))) b names"

definition write_block :: "block_rule \<Rightarrow> json \<Rightarrow> build \<Rightarrow> build" where
  "write_block r value b =
     (case truthy_str (br_to r) of
        None \<Rightarrow> (case value of JObj kvs \<Rightarrow> assign_body kvs b | _ \<Rightarrow> b)
      | Some to \<Rightarrow>
          if br_merge r then
            (let existing = (case getPath (Some (JObj (cx_body (bs_ctx b)))) to of None \<Rightarrow> JObj [] | Some JNull \<Rightarrow> JObj [] | Some j \<Rightarrow> j)
             in put_body to (deepMerge existing value) b)
          else put_body to value b)"

definition apply_block :: "nat \<Rightarrow> wire_registry \<Rightarrow> build \<Rightarrow> block_rule \<Rightarrow> build wire" where
  "apply_block fuel reg b r =
     wbind (evalCond fuel reg (bs_ctx b) (br_when r)) (\<lambda>holds.
       if \<not> holds then wret b
       else wbind (case truthy_str (br_call r) of
                     Some name \<Rightarrow>
                       (case rg_builders reg name of None \<Rightarrow> wfail (UnknownBuilder name) | Some fn \<Rightarrow> wlift (fn (bs_ctx b)))
                   | None \<Rightarrow> (case br_template r of None \<Rightarrow> wret None | Some t \<Rightarrow> evalTemplate fuel reg (bs_ctx b) t))
              (\<lambda>out. case out of
                 None \<Rightarrow> wret b
               | Some value \<Rightarrow>
                   run_effects reg UnknownEffect (br_effects r) (use_rule ''block'' (br_name r) (write_block r value b))))"

definition multipart_fields ::
  "nat \<Rightarrow> wire_registry \<Rightarrow> (multipart_field list \<times> build) \<Rightarrow> multipart_rule \<Rightarrow> (multipart_field list \<times> build) wire" where
  "multipart_fields fuel reg = (\<lambda>(fs, b) f.
     wbind (evalCond fuel reg (bs_ctx b) (mr_when f)) (\<lambda>holds.
       if \<not> holds then wret (fs, b)
       else wbind (if mr_file f then wret [FileField (mr_name f)]
                   else wbind (case mr_value f of None \<Rightarrow> wret None | Some t \<Rightarrow> evalTemplate fuel reg (bs_ctx b) t)
                          (\<lambda>v. wret (case v of
                              None \<Rightarrow> []
                            | Some (JArr xs) \<Rightarrow> if mr_repeat f then map (ValueField (mr_name f)) xs else [ValueField (mr_name f) (JArr xs)]
                            | Some j \<Rightarrow> [ValueField (mr_name f) j])))
              (\<lambda>more. wret (fs @ more, use_rule ''block'' (''multipart:'' @ mr_name f) b))))"

definition js_undefined :: "string option \<Rightarrow> string" where
  "js_undefined s = nullish s ''undefined''"

definition apply_overlay :: "nat \<Rightarrow> wire_registry \<Rightarrow> string \<Rightarrow> build \<Rightarrow> overlay_op \<Rightarrow> build wire" where
  "apply_overlay fuel reg flavor b0 op =
     wbind (evalCond fuel reg (bs_ctx b0) (ov_when op)) (\<lambda>holds.
       if \<not> holds then wret b0
       else
         (let b = use_rule ''overlay'' (flavor @ '':'' @ ov_op op @ '':''
                    @ js_undefined (or_else (ov_from op) (or_else (ov_to op) (ov_call op)))) b0;
              body = cx_body (bs_ctx b); from = nullish (ov_from op) []; to = nullish (ov_to op) []
          in if ov_op op = ''rename'' then
               (case getPath (Some (JObj body)) from of
                  None \<Rightarrow> wret b
                | Some v \<Rightarrow>
                    if json_truthy v
                    then wret (b\<lparr>bs_ctx := (bs_ctx b)\<lparr>cx_body := deletePath (setPath body to v) from\<rparr>\<rparr>)
                    else wret b)
             else if ov_op op = ''delete'' then wret (b\<lparr>bs_ctx := (bs_ctx b)\<lparr>cx_body := deletePath body from\<rparr>\<rparr>)
             else if ov_op op = ''set'' then
               wbind (case ov_value op of None \<Rightarrow> wret None | Some t \<Rightarrow> evalTemplate fuel reg (bs_ctx b) t)
                 (\<lambda>v. wret (case v of None \<Rightarrow> b | Some j \<Rightarrow> put_body to j b))
             else if ov_op op = ''mergeFrom'' then
               wret (case getPath (Some (cx_req (bs_ctx b))) from of Some (JObj kvs) \<Rightarrow> assign_body kvs b | _ \<Rightarrow> b)
             else if ov_op op = ''call'' then run_effects reg UnknownOverlayEffect [nullish (ov_call op) ''undefined''] b
             else wret b))"

section \<open>Query parameters\<close>

text \<open>The UTF-8 bytes of a character.\<close>

definition utf8 :: "char \<Rightarrow> nat list" where
  "utf8 c = (let n = code_unit c in if n < 128 then [n] else [192 + n div 64, 128 + n mod 64])"

definition upper_hex :: "nat \<Rightarrow> char" where
  "upper_hex n = (if n < 10 then char_of (48 + n) else char_of (55 + n))"

definition percent :: "char \<Rightarrow> string" where
  "percent c = concat (map (\<lambda>b. [CHR ''%'', upper_hex (b div 16), upper_hex (b mod 16)]) (utf8 c))"

definition is_alnum :: "char \<Rightarrow> bool" where
  "is_alnum c = (is_digit c \<or> is_small c \<or> (65 \<le> code_unit c \<and> code_unit c \<le> 90))"

definition encodeURIComponent :: "string \<Rightarrow> string" where
  "encodeURIComponent s = concat (map (\<lambda>c. if is_alnum c \<or> c \<in> set ''-_.!~*'' \<or> code_unit c \<in> {39, 40, 41} then [c] else percent c) s)"

definition encodeForm :: "string \<Rightarrow> string" where
  "encodeForm s = concat (map (\<lambda>c. if is_alnum c \<or> c \<in> set ''*-._'' then [c] else if c = CHR '' '' then ''+'' else percent c) s)"

definition escaper :: "string option \<Rightarrow> string \<Rightarrow> string" where
  "escaper encoding = (if encoding = Some ''form'' then encodeForm else encodeURIComponent)"

definition query_param ::
  "nat \<Rightarrow> wire_registry \<Rightarrow> (string \<Rightarrow> string) \<Rightarrow> (string list \<times> build) \<Rightarrow> query_rule \<Rightarrow> (string list \<times> build) wire" where
  "query_param fuel reg esc = (\<lambda>(ps, b) q.
     wbind (evalCond fuel reg (bs_ctx b) (qr_when q)) (\<lambda>holds.
       if \<not> holds then wret (ps, b)
       else wbind (evalTemplate fuel reg (bs_ctx b) (qr_value q)) (\<lambda>v. wret (case v of
              None \<Rightarrow> (ps, b)
            | Some j \<Rightarrow> (ps @ [esc (qr_name q) @ ''='' @ esc (json_to_string j)], use_rule ''header'' (''query:'' @ qr_name q) b)))))"

definition with_query :: "string \<Rightarrow> string list \<Rightarrow> string" where
  "with_query base params = base @ (if CHR ''?'' \<in> set base then ''&'' else ''?'') @ join ''&'' params"

section \<open>The request\<close>

record built_request =
  bq_body :: "json dict"
  bq_notes :: "string list option"
  bq_headers :: "string dict option"
  bq_path :: "string option"
  bq_url :: "string option"
  bq_method :: "string option"
  bq_rawBody :: bool
  bq_multipart :: "multipart_field list option"
  bq_formBody :: bool
  bq_noBody :: bool
  bq_used :: "(string \<times> string) list"

definition header_line ::
  "nat \<Rightarrow> wire_registry \<Rightarrow> string \<Rightarrow> (string dict \<times> build) \<Rightarrow> header_rule \<Rightarrow> (string dict \<times> build) wire" where
  "header_line fuel reg specId = (\<lambda>(hs, b) h.
     wbind (evalCond fuel reg (bs_ctx b) (hr_when h)) (\<lambda>holds.
       if \<not> holds then wret (hs, b)
       else case hr_spread h of
         Some t \<Rightarrow>
           wbind (evalTemplate fuel reg (bs_ctx b) t) (\<lambda>many. wret (case many of
             Some (JObj kvs) \<Rightarrow>
               foldl (\<lambda>(hs, b) (k, v). if v = JNull then (hs, b)
                        else (AList.update k (json_to_string v) hs, use_rule ''header'' k b)) (hs, b) kvs
           | _ \<Rightarrow> (hs, b)))
       | None \<Rightarrow>
           (case hr_name h of
              None \<Rightarrow> wfail (HeaderNeedsName specId)
            | Some name \<Rightarrow>
                wbind (case hr_value h of None \<Rightarrow> wret None | Some t \<Rightarrow> evalTemplate fuel reg (bs_ctx b) t) (\<lambda>v. wret (case v of
                  None \<Rightarrow> (hs, b)
                | Some j \<Rightarrow> (AList.update name (json_to_string j) hs, use_rule ''header'' name b))))))"

definition eval_text :: "nat \<Rightarrow> wire_registry \<Rightarrow> wire_ctx \<Rightarrow> json option \<Rightarrow> string option wire" where
  "eval_text fuel reg ctx t =
     (case t of None \<Rightarrow> wret None | Some tpl \<Rightarrow> wbind (evalTemplate fuel reg ctx tpl) (\<lambda>v. wret (map_option json_to_string v)))"

text \<open>Steps 4 and 5: envelope and query, from the body that is built.\<close>

definition build_envelope ::
  "nat \<Rightarrow> wire_registry \<Rightarrow> wire_spec \<Rightarrow> multipart_field list option \<Rightarrow> build \<Rightarrow> built_request wire" where
  "build_envelope fuel reg spec parts b =
     (let en = ws_envelope spec; kind = Option.bind en en_bodyKind; base_notes = (\<lambda>s. Inr (s, s)) in
      wbind base_notes (\<lambda>notes.
      wbind (wfold (header_line fuel reg (ws_id spec)) ([], b) (nullish (Option.bind en en_headers) [])) (\<lambda>(hs, b1).
      wbind (eval_text fuel reg (bs_ctx b1) (Option.bind en en_url)) (\<lambda>url.
      wbind (eval_text fuel reg (bs_ctx b1) (Option.bind en en_path)) (\<lambda>path.
      wbind (wfold (query_param fuel reg (escaper (Option.bind en en_queryEncoding))) ([], b1) (nullish (Option.bind en en_query) []))
        (\<lambda>(params, b2).
        (let r = \<lparr> bq_body = cx_body (bs_ctx b2), bq_notes = None,
                   bq_headers = (if Option.bind en en_headers = None then None else Some hs), bq_path = path, bq_url = url,
                   bq_method = truthy_str (Option.bind en en_method), bq_rawBody = (kind = Some ''raw''), bq_multipart = parts,
                   bq_formBody = (kind = Some ''form''), bq_noBody = (kind = Some ''none''), bq_used = bs_used b2 \<rparr>
         in wbind (if params = [] then wret r
                   else case (url, path) of
                     (Some u, _) \<Rightarrow> wret (r\<lparr>bq_url := Some (with_query u params)\<rparr>)
                   | (None, Some p) \<Rightarrow> wret (r\<lparr>bq_path := Some (with_query p params)\<rparr>)
                   | (None, None) \<Rightarrow> wfail (QueryWithoutTarget (ws_id spec)))
              (\<lambda>r1 late. Inr (r1\<lparr>bq_notes := (if notes = Some [] \<or> notes = None then None else late)\<rparr>, late)))))))))"

definition model_text :: "json \<Rightarrow> string wire" where
  "model_text req =
     (case member_of req ''model'' of
        None \<Rightarrow> wret [] | Some JNull \<Rightarrow> wret [] | Some (JStr m) \<Rightarrow> wret m | _ \<Rightarrow> wfail WireTypeError)"

definition buildFromSpec ::
  "(string \<Rightarrow> string \<Rightarrow> bool) \<Rightarrow> nat \<Rightarrow> wire_spec \<Rightarrow> json \<Rightarrow> wire_registry \<Rightarrow> string option \<Rightarrow> json dict \<Rightarrow> wire_error + built_request" where
  "buildFromSpec rx fuel spec req reg given_flavor config =
     (let flavor = nullish given_flavor (ws_provider spec) in
      map_sum id fst
       (wbind (model_text req) (\<lambda>model.
        wbind (resolveVariants rx reg spec model) (\<lambda>variants.
        (let ctx = \<lparr> cx_req = req, cx_tables = ws_tables spec, cx_constraints = ws_toolConstraints spec, cx_flavor = flavor,
                     cx_config = config, cx_variants = variants, cx_body = [], cx_item = None \<rparr>;
             b0 = \<lparr> bs_ctx = ctx, bs_used = map (Pair ''variant'') variants \<rparr>
         in wbind (wfold (apply_field fuel reg spec) b0 (ws_fields spec)) (\<lambda>b1.
            wbind (wfold (apply_block fuel reg) b1 (ws_blocks spec)) (\<lambda>b2.
            wbind (if Option.bind (ws_envelope spec) en_bodyKind = Some ''multipart''
                   then wbind (wfold (multipart_fields fuel reg) ([], b2) (ws_multipart spec)) (\<lambda>(fs, b). wret (Some fs, b))
                   else wret (None, b2)) (\<lambda>(parts, b3).
            wbind (wfold (apply_overlay fuel reg flavor) b3 (nullish (map_of (ws_overlays spec) flavor) [])) (\<lambda>b4.
            build_envelope fuel reg spec parts b4))))))) (Some [])))"

section \<open>Operations\<close>

record built_connection =
  bc_url :: string
  bc_protocols :: "string list option"

definition opCtx :: "wire_spec \<Rightarrow> json \<Rightarrow> json dict \<Rightarrow> wire_ctx" where
  "opCtx spec input config =
     \<lparr> cx_req = input, cx_tables = ws_tables spec, cx_constraints = ws_toolConstraints spec, cx_flavor = ws_provider spec,
       cx_config = config, cx_variants = [], cx_body = [], cx_item = None \<rparr>"

definition buildConnection ::
  "nat \<Rightarrow> wire_spec \<Rightarrow> string \<Rightarrow> json \<Rightarrow> wire_registry \<Rightarrow> json dict \<Rightarrow> wire_error + built_connection" where
  "buildConnection fuel spec operation input reg config =
     (case map_of (ws_operations spec) operation of
        None \<Rightarrow> Inl (NoOperation (ws_id spec) operation)
      | Some op \<Rightarrow>
          (let ctx = opCtx spec input config in
           map_sum id fst
            (wbind (eval_text fuel reg ctx (or_url op)) (\<lambda>url.
               case url of
                 None \<Rightarrow> wfail (NoUrl operation)
               | Some u \<Rightarrow>
                   wbind (case or_protocols op of None \<Rightarrow> wret None | Some t \<Rightarrow> evalTemplate fuel reg ctx t) (\<lambda>p.
                     wret \<lparr> bc_url = u, bc_protocols = (case p of Some (JArr xs) \<Rightarrow> Some (map json_to_string xs) | _ \<Rightarrow> None) \<rparr>))
             None)))"

definition buildFrames ::
  "nat \<Rightarrow> wire_spec \<Rightarrow> string \<Rightarrow> json \<Rightarrow> wire_registry \<Rightarrow> json dict \<Rightarrow> wire_error + json list" where
  "buildFrames fuel spec operation input reg config =
     (case map_of (ws_operations spec) operation of
        None \<Rightarrow> Inl (NoOperation (ws_id spec) operation)
      | Some op \<Rightarrow>
          (let ctx = opCtx spec input config in
           map_sum id fst
            (wfold (\<lambda>out f. wbind (evalCond fuel reg ctx (fm_when f)) (\<lambda>holds.
                if \<not> holds then wret out
                else wbind (evalTemplate fuel reg ctx (fm_template f)) (\<lambda>v. wret (out @ keep v)))) [] (or_frames op) None)))"

end
