(* ===== verification/WireLaws.thy ===== *)
theory WireLaws
  imports WireBuild "HOL-Library.Sublist"
begin

text \<open>
  What holds of the evaluator of wire specs: paths behave as a store, a bound on the nesting that is large enough never
  shows, templates without operators are themselves, and a hosted tool that is withheld is noted.
\<close>

section \<open>Paths as a store\<close>

lemma path_parts_ne [simp]: "path_parts p \<noteq> []"
  by (simp add: path_parts_def)

lemma walk_None [simp]: "walk None ps = None"
  unfolding walk_def by (induction ps) auto

lemma walk_simps [simp]: "walk r [] = r" "walk r (p # ps) = walk (Option.bind r (\<lambda>v. member_of v p)) ps"
  by (simp_all add: walk_def)

lemma member_obj [simp]: "member_of (JObj kvs) p = map_of kvs p"
  by (simp add: member_of_def)

lemma map_of_update [simp]: "map_of (AList.update k v al) j = (if j = k then Some v else map_of al j)"
  by (simp add: update_conv')

lemma walk_set_same: "ps \<noteq> [] \<Longrightarrow> walk (Some (JObj (set_parts kvs ps v))) ps = Some v"
  by (induction kvs ps v rule: set_parts.induct) auto

text \<open>No part of the way to \<open>ps\<close> is something other than an object.\<close>

fun clear_way :: "json dict \<Rightarrow> string list \<Rightarrow> bool" where
  "clear_way kvs [] = True"
| "clear_way kvs [p] = True"
| "clear_way kvs (p # q # ps) =
     (case map_of kvs p of None \<Rightarrow> True | Some (JObj inner) \<Rightarrow> clear_way inner (q # ps) | Some _ \<Rightarrow> False)"

lemma clear_way_empty [simp]: "clear_way [] ps"
  by (induction "[] :: json dict" ps rule: clear_way.induct) auto

lemma walk_empty_obj [simp]: "qs \<noteq> [] \<Longrightarrow> walk (Some (JObj [])) qs = None"
  by (cases qs) auto

lemma walk_set_other:
  "clear_way kvs ps \<Longrightarrow> \<not> prefix ps qs \<Longrightarrow> \<not> prefix qs ps \<Longrightarrow>
   walk (Some (JObj (set_parts kvs ps v))) qs = walk (Some (JObj kvs)) qs"
proof (induction kvs ps v arbitrary: qs rule: set_parts.induct)
  case (2 kvs p v)
  then show ?case by (cases qs) auto
next
  case (3 kvs p q ps v)
  obtain r rs where qs: "qs = r # rs" using 3(4) by (cases qs) auto
  show ?case
  proof (cases "r = p")
    case True
    then have n: "\<not> prefix (q # ps) rs" "\<not> prefix rs (q # ps)" using 3(3,4) qs by auto
    then have rs: "rs \<noteq> []" by auto
    show ?thesis
    proof (cases "map_of kvs p")
      case None
      then show ?thesis using 3(1)[OF _ n] qs True rs by simp
    next
      case (Some j)
      then obtain inner where "j = JObj inner" "clear_way inner (q # ps)" using 3(2) by (cases j) auto
      then show ?thesis using 3(1)[OF _ n] qs True Some by simp
    qed
  qed (use qs in simp)
qed simp

text \<open>Writing a path and reading it gives what was written; every path that is neither on the way to it nor below it reads
  as before, unless the write had to replace a scalar or a list by an object.\<close>
theorem set_then_get:
  assumes "p \<noteq> []"
  shows "getPath (Some (JObj (setPath body p v))) p = Some v
    \<and> (\<forall>q. q \<noteq> [] \<longrightarrow> clear_way body (path_parts p) \<longrightarrow> \<not> prefix (path_parts p) (path_parts q) \<longrightarrow> \<not> prefix (path_parts q) (path_parts p)
        \<longrightarrow> getPath (Some (JObj (setPath body p v))) q = getPath (Some (JObj body)) q)"
  using assms walk_set_same[OF path_parts_ne] walk_set_other[of body "path_parts p"] by (simp add: getPath_def setPath_def)

lemma set_then_get_witness:
  "getPath (Some (JObj (setPath [(''a'', JObj [(''b'', JNull)])] ''a.c'' (JBool True)))) ''a.c'' = Some (JBool True)"
  using set_then_get[of "''a.c''" "[(''a'', JObj [(''b'', JNull)])]" "JBool True"] by simp

section \<open>Merging\<close>

lemma merge_entries_lookup:
  "distinct (map fst b) \<Longrightarrow> map_of (merge_entries a b) k =
     (case map_of b k of
        None \<Rightarrow> map_of a k
      | Some v \<Rightarrow> Some (case (v, map_of a k) of (JObj d, Some (JObj c)) \<Rightarrow> JObj (merge_entries c d) | _ \<Rightarrow> v))"
proof (induction b arbitrary: a)
  case (Cons x b)
  obtain j v where x: "x = (j, v)" by (rule prod.exhaust)
  have n: "map_of b j = None" using Cons.prems x by (simp add: map_of_eq_None_iff)
  show ?case using Cons.IH Cons.prems x n by (auto split: option.split)
qed simp

section \<open>The bound on the nesting\<close>

text \<open>\<open>g\<close> does what \<open>f\<close> does, unless \<open>f\<close> ran out of the bound.\<close>

definition agrees :: "'a wire \<Rightarrow> 'a wire \<Rightarrow> bool" where
  "agrees f g \<longleftrightarrow> (\<forall>s. f s \<noteq> Inl StackExceeded \<longrightarrow> g s = f s)"

named_theorems agree

lemma agrees_refl [agree]: "agrees f f"
  by (simp add: agrees_def)

lemma agrees_out [agree]: "agrees (wfail StackExceeded) g"
  by (simp add: agrees_def wfail_def)

lemma agrees_bind [agree]: "agrees m m' \<Longrightarrow> (\<And>x. agrees (f x) (f' x)) \<Longrightarrow> agrees (wbind m f) (wbind m' f')"
  unfolding agrees_def wbind_def by (auto split: sum.splits)

lemma agrees_if [agree]: "(b \<Longrightarrow> agrees f f') \<Longrightarrow> (\<not> b \<Longrightarrow> agrees g g') \<Longrightarrow> agrees (if b then f else g) (if b then f' else g')"
  by simp

lemma agrees_some [agree]: "(\<And>x. agrees (f x) (f' x)) \<Longrightarrow> agrees (wsome f xs) (wsome f' xs)"
  by (induction xs) (auto intro!: agree)

lemma agrees_every [agree]: "(\<And>x. agrees (f x) (f' x)) \<Longrightarrow> agrees (wevery f xs) (wevery f' xs)"
  by (induction xs) (auto intro!: agree)

lemma agrees_find [agree]: "(\<And>x. agrees (f x) (f' x)) \<Longrightarrow> agrees (wfind f xs) (wfind f' xs)"
  by (induction xs) (auto intro!: agree)

lemma agrees_map [agree]: "(\<And>x. agrees (f x) (f' x)) \<Longrightarrow> agrees (wmap f xs) (wmap f' xs)"
  by (induction xs) (auto intro!: agree)

lemma agrees_fold [agree]: "(\<And>a x. agrees (f a x) (f' a x)) \<Longrightarrow> agrees (wfold f acc xs) (wfold f' acc xs)"
  by (induction xs arbitrary: acc) (auto intro!: agree)

lemma agrees_case [agree]:
  "(\<And>c. agrees (h c) (h' c)) \<Longrightarrow> (\<And>t. agrees (e t) (e' t)) \<Longrightarrow> agrees (take_case h e ks) (take_case h' e' ks)"
  by (induction ks) (auto intro!: agree split: json.split)

lemma agrees_option [agree]:
  "agrees a a' \<Longrightarrow> (\<And>y. agrees (f y) (f' y)) \<Longrightarrow>
   agrees (case x of None \<Rightarrow> a | Some y \<Rightarrow> f y) (case x of None \<Rightarrow> a' | Some y \<Rightarrow> f' y)"
  by (cases x) auto

lemma agrees_prod [agree]: "(\<And>x y. agrees (f x y) (f' x y)) \<Longrightarrow> agrees (case p of (x, y) \<Rightarrow> f x y) (case p of (x, y) \<Rightarrow> f' x y)"
  by (cases p) auto

lemma agrees_json [agree]:
  "agrees a a' \<Longrightarrow> (\<And>x. agrees (b x) (b' x)) \<Longrightarrow> (\<And>m k. agrees (c m k) (c' m k)) \<Longrightarrow> (\<And>x. agrees (d x) (d' x)) \<Longrightarrow>
   (\<And>x. agrees (e x) (e' x)) \<Longrightarrow> (\<And>x. agrees (f x) (f' x)) \<Longrightarrow>
   agrees (case j of JNull \<Rightarrow> a | JBool x \<Rightarrow> b x | JNum m k \<Rightarrow> c m k | JStr x \<Rightarrow> d x | JArr x \<Rightarrow> e x | JObj x \<Rightarrow> f x)
     (case j of JNull \<Rightarrow> a' | JBool x \<Rightarrow> b' x | JNum m k \<Rightarrow> c' m k | JStr x \<Rightarrow> d' x | JArr x \<Rightarrow> e' x | JObj x \<Rightarrow> f' x)"
  by (cases j) auto

lemma evalCond_mono: "n \<le> m \<Longrightarrow> agrees (evalCond n reg ctx c) (evalCond m reg ctx c)"
proof (induction n arbitrary: m c)
  case 0
  then show ?case by (cases c) (simp_all add: agree)
next
  case (Suc n)
  then obtain k where m: "m = Suc k" "n \<le> k" by (cases m) auto
  note ih = Suc.IH[OF m(2)]
  show ?case
  proof (cases c)
    case (Some d)
    show ?thesis
    proof (cases "json_truthy d")
      case True
      show ?thesis
      proof (cases d)
        case (JObj kvs)
        then show ?thesis using True by (cases "read_cond kvs") (simp_all add: m(1) Some agree ih)
      qed (simp_all add: m(1) Some agree)
    qed (simp add: m(1) Some agree)
  qed (simp add: agree)
qed

lemma evalTemplate_mono: "n \<le> m \<Longrightarrow> agrees (evalTemplate n reg ctx t) (evalTemplate m reg ctx t)"
proof (induction n arbitrary: m t ctx)
  case 0
  then show ?case by (simp add: agree)
next
  case (Suc n)
  then obtain k where m: "m = Suc k" "n \<le> k" by (cases m) auto
  show ?case unfolding m(1) evalTemplate.simps(2)[of n] evalTemplate.simps(2)[of k] Let_def
    by (intro agree Suc.IH[OF m(2)] evalCond_mono[OF m(2)])
qed

text \<open>Never out of the bound.\<close>

definition quick :: "'a wire \<Rightarrow> bool" where
  "quick f \<longleftrightarrow> (\<forall>s. f s \<noteq> Inl StackExceeded)"

named_theorems quicks

lemma quick_ret [quicks]: "quick (wret x)"
  by (simp add: quick_def wret_def)

lemma quick_fail [quicks]: "e \<noteq> StackExceeded \<Longrightarrow> quick (wfail e)"
  by (simp add: quick_def wfail_def)

lemma quick_lift [quicks]: "r \<noteq> Inl StackExceeded \<Longrightarrow> quick (wlift r)"
  by (auto simp: quick_def wlift_def split: sum.split)

lemma quick_note [quicks]: "quick (add_note w)"
  by (simp add: quick_def add_note_def)

lemma quick_bind [quicks]: "quick m \<Longrightarrow> (\<And>x. quick (f x)) \<Longrightarrow> quick (wbind m f)"
  unfolding quick_def wbind_def by (auto split: sum.splits)

lemma quick_some [quicks]: "(\<And>x. x \<in> set xs \<Longrightarrow> quick (f x)) \<Longrightarrow> quick (wsome f xs)"
  by (induction xs) (auto intro!: quicks)

lemma quick_every [quicks]: "(\<And>x. x \<in> set xs \<Longrightarrow> quick (f x)) \<Longrightarrow> quick (wevery f xs)"
  by (induction xs) (auto intro!: quicks)

lemma quick_find [quicks]: "(\<And>x. x \<in> set xs \<Longrightarrow> quick (f x)) \<Longrightarrow> quick (wfind f xs)"
  by (induction xs) (auto intro!: quicks)

lemma quick_map [quicks]: "(\<And>x. x \<in> set xs \<Longrightarrow> quick (f x)) \<Longrightarrow> quick (wmap f xs)"
  by (induction xs) (auto intro!: quicks)

lemma quick_fold [quicks]: "(\<And>a x. x \<in> set xs \<Longrightarrow> quick (f a x)) \<Longrightarrow> quick (wfold f acc xs)"
  by (induction xs arbitrary: acc) (auto intro!: quicks)

definition reg_safe :: "wire_registry \<Rightarrow> bool" where
  "reg_safe reg \<longleftrightarrow>
     (\<forall>name fn v c. rg_transforms reg name = Some fn \<longrightarrow> fn v c \<noteq> Inl StackExceeded)
     \<and> (\<forall>name p c. rg_predicates reg name = Some p \<longrightarrow> p c \<noteq> Inl StackExceeded)"

lemma quick_parts [quicks]:
  "quick (path_in r p)" "quick (pair_at j)" "quick (list_at ctx name)" "quick (has_part_type tys ctx)"
  "quick (as_list v)" "quick (read_path ctx j)" "quick (look_up ctx t j)"
  by (auto simp: path_in_def pair_at_def list_at_def has_part_type_def as_list_def read_path_def look_up_def
      intro!: quicks split: json.split option.split list.split)

lemma quick_predicates: "reg_safe reg \<Longrightarrow> quick (run_predicate reg name ctx)" "reg_safe reg \<Longrightarrow> quick (is_function_tool reg ctx)"
  by (auto simp: run_predicate_def is_function_tool_def reg_safe_def intro!: quicks split: option.split)

text \<open>A condition that does not ask for a hosted tool.\<close>

fun tool_free :: "json \<Rightarrow> bool" where
  "tool_free (JObj kvs) = (map_of kvs ''hasTool'' = None \<and> (\<forall>kv\<in>set kvs. tool_free (snd kv)))"
| "tool_free (JArr xs) = (\<forall>x\<in>set xs. tool_free x)"
| "tool_free _ = True"

lemma size_elem: "x \<in> set xs \<Longrightarrow> size x < size (JArr xs)"
  using size_list_estimation'[of x xs "size x" size] by simp

lemma size_val: "(k, v) \<in> set kvs \<Longrightarrow> size v < size (JObj kvs)"
  using size_list_estimation'[of "(k, v)" kvs "size v" "size_prod (\<lambda>_. 0) size"] by simp

lemma size_at: "map_of kvs k = Some v \<Longrightarrow> size v < size (JObj kvs)"
  by (rule size_val) (rule map_of_SomeD)

lemma read_cond_at:
  "read_cond kvs = CNot d \<Longrightarrow> map_of kvs ''not'' = Some d" "read_cond kvs = CAll d \<Longrightarrow> map_of kvs ''all'' = Some d"
  "read_cond kvs = CAny d \<Longrightarrow> map_of kvs ''any'' = Some d" "read_cond kvs = CHasTool d \<Longrightarrow> map_of kvs ''hasTool'' = Some d"
  by (auto simp: read_cond_def cond_keys_def split: option.splits)

lemma tool_free_at: "tool_free (JObj kvs) \<Longrightarrow> map_of kvs k = Some v \<Longrightarrow> tool_free v"
  by (fastforce dest: map_of_SomeD)

lemma quick_cond_step:
  assumes reg: "reg_safe reg" and c: "c = JObj kvs"
    and sub: "\<And>d. size d < size c \<Longrightarrow> tool_free c \<longrightarrow> tool_free d \<Longrightarrow> quick (evalCond n reg ctx (Some d))"
    and tool: "\<And>k. map_of kvs ''hasTool'' \<noteq> None \<Longrightarrow> k \<in> set (cx_constraints ctx) \<Longrightarrow> quick (evalCond n reg ctx (Some (tk_conflictsWith k)))"
  shows "quick (evalCond (Suc n) reg ctx (Some c))"
proof -
  have at: "quick (evalCond n reg ctx (Some d))" if "map_of kvs k = Some d" for k d
    by (rule sub) (use that c size_at tool_free_at in auto)
  have list: "quick (evalCond n reg ctx (Some d))" if "map_of kvs k = Some (JArr ds)" "d \<in> set ds" for k ds d
  proof (rule sub)
    show "size d < size c" using size_at[OF that(1)] size_elem[OF that(2)] c by simp
    show "tool_free c \<longrightarrow> tool_free d" using tool_free_at[OF _ that(1)] that(2) c by auto
  qed
  show ?thesis
  proof (cases "read_cond kvs")
    case (CHasTool ty)
    note t = tool[unfolded read_cond_at(4)[OF CHasTool], simplified]
    show ?thesis using CHasTool c reg by (auto intro!: quicks quick_predicates t split: option.split)
  next
    case (CNot d)
    then show ?thesis using c at[OF read_cond_at(1)[OF CNot]] by (auto intro!: quicks)
  next
    case (CAll d)
    then show ?thesis using c list[of "''all''"] read_cond_at(2)[OF CAll] by (auto intro!: quicks split: json.split)
  next
    case (CAny d)
    then show ?thesis using c list[of "''any''"] read_cond_at(3)[OF CAny] by (auto intro!: quicks split: json.split)
  qed (use c reg in \<open>auto intro!: quicks quick_predicates split: json.split\<close>)
qed

lemma quick_cond_scalar: "\<nexists>kvs. c = JObj kvs \<Longrightarrow> quick (evalCond (Suc n) reg ctx (Some c))"
  by (cases c) (auto intro!: quicks)

lemma quick_cond_free:
  assumes "reg_safe reg" shows "tool_free c \<Longrightarrow> size c < n \<Longrightarrow> quick (evalCond n reg ctx (Some c))"
proof (induction n arbitrary: c)
  case (Suc n)
  show ?case
  proof (cases "\<exists>kvs. c = JObj kvs")
    case True
    then obtain kvs where c: "c = JObj kvs" by blast
    show ?thesis by (rule quick_cond_step[OF assms c]) (use Suc c in auto)
  qed (rule quick_cond_scalar)
qed simp

definition flat_constraints :: "nat \<Rightarrow> wire_ctx \<Rightarrow> bool" where
  "flat_constraints D ctx \<longleftrightarrow>
     (\<forall>k\<in>set (cx_constraints ctx). tool_free (tk_conflictsWith k) \<and> size (tk_conflictsWith k) < D)"

lemma quick_cond:
  assumes "reg_safe reg" "flat_constraints D ctx" shows "size c + D < n \<Longrightarrow> quick (evalCond n reg ctx (Some c))"
proof (induction n arbitrary: c)
  case (Suc n)
  show ?case
  proof (cases "\<exists>kvs. c = JObj kvs")
    case True
    then obtain kvs where c: "c = JObj kvs" by blast
    show ?thesis
    proof (rule quick_cond_step[OF assms(1) c])
      fix k assume "k \<in> set (cx_constraints ctx)"
      then show "quick (evalCond n reg ctx (Some (tk_conflictsWith k)))"
        using assms(2) Suc.prems by (intro quick_cond_free[OF assms(1)]) (auto simp: flat_constraints_def)
    qed (use Suc in auto)
  qed (rule quick_cond_scalar)
qed simp

lemma quick_case [quicks]:
  "(\<And>kvs. JObj kvs \<in> set ks \<Longrightarrow> quick (h (map_of kvs ''when''))) \<Longrightarrow>
   (\<And>kvs. JObj kvs \<in> set ks \<Longrightarrow> quick (e (nullish (map_of kvs ''value'') JNull))) \<Longrightarrow> quick (take_case h e ks)"
  by (induction ks) (auto intro!: quicks split: json.split)

lemma flat_item [simp]: "flat_constraints D (at_item ctx x i l) = flat_constraints D ctx"
  by (simp add: flat_constraints_def at_item_def)

lemma quick_as_list: "(\<And>xs. v = Some (JArr xs) \<Longrightarrow> quick (f xs)) \<Longrightarrow> quick (wbind (as_list v) f)"
  by (auto simp: as_list_def wbind_def wret_def wfail_def quick_def split: option.splits json.splits)

lemma quick_option: "(x = None \<Longrightarrow> quick a) \<Longrightarrow> (\<And>y. x = Some y \<Longrightarrow> quick (f y)) \<Longrightarrow> quick (case x of None \<Rightarrow> a | Some y \<Rightarrow> f y)"
  by (cases x) auto

lemma quick_if: "(b \<Longrightarrow> quick f) \<Longrightarrow> (\<not> b \<Longrightarrow> quick g) \<Longrightarrow> quick (if b then f else g)"
  by simp

lemma quick_prod: "(\<And>x y. p = (x, y) \<Longrightarrow> quick (f x y)) \<Longrightarrow> quick (case p of (x, y) \<Rightarrow> f x y)"
  by (cases p) auto

lemma quick_json:
  "quick a \<Longrightarrow> (\<And>x. quick (b x)) \<Longrightarrow> (\<And>m k. quick (c m k)) \<Longrightarrow> (\<And>x. j = JStr x \<Longrightarrow> quick (d x)) \<Longrightarrow>
   (\<And>x. j = JArr x \<Longrightarrow> quick (e x)) \<Longrightarrow> (\<And>x. j = JObj x \<Longrightarrow> quick (f x)) \<Longrightarrow>
   quick (case j of JNull \<Rightarrow> a | JBool x \<Rightarrow> b x | JNum m k \<Rightarrow> c m k | JStr x \<Rightarrow> d x | JArr x \<Rightarrow> e x | JObj x \<Rightarrow> f x)"
  by (cases j) auto

lemmas quick_cases = quick_option quick_if quick_prod quick_json

lemma quick_template:
  assumes "reg_safe reg" shows "flat_constraints D ctx \<Longrightarrow> size t + D < n \<Longrightarrow> quick (evalTemplate n reg ctx t)"
proof (induction n arbitrary: t ctx)
  case (Suc n)
  note ih = Suc.IH[OF Suc.prems(1)] and cond = quick_cond[OF assms Suc.prems(1)]
  show ?case
  proof (cases t)
    case (JArr els)
    have "quick (evalTemplate n reg ctx el)" if "el \<in> set els" for el
      using size_elem[OF that] Suc.prems JArr by (intro ih) simp
    moreover have "quick (evalTemplate n reg ctx many)" if "el \<in> set els" "splice el = Some many" for el many
      using size_elem[OF that(1)] that(2) size_at Suc.prems JArr by (intro ih) (fastforce simp: splice_def split: json.splits)
    ultimately show ?thesis using JArr by (auto intro!: quicks split: option.split)
  next
    case (JObj kvs)
    have at: "size j + D < n" if "map_of kvs k = Some j" for k j using size_at[OF that] Suc.prems(2) JObj by simp
    have elem: "size x + D < n" if "map_of kvs k = Some (JArr xs)" "x \<in> set xs" for k xs x
      using at[OF that(1)] size_elem[OF that(2)] by simp
    have entry: "size x + D < n" if "(k, x) \<in> set kvs" for k x using size_val[OF that] Suc.prems(2) JObj by simp
    have kase: "quick (take_case (evalCond n reg (at_item ctx x i l)) (evalTemplate n reg (at_item ctx x i l)) cases)"
      if c: "map_of kvs ''$case'' = Some (JArr cases)" for cases x i l
    proof (rule quick_case)
      fix ks assume k: "JObj ks \<in> set cases"
      show "quick (evalCond n reg (at_item ctx x i l) (map_of ks ''when''))"
      proof (cases "map_of ks ''when''")
        case (Some j)
        show ?thesis unfolding Some
          by (rule quick_cond[OF assms, where D = D]) (use elem[OF c k] size_at[OF Some] Suc.prems(1) in simp_all)
      qed (simp add: quicks)
    next
      fix ks assume k: "JObj ks \<in> set cases"
      have "size (nullish (map_of ks ''value'') JNull) + D < n"
        using elem[OF c k] size_at[of ks "''value''"] by (cases "map_of ks ''value''") (auto simp: nullish_def)
      then show "quick (evalTemplate n reg (at_item ctx x i l) (nullish (map_of ks ''value'') JNull))"
        by (intro Suc.IH) (use Suc.prems(1) in simp_all)
    qed
    have tr: "quick (wlift (fn v ctx))" if "rg_transforms reg name = Some fn" for name fn v
      using assms that by (intro quicks) (auto simp: reg_safe_def)
    show ?thesis unfolding JObj evalTemplate.simps json.case Let_def
      by (intro quick_as_list quick_cases kase ih cond tr quicks) (auto intro: at elem entry)
  qed (auto intro!: quicks)
qed simp

text \<open>C25: The bound on the nesting never shows: from the size of a template on, plus that of the conditions of the tool
  constraints, evaluation does not run out of it, and no larger bound changes the result. The conditions of the
  constraints must not ask for a hosted tool themselves, for then the code calls itself without end.\<close>
theorem bound_is_enough:
  assumes "reg_safe reg" "flat_constraints D ctx" "size t + D < n" "n \<le> m"
  shows "evalTemplate n reg ctx t s \<noteq> Inl StackExceeded \<and> evalTemplate m reg ctx t s = evalTemplate n reg ctx t s"
  using quick_template[OF assms(1-3)] evalTemplate_mono[OF assms(4)] by (simp add: quick_def agrees_def)

definition no_registry :: wire_registry where
  "no_registry = \<lparr> rg_transforms = (\<lambda>_. None), rg_builders = (\<lambda>_. None), rg_predicates = (\<lambda>_. None), rg_effects = (\<lambda>_. None) \<rparr>"

lemma bound_is_enough_witness:
  "evalTemplate 9 no_registry (bare_ctx (JObj [(''model'', JStr ''m'')])) (JObj [(''$'', JStr ''model'')]) None
     = evalTemplate 8 no_registry (bare_ctx (JObj [(''model'', JStr ''m'')])) (JObj [(''$'', JStr ''model'')]) None"
proof -
  have "reg_safe no_registry" by (simp add: reg_safe_def no_registry_def)
  moreover have "flat_constraints 0 (bare_ctx (JObj [(''model'', JStr ''m'')]))" by (simp add: flat_constraints_def bare_ctx_def)
  ultimately show ?thesis
    using bound_is_enough[of no_registry 0 "bare_ctx (JObj [(''model'', JStr ''m'')])" "JObj [(''$'', JStr ''model'')]" 8 9 None] by simp
qed

section \<open>Templates without operators\<close>

fun plain :: "json \<Rightarrow> bool" where
  "plain (JObj kvs) = (distinct (map fst kvs) \<and> (\<forall>kv\<in>set kvs. \<not> starts_with (fst kv) ''$'' \<and> plain (snd kv)))"
| "plain (JArr xs) = (\<forall>x\<in>set xs. plain x)"
| "plain _ = True"

lemma wbind_ret [simp]: "wbind (wret x) f = f x"
  by (simp add: wbind_def wret_def)

lemma plain_no_operator: "plain (JObj kvs) \<Longrightarrow> starts_with k ''$'' \<Longrightarrow> map_of kvs k = None"
  by (cases "map_of kvs k") (auto dest!: map_of_SomeD)

lemma update_at_end: "k \<notin> fst ` set out \<Longrightarrow> AList.update k v out = out @ [(k, v)]"
  by (induction out) auto

lemma plain_splice: "plain x \<Longrightarrow> splice x = None"
  by (cases x) (auto simp: splice_def plain_no_operator)

lemma literal_template: "plain t \<Longrightarrow> size t < n \<Longrightarrow> evalTemplate n reg ctx t = wret (Some t)"
proof (induction n arbitrary: t)
  case (Suc n)
  show ?case
  proof (cases t)
    case (JArr els)
    have "wfold (\<lambda>out el. case splice el of
              Some many \<Rightarrow> wbind (evalTemplate n reg ctx many) (\<lambda>v. wret (case v of Some (JArr xs) \<Rightarrow> out @ xs | _ \<Rightarrow> out))
            | None \<Rightarrow> wbind (evalTemplate n reg ctx el) (\<lambda>v. wret (out @ keep v))) acc xs = wret (acc @ xs)"
      if "set xs \<subseteq> set els" for acc xs
      using that
    proof (induction xs arbitrary: acc)
      case (Cons x xs)
      then have "plain x" "size x < n" using Suc.prems JArr size_elem[of x els] by auto
      then show ?case using Cons Suc.IH[of x] by (simp add: plain_splice keep_def)
    qed simp
    from this[of els "[]"] show ?thesis using JArr by simp
  next
    case (JObj kvs)
    have ops: "map_of kvs ''$when'' = None" "map_of kvs ''$'' = None" "map_of kvs ''$config'' = None" "map_of kvs ''$join'' = None"
      "map_of kvs ''$table'' = None" "map_of kvs ''$call'' = None" "map_of kvs ''$map'' = None"
      using plain_no_operator[of kvs] Suc.prems(1) JObj by auto
    have "wfold (\<lambda>out (k, v).
        if k = ''$note'' then wret out
        else if k = ''$spread'' then
          wbind (evalTemplate n reg ctx v) (\<lambda>src. wret (case src of Some (JObj kvs) \<Rightarrow> spread out kvs | _ \<Rightarrow> out))
        else wbind (evalTemplate n reg ctx v) (\<lambda>x. wret (case x of None \<Rightarrow> out | Some j \<Rightarrow> AList.update k j out))) acc xs = wret (acc @ xs)"
      if "set xs \<subseteq> set kvs" "distinct (map fst (acc @ xs))" for acc xs
      using that
    proof (induction xs arbitrary: acc)
      case (Cons x xs)
      obtain k v where x: "x = (k, v)" by (rule prod.exhaust)
      then have "(k, v) \<in> set kvs" using Cons.prems by auto
      then have "plain v" "size v < n" "\<not> starts_with k ''$''" using Suc.prems JObj size_val[of k v kvs] by auto
      moreover then have "k \<noteq> ''$note''" "k \<noteq> ''$spread''" by auto
      ultimately show ?case using Cons x Suc.IH[of v] by (simp add: update_at_end)
    qed simp
    from this[of kvs "[]"] show ?thesis using JObj ops Suc.prems(1) by simp
  qed auto
qed simp

text \<open>Only operators are interpreted: a template in which no key of an object begins with a dollar sign is sent exactly as
  it is written in the spec, with no note and whatever the request, the model and the registry are.\<close>
theorem literal_template_is_itself:
  assumes "plain t" "size t < n"
  shows "evalTemplate n reg ctx t s = Inr (Some t, s)"
  using literal_template[OF assms] by (simp add: wret_def)

lemma literal_template_is_itself_witness:
  "evalTemplate 9 no_registry (bare_ctx JNull) (JArr [JObj [(''type'', JStr ''text'')]]) None = Inr (Some (JArr [JObj [(''type'', JStr ''text'')]]), None)"
  by (rule literal_template_is_itself) simp_all

section \<open>Hosted tools that are withheld\<close>

lemma find_result: "wfind f xs s = Inr (Some x, s') \<Longrightarrow> x \<in> set xs \<and> (\<exists>s1. f x s1 = Inr (True, s'))"
proof (induction xs arbitrary: s)
  case (Cons y ys)
  then obtain b s1 where f: "f y s = Inr (b, s1)" by (auto simp: wbind_def split: sum.splits)
  show ?case
  proof (cases b)
    case True
    then show ?thesis using Cons.prems f by (auto simp: wbind_def wret_def)
  next
    case False
    then have "wfind f ys s1 = Inr (Some x, s')" using Cons.prems f by (simp add: wbind_def)
    then show ?thesis using Cons.IH by auto
  qed
qed (simp add: wret_def)

lemma wbind_ok: "wbind m f s = Inr r \<Longrightarrow> (\<And>x s1. m s = Inr (x, s1) \<Longrightarrow> f x s1 = Inr r \<Longrightarrow> thesis) \<Longrightarrow> thesis"
  by (cases "m s") (auto simp: wbind_def)

lemma wbind_step: "m s = Inr (x, s1) \<Longrightarrow> wbind m f s = f x s1"
  by (simp add: wbind_def)

text \<open>Notes are only added.\<close>

definition grows :: "'a wire \<Rightarrow> bool" where
  "grows f \<longleftrightarrow> (\<forall>ns x s. f (Some ns) = Inr (x, s) \<longrightarrow> (\<exists>added. s = Some (ns @ added)))"

named_theorems growth

lemma growsD: "grows f \<Longrightarrow> f (Some ns) = Inr (x, s) \<Longrightarrow> \<exists>added. s = Some (ns @ added)"
  by (simp add: grows_def)

lemma grows_basic [growth]: "grows (wret x)" "grows (wfail e)" "grows (wlift r)" "grows (add_note w)"
  by (auto simp: grows_def wret_def wfail_def wlift_def add_note_def split: sum.splits)

lemma grows_bind [growth]: "grows m \<Longrightarrow> (\<And>x. grows (f x)) \<Longrightarrow> grows (wbind m f)"
  unfolding grows_def wbind_def by (fastforce split: sum.splits)

lemma grows_some [growth]: "(\<And>x. grows (f x)) \<Longrightarrow> grows (wsome f xs)"
  by (induction xs) (auto intro!: growth)

lemma grows_every [growth]: "(\<And>x. grows (f x)) \<Longrightarrow> grows (wevery f xs)"
  by (induction xs) (auto intro!: growth)

lemma grows_find [growth]: "(\<And>x. grows (f x)) \<Longrightarrow> grows (wfind f xs)"
  by (induction xs) (auto intro!: growth)

lemma grows_parts [growth]:
  "grows (path_in r p)" "grows (pair_at j)" "grows (list_at ctx name)" "grows (has_part_type tys ctx)"
  "grows (run_predicate reg name ctx)" "grows (is_function_tool reg ctx)"
  by (auto simp: path_in_def pair_at_def list_at_def has_part_type_def run_predicate_def is_function_tool_def
      intro!: growth split: json.split option.split list.split)

lemma grows_cond: "grows (evalCond n reg ctx c)"
proof (induction n arbitrary: c)
  case 0
  then show ?case by (cases c) (auto intro!: growth)
next
  case (Suc n)
  show ?case
  proof (cases c)
    case (Some d)
    show ?thesis
    proof (cases d)
      case (JObj kvs)
      then show ?thesis using Some by (cases "read_cond kvs") (auto intro!: growth Suc split: option.split json.split)
    qed (use Some in \<open>auto intro!: growth\<close>)
  qed (auto intro!: growth)
qed

lemma some_found:
  "wsome f xs s = Inr (b, s') \<Longrightarrow> x \<in> set xs \<Longrightarrow> (\<And>y. y \<in> set xs \<Longrightarrow> \<exists>c. \<forall>s. f y s = Inr (c, s) \<and> (y = x \<longrightarrow> c)) \<Longrightarrow> b \<and> s' = s"
proof (induction xs)
  case (Cons y ys)
  obtain c where c: "\<And>s. f y s = Inr (c, s)" "y = x \<longrightarrow> c" using Cons.prems(3)[of y] by auto
  show ?case
  proof (cases c)
    case True
    then show ?thesis using Cons.prems(1) c(1) by (simp add: wbind_def wret_def)
  next
    case False
    then have "wsome f ys s = Inr (b, s')" "x \<in> set ys" using Cons.prems(1,2) c by (auto simp: wbind_def)
    then show ?thesis using Cons.IH Cons.prems(3) by simp
  qed
qed simp

text \<open>The requested tool \<open>t\<close> is a hosted one of type \<open>ty\<close>.\<close>

definition hosted_in :: "wire_registry \<Rightarrow> wire_ctx \<Rightarrow> string \<Rightarrow> json \<Rightarrow> bool" where
  "hosted_in reg ctx ty t \<longleftrightarrow> (\<exists>tools p. member_of (cx_req ctx) ''tools'' = Some (JArr tools) \<and> t \<in> set tools
     \<and> rg_predicates reg ''isFunctionTool'' = Some p \<and> (\<forall>x\<in>set tools. \<exists>b. p (at_item ctx x 0 False) = Inr b)
     \<and> p (at_item ctx t 0 False) = Inr False \<and> of_type (Some t) (JStr ty))"


text \<open>A provider that refuses to run code beside a video.\<close>

definition video_ctx :: wire_ctx where
  "video_ctx = (bare_ctx (JObj [(''tools'', JArr [JObj [(''type'', JStr ''code_interpreter'')]]), (''video'', JBool True)]))
     \<lparr>cx_constraints := [\<lparr> tk_tool = ''code_interpreter'', tk_conflictsWith = JObj [(''truthy'', JStr ''video'')], tk_why = ''no code beside video'' \<rparr>]\<rparr>"

definition hosted_only :: wire_registry where
  "hosted_only = no_registry\<lparr>rg_predicates := [''isFunctionTool'' \<mapsto> \<lambda>c. Inr False]\<rparr>"


section \<open>Three corners\<close>

text \<open>An operation (\<open>opCtx\<close>) collects no notes, so there a tool is withheld without a word.\<close>

lemma operation_withholds_silently:
  "evalCond 3 hosted_only video_ctx (Some (JObj [(''hasTool'', JStr ''code_interpreter'')])) None = Inr (False, None)"
  by (simp add: numeral_3_eq_3 read_cond_def cond_keys_def list_at_def video_ctx_def bare_ctx_def is_function_tool_def hosted_only_def
      wbind_def wlift_def of_type_def strict_eq_def path_in_def getPath_def path_parts_def add_note_def wret_def)

text \<open>A constraint whose condition asks for its own tool calls itself without end.\<close>

lemma self_conflict_never_ends:
  defines "ask \<equiv> JObj [(''hasTool'', JStr ''t'')]"
  defines "ctx \<equiv> (bare_ctx (JObj [(''tools'', JArr [JObj [(''type'', JStr ''t'')]])]))
     \<lparr>cx_constraints := [\<lparr> tk_tool = ''t'', tk_conflictsWith = ask, tk_why = [] \<rparr>]\<rparr>"
  shows "evalCond n hosted_only ctx (Some ask) s = Inl StackExceeded"
proof (induction n arbitrary: s)
  case 0
  then show ?case by (simp add: wfail_def)
next
  case (Suc n)
  then show ?case unfolding ask_def
    by (simp add: read_cond_def cond_keys_def list_at_def ctx_def bare_ctx_def is_function_tool_def hosted_only_def
        wbind_def wlift_def of_type_def strict_eq_def wret_def ask_def)
qed

text \<open>A field that is false, zero or empty keeps its old name under a flavor that renames it.\<close>

lemma falsy_field_keeps_name:
  assumes "cx_body (bs_ctx b) = [(''max_tokens'', JNum 0 0)]" "ov_op op = ''rename''" "ov_from op = Some ''max_tokens''" "ov_when op = None"
  shows "\<exists>b1. apply_overlay fuel reg flavor b op s = Inr (b1, s) \<and> cx_body (bs_ctx b1) = [(''max_tokens'', JNum 0 0)]"
  using assms by (simp add: apply_overlay_def Let_def use_rule_def nullish_def getPath_def path_parts_def wret_def wbind_def)

end
