(* ===== verification/WireQuery.thy ===== *)
theory WireQuery
  imports WireBuild JsonParse
begin

text \<open>
  Query parameters survive their encoding: a server that splits the text the interpreter appends at the separators and
  decodes it gets back every name and value.
\<close>

section \<open>What a server reads\<close>

fun unescape :: "bool \<Rightarrow> string \<Rightarrow> nat list" where
  "unescape form [] = []"
| "unescape form (c # s) =
     (if c = CHR ''%'' then
        (case s of
           a # b # rest \<Rightarrow> (16 * nullish (hex_val a) 0 + nullish (hex_val b) 0) # unescape form rest
         | _ \<Rightarrow> unescape form [])
      else (if form \<and> c = CHR ''+'' then 32 else code_unit c) # unescape form s)"

fun from_utf8 :: "nat list \<Rightarrow> string" where
  "from_utf8 [] = []"
| "from_utf8 [n] = [char_of n]"
| "from_utf8 (n # m # ns) =
     (if n < 128 then char_of n # from_utf8 (m # ns) else char_of ((n - 192) * 64 + (m - 128)) # from_utf8 ns)"

definition read_param :: "bool \<Rightarrow> string \<Rightarrow> string \<times> string" where
  "read_param form p =
     (from_utf8 (unescape form (takeWhile (\<lambda>c. c \<noteq> CHR ''='') p)), from_utf8 (unescape form (tl (dropWhile (\<lambda>c. c \<noteq> CHR ''='') p))))"

definition read_query :: "bool \<Rightarrow> string \<Rightarrow> (string \<times> string) list" where
  "read_query form q = map (read_param form) (split_on (CHR ''&'') q)"

section \<open>One character\<close>

definition encoded :: "bool \<Rightarrow> char \<Rightarrow> string" where
  "encoded form c = (if form then encodeForm [c] else encodeURIComponent [c])"

lemma escaper_encoded: "escaper (if form then Some ''form'' else None) s = concat (map (encoded form) s)"
  by (induction s) (auto simp: escaper_def encoded_def encodeForm_def encodeURIComponent_def)

lemma code_unit_bound: "code_unit c < 256"
  by (simp add: code_unit_def)

lemma utf8_bytes: "b \<in> set (utf8 c) \<Longrightarrow> b < 256"
  using code_unit_bound[of c] by (auto simp: utf8_def Let_def split: if_splits)

lemma upper_hex_code: "n < 16 \<Longrightarrow> code_unit (upper_hex n) = (if n < 10 then 48 + n else 55 + n)"
  by (simp add: upper_hex_def code_unit_def)

lemma hex_val_upper: "n < 16 \<Longrightarrow> hex_val (upper_hex n) = Some n"
  by (simp add: hex_val_def upper_hex_code Let_def)

lemma char_eq_code: "c = d \<longleftrightarrow> code_unit c = code_unit d"
  by (metis char_of_code_unit)

lemma percent_code [simp]: "code_unit (CHR ''%'') = 37" "code_unit (CHR ''+'') = 43" "code_unit (CHR ''&'') = 38" "code_unit (CHR ''='') = 61"
  "code_unit (CHR '' '') = 32" "code_unit (CHR ''_'') = 95" "code_unit (CHR ''!'') = 33" "code_unit (CHR ''~'') = 126" "code_unit (CHR ''*'') = 42"
  by (simp_all add: code_unit_def)

lemma unescape_percent: "unescape form (percent c @ r) = utf8 c @ unescape form r"
proof -
  have "unescape form (concat (map (\<lambda>b. [CHR ''%'', upper_hex (b div 16), upper_hex (b mod 16)]) bs) @ r) = bs @ unescape form r"
    if "\<forall>b\<in>set bs. b < 256" for bs
    using that by (induction bs) (auto simp: hex_val_upper nullish_def)
  then show ?thesis using utf8_bytes by (simp add: percent_def)
qed

lemma encoded_cases:
  "encoded form c = [c] \<and> code_unit c < 128 \<and> code_unit c \<notin> {37, 38, 43, 61}
   \<or> form \<and> c = CHR '' '' \<and> encoded form c = ''+'' \<or> encoded form c = percent c"
  by (auto simp: encoded_def encodeForm_def encodeURIComponent_def is_alnum_def is_digit_def is_small_def char_eq_code)

lemma unescape_encoded: "unescape form (encoded form c @ r) = utf8 c @ unescape form r"
  using encoded_cases[of form c]
proof (elim disjE conjE)
  assume "encoded form c = [c]" "code_unit c < 128" "code_unit c \<notin> {37, 38, 43, 61}"
  then show ?thesis by (auto simp: utf8_def Let_def char_eq_code)
next
  assume "form" "c = CHR '' ''" "encoded form c = ''+''"
  then show ?thesis by (simp add: utf8_def)
next
  assume "encoded form c = percent c"
  then show ?thesis by (simp add: unescape_percent)
qed

lemma unescape_all: "unescape form (concat (map (encoded form) s) @ r) = concat (map utf8 s) @ unescape form r"
  by (induction s) (simp_all add: unescape_encoded)

lemma from_utf8_small: "n < 128 \<Longrightarrow> from_utf8 (n # ns) = char_of n # from_utf8 ns"
  by (cases ns) auto

lemma from_utf8_bytes: "from_utf8 (concat (map utf8 s)) = s"
proof (induction s)
  case (Cons c s)
  have "from_utf8 (utf8 c @ ns) = c # from_utf8 ns" for ns
    by (cases "code_unit c < 128") (simp_all add: utf8_def Let_def from_utf8_small)
  then show ?case using Cons by simp
qed simp

lemma decoded: "from_utf8 (unescape form (concat (map (encoded form) s))) = s"
  using unescape_all[of form s "[]"] from_utf8_bytes[of s] by simp

lemma percent_chars:
  assumes "d \<in> set (percent c)" shows "code_unit d \<in> {37} \<union> {48..57} \<union> {65..70}"
proof -
  have h: "code_unit (upper_hex b) \<in> {48..57} \<union> {65..70}" if "b < 16" for b using that by (auto simp: upper_hex_code)
  have "\<exists>b\<in>set (utf8 c). d = CHR ''%'' \<or> d = upper_hex (b div 16) \<or> d = upper_hex (b mod 16)"
    using assms by (auto simp: percent_def utf8_def Let_def split: if_splits)
  then obtain b where "b \<in> set (utf8 c)" "d = CHR ''%'' \<or> d = upper_hex (b div 16) \<or> d = upper_hex (b mod 16)" by blast
  moreover then have "b div 16 < 16" using utf8_bytes[of b c] by auto
  ultimately show ?thesis using h[of "b div 16"] h[of "b mod 16"] utf8_bytes[of b c] by auto
qed

lemma no_separator: "d \<in> set (encoded form c) \<Longrightarrow> d \<noteq> CHR ''&'' \<and> d \<noteq> CHR ''=''"
  using encoded_cases[of form c]
proof (elim disjE conjE)
  assume "d \<in> set (encoded form c)" "encoded form c = percent c"
  then have "code_unit d \<in> {37} \<union> {48..57} \<union> {65..70}" using percent_chars by simp
  then show ?thesis by (auto simp: char_eq_code)
next
  assume "d \<in> set (encoded form c)" "encoded form c = ''+''"
  then show ?thesis by simp
qed (auto simp: char_eq_code)

lemma split_before: "c \<notin> set xs \<Longrightarrow> takeWhile (\<lambda>d. d \<noteq> c) (xs @ c # r) = xs \<and> dropWhile (\<lambda>d. d \<noteq> c) (xs @ c # r) = c # r"
  by (induction xs) auto

lemma read_param_encoded:
  "read_param form (concat (map (encoded form) k) @ CHR ''='' # concat (map (encoded form) v)) = (k, v)"
proof -
  let ?k = "concat (map (encoded form) k)"
  have "CHR ''='' \<notin> set ?k" using no_separator by fastforce
  then have "takeWhile (\<lambda>c. c \<noteq> CHR ''='') (?k @ CHR ''='' # r) = ?k \<and> dropWhile (\<lambda>c. c \<noteq> CHR ''='') (?k @ CHR ''='' # r) = CHR ''='' # r"
    for r by (rule split_before)
  then show ?thesis by (simp add: read_param_def decoded)
qed

lemma read_query_lines:
  assumes "ps \<noteq> []"
  shows "read_query form (drop (Suc (length base)) (with_query base
      (map (\<lambda>(k, v). escaper (if form then Some ''form'' else None) k @ ''='' @ escaper (if form then Some ''form'' else None) v) ps))) = ps"
proof -
  let ?line = "\<lambda>(k, v). concat (map (encoded form) k) @ CHR ''='' # concat (map (encoded form) v)"
  have "\<forall>x\<in>set (map ?line ps). CHR ''&'' \<notin> set x" using no_separator by fastforce
  then have "split_on (CHR ''&'') (join ''&'' (map ?line ps)) = map ?line ps" using assms by (intro split_on_join) simp_all
  moreover have "map (read_param form) (map ?line ps) = ps" by (simp add: read_param_encoded comp_def case_prod_beta')
  ultimately show ?thesis by (simp add: escaper_encoded with_query_def read_query_def)
qed

section \<open>The rules of an envelope\<close>

text \<open>
  What the query rules of an envelope ask to send, in the clear: the name of each rule that holds, with the text of its
  value; a rule without a value sends nothing.
\<close>

definition query_value ::
  "nat \<Rightarrow> wire_registry \<Rightarrow> wire_ctx \<Rightarrow> (string \<times> string) list \<Rightarrow> query_rule \<Rightarrow> (string \<times> string) list wire" where
  "query_value fuel reg ctx ps q =
     wbind (evalCond fuel reg ctx (qr_when q)) (\<lambda>holds.
       if \<not> holds then wret ps
       else wbind (evalTemplate fuel reg ctx (qr_value q)) (\<lambda>v. wret (case v of
              None \<Rightarrow> ps | Some j \<Rightarrow> ps @ [(qr_name q, json_to_string j)])))"

definition query_line :: "(string \<Rightarrow> string) \<Rightarrow> string \<times> string \<Rightarrow> string" where
  "query_line esc = (\<lambda>(k, v). esc k @ ''='' @ esc v)"

lemma query_param_value:
  assumes "query_param fuel reg esc (map (query_line esc) ps, b) q s = Inr ((params, b1), s1)"
  shows "bs_ctx b1 = bs_ctx b
    \<and> (\<exists>ps1. query_value fuel reg (bs_ctx b) ps q s = Inr (ps1, s1) \<and> params = map (query_line esc) ps1)"
proof -
  obtain holds s0 where h: "evalCond fuel reg (bs_ctx b) (qr_when q) s = Inr (holds, s0)"
    using assms by (cases "evalCond fuel reg (bs_ctx b) (qr_when q) s") (auto simp: query_param_def wbind_def)
  show ?thesis
  proof (cases holds)
    case False
    then show ?thesis using assms h by (auto simp: query_param_def query_value_def wbind_def wret_def)
  next
    case True
    obtain v s2 where v: "evalTemplate fuel reg (bs_ctx b) (qr_value q) s0 = Inr (v, s2)"
      using assms h True by (cases "evalTemplate fuel reg (bs_ctx b) (qr_value q) s0") (auto simp: query_param_def wbind_def)
    show ?thesis using assms h v True
      by (cases v) (auto simp: query_param_def query_value_def query_line_def wbind_def wret_def use_rule_def)
  qed
qed

lemma query_params_values:
  "wfold (query_param fuel reg esc) (map (query_line esc) ps, b) rules s = Inr ((params, b2), s2) \<Longrightarrow>
     \<exists>ps2. wfold (query_value fuel reg (bs_ctx b)) ps rules s = Inr (ps2, s2) \<and> params = map (query_line esc) ps2"
proof (induction rules arbitrary: ps b s)
  case Nil
  then show ?case by (simp add: wret_def)
next
  case (Cons q rules)
  obtain params1 b1 s1 where 1: "query_param fuel reg esc (map (query_line esc) ps, b) q s = Inr ((params1, b1), s1)"
    "wfold (query_param fuel reg esc) (params1, b1) rules s1 = Inr ((params, b2), s2)"
    using Cons.prems by (cases "query_param fuel reg esc (map (query_line esc) ps, b) q s") (auto simp: wbind_def)
  obtain ps1 where 2: "bs_ctx b1 = bs_ctx b" "query_value fuel reg (bs_ctx b) ps q s = Inr (ps1, s1)"
    "params1 = map (query_line esc) ps1"
    using query_param_value[OF 1(1)] by blast
  from Cons.IH[OF 1(2)[unfolded 2(3)]] show ?case using 2(1,2) by (simp add: wbind_def)
qed


text \<open>Two rules that send reserved characters, one that does not hold and one without a value.\<close>

definition sample_rules :: "query_rule list" where
  "sample_rules =
     [\<lparr> qr_name = ''a b'', qr_value = JStr ''1&2'', qr_when = None \<rparr>,
      \<lparr> qr_name = ''off'', qr_value = JStr ''x'', qr_when = Some (JObj [(''truthy'', JStr ''missing'')]) \<rparr>,
      \<lparr> qr_name = ''none'', qr_value = JObj [(''$'', JStr ''missing'')], qr_when = None \<rparr>,
      \<lparr> qr_name = ''c'', qr_value = JStr ''x=y+z'', qr_when = None \<rparr>]"

definition sample_build :: build where
  "sample_build = \<lparr> bs_ctx = \<lparr> cx_req = JObj [], cx_tables = [], cx_constraints = [], cx_flavor = [], cx_config = [],
     cx_variants = [], cx_body = [], cx_item = None \<rparr>, bs_used = [] \<rparr>"

definition bare_registry :: wire_registry where
  "bare_registry = \<lparr> rg_transforms = (\<lambda>_. None), rg_builders = (\<lambda>_. None), rg_predicates = (\<lambda>_. None), rg_effects = (\<lambda>_. None) \<rparr>"


end
