(* ===== verification/WireInherit.thy ===== *)
theory WireInherit
  imports WireBuild
begin

text \<open>
  Inheritance of wire specs (\<open>src/wire/inherit.ts\<close>): a spec extends another and says what differs. A delta is a record of
  optional parts, one for each key; values are copied, so \<open>clone\<close> is the identity.
\<close>

section \<open>Deltas\<close>

record placement =
  pm_before :: "string option"
  pm_after :: "string option"

record spec_delta =
  sd_id :: string
  sd_extends :: "string option"
  sd_provider :: "string option"
  sd_api :: "string option"
  sd_toolConstraints :: "tool_constraint list option"
  sd_flavors :: "string list option"
  sd_envelope :: "envelope option"
  sd_variants :: "variant_rule list option"
  sd_tables :: "json dict dict option"
  sd_unsupported :: "(string \<times> string) list option"
  sd_fields :: "field_rule list option"
  sd_blocks :: "block_rule list option"
  sd_multipart :: "multipart_rule list option"
  sd_operations :: "operation_rule dict option"
  sd_overlays :: "overlay_op list dict option"
  sd_removeFields :: "string list option"
  sd_removeBlocks :: "string list option"
  sd_placeBlocks :: "placement dict option"

datatype spec_error =
    SpecCycle string
  | UnknownSpec string
  | UnknownBlock string
  | NoAnchor "string option"
  | NotPresent string string "string list" "string list"

section \<open>Merging keyed rules\<close>

text \<open>The first element with a key is replaced, a new key goes to the end.\<close>

fun replace_first :: "('a \<Rightarrow> string) \<Rightarrow> 'a \<Rightarrow> 'a list \<Rightarrow> 'a list" where
  "replace_first key c [] = [c]"
| "replace_first key c (b # bs) = (if key b = key c then c # bs else b # replace_first key c bs)"

definition mergeKeyed :: "('a \<Rightarrow> string) \<Rightarrow> 'a list \<Rightarrow> 'a list option \<Rightarrow> 'a list" where
  "mergeKeyed key base child = foldl (\<lambda>out c. replace_first key c out) base (nullish child [])"

fun index_of :: "('a \<Rightarrow> bool) \<Rightarrow> 'a list \<Rightarrow> nat option" where
  "index_of P [] = None"
| "index_of P (x # xs) = (if P x then Some 0 else map_option Suc (index_of P xs))"

definition place_one :: "('a \<Rightarrow> string) \<Rightarrow> 'a list \<Rightarrow> string \<times> placement \<Rightarrow> spec_error + 'a list" where
  "place_one key out = (\<lambda>(name, wh).
     (case index_of (\<lambda>b. key b = name) out of
        None \<Rightarrow> Inl (UnknownBlock name)
      | Some i \<Rightarrow>
          (let item = out ! i; rest = take i out @ drop (Suc i) out; anchor = or_else (pm_before wh) (pm_after wh)
           in case index_of (\<lambda>b. Some (key b) = anchor) rest of
                None \<Rightarrow> Inl (NoAnchor anchor)
              | Some j \<Rightarrow>
                  (let k = (if truthy_str (pm_before wh) \<noteq> None then j else Suc j)
                   in Inr (take k rest @ item # drop k rest)))))"

fun fold_result :: "('b \<Rightarrow> 'a \<Rightarrow> spec_error + 'b) \<Rightarrow> 'b \<Rightarrow> 'a list \<Rightarrow> spec_error + 'b" where
  "fold_result f acc [] = Inr acc"
| "fold_result f acc (x # xs) = (case f acc x of Inl e \<Rightarrow> Inl e | Inr acc1 \<Rightarrow> fold_result f acc1 xs)"

definition place :: "('a \<Rightarrow> string) \<Rightarrow> 'a list \<Rightarrow> placement dict option \<Rightarrow> spec_error + 'a list" where
  "place key xs placements = fold_result (place_one key) xs (nullish placements [])"

definition requirePresent :: "string \<Rightarrow> string list \<Rightarrow> string list \<Rightarrow> string \<Rightarrow> spec_error + unit" where
  "requirePresent op names present specId =
     (let absent = filter (\<lambda>n. n \<notin> set present) names
      in if absent \<noteq> [] then Inl (NotPresent specId op absent present) else Inr ())"

text \<open>Rules that are named by a removal go away; each named rule has to be there.\<close>

definition remove_rules ::
  "string \<Rightarrow> string \<Rightarrow> ('a \<Rightarrow> string) \<Rightarrow> string list option \<Rightarrow> 'a list \<Rightarrow> spec_error + 'a list" where
  "remove_rules op specId key removed rules =
     (case nullish removed [] of
        [] \<Rightarrow> Inr rules
      | names \<Rightarrow>
          (case requirePresent op names (map key rules) specId of
             Inl e \<Rightarrow> Inl e
           | Inr _ \<Rightarrow> Inr (filter (\<lambda>r. key r \<notin> set names) rules)))"

section \<open>One delta\<close>

definition merge_tables :: "json dict dict \<Rightarrow> json dict dict option \<Rightarrow> json dict dict" where
  "merge_tables base child =
     foldl (\<lambda>ts (name, table). AList.update name (spread (nullish (map_of ts name) []) table) ts) base (nullish child [])"

definition header_key :: "header_rule \<Rightarrow> string" where
  "header_key h =
     nullish (hr_name h) (''spread:'' @ (case hr_spread h of None \<Rightarrow> ''undefined'' | Some j \<Rightarrow> stringify j))"

definition blank_envelope :: envelope where
  "blank_envelope = \<lparr> en_path = None, en_url = None, en_method = None, en_bodyKind = None, en_headers = None, en_query = None,
     en_queryEncoding = None \<rparr>"

definition merge_envelope :: "envelope option \<Rightarrow> envelope option \<Rightarrow> envelope option" where
  "merge_envelope base child =
     (case child of
        None \<Rightarrow> base
      | Some c \<Rightarrow>
          (let b = nullish base blank_envelope in
           Some \<lparr> en_path = or_else (en_path c) (en_path b), en_url = or_else (en_url c) (en_url b),
                  en_method = or_else (en_method c) (en_method b), en_bodyKind = or_else (en_bodyKind c) (en_bodyKind b),
                  en_headers = (case en_headers c of None \<Rightarrow> en_headers b
                                | Some hs \<Rightarrow> Some (mergeKeyed header_key (nullish (en_headers b) []) (Some hs))),
                  en_query = or_else (en_query c) (en_query b),
                  en_queryEncoding = or_else (en_queryEncoding c) (en_queryEncoding b) \<rparr>))"

definition applyDelta :: "wire_spec \<Rightarrow> spec_delta \<Rightarrow> spec_error + wire_spec" where
  "applyDelta base d =
     (let fields = mergeKeyed fr_to (ws_fields base) (sd_fields d); blocks = mergeKeyed br_name (ws_blocks base) (sd_blocks d) in
      case remove_rules ''removeFields'' (sd_id d) fr_to (sd_removeFields d) fields of
        Inl e \<Rightarrow> Inl e
      | Inr fields1 \<Rightarrow>
      (case remove_rules ''removeBlocks'' (sd_id d) br_name (sd_removeBlocks d) blocks of
        Inl e \<Rightarrow> Inl e
      | Inr blocks1 \<Rightarrow>
      (case place br_name blocks1 (sd_placeBlocks d) of
        Inl e \<Rightarrow> Inl e
      | Inr blocks2 \<Rightarrow>
          Inr \<lparr> ws_id = (if sd_id d \<noteq> [] then sd_id d else ws_id base), ws_provider = nullish (sd_provider d) (ws_provider base),
                ws_api = nullish (sd_api d) (ws_api base),
                ws_toolConstraints = nullish (sd_toolConstraints d) (ws_toolConstraints base),
                ws_flavors = nullish (sd_flavors d) (ws_flavors base),
                ws_envelope = merge_envelope (ws_envelope base) (sd_envelope d), ws_variants = [],
                ws_tables = merge_tables (ws_tables base) (sd_tables d),
                ws_unsupported = ws_unsupported base @ nullish (sd_unsupported d) [],
                ws_fields = fields1, ws_blocks = blocks2, ws_multipart = nullish (sd_multipart d) (ws_multipart base),
                ws_operations = nullish (sd_operations d) (ws_operations base),
                ws_overlays = spread (ws_overlays base) (nullish (sd_overlays d) []) \<rparr>)))"

text \<open>A spec that extends nothing is its own delta.\<close>

definition root_spec :: "spec_delta \<Rightarrow> wire_spec" where
  "root_spec d =
     \<lparr> ws_id = sd_id d, ws_provider = nullish (sd_provider d) [], ws_api = nullish (sd_api d) [],
       ws_toolConstraints = nullish (sd_toolConstraints d) [], ws_flavors = nullish (sd_flavors d) [], ws_envelope = sd_envelope d,
       ws_variants = nullish (sd_variants d) [], ws_tables = nullish (sd_tables d) [],
       ws_unsupported = nullish (sd_unsupported d) [], ws_fields = nullish (sd_fields d) [], ws_blocks = nullish (sd_blocks d) [],
       ws_multipart = nullish (sd_multipart d) [], ws_operations = nullish (sd_operations d) [],
       ws_overlays = nullish (sd_overlays d) [] \<rparr>"

section \<open>The chain of a spec\<close>

function resolveSpec :: "string \<Rightarrow> spec_delta dict \<Rightarrow> string list \<Rightarrow> spec_error + wire_spec" where
  "resolveSpec i byId seen =
     (if i \<in> set seen then Inl (SpecCycle i)
      else case map_of byId i of
        None \<Rightarrow> Inl (UnknownSpec i)
      | Some d \<Rightarrow>
          (case truthy_str (sd_extends d) of
             None \<Rightarrow> Inr (root_spec d)
           | Some parent \<Rightarrow>
               (case resolveSpec parent byId (i # seen) of Inl e \<Rightarrow> Inl e | Inr base \<Rightarrow> applyDelta base d)))"
  by pat_completeness auto
termination
proof (relation "measure (\<lambda>(i, byId, seen). card (fst ` set byId - set seen))", simp)
  fix i :: string and byId :: "spec_delta dict" and seen d parent
  assume "i \<notin> set seen" "map_of byId i = Some d"
  then have i: "i \<in> fst ` set byId - set seen" by (force dest: map_of_SomeD)
  have "card (fst ` set byId - set (i # seen)) < card (fst ` set byId - set seen)"
    by (rule psubset_card_mono) (use i in auto)
  then show "((parent, byId, i # seen), i, byId, seen) \<in> measure (\<lambda>(i, byId, seen). card (fst ` set byId - set seen))" by simp
qed

declare resolveSpec.simps [simp del]

record pin_table =
  pt_default :: string
  pt_models :: "string dict"

definition specForModel :: "string \<Rightarrow> pin_table \<Rightarrow> string" where
  "specForModel model pins = nullish (map_of (pt_models pins) model) (pt_default pins)"

section \<open>Resolution is the fold of the chain\<close>

text \<open>The deltas of a spec, from its root down.\<close>

inductive lineage :: "spec_delta dict \<Rightarrow> string \<Rightarrow> spec_delta list \<Rightarrow> bool" for byId :: "spec_delta dict" where
  root: "map_of byId i = Some d \<Longrightarrow> truthy_str (sd_extends d) = None \<Longrightarrow> lineage byId i [d]"
| extended: "map_of byId i = Some d \<Longrightarrow> truthy_str (sd_extends d) = Some parent \<Longrightarrow> lineage byId parent ds
    \<Longrightarrow> lineage byId i (ds @ [d])"

inductive_cases lineageE: "lineage byId i ds"

definition fold_chain :: "spec_delta list \<Rightarrow> spec_error + wire_spec" where
  "fold_chain ds = fold_result applyDelta (root_spec (hd ds)) (tl ds)"

lemma lineage_unique: "lineage byId i ds \<Longrightarrow> lineage byId i es \<Longrightarrow> ds = es"
  by (induction arbitrary: es rule: lineage.induct) (erule lineageE; simp)+

lemma lineage_ne: "lineage byId i ds \<Longrightarrow> ds \<noteq> []"
  by (induction rule: lineage.induct) auto

lemma fold_result_snoc: "fold_result f acc (xs @ [x]) = (case fold_result f acc xs of Inl e \<Rightarrow> Inl e | Inr b \<Rightarrow> f b x)"
  by (induction f acc xs rule: fold_result.induct) (auto split: sum.split)

lemma fold_chain_snoc: "ds \<noteq> [] \<Longrightarrow> fold_chain (ds @ [d]) = (case fold_chain ds of Inl e \<Rightarrow> Inl e | Inr b \<Rightarrow> applyDelta b d)"
  by (cases ds) (simp_all add: fold_chain_def fold_result_snoc)

text \<open>The ids of a chain; none of them is the id of a shorter one.\<close>

inductive chain_id :: "spec_delta dict \<Rightarrow> string \<Rightarrow> string \<Rightarrow> bool" for byId :: "spec_delta dict" where
  here: "chain_id byId i i"
| up: "map_of byId i = Some d \<Longrightarrow> truthy_str (sd_extends d) = Some parent \<Longrightarrow> chain_id byId parent j \<Longrightarrow> chain_id byId i j"

lemma below_shorter: "chain_id byId i j \<Longrightarrow> lineage byId i ds \<Longrightarrow> \<exists>es. lineage byId j es \<and> length es \<le> length ds"
proof (induction arbitrary: ds rule: chain_id.induct)
  case (up i d parent j)
  from up.prems obtain es where "lineage byId parent es" "ds = es @ [d]"
    by (rule lineageE) (use up.hyps(1,2) in auto)
  then show ?case using up.IH[of es] by fastforce
qed blast

lemma no_return:
  assumes "lineage byId i (ds @ [d])" "lineage byId parent ds" "chain_id byId parent j" shows "j \<noteq> i"
proof
  assume "j = i"
  then obtain es where es: "lineage byId i es" "length es \<le> length ds" using below_shorter[OF assms(3,2)] by blast
  then show False using lineage_unique[OF assms(1) es(1)] by auto
qed

lemma resolve_chain:
  "lineage byId i ds \<Longrightarrow> \<forall>j. chain_id byId i j \<longrightarrow> j \<notin> set seen \<Longrightarrow> resolveSpec i byId seen = fold_chain ds"
proof (induction arbitrary: seen rule: lineage.induct)
  case (root i d)
  then show ?case by (subst resolveSpec.simps) (auto simp: fold_chain_def intro: chain_id.here)
next
  case (extended i d parent ds)
  have l: "lineage byId i (ds @ [d])" by (rule lineage.extended) fact+
  have "\<forall>j. chain_id byId parent j \<longrightarrow> j \<notin> set (i # seen)"
    using no_return[OF l extended.hyps(3)] extended.prems chain_id.up[OF extended.hyps(1,2)] by auto
  from extended.IH[OF this] show ?case
    using extended.hyps(1,2) extended.prems lineage_ne[OF extended.hyps(3)]
    by (subst resolveSpec.simps) (auto simp: fold_chain_snoc intro: chain_id.here)
qed

lemma resolved_has_lineage: "resolveSpec i byId seen = Inr s \<Longrightarrow> \<exists>ds. lineage byId i ds"
proof (induction i byId seen arbitrary: s rule: resolveSpec.induct)
  case (1 i byId seen)
  obtain d where d: "i \<notin> set seen" "map_of byId i = Some d"
    using "1.prems" by (subst (asm) resolveSpec.simps) (auto split: if_splits option.splits)
  show ?case
  proof (cases "truthy_str (sd_extends d)")
    case None
    then show ?thesis using d(2) lineage.root by blast
  next
    case (Some parent)
    obtain base where "resolveSpec parent byId (i # seen) = Inr base"
      using "1.prems" d Some by (subst (asm) resolveSpec.simps) (auto split: sum.splits)
    then show ?thesis using "1.IH"[OF d Some] lineage.extended[OF d(2) Some] by blast
  qed
qed

text \<open>C21: Resolving a spec always ends, and gives exactly the fold of its chain: the root, then each delta over what came
  before. It fails only when a delta of the chain does not apply, or when there is no chain, because the ids run in a
  circle or lead to one that is not defined.\<close>
theorem resolved_spec_is_fold_of_chain:
  "resolveSpec i byId [] = Inr s \<longleftrightarrow> (\<exists>ds. lineage byId i ds \<and> fold_chain ds = Inr s)"
  using resolve_chain[of byId i _ "[]"] resolved_has_lineage[of i byId "[]" s] by fastforce

end
