(* ===== verification/WireDeltas.thy ===== *)
theory WireDeltas
  imports WireInherit
begin

text \<open>
  A delta over a spec, as a map from names to rules: what it names is replaced or removed, all else is inherited, wherever
  the rules are placed.
\<close>

definition rule_map :: "('a \<Rightarrow> string) \<Rightarrow> 'a list \<Rightarrow> string \<Rightarrow> 'a option" where
  "rule_map key rules = map_of (map (\<lambda>r. (key r, r)) rules)"

lemma rule_map_simps [simp]:
  "rule_map key [] k = None" "rule_map key (r # rs) k = (if k = key r then Some r else rule_map key rs k)"
  by (simp_all add: rule_map_def)

lemma rule_map_None: "rule_map key rules k = None \<longleftrightarrow> k \<notin> key ` set rules"
  by (simp add: rule_map_def map_of_eq_None_iff image_image)

lemma rule_map_dom: "dom (rule_map key rules) = key ` set rules"
  by (simp add: rule_map_def dom_map_of_conv_image_fst image_image)

section \<open>Merging\<close>

lemma replace_first_map: "rule_map key (replace_first key c rules) k = (if k = key c then Some c else rule_map key rules k)"
  by (induction rules) auto

lemma replace_first_keys: "key ` set (replace_first key c rules) = insert (key c) (key ` set rules)"
  by (induction rules) auto

lemma replace_first_distinct: "distinct (map key rules) \<Longrightarrow> distinct (map key (replace_first key c rules))"
proof (induction rules)
  case (Cons r rs)
  then show ?case using replace_first_keys[of key c rs] by auto
qed simp

lemma merge_map:
  "distinct (map key child) \<Longrightarrow>
   rule_map key (foldl (\<lambda>out c. replace_first key c out) base child) k = (rule_map key base ++ rule_map key child) k"
proof (induction child arbitrary: base)
  case (Cons c child)
  have "key c \<notin> key ` set child" using Cons.prems by simp
  then show ?case using Cons by (auto simp: replace_first_map map_add_def rule_map_None[symmetric] split: option.split)
qed (simp add: map_add_def)

lemma merge_distinct: "distinct (map key base) \<Longrightarrow> distinct (map key (foldl (\<lambda>out c. replace_first key c out) base child))"
  by (induction child arbitrary: base) (simp_all add: replace_first_distinct)

lemma mergeKeyed_facts:
  assumes "distinct (map key base)" "distinct (map key (nullish child []))"
  shows "rule_map key (mergeKeyed key base child) = rule_map key base ++ rule_map key (nullish child [])"
    "distinct (map key (mergeKeyed key base child))"
  using merge_map[OF assms(2), of base] merge_distinct[OF assms(1)] by (auto simp: mergeKeyed_def)

section \<open>Removing\<close>

lemma filter_map: "rule_map key (filter (\<lambda>r. key r \<notin> N) rules) k = (if k \<in> N then None else rule_map key rules k)"
  by (induction rules) auto

lemma remove_facts:
  assumes "remove_rules op sid key removed rules = Inr left" "distinct (map key rules)"
  shows "rule_map key left = rule_map key rules |` (- set (nullish removed []))" "distinct (map key left)"
    "set (nullish removed []) \<subseteq> key ` set rules"
proof -
  have l: "left = filter (\<lambda>r. key r \<notin> set (nullish removed [])) rules \<and> set (nullish removed []) \<subseteq> key ` set rules"
    using assms(1) by (cases "nullish removed []") (auto simp: remove_rules_def requirePresent_def Let_def filter_empty_conv split: if_splits sum.splits)
  then show "rule_map key left = rule_map key rules |` (- set (nullish removed []))"
    by (auto simp: filter_map restrict_map_def fun_eq_iff)
  show "distinct (map key left)" using l assms(2) by (simp add: distinct_map_filter)
  show "set (nullish removed []) \<subseteq> key ` set rules" using l by simp
qed

section \<open>Placing\<close>

lemma index_of_bound: "index_of P xs = Some i \<Longrightarrow> i < length xs \<and> P (xs ! i)"
  by (induction xs arbitrary: i) (auto split: if_splits)

lemma place_one_mset:
  assumes "place_one key out p = Inr res" shows "mset res = mset out"
proof -
  obtain name wh where p: "p = (name, wh)" by (rule prod.exhaust)
  obtain i where i: "index_of (\<lambda>b. key b = name) out = Some i" using assms p by (auto simp: place_one_def split: option.splits)
  define rest where "rest = take i out @ drop (Suc i) out"
  obtain k where k: "res = take k rest @ out ! i # drop k rest"
    using assms p i by (auto simp: place_one_def Let_def rest_def split: option.splits)
  have "mset res = add_mset (out ! i) (mset (take k rest) + mset (drop k rest))" unfolding k by simp
  also have "\<dots> = add_mset (out ! i) (mset rest)" unfolding mset_append[symmetric] append_take_drop_id ..
  also have "\<dots> = mset (take i out @ out ! i # drop (Suc i) out)" by (simp add: rest_def)
  also have "\<dots> = mset out" using index_of_bound[OF i] by (simp add: id_take_nth_drop[symmetric])
  finally show ?thesis .
qed

lemma place_mset: "place key rules ps = Inr res \<Longrightarrow> mset res = mset rules"
proof -
  have "fold_result (place_one key) rules xs = Inr res \<Longrightarrow> mset res = mset rules" for xs
    by (induction "place_one key" rules xs rule: fold_result.induct) (auto dest: place_one_mset split: sum.splits)
  then show "place key rules ps = Inr res \<Longrightarrow> mset res = mset rules" by (simp add: place_def)
qed

lemma permuted_map:
  assumes "mset xs = mset ys" "distinct (map key xs)"
  shows "rule_map key ys = rule_map key xs" "distinct (map key ys)"
proof -
  have "mset (map key xs) = mset (map key ys)" using assms(1) by simp
  then show d: "distinct (map key ys)" using assms(2) mset_eq_imp_distinct_iff by blast
  have "set (map (\<lambda>r. (key r, r)) ys) = set (map (\<lambda>r. (key r, r)) xs)" using mset_eq_setD[OF assms(1)] by simp
  then show "rule_map key ys = rule_map key xs"
    unfolding rule_map_def using d assms(2) by (subst map_of_inject_set) (simp_all add: comp_def)
qed

section \<open>The refinement\<close>

text \<open>C22: A delta overrides and inherits, and does nothing else: seen as maps from names to rules, the fields and the blocks of
  the new spec are those of the base overridden by those of the delta, without the removed ones, each of which (field or
  block) was there; names stay unique, and placing a block only changes the order. (The names within the base and within the
  delta are assumed unique, as in the shipped specs.)\<close>
theorem delta_is_override:
  assumes "applyDelta base d = Inr s" "distinct (map fr_to (ws_fields base))" "distinct (map br_name (ws_blocks base))"
    "distinct (map fr_to (nullish (sd_fields d) []))" "distinct (map br_name (nullish (sd_blocks d) []))"
  shows "rule_map fr_to (ws_fields s)
      = (rule_map fr_to (ws_fields base) ++ rule_map fr_to (nullish (sd_fields d) [])) |` (- set (nullish (sd_removeFields d) []))
    \<and> rule_map br_name (ws_blocks s)
      = (rule_map br_name (ws_blocks base) ++ rule_map br_name (nullish (sd_blocks d) [])) |` (- set (nullish (sd_removeBlocks d) []))
    \<and> distinct (map fr_to (ws_fields s)) \<and> distinct (map br_name (ws_blocks s))
    \<and> set (nullish (sd_removeFields d) []) \<subseteq> fr_to ` (set (ws_fields base) \<union> set (nullish (sd_fields d) []))
    \<and> set (nullish (sd_removeBlocks d) []) \<subseteq> br_name ` (set (ws_blocks base) \<union> set (nullish (sd_blocks d) []))"
proof -
  define fs where "fs = mergeKeyed fr_to (ws_fields base) (sd_fields d)"
  define bs where "bs = mergeKeyed br_name (ws_blocks base) (sd_blocks d)"
  obtain fs1 bs1 bs2 where r: "remove_rules ''removeFields'' (sd_id d) fr_to (sd_removeFields d) fs = Inr fs1"
      "remove_rules ''removeBlocks'' (sd_id d) br_name (sd_removeBlocks d) bs = Inr bs1" "place br_name bs1 (sd_placeBlocks d) = Inr bs2"
      "ws_fields s = fs1" "ws_blocks s = bs2"
    using assms(1) unfolding applyDelta_def Let_def fs_def[symmetric] bs_def[symmetric] by (auto split: sum.splits)
  note f = mergeKeyed_facts[OF assms(2,4), folded fs_def] and b = mergeKeyed_facts[OF assms(3,5), folded bs_def]
  note f1 = remove_facts[OF r(1) f(2)] and b1 = remove_facts[OF r(2) b(2)]
  note b2 = permuted_map[OF place_mset[OF r(3), symmetric] b1(2)]
  have "br_name ` set bs = dom (rule_map br_name bs)" by (simp only: rule_map_dom)
  also have "\<dots> = br_name ` (set (ws_blocks base) \<union> set (nullish (sd_blocks d) []))"
    unfolding b(1) dom_map_add rule_map_dom by auto
  finally have bn: "br_name ` set bs = br_name ` (set (ws_blocks base) \<union> set (nullish (sd_blocks d) []))" .
  have "fr_to ` set fs = dom (rule_map fr_to fs)" by (simp only: rule_map_dom)
  also have "\<dots> = fr_to ` (set (ws_fields base) \<union> set (nullish (sd_fields d) []))"
    unfolding f(1) dom_map_add rule_map_dom by auto
  finally have fn: "fr_to ` set fs = fr_to ` (set (ws_fields base) \<union> set (nullish (sd_fields d) []))" .
  show ?thesis using f f1 b b1 b2 r(4,5) unfolding bn[symmetric] fn[symmetric] by simp
qed

definition small_base :: wire_spec where
  "small_base = root_spec \<lparr> sd_id = ''base'', sd_extends = None, sd_provider = Some ''p'', sd_api = Some ''a'', sd_toolConstraints = None,
     sd_flavors = None, sd_envelope = None, sd_variants = None, sd_tables = None, sd_unsupported = None, sd_fields = None,
     sd_blocks = Some [\<lparr> br_name = ''old'', br_when = None, br_to = Some ''x'', br_merge = False, br_template = Some JNull, br_call = None, br_effects = [] \<rparr>],
     sd_multipart = None, sd_operations = None, sd_overlays = None, sd_removeFields = None, sd_removeBlocks = None, sd_placeBlocks = None \<rparr>"

definition small_delta :: spec_delta where
  "small_delta = \<lparr> sd_id = ''child'', sd_extends = Some ''base'', sd_provider = None, sd_api = None, sd_toolConstraints = None,
     sd_flavors = None, sd_envelope = None, sd_variants = None, sd_tables = None, sd_unsupported = None, sd_fields = None,
     sd_blocks = Some [\<lparr> br_name = ''new'', br_when = None, br_to = Some ''x'', br_merge = False, br_template = Some JNull, br_call = None, br_effects = [] \<rparr>],
     sd_multipart = None, sd_operations = None, sd_overlays = None, sd_removeFields = None, sd_removeBlocks = Some [''old''], sd_placeBlocks = None \<rparr>"

lemma delta_is_override_witness:
  "\<exists>s. applyDelta small_base small_delta = Inr s \<and> rule_map br_name (ws_blocks s) ''old'' = None \<and> rule_map br_name (ws_blocks s) ''new'' \<noteq> None"
proof -
  have "\<exists>s. applyDelta small_base small_delta = Inr s"
    by (simp add: small_base_def small_delta_def root_spec_def applyDelta_def mergeKeyed_def remove_rules_def requirePresent_def place_def
        nullish_def Let_def)
  then obtain s where s: "applyDelta small_base small_delta = Inr s" by blast
  have "rule_map br_name (ws_blocks s)
      = (rule_map br_name (ws_blocks small_base) ++ rule_map br_name (nullish (sd_blocks small_delta) [])) |` (- set (nullish (sd_removeBlocks small_delta) []))"
    using delta_is_override[OF s] by (simp add: small_base_def small_delta_def root_spec_def nullish_def)
  then show ?thesis using s by (simp add: small_base_def small_delta_def root_spec_def nullish_def rule_map_def)
qed

end
