(* ===== verification/WireResponse.thy ===== *)
theory WireResponse
  imports WireEval JsonParse
begin

text \<open>
  Responses and streams from wire specs (\<open>src/wire/response-interpreter.ts\<close>, \<open>src/wire/stream-interpreter.ts\<close>): accumulators,
  the rules that emit into them, the walk over the arrays of a body, and the parser of a stream, whose accumulators live
  as long as it. A stream that threw is not continued. The object paths resolve against is \<open>{ raw, out }\<close>, so an effect reads and writes the accumulators in
  \<open>cx_req\<close>. Values are copied where the code shares references.
\<close>

section \<open>Specs\<close>

record accumulator =
  ad_array :: bool
  ad_omitEmpty :: bool
  ad_default :: "json option"
  ad_internal :: bool

record emit_rule =
  er_emit :: "string list option"
  er_mode :: string
  er_when :: "json option"
  er_as :: "json option"
  er_effect :: "string option"

record collect_rule =
  cr_from :: string
  cr_match :: "string option"
  cr_cases :: "emit_rule list dict"
  cr_default :: "emit_rule list option"

record response_field =
  rf_to :: string
  rf_from :: "string option"
  rf_value :: "json option"
  rf_when :: "json option"
  rf_default :: "json option"

record response_spec =
  rs_id :: string
  rs_extends :: "string option"
  rs_accumulators :: "accumulator dict option"
  rs_fields :: "response_field list option"
  rs_seed :: "emit_rule list option"
  rs_collect :: "collect_rule list option"
  rs_finalize :: "emit_rule list option"
  rs_derive :: "json dict option"
  rs_tables :: "json dict dict option"

section \<open>Inheritance\<close>

datatype chain_error = ResponseCycle string | UnknownResponse string

fun replace_to :: "response_field \<Rightarrow> response_field list \<Rightarrow> response_field list" where
  "replace_to f [] = [f]"
| "replace_to f (x # xs) = (if rf_to x = rf_to f then f # xs else x # replace_to f xs)"

definition extend_response :: "response_spec \<Rightarrow> response_spec \<Rightarrow> response_spec" where
  "extend_response base spec =
     \<lparr> rs_id = rs_id spec, rs_extends = rs_extends spec,
       rs_accumulators = Some (spread (nullish (rs_accumulators base) []) (nullish (rs_accumulators spec) [])),
       rs_fields = Some (foldl (\<lambda>fs f. replace_to f fs) (nullish (rs_fields base) []) (nullish (rs_fields spec) [])),
       rs_seed = Some (nullish (rs_seed base) [] @ nullish (rs_seed spec) []),
       rs_collect = Some (nullish (rs_collect base) [] @ nullish (rs_collect spec) []),
       rs_finalize = or_else (rs_finalize spec) (rs_finalize base),
       rs_derive = Some (spread (nullish (rs_derive base) []) (nullish (rs_derive spec) [])),
       rs_tables = Some (spread (nullish (rs_tables base) []) (nullish (rs_tables spec) [])) \<rparr>"

function resolveResponseSpec :: "string \<Rightarrow> response_spec dict \<Rightarrow> string list \<Rightarrow> chain_error + response_spec" where
  "resolveResponseSpec i byId seen =
     (if i \<in> set seen then Inl (ResponseCycle i)
      else case map_of byId i of
        None \<Rightarrow> Inl (UnknownResponse i)
      | Some spec \<Rightarrow>
          (case truthy_str (rs_extends spec) of
             None \<Rightarrow> Inr spec
           | Some parent \<Rightarrow>
               (case resolveResponseSpec parent byId (i # seen) of Inl e \<Rightarrow> Inl e | Inr base \<Rightarrow> Inr (extend_response base spec))))"
  by pat_completeness auto
termination
proof (relation "measure (\<lambda>(i, byId, seen). card (fst ` set byId - set seen))", simp)
  fix i :: string and byId :: "response_spec dict" and seen spec parent
  assume "i \<notin> set seen" "map_of byId i = Some spec"
  then have i: "i \<in> fst ` set byId - set seen" by (force dest: map_of_SomeD)
  have "card (fst ` set byId - set (i # seen)) < card (fst ` set byId - set seen)"
    by (rule psubset_card_mono) (use i in auto)
  then show "((parent, byId, i # seen), i, byId, seen) \<in> measure (\<lambda>(i, byId, seen). card (fst ` set byId - set seen))" by simp
qed

declare resolveResponseSpec.simps [simp del]

section \<open>Accumulators\<close>

definition initAccumulators :: "accumulator dict option \<Rightarrow> json dict" where
  "initAccumulators decls =
     foldl (\<lambda>out (name, d). AList.update name (if ad_array d then JArr [] else nullish (ad_default d) JNull) out) []
       (nullish decls [])"

definition emit_one :: "string \<Rightarrow> string \<Rightarrow> json \<Rightarrow> json dict \<Rightarrow> string \<Rightarrow> wire_error + json dict" where
  "emit_one specId mode value out name =
     (case map_of out name of
        None \<Rightarrow> Inl (UndeclaredAccumulator specId name)
      | Some target \<Rightarrow>
          if mode = ''scalar'' then Inr (AList.update name value out)
          else (case target of
             JArr xs \<Rightarrow>
               if mode = ''concat'' then
                 (case value of JArr ys \<Rightarrow> Inr (AList.update name (JArr (xs @ ys)) out) | _ \<Rightarrow> Inl (ConcatNeedsArray specId name))
               else Inr (AList.update name (JArr (xs @ [value])) out)
           | _ \<Rightarrow> Inl (PushIntoScalar specId name)))"

fun emitInto :: "string \<Rightarrow> string \<Rightarrow> json \<Rightarrow> json dict \<Rightarrow> string list \<Rightarrow> wire_error + json dict" where
  "emitInto specId mode value out [] = Inr out"
| "emitInto specId mode value out (name # names) =
     (case emit_one specId mode value out name of Inl e \<Rightarrow> Inl e | Inr out1 \<Rightarrow> emitInto specId mode value out1 names)"

section \<open>Emitting\<close>

text \<open>The object of the paths, around the accumulators.\<close>

definition with_out :: "json dict \<Rightarrow> json dict \<Rightarrow> json" where
  "with_out rest out = JObj (AList.update ''out'' (JObj out) rest)"

definition out_of :: "wire_ctx \<Rightarrow> json dict" where
  "out_of ctx = (case member_of (cx_req ctx) ''out'' of Some (JObj out) \<Rightarrow> out | _ \<Rightarrow> [])"

definition spec_ctx :: "json dict dict \<Rightarrow> json dict \<Rightarrow> json dict \<Rightarrow> json dict \<Rightarrow> wire_ctx" where
  "spec_ctx tables config rest out =
     \<lparr> cx_req = with_out rest out, cx_tables = tables, cx_constraints = [], cx_flavor = [], cx_config = config,
       cx_variants = [], cx_body = [], cx_item = None \<rparr>"

text \<open>\<open>apply\<close>: the context is given for the accumulators as they are.\<close>

definition apply_rule ::
  "nat \<Rightarrow> wire_registry \<Rightarrow> string \<Rightarrow> (json dict \<Rightarrow> wire_ctx) \<Rightarrow> json dict \<Rightarrow> emit_rule \<Rightarrow> json dict wire" where
  "apply_rule fuel reg specId ctx_of out r =
     (let ctx = ctx_of out in
      wbind (evalCond fuel reg ctx (er_when r)) (\<lambda>holds.
        if \<not> holds then wret out
        else case truthy_str (er_effect r) of
          Some name \<Rightarrow>
            (case rg_effects reg name of
               None \<Rightarrow> wfail (UnknownEffect name)
             | Some fn \<Rightarrow> wbind (wlift (fn ctx)) (\<lambda>ctx1. wret (out_of ctx1)))
        | None \<Rightarrow>
            wbind (case er_as r of None \<Rightarrow> wret (Some JNull) | Some t \<Rightarrow> evalTemplate fuel reg ctx t) (\<lambda>v. case v of
              None \<Rightarrow> wret out
            | Some value \<Rightarrow> wlift (emitInto specId (er_mode r) value out (nullish (er_emit r) [''undefined''])))))"

definition apply_rules ::
  "nat \<Rightarrow> wire_registry \<Rightarrow> string \<Rightarrow> (json dict \<Rightarrow> wire_ctx) \<Rightarrow> json dict \<Rightarrow> emit_rule list \<Rightarrow> json dict wire" where
  "apply_rules fuel reg specId ctx_of = wfold (apply_rule fuel reg specId ctx_of)"

definition pick_case :: "string option \<Rightarrow> emit_rule list dict \<Rightarrow> emit_rule list option \<Rightarrow> emit_rule list" where
  "pick_case key cases dflt = nullish (or_else (Option.bind key (map_of cases)) dflt) []"

section \<open>Responses\<close>

definition response_value ::
  "nat \<Rightarrow> wire_registry \<Rightarrow> wire_ctx \<Rightarrow> json dict \<Rightarrow> response_field \<Rightarrow> json dict wire" where
  "response_value fuel reg ctx result f =
     wbind (evalCond fuel reg ctx (rf_when f)) (\<lambda>holds.
       if \<not> holds then wret result
       else wbind (case rf_from f of
                     Some path \<Rightarrow> wret (getPath (Some (cx_req ctx)) path)
                   | None \<Rightarrow> (case rf_value f of None \<Rightarrow> wret None | Some t \<Rightarrow> evalTemplate fuel reg ctx t))
              (\<lambda>v. wret (case or_else v (rf_default f) of None \<Rightarrow> result | Some j \<Rightarrow> AList.update (rf_to f) j result)))"

definition collect_block ::
  "nat \<Rightarrow> wire_registry \<Rightarrow> string \<Rightarrow> (json dict \<Rightarrow> wire_ctx) \<Rightarrow> collect_rule \<Rightarrow> json dict \<Rightarrow> json \<times> nat \<times> bool \<Rightarrow> json dict wire" where
  "collect_block fuel reg specId ctx_of rule out = (\<lambda>(block, i, l).
     (let key = (case cr_match rule of
                   Some path \<Rightarrow> if is_obj block then Some (js_String (getPath (Some block) path)) else None | None \<Rightarrow> None)
      in apply_rules fuel reg specId (\<lambda>o'. at_item (ctx_of o') block i l) out (pick_case key (cr_cases rule) (cr_default rule))))"

definition collect_array ::
  "nat \<Rightarrow> wire_registry \<Rightarrow> string \<Rightarrow> (json dict \<Rightarrow> wire_ctx) \<Rightarrow> json dict \<Rightarrow> collect_rule \<Rightarrow> json dict wire" where
  "collect_array fuel reg specId ctx_of out rule =
     (case getPath (Some (cx_req (ctx_of out))) (cr_from rule) of
        Some (JArr xs) \<Rightarrow> wfold (collect_block fuel reg specId ctx_of rule) out (with_places xs)
      | _ \<Rightarrow> wret out)"

definition assemble :: "accumulator dict \<Rightarrow> json dict \<Rightarrow> json dict \<Rightarrow> json dict" where
  "assemble decls out result =
     foldl (\<lambda>res (name, d).
        if ad_internal d \<or> (ad_array d \<and> ad_omitEmpty d \<and> map_of out name = Some (JArr [])) then res
        else (case map_of out name of None \<Rightarrow> res | Some v \<Rightarrow> AList.update name v res)) result decls"

definition buildResponse ::
  "nat \<Rightarrow> response_spec \<Rightarrow> json \<Rightarrow> wire_registry \<Rightarrow> json dict \<Rightarrow> json dict \<Rightarrow> wire_error + json dict" where
  "buildResponse fuel spec raw reg extra config =
     (let out0 = initAccumulators (rs_accumulators spec);
          ctx_of = spec_ctx (nullish (rs_tables spec) []) config [(''raw'', raw)]; sid = rs_id spec
      in map_sum id fst
       (wbind (wfold (response_value fuel reg (ctx_of out0)) extra (nullish (rs_fields spec) [])) (\<lambda>result.
        wbind (apply_rules fuel reg sid ctx_of out0 (nullish (rs_seed spec) [])) (\<lambda>out1.
        wbind (wfold (collect_array fuel reg sid ctx_of) out1 (nullish (rs_collect spec) [])) (\<lambda>out2.
        wbind (apply_rules fuel reg sid ctx_of out2 (nullish (rs_finalize spec) [])) (\<lambda>out3.
        wbind (wfold (\<lambda>d (name, tpl). wbind (evalTemplate fuel reg (ctx_of out3) tpl)
                 (\<lambda>v. wret (case v of None \<Rightarrow> d | Some j \<Rightarrow> AList.update name j d))) [] (nullish (rs_derive spec) [])) (\<lambda>derived.
          wret (spread (assemble (nullish (rs_accumulators spec) []) out3 result) derived)))))) None))"

section \<open>Streams\<close>

definition EVENTS :: string where "EVENTS = ''events''"

record event_rule =
  ev_when :: "json option"
  ev_stop :: bool
  ev_each :: "string option"
  ev_match :: "string list option"
  ev_cases :: "emit_rule list dict"
  ev_default :: "emit_rule list option"

record stream_spec =
  ss_id :: string
  ss_state :: "accumulator dict option"
  ss_on :: "event_rule list"
  ss_tables :: "json dict dict option"

definition payloadOf :: "string \<Rightarrow> json" where
  "payloadOf data = (case JSON_parse data of Some (JObj kvs) \<Rightarrow> JObj kvs | _ \<Rightarrow> JObj [])"

definition createStreamBuilder :: "stream_spec \<Rightarrow> wire_error + json dict" where
  "createStreamBuilder spec =
     (if map_of (nullish (ss_state spec) []) EVENTS \<noteq> None then Inl (ReservedEvents (ss_id spec))
      else Inr (AList.update EVENTS (JArr []) (initAccumulators (ss_state spec))))"

text \<open>The first path of \<open>match\<close> that leads somewhere names the case.\<close>

definition case_key :: "string list option \<Rightarrow> json option \<Rightarrow> string option" where
  "case_key paths subject =
     (case paths of
        None \<Rightarrow> None
      | Some ps \<Rightarrow>
          Some (case List.find (\<lambda>p. getPath subject p \<noteq> None) ps of
                  None \<Rightarrow> ''undefined'' | Some p \<Rightarrow> js_String (getPath subject p)))"

text \<open>The scopes a rule is applied in: the payload itself, or each element of an array.\<close>

definition rule_scopes :: "event_rule \<Rightarrow> wire_ctx \<Rightarrow> json \<Rightarrow> (json \<times> nat \<times> bool) list" where
  "rule_scopes rule ctx raw =
     (case ev_each rule of
        None \<Rightarrow> [(raw, 0, True)]
      | Some path \<Rightarrow> (case getPath (Some (cx_req ctx)) path of Some (JArr xs) \<Rightarrow> with_places xs | _ \<Rightarrow> []))"

definition apply_scope ::
  "nat \<Rightarrow> wire_registry \<Rightarrow> string \<Rightarrow> (json dict \<Rightarrow> wire_ctx) \<Rightarrow> event_rule \<Rightarrow> json dict \<Rightarrow> json \<times> nat \<times> bool \<Rightarrow> json dict wire" where
  "apply_scope fuel reg specId ctx_of rule out = (\<lambda>(x, i, l).
     apply_rules fuel reg specId (\<lambda>o'. at_item (ctx_of o') x i l) out
       (pick_case (case_key (ev_match rule) (Some x)) (ev_cases rule) (ev_default rule)))"

fun apply_event_rules ::
  "nat \<Rightarrow> wire_registry \<Rightarrow> string \<Rightarrow> (json dict \<Rightarrow> wire_ctx) \<Rightarrow> json \<Rightarrow> event_rule list \<Rightarrow> json dict \<Rightarrow> json dict wire" where
  "apply_event_rules fuel reg specId ctx_of raw [] out = wret out"
| "apply_event_rules fuel reg specId ctx_of raw (rule # rules) out =
     wbind (evalCond fuel reg (ctx_of out) (ev_when rule)) (\<lambda>holds.
       if \<not> holds then apply_event_rules fuel reg specId ctx_of raw rules out
       else wbind (wfold (apply_scope fuel reg specId ctx_of rule) out (rule_scopes rule (ctx_of out) raw)) (\<lambda>out1.
              if ev_stop rule then wret out1 else apply_event_rules fuel reg specId ctx_of raw rules out1))"

text \<open>One event of the transport: the events it gives and the accumulators it leaves.\<close>

definition stream_event_of ::
  "nat \<Rightarrow> stream_spec \<Rightarrow> wire_registry \<Rightarrow> json dict \<Rightarrow> string option \<Rightarrow> string \<Rightarrow> json dict \<Rightarrow> wire_error + (json list \<times> json dict)" where
  "stream_event_of fuel spec reg config name data out =
     (let raw = payloadOf data;
          event = JObj ((case name of None \<Rightarrow> [] | Some n \<Rightarrow> [(''name'', JStr n)]) @ [(''data'', JStr data)]);
          ctx_of = (\<lambda>o'. at_item (spec_ctx (nullish (ss_tables spec) []) config [(''raw'', raw), (''event'', event)] o') raw 0 True)
      in map_sum id (\<lambda>(o', _). (case map_of o' EVENTS of Some (JArr evs) \<Rightarrow> evs | _ \<Rightarrow> [], o'))
           (apply_event_rules fuel reg (ss_id spec) ctx_of raw (ss_on spec) (AList.update EVENTS (JArr []) out) None))"

fun stream_events ::
  "nat \<Rightarrow> stream_spec \<Rightarrow> wire_registry \<Rightarrow> json dict \<Rightarrow> (string option \<times> string) list \<Rightarrow> json dict \<Rightarrow> wire_error + (json list \<times> json dict)" where
  "stream_events fuel spec reg config [] out = Inr ([], out)"
| "stream_events fuel spec reg config ((name, data) # inputs) out =
     (case stream_event_of fuel spec reg config name data out of
        Inl e \<Rightarrow> Inl e
      | Inr (evs, out1) \<Rightarrow>
          (case stream_events fuel spec reg config inputs out1 of Inl e \<Rightarrow> Inl e | Inr (later, out2) \<Rightarrow> Inr (evs @ later, out2)))"

end
