(* ===== verification/WireTyping.thy ===== *)
theory WireTyping
  imports WireResponse
begin

text \<open>
  Accumulators keep the kind they are declared with: a stream spec whose rules emit only into accumulators it declares, in
  the mode of their kind, or run effects of the registry that keep the kinds, never fails to place a value, whatever the
  provider sends.
\<close>

section \<open>Errors of placement\<close>

definition misplaced :: "wire_error \<Rightarrow> bool" where
  "misplaced e \<longleftrightarrow> (\<exists>s n. e = UndeclaredAccumulator s n \<or> e = PushIntoScalar s n)"

definition tame :: "'a wire \<Rightarrow> bool" where
  "tame f \<longleftrightarrow> (\<forall>s e. f s = Inl e \<longrightarrow> \<not> misplaced e)"

named_theorems tamed

lemma tame_basic [tamed]: "tame (wret x)" "tame (add_note w)"
  by (simp_all add: tame_def wret_def add_note_def)

lemma tame_fail [tamed]: "\<not> misplaced e \<Longrightarrow> tame (wfail e)"
  by (simp add: tame_def wfail_def)

lemma tame_lift [tamed]: "(\<And>e. r = Inl e \<Longrightarrow> \<not> misplaced e) \<Longrightarrow> tame (wlift r)"
  by (auto simp: tame_def wlift_def split: sum.splits)

lemma tame_bind [tamed]: "tame m \<Longrightarrow> (\<And>x. tame (f x)) \<Longrightarrow> tame (wbind m f)"
  unfolding tame_def wbind_def by (auto split: sum.splits)

lemma tame_lists [tamed]:
  "(\<And>x. tame (b x)) \<Longrightarrow> tame (wsome b xs)" "(\<And>x. tame (b x)) \<Longrightarrow> tame (wevery b xs)" "(\<And>x. tame (b x)) \<Longrightarrow> tame (wfind b xs)"
  "(\<And>x. tame (g x)) \<Longrightarrow> tame (wmap g xs)"
  by (induction xs) (auto intro!: tamed)

lemma tame_fold [tamed]: "(\<And>a x. tame (f a x)) \<Longrightarrow> tame (wfold f acc xs)"
  by (induction xs arbitrary: acc) (auto intro!: tamed)

lemma tame_if [tamed]: "tame f \<Longrightarrow> tame g \<Longrightarrow> tame (if b then f else g)"
  by simp

lemma tame_option [tamed]: "tame a \<Longrightarrow> (\<And>y. tame (f y)) \<Longrightarrow> tame (case x of None \<Rightarrow> a | Some y \<Rightarrow> f y)"
  by (cases x) auto

lemma tame_prod [tamed]: "(\<And>x y. tame (f x y)) \<Longrightarrow> tame (case p of (x, y) \<Rightarrow> f x y)"
  by (cases p) auto

lemma tame_json [tamed]:
  "tame a \<Longrightarrow> (\<And>x. tame (b x)) \<Longrightarrow> (\<And>m k. tame (c m k)) \<Longrightarrow> (\<And>x. tame (d x)) \<Longrightarrow> (\<And>x. tame (e x)) \<Longrightarrow> (\<And>x. tame (f x)) \<Longrightarrow>
   tame (case j of JNull \<Rightarrow> a | JBool x \<Rightarrow> b x | JNum m k \<Rightarrow> c m k | JStr x \<Rightarrow> d x | JArr x \<Rightarrow> e x | JObj x \<Rightarrow> f x)"
  by (cases j) auto

lemma misplaced_not [simp]:
  "\<not> misplaced WireTypeError" "\<not> misplaced StackExceeded" "\<not> misplaced (UnknownPredicate n)" "\<not> misplaced (UnknownCondition c)"
  "\<not> misplaced (UnknownTable n)" "\<not> misplaced (UnknownTransform n)" "\<not> misplaced (MapUnmatched k)" "\<not> misplaced (UnknownEffect n)"
  "\<not> misplaced (ConcatNeedsArray s n)"
  by (simp_all add: misplaced_def)

text \<open>What the registry throws is its own.\<close>

definition reg_tame :: "wire_registry \<Rightarrow> bool" where
  "reg_tame reg \<longleftrightarrow>
     (\<forall>name fn v c e. rg_transforms reg name = Some fn \<longrightarrow> fn v c = Inl e \<longrightarrow> \<not> misplaced e)
     \<and> (\<forall>name p c e. rg_predicates reg name = Some p \<longrightarrow> p c = Inl e \<longrightarrow> \<not> misplaced e)"

lemma tame_parts [tamed]:
  "tame (path_in r p)" "tame (pair_at j)" "tame (list_at ctx name)" "tame (has_part_type tys ctx)"
  "tame (as_list v)" "tame (read_path ctx j)" "tame (look_up ctx t j)"
  by (auto simp: path_in_def pair_at_def list_at_def has_part_type_def as_list_def read_path_def look_up_def
      intro!: tamed split: json.split option.split list.split)

lemma tame_predicates: "reg_tame reg \<Longrightarrow> tame (run_predicate reg name ctx)" "reg_tame reg \<Longrightarrow> tame (is_function_tool reg ctx)"
  by (auto simp: run_predicate_def is_function_tool_def reg_tame_def intro!: tamed split: option.split)

lemma tame_cond: assumes "reg_tame reg" shows "tame (evalCond n reg ctx c)"
proof (induction n arbitrary: c)
  case 0
  then show ?case by (cases c) (auto intro!: tamed)
next
  case (Suc n)
  show ?case
  proof (cases c)
    case (Some d)
    show ?thesis
    proof (cases d)
      case (JObj kvs)
      then show ?thesis using Some
        by (cases "read_cond kvs") (auto intro!: tamed tame_predicates[OF assms] Suc split: option.split json.split)
    qed (use Some in \<open>auto intro!: tamed\<close>)
  qed (auto intro!: tamed)
qed

lemma tame_case [tamed]: "(\<And>c. tame (h c)) \<Longrightarrow> (\<And>t. tame (e t)) \<Longrightarrow> tame (take_case h e ks)"
  by (induction ks) (auto intro!: tamed split: json.split)

lemma tame_template: assumes "reg_tame reg" shows "tame (evalTemplate n reg ctx t)"
proof (induction n arbitrary: t ctx)
  case 0
  then show ?case by (simp add: tamed)
next
  case (Suc n)
  have tr: "tame (wlift (fn v ctx))" if "rg_transforms reg name = Some fn" for name fn v
    using assms that by (intro tamed) (auto simp: reg_tame_def)
  have call: "tame (case rg_transforms reg name of None \<Rightarrow> wfail (UnknownTransform name) | Some fn \<Rightarrow> wbind (m fn) (\<lambda>arg. wlift (fn arg ctx)))"
    if "\<And>fn. tame (m fn)" for name and m :: "_ \<Rightarrow> json option wire"
    using that tr[of name] by (cases "rg_transforms reg name") (simp_all add: tame_fail tame_bind)
  show ?case unfolding evalTemplate.simps Let_def
    by (intro call tamed Suc tame_cond[OF assms]; simp)
qed

section \<open>Typed accumulators\<close>

definition typed_out :: "accumulator dict \<Rightarrow> json dict \<Rightarrow> bool" where
  "typed_out decls out \<longleftrightarrow>
     (\<forall>name d. map_of decls name = Some d \<longrightarrow> (\<exists>v. map_of out name = Some v \<and> (ad_array d \<longrightarrow> (\<exists>xs. v = JArr xs))))"

text \<open>An effect is code of the registry that changes the accumulators itself: it has to keep their kinds.\<close>

definition effects_typed :: "wire_registry \<Rightarrow> accumulator dict \<Rightarrow> bool" where
  "effects_typed reg decls \<longleftrightarrow>
     (\<forall>name fn ctx. rg_effects reg name = Some fn \<longrightarrow> typed_out decls (out_of ctx) \<longrightarrow>
        (case fn ctx of Inl e \<Rightarrow> \<not> misplaced e | Inr ctx1 \<Rightarrow> typed_out decls (out_of ctx1)))"

text \<open>A rule that runs an effect, or emits into declared accumulators with the mode of their kind.\<close>

definition rule_typed :: "accumulator dict \<Rightarrow> emit_rule \<Rightarrow> bool" where
  "rule_typed decls r \<longleftrightarrow> truthy_str (er_effect r) \<noteq> None
     \<or> (\<exists>names. er_emit r = Some names
        \<and> (\<forall>n\<in>set names. \<exists>d. map_of decls n = Some d \<and> (er_mode r = ''scalar'' \<longleftrightarrow> \<not> ad_array d)))"

lemma emit_one_typed:
  assumes "typed_out decls out" "map_of decls n = Some d" "mode = ''scalar'' \<longleftrightarrow> \<not> ad_array d"
  shows "case emit_one sid mode v out n of Inl e \<Rightarrow> \<not> misplaced e | Inr out1 \<Rightarrow> typed_out decls out1"
proof -
  obtain x where x: "map_of out n = Some x" "ad_array d \<longrightarrow> (\<exists>xs. x = JArr xs)" using assms(1,2) unfolding typed_out_def by blast
  have upd: "typed_out decls (AList.update n y out)" if "ad_array d \<longrightarrow> (\<exists>xs. y = JArr xs)" for y
    using assms(1,2) that by (auto simp: typed_out_def update_conv')
  show ?thesis
  proof (cases "ad_array d")
    case True
    then obtain xs where "x = JArr xs" using x(2) by blast
    then show ?thesis using x(1) True assms(3) upd by (auto simp: emit_one_def split: json.split)
  next
    case False
    then show ?thesis using x(1) assms(3) upd by (simp add: emit_one_def)
  qed
qed

lemma emitInto_typed:
  "typed_out decls out \<Longrightarrow> \<forall>n\<in>set names. \<exists>d. map_of decls n = Some d \<and> (mode = ''scalar'' \<longleftrightarrow> \<not> ad_array d) \<Longrightarrow>
   (case emitInto sid mode v out names of Inl e \<Rightarrow> \<not> misplaced e | Inr out1 \<Rightarrow> typed_out decls out1)"
proof (induction names arbitrary: out)
  case (Cons n names)
  then obtain d where d: "map_of decls n = Some d" "mode = ''scalar'' \<longleftrightarrow> \<not> ad_array d" by auto
  show ?case
  proof (cases "emit_one sid mode v out n")
    case (Inl e)
    then show ?thesis using emit_one_typed[OF Cons.prems(1) d, of sid v] by simp
  next
    case (Inr out1)
    then have "typed_out decls out1" using emit_one_typed[OF Cons.prems(1) d, of sid v] by simp
    then show ?thesis using Cons.IH[of out1] Cons.prems(2) Inr by simp
  qed
qed simp

text \<open>\<open>f\<close> never misplaces a value and keeps the kinds.\<close>

definition keeps :: "accumulator dict \<Rightarrow> (json dict \<Rightarrow> json dict wire) \<Rightarrow> bool" where
  "keeps decls f \<longleftrightarrow>
     (\<forall>out s. typed_out decls out \<longrightarrow> (\<forall>e. f out s = Inl e \<longrightarrow> \<not> misplaced e) \<and> (\<forall>out1 s1. f out s = Inr (out1, s1) \<longrightarrow> typed_out decls out1))"

lemma keepsdest:
  "keeps decls f \<Longrightarrow> typed_out decls out \<Longrightarrow> f out s = Inl e \<Longrightarrow> \<not> misplaced e"
  "keeps decls f \<Longrightarrow> typed_out decls out \<Longrightarrow> f out s = Inr (out1, s1) \<Longrightarrow> typed_out decls out1"
  unfolding keeps_def by blast+

lemma keepsintro:
  "(\<And>out s e. typed_out decls out \<Longrightarrow> f out s = Inl e \<Longrightarrow> \<not> misplaced e) \<Longrightarrow>
   (\<And>out s out1 s1. typed_out decls out \<Longrightarrow> f out s = Inr (out1, s1) \<Longrightarrow> typed_out decls out1) \<Longrightarrow> keeps decls f"
  unfolding keeps_def by blast

lemma wbind_error: "wbind m f s = Inl e \<Longrightarrow> m s = Inl e \<or> (\<exists>x s1. m s = Inr (x, s1) \<and> f x s1 = Inl e)"
  by (cases "m s") (auto simp: wbind_def)

lemma wbind_result: "wbind m f s = Inr r \<Longrightarrow> \<exists>x s1. m s = Inr (x, s1) \<and> f x s1 = Inr r"
  by (cases "m s") (auto simp: wbind_def)

lemma keeps_seq:
  assumes f: "keeps decls f" and g: "keeps decls g" shows "keeps decls (\<lambda>out. wbind (f out) g)"
proof (rule keepsintro)
  fix out s e assume t: "typed_out decls out" and "wbind (f out) g s = Inl e"
  then consider "f out s = Inl e" | out1 s1 where "f out s = Inr (out1, s1)" "g out1 s1 = Inl e" using wbind_error by blast
  then show "\<not> misplaced e"
  proof cases
    case 1
    then show ?thesis by (rule keepsdest(1)[OF f t])
  next
    case 2
    show ?thesis by (rule keepsdest(1)[OF g keepsdest(2)[OF f t 2(1)] 2(2)])
  qed
next
  fix out s out2 s2 assume t: "typed_out decls out" and "wbind (f out) g s = Inr (out2, s2)"
  then obtain out1 s1 where 1: "f out s = Inr (out1, s1)" "g out1 s1 = Inr (out2, s2)" using wbind_result by blast
  show "typed_out decls out2" by (rule keepsdest(2)[OF g keepsdest(2)[OF f t 1(1)] 1(2)])
qed

lemma keeps_cond:
  assumes m: "\<And>out. tame (m out)" and f: "\<And>x. keeps decls (f x)" shows "keeps decls (\<lambda>out. wbind (m out) (\<lambda>x. f x out))"
proof (rule keepsintro)
  fix out s e assume t: "typed_out decls out" and "wbind (m out) (\<lambda>x. f x out) s = Inl e"
  then consider "m out s = Inl e" | x s1 where "f x out s1 = Inl e" using wbind_error by blast
  then show "\<not> misplaced e"
  proof cases
    case 1
    then show ?thesis using m[of out] unfolding tame_def by blast
  next
    case 2
    show ?thesis by (rule keepsdest(1)[OF f t 2])
  qed
next
  fix out s out2 s2 assume t: "typed_out decls out" and "wbind (m out) (\<lambda>x. f x out) s = Inr (out2, s2)"
  then obtain x s1 where 1: "f x out s1 = Inr (out2, s2)" using wbind_result by blast
  show "typed_out decls out2" by (rule keepsdest(2)[OF f t 1])
qed

lemma keeps_nil: "keeps decls wret"
  by (rule keepsintro) (auto simp: wret_def)

lemma keeps_fold: "(\<And>x. x \<in> set xs \<Longrightarrow> keeps decls (\<lambda>out. f out x)) \<Longrightarrow> keeps decls (\<lambda>out. wfold f out xs)"
proof (induction xs)
  case Nil
  then show ?case using keeps_nil by simp
next
  case (Cons x xs)
  then show ?case using keeps_seq[of decls "\<lambda>out. f out x" "\<lambda>out. wfold f out xs"] by simp
qed

lemma keeps_effect:
  assumes "effects_typed reg decls" "\<And>out. out_of (ctx_of out) = out"
  shows "keeps decls (\<lambda>out. case rg_effects reg name of
      None \<Rightarrow> wfail (UnknownEffect name) | Some fn \<Rightarrow> wbind (wlift (fn (ctx_of out))) (\<lambda>ctx1. wret (out_of ctx1)))"
proof (cases "rg_effects reg name")
  case None
  then show ?thesis by (auto intro!: keepsintro simp: wfail_def)
next
  case (Some fn)
  have "case fn (ctx_of out) of Inl e \<Rightarrow> \<not> misplaced e | Inr ctx1 \<Rightarrow> typed_out decls (out_of ctx1)" if "typed_out decls out" for out
    using assms(1) Some that assms(2)[of out] unfolding effects_typed_def by metis
  then have "typed_out decls out \<Longrightarrow> fn (ctx_of out) = Inl e \<Longrightarrow> \<not> misplaced e"
    "typed_out decls out \<Longrightarrow> fn (ctx_of out) = Inr ctx1 \<Longrightarrow> typed_out decls (out_of ctx1)" for out e ctx1
    by fastforce+
  then show ?thesis using Some
    by (auto intro!: keepsintro simp: wbind_def wlift_def wret_def split: sum.splits)
qed

lemma keeps_rule:
  assumes "reg_tame reg" "effects_typed reg decls" "\<And>out. out_of (ctx_of out) = out" "rule_typed decls r"
  shows "keeps decls (\<lambda>out. apply_rule fuel reg sid ctx_of out r)"
proof (cases "truthy_str (er_effect r)")
  case (Some name)
  have "keeps decls (\<lambda>out. if \<not> holds then wret out
      else case rg_effects reg name of
        None \<Rightarrow> wfail (UnknownEffect name) | Some fn \<Rightarrow> wbind (wlift (fn (ctx_of out))) (\<lambda>ctx1. wret (out_of ctx1)))" for holds
    using keeps_effect[OF assms(2,3)] keeps_nil by (cases holds) simp_all
  then show ?thesis unfolding apply_rule_def Let_def Some option.case
    by (intro keeps_cond tame_cond[OF assms(1)])
next
  case None
  obtain names where n: "er_emit r = Some names"
    "\<forall>n\<in>set names. \<exists>d. map_of decls n = Some d \<and> (er_mode r = ''scalar'' \<longleftrightarrow> \<not> ad_array d)"
    using assms(4) None by (auto simp: rule_typed_def)
  have e: "keeps decls (\<lambda>out. wlift (emitInto sid (er_mode r) v out names))" for v
  proof (rule keepsintro)
    fix out and s :: "string list option" and er assume "typed_out decls out" "wlift (emitInto sid (er_mode r) v out names) s = Inl er"
    then show "\<not> misplaced er" using emitInto_typed[OF _ n(2), of out sid v] by (auto simp: wlift_def split: sum.splits)
  next
    fix out out1 and s s1 :: "string list option"
    assume "typed_out decls out" "wlift (emitInto sid (er_mode r) v out names) s = Inr (out1, s1)"
    then show "typed_out decls out1" using emitInto_typed[OF _ n(2), of out sid v] by (auto simp: wlift_def split: sum.splits)
  qed
  have v: "keeps decls (\<lambda>out. case v of None \<Rightarrow> wret out | Some value \<Rightarrow> wlift (emitInto sid (er_mode r) value out names))" for v
    by (cases v) (simp_all add: e keeps_nil)
  have t: "tame (case er_as r of None \<Rightarrow> wret (Some JNull) | Some t \<Rightarrow> evalTemplate fuel reg (ctx_of out) t)" for out
    by (intro tamed tame_template[OF assms(1)])
  have b: "keeps decls (\<lambda>out. if \<not> holds then wret out
      else wbind (case er_as r of None \<Rightarrow> wret (Some JNull) | Some t \<Rightarrow> evalTemplate fuel reg (ctx_of out) t)
             (\<lambda>v. case v of None \<Rightarrow> wret out | Some value \<Rightarrow> wlift (emitInto sid (er_mode r) value out names)))" for holds
    using keeps_cond[OF t v] keeps_nil by (cases holds) simp_all
  have n1: "nullish (er_emit r) x = names" for x using n(1) by (simp add: nullish_def)
  show ?thesis unfolding apply_rule_def Let_def n1 None option.case
    by (rule keeps_cond) (rule tame_cond[OF assms(1)], rule b)
qed

section \<open>Streams\<close>

definition event_rule_typed :: "accumulator dict \<Rightarrow> event_rule \<Rightarrow> bool" where
  "event_rule_typed decls r \<longleftrightarrow>
     (\<forall>rs\<in>snd ` set (ev_cases r) \<union> set_option (ev_default r). \<forall>e\<in>set rs. rule_typed decls e)"

lemma picked_typed:
  assumes "event_rule_typed decls r" "e \<in> set (pick_case key (ev_cases r) (ev_default r))" shows "rule_typed decls e"
proof -
  have "\<exists>rs\<in>snd ` set (ev_cases r) \<union> set_option (ev_default r). e \<in> set rs"
  proof (cases "Option.bind key (map_of (ev_cases r))")
    case None
    then show ?thesis using assms(2) by (cases "ev_default r") (auto simp: pick_case_def nullish_def or_else_def)
  next
    case (Some rs)
    then obtain k where "map_of (ev_cases r) k = Some rs" by (cases key) auto
    then have "rs \<in> snd ` set (ev_cases r)" by (force dest: map_of_SomeD)
    then show ?thesis using assms(2) Some by (auto simp: pick_case_def nullish_def or_else_def)
  qed
  then show ?thesis using assms(1) by (auto simp: event_rule_typed_def)
qed

lemma out_of_ctx [simp]: "out_of (at_item ctx x i l) = out_of ctx" "out_of (spec_ctx tables config rest out) = out"
  by (simp_all add: out_of_def at_item_def spec_ctx_def with_out_def member_of_def update_conv')

lemma keeps_scope:
  assumes "reg_tame reg" "effects_typed reg decls" "\<And>out. out_of (ctx_of out) = out" "event_rule_typed decls r"
  shows "keeps decls (\<lambda>out. apply_scope fuel reg sid ctx_of r out sc)"
proof -
  obtain x i l where sc: "sc = (x, i, l)" by (metis prod.exhaust)
  show ?thesis unfolding apply_scope_def sc apply_rules_def prod.case
    by (rule keeps_fold, rule keeps_rule[OF assms(1,2)]) (simp_all add: assms(3) picked_typed[OF assms(4)])
qed

lemma keeps_rules:
  assumes "reg_tame reg" "effects_typed reg decls" "\<And>out. out_of (ctx_of out) = out"
  shows "\<forall>r\<in>set rules. event_rule_typed decls r \<Longrightarrow> keeps decls (\<lambda>out. apply_event_rules fuel reg sid ctx_of raw rules out)"
proof (induction rules)
  case Nil
  then show ?case using keeps_nil by simp
next
  case (Cons r rules)
  have rs: "keeps decls (\<lambda>out. apply_event_rules fuel reg sid ctx_of raw rules out)" using Cons by simp
  have f: "keeps decls (\<lambda>out. wfold (apply_scope fuel reg sid ctx_of r) out (rule_scopes r (ctx_of out) raw))"
  proof (rule keepsintro)
    have k: "keeps decls (\<lambda>out. wfold (apply_scope fuel reg sid ctx_of r) out xs)" for xs
      by (rule keeps_fold) (use keeps_scope[OF assms(1,2)] assms(3) Cons.prems in simp)
    fix out s e assume "typed_out decls out" "wfold (apply_scope fuel reg sid ctx_of r) out (rule_scopes r (ctx_of out) raw) s = Inl e"
    then show "\<not> misplaced e" by (rule keepsdest(1)[OF k])
  next
    have k: "keeps decls (\<lambda>out. wfold (apply_scope fuel reg sid ctx_of r) out xs)" for xs
      by (rule keeps_fold) (use keeps_scope[OF assms(1,2)] assms(3) Cons.prems in simp)
    fix out s out1 s1 assume "typed_out decls out" "wfold (apply_scope fuel reg sid ctx_of r) out (rule_scopes r (ctx_of out) raw) s = Inr (out1, s1)"
    then show "typed_out decls out1" by (rule keepsdest(2)[OF k])
  qed
  have stop: "keeps decls (\<lambda>out1. if ev_stop r then wret out1 else apply_event_rules fuel reg sid ctx_of raw rules out1)"
    using rs keeps_nil by (cases "ev_stop r") simp_all
  note body = keeps_seq[OF f stop]
  have step: "keeps decls (\<lambda>out. if \<not> holds then apply_event_rules fuel reg sid ctx_of raw rules out
      else wbind (wfold (apply_scope fuel reg sid ctx_of r) out (rule_scopes r (ctx_of out) raw))
        (\<lambda>out1. if ev_stop r then wret out1 else apply_event_rules fuel reg sid ctx_of raw rules out1))" for holds
    using rs body by (cases holds) simp_all
  show ?case using keeps_cond[OF tame_cond[OF assms(1)] step, of _ "\<lambda>out. ctx_of out" "\<lambda>out. ev_when r"] by simp
qed

text \<open>The accumulators of a stream are the declared ones and the events.\<close>

definition events_decl :: accumulator where
  "events_decl = \<lparr> ad_array = True, ad_omitEmpty = False, ad_default = None, ad_internal = False \<rparr>"

definition stream_decls :: "stream_spec \<Rightarrow> accumulator dict" where
  "stream_decls spec = (EVENTS, events_decl) # nullish (ss_state spec) []"

lemma init_typed:
  assumes "distinct (map fst ds)"
  shows "map_of ds name = Some d \<Longrightarrow> map_of (initAccumulators (Some ds)) name = Some (if ad_array d then JArr [] else nullish (ad_default d) JNull)"
proof -
  have "map_of (foldl (\<lambda>out (name, d). AList.update name (if ad_array d then JArr [] else nullish (ad_default d) JNull) out) acc ds) name
      = (case map_of ds name of None \<Rightarrow> map_of acc name | Some d \<Rightarrow> Some (if ad_array d then JArr [] else nullish (ad_default d) JNull))" for acc
    using assms
  proof (induction ds arbitrary: acc)
    case (Cons x ds)
    obtain n e where x: "x = (n, e)" by (rule prod.exhaust)
    then have "map_of ds n = None" using Cons.prems by (simp add: map_of_eq_None_iff)
    then show ?case using Cons x by (auto simp: update_conv' split: option.split)
  qed simp
  then show "map_of ds name = Some d \<Longrightarrow> map_of (initAccumulators (Some ds)) name = Some (if ad_array d then JArr [] else nullish (ad_default d) JNull)"
    by (simp add: initAccumulators_def nullish_def)
qed

lemma start_typed:
  assumes "createStreamBuilder spec = Inr out" "distinct (map fst (nullish (ss_state spec) []))" shows "typed_out (stream_decls spec) out"
proof -
  have o: "out = AList.update EVENTS (JArr []) (initAccumulators (ss_state spec))" using assms(1) by (auto simp: createStreamBuilder_def split: if_splits)
  have "map_of (initAccumulators (ss_state spec)) n = Some (if ad_array d then JArr [] else nullish (ad_default d) JNull)"
    if "map_of (nullish (ss_state spec) []) n = Some d" for n d
    using init_typed[OF assms(2) that] by (simp add: initAccumulators_def nullish_def split: option.splits)
  then show ?thesis by (auto simp: o typed_out_def stream_decls_def events_decl_def update_conv')
qed

text \<open>C23: A well-typed stream spec does not go wrong: if its rules emit only into accumulators it declares (each once), pushing
  into lists and assigning scalars, or run effects, and the effects, predicates and transforms of the registry keep the
  kinds and report no misplacement of their own, then whatever events the provider sends, in whatever order, no value is
  ever put into an undeclared accumulator or pushed into a scalar, and after every event each accumulator is still there,
  the lists still lists. (A scalar may hold any value; a rule that concatenates what the provider sent to a list still
  throws when that is no list.)\<close>
theorem typed_stream_never_misplaces:
  assumes "createStreamBuilder spec = Inr out0" "distinct (map fst (nullish (ss_state spec) []))" "reg_tame reg" "effects_typed reg (stream_decls spec)"
    "\<forall>r\<in>set (ss_on spec). event_rule_typed (stream_decls spec) r"
  shows "case stream_events fuel spec reg config inputs out0 of
      Inl e \<Rightarrow> \<not> misplaced e | Inr (evs, out) \<Rightarrow> typed_out (stream_decls spec) out"
proof -
  have k: "keeps (stream_decls spec) (\<lambda>out. apply_event_rules fuel reg sid (\<lambda>o'. at_item (spec_ctx ts config rest o') raw i l) raw (ss_on spec) out)"
    for sid ts rest raw i l
    by (rule keeps_rules[OF assms(3,4) _ assms(5)]) simp
  have one: "case stream_event_of fuel spec reg config name data out of Inl e \<Rightarrow> \<not> misplaced e | Inr (evs, out1) \<Rightarrow> typed_out (stream_decls spec) out1"
    if o: "typed_out (stream_decls spec) out" for name data out
  proof -
    have "typed_out (stream_decls spec) (AList.update EVENTS (JArr []) out)"
      using o by (auto simp: typed_out_def stream_decls_def events_decl_def update_conv' split: if_splits)
    then show ?thesis unfolding stream_event_of_def Let_def
      using keepsdest[OF k] by (auto split: sum.split simp: map_sum_def)
  qed
  have "case stream_events fuel spec reg config inputs out of Inl e \<Rightarrow> \<not> misplaced e | Inr (evs, out1) \<Rightarrow> typed_out (stream_decls spec) out1"
    if "typed_out (stream_decls spec) out" for out
    using that
  proof (induction inputs arbitrary: out)
    case (Cons x inputs)
    obtain name data where x: "x = (name, data)" by (rule prod.exhaust)
    show ?case using one[OF Cons.prems, of name data] Cons.IH x by (fastforce split: sum.splits)
  qed simp
  then show ?thesis using start_typed[OF assms(1,2)] by blast
qed

text \<open>A stream that forwards texts and whose effect records every turn it saw.\<close>

definition text_stream :: stream_spec where
  "text_stream = \<lparr> ss_id = ''text'', ss_state = Some [(''turns'', events_decl)],
     ss_on = [\<lparr> ev_when = None, ev_stop = True, ev_each = None, ev_match = Some [''type''],
       ev_cases = [(''text'', [\<lparr> er_emit = Some [''events''], er_mode = ''push'', er_when = None, er_as = Some (JObj [(''$'', JStr ''raw.text'')]), er_effect = None \<rparr>])],
       ev_default = Some [\<lparr> er_emit = None, er_mode = ''push'', er_when = None, er_as = None, er_effect = Some ''turn'' \<rparr>] \<rparr>],
     ss_tables = None \<rparr>"

definition turn_effect :: "wire_ctx \<Rightarrow> wire_error + wire_ctx" where
  "turn_effect ctx = (case map_of (out_of ctx) ''turns'' of
     Some (JArr xs) \<Rightarrow> Inr (spec_ctx [] [] [] (AList.update ''turns'' (JArr (xs @ [JNull])) (out_of ctx)))
   | _ \<Rightarrow> Inr ctx)"

definition turn_registry :: wire_registry where
  "turn_registry = \<lparr> rg_transforms = (\<lambda>_. None), rg_builders = (\<lambda>_. None), rg_predicates = (\<lambda>_. None),
     rg_effects = (\<lambda>n. if n = ''turn'' then Some turn_effect else None) \<rparr>"

lemma turn_typed: "effects_typed turn_registry decls"
proof -
  have "typed_out decls (AList.update ''turns'' (JArr xs) out)" if "typed_out decls out" for xs out
    using that by (auto simp: typed_out_def update_conv')
  then show ?thesis by (auto simp: effects_typed_def turn_registry_def turn_effect_def split: option.split json.split)
qed

lemma typed_stream_never_misplaces_witness:
  "\<exists>evs out. stream_events 9 text_stream turn_registry [] [(None, ''{}''), (Some ''message'', ''[DONE]'')] [(''turns'', JArr []), (EVENTS, JArr [])]
       = Inr (evs, out)
     \<and> map_of out ''turns'' = Some (JArr [JNull, JNull]) \<and> typed_out (stream_decls text_stream) out"
proof -
  have "createStreamBuilder text_stream = Inr [(''turns'', JArr []), (EVENTS, JArr [])]"
    by (simp add: createStreamBuilder_def text_stream_def initAccumulators_def EVENTS_def events_decl_def nullish_def)
  moreover have "distinct (map fst (nullish (ss_state text_stream) []))" by (simp add: text_stream_def nullish_def)
  moreover have "reg_tame turn_registry" by (simp add: reg_tame_def turn_registry_def)
  moreover have "\<forall>r\<in>set (ss_on text_stream). event_rule_typed (stream_decls text_stream) r"
    by (simp add: text_stream_def event_rule_typed_def rule_typed_def stream_decls_def events_decl_def EVENTS_def nullish_def truthy_str_def)
  ultimately have t: "case stream_events 9 text_stream turn_registry [] [(None, ''{}''), (Some ''message'', ''[DONE]'')] [(''turns'', JArr []), (EVENTS, JArr [])] of
      Inl e \<Rightarrow> \<not> misplaced e | Inr (evs, out) \<Rightarrow> typed_out (stream_decls text_stream) out"
    using typed_stream_never_misplaces[OF _ _ _ turn_typed] by blast
  have "map_sum (\<lambda>_. ()) (\<lambda>r. map_of (snd r) ''turns'')
      (stream_events 9 text_stream turn_registry [] [(None, ''{}''), (Some ''message'', ''[DONE]'')] [(''turns'', JArr []), (EVENTS, JArr [])])
    = Inr (Some (JArr [JNull, JNull]))" by code_simp
  then show ?thesis using t by (auto split: sum.splits)
qed

end
