(* ===== verification/ResponseStore.thy ===== *)
theory ResponseStore
  imports Persistence WireQuery History
begin

text \<open>
  \<open>src/server/response-store.ts\<close>: the server's registry of stored responses, one entry for a response
  id and its owner, with a bounded cache in front of an optional \<open>Persistence\<close>. The cache holds a
  \<open>ConversationHistory\<close>, the persistence its exported snapshot, which a read that misses the cache imports again
  (\<open>History\<close>); a snapshot is a JSON value, which the back ends copy without loss. A history is a value
  here: what its holder appends to it after the put is not seen. The clock is an argument.
\<close>

section \<open>The store\<close>

record 'h stored_response =
  sr_localResponseId :: string
  sr_userId :: "string option"
  sr_createdAt :: ms
  sr_updatedAt :: ms
  sr_targetModel :: string
  sr_targetId :: string
  sr_providerResponseId :: "string option"
  sr_providerStateExpiresAt :: "ms option"
  sr_history :: 'h

text \<open>An entry with its history replaced; \<open>SerializedEntry\<close> holds the same data around a snapshot.\<close>

definition with_history :: "'g \<Rightarrow> 'h stored_response \<Rightarrow> 'g stored_response" where
  "with_history h e =
     \<lparr> sr_localResponseId = sr_localResponseId e, sr_userId = sr_userId e, sr_createdAt = sr_createdAt e,
       sr_updatedAt = sr_updatedAt e, sr_targetModel = sr_targetModel e, sr_targetId = sr_targetId e,
       sr_providerResponseId = sr_providerResponseId e, sr_providerStateExpiresAt = sr_providerStateExpiresAt e,
       sr_history = h \<rparr>"

definition serialized :: "history stored_response \<Rightarrow> history_snapshot stored_response" where
  "serialized e = with_history (export_history (sr_history e)) e"

definition deserialized :: "(nat \<Rightarrow> ms) \<Rightarrow> history_snapshot stored_response \<Rightarrow> history stored_response" where
  "deserialized clock e = with_history (import_history clock (sr_history e)) e"

lemma with_history_simps [simp]:
  "sr_localResponseId (with_history h e) = sr_localResponseId e" "sr_userId (with_history h e) = sr_userId e"
  "sr_history (with_history h e) = h"
  "sr_localResponseId (serialized f) = sr_localResponseId f" "sr_userId (serialized f) = sr_userId f"
  "sr_localResponseId (deserialized c g) = sr_localResponseId g" "sr_userId (deserialized c g) = sr_userId g"
  by (simp_all add: with_history_def serialized_def deserialized_def)

record 's response_store =
  rp_keyPrefix :: string
  rp_memoryCapacity :: nat
  rp_cache :: "history stored_response dict"
  rp_backing :: "'s option"

definition new_ResponseStore :: "'s option \<Rightarrow> string option \<Rightarrow> nat option \<Rightarrow> 's response_store" where
  "new_ResponseStore persistence keyPrefix memoryCapacity =
     \<lparr> rp_keyPrefix = nullish keyPrefix ''response:'', rp_memoryCapacity = nullish memoryCapacity 10000,
       rp_cache = [], rp_backing = persistence \<rparr>"

definition cacheKey :: "string \<Rightarrow> string option \<Rightarrow> string" where
  "cacheKey i user = (case truthy_str user of None \<Rightarrow> i | Some u \<Rightarrow> u @ '':'' @ i)"

definition cacheKeyPrefix :: "string option \<Rightarrow> string" where
  "cacheKeyPrefix user = (case truthy_str user of None \<Rightarrow> [] | Some u \<Rightarrow> u @ '':'')"

definition persistKeyPrefix :: "string \<Rightarrow> string option \<Rightarrow> string" where
  "persistKeyPrefix keyPrefix user =
     (case truthy_str user of None \<Rightarrow> keyPrefix | Some u \<Rightarrow> keyPrefix @ encodeURIComponent u @ '':'')"

definition persistKey :: "string \<Rightarrow> string \<Rightarrow> string option \<Rightarrow> string" where
  "persistKey keyPrefix i user =
     (case truthy_str user of None \<Rightarrow> keyPrefix @ i | Some u \<Rightarrow> keyPrefix @ encodeURIComponent u @ '':'' @ i)"

text \<open>The eviction loop of \<open>putInCache\<close>, oldest first; re-inserting a key makes it the newest.\<close>

fun evict :: "nat \<Rightarrow> 'v dict \<Rightarrow> 'v dict" where
  "evict capacity [] = []"
| "evict capacity (e # es) = (if length (e # es) > capacity then evict capacity es else e # es)"

definition touch :: "string \<Rightarrow> 'v \<Rightarrow> 'v dict \<Rightarrow> 'v dict" where
  "touch k v m = AList.delete k m @ [(k, v)]"

definition putInCache :: "history stored_response \<Rightarrow> 's response_store \<Rightarrow> 's response_store" where
  "putInCache e st =
     st\<lparr> rp_cache := evict (rp_memoryCapacity st)
       (touch (cacheKey (sr_localResponseId e) (sr_userId e)) e (rp_cache st)) \<rparr>"

definition get_response ::
    "('s, history_snapshot stored_response, 'm) kv_ops_scheme \<Rightarrow> (nat \<Rightarrow> ms) \<Rightarrow> string \<Rightarrow> string option \<Rightarrow> 's response_store
      \<Rightarrow> 's response_store \<times> history stored_response option" where
  "get_response ops clock i user st =
     (let key = cacheKey i user
      in case map_of (rp_cache st) key of
           Some cached \<Rightarrow> (st\<lparr> rp_cache := touch key cached (rp_cache st) \<rparr>, Some cached)
         | None \<Rightarrow>
             (case rp_backing st of
                None \<Rightarrow> (st, None)
              | Some s \<Rightarrow>
                  (case kv_get ops (js (persistKey (rp_keyPrefix st) i user)) s of
                     None \<Rightarrow> (st, None)
                   | Some raw \<Rightarrow> (let e = deserialized clock raw in (putInCache e st, Some e)))))"

definition put_response ::
    "('s, history_snapshot stored_response, 'm) kv_ops_scheme \<Rightarrow> ms \<Rightarrow> ms option \<Rightarrow> ms option \<Rightarrow> history stored_response
      \<Rightarrow> 's response_store \<Rightarrow> 's response_store \<times> history stored_response" where
  "put_response ops now createdAt updatedAt entry st =
     (let full = entry\<lparr> sr_createdAt := nullish createdAt now, sr_updatedAt := nullish updatedAt now \<rparr>;
          cached = putInCache full st
      in (cached\<lparr> rp_backing := map_option
            (kv_set ops (js (persistKey (rp_keyPrefix st) (sr_localResponseId full) (sr_userId full))) (serialized full))
            (rp_backing st) \<rparr>, full))"

definition delete_response ::
    "('s, history_snapshot stored_response, 'm) kv_ops_scheme \<Rightarrow> string \<Rightarrow> string option \<Rightarrow> 's response_store
      \<Rightarrow> 's response_store" where
  "delete_response ops i user st =
     st\<lparr> rp_cache := AList.delete (cacheKey i user) (rp_cache st),
         rp_backing := map_option (kv_delete ops (js (persistKey (rp_keyPrefix st) i user))) (rp_backing st) \<rparr>"

text \<open>\<open>list\<close>; the ids it reports are code units of the stored keys.\<close>

definition list_responses ::
    "('s, history_snapshot stored_response, 'm) kv_ops_scheme \<Rightarrow> string option \<Rightarrow> 's response_store \<Rightarrow> js_string list" where
  "list_responses ops user st =
     (case rp_backing st of
        Some s \<Rightarrow>
          (let prefix = js (persistKeyPrefix (rp_keyPrefix st) user)
           in map (drop (length prefix)) (kv_list ops (Some prefix) s))
      | None \<Rightarrow>
          map (\<lambda>(k, e). js (sr_localResponseId e))
            (filter (\<lambda>(k, e). sr_userId e = user \<or> starts_with k (cacheKeyPrefix user)) (rp_cache st)))"

definition hasFreshProviderState :: "history stored_response \<Rightarrow> ms \<Rightarrow> bool" where
  "hasFreshProviderState e now =
     (if truthy_str (sr_providerResponseId e) = None \<or> sr_providerStateExpiresAt e = None then False
      else the (sr_providerStateExpiresAt e) > now)"

section \<open>Keys\<close>

definition named :: "string option \<Rightarrow> bool" where
  "named user = (case user of None \<Rightarrow> False | Some u \<Rightarrow> u \<noteq> [] \<and> CHR '':'' \<notin> set u)"

lemma colon_split:
  "c \<notin> set a \<Longrightarrow> c \<notin> set b \<Longrightarrow> a @ c # x = b @ c # y \<longleftrightarrow> a = b \<and> x = y"
proof (induction a arbitrary: b)
  case Nil
  then show ?case by (cases b) auto
next
  case (Cons d a)
  then show ?case by (cases b) auto
qed

lemma cacheKey_eq: "named u \<Longrightarrow> named v \<Longrightarrow> cacheKey i u = cacheKey j v \<longleftrightarrow> i = j \<and> u = v"
  by (auto simp: named_def cacheKey_def truthy_str_def colon_split split: option.splits)

lemma encoded_plain: "CHR '':'' \<notin> set (encodeURIComponent u)"
proof
  have colon_code: "code_unit (CHR '':'') = 58" by (simp add: code_unit_def)
  assume "CHR '':'' \<in> set (encodeURIComponent u)"
  then obtain c where "CHR '':'' \<in> set (percent c) \<or> is_alnum (CHR '':'')"
    using colon_code by (auto simp: encodeURIComponent_def split: if_splits)
  then show False
    using percent_chars [of "CHR '':''" c] colon_code by (auto simp: is_alnum_def is_digit_def is_small_def)
qed

lemma decodes: "from_utf8 (unescape False (encodeURIComponent u)) = u"
  using decoded [of False u] escaper_encoded [of False u] by (simp add: escaper_def)

lemma encode_eq: "encodeURIComponent u = encodeURIComponent v \<longleftrightarrow> u = v"
  using decodes [of u] decodes [of v] by metis

lemma persistKey_eq:
  "named u \<Longrightarrow> named v \<Longrightarrow> persistKey p i u = persistKey p j v \<longleftrightarrow> i = j \<and> u = v"
  by (auto simp: named_def persistKey_def truthy_str_def colon_split encoded_plain encode_eq split: option.splits)

lemma js_eq: "js a = js b \<longleftrightarrow> a = b"
proof -
  have "unat (word_of_nat (code_unit c) :: 16 word) = code_unit c" for c
    using code_unit_bound [of c] by (simp add: unsigned_of_nat take_bit_nat_eq_self)
  then have "inj (\<lambda>c. word_of_nat (code_unit c) :: 16 word)"
    by (intro injI) (metis char_eq_code)
  then show ?thesis by (simp add: js_def)
qed

section \<open>Sequences of calls and what they should answer\<close>

datatype response_op =
    PutResponse ms "ms option" "ms option" "history stored_response"
  | GetResponse "nat \<Rightarrow> ms" string "string option"
  | DeleteResponse string "string option"

definition op_user :: "response_op \<Rightarrow> string option" where
  "op_user op = (case op of PutResponse _ _ _ e \<Rightarrow> sr_userId e | GetResponse _ _ u \<Rightarrow> u | DeleteResponse _ u \<Rightarrow> u)"

definition response_step ::
    "('s, history_snapshot stored_response, 'm) kv_ops_scheme \<Rightarrow> response_op \<Rightarrow> 's response_store
      \<Rightarrow> 's response_store \<times> history stored_response option" where
  "response_step ops op st =
     (case op of
        PutResponse now c u e \<Rightarrow> map_prod id Some (put_response ops now c u e st)
      | GetResponse clock i u \<Rightarrow> get_response ops clock i u st
      | DeleteResponse i u \<Rightarrow> (delete_response ops i u st, None))"

fun response_run ::
    "('s, history_snapshot stored_response, 'm) kv_ops_scheme \<Rightarrow> response_op list \<Rightarrow> 's response_store
      \<Rightarrow> history stored_response option list" where
  "response_run ops [] st = []"
| "response_run ops (op # rest) st = (let (st', r) = response_step ops op st in r # response_run ops rest st')"

text \<open>The specification: a map from pairs of an id and its owner, without a cache.\<close>

type_synonym response_map = "string \<times> string option \<Rightarrow> history stored_response option"

definition spec_step :: "response_op \<Rightarrow> response_map \<Rightarrow> response_map \<times> history stored_response option" where
  "spec_step op m =
     (case op of
        PutResponse now c u e \<Rightarrow>
          (let full = e\<lparr> sr_createdAt := nullish c now, sr_updatedAt := nullish u now \<rparr>
           in (m((sr_localResponseId e, sr_userId e) \<mapsto> full), Some full))
      | GetResponse clock i u \<Rightarrow> (m, m (i, u))
      | DeleteResponse i u \<Rightarrow> (m((i, u) := None), None))"

fun spec_run :: "response_op list \<Rightarrow> response_map \<Rightarrow> history stored_response option list" where
  "spec_run [] m = []"
| "spec_run (op # rest) m = (let (m', r) = spec_step op m in r # spec_run rest m')"

text \<open>
  An entry is read as it was put, or with its history exported and imported once; then everything but the
  registry of the history and its recorded token count is the same.
\<close>

definition read_as :: "history stored_response \<Rightarrow> history stored_response \<Rightarrow> bool" where
  "read_as e' e \<longleftrightarrow> e' = e \<or> (\<exists>clock. e' = deserialized clock (serialized e))"

lemma read_as_same:
  assumes "read_as e' e"
  shows "e' = with_history (sr_history e') e" "hi_id (sr_history e') = hi_id (sr_history e)"
    "hi_entries (sr_history e') = hi_entries (sr_history e)" "hi_metadata (sr_history e') = hi_metadata (sr_history e)"
    "hi_createdAt (sr_history e') = hi_createdAt (sr_history e)" "hi_updatedAt (sr_history e') = hi_updatedAt (sr_history e)"
  using assms by (auto simp: read_as_def deserialized_def serialized_def with_history_def import_history_def export_history_def
      blank_history_def Let_def)

section \<open>The cache is transparent\<close>

lemma evict_subset: "set (evict n m) \<subseteq> set m"
  by (induction m) auto

lemma in_touched: "p \<in> set (evict n (touch k v m)) \<Longrightarrow> p = (k, v) \<or> p \<in> set m \<and> fst p \<noteq> k"
  using evict_subset [of n "touch k v m"] by (auto simp: touch_def AList.delete_eq)

lemma in_touch: "p \<in> set (touch k v m) \<Longrightarrow> p = (k, v) \<or> p \<in> set m \<and> fst p \<noteq> k"
  by (auto simp: touch_def AList.delete_eq)

locale response_backing = kv_store ops usable inv
  for ops :: "('s, history_snapshot stored_response, 'm) kv_ops_scheme" and usable inv +
  assumes js_usable: "usable (js k)"
begin

definition at_key :: "string \<Rightarrow> 's \<Rightarrow> string \<Rightarrow> string option \<Rightarrow> history_snapshot stored_response option" where
  "at_key p s i u = kv_get ops (js (persistKey p i u)) s"

definition coherent :: "response_map \<Rightarrow> (string \<times> history stored_response) set \<Rightarrow> bool" where
  "coherent m cs = (\<forall>(k, e)\<in>cs. k = cacheKey (sr_localResponseId e) (sr_userId e) \<and> named (sr_userId e)
      \<and> (\<exists>e0. m (sr_localResponseId e, sr_userId e) = Some e0 \<and> read_as e e0))"

definition implements :: "'s response_store \<Rightarrow> response_map \<Rightarrow> bool" where
  "implements st m = (\<exists>s. rp_backing st = Some s \<and> inv s \<and> coherent m (set (rp_cache st))
      \<and> (\<forall>i u. named u \<longrightarrow> at_key (rp_keyPrefix st) s i u = map_option serialized (m (i, u))
           \<and> (\<forall>e. m (i, u) = Some e \<longrightarrow> sr_localResponseId e = i \<and> sr_userId e = u)))"

lemma at_key_set:
  "inv s \<Longrightarrow> named u \<Longrightarrow> named v
    \<Longrightarrow> at_key p (kv_set ops (js (persistKey p i u)) e s) j v = (if (j, v) = (i, u) then Some e else at_key p s j v)"
  using persistKey_eq [of u v p i j]
  by (auto simp: at_key_def get_set get_set_other js_usable js_eq)

lemma at_key_delete:
  "inv s \<Longrightarrow> named u \<Longrightarrow> named v
    \<Longrightarrow> at_key p (kv_delete ops (js (persistKey p i u)) s) j v = (if (j, v) = (i, u) then None else at_key p s j v)"
  using persistKey_eq [of u v p i j]
  by (auto simp: at_key_def get_delete get_delete_other js_usable js_eq)

lemma get_implements:
  assumes "implements st m" "named u" "get_response ops clock i u st = (st', r)"
  shows "rel_option read_as r (m (i, u)) \<and> implements st' m"
proof -
  obtain s where s: "rp_backing st = Some s" "inv s" "coherent m (set (rp_cache st))"
      "\<forall>i u. named u \<longrightarrow> at_key (rp_keyPrefix st) s i u = map_option serialized (m (i, u))
           \<and> (\<forall>e. m (i, u) = Some e \<longrightarrow> sr_localResponseId e = i \<and> sr_userId e = u)"
    using assms(1) by (auto simp: implements_def)
  show ?thesis
  proof (cases "map_of (rp_cache st) (cacheKey i u)")
    case (Some e)
    then have hit: "(cacheKey i u, e) \<in> set (rp_cache st)" by (rule map_of_SomeD)
    with s(3) assms(2) have "\<exists>e0. m (i, u) = Some e0 \<and> read_as e e0"
      by (auto simp: coherent_def cacheKey_eq)
    moreover have "set (touch (cacheKey i u) e (rp_cache st)) \<subseteq> set (rp_cache st)"
      using hit by (auto dest: in_touch)
    then have "coherent m (set (touch (cacheKey i u) e (rp_cache st)))"
      using s(3) by (auto simp: coherent_def)
    moreover have "r = Some e" "st' = st\<lparr> rp_cache := touch (cacheKey i u) e (rp_cache st) \<rparr>"
      using Some assms(3) by (simp_all add: get_response_def Let_def)
    ultimately show ?thesis using s by (auto simp: implements_def)
  next
    case None
    show ?thesis
    proof (cases "m (i, u)")
      case None': None
      then have "at_key (rp_keyPrefix st) s i u = None" using s(4) assms(2) by simp
      with None None' show ?thesis using assms s
        by (auto simp: get_response_def at_key_def)
    next
      case (Some e0)
      let ?e = "deserialized clock (serialized e0)"
      have raw: "at_key (rp_keyPrefix st) s i u = Some (serialized e0)" using s(4) assms(2) Some by simp
      have own: "sr_localResponseId e0 = i" "sr_userId e0 = u" using s(4) assms(2) Some by simp_all
      have as: "read_as ?e e0" by (auto simp: read_as_def)
      then have "coherent m (set (rp_cache (putInCache ?e st)))"
        using s(3) Some assms(2) own by (auto simp: coherent_def putInCache_def dest!: in_touched)
      moreover have "st' = putInCache ?e st" "r = Some ?e"
        using assms(3) None raw s(1) by (auto simp: get_response_def at_key_def Let_def)
      ultimately show ?thesis using s Some as by (auto simp: implements_def putInCache_def)
    qed
  qed
qed

lemma put_implements:
  assumes "implements st m" "named (sr_userId e)" "put_response ops now c u e st = (st', full)"
  shows "full = e\<lparr> sr_createdAt := nullish c now, sr_updatedAt := nullish u now \<rparr>
    \<and> implements st' (m((sr_localResponseId e, sr_userId e) \<mapsto> full))"
proof -
  obtain s where s: "rp_backing st = Some s" "inv s" "coherent m (set (rp_cache st))"
      "\<forall>i u. named u \<longrightarrow> at_key (rp_keyPrefix st) s i u = map_option serialized (m (i, u))
           \<and> (\<forall>e. m (i, u) = Some e \<longrightarrow> sr_localResponseId e = i \<and> sr_userId e = u)"
    using assms(1) by (auto simp: implements_def)
  have full: "full = e\<lparr> sr_createdAt := nullish c now, sr_updatedAt := nullish u now \<rparr>"
    using assms(3) by (simp add: put_response_def Let_def)
  then have same: "sr_localResponseId full = sr_localResponseId e" "sr_userId full = sr_userId e" by simp_all
  let ?m = "m((sr_localResponseId e, sr_userId e) \<mapsto> full)"
  define s' where "s' = kv_set ops (js (persistKey (rp_keyPrefix st) (sr_localResponseId e) (sr_userId e))) (serialized full) s"
  have st': "rp_backing st' = Some s'" "rp_keyPrefix st' = rp_keyPrefix st" "rp_cache st' = rp_cache (putInCache full st)"
    using assms(3) s(1) by (auto simp: put_response_def Let_def s'_def full putInCache_def)
  have look: "at_key (rp_keyPrefix st) s' j v
      = (if (j, v) = (sr_localResponseId e, sr_userId e) then Some (serialized full) else at_key (rp_keyPrefix st) s j v)"
    if "named v" for j v
    unfolding s'_def by (rule at_key_set [OF s(2) assms(2) that])
  have "coherent ?m (set (rp_cache st'))" unfolding coherent_def
  proof (clarsimp simp del: fun_upd_apply)
    fix k x assume "(k, x) \<in> set (rp_cache st')"
    then consider "k = cacheKey (sr_localResponseId e) (sr_userId e)" "x = full"
      | "(k, x) \<in> set (rp_cache st)" "k \<noteq> cacheKey (sr_localResponseId e) (sr_userId e)"
      using same by (auto simp: st' putInCache_def dest!: in_touched)
    then show "k = cacheKey (sr_localResponseId x) (sr_userId x) \<and> named (sr_userId x)
        \<and> (\<exists>e0. ?m (sr_localResponseId x, sr_userId x) = Some e0 \<and> read_as x e0)"
    proof cases
      case 1
      then show ?thesis using assms(2) same by (simp add: read_as_def)
    next
      case 2
      with s(3) have "k = cacheKey (sr_localResponseId x) (sr_userId x)" "named (sr_userId x)"
        "\<exists>e0. m (sr_localResponseId x, sr_userId x) = Some e0 \<and> read_as x e0" by (auto simp: coherent_def)
      with 2 show ?thesis by auto
    qed
  qed
  moreover have "inv s'" unfolding s'_def by (rule set_inv [OF s(2) js_usable])
  ultimately show ?thesis using st' s(4) full same by (auto simp: implements_def look)
qed

lemma delete_implements:
  assumes "implements st m" "named u"
  shows "implements (delete_response ops i u st) (m((i, u) := None))"
proof -
  obtain s where s: "rp_backing st = Some s" "inv s" "coherent m (set (rp_cache st))"
      "\<forall>i u. named u \<longrightarrow> at_key (rp_keyPrefix st) s i u = map_option serialized (m (i, u))
           \<and> (\<forall>e. m (i, u) = Some e \<longrightarrow> sr_localResponseId e = i \<and> sr_userId e = u)"
    using assms(1) by (auto simp: implements_def)
  note look = at_key_delete [OF s(2) assms(2), of _ "rp_keyPrefix st" i]
  have "coherent (m((i, u) := None)) (set (AList.delete (cacheKey i u) (rp_cache st)))"
    using s(3) assms(2) by (fastforce simp: coherent_def AList.delete_eq)
  then show ?thesis using s delete_inv [OF s(2)]
    by (auto simp: implements_def delete_response_def look)
qed

lemma run_implements:
  "implements st m \<Longrightarrow> \<forall>op\<in>set calls. named (op_user op)
    \<Longrightarrow> list_all2 (rel_option read_as) (response_run ops calls st) (spec_run calls m)"
proof (induction calls arbitrary: st m)
  case (Cons op calls)
  obtain st' r where step: "response_step ops op st = (st', r)" by force
  have "rel_option read_as r (snd (spec_step op m)) \<and> implements st' (fst (spec_step op m))"
  proof (cases op)
    case (PutResponse now c u e)
    then obtain full where "put_response ops now c u e st = (st', full)" "r = Some full"
      using step by (cases "put_response ops now c u e st") (auto simp: response_step_def)
    moreover have "named (sr_userId e)" using Cons.prems(2) PutResponse by (simp add: op_user_def)
    ultimately show ?thesis
      using put_implements [OF Cons.prems(1), of e now c u st' full] PutResponse
      by (auto simp: spec_step_def Let_def read_as_def)
  next
    case (GetResponse clock i u)
    with get_implements [OF Cons.prems(1), of u clock i st' r] Cons.prems(2) step show ?thesis
      by (simp add: spec_step_def response_step_def op_user_def)
  next
    case (DeleteResponse i u)
    with delete_implements [OF Cons.prems(1), of u i] Cons.prems(2) step show ?thesis
      by (auto simp: spec_step_def response_step_def op_user_def)
  qed
  with Cons step show ?case by (simp add: split_beta)
qed simp

lemma fresh_implements: "inv s \<Longrightarrow> \<forall>k. kv_get ops k s = None \<Longrightarrow> implements (new_ResponseStore (Some s) p n) (\<lambda>_. None)"
  by (simp add: implements_def new_ResponseStore_def coherent_def at_key_def)

end

interpretation in_memory: response_backing memory_ops "\<lambda>_. True" "\<lambda>s. distinct (map fst s)"
  by unfold_locales simp

lemma js_latin1: "latin1 (js k)"
proof -
  have "unat (word_of_nat (code_unit c) :: 16 word) < 256" for c
    using code_unit_bound [of c] by (simp add: unsigned_of_nat take_bit_nat_eq_self)
  then show ?thesis by (simp add: latin1_def js_def)
qed

interpretation on_disk: response_backing file_ops latin1 dir_inv
  by unfold_locales (rule js_latin1)

section \<open>Properties\<close>


definition sample_response :: "string \<Rightarrow> string \<Rightarrow> history stored_response" where
  "sample_response i u =
     \<lparr> sr_localResponseId = i, sr_userId = Some u, sr_createdAt = 1, sr_updatedAt = 1, sr_targetModel = ''m'', sr_targetId = ''p/m'',
       sr_providerResponseId = None, sr_providerStateExpiresAt = None, sr_history = chat [user_says ''hello''] \<rparr>"


text \<open>
  Without the condition on names it fails in the cache, whose keys are not escaped: the owner \<open>a\<close>, asking
  for the id \<open>b:c\<close>, reads the response \<open>c\<close> of the owner \<open>a:b\<close>.
\<close>

lemma colliding_owner_reads_response:
  "map (map_option sr_userId) (response_run memory_ops
      [PutResponse 1 None None (sample_response ''c'' ''a:b''), GetResponse (\<lambda>_. 9) ''b:c'' (Some ''a'')]
      (new_ResponseStore (Some []) None None))
    = [Some (Some ''a:b''), Some (Some ''a:b'')]"
  by (simp add: response_step_def put_response_def get_response_def putInCache_def touch_def new_ResponseStore_def
      sample_response_def cacheKey_def truthy_str_def nullish_def Let_def)

text \<open>
  Nor does a caller without a name stay apart: listing its responses over a persistent store lists the
  keys of every owner.
\<close>

lemma nameless_lists_all:
  "list_responses memory_ops None
      (fst (put_response memory_ops 1 None None (sample_response ''r'' ''ann'') (new_ResponseStore (Some []) None None)))
    = [js ''ann:r'']"
  by code_simp

end
