(* ===== verification/ToolCatalog.thy ===== *)
theory ToolCatalog
  imports Permissions
begin

text \<open>
  \<open>src/plugins/tool-catalog/\<close>: the registry of tools (\<open>catalog.ts\<close>), the scope that says which of
  them an agent sees and may call, and the gated call. What a tool does with its context is a tree of
  requests: it asks for access and goes on with the answer (a refusal is an exception it may catch),
  emits an event, returns or throws an \<open>Error\<close>. Values that TypeScript cannot vouch for at registration are
  \<open>None\<close> where they do not have the required JavaScript type. A failed call's event carries the error itself
  in place of its message.
\<close>

section \<open>Tools and scopes\<close>

datatype catalog_error =
    ToolNotFound string
  | NoToolAccess string string string
  | PermissionDenied string perm_target string "string option"
  | ToolError string

datatype tool_run =
    Returns json
  | Throws catalog_error
  | ChecksAccess perm_target string "catalog_error option \<Rightarrow> tool_run"
  | Emits string json tool_run

record tool_definition =
  td_name :: "string option"
  td_description :: "string option"
  td_parameters :: "json option"

record cataloged_tool =
  ct_definition :: "tool_definition option"
  ct_category :: string
  ct_declaredTargets :: "json list option"
  ct_declaredActions :: "string list option"
  ct_execute :: "(json dict \<Rightarrow> string \<Rightarrow> string option \<Rightarrow> tool_run) option"

datatype tool_names = EveryTool | OnlyTools "string list"

record agent_scope =
  as_toolNames :: tool_names
  as_externalAllowed :: "bool option"
  as_policy :: "rule list option"

record tool_catalog =
  tl_tools :: "cataloged_tool dict"
  tl_scopes :: "agent_scope dict"
  tl_has_bus :: bool
  tl_defaultPolicy :: "rule list option"

definition new_ToolCatalog :: "bool \<Rightarrow> rule list option \<Rightarrow> tool_catalog" where
  "new_ToolCatalog bus policy =
     \<lparr> tl_tools = [], tl_scopes = [], tl_has_bus = bus, tl_defaultPolicy = policy \<rparr>"

section \<open>Registration\<close>

definition is_object_value :: "json option \<Rightarrow> bool" where
  "is_object_value v = (case v of Some (JObj _) \<Rightarrow> True | Some (JArr _) \<Rightarrow> True | _ \<Rightarrow> False)"

text \<open>\<open>Inl\<close> the message of the \<open>ToolRegistrationError\<close>; \<open>Inr\<close> the name.\<close>

definition validateRegistration :: "cataloged_tool \<Rightarrow> string + string" where
  "validateRegistration tool =
     (case Option.bind (ct_definition tool) (\<lambda>d. truthy_str (td_name d)) of
        None \<Rightarrow> Inl ''tool.definition.name must be a non-empty string''
      | Some name \<Rightarrow>
          let def' = the (ct_definition tool); prefix = ''tool '' @ [CHR 0x27] @ name @ [CHR 0x27] in
          if truthy_str (td_description def') = None then
            Inl (prefix @ '': description must be a non-empty string'')
          else if \<not> is_object_value (td_parameters def') then
            Inl (prefix @ '': parameters must be an object (JSON schema)'')
          else if ct_declaredTargets tool = None then
            Inl (prefix @ '': declaredTargets must be an array'')
          else if nullish (ct_declaredActions tool) [] = [] then
            Inl (prefix @ '': declaredActions must contain at least one entry'')
          else if ct_category tool \<noteq> ''internal'' \<and> ct_category tool \<noteq> ''external'' then
            Inl (prefix @ '': category must be '' @ [CHR 0x27] @ ''internal'' @ [CHR 0x27] @ '' or ''
                 @ [CHR 0x27] @ ''external'' @ [CHR 0x27])
          else if ct_execute tool = None then Inl (prefix @ '': execute must be a function'')
          else Inr name)"

definition register :: "cataloged_tool \<Rightarrow> tool_catalog \<Rightarrow> string + tool_catalog" where
  "register tool cat =
     (case validateRegistration tool of
        Inl e \<Rightarrow> Inl e
      | Inr name \<Rightarrow>
          if map_of (tl_tools cat) name \<noteq> None then
            Inl (''tool '' @ [CHR 0x27] @ name @ [CHR 0x27]
                 @ '' is already registered (unregister first to replace)'')
          else Inr (cat\<lparr> tl_tools := AList.update name tool (tl_tools cat) \<rparr>))"

definition unregister :: "string \<Rightarrow> tool_catalog \<Rightarrow> bool \<times> tool_catalog" where
  "unregister name cat =
     (map_of (tl_tools cat) name \<noteq> None, cat\<lparr> tl_tools := AList.delete name (tl_tools cat) \<rparr>)"

definition has_tool :: "string \<Rightarrow> tool_catalog \<Rightarrow> bool" where
  "has_tool name cat = (map_of (tl_tools cat) name \<noteq> None)"

definition setAgentScope :: "string \<Rightarrow> agent_scope \<Rightarrow> tool_catalog \<Rightarrow> tool_catalog" where
  "setAgentScope agent scope cat =
     cat\<lparr> tl_scopes := AList.update agent
       (scope\<lparr> as_externalAllowed := Some (nullish (as_externalAllowed scope) False) \<rparr>) (tl_scopes cat) \<rparr>"

definition removeAgentScope :: "string \<Rightarrow> tool_catalog \<Rightarrow> tool_catalog" where
  "removeAgentScope agent cat = cat\<lparr> tl_scopes := AList.delete agent (tl_scopes cat) \<rparr>"

definition getAgentScope :: "string \<Rightarrow> tool_catalog \<Rightarrow> agent_scope option" where
  "getAgentScope agent cat = map_of (tl_scopes cat) agent"

section \<open>Discovery\<close>

definition external_open :: "agent_scope \<Rightarrow> bool" where
  "external_open scope = nullish (as_externalAllowed scope) False"

definition name_listed :: "agent_scope \<Rightarrow> string option \<Rightarrow> bool" where
  "name_listed scope name =
     (case as_toolNames scope of EveryTool \<Rightarrow> True | OnlyTools ns \<Rightarrow> (case name of None \<Rightarrow> False | Some n \<Rightarrow> n \<in> set ns))"

definition defined_name :: "cataloged_tool \<Rightarrow> string option" where
  "defined_name tool = Option.bind (ct_definition tool) td_name"

definition scopeAllows :: "agent_scope \<Rightarrow> cataloged_tool \<Rightarrow> bool" where
  "scopeAllows scope tool =
     (if ct_category tool = ''external'' \<and> \<not> external_open scope then False
      else name_listed scope (defined_name tool))"

definition visibleTo :: "string \<Rightarrow> tool_catalog \<Rightarrow> tool_definition option list" where
  "visibleTo agent cat =
     (case map_of (tl_scopes cat) agent of
        None \<Rightarrow> []
      | Some scope \<Rightarrow> map ct_definition (filter (scopeAllows scope) (map snd (tl_tools cat))))"

definition getDefinition :: "string \<Rightarrow> string option \<Rightarrow> tool_catalog \<Rightarrow> tool_definition option" where
  "getDefinition name agent cat =
     (case map_of (tl_tools cat) name of
        None \<Rightarrow> None
      | Some tool \<Rightarrow>
          (case agent of
             None \<Rightarrow> ct_definition tool
           | Some a \<Rightarrow> (case map_of (tl_scopes cat) a of
                 None \<Rightarrow> None
               | Some scope \<Rightarrow> if scopeAllows scope tool then ct_definition tool else None)))"

definition needle_in :: "string option \<Rightarrow> string option \<Rightarrow> bool" where
  "needle_in needle hay =
     (case truthy_str needle of None \<Rightarrow> True | Some n \<Rightarrow> contains (to_lower (nullish hay [])) (to_lower n))"

definition search_tools ::
    "string option \<Rightarrow> string option \<Rightarrow> string option \<Rightarrow> tool_catalog \<Rightarrow> tool_definition option list" where
  "search_tools name description agent cat =
     (let found = (\<lambda>tool. needle_in name (defined_name tool)
                    \<and> needle_in description (Option.bind (ct_definition tool) td_description));
          tools = map snd (tl_tools cat)
      in case agent of
           None \<Rightarrow> map ct_definition (filter found tools)
         | Some a \<Rightarrow> (case map_of (tl_scopes cat) a of
               None \<Rightarrow> []
             | Some scope \<Rightarrow> map ct_definition (filter (\<lambda>t. scopeAllows scope t \<and> found t) tools)))"

section \<open>The gated call\<close>

record tool_request =
  tr_toolName :: string
  tr_source :: string
  tr_input :: "json dict"
  tr_correlationId :: "string option"

record tool_result =
  tq_callId :: string
  tq_output :: json
  tq_durationMs :: ms

text \<open>
  The log holds what reaches the bus, in order, and the answers of \<open>checkAccess\<close>, which do not.
\<close>

datatype catalog_event =
    CallStarted string tool_request
  | CallCompleted string string string json ms
  | CallFailed string string string catalog_error ms
  | ToolEmitted string string json "string option"
  | AccessGranted perm_target string
  | AccessRefused perm_target string

definition checkAccess ::
    "rule list option \<Rightarrow> string \<Rightarrow> perm_target \<Rightarrow> string \<Rightarrow> catalog_error option" where
  "checkAccess policy source target action =
     (case policy of
        None \<Rightarrow> Some (PermissionDenied source target action (Some ''no policy configured (default-deny)''))
      | Some rules \<Rightarrow>
          let decision = check rules source target action
          in if de_allow decision then None
             else Some (PermissionDenied source target action (de_reason decision)))"

definition announce :: "bool \<Rightarrow> catalog_event \<Rightarrow> catalog_event list" where
  "announce bus e = (if bus then [e] else [])"

primrec run_tool ::
    "bool \<Rightarrow> rule list option \<Rightarrow> string \<Rightarrow> string option \<Rightarrow> tool_run \<Rightarrow> catalog_event list \<times> (catalog_error + json)" where
  "run_tool bus policy source corr (Returns v) = ([], Inr v)"
| "run_tool bus policy source corr (Throws e) = ([], Inl e)"
| "run_tool bus policy source corr (ChecksAccess target action k) =
     (let refusal = checkAccess policy source target action;
          seen = (if refusal = None then AccessGranted target action else AccessRefused target action)
      in map_prod ((#) seen) id (run_tool bus policy source corr (k refusal)))"
| "run_tool bus policy source corr (Emits kind payload r) =
     map_prod ((@) (announce bus (ToolEmitted source kind payload corr))) id (run_tool bus policy source corr r)"

text \<open>The checks before a tool runs; \<open>Inr\<close> the tool and the policy its context asks.\<close>

definition gate :: "string \<Rightarrow> string \<Rightarrow> tool_catalog \<Rightarrow> catalog_error + cataloged_tool \<times> rule list option" where
  "gate source name cat =
     (case map_of (tl_tools cat) name of
        None \<Rightarrow> Inl (ToolNotFound name)
      | Some tool \<Rightarrow>
          (case map_of (tl_scopes cat) source of
             None \<Rightarrow> Inl (NoToolAccess source name ''no scope registered for agent'')
           | Some scope \<Rightarrow>
               if \<not> name_listed scope (Some name) then
                 Inl (NoToolAccess source name ''tool not in agent scope'')
               else if ct_category tool = ''external'' \<and> \<not> external_open scope then
                 Inl (NoToolAccess source name ''external tools disabled for this agent'')
               else Inr (tool, or_else (as_policy scope) (tl_defaultPolicy cat))))"

definition execute_tool ::
    "tool_request \<Rightarrow> tool_catalog \<Rightarrow> catalog_event list \<times> (catalog_error + json)" where
  "execute_tool req cat =
     (case gate (tr_source req) (tr_toolName req) cat of
        Inl e \<Rightarrow> ([], Inl e)
      | Inr (tool, policy) \<Rightarrow>
          (case ct_execute tool of
             None \<Rightarrow> ([], Inl (ToolError ''tool.execute is not a function''))
           | Some run \<Rightarrow> run_tool (tl_has_bus cat) policy (tr_source req) (tr_correlationId req)
               (run (tr_input req) (tr_source req) (tr_correlationId req))))"

definition call_tool ::
    "string \<Rightarrow> ms \<Rightarrow> tool_request \<Rightarrow> tool_catalog \<Rightarrow> catalog_event list \<times> (catalog_error + tool_result)" where
  "call_tool callId durationMs req cat =
     (let bus = tl_has_bus cat;
          (log, outcome) = execute_tool req cat;
          started = announce bus (CallStarted callId req)
      in case outcome of
           Inr v \<Rightarrow>
             (started @ log @ announce bus (CallCompleted callId (tr_source req) (tr_toolName req) v durationMs),
              Inr \<lparr> tq_callId = callId, tq_output = v, tq_durationMs = durationMs \<rparr>)
         | Inl e \<Rightarrow>
             (started @ log @ announce bus (CallFailed callId (tr_source req) (tr_toolName req) e durationMs),
              Inl e))"

section \<open>What the gate guarantees\<close>

definition catalog_ok :: "tool_catalog \<Rightarrow> bool" where
  "catalog_ok cat = (distinct (map fst (tl_tools cat)) \<and> (\<forall>(n, t)\<in>set (tl_tools cat). validateRegistration t = Inr n))"

lemma validated_name: "validateRegistration t = Inr n \<Longrightarrow> defined_name t = Some n"
  by (cases "ct_definition t"; cases "td_name (the (ct_definition t))")
    (auto simp: validateRegistration_def defined_name_def truthy_str_def Let_def split: option.splits if_splits)

lemma new_catalog_ok: "catalog_ok (new_ToolCatalog bus policy)"
  by (simp add: catalog_ok_def new_ToolCatalog_def)

lemma update_new: "map_of m k = None \<Longrightarrow> AList.update k v m = m @ [(k, v)]"
  by (induction m) (auto split: if_splits)

lemma register_ok: "catalog_ok cat \<Longrightarrow> register t cat = Inr cat' \<Longrightarrow> catalog_ok cat'"
  by (auto simp: register_def catalog_ok_def update_new map_of_eq_None_iff split: sum.splits if_splits)

lemma set_delete_subset: "set (AList.delete k m) \<subseteq> set m"
  by (auto simp: AList.delete_eq)

lemma unregister_ok: "catalog_ok cat \<Longrightarrow> catalog_ok (snd (unregister n cat))"
  using distinct_delete [of "tl_tools cat" n] set_delete_subset [of n "tl_tools cat"]
  by (auto simp: unregister_def catalog_ok_def)

lemma scope_change_ok [simp]:
  "catalog_ok (setAgentScope a s cat) = catalog_ok cat" "catalog_ok (removeAgentScope a cat) = catalog_ok cat"
  by (simp_all add: catalog_ok_def setAgentScope_def removeAgentScope_def)

definition sees :: "string \<Rightarrow> string \<Rightarrow> tool_catalog \<Rightarrow> bool" where
  "sees source name cat = (Some name \<in> (\<lambda>d. Option.bind d td_name) ` set (visibleTo source cat))"

lemma sees_iff_gate:
  assumes "catalog_ok cat"
  shows "sees source name cat \<longleftrightarrow> (\<exists>p. gate source name cat = Inr p)"
proof (cases "map_of (tl_scopes cat) source")
  case None
  then show ?thesis by (auto simp: sees_def visibleTo_def gate_def split: option.split)
next
  case (Some scope)
  have named: "defined_name t = Some n" if "(n, t) \<in> set (tl_tools cat)" for n t
    using assms that by (auto simp: catalog_ok_def intro: validated_name)
  have "sees source name cat \<longleftrightarrow> (\<exists>t. (name, t) \<in> set (tl_tools cat) \<and> scopeAllows scope t)"
    using Some named by (fastforce simp: sees_def visibleTo_def defined_name_def image_iff)
  also have "\<dots> \<longleftrightarrow> (\<exists>t. map_of (tl_tools cat) name = Some t \<and> scopeAllows scope t)"
    using assms by (auto simp: catalog_ok_def dest: map_of_SomeD)
  also have "\<dots> \<longleftrightarrow> (\<exists>p. gate source name cat = Inr p)"
    using Some named by (auto simp: gate_def scopeAllows_def dest!: map_of_SomeD split: option.split)
  finally show ?thesis .
qed

lemma run_tool_grants:
  "AccessGranted t a \<in> set (fst (run_tool bus policy source corr r)) \<Longrightarrow> checkAccess policy source t a = None"
  by (induction r) (auto simp: Let_def announce_def split: if_splits)

lemma checkAccess_None:
  "checkAccess policy source t a = None \<longleftrightarrow> (\<exists>rules. policy = Some rules \<and> de_allow (check rules source t a))"
  by (auto simp: checkAccess_def Let_def split: option.splits)

lemma validated_runs: "validateRegistration t = Inr n \<Longrightarrow> ct_execute t \<noteq> None"
  by (cases "ct_execute t") (auto simp: validateRegistration_def Let_def split: option.splits if_splits)

lemma gate_facts:
  assumes "catalog_ok cat" "gate source name cat = Inr (tool, policy)"
  obtains scope run where "map_of (tl_tools cat) name = Some tool" "map_of (tl_scopes cat) source = Some scope"
    "or_else (as_policy scope) (tl_defaultPolicy cat) = policy" "ct_execute tool = Some run"
proof -
  obtain scope where s: "map_of (tl_tools cat) name = Some tool" "map_of (tl_scopes cat) source = Some scope"
    "or_else (as_policy scope) (tl_defaultPolicy cat) = policy"
    using assms(2) by (auto simp: gate_def split: option.splits if_splits)
  moreover have "ct_execute tool \<noteq> None"
    using assms(1) map_of_SomeD[OF s(1)] validated_runs by (fastforce simp: catalog_ok_def)
  ultimately show ?thesis using that by blast
qed

text \<open>C19: An agent's tools are exactly the ones it can call, in a catalog whose tools passed the validation of
  \<open>register\<close> (an empty one does, and every operation keeps it). A call of a tool the agent does not see fails,
  without any event of the tool. A call of a tool it sees runs that tool's \<open>execute\<close> with the input, the agent and
  its policy, and ends the way that run ends: with its value or with its exception. Access is only ever granted by
  a rule list: the policy of the agent's scope, or else the default of the catalog, decided to allow it for that
  agent. Without a policy nothing is granted.\<close>

theorem catalog_call_gated:
  assumes "catalog_ok cat" "call_tool callId durationMs req cat = (events, outcome)"
  defines "source \<equiv> tr_source req" and "name \<equiv> tr_toolName req"
  shows "(\<not> sees source name cat \<longrightarrow> (\<exists>e. outcome = Inl e
        \<and> events = announce (tl_has_bus cat) (CallStarted callId req)
              @ announce (tl_has_bus cat) (CallFailed callId source name e durationMs)))
    \<and> (sees source name cat \<longrightarrow> (\<exists>tool scope run log result.
        map_of (tl_tools cat) name = Some tool \<and> map_of (tl_scopes cat) source = Some scope \<and> ct_execute tool = Some run
        \<and> run_tool (tl_has_bus cat) (or_else (as_policy scope) (tl_defaultPolicy cat)) source (tr_correlationId req)
            (run (tr_input req) source (tr_correlationId req)) = (log, result)
        \<and> outcome = map_sum id (\<lambda>v. \<lparr> tq_callId = callId, tq_output = v, tq_durationMs = durationMs \<rparr>) result
        \<and> events = announce (tl_has_bus cat) (CallStarted callId req) @ log
            @ announce (tl_has_bus cat) (case result of Inr v \<Rightarrow> CallCompleted callId source name v durationMs
                | Inl e \<Rightarrow> CallFailed callId source name e durationMs)))
    \<and> (\<forall>t a. AccessGranted t a \<in> set events \<longrightarrow>
        (\<exists>scope rules. map_of (tl_scopes cat) source = Some scope
           \<and> or_else (as_policy scope) (tl_defaultPolicy cat) = Some rules \<and> de_allow (check rules source t a)))"
proof (cases "gate source name cat")
  case (Inl e)
  with assms(2) have "outcome = Inl e \<and> events = announce (tl_has_bus cat) (CallStarted callId req)
              @ announce (tl_has_bus cat) (CallFailed callId source name e durationMs)"
    by (simp add: call_tool_def execute_tool_def source_def name_def Let_def)
  moreover have "\<not> sees source name cat" using sees_iff_gate [OF assms(1)] Inl by simp
  ultimately show ?thesis by (auto simp: announce_def)
next
  case (Inr p)
  then obtain tool policy where p: "gate source name cat = Inr (tool, policy)" by (cases p) simp
  then obtain scope run where scope: "map_of (tl_tools cat) name = Some tool" "map_of (tl_scopes cat) source = Some scope"
      "or_else (as_policy scope) (tl_defaultPolicy cat) = policy" "ct_execute tool = Some run"
    by (rule gate_facts[OF assms(1)])
  obtain log result where r: "run_tool (tl_has_bus cat) policy source (tr_correlationId req)
      (run (tr_input req) source (tr_correlationId req)) = (log, result)" by force
  have x: "execute_tool req cat = (log, result)" using p scope(4) r by (simp add: execute_tool_def source_def name_def)
  have ends: "outcome = map_sum id (\<lambda>v. \<lparr> tq_callId = callId, tq_output = v, tq_durationMs = durationMs \<rparr>) result
    \<and> events = announce (tl_has_bus cat) (CallStarted callId req) @ log
        @ announce (tl_has_bus cat) (case result of Inr v \<Rightarrow> CallCompleted callId source name v durationMs
            | Inl e \<Rightarrow> CallFailed callId source name e durationMs)"
    using assms(2) x by (auto simp: call_tool_def Let_def source_def name_def split: sum.splits)
  have "checkAccess policy source t a = None" if "AccessGranted t a \<in> set events" for t a
  proof -
    have "AccessGranted t a \<in> set log" using ends that by (auto simp: announce_def split: if_splits sum.splits)
    then show ?thesis using run_tool_grants[of t a "tl_has_bus cat" policy source] r by (metis fst_conv)
  qed
  moreover have "sees source name cat" using sees_iff_gate [OF assms(1)] Inr by blast
  ultimately show ?thesis using scope r ends by (auto simp: checkAccess_None)
qed

definition reader_tool :: cataloged_tool where
  "reader_tool = \<lparr> ct_definition = Some \<lparr> td_name = Some ''read'', td_description = Some ''reads'', td_parameters = Some (JObj []) \<rparr>,
     ct_category = ''internal'', ct_declaredTargets = Some [], ct_declaredActions = Some [''read''],
     ct_execute = Some (\<lambda>input source corr. ChecksAccess \<lparr> pt_kind = ''fs'', pt_arguments = None, pt_fields = [] \<rparr> ''read''
       (\<lambda>refusal. case refusal of Some e \<Rightarrow> Throws e | None \<Rightarrow> Returns (JStr ''data''))) \<rparr>"

definition reader_catalog :: tool_catalog where
  "reader_catalog = (case register reader_tool (new_ToolCatalog True (Some
       [\<lparr> ru_source = None, ru_target = None, ru_action = Some (OneName ''read''), ru_effect = Allow, ru_reason = None \<rparr>])) of
     Inr c \<Rightarrow> setAgentScope ''a'' \<lparr> as_toolNames = OnlyTools [''read''], as_externalAllowed = None, as_policy = None \<rparr>
       (setAgentScope ''b'' \<lparr> as_toolNames = OnlyTools [], as_externalAllowed = None, as_policy = None \<rparr> c)
   | Inl _ \<Rightarrow> new_ToolCatalog True None)"

definition read_request :: "string \<Rightarrow> tool_request" where
  "read_request agent = \<lparr> tr_toolName = ''read'', tr_source = agent, tr_input = [], tr_correlationId = None \<rparr>"

lemma reader_catalog_ok: "catalog_ok reader_catalog"
  by code_simp

lemma catalog_call_gated_witness:
  "(\<exists>e. snd (call_tool ''tc'' 1 (read_request ''b'') reader_catalog) = Inl e)
    \<and> (\<exists>scope. map_of (tl_scopes reader_catalog) ''a'' = Some scope)
    \<and> snd (call_tool ''tc'' 1 (read_request ''a'') reader_catalog)
      = Inr \<lparr> tq_callId = ''tc'', tq_output = JStr ''data'', tq_durationMs = 1 \<rparr>"
proof -
  let ?target = "\<lparr> pt_kind = ''fs'', pt_arguments = None, pt_fields = [] \<rparr>"
  obtain lb ob where b: "call_tool ''tc'' 1 (read_request ''b'') reader_catalog = (lb, ob)" by force
  obtain la oa where a: "call_tool ''tc'' 1 (read_request ''a'') reader_catalog = (la, oa)" by force
  have unseen: "\<not> sees ''b'' ''read'' reader_catalog" by code_simp
  have ran: "snd (call_tool ''tc'' 1 (read_request ''a'') reader_catalog)
      = Inr \<lparr> tq_callId = ''tc'', tq_output = JStr ''data'', tq_durationMs = 1 \<rparr>"
    by code_simp
  have seen: "sees ''a'' ''read'' reader_catalog" by code_simp
  have "\<exists>scope. map_of (tl_scopes reader_catalog) ''a'' = Some scope"
    using catalog_call_gated [OF reader_catalog_ok a, THEN conjunct2, THEN conjunct1] seen by (auto simp: read_request_def)
  moreover have "\<exists>e. ob = Inl e"
    using catalog_call_gated [OF reader_catalog_ok b, THEN conjunct1] unseen by (auto simp: read_request_def)
  ultimately show ?thesis using ran b by simp
qed

text \<open>A tool of the agent's scope that it may not touch anything with: every access is refused.\<close>

lemma no_policy_refuses: "checkAccess None source t a \<noteq> None"
  by (simp add: checkAccess_def)

end
