(* ===== verification/Configuration.thy ===== *)
theory Configuration
  imports Prelude
begin

text \<open>
  \<open>src/plugins/configuration/configuration.ts\<close>: named settings bundles that extend one another. A
  setting is an opaque immutable value, so \<open>deepFreeze(deepClone(x))\<close> is the identity. What the
  attached storage holds under the storage key is an argument of \<open>load\<close> and a result of \<open>save\<close>.
\<close>

section \<open>The registry\<close>

record 'v configurations =
  cf_entries :: "'v dict dict"
  cf_parents :: "string dict"

record 'v serialized =
  se_version :: nat
  se_entries :: "'v dict dict option"
  se_parents :: "string dict option"

datatype config_error = EmptyName | UnknownBase string | UnsupportedVersion nat | NoPersistence

definition new_configurations :: "'v dict dict option \<Rightarrow> 'v configurations" where
  "new_configurations initial =
     \<lparr> cf_entries = spread [] (nullish initial []), cf_parents = [] \<rparr>"

definition set_config :: "string \<Rightarrow> 'v dict \<Rightarrow> 'v configurations \<Rightarrow> config_error + 'v configurations" where
  "set_config name settings c =
     (if name = [] then Inl EmptyName else Inr (c\<lparr> cf_entries := AList.update name settings (cf_entries c) \<rparr>))"

definition has_config :: "string \<Rightarrow> 'v configurations \<Rightarrow> bool" where
  "has_config name c = (map_of (cf_entries c) name \<noteq> None \<or> map_of (cf_parents c) name \<noteq> None)"

definition extend_config ::
    "string \<Rightarrow> string \<Rightarrow> 'v dict \<Rightarrow> 'v configurations \<Rightarrow> config_error + 'v configurations" where
  "extend_config baseName newName overrides c =
     (if \<not> has_config baseName c then Inl (UnknownBase baseName)
      else Inr (c\<lparr> cf_parents := AList.update newName baseName (cf_parents c),
                   cf_entries := AList.update newName overrides (cf_entries c) \<rparr>))"

definition delete_config :: "string \<Rightarrow> 'v configurations \<Rightarrow> 'v configurations" where
  "delete_config name c =
     c\<lparr> cf_entries := AList.delete name (cf_entries c), cf_parents := AList.delete name (cf_parents c) \<rparr>"

definition config_names :: "'v configurations \<Rightarrow> string list" where
  "config_names c = rev (remdups (rev (map fst (cf_entries c) @ map fst (cf_parents c))))"

text \<open>
  The loop of \<open>get\<close>: the names on the way up, nearest first. An empty name and a name seen before end
  it, so a circle of parents does too.
\<close>

function ancestry :: "string dict \<Rightarrow> string option \<Rightarrow> string list \<Rightarrow> string list" where
  "ancestry ps None seen = []"
| "ancestry ps (Some current) seen =
     (if current = [] \<or> current \<in> set seen then []
      else current # ancestry ps (map_of ps current) (current # seen))"
  by pat_completeness auto
termination
proof (relation "measure (\<lambda>(ps, cur, seen).
    card (fst ` set ps - set seen) + (case cur of None \<Rightarrow> 0 | Some _ \<Rightarrow> 1))", goal_cases)
  case 1
  show ?case by simp
next
  case (2 ps current seen)
  show ?case
  proof (cases "map_of ps current")
    case None
    then have "current \<notin> fst ` set ps" by (simp add: map_of_eq_None_iff)
    then have "fst ` set ps - set (current # seen) = fst ` set ps - set seen" by auto
    with None show ?thesis by simp
  next
    case (Some p)
    then have "current \<in> fst ` set ps - set seen" using 2 by (force dest: map_of_SomeD)
    moreover have "fst ` set ps - set (current # seen) = (fst ` set ps - set seen) - {current}" by auto
    ultimately have "card (fst ` set ps - set (current # seen)) < card (fst ` set ps - set seen)"
      by (metis card_Diff1_less finite_Diff finite_imageI List.finite_set)
    with Some show ?thesis by simp
  qed
qed

declare ancestry.simps(2) [simp del]

definition layers_of :: "string \<Rightarrow> 'v configurations \<Rightarrow> 'v dict list" where
  "layers_of name c = rev (List.map_filter (map_of (cf_entries c)) (ancestry (cf_parents c) (Some name) []))"

definition get_config :: "string \<Rightarrow> 'v configurations \<Rightarrow> 'v dict option" where
  "get_config name c =
     (if \<not> has_config name c then None
      else let chain = layers_of name c
           in if chain = [] then None else Some (foldl spread [] chain))"

definition serialize :: "'v configurations \<Rightarrow> 'v serialized" where
  "serialize c = \<lparr> se_version = 1, se_entries = Some (spread [] (cf_entries c)),
     se_parents = Some (spread [] (cf_parents c)) \<rparr>"

definition deserialize :: "'v serialized \<Rightarrow> 'v configurations \<Rightarrow> config_error + 'v configurations" where
  "deserialize data c =
     (if se_version data \<noteq> 1 then Inl (UnsupportedVersion (se_version data))
      else Inr (c\<lparr> cf_entries := spread [] (nullish (se_entries data) []),
                   cf_parents := spread [] (nullish (se_parents data) []) \<rparr>))"

text \<open>\<open>None\<close> outside: no storage attached; inside: nothing stored.\<close>

definition load_config ::
    "'v serialized option option \<Rightarrow> 'v configurations \<Rightarrow> (config_error + 'v configurations) \<times> bool" where
  "load_config stored c =
     (case stored of
        None \<Rightarrow> (Inr c, False)
      | Some None \<Rightarrow> (Inr c, False)
      | Some (Some data) \<Rightarrow> (deserialize data c, True))"

definition save_config :: "bool \<Rightarrow> 'v configurations \<Rightarrow> config_error + 'v serialized" where
  "save_config attached c = (if attached then Inr (serialize c) else Inl NoPersistence)"

section \<open>Well-formed registries\<close>

definition config_ok :: "'v configurations \<Rightarrow> bool" where
  "config_ok c = (distinct (map fst (cf_entries c)) \<and> distinct (map fst (cf_parents c))
     \<and> (\<forall>(n, d)\<in>set (cf_entries c). distinct (map fst d)))"

lemma spread_distinct: "distinct (map fst a) \<Longrightarrow> distinct (map fst (spread a b))"
  by (induction b arbitrary: a) (auto simp: spread_def distinct_update)

lemma spread_fresh:
  "distinct (map fst (a @ b)) \<Longrightarrow> spread a b = a @ b"
proof (induction b arbitrary: a)
  case Nil
  then show ?case by (simp add: spread_def)
next
  case (Cons p b)
  obtain k v where p: "p = (k, v)" by force
  have "AList.update k v a = a @ [p]"
    using Cons.prems by (induction a) (auto simp: p)
  with Cons.IH [of "a @ [p]"] Cons.prems show ?case by (simp add: spread_def p)
qed

lemma spread_from_nil: "distinct (map fst b) \<Longrightarrow> spread [] b = b"
  using spread_fresh [of "[]" b] by simp

lemma in_update: "(n, d) \<in> set (AList.update k v m) \<Longrightarrow> (n, d) = (k, v) \<or> (n, d) \<in> set m"
  by (induction m) (auto split: if_splits)

lemma in_delete: "(n, d) \<in> set (AList.delete k m) \<Longrightarrow> (n, d) \<in> set m"
  by (auto simp: AList.delete_eq)

lemma new_configurations_ok:
  assumes "\<forall>(n, d)\<in>set (nullish initial []). distinct (map fst d)" "distinct (map fst (nullish initial []))"
  shows "config_ok (new_configurations initial)"
  using assms by (simp add: new_configurations_def config_ok_def spread_from_nil)

lemma set_config_ok:
  "config_ok c \<Longrightarrow> distinct (map fst settings) \<Longrightarrow> set_config name settings c = Inr c' \<Longrightarrow> config_ok c'"
  by (auto simp: set_config_def config_ok_def distinct_update split: if_splits dest!: in_update)

lemma extend_config_ok:
  "config_ok c \<Longrightarrow> distinct (map fst overrides) \<Longrightarrow> extend_config b name overrides c = Inr c' \<Longrightarrow> config_ok c'"
  by (auto simp: extend_config_def config_ok_def distinct_update split: if_splits dest!: in_update)

lemma delete_config_ok: "config_ok c \<Longrightarrow> config_ok (delete_config name c)"
  by (auto simp: delete_config_def config_ok_def distinct_delete dest!: in_delete)

section \<open>Which layer decides a setting\<close>

definition setting :: "'v configurations \<Rightarrow> string \<Rightarrow> string \<Rightarrow> 'v option" where
  "setting c name k = Option.bind (get_config name c) (\<lambda>m. map_of m k)"

text \<open>The first name on the way up whose own entry has the setting.\<close>

fun nearest :: "'v dict dict \<Rightarrow> string \<Rightarrow> string list \<Rightarrow> 'v option" where
  "nearest es k [] = None"
| "nearest es k (n # ns) = or_else (Option.bind (map_of es n) (\<lambda>d. map_of d k)) (nearest es k ns)"

lemma merged_nearest:
  "\<forall>(n, d)\<in>set es. distinct (map fst d)
    \<Longrightarrow> map_of (foldl spread [] (rev (List.map_filter (map_of es) ns))) k = nearest es k ns"
proof (induction ns)
  case (Cons n ns)
  then have "\<forall>d. map_of es n = Some d \<longrightarrow> distinct (map fst d)" by (force dest: map_of_SomeD)
  with Cons show ?case by (auto simp: map_filter_simps map_of_spread split: option.split)
qed (simp add: map_filter_simps)

lemma nearest_none: "List.map_filter (map_of es) ns = [] \<Longrightarrow> nearest es k ns = None"
  by (induction ns) (auto simp: map_filter_simps split: option.splits)

lemma ancestry_unknown:
  "map_of ps n = None \<Longrightarrow> set (ancestry ps (Some n) seen) \<subseteq> {n}"
  by (simp add: ancestry.simps(2))

lemma no_layers: "\<not> has_config name c \<Longrightarrow> layers_of name c = []"
  using ancestry_unknown [of "cf_parents c" name "[]"]
  by (cases "ancestry (cf_parents c) (Some name) []")
    (auto simp: layers_of_def has_config_def map_filter_def filter_empty_conv)

lemma layers_nearest:
  "config_ok c \<Longrightarrow> map_of (foldl spread [] (layers_of name c)) k
    = nearest (cf_entries c) k (ancestry (cf_parents c) (Some name) [])"
  by (simp add: layers_of_def config_ok_def merged_nearest)

lemma setting_layers: "setting c name k = map_of (foldl spread [] (layers_of name c)) k"
  using no_layers [of name c] by (simp add: setting_def get_config_def Let_def)

lemma setting_nearest:
  "config_ok c \<Longrightarrow> setting c name k = nearest (cf_entries c) k (ancestry (cf_parents c) (Some name) [])"
  by (simp add: setting_layers layers_nearest)

text \<open>A new leaf: seen from it, the names above look as they did before it was added.\<close>

lemma above_new_leaf:
  "map_of ps leaf = None \<Longrightarrow> map_of es leaf = None \<Longrightarrow> set seen' = insert leaf (set seen)
    \<Longrightarrow> nearest (AList.update leaf d es) k (ancestry (AList.update leaf b ps) cur seen')
      = nearest es k (ancestry ps cur seen)"
proof (induction ps cur seen arbitrary: seen' rule: ancestry.induct)
  case (1 ps seen)
  then show ?case by simp
next
  case (2 ps current seen)
  note up = ancestry.simps(2) [of _ current]
  show ?case
  proof (cases "current = [] \<or> current \<in> set seen \<or> current = leaf")
    case True
    then show ?thesis using "2.prems" by (auto simp: up)
  next
    case False
    then have go: "\<not> (current = [] \<or> current \<in> set seen)" "\<not> (current = [] \<or> current \<in> set seen')" "current \<noteq> leaf"
      using "2.prems"(3) by auto
    have "set (current # seen') = insert leaf (set (current # seen))" using "2.prems"(3) by auto
    from "2.IH" [OF go(1) "2.prems"(1,2) this] show ?thesis
      by (simp add: up go update_conv')
  qed
qed

lemma ancestry_without_leaf:
  "leaf \<notin> set (ancestry ps cur seen) \<Longrightarrow> ancestry (AList.update leaf b ps) cur seen = ancestry ps cur seen"
proof (induction ps cur seen rule: ancestry.induct)
  case (2 ps current seen)
  then show ?case
    by (cases "current = [] \<or> current \<in> set seen") (auto simp: ancestry.simps(2) [of _ current] update_conv')
qed simp

lemma nearest_without_leaf:
  "leaf \<notin> set ns \<Longrightarrow> nearest (AList.update leaf d es) k ns = nearest es k ns"
  by (induction ns) (auto simp: update_conv')

text \<open>
  What \<open>extend\<close> gives: a setting of the new name is its override, or else what the base resolves to;
  every name whose way up does not pass through the new one keeps its settings. A dangling or a
  circular chain above the base is allowed.
\<close>

theorem extension_inherits:
  assumes "config_ok c" "distinct (map fst overrides)" "child \<noteq> []" "\<not> has_config child c"
    and "extend_config b child overrides c = Inr c'"
  shows "setting c' child k = or_else (map_of overrides k) (setting c b k)
    \<and> (child \<notin> set (ancestry (cf_parents c) (Some n) []) \<longrightarrow> setting c' n k = setting c n k)"
proof -
  have c': "c' = c\<lparr> cf_parents := AList.update child b (cf_parents c),
      cf_entries := AList.update child overrides (cf_entries c) \<rparr>"
    using assms(5) by (auto simp: extend_config_def split: if_splits)
  have ok': "config_ok c'" by (rule extend_config_ok [OF assms(1,2,5)])
  have new: "map_of (cf_parents c) child = None" "map_of (cf_entries c) child = None"
    using assms(4) by (auto simp: has_config_def)
  have "setting c' child k = or_else (map_of overrides k) (setting c b k)"
    unfolding setting_nearest [OF ok'] setting_nearest [OF assms(1)]
    using assms(3) above_new_leaf [OF new, of "[child]" "[]" overrides k b "Some b"]
    by (simp add: c' ancestry.simps(2) [of _ child] update_conv')
  moreover have "child \<notin> set (ancestry (cf_parents c) (Some n) []) \<Longrightarrow> setting c' n k = setting c n k"
    unfolding setting_nearest [OF ok'] setting_nearest [OF assms(1)]
    by (simp add: c' ancestry_without_leaf nearest_without_leaf)
  ultimately show ?thesis by blast
qed

definition sample_configurations :: "nat configurations" where
  "sample_configurations = new_configurations (Some [(''base'', [(''ttl'', 5), (''rpm'', 60)])])"

lemma extension_inherits_witness:
  "\<exists>c'. extend_config ''base'' ''fast'' [(''rpm'', 600)] sample_configurations = Inr c'
    \<and> setting c' ''fast'' ''ttl'' = or_else None (setting sample_configurations ''base'' ''ttl'')
    \<and> setting c' ''base'' ''rpm'' = Some 60"
proof -
  let ?c = "sample_configurations"
  have ok: "config_ok ?c" "\<not> has_config ''fast'' ?c" by code_simp+
  obtain c' where c': "extend_config ''base'' ''fast'' [(''rpm'', 600)] ?c = Inr c'"
    by (auto simp: extend_config_def sample_configurations_def new_configurations_def has_config_def spread_def)
  have here: "''fast'' \<notin> set (ancestry (cf_parents ?c) (Some ''base'') [])" "setting ?c ''base'' ''rpm'' = Some 60"
    by code_simp+
  show ?thesis
    using extension_inherits [OF ok(1) _ _ ok(2) c', of "''ttl''" "''base''"]
      extension_inherits [OF ok(1) _ _ ok(2) c', of "''rpm''" "''base''"] here c' by simp
qed

text \<open>Saving the registry and loading it into any other one gives it back.\<close>

lemma saved_registry_loads:
  assumes "config_ok c"
  shows "\<exists>data. save_config True c = Inr data \<and> load_config (Some (Some data)) other = (Inr c, True)"
  using assms
  by (simp add: save_config_def load_config_def serialize_def deserialize_def config_ok_def spread_from_nil nullish_def)

text \<open>Extending a name with itself replaces its entry and drops what it had.\<close>

lemma extending_itself_forgets:
  "(case extend_config ''a'' ''a'' [(''x'', 2::nat)] (new_configurations (Some [(''a'', [(''y'', 1)])])) of
      Inr c \<Rightarrow> get_config ''a'' c | Inl _ \<Rightarrow> None) = Some [(''x'', 2)]"
  by code_simp

text \<open>An empty name, which \<open>set\<close> refuses, can be extended into being and is never found.\<close>

lemma empty_name_by_extension:
  "(case extend_config ''a'' [] [(''x'', 2::nat)] (new_configurations (Some [(''a'', [])])) of
      Inr c \<Rightarrow> has_config [] c \<and> get_config [] c = None | Inl _ \<Rightarrow> False)"
  by code_simp

end
