(* ===== verification/Chunker.thy ===== *)
theory Chunker
  imports Prelude
begin

text \<open>
  \<open>src/plugins/retrieval/chunker.ts\<close>: the windows a document is cut into before it is embedded.
  Token budgets are natural numbers; an injected counter is the argument \<open>estimate\<close>. Positions
  that JavaScript reports as \<open>-1\<close> are \<open>None\<close>.
\<close>

section \<open>The cutter\<close>

record text_chunk =
  tc_text :: string
  tc_offset :: nat
  tc_index :: nat

definition gap :: char where "gap = CHR '' ''"

fun first_gap :: "string \<Rightarrow> nat option" where
  "first_gap [] = None"
| "first_gap (c # s) = (if c = gap then Some 0 else map_option Suc (first_gap s))"

definition index_from :: "string \<Rightarrow> nat \<Rightarrow> nat option" where
  "index_from s k = map_option (\<lambda>i. i + k) (first_gap (drop k s))"

definition last_gap :: "string \<Rightarrow> nat option" where
  "last_gap s = map_option (\<lambda>i. length s - 1 - i) (first_gap (rev s))"

text \<open>\<open>lastSpace >= raw.length * MIN_SNAP_FRACTION\<close>, doubled.\<close>

definition snapToWordBoundary :: "string \<Rightarrow> bool \<Rightarrow> string" where
  "snapToWordBoundary raw hasMore =
     (if \<not> hasMore then raw
      else case last_gap raw of
          None \<Rightarrow> raw
        | Some lastSpace \<Rightarrow>
            if lastSpace > 0 \<and> 2 * lastSpace \<ge> length raw then take lastSpace raw else raw)"

definition snapStep :: "string \<Rightarrow> nat \<Rightarrow> nat \<Rightarrow> nat \<Rightarrow> nat" where
  "snapStep text offset step limit =
     (let target = offset + step
      in if target \<ge> length text then length text - offset
         else case index_from text target of
             Some nextSpace \<Rightarrow>
               if nextSpace - offset + 1 \<le> limit then nextSpace - offset + 1 else step
           | None \<Rightarrow> step)"

definition defaultEstimate :: "string \<Rightarrow> nat" where
  "defaultEstimate text = (length text + 3) div 4"

lemma first_gap_Some: "first_gap s = Some i \<Longrightarrow> i < length s \<and> s ! i = gap"
  by (induction s arbitrary: i) (auto split: if_splits)

lemma index_from_Some:
  assumes "index_from s k = Some i"
  shows "k \<le> i \<and> i < length s \<and> s ! i = gap"
proof -
  obtain j where j: "first_gap (drop k s) = Some j" "i = j + k"
    using assms by (auto simp: index_from_def)
  with first_gap_Some [OF j(1)] show ?thesis
    by (auto simp: add.commute nth_drop)
qed

lemma snapStep_pos: "offset < length text \<Longrightarrow> 0 < step \<Longrightarrow> 0 < snapStep text offset step limit"
  by (auto simp: snapStep_def Let_def split: option.split)

function chunk_walk :: "string \<Rightarrow> nat \<Rightarrow> nat \<Rightarrow> nat \<Rightarrow> nat \<Rightarrow> text_chunk list" where
  "chunk_walk text maxChars overlapChars offset index =
     (if length text \<le> offset then []
      else
        let stop = min (offset + maxChars) (length text);
            raw = take (stop - offset) (drop offset text);
            snapped = snapToWordBoundary raw (stop < length text);
            chunk = \<lparr> tc_text = snapped, tc_offset = offset, tc_index = index \<rparr>
        in if stop \<ge> length text then [chunk]
           else
             let step = max (length snapped - overlapChars) 1
             in chunk # chunk_walk text maxChars overlapChars
                  (offset + snapStep text offset step (length snapped + 1)) (index + 1))"
  by pat_completeness auto
termination
proof (relation "measure (\<lambda>(t, m, v, o', i). length t - o')", goal_cases)
  case 1
  show ?case by simp
next
  case (2 t m v o' i e r s c st)
  then have "0 < snapStep t o' st (length s + 1)"
    by (intro snapStep_pos) auto
  with 2 show ?case by auto
qed

declare chunk_walk.simps [simp del]

text \<open>\<open>chunkText\<close>; a budget that is left out is the default of the file.\<close>

definition chunkText ::
    "string \<Rightarrow> nat option \<Rightarrow> nat option \<Rightarrow> (string \<Rightarrow> nat) option \<Rightarrow> text_chunk list" where
  "chunkText text maxTokens overlapTokens estimateTokens =
     (let m = (case maxTokens of None \<Rightarrow> 512 | Some n \<Rightarrow> n);
          v = (case overlapTokens of None \<Rightarrow> 64 | Some n \<Rightarrow> n);
          estimate = (case estimateTokens of None \<Rightarrow> defaultEstimate | Some f \<Rightarrow> f)
      in if text = [] then []
         else if estimate text \<le> m then [\<lparr> tc_text = text, tc_offset = 0, tc_index = 0 \<rparr>]
         else chunk_walk text (m * 4) (v * 4) 0 0)"

section \<open>What the walk guarantees\<close>

lemma snapped_prefix: "\<exists>n. snapToWordBoundary raw more' = take n raw"
  by (auto simp: snapToWordBoundary_def split: option.split intro: exI [of _ "length raw"])

lemma snapped_length: "length (snapToWordBoundary raw more') \<le> length raw"
  using snapped_prefix [of raw more'] by auto

lemma last_gap_less: "last_gap s = Some i \<Longrightarrow> i < length s"
  by (auto simp: last_gap_def dest!: first_gap_Some)

lemma snapped_nonempty: "raw \<noteq> [] \<Longrightarrow> snapToWordBoundary raw more' \<noteq> []"
  by (auto simp: snapToWordBoundary_def split: option.split dest: last_gap_less)

text \<open>A character \<open>i\<close> is in a chunk.\<close>

definition holds :: "text_chunk \<Rightarrow> nat \<Rightarrow> bool" where
  "holds c i = (tc_offset c \<le> i \<and> i < tc_offset c + length (tc_text c))"

definition slice_of :: "string \<Rightarrow> text_chunk \<Rightarrow> bool" where
  "slice_of text c = (tc_text c = take (length (tc_text c)) (drop (tc_offset c) text))"

text \<open>The cursor moves on, and steps over at most one character, a space.\<close>

lemma cursor_moves:
  fixes v :: nat
  assumes "offset < length text" "0 < len" "offset + len < length text"
  defines "next' \<equiv> offset + snapStep text offset (max (len - v) 1) (len + 1)"
  shows "offset < next'" "next' \<le> offset + len \<or> next' = offset + len + 1 \<and> text ! (offset + len) = gap"
proof -
  show "offset < next'" unfolding next'_def using snapStep_pos [OF assms(1), of "max (len - v) 1"] by simp
  show "next' \<le> offset + len \<or> next' = offset + len + 1 \<and> text ! (offset + len) = gap"
  proof (cases "index_from text (offset + max (len - v) 1)")
    case None
    with assms show ?thesis by (auto simp: snapStep_def Let_def)
  next
    case (Some j)
    note index_from_Some [OF Some]
    with Some assms show ?thesis
      by (cases "j - offset + 1 \<le> len + 1"; cases "j = offset + len") (auto simp: snapStep_def Let_def)
  qed
qed

text \<open>One turn of the loop, with the positions it computes named.\<close>

lemma walk_step:
  assumes "0 < m" "offset < length doc"
  obtains (last) "chunk_walk doc m v offset index
        = [\<lparr> tc_text = drop offset doc, tc_offset = offset, tc_index = index \<rparr>]" "length doc \<le> offset + m"
  | (more') snapped nxt where
      "chunk_walk doc m v offset index
        = \<lparr> tc_text = snapped, tc_offset = offset, tc_index = index \<rparr> # chunk_walk doc m v nxt (index + 1)"
      "snapped = take (length snapped) (drop offset doc)"
      "0 < length snapped" "length snapped \<le> m" "offset < nxt"
      "offset + length snapped < length doc"
      "nxt \<le> offset + length snapped \<or> nxt = offset + length snapped + 1 \<and> doc ! (offset + length snapped) = gap"
proof (cases "length doc \<le> offset + m")
  case True
  then show ?thesis
    using assms(2) by (intro last, subst chunk_walk.simps) (auto simp: Let_def snapToWordBoundary_def)
next
  case False
  define raw where "raw = take m (drop offset doc)"
  define snapped where "snapped = snapToWordBoundary raw True"
  define nxt where "nxt = offset + snapStep doc offset (max (length snapped - v) 1) (length snapped + 1)"
  have lraw: "length raw = m" using False by (simp add: raw_def)
  then have ne: "0 < length snapped" using assms(1) snapped_nonempty [of raw] by (auto simp: snapped_def)
  have le: "length snapped \<le> m" using lraw snapped_length [of raw True] by (simp add: snapped_def)
  have slice: "snapped = take (length snapped) (drop offset doc)"
  proof -
    obtain n where n: "snapped = take n raw" using snapped_prefix [of raw True] by (auto simp: snapped_def)
    then show ?thesis by (auto simp: raw_def min_def)
  qed
  have "chunk_walk doc m v offset index
        = \<lparr> tc_text = snapped, tc_offset = offset, tc_index = index \<rparr> # chunk_walk doc m v nxt (index + 1)"
    using assms(2) False by (subst chunk_walk.simps) (simp add: Let_def raw_def snapped_def nxt_def min_def)
  from more' [OF this slice ne le] cursor_moves [OF assms(2) ne, of v, folded nxt_def] False le show ?thesis
    by simp
qed

text \<open>No character but a separating space is left out.\<close>

lemma walk_covers:
  "0 < m \<Longrightarrow> offset \<le> i \<Longrightarrow> i < length doc \<Longrightarrow> doc ! i \<noteq> gap
    \<Longrightarrow> \<exists>c\<in>set (chunk_walk doc m v offset index). holds c i"
proof (induction "length doc - offset" arbitrary: offset index rule: less_induct)
  case less
  then have "offset < length doc" by simp
  from \<open>0 < m\<close> this show ?case
  proof (cases rule: walk_step [where v = v and index = index])
    case last
    then show ?thesis using less.prems by (simp add: holds_def)
  next
    case (more' snapped nxt)
    show ?thesis
    proof (cases "i < offset + length snapped")
      case True
      then show ?thesis using more'(1) less.prems by (auto simp: holds_def)
    next
      case False
      then have "nxt \<le> i" using more'(7) less.prems(4) by (cases "i = offset + length snapped") auto
      then have "\<exists>c\<in>set (chunk_walk doc m v nxt (index + 1)). holds c i"
        using less.hyps [of nxt "index + 1"] less.prems more'(5) by simp
      then show ?thesis using more'(1) by auto
    qed
  qed
qed

text \<open>Every chunk is a piece of the text, within the budget, and starts after the one before.\<close>

lemma walk_pieces:
  "0 < m \<Longrightarrow> offset \<le> length doc
    \<Longrightarrow> (\<forall>c\<in>set (chunk_walk doc m v offset index).
          slice_of doc c \<and> tc_text c \<noteq> [] \<and> length (tc_text c) \<le> m \<and> offset \<le> tc_offset c)
      \<and> sorted_wrt (<) (map tc_offset (chunk_walk doc m v offset index))
      \<and> map tc_index (chunk_walk doc m v offset index)
          = [index..<index + length (chunk_walk doc m v offset index)]"
proof (induction "length doc - offset" arbitrary: offset index rule: less_induct)
  case less
  show ?case
  proof (cases "offset < length doc")
    case False
    then show ?thesis by (simp add: chunk_walk.simps)
  next
    case True
    from \<open>0 < m\<close> True show ?thesis
    proof (cases rule: walk_step [where v = v and index = index])
      case last
      then show ?thesis using True by (simp add: slice_of_def)
    next
      case (more' snapped nxt)
      have "nxt \<le> length doc" using more'(6,7) by auto
      define cs where "cs = chunk_walk doc m v nxt (index + 1)"
      have walk: "chunk_walk doc m v offset index
          = \<lparr> tc_text = snapped, tc_offset = offset, tc_index = index \<rparr> # cs"
        using more'(1) by (simp add: cs_def)
      have rest: "\<forall>c\<in>set cs. slice_of doc c \<and> tc_text c \<noteq> [] \<and> length (tc_text c) \<le> m \<and> nxt \<le> tc_offset c"
          "sorted_wrt (<) (map tc_offset cs)" "map tc_index cs = [index + 1..<index + 1 + length cs]"
        using less.hyps [OF _ \<open>0 < m\<close> \<open>nxt \<le> length doc\<close>, of "index + 1"] more'(5) True
        unfolding cs_def by auto
      have "[index..<index + Suc (length cs)] = index # map tc_index cs"
        by (simp add: rest(3) upt_conv_Cons del: upt_Suc)
      with more'(2-5) rest(1,2) show ?thesis
        unfolding walk by (fastforce simp: slice_of_def)
    qed
  qed
qed

lemma defaultEstimate_bound: "defaultEstimate doc \<le> m \<Longrightarrow> length doc \<le> m * 4"
  by (simp add: defaultEstimate_def)

text \<open>C37: Every character of a document other than a space between words is in a chunk; every chunk is the
  piece of the document at its offset, within the budget when the built-in counter measures it;
  the chunks start one after the other and are numbered from zero. The overlap and the counter are
  arbitrary; the budget is positive.\<close>

theorem document_fully_chunked:
  assumes "0 < maxTokens" and "cs = chunkText doc (Some maxTokens) overlapTokens estimate"
  shows "(\<forall>i < length doc. doc ! i \<noteq> gap \<longrightarrow> (\<exists>c\<in>set cs. holds c i))
    \<and> (\<forall>c\<in>set cs. slice_of doc c \<and> tc_text c \<noteq> [] \<and> (estimate = None \<longrightarrow> length (tc_text c) \<le> maxTokens * 4))
    \<and> sorted_wrt (<) (map tc_offset cs) \<and> map tc_index cs = [0..<length cs]"
proof -
  obtain f v where f: "f = (case estimate of None \<Rightarrow> defaultEstimate | Some f \<Rightarrow> f)"
      and v: "v = (case overlapTokens of None \<Rightarrow> 64 | Some n \<Rightarrow> n) * 4"
    by simp
  consider "doc = []" | "doc \<noteq> []" "f doc \<le> maxTokens" | "doc \<noteq> []" "\<not> f doc \<le> maxTokens" by blast
  then show ?thesis
  proof cases
    case 1
    then show ?thesis by (simp add: assms(2) chunkText_def)
  next
    case 2
    then have "cs = [\<lparr> tc_text = doc, tc_offset = 0, tc_index = 0 \<rparr>]"
      by (simp add: assms(2) chunkText_def f)
    with 2 show ?thesis using defaultEstimate_bound by (auto simp: holds_def slice_of_def f)
  next
    case 3
    then have "cs = chunk_walk doc (maxTokens * 4) v 0 0"
      by (simp add: assms(2) chunkText_def f v)
    with assms(1) walk_covers [of "maxTokens * 4" 0 _ doc v 0] walk_pieces [of "maxTokens * 4" 0 doc v 0]
    show ?thesis by simp
  qed
qed

lemma document_fully_chunked_witness:
  "(\<exists>c\<in>set (chunkText ''ab cd ef gh'' (Some 1) (Some 0) None). holds c 9)
    \<and> map tc_text (chunkText ''ab cd ef gh'' (Some 1) (Some 0) None) = [''ab'', ''cd'', ''ef'', ''gh'']"
proof -
  have run: "chunkText ''ab cd ef gh'' (Some 1) (Some 0) None
      = [\<lparr> tc_text = ''ab'', tc_offset = 0, tc_index = 0 \<rparr>, \<lparr> tc_text = ''cd'', tc_offset = 3, tc_index = 1 \<rparr>,
         \<lparr> tc_text = ''ef'', tc_offset = 6, tc_index = 2 \<rparr>, \<lparr> tc_text = ''gh'', tc_offset = 9, tc_index = 3 \<rparr>]"
    by code_simp
  have "\<exists>c\<in>set (chunkText ''ab cd ef gh'' (Some 1) (Some 0) None). holds c 9"
    using document_fully_chunked [of 1 "chunkText ''ab cd ef gh'' (Some 1) (Some 0) None" "''ab cd ef gh''" "Some 0" None]
    by (simp add: gap_def del: One_nat_def)
  then show ?thesis by (simp only: run list.map text_chunk.simps)
qed

text \<open>
  Only the ASCII space is a boundary: words that are separated by line ends are cut in the middle.
\<close>

lemma line_end_is_no_boundary:
  "map tc_text (chunkText [CHR ''a'', LF, CHR ''b'', CHR ''c'', CHR ''d'', CHR ''e''] (Some 1) (Some 0) None)
    = [[CHR ''a'', LF, CHR ''b'', CHR ''c''], ''de'']"
  by code_simp

text \<open>A budget of zero is accepted, and produces an empty chunk for every character.\<close>

lemma zero_budget_keeps_nothing: "map tc_text (chunkText ''abc'' (Some 0) None None) = [[], [], []]"
  by code_simp

end
