(* ===== verification/Spec2Isabelle.thy ===== *)
theory Spec2Isabelle
  imports QueueTheorems QueueAttempts HookFailures QueueStream Engine Sse HookBus AgentBus
    Cache Scheduler Permissions RegistryTree CostTheorems AgentEnds AgentRequests AgentResume UrlGuard JsonParse Catalog ServerState AgentStream
    WireLaws WireQuery WireDeltas WireTyping ResponseStore ToolCatalog Configuration Chunker
begin

text \<open>
  A verification development for \<open>@combycode/llm-sdk\<close>, the TypeScript SDK under \<open>src/\<close>.
  Paths below are relative to \<open>src/src/\<close>.

  \<^bold>\<open>The program.\<close> The SDK talks to LLM providers. Every provider call goes through the network engine
  (\<open>network/engine.ts\<close>), which keeps one \<open>QueueState\<close> per provider and model: a priority queue of
  requests, a rate limiter, a semaphore of execution slots, a retry policy and a streaming path with an
  SSE parser. The agent loop (\<open>agent/loop.ts\<close>) runs conversations over such a client: it keeps a history
  (\<open>agent/history.ts\<close>) whose system prompt is a layered registry (\<open>agent/context-registry/\<close>), asks the model,
  runs the tools it calls behind guardrails, a policy (\<open>plugins/permissions/\<close>) and an approver, and reports every
  run. What a provider is sent, and what its answers mean, is written in specs that an interpreter reads
  (\<open>wire/\<close>); what a model can do is looked up in the catalog (\<open>catalog/\<close>). Components announce what they do on the hook bus (\<open>bus/hook-bus.ts\<close>); agents talk over the agent bus
  (\<open>bus/agent-bus.ts\<close>). Plugins store (\<open>plugins/persistence/\<close>), cache (\<open>plugins/cache/\<close>), schedule
  (\<open>plugins/scheduler/\<close>) and count cost (\<open>plugins/cost-collector/\<close>).

  \<^bold>\<open>The theories, network.\<close>
  \<^item> \<open>Prelude\<close>, \<open>Json\<close>, \<open>JsonParse\<close>: generic lemmas, JavaScript's number and nullish conventions, JSON values,
    \<open>JSON.stringify\<close> and \<open>JSON.parse\<close> with their round trip.
  \<^item> \<open>Http\<close> (\<open>util/http.ts\<close>, \<open>network/types.ts\<close>): requests, headers, replay safety, redirects.
  \<^item> \<open>Errors\<close> (\<open>network/errors.ts\<close>): \<open>LLMError\<close> and the classification of failed responses.
  \<^item> \<open>RetryPolicy\<close> (\<open>network/queue-state-config.ts\<close> and the decision part of
    \<open>network/queue-state.ts\<close>): merging of policies, whether to retry, how long to wait.
  \<^item> \<open>Semaphore\<close>, \<open>RequestQueue\<close>, \<open>RateLimiter\<close>, \<open>Sse\<close>: the files of the same names.
  \<^item> \<open>QueueState\<close>, \<open>QueueStream\<close> (\<open>network/queue-state.ts\<close>): the queue object and its coroutines. Code
    between two \<open>await\<close>s is one function; \<open>QueueSystem\<close> is the step function over all of them, so a
    run is an arbitrary interleaving. \<open>QueueLedger\<close>, \<open>QueueInvariant\<close>, \<open>QueueSlots\<close> and \<open>QueueConfig\<close>
    carry the invariants: every promise in exactly one place, slots accounted for, work not stranded,
    configuration fixed. \<open>QueueTheorems\<close> states the guarantees, \<open>QueueAttempts\<close> counts how often
    each request is sent and bounds it by the retry budget, \<open>HookFailures\<close> shows what a throwing hook breaks.
  \<^item> \<open>Engine\<close> (\<open>network/engine.ts\<close>): the map of queues and the layering of their configuration.
  \<^item> \<open>HookBus\<close>, \<open>AgentBus\<close> (\<open>bus/hook-bus.ts\<close>, \<open>bus/agent-bus.ts\<close>): dispatch in order, with handlers that
    subscribe and emit while they run.

  \<^bold>\<open>The theories, context and history.\<close>
  \<^item> \<open>Messages\<close> (\<open>llm/types/messages.ts\<close>, \<open>llm/types/response.ts\<close>): content parts, messages, usage.
  \<^item> \<open>ContextRegistry\<close>, \<open>RegistryTree\<close> (\<open>agent/context-registry/\<close>): one registry with its layers, sizes, rendering
    and snapshots; then registries on a heap with parents, subscriptions and change events.
  \<^item> \<open>SystemLayers\<close> (\<open>agent/context-registry/layers.ts\<close>), \<open>History\<close> (\<open>agent/history.ts\<close>): the conversation, its
    truncation, compaction, token estimate, export and import.

  \<^bold>\<open>The theories, agent.\<close>
  \<^item> \<open>Approval\<close> (\<open>agent/approval-types.ts\<close>, \<open>util/hash.ts\<close>): canonical text and 32-bit fingerprint of a call.
  \<^item> \<open>JsonSchema\<close> (\<open>util/json-schema.ts\<close>): the argument validator; \<open>Permissions\<close> (\<open>plugins/permissions/\<close>): globs,
    matchers and the policy.
  \<^item> \<open>AgentTools\<close> (\<open>agent/lazy-tools.ts\<close>, \<open>agent/tool-key.ts\<close>, parts of \<open>agent/loop-internals.ts\<close>): tools, keys,
    the caller check, the ranking behind \<open>tool_search\<close> and the dispatch of \<open>call_tool\<close>.
  \<^item> \<open>AgentState\<close> (\<open>agent/loop.ts\<close>: constructor, registration, staged input, dump and restore): the record \<open>agent\<close>.
  \<^item> \<open>ToolCalls\<close> (\<open>executeSingleTool\<close> and what it calls): one call as a machine whose stages are its \<open>await\<close>s;
    \<open>tool_step\<close> goes from one to the next with the answer of the outside. \<open>ToolSafety\<close>: a tool runs only when
    everything that may stop it let it pass, a withheld output leaves no trace, each call gets one answer and ends.
  \<^item> \<open>AgentLoop\<close> (\<open>complete()\<close>, \<open>beginRun\<close>, \<open>executeToolCalls\<close>, \<open>finalizeRun\<close>, \<open>agent/fallback.ts\<close>,
    \<open>agent/reflect-retry.ts\<close>): the run as a machine; \<open>loop_step\<close> takes any event, also host operations between two
    answers. \<open>AgentRuns\<close>: every call of \<open>complete()\<close> settles once. \<open>AgentReports\<close>: reports add up; input order; what
    a failing start breaks. \<open>AgentRequests\<close>: no request carries an unanswered tool call. \<open>AgentEnds\<close>: runs end.
    \<open>AgentResume\<close>: dump and restore.
  \<^item> \<open>StepStream\<close> (\<open>agent/loop-step-state.ts\<close>, streaming part of \<open>agent/loop-internals.ts\<close>): the events of a step and
    the response made of them; calls that stream together do not mix, with or without ids on their fragments, and
    arguments that were cut off never reach a tool.
    \<open>AgentStream\<close> (\<open>stream()\<close>, \<open>streamWithFallback\<close>): the generator with its consumer, which may leave at any yield;
    every stream that yielded anything is recorded once.

  \<^bold>\<open>The theories, models and wire format.\<close>
  \<^item> \<open>Catalog\<close> (\<open>catalog/catalog.ts\<close>, \<open>catalog/builtin-tools.ts\<close>): the catalog with its three maps.
  \<^item> \<open>ServerState\<close> (\<open>llm/server-state.ts\<close>): continue on the server by an id, or send the conversation again.
  \<^item> \<open>WireEval\<close>, \<open>WireBuild\<close> (\<open>wire/interpreter.ts\<close>): paths, conditions and templates; requests, connections and
    frames from a spec. \<open>WireLaws\<close>: paths as a store, the bound on the nesting, literal templates, withheld tools are
    noted. \<open>WireQuery\<close>: what the query rules ask to send reads back from the address.
  \<^item> \<open>WireInherit\<close>, \<open>WireDeltas\<close> (\<open>wire/inherit.ts\<close>): specs that extend others; resolution is the fold of the chain, a
    delta is an override of maps.
  \<^item> \<open>WireResponse\<close>, \<open>WireTyping\<close> (\<open>wire/response-interpreter.ts\<close>, \<open>wire/stream-interpreter.ts\<close>): responses and streams
    from a spec; a well-typed stream spec never misplaces a value, if the effects it runs keep the kinds.

  \<^bold>\<open>The theories, plugins.\<close>
  \<^item> \<open>Persistence\<close> (memory and file stores), \<open>Cache\<close>, \<open>Durations\<close> (\<open>util/duration.ts\<close>), \<open>Scheduler\<close>: the stores and
    their clients.
  \<^item> \<open>CostCollector\<close>, \<open>CostTheorems\<close> (\<open>plugins/cost-collector/\<close>, prices of \<open>catalog/catalog.ts\<close>): the ledger, its
    queries, budgets.
  \<^item> \<open>ToolCatalog\<close> (\<open>plugins/tool-catalog/\<close>): what an agent sees is what it can call, and a tool is granted only
    what a policy allows. \<open>Configuration\<close> (\<open>plugins/configuration/\<close>): settings that extend others.
    \<open>Chunker\<close> (\<open>plugins/retrieval/chunker.ts\<close>): no word of a document is left out.
  \<^item> \<open>ResponseStore\<close> (\<open>server/response-store.ts\<close>): the cache of live histories over a store of exported ones; responses are kept
    per owner, and an eviction costs no more than an export and import of the history.
  \<^item> \<open>UrlGuard\<close> (\<open>plugins/mcp/url-guard.ts\<close>): which addresses an MCP endpoint may have.

  \<^bold>\<open>Interfaces.\<close> \<open>slots\<close> (semaphore), \<open>priority_queue\<close> (heap), \<open>kv_store\<close> (a key-value store, interpreted for
  \<open>MemoryPersistence\<close> and \<open>FilePersistence\<close>), and its clients \<open>cache_over\<close>, \<open>task_store\<close> and \<open>response_backing\<close>, which extend it:
  the cache, the scheduler and the response store are proved once over any store and interpreted for both. \<open>entry_law\<close> is
  a law of queue entries that the retry path keeps, interpreted for the attempt number and for the number of sends.

  \<^bold>\<open>Conventions.\<close> Code between two \<open>await\<close>s is one function; what an awaited party does (a model, a tool, a hook, a
  guardrail, \<open>fetch\<close>) is an arbitrary argument, which may also be an exception. Doubles that count money or time are
  rationals, and what the code would compute with \<open>Infinity\<close> (a refill interval of 0) is outside the model. \<open>Date.now()\<close>, random numbers and generated identifiers are arguments.

  \<^bold>\<open>Bounds and fuel.\<close> The redirect loop has the four requests of the code. The walks of \<open>RegistryTree\<close> use the
  number of registries as fuel, which is enough because the parent relation stays acyclic. \<open>JSON_parse\<close> uses twice
  the length of its text plus one: no nested call is made without reading a character or entering an element. The evaluator of the
  wire specs takes a bound on the nesting; a bound above the size of the template and of the conditions of the tool
  constraints is never reached, and no larger one changes the result (\<open>bound_is_enough\<close>). Resolving a spec needs no
  bound: the ids already seen shrink what is left. The processing of an event on the agent bus takes a bound on the depth
  of awaited emits, which is enough when reactions descend in some rank of event kinds; other emits may go on for ever.

  \<^bold>\<open>Not modelled.\<close> The client that assembles a call (\<open>llm/client.ts\<close>), the named functions the wire specs call (a
  parameter of their model) and the specs themselves, the realtime connection, MCP apart from its address guard,
  telemetry, retrieval apart from its chunker, media, batches, files, embeddings, the logger, the server apart from its response store, and the helpers: most of them are
  I/O, glue or tables.
\<close>

end
